(* ===== verification/Soc_Prelude.thy ===== *)
theory Soc_Prelude
  imports Complex_Main "HOL-Library.AList" "HOL-Library.List_Lexorder" "HOL-Library.Char_ord"
begin

section \<open>Shared vocabulary: Python values, strings, dictionaries and results\<close>

text \<open>
  What every component of the development shares.
  \<^item> \<open>'e + 'a\<close> is the result of code that may raise: \<open>Inl\<close> is the exception, \<open>Inr\<close> the
    value; \<open>rbind\<close> sequences two such computations, \<open>rmap\<close> is a comprehension whose body may
    raise, and \<open>guard\<close> is an \<^verbatim>\<open>if ...: raise\<close> statement.
  \<^item> \<open>json\<close> is the type of the dynamic values the program inspects with \<^verbatim>\<open>isinstance\<close>: decoded JSON
    or YAML. \<open>JOther\<close> stands for every other object a YAML loader can build (a date, say); no
    \<^verbatim>\<open>isinstance\<close> test of the program accepts it. Keys of objects are strings.
  \<^item> A float is the exact rational it denotes, an infinity or NaN: comparisons of Python floats and
    ints are exact, so they are comparisons of rationals.
  \<^item> A Python string is a list of characters, one per code point, over the code points below 256
    (Latin-1). On that range \<^verbatim>\<open>\d\<close> is the ASCII digits, and \<open>py_strip\<close>, \<open>py_lower\<close> and
    \<open>py_casefold\<close> below are the library's functions; the one code point whose case folding leaves
    the range (the micro sign) is left as it is, which no comparison of folded strings can observe.
  \<^item> A dictionary is an association list in insertion order, read with \<open>map_of\<close> and written
    with \<open>AList.update\<close>.
\<close>

named_theorems soc_simps \<open>rewriting rules for results, dictionaries and strings\<close>

subsection \<open>Results\<close>

definition rbind :: "'e + 'a \<Rightarrow> ('a \<Rightarrow> 'e + 'b) \<Rightarrow> 'e + 'b" where
  "rbind m f = (case m of Inl e \<Rightarrow> Inl e | Inr x \<Rightarrow> f x)"

definition guard :: "bool \<Rightarrow> 'e \<Rightarrow> 'e + unit" where
  "guard ok e = (if ok then Inr () else Inl e)"

fun rmap :: "('a \<Rightarrow> 'e + 'b) \<Rightarrow> 'a list \<Rightarrow> 'e + 'b list" where
  "rmap f [] = Inr []"
| "rmap f (x # xs) = rbind (f x) (\<lambda>y. rbind (rmap f xs) (\<lambda>ys. Inr (y # ys)))"

definition is_ok :: "'e + 'a \<Rightarrow> bool" where
  "is_ok m = (case m of Inl _ \<Rightarrow> False | Inr _ \<Rightarrow> True)"

lemma rbind_simps [simp]:
  "rbind (Inl e) f = Inl e"
  "rbind (Inr x) f = f x"
  by (simp_all add: rbind_def)

lemma rbind_Inr_iff [soc_simps]: "rbind m f = Inr y \<longleftrightarrow> (\<exists>x. m = Inr x \<and> f x = Inr y)"
  by (cases m) simp_all

lemma rbind_Inl_iff [soc_simps]:
  "rbind m f = Inl e \<longleftrightarrow> m = Inl e \<or> (\<exists>x. m = Inr x \<and> f x = Inl e)"
  by (cases m) simp_all

lemma guard_Inr_iff [soc_simps]: "guard ok e = Inr u \<longleftrightarrow> ok"
  by (simp add: guard_def)

lemma guard_Inl_iff [soc_simps]: "guard ok e = Inl e' \<longleftrightarrow> \<not> ok \<and> e' = e"
  by (auto simp: guard_def)

lemma guard_simps [simp]: "guard True e = Inr ()" "guard False e = Inl e"
  by (simp_all add: guard_def)

lemma is_ok_simps [simp]: "is_ok (Inr x)" "\<not> is_ok (Inl e)"
  by (simp_all add: is_ok_def)

lemma is_ok_iff: "is_ok m \<longleftrightarrow> (\<exists>x. m = Inr x)"
  by (cases m) simp_all

lemma rmap_Inr_length: "rmap f xs = Inr ys \<Longrightarrow> length ys = length xs"
  by (induction xs arbitrary: ys) (auto simp: soc_simps)

lemma rmap_Inr_iff: "rmap f xs = Inr ys \<longleftrightarrow> list_all2 (\<lambda>x y. f x = Inr y) xs ys"
proof (induction xs arbitrary: ys)
  case Nil
  then show ?case by auto
next
  case (Cons x xs)
  then show ?case by (cases ys) (auto simp: soc_simps)
qed

lemma rmap_Inr_set: "rmap f xs = Inr ys \<Longrightarrow> y \<in> set ys \<Longrightarrow> \<exists>x \<in> set xs. f x = Inr y"
  by (induction xs arbitrary: ys) (auto simp: soc_simps)

lemma rmap_Inr_all: "rmap f xs = Inr ys \<Longrightarrow> x \<in> set xs \<Longrightarrow> \<exists>y \<in> set ys. f x = Inr y"
  by (induction xs arbitrary: ys) (auto simp: soc_simps)

subsection \<open>Python values\<close>

datatype pyfloat = Fin rat | PosInf | NegInf | NaN

datatype json =
    JNull
  | JBool bool
  | JInt int
  | JFloat pyfloat
  | JStr string
  | JList "json list"
  | JObj "(string \<times> json) list"
  | JOther string

type_synonym obj = "(string \<times> json) list"

definition is_mapping :: "json \<Rightarrow> bool" where
  "is_mapping v = (case v of JObj _ \<Rightarrow> True | _ \<Rightarrow> False)"

text \<open>\<^verbatim>\<open>v.get(key)\<close> on a mapping; a missing key and any other value read as \<open>JNull\<close> where the
  code then tests the type of what it got.\<close>

definition obj_get :: "obj \<Rightarrow> string \<Rightarrow> json" where
  "obj_get d k = (case map_of d k of None \<Rightarrow> JNull | Some v \<Rightarrow> v)"

definition has_key :: "obj \<Rightarrow> string \<Rightarrow> bool" where
  "has_key d k = (k \<in> set (map fst d))"

lemma has_key_iff: "has_key d k \<longleftrightarrow> map_of d k \<noteq> None"
  by (simp add: has_key_def map_of_eq_None_iff)

lemma map_of_size_less [termination_simp]: "map_of d k = Some v \<Longrightarrow> size v < size (JObj d)"
proof (induction d)
  case Nil
  then show ?case by simp
next
  case (Cons kv d)
  then show ?case by (cases kv) (auto split: if_splits)
qed

lemma dict_get_set [simp]: "map_of (AList.update k v d) = (map_of d)(k \<mapsto> v)"
  by (rule update_conv')

subsection \<open>Float comparison\<close>

fun flt_eq :: "pyfloat \<Rightarrow> pyfloat \<Rightarrow> bool" where
  "flt_eq (Fin a) (Fin b) = (a = b)"
| "flt_eq PosInf PosInf = True"
| "flt_eq NegInf NegInf = True"
| "flt_eq _ _ = False"

fun flt_less :: "pyfloat \<Rightarrow> pyfloat \<Rightarrow> bool" where
  "flt_less (Fin a) (Fin b) = (a < b)"
| "flt_less NegInf (Fin _) = True"
| "flt_less NegInf PosInf = True"
| "flt_less (Fin _) PosInf = True"
| "flt_less _ _ = False"

definition flt_le :: "pyfloat \<Rightarrow> pyfloat \<Rightarrow> bool" where
  "flt_le a b = (flt_less a b \<or> flt_eq a b)"

definition num_of :: "json \<Rightarrow> pyfloat option" where
  "num_of v = (case v of JInt i \<Rightarrow> Some (Fin (of_int i)) | JFloat f \<Rightarrow> Some f | _ \<Rightarrow> None)"

subsection \<open>Strings\<close>

definition newline :: char where
  "newline = CHR 0x0A"

definition is_digit :: "char \<Rightarrow> bool" where
  "is_digit c = (CHR ''0'' \<le> c \<and> c \<le> CHR ''9'')"

definition is_lower :: "char \<Rightarrow> bool" where
  "is_lower c = (CHR ''a'' \<le> c \<and> c \<le> CHR ''z'')"

text \<open>\<^verbatim>\<open>str.isspace\<close> of a code point below 256.\<close>

definition is_space :: "char \<Rightarrow> bool" where
  "is_space c = (let n = (of_char c :: nat) in
     (9 \<le> n \<and> n \<le> 13) \<or> (28 \<le> n \<and> n \<le> 32) \<or> n = 133 \<or> n = 160)"

definition py_strip :: "string \<Rightarrow> string" where
  "py_strip s = rev (dropWhile is_space (rev (dropWhile is_space s)))"

text \<open>\<^verbatim>\<open>str.lower\<close>: the ASCII capitals and the Latin-1 capitals 192..222 but the multiplication
  sign 215 move up by 32.\<close>

definition lower_char :: "char \<Rightarrow> char" where
  "lower_char c = (let n = (of_char c :: nat) in
     if (65 \<le> n \<and> n \<le> 90) \<or> (192 \<le> n \<and> n \<le> 222 \<and> n \<noteq> 215) then char_of (n + 32) else c)"

definition py_lower :: "string \<Rightarrow> string" where
  "py_lower s = map lower_char s"

text \<open>\<^verbatim>\<open>str.casefold\<close>: lower case, and the sharp s (223) becomes \<^verbatim>\<open>ss\<close>.\<close>

definition fold_char :: "char \<Rightarrow> string" where
  "fold_char c = (if (of_char c :: nat) = 223 then ''ss'' else [lower_char c])"

definition py_casefold :: "string \<Rightarrow> string" where
  "py_casefold s = concat (map fold_char s)"

definition starts_with :: "string \<Rightarrow> string \<Rightarrow> bool" where
  "starts_with s p = (take (length p) s = p)"

definition ends_with :: "string \<Rightarrow> string \<Rightarrow> bool" where
  "ends_with s p = (length p \<le> length s \<and> drop (length s - length p) s = p)"

fun str_contains :: "string \<Rightarrow> string \<Rightarrow> bool" where
  "str_contains [] p = (p = [])"
| "str_contains (c # cs) p = (starts_with (c # cs) p \<or> str_contains cs p)"

text \<open>\<^verbatim>\<open>s.split(sep)\<close> for a one-character separator.\<close>

fun py_split :: "char \<Rightarrow> string \<Rightarrow> string list" where
  "py_split c [] = [[]]"
| "py_split c (x # xs) =
     (if x = c then [] # py_split c xs
      else (case py_split c xs of [] \<Rightarrow> [[x]] | y # ys \<Rightarrow> (x # y) # ys))"

fun join_with :: "string \<Rightarrow> string list \<Rightarrow> string" where
  "join_with sep [] = []"
| "join_with sep [x] = x"
| "join_with sep (x # y # ys) = x @ sep @ join_with sep (y # ys)"

fun digits_to_nat :: "nat \<Rightarrow> string \<Rightarrow> nat" where
  "digits_to_nat acc [] = acc"
| "digits_to_nat acc (c # cs) = digits_to_nat (acc * 10 + (of_char c - 48)) cs"

fun nat_to_dec :: "nat \<Rightarrow> string" where
  "nat_to_dec n = (if n < 10 then [char_of (48 + n)] else nat_to_dec (n div 10) @ [char_of (48 + n mod 10)])"

declare nat_to_dec.simps [simp del]

definition int_to_dec :: "int \<Rightarrow> string" where
  "int_to_dec i = (if i < 0 then CHR ''-'' # nat_to_dec (nat (- i)) else nat_to_dec (nat i))"

text \<open>The end anchor of a Python pattern matches at the end and before one final newline.\<close>

definition drop_final_newline :: "string \<Rightarrow> string" where
  "drop_final_newline s = (if s \<noteq> [] \<and> last s = newline then butlast s else s)"

subsection \<open>String lemmas\<close>

lemma py_split_nonempty [simp]: "py_split c s \<noteq> []"
  by (induction s) (auto split: list.splits)

lemma join_with_Cons:
  "join_with sep (x # xs) = (if xs = [] then x else x @ sep @ join_with sep xs)"
  by (cases xs) simp_all

lemma join_py_split: "join_with [c] (py_split c s) = s"
proof (induction s)
  case Nil
  then show ?case by simp
next
  case (Cons x xs)
  then show ?case
    by (cases "py_split c xs") (auto simp: join_with_Cons split: if_splits)
qed

lemma py_split_inject: "py_split c s = py_split c t \<Longrightarrow> s = t"
  by (metis join_py_split)

lemma py_split_no_sep: "c \<notin> set s \<Longrightarrow> py_split c s = [s]"
  by (induction s) auto

lemma py_split_seg_free: "seg \<in> set (py_split c s) \<Longrightarrow> c \<notin> set seg"
proof (induction s arbitrary: seg)
  case Nil
  then show ?case by simp
next
  case (Cons x xs)
  then show ?case by (cases "py_split c xs") (auto split: if_splits)
qed

lemma py_split_append_sep: "c \<notin> set s \<Longrightarrow> py_split c (s @ c # t) = s # py_split c t"
  by (induction s) auto

lemma py_split_join:
  assumes "xs \<noteq> []" and "\<And>x. x \<in> set xs \<Longrightarrow> c \<notin> set x"
  shows "py_split c (join_with [c] xs) = xs"
  using assms
proof (induction xs)
  case Nil
  then show ?case by simp
next
  case (Cons x xs)
  then show ?case
    by (cases "xs = []") (simp_all add: join_with_Cons py_split_no_sep py_split_append_sep)
qed

lemma of_char_digit [simp]: "n < 10 \<Longrightarrow> (of_char (char_of (48 + n) :: char) :: nat) = 48 + n"
  by simp

lemma is_digit_char_of [simp]: "n < 10 \<Longrightarrow> is_digit (char_of (48 + n :: nat))"
  by (simp add: is_digit_def less_eq_char_def)

lemma digits_to_nat_append:
  "digits_to_nat acc (s @ t) = digits_to_nat (digits_to_nat acc s) t"
  by (induction s arbitrary: acc) simp_all

lemma nat_to_dec_digits: "\<forall>c \<in> set (nat_to_dec n). is_digit c"
proof (induction n rule: nat_to_dec.induct)
  case (1 n)
  then show ?case by (subst nat_to_dec.simps) auto
qed

lemma nat_to_dec_nonempty [simp]: "nat_to_dec n \<noteq> []"
  by (subst nat_to_dec.simps) simp

lemma digits_to_nat_to_dec: "digits_to_nat 0 (nat_to_dec n) = n"
proof (induction n rule: nat_to_dec.induct)
  case (1 n)
  show ?case
  proof (cases "n < 10")
    case True
    then show ?thesis by (subst nat_to_dec.simps) simp
  next
    case False
    with 1 have "digits_to_nat 0 (nat_to_dec (n div 10)) = n div 10" by simp
    with False show ?thesis
      by (subst nat_to_dec.simps) (simp add: digits_to_nat_append)
  qed
qed

lemma lower_char_idem [simp]: "lower_char (lower_char c) = lower_char c"
proof -
  have "(of_char c :: nat) < 256" by simp
  then show ?thesis by (auto simp: lower_char_def Let_def)
qed

lemma py_lower_idem [simp]: "py_lower (py_lower s) = py_lower s"
  by (simp add: py_lower_def)

lemma starts_with_iff [soc_simps]: "starts_with s p \<longleftrightarrow> (\<exists>b. s = p @ b)"
  unfolding starts_with_def by (metis append_eq_conv_conj append_take_drop_id)

lemma ends_with_iff [soc_simps]: "ends_with s p \<longleftrightarrow> (\<exists>a. s = a @ p)"
  unfolding ends_with_def by (auto, metis append_take_drop_id)

lemma str_contains_iff [soc_simps]: "str_contains s p \<longleftrightarrow> (\<exists>a b. s = a @ p @ b)"
proof (induction s)
  case Nil
  then show ?case by simp
next
  case (Cons c cs)
  note IH = Cons.IH
  show ?case
  proof
    assume "str_contains (c # cs) p"
    then consider b where "c # cs = p @ b" | a b where "cs = a @ p @ b"
      using Cons.IH by (auto simp: starts_with_iff)
    then show "\<exists>a b. c # cs = a @ p @ b"
    proof cases
      case 1
      then show ?thesis by (metis append_Nil)
    next
      case 2
      then show ?thesis by (metis append_Cons)
    qed
  next
    assume "\<exists>a b. c # cs = a @ p @ b"
    then obtain a b where ab: "c # cs = a @ p @ b" by blast
    show "str_contains (c # cs) p"
    proof (cases a)
      case Nil
      with ab have "starts_with (c # cs) p" by (simp add: starts_with_iff)
      then show ?thesis by simp
    next
      case (Cons a' as)
      with ab have "cs = as @ p @ b" by simp
      with IH have "str_contains cs p" by blast
      then show ?thesis by simp
    qed
  qed
qed

end
