(* ===== verification/Scoring.thy ===== *)
theory Scoring
  imports Soc_Prelude
begin

section \<open>The alert priority score\<close>

text \<open>
  Model of \<^verbatim>\<open>services/dataplane/src/dataplane/scoring.py\<close>: the pure functions of formula v1, each
  returning its value or the \<^verbatim>\<open>ValueError\<close> it raises. The theorems are the properties of the
  contract \<^verbatim>\<open>docs/contracts/priority-score.md\<close>: exact half-up rounding, the range, the one-tier
  clamp on what the AI severity may take away, and monotonicity in every input.
\<close>

datatype value_error =
    InvalidSeverity string
  | OccurrenceBelowOne int
  | InvalidAgentStatus string

definition PRIORITY_FORMULA_VERSION :: int where "PRIORITY_FORMULA_VERSION = 1"

definition SEVERITIES :: "string list" where
  "SEVERITIES = [''low'', ''medium'', ''high'', ''critical'']"

definition TIER :: "(string \<times> int) list" where
  "TIER = [(''low'', 0), (''medium'', 1), (''high'', 2), (''critical'', 3)]"

definition POINTS :: "(string \<times> int) list" where
  "POINTS = [(''low'', 30), (''medium'', 55), (''high'', 80), (''critical'', 100)]"

definition AGENT_STATUSES :: "string list" where
  "AGENT_STATUSES = [''healthy'', ''enrolled'', ''offline'', ''revoked'', ''none'']"

definition severity_tier :: "string \<Rightarrow> value_error + int" where
  "severity_tier severity =
     (case map_of TIER severity of None \<Rightarrow> Inl (InvalidSeverity severity) | Some t \<Rightarrow> Inr t)"

definition severity_points :: "string \<Rightarrow> value_error + int" where
  "severity_points severity =
     rbind (severity_tier severity) (\<lambda>_.
       case map_of POINTS severity of None \<Rightarrow> Inl (InvalidSeverity severity) | Some p \<Rightarrow> Inr p)"

definition effective_ai_severity :: "string \<Rightarrow> string \<Rightarrow> value_error + string" where
  "effective_ai_severity rule_severity ai_severity =
     rbind (severity_tier ai_severity) (\<lambda>ai_tier.
     rbind (severity_tier rule_severity) (\<lambda>rule_tier.
       Inr (SEVERITIES ! nat (max ai_tier (rule_tier - 1)))))"

definition severity_component :: "int \<Rightarrow> int \<Rightarrow> int" where
  "severity_component s_rule s_ai = (170 * (s_rule + s_ai) + 200) div 400"

definition occurrence_component :: "int \<Rightarrow> value_error + int" where
  "occurrence_component occurrence_count =
     (if occurrence_count < 1 then Inl (OccurrenceBelowOne occurrence_count)
      else if occurrence_count = 1 then Inr 0
      else if occurrence_count < 5 then Inr 4
      else if occurrence_count < 20 then Inr 7
      else Inr 10)"

definition asset_component :: "string \<Rightarrow> value_error + int" where
  "asset_component agent_status =
     (if agent_status \<notin> set AGENT_STATUSES then Inl (InvalidAgentStatus agent_status)
      else if agent_status = ''offline'' \<or> agent_status = ''revoked'' then Inr 5
      else if agent_status = ''none'' then Inr 2
      else Inr 0)"

record priority_score =
  ps_score :: int
  ps_severity_component :: int
  ps_occurrence_component :: int
  ps_asset_component :: int
  ps_rule_severity :: string
  ps_ai_severity :: "string option"
  ps_ai_severity_effective :: "string option"
  ps_occurrence_count :: int
  ps_agent_status :: string

definition opt_str :: "string option \<Rightarrow> json" where
  "opt_str v = (case v of None \<Rightarrow> JNull | Some s \<Rightarrow> JStr s)"

definition priority_inputs :: "priority_score \<Rightarrow> obj" where
  "priority_inputs p =
     [(''priority_formula_version'', JInt PRIORITY_FORMULA_VERSION),
      (''rule_severity'', JStr (ps_rule_severity p)),
      (''ai_severity'', opt_str (ps_ai_severity p)),
      (''ai_severity_effective'', opt_str (ps_ai_severity_effective p)),
      (''occurrence_count'', JInt (ps_occurrence_count p)),
      (''agent_status'', JStr (ps_agent_status p)),
      (''severity_component'', JInt (ps_severity_component p)),
      (''occurrence_component'', JInt (ps_occurrence_component p)),
      (''asset_component'', JInt (ps_asset_component p))]"

definition compute_priority ::
  "string \<Rightarrow> string option \<Rightarrow> int \<Rightarrow> string \<Rightarrow> value_error + priority_score" where
  "compute_priority rule_severity ai_severity occurrence_count agent_status =
     rbind (severity_points rule_severity) (\<lambda>s_rule.
     rbind (case ai_severity of
              Some ai \<Rightarrow>
                rbind (effective_ai_severity rule_severity ai) (\<lambda>eff.
                rbind (severity_points eff) (\<lambda>s_ai. Inr (Some eff, s_ai)))
            | None \<Rightarrow> Inr (None, s_rule)) (\<lambda>eff_s.
     let sev = severity_component s_rule (snd eff_s) in
     rbind (occurrence_component occurrence_count) (\<lambda>occ.
     rbind (asset_component agent_status) (\<lambda>asset.
     Inr \<lparr>ps_score = min 100 (sev + occ + asset),
          ps_severity_component = sev, ps_occurrence_component = occ, ps_asset_component = asset,
          ps_rule_severity = rule_severity, ps_ai_severity = ai_severity,
          ps_ai_severity_effective = fst eff_s, ps_occurrence_count = occurrence_count,
          ps_agent_status = agent_status\<rparr>))))"

subsection \<open>Severities\<close>

text \<open>The reference definitions of the contract, on valid severities: the tier and the points as
  total functions.\<close>

definition tier :: "string \<Rightarrow> int" where
  "tier s = (case map_of TIER s of Some t \<Rightarrow> t | None \<Rightarrow> 0)"

definition points :: "string \<Rightarrow> int" where
  "points s = (case map_of POINTS s of Some p \<Rightarrow> p | None \<Rightarrow> 0)"

lemmas score_tables = TIER_def POINTS_def SEVERITIES_def AGENT_STATUSES_def tier_def points_def

lemma severity_cases:
  assumes "s \<in> set SEVERITIES"
  obtains "s = ''low''" | "s = ''medium''" | "s = ''high''" | "s = ''critical''"
  using assms by (auto simp: SEVERITIES_def)

lemma severity_tier_iff: "severity_tier s = Inr t \<longleftrightarrow> s \<in> set SEVERITIES \<and> t = tier s"
  by (auto simp: severity_tier_def score_tables)

lemma severity_points_iff: "severity_points s = Inr p \<longleftrightarrow> s \<in> set SEVERITIES \<and> p = points s"
  by (auto simp: severity_points_def severity_tier_def score_tables)

lemma tier_range: "s \<in> set SEVERITIES \<Longrightarrow> 0 \<le> tier s \<and> tier s \<le> 3"
  by (auto simp: score_tables)

lemma severities_nth_tier: "s \<in> set SEVERITIES \<Longrightarrow> SEVERITIES ! nat (tier s) = s"
  by (auto simp: score_tables)

lemma tier_severities_nth: "0 \<le> t \<Longrightarrow> t \<le> 3 \<Longrightarrow>
    SEVERITIES ! nat t \<in> set SEVERITIES \<and> tier (SEVERITIES ! nat t) = t"
proof -
  assume "0 \<le> t" "t \<le> 3"
  then have "t \<in> set [0, 1, 2, 3]" by auto
  moreover have "list_all (\<lambda>t. SEVERITIES ! nat t \<in> set SEVERITIES \<and> tier (SEVERITIES ! nat t) = t) [0, 1, 2, 3]"
    by code_simp
  ultimately show ?thesis unfolding list_all_iff by blast
qed

lemma points_mono:
  assumes "s \<in> set SEVERITIES" "s' \<in> set SEVERITIES" "tier s \<le> tier s'"
  shows "points s \<le> points s'"
proof -
  have "list_all (\<lambda>s. list_all (\<lambda>s'. tier s \<le> tier s' \<longrightarrow> points s \<le> points s') SEVERITIES) SEVERITIES"
    by code_simp
  with assms show ?thesis unfolding list_all_iff by blast
qed

lemma effective_ai_severity_iff:
  "effective_ai_severity r a = Inr e \<longleftrightarrow> r \<in> set SEVERITIES \<and> a \<in> set SEVERITIES
     \<and> e \<in> set SEVERITIES \<and> tier e = max (tier a) (tier r - 1)"
proof (cases "r \<in> set SEVERITIES \<and> a \<in> set SEVERITIES")
  case True
  then have range: "0 \<le> max (tier a) (tier r - 1)" "max (tier a) (tier r - 1) \<le> 3"
    using tier_range by fastforce+
  with True show ?thesis
    using tier_severities_nth [OF range] severities_nth_tier [of e]
    by (auto simp: effective_ai_severity_def rbind_Inr_iff severity_tier_iff)
qed (auto simp: effective_ai_severity_def rbind_Inr_iff severity_tier_iff)

subsection \<open>Components\<close>

lemma severity_component_half_up:
  "severity_component a b = \<lfloor>(85 / 100 * (of_int a + of_int b) / 2 + 1 / 2 :: rat)\<rfloor>"
proof -
  have "(85 / 100 * (of_int a + of_int b) / 2 + 1 / 2 :: rat)
      = of_int (170 * (a + b) + 200) / of_int 400" by simp
  then show ?thesis unfolding severity_component_def by (metis floor_divide_of_int_eq)
qed

lemma severity_component_mono:
  "a \<le> a' \<Longrightarrow> b \<le> b' \<Longrightarrow> severity_component a b \<le> severity_component a' b'"
  unfolding severity_component_def by (rule zdiv_mono1) simp_all

lemma occurrence_component_range: "occurrence_component n = Inr v \<Longrightarrow> 0 \<le> v \<and> v \<le> 10 \<and> 1 \<le> n"
  by (auto simp: occurrence_component_def split: if_splits)

lemma occurrence_component_mono:
  "occurrence_component n = Inr v \<Longrightarrow> occurrence_component n' = Inr v' \<Longrightarrow> n \<le> n' \<Longrightarrow> v \<le> v'"
  by (auto simp: occurrence_component_def split: if_splits)

lemma asset_component_range: "asset_component s = Inr v \<Longrightarrow> 0 \<le> v \<and> v \<le> 5"
  by (auto simp: asset_component_def split: if_splits)

text \<open>The severity points that enter the average for the AI side.\<close>

definition ai_points :: "string \<Rightarrow> string option \<Rightarrow> int" where
  "ai_points r ai = (case ai of None \<Rightarrow> points r
     | Some a \<Rightarrow> points (SEVERITIES ! nat (max (tier a) (tier r - 1))))"

lemma compute_priority_Inr:
  assumes "compute_priority r ai n ag = Inr p"
  obtains occ asset where "r \<in> set SEVERITIES" "\<forall>a \<in> set_option ai. a \<in> set SEVERITIES"
    "occurrence_component n = Inr occ" "asset_component ag = Inr asset"
    "ps_score p = min 100 (severity_component (points r) (ai_points r ai) + occ + asset)"
    "ps_severity_component p = severity_component (points r) (ai_points r ai)"
    "ps_occurrence_component p = occ" "ps_asset_component p = asset"
    "ps_ai_severity_effective p = map_option (\<lambda>a. SEVERITIES ! nat (max (tier a) (tier r - 1))) ai"
proof -
  from assms show thesis
    by (intro that) (auto simp: compute_priority_def rbind_Inr_iff severity_points_iff
        effective_ai_severity_def severity_tier_iff ai_points_def Let_def split: option.splits)
qed


lemma ai_points_mono:
  assumes "r \<in> set SEVERITIES" "r' \<in> set SEVERITIES" "a \<in> set SEVERITIES" "a' \<in> set SEVERITIES"
    and "tier r \<le> tier r'" "tier a \<le> tier a'"
  shows "ai_points r (Some a) \<le> ai_points r' (Some a')"
proof -
  let ?t = "max (tier a) (tier r - 1)" and ?t' = "max (tier a') (tier r' - 1)"
  have t: "0 \<le> ?t" "?t \<le> 3" "0 \<le> ?t'" "?t' \<le> 3"
    using tier_range [OF assms(1)] tier_range [OF assms(2)] tier_range [OF assms(3)]
      tier_range [OF assms(4)] by auto
  show ?thesis unfolding ai_points_def option.case
    using tier_severities_nth [OF t(1,2)] tier_severities_nth [OF t(3,4)] assms(5,6)
    by (intro points_mono) auto
qed

lemma points_at_least_30: "s \<in> set SEVERITIES \<Longrightarrow> 30 \<le> points s"
  by (auto simp: score_tables)

lemma ai_points_at_least_30:
  assumes "r \<in> set SEVERITIES" "\<forall>a \<in> set_option ai. a \<in> set SEVERITIES"
  shows "30 \<le> ai_points r ai"
proof (cases ai)
  case None
  with assms(1) show ?thesis by (simp add: ai_points_def points_at_least_30)
next
  case (Some a)
  then have a: "a \<in> set SEVERITIES" using assms(2) by simp
  let ?t = "max (tier a) (tier r - 1)"
  have "0 \<le> ?t" "?t \<le> 3" using tier_range [OF a] tier_range [OF assms(1)] by auto
  then have "SEVERITIES ! nat ?t \<in> set SEVERITIES" using tier_severities_nth by blast
  then show ?thesis unfolding Some ai_points_def option.case by (rule points_at_least_30)
qed

lemma severity_component_at_least_26:
  assumes "r \<in> set SEVERITIES" "\<forall>a \<in> set_option ai. a \<in> set SEVERITIES"
  shows "26 \<le> severity_component (points r) (ai_points r ai)"
proof -
  from points_at_least_30 [OF assms(1)] ai_points_at_least_30 [OF assms]
  have "severity_component 30 30 \<le> severity_component (points r) (ai_points r ai)"
    by (rule severity_component_mono)
  then show ?thesis by (simp add: severity_component_def)
qed

lemma compute_priority_range:
  assumes "compute_priority r ai n ag = Inr p"
  shows "r \<in> set SEVERITIES \<and> 26 \<le> ps_score p \<and> ps_score p \<le> 100"
proof -
  from assms obtain occ asset where p: "r \<in> set SEVERITIES" "\<forall>a \<in> set_option ai. a \<in> set SEVERITIES"
    "occurrence_component n = Inr occ" "asset_component ag = Inr asset"
    "ps_score p = min 100 (severity_component (points r) (ai_points r ai) + occ + asset)"
    by (rule compute_priority_Inr)
  from severity_component_at_least_26 [OF p(1,2)] p occurrence_component_range [OF p(3)]
    asset_component_range [OF p(4)] show ?thesis by auto
qed

text \<open>The score is the contract's formula. Whenever the inputs are accepted, the severity part
  is 85 % of the mean of the rule's and the effective AI points rounded half up in exact
  arithmetic, the score is its sum with the occurrence and asset parts capped at 100, and it lies
  between 26 and 100.\<close>

theorem compute_priority_formula:
  assumes "compute_priority r ai n ag = Inr p"
  shows "ps_severity_component p = \<lfloor>(85 / 100 * (of_int (points r) + of_int (ai_points r ai)) / 2 + 1 / 2 :: rat)\<rfloor>
       \<and> ps_score p = min 100 (ps_severity_component p + ps_occurrence_component p + ps_asset_component p)
       \<and> 26 \<le> ps_score p \<and> ps_score p \<le> 100"
proof -
  from assms obtain occ asset where p: "r \<in> set SEVERITIES" "\<forall>a \<in> set_option ai. a \<in> set SEVERITIES"
    "occurrence_component n = Inr occ" "asset_component ag = Inr asset"
    "ps_score p = min 100 (severity_component (points r) (ai_points r ai) + occ + asset)"
    "ps_severity_component p = severity_component (points r) (ai_points r ai)"
    "ps_occurrence_component p = occ" "ps_asset_component p = asset"
    by (rule compute_priority_Inr)
  from compute_priority_range [OF assms] p show ?thesis
    unfolding severity_component_half_up [symmetric] by auto
qed

theorem compute_priority_formula_witness:
  "\<exists>p. compute_priority ''high'' (Some ''low'') 5 ''offline'' = Inr p \<and> ps_score p = 69 \<and>
     ps_severity_component p = \<lfloor>(85 / 100 * (of_int (points ''high'') + of_int (ai_points ''high'' (Some ''low''))) / 2 + 1 / 2 :: rat)\<rfloor>"
proof -
  have ok: "compute_priority ''high'' (Some ''low'') 5 ''offline''
      = Inr \<lparr>ps_score = 69, ps_severity_component = 57, ps_occurrence_component = 7, ps_asset_component = 5,
          ps_rule_severity = ''high'', ps_ai_severity = Some ''low'',
          ps_ai_severity_effective = Some ''medium'', ps_occurrence_count = 5, ps_agent_status = ''offline''\<rparr>"
    by code_simp
  from compute_priority_formula [OF ok] ok show ?thesis by simp
qed

text \<open>C3: prompt injection cannot bury an alert. The effective AI severity is never more than one
  tier below the rule severity, and whatever severity the AI returns, the score is at most 11
  points below the score without any AI verdict.\<close>

theorem ai_severity_clamped:
  assumes "compute_priority r (Some a) n ag = Inr p" and "compute_priority r None n ag = Inr p0"
  shows "ps_ai_severity_effective p = Some (SEVERITIES ! nat (max (tier a) (tier r - 1)))
       \<and> tier (the (ps_ai_severity_effective p)) \<ge> tier r - 1
       \<and> ps_score p \<ge> ps_score p0 - 11"
proof -
  from assms(1) obtain occ asset where p: "r \<in> set SEVERITIES" "a \<in> set SEVERITIES"
    "occurrence_component n = Inr occ" "asset_component ag = Inr asset"
    "ps_score p = min 100 (severity_component (points r) (ai_points r (Some a)) + occ + asset)"
    "ps_ai_severity_effective p = Some (SEVERITIES ! nat (max (tier a) (tier r - 1)))"
    by (rule compute_priority_Inr) simp
  from assms(2) p(3,4) have p0: "ps_score p0 = min 100 (severity_component (points r) (points r) + occ + asset)"
    by (elim compute_priority_Inr) (simp add: ai_points_def)
  have "list_all (\<lambda>r. list_all (\<lambda>a. severity_component (points r) (ai_points r (Some a))
      \<ge> severity_component (points r) (points r) - 11) SEVERITIES) SEVERITIES" by code_simp
  with p(1,2) have "severity_component (points r) (ai_points r (Some a)) \<ge> severity_component (points r) (points r) - 11"
    unfolding list_all_iff by blast
  moreover have "0 \<le> max (tier a) (tier r - 1)" "max (tier a) (tier r - 1) \<le> 3"
    using tier_range [OF p(1)] tier_range [OF p(2)] by auto
  ultimately show ?thesis using p(5,6) p0 tier_severities_nth by auto
qed

theorem ai_severity_clamped_witness:
  "\<exists>p p0. compute_priority ''high'' (Some ''low'') 1 ''none'' = Inr p
     \<and> compute_priority ''high'' None 1 ''none'' = Inr p0 \<and> ps_score p \<ge> ps_score p0 - 11"
proof -
  have "is_ok (compute_priority ''high'' (Some ''low'') 1 ''none'')" "is_ok (compute_priority ''high'' None 1 ''none'')"
    by code_simp+
  then obtain p p0 where "compute_priority ''high'' (Some ''low'') 1 ''none'' = Inr p"
    "compute_priority ''high'' None 1 ''none'' = Inr p0" unfolding is_ok_iff by blast
  with ai_severity_clamped [OF this] show ?thesis by blast
qed

text \<open>the score is monotone. Raising the rule severity, raising the AI severity, or adding
  occurrences never lowers the score of an alert on the same asset.\<close>

theorem compute_priority_mono:
  assumes "compute_priority r (Some a) n ag = Inr p" and "compute_priority r' (Some a') n' ag = Inr p'"
    and "tier r \<le> tier r'" and "tier a \<le> tier a'" and "n \<le> n'"
  shows "ps_score p \<le> ps_score p'"
proof -
  from assms(1) obtain occ asset where p: "r \<in> set SEVERITIES" "a \<in> set SEVERITIES"
    "occurrence_component n = Inr occ" "asset_component ag = Inr asset"
    "ps_score p = min 100 (severity_component (points r) (ai_points r (Some a)) + occ + asset)"
    by (rule compute_priority_Inr) simp
  from assms(2) p(4) obtain occ' where p': "r' \<in> set SEVERITIES" "a' \<in> set SEVERITIES"
    "occurrence_component n' = Inr occ'"
    "ps_score p' = min 100 (severity_component (points r') (ai_points r' (Some a')) + occ' + asset)"
    by (elim compute_priority_Inr) simp
  have "severity_component (points r) (ai_points r (Some a)) \<le> severity_component (points r') (ai_points r' (Some a'))"
    using p(1,2) p'(1,2) assms(3,4) by (intro severity_component_mono points_mono ai_points_mono)
  with p(5) p'(4) occurrence_component_mono [OF p(3) p'(3) assms(5)] show ?thesis by auto
qed

theorem compute_priority_mono_witness:
  "\<exists>p p'. compute_priority ''medium'' (Some ''low'') 1 ''none'' = Inr p
     \<and> compute_priority ''high'' (Some ''high'') 5 ''none'' = Inr p' \<and> ps_score p \<le> ps_score p'"
proof -
  have "is_ok (compute_priority ''medium'' (Some ''low'') 1 ''none'')"
    "is_ok (compute_priority ''high'' (Some ''high'') 5 ''none'')"
    by code_simp+
  then obtain p p' where "compute_priority ''medium'' (Some ''low'') 1 ''none'' = Inr p"
    "compute_priority ''high'' (Some ''high'') 5 ''none'' = Inr p'" unfolding is_ok_iff by blast
  moreover have "tier ''medium'' \<le> tier ''high''" "tier ''low'' \<le> tier ''high''" by code_simp+
  ultimately show ?thesis using compute_priority_mono by fastforce
qed

end
