(* ===== verification/Alert_Store.thy ===== *)
theory Alert_Store
  imports Scoring
begin

section \<open>The alert tables\<close>

text \<open>
  The tables of \<^verbatim>\<open>db/migrations/0005_alerts.sql\<close> that the alerter, the alert API and the triager
  share, and the statements that two of them use. A timestamp is a number of microseconds, a UUID
  its canonical string, a table the list of its rows in insertion order. \<open>alert_db\<close> is the part of
  the database these components touch; the tenant's assets appear as the columns the alerter reads.
  A unique index is a predicate on the table, and a statement that would violate one returns
  \<open>UniqueViolation\<close>.
\<close>

datatype alert_state = New | Acknowledged | Closed

record alert_row =
  al_id :: string
  al_tenant :: string
  al_state :: alert_state
  al_rule_id :: string
  al_rule_version :: string
  al_rule_title :: string
  al_rule_severity :: string
  al_mitre :: "string list"
  al_entity_key :: string
  al_hostname :: "string option"
  al_user :: "string option"
  al_asset_id :: "string option"
  al_occurrence_count :: int
  al_first_seen :: int
  al_last_seen :: int
  al_group :: "string option"
  al_priority_score :: int
  al_priority_inputs :: obj
  al_triage_status :: string
  al_triage_summary :: "string option"
  al_ai_severity :: "string option"
  al_ai_severity_effective :: "string option"
  al_triage_model_id :: "string option"
  al_triage_completed_at :: "int option"
  al_triage_attempts :: int
  al_close_reason :: "string option"
  al_close_comment :: "string option"
  al_closed_by :: "string option"
  al_closed_at :: "int option"
  al_acknowledged_by :: "string option"
  al_acknowledged_at :: "int option"
  al_updated_at :: int

record event_link =
  ln_tenant :: string
  ln_alert :: string
  ln_event :: string
  ln_es_index :: string

record history_row =
  hi_tenant :: string
  hi_alert :: string
  hi_actor_type :: string
  hi_actor_id :: string
  hi_action :: string
  hi_from :: "string option"
  hi_to :: "string option"
  hi_reason :: "string option"
  hi_comment :: "string option"
  hi_details :: obj

record group_row =
  gr_id :: string
  gr_tenant :: string
  gr_hostname :: string
  gr_alert_count :: nat
  gr_last_alert_at :: int

record asset_view =
  av_id :: string
  av_tenant :: string
  av_hostname :: string
  av_active :: bool
  av_agent_status :: string
  av_last_seen :: int

record dead_letter =
  dl_tenant :: string
  dl_batch :: "string option"
  dl_source_type :: string
  dl_error_code :: string
  dl_error_detail :: "string option"

record audit_row =
  au_tenant :: string
  au_actor_type :: string
  au_actor_id :: string
  au_action :: string
  au_target_type :: string
  au_target_id :: string
  au_after :: obj
  au_reason_code :: "string option"

record alert_db =
  db_alerts :: "alert_row list"
  db_links :: "event_link list"
  db_history :: "history_row list"
  db_groups :: "group_row list"
  db_assets :: "asset_view list"
  db_dead_letters :: "dead_letter list"
  db_audit :: "audit_row list"

datatype db_error =
    UniqueViolation string
  | CheckViolation string
  | ScoreError value_error
  | UpsertContention

subsection \<open>Keys and the open-alert index\<close>

definition is_open :: "alert_row \<Rightarrow> bool" where
  "is_open r = (al_state r \<noteq> Closed)"

text \<open>The columns of \<^verbatim>\<open>alerts_open_dedup_uq\<close>.\<close>

type_synonym dedup_key = "string \<times> string \<times> string"

definition dedup_key :: "alert_row \<Rightarrow> dedup_key" where
  "dedup_key r = (al_tenant r, al_rule_id r, al_entity_key r)"

definition open_keys :: "alert_row list \<Rightarrow> dedup_key list" where
  "open_keys rows = map dedup_key (filter is_open rows)"

text \<open>The rows that the primary key, the partial unique index and the table's checks admit.\<close>

definition row_ok :: "alert_row \<Rightarrow> bool" where
  "row_ok r \<longleftrightarrow> 0 \<le> al_priority_score r \<and> al_priority_score r \<le> 100
     \<and> al_rule_severity r \<in> set SEVERITIES
     \<and> 1 \<le> al_occurrence_count r \<and> al_first_seen r \<le> al_last_seen r
     \<and> (al_state r = Closed \<longrightarrow> al_close_reason r \<noteq> None)
     \<and> (\<forall>s \<in> set_option (al_ai_severity r). s \<in> set SEVERITIES)"

definition alerts_ok :: "alert_row list \<Rightarrow> bool" where
  "alerts_ok rows \<longleftrightarrow> distinct (map al_id rows) \<and> distinct (open_keys rows) \<and> list_all row_ok rows"

definition update_rows :: "(alert_row \<Rightarrow> bool) \<Rightarrow> (alert_row \<Rightarrow> alert_row) \<Rightarrow> alert_row list \<Rightarrow> alert_row list" where
  "update_rows p f rows = map (\<lambda>r. if p r then f r else r) rows"

definition insert_history :: "history_row \<Rightarrow> alert_db \<Rightarrow> alert_db" where
  "insert_history h db = db\<lparr>db_history := db_history db @ [h]\<rparr>"

definition dead_letter_row ::
  "string \<Rightarrow> string option \<Rightarrow> string \<Rightarrow> string \<Rightarrow> string option \<Rightarrow> dead_letter" where
  "dead_letter_row tenant batch source_type code detail =
     (let d = take 2000 (case detail of None \<Rightarrow> [] | Some s \<Rightarrow> s) in
      \<lparr>dl_tenant = tenant, dl_batch = batch,
       dl_source_type = (if source_type \<in> {''agent'', ''generic''} then source_type else ''generic''),
       dl_error_code = code, dl_error_detail = (if d = [] then None else Some d)\<rparr>)"

definition insert_dead_letter ::
  "string \<Rightarrow> string option \<Rightarrow> string \<Rightarrow> string \<Rightarrow> string option \<Rightarrow> alert_db \<Rightarrow> alert_db" where
  "insert_dead_letter tenant batch source_type code detail db =
     db\<lparr>db_dead_letters := db_dead_letters db @ [dead_letter_row tenant batch source_type code detail]\<rparr>"

lemma dead_letter_row_tenant [simp]: "dl_tenant (dead_letter_row tenant batch source_type code detail) = tenant"
  by (simp add: dead_letter_row_def Let_def)

subsection \<open>Updates and the invariant\<close>

lemma update_rows_Nil [simp]: "update_rows p f [] = []"
  by (simp add: update_rows_def)

lemma update_rows_Cons [simp]:
  "update_rows p f (r # rs) = (if p r then f r else r) # update_rows p f rs"
  by (simp add: update_rows_def)

lemma set_update_rows: "set (update_rows p f rows) = {r \<in> set rows. \<not> p r} \<union> f ` {r \<in> set rows. p r}"
  by (induction rows) (auto split: if_splits)

lemma update_rows_map:
  "(\<And>r. g (f r) = g r) \<Longrightarrow> map g (update_rows p f rows) = map g rows"
  by (induction rows) auto

lemma open_keys_Nil [simp]: "open_keys [] = []"
  by (simp add: open_keys_def)

lemma open_keys_Cons [simp]:
  "open_keys (r # rs) = (if is_open r then dedup_key r # open_keys rs else open_keys rs)"
  by (simp add: open_keys_def)

lemma open_keys_append [simp]: "open_keys (rs @ ss) = open_keys rs @ open_keys ss"
  by (simp add: open_keys_def)

lemma open_keys_mem: "k \<in> set (open_keys rows) \<longleftrightarrow> (\<exists>r \<in> set rows. is_open r \<and> dedup_key r = k)"
  by (auto simp: open_keys_def)

lemma open_keys_update_same:
  assumes "\<And>r. is_open (f r) = is_open r" "\<And>r. dedup_key (f r) = dedup_key r"
  shows "open_keys (update_rows p f rows) = open_keys rows"
  using assms by (induction rows) auto

lemma open_keys_update_close:
  assumes "\<And>r. \<not> is_open (f r)"
  shows "open_keys (update_rows p f rows) = map dedup_key (filter (\<lambda>r. is_open r \<and> \<not> p r) rows)"
  using assms by (induction rows) auto

lemma distinct_open_keys_update_close:
  assumes "\<And>r. \<not> is_open (f r)" "distinct (open_keys rows)"
  shows "distinct (open_keys (update_rows p f rows))"
proof -
  have d: "distinct (map dedup_key (filter Q rows))" if "\<And>r. Q r \<Longrightarrow> is_open r" for Q
    using assms(2) that by (induction rows) (auto simp: open_keys_def split: if_splits)
  show ?thesis unfolding open_keys_update_close [OF assms(1)] by (rule d) simp
qed

lemma alerts_ok_update_same:
  assumes "alerts_ok rows"
    and "\<And>r. al_id (f r) = al_id r" "\<And>r. is_open (f r) = is_open r" "\<And>r. dedup_key (f r) = dedup_key r"
    and "\<And>r. r \<in> set rows \<Longrightarrow> p r \<Longrightarrow> row_ok r \<Longrightarrow> row_ok (f r)"
  shows "alerts_ok (update_rows p f rows)"
  using assms unfolding alerts_ok_def
  by (auto simp: update_rows_map open_keys_update_same list_all_iff set_update_rows)

lemma alerts_ok_update_close:
  assumes "alerts_ok rows"
    and "\<And>r. al_id (f r) = al_id r" "\<And>r. \<not> is_open (f r)"
    and "\<And>r. r \<in> set rows \<Longrightarrow> p r \<Longrightarrow> row_ok r \<Longrightarrow> row_ok (f r)"
  shows "alerts_ok (update_rows p f rows)"
  using assms unfolding alerts_ok_def
  by (auto simp: update_rows_map distinct_open_keys_update_close list_all_iff set_update_rows)

lemma alerts_ok_insert:
  assumes "alerts_ok rows" "al_id r \<notin> set (map al_id rows)" "row_ok r"
    and "is_open r \<Longrightarrow> dedup_key r \<notin> set (open_keys rows)"
  shows "alerts_ok (rows @ [r])"
  using assms unfolding alerts_ok_def by auto

lemma open_key_unique:
  assumes "distinct (open_keys rows)" "r \<in> set rows" "s \<in> set rows" "is_open r" "is_open s"
    "dedup_key r = dedup_key s"
  shows "r = s"
  using assms by (induction rows) (auto simp: open_keys_mem split: if_splits)

end
