(* ===== verification/Alerter.thy ===== *)
theory Alerter
  imports Alert_Store
begin

section \<open>The alerter worker\<close>

text \<open>
  Model of \<^verbatim>\<open>services/dataplane/src/dataplane/workers/alerter.py\<close>: from a detection to an alert, by
  the dedup upsert against the open-alert index, the close-out of an expired window, event links,
  history, correlation and the priority recomputation. \<open>handle\<close> is one transaction: it returns the
  new database, the recorded outcome and what is published after the commit, or the error that
  rolls everything back. What the code takes from outside is an argument: the parsers of UUIDs and
  timestamps (\<open>hit_lib\<close>), the three alert ids one call may draw, the group id, and the time.
\<close>

definition ACTOR_ID :: string where "ACTOR_ID = ''worker-alerter''"

subsection \<open>The detection payload\<close>

record detection_hit =
  h_rule_id :: string
  h_rule_version :: string
  h_title :: string
  h_severity :: string
  h_mitre :: "string list"
  h_entity_key :: string
  h_event_id :: string
  h_pack_version :: "string option"
  h_event_time :: int
  h_hostname :: "string option"
  h_user :: "string option"
  h_es_index :: "string option"

record hit_lib =
  parse_uuid :: "json \<Rightarrow> string option"
  parse_time :: "json \<Rightarrow> int option"
  events_index :: "string \<Rightarrow> int \<Rightarrow> string"

definition req_str :: "obj \<Rightarrow> string \<Rightarrow> nat \<Rightarrow> string option" where
  "req_str d k min_length =
     (case map_of d k of Some (JStr s) \<Rightarrow> if length s < min_length then None else Some s | _ \<Rightarrow> None)"

definition opt_str_field :: "obj \<Rightarrow> string \<Rightarrow> string option option" where
  "opt_str_field d k =
     (case map_of d k of None \<Rightarrow> Some None | Some JNull \<Rightarrow> Some None | Some (JStr s) \<Rightarrow> Some (Some s)
      | Some _ \<Rightarrow> None)"

definition str_list_field :: "obj \<Rightarrow> string \<Rightarrow> string list option" where
  "str_list_field d k =
     (case map_of d k of
        None \<Rightarrow> Some []
      | Some (JList vs) \<Rightarrow>
          (if list_all (\<lambda>v. case v of JStr _ \<Rightarrow> True | _ \<Rightarrow> False) vs
           then Some (map (\<lambda>v. case v of JStr s \<Rightarrow> s | _ \<Rightarrow> []) vs) else None)
      | Some _ \<Rightarrow> None)"

definition model_validate :: "hit_lib \<Rightarrow> json \<Rightarrow> detection_hit option" where
  "model_validate lib payload =
     (case payload of
        JObj d \<Rightarrow>
          Option.bind (req_str d ''rule_id'' 1) (\<lambda>rule_id.
          Option.bind (req_str d ''rule_version'' 1) (\<lambda>rule_version.
          Option.bind (if has_key d ''title'' then req_str d ''title'' 1 else req_str d ''rule_title'' 1) (\<lambda>title.
          Option.bind (req_str d ''severity'' 0) (\<lambda>severity.
          if severity \<notin> set SEVERITIES then None else
          Option.bind (str_list_field d ''mitre_technique_ids'') (\<lambda>mitre.
          Option.bind (req_str d ''entity_key'' 0) (\<lambda>ekey.
          Option.bind (Option.bind (map_of d ''event_id'') (parse_uuid lib)) (\<lambda>event_id.
          Option.bind (opt_str_field d ''pack_version'') (\<lambda>pack_version.
          Option.bind (Option.bind (map_of d ''event_time'') (parse_time lib)) (\<lambda>event_time.
          Option.bind (opt_str_field d ''entity_hostname'') (\<lambda>hostname.
          Option.bind (opt_str_field d ''entity_user'') (\<lambda>user.
          Option.bind (opt_str_field d ''es_index'') (\<lambda>es_index.
          Some \<lparr>h_rule_id = rule_id, h_rule_version = rule_version, h_title = title,
                h_severity = severity, h_mitre = mitre, h_entity_key = ekey, h_event_id = event_id,
                h_pack_version = pack_version, h_event_time = event_time, h_hostname = hostname,
                h_user = user, h_es_index = es_index\<rparr>))))))))))))
      | _ \<Rightarrow> None)"

definition hit_key :: "string \<Rightarrow> detection_hit \<Rightarrow> dedup_key" where
  "hit_key tenant hit = (tenant, h_rule_id hit, h_entity_key hit)"

subsection \<open>Statements\<close>

definition minutes :: "int \<Rightarrow> int" where
  "minutes m = m * 60000000"

definition alert_event_linked :: "string \<Rightarrow> string \<Rightarrow> string \<Rightarrow> alert_db \<Rightarrow> bool" where
  "alert_event_linked tenant event rule_id db =
     list_ex (\<lambda>l. ln_tenant l = tenant \<and> ln_event l = event \<and>
       list_ex (\<lambda>a. al_tenant a = ln_tenant l \<and> al_id a = ln_alert l \<and> al_rule_id a = rule_id) (db_alerts db))
       (db_links db)"

definition resolve_asset_row :: "string \<Rightarrow> string \<Rightarrow> alert_db \<Rightarrow> asset_view option" where
  "resolve_asset_row tenant hostname db =
     (case sort_key (\<lambda>a. - av_last_seen a)
        (filter (\<lambda>a. av_tenant a = tenant \<and> av_hostname a = hostname \<and> av_active a) (db_assets db))
      of [] \<Rightarrow> None | a # _ \<Rightarrow> Some a)"

definition new_row ::
  "string \<Rightarrow> string \<Rightarrow> detection_hit \<Rightarrow> string option \<Rightarrow> priority_score \<Rightarrow> int \<Rightarrow> alert_row" where
  "new_row new_id tenant hit asset_id score now =
     \<lparr>al_id = new_id, al_tenant = tenant, al_state = New, al_rule_id = h_rule_id hit,
      al_rule_version = h_rule_version hit, al_rule_title = h_title hit,
      al_rule_severity = h_severity hit, al_mitre = h_mitre hit, al_entity_key = h_entity_key hit,
      al_hostname = h_hostname hit, al_user = h_user hit, al_asset_id = asset_id,
      al_occurrence_count = 1, al_first_seen = h_event_time hit, al_last_seen = h_event_time hit,
      al_group = None, al_priority_score = ps_score score, al_priority_inputs = priority_inputs score,
      al_triage_status = ''pending'', al_triage_summary = None, al_ai_severity = None,
      al_ai_severity_effective = None, al_triage_model_id = None, al_triage_completed_at = None,
      al_triage_attempts = 0, al_close_reason = None, al_close_comment = None, al_closed_by = None,
      al_closed_at = None, al_acknowledged_by = None, al_acknowledged_at = None, al_updated_at = now\<rparr>"

definition is_open_for :: "string \<Rightarrow> detection_hit \<Rightarrow> alert_row \<Rightarrow> bool" where
  "is_open_for tenant hit r = (is_open r \<and> dedup_key r = hit_key tenant hit)"

definition window_expired :: "int \<Rightarrow> detection_hit \<Rightarrow> alert_row \<Rightarrow> bool" where
  "window_expired window hit r = (al_last_seen r < h_event_time hit - minutes window)"

definition add_occurrence :: "detection_hit \<Rightarrow> int \<Rightarrow> alert_row \<Rightarrow> alert_row" where
  "add_occurrence hit now r =
     r\<lparr>al_occurrence_count := al_occurrence_count r + 1,
       al_last_seen := max (al_last_seen r) (h_event_time hit), al_updated_at := now\<rparr>"

text \<open>\<^verbatim>\<open>ALERT_UPSERT_SQL\<close>: insert, or update the conflicting open alert when it is still in the
  window; the returned row carries whether it was inserted. The arbiter is the partial index, so a
  reused primary key raises.\<close>

definition alert_upsert ::
  "int \<Rightarrow> int \<Rightarrow> string \<Rightarrow> detection_hit \<Rightarrow> string option \<Rightarrow> priority_score \<Rightarrow> string \<Rightarrow> alert_db
     \<Rightarrow> db_error + (alert_db \<times> (alert_row \<times> bool) option)" where
  "alert_upsert window now tenant hit asset_id score new_id db =
     (case find (is_open_for tenant hit) (db_alerts db) of
        None \<Rightarrow>
          if new_id \<in> set (map al_id (db_alerts db)) then Inl (UniqueViolation ''alerts_pkey'')
          else let row = new_row new_id tenant hit asset_id score now in
            Inr (db\<lparr>db_alerts := db_alerts db @ [row]\<rparr>, Some (row, True))
      | Some r \<Rightarrow>
          if window_expired window hit r then Inr (db, None)
          else Inr (db\<lparr>db_alerts := update_rows (is_open_for tenant hit) (add_occurrence hit now) (db_alerts db)\<rparr>,
                 Some (add_occurrence hit now r, False)))"

definition close_row :: "int \<Rightarrow> alert_row \<Rightarrow> alert_row" where
  "close_row now r =
     r\<lparr>al_state := Closed, al_close_reason := Some ''resolved'',
       al_close_comment := Some ''auto-closed: dedup window expired; superseded by a new alert'',
       al_closed_at := Some now, al_updated_at := now\<rparr>"

definition close_expired_open_alert ::
  "int \<Rightarrow> int \<Rightarrow> string \<Rightarrow> detection_hit \<Rightarrow> alert_db \<Rightarrow> alert_db \<times> string list" where
  "close_expired_open_alert window now tenant hit db =
     (let p = (\<lambda>r. is_open_for tenant hit r \<and> window_expired window hit r) in
      (db\<lparr>db_alerts := update_rows p (close_row now) (db_alerts db)\<rparr>,
       map al_id (filter p (db_alerts db))))"

definition link_event :: "string \<Rightarrow> string \<Rightarrow> string \<Rightarrow> string \<Rightarrow> alert_db \<Rightarrow> alert_db" where
  "link_event tenant alert_id event es_index db =
     (if list_ex (\<lambda>l. ln_tenant l = tenant \<and> ln_alert l = alert_id \<and> ln_event l = event) (db_links db) then db
      else db\<lparr>db_links := db_links db @
             [\<lparr>ln_tenant = tenant, ln_alert = alert_id, ln_event = event, ln_es_index = es_index\<rparr>]\<rparr>)"

definition history :: "string \<Rightarrow> string \<Rightarrow> string \<Rightarrow> string option \<Rightarrow> string option \<Rightarrow> obj \<Rightarrow> alert_db \<Rightarrow> alert_db" where
  "history tenant alert_id action from_state to_state details =
     insert_history \<lparr>hi_tenant = tenant, hi_alert = alert_id, hi_actor_type = ''system'',
       hi_actor_id = ACTOR_ID, hi_action = action, hi_from = from_state, hi_to = to_state,
       hi_reason = None, hi_comment = None, hi_details = details\<rparr>"

subsection \<open>Steps of the worker\<close>

definition resolve_asset :: "string \<Rightarrow> detection_hit \<Rightarrow> alert_db \<Rightarrow> string option \<times> string" where
  "resolve_asset tenant hit db =
     (case h_hostname hit of
        None \<Rightarrow> (None, ''none'')
      | Some h \<Rightarrow>
          if h = [] then (None, ''none'')
          else (case resolve_asset_row tenant (py_lower h) db of
              None \<Rightarrow> (None, ''none'')
            | Some a \<Rightarrow> (Some (av_id a), av_agent_status a)))"

definition close_history :: "string \<Rightarrow> string list \<Rightarrow> alert_db \<Rightarrow> alert_db" where
  "close_history tenant ids db =
     fold (\<lambda>i. history tenant i ''closed'' None (Some ''closed'')
       [(''reason'', JStr ''dedup_window_expired'')]) ids db"

text \<open>The loop \<^verbatim>\<open>for _attempt in range(3)\<close>: each attempt draws one alert id, so the recursion is on
  the ids drawn.\<close>

fun upsert_with_window ::
  "int \<Rightarrow> int \<Rightarrow> string \<Rightarrow> detection_hit \<Rightarrow> string option \<Rightarrow> priority_score \<Rightarrow> string list \<Rightarrow> alert_db
     \<Rightarrow> db_error + (alert_db \<times> (alert_row \<times> bool) option)" where
  "upsert_with_window window now tenant hit asset_id score [] db = Inr (db, None)"
| "upsert_with_window window now tenant hit asset_id score (new_id # ids) db =
     rbind (alert_upsert window now tenant hit asset_id score new_id db) (\<lambda>res.
       case snd res of
         Some row \<Rightarrow> Inr (fst res, Some row)
       | None \<Rightarrow>
           let closed = close_expired_open_alert window now tenant hit (fst res) in
           upsert_with_window window now tenant hit asset_id score ids
             (close_history tenant (snd closed) (fst closed)))"

definition correlation_candidates ::
  "int \<Rightarrow> string \<Rightarrow> detection_hit \<Rightarrow> string \<Rightarrow> string \<Rightarrow> alert_db \<Rightarrow> alert_row list" where
  "correlation_candidates cwindow tenant hit hostname alert_id db =
     sort_key (\<lambda>r. - al_last_seen r)
       (filter (\<lambda>r. al_tenant r = tenant \<and> al_hostname r = Some hostname \<and> is_open r
          \<and> al_rule_id r \<noteq> h_rule_id hit \<and> al_id r \<noteq> alert_id
          \<and> al_last_seen r \<ge> h_event_time hit - minutes cwindow) (db_alerts db))"

definition create_group :: "string \<Rightarrow> string \<Rightarrow> string \<Rightarrow> int \<Rightarrow> alert_db \<Rightarrow> db_error + alert_db" where
  "create_group gid tenant hostname seen_at db =
     (if gid \<in> set (map gr_id (db_groups db)) then Inl (UniqueViolation ''correlation_groups_pkey'')
      else Inr (db\<lparr>db_groups := db_groups db @
        [\<lparr>gr_id = gid, gr_tenant = tenant, gr_hostname = hostname, gr_alert_count = 0, gr_last_alert_at = seen_at\<rparr>]\<rparr>))"

definition assign_group :: "int \<Rightarrow> string \<Rightarrow> string list \<Rightarrow> string \<Rightarrow> alert_db \<Rightarrow> alert_db \<times> string list" where
  "assign_group now tenant ids gid db =
     (let p = (\<lambda>r. al_tenant r = tenant \<and> al_id r \<in> set ids \<and> al_group r = None) in
      (db\<lparr>db_alerts := update_rows p (\<lambda>r. r\<lparr>al_group := Some gid, al_updated_at := now\<rparr>) (db_alerts db)\<rparr>,
       map al_id (filter p (db_alerts db))))"

definition group_size :: "string \<Rightarrow> string \<Rightarrow> alert_row list \<Rightarrow> nat" where
  "group_size tenant gid rows = length (filter (\<lambda>r. al_tenant r = tenant \<and> al_group r = Some gid) rows)"

definition update_group_stats :: "string \<Rightarrow> string \<Rightarrow> int \<Rightarrow> alert_db \<Rightarrow> alert_db" where
  "update_group_stats tenant gid seen_at db =
     db\<lparr>db_groups := map (\<lambda>g. if gr_tenant g = tenant \<and> gr_id g = gid
          then g\<lparr>gr_alert_count := group_size (gr_tenant g) (gr_id g) (db_alerts db),
                 gr_last_alert_at := max (gr_last_alert_at g) seen_at\<rparr> else g) (db_groups db)\<rparr>"

text \<open>The first candidate whose group is truthy (not \<^verbatim>\<open>NULL\<close> and not the empty string).\<close>

fun first_group :: "alert_row list \<Rightarrow> string option" where
  "first_group [] = None"
| "first_group (c # cs) =
     (case al_group c of Some g \<Rightarrow> if g = [] then first_group cs else Some g | None \<Rightarrow> first_group cs)"

definition correlate ::
  "int \<Rightarrow> int \<Rightarrow> string \<Rightarrow> string \<Rightarrow> detection_hit \<Rightarrow> string \<Rightarrow> alert_db
     \<Rightarrow> db_error + (alert_db \<times> string option)" where
  "correlate cwindow now new_gid tenant hit alert_id db =
     (case h_hostname hit of
        None \<Rightarrow> Inr (db, None)
      | Some hostname \<Rightarrow>
          if hostname = [] then Inr (db, None)
          else let candidates = correlation_candidates cwindow tenant hit hostname alert_id db in
            if candidates = [] then Inr (db, None)
            else
              rbind (case first_group candidates of
                       Some g \<Rightarrow> Inr (db, g)
                     | None \<Rightarrow> rbind (create_group new_gid tenant hostname (h_event_time hit) db) (\<lambda>db'. Inr (db', new_gid)))
                (\<lambda>(db1, gid).
                  let to_assign = alert_id # map al_id (filter (\<lambda>c. al_group c = None) candidates);
                      assigned = assign_group now tenant to_assign gid db1;
                      db3 = update_group_stats tenant gid (h_event_time hit) (fst assigned) in
                  Inr (fold (\<lambda>i. history tenant i ''correlated'' None None
                              [(''correlation_group_id'', JStr gid)]) (snd assigned) db3, Some gid)))"

definition recompute_priority ::
  "int \<Rightarrow> string \<Rightarrow> detection_hit \<Rightarrow> alert_row \<Rightarrow> alert_db \<Rightarrow> db_error + alert_db" where
  "recompute_priority now tenant hit row db =
     (let agent_status = snd (resolve_asset tenant hit db);
          ai = (if al_triage_status row = ''completed'' then al_ai_severity row else None) in
      case compute_priority (al_rule_severity row) ai (al_occurrence_count row) agent_status of
        Inl e \<Rightarrow> Inl (ScoreError e)
      | Inr score \<Rightarrow>
          Inr (db\<lparr>db_alerts := update_rows (\<lambda>r. al_tenant r = tenant \<and> al_id r = al_id row)
                 (\<lambda>r. r\<lparr>al_priority_score := ps_score score, al_priority_inputs := priority_inputs score,
                        al_updated_at := now\<rparr>) (db_alerts db)\<rparr>))"

datatype outcome = DeadLettered | Duplicate | Stored | Ok

record alerter_env =
  env_dedup_window :: int
  env_correlation_window :: int
  env_now :: int
  env_alert_ids :: "string list"
  env_group_id :: string

definition triage_payload :: "detection_hit \<Rightarrow> string \<Rightarrow> string option \<Rightarrow> string \<Rightarrow> obj" where
  "triage_payload hit alert_id group_id es_index =
     [(''alert_id'', JStr alert_id), (''rule_id'', JStr (h_rule_id hit)),
      (''rule_version'', JStr (h_rule_version hit)), (''rule_title'', JStr (h_title hit)),
      (''rule_severity'', JStr (h_severity hit)), (''entity_key'', JStr (h_entity_key hit)),
      (''entity_hostname'', opt_str (h_hostname hit)), (''entity_user'', opt_str (h_user hit)),
      (''correlation_group_id'', opt_str group_id), (''occurrence_count'', JInt 1),
      (''event_refs'', JList [JObj [(''event_id'', JStr (h_event_id hit)), (''es_index'', JStr es_index)]])]"

definition process_new ::
  "alerter_env \<Rightarrow> string \<Rightarrow> detection_hit \<Rightarrow> string \<Rightarrow> priority_score \<Rightarrow> string \<Rightarrow> alert_db
     \<Rightarrow> db_error + (alert_db \<times> obj option)" where
  "process_new env tenant hit es_index score alert_id db =
     (let db1 = history tenant alert_id ''created'' None (Some ''new'')
            [(''rule_id'', JStr (h_rule_id hit)), (''rule_version'', JStr (h_rule_version hit)),
             (''priority_score'', JInt (ps_score score)), (''event_id'', JStr (h_event_id hit))] db in
      rbind (correlate (env_correlation_window env) (env_now env) (env_group_id env) tenant hit alert_id db1)
        (\<lambda>(db2, gid). Inr (db2, Some (triage_payload hit alert_id gid es_index))))"

definition process_occurrence ::
  "alerter_env \<Rightarrow> string \<Rightarrow> detection_hit \<Rightarrow> alert_row \<Rightarrow> alert_db \<Rightarrow> db_error + (alert_db \<times> obj option)" where
  "process_occurrence env tenant hit row db =
     (let db1 = history tenant (al_id row) ''occurrence_added'' None None
            [(''occurrence_count'', JInt (al_occurrence_count row)), (''event_id'', JStr (h_event_id hit))] db in
      if al_occurrence_count row \<in> {2, 5, 20}
      then rbind (recompute_priority (env_now env) tenant hit row db1) (\<lambda>db2. Inr (db2, None))
      else Inr (db1, None))"

definition process_hit ::
  "alerter_env \<Rightarrow> hit_lib \<Rightarrow> string \<Rightarrow> detection_hit \<Rightarrow> alert_db \<Rightarrow> db_error + (alert_db \<times> outcome \<times> obj option)" where
  "process_hit env lib tenant hit db =
     (let es_index = (case h_es_index hit of Some i \<Rightarrow> if i = [] then events_index lib tenant (h_event_time hit) else i
                      | None \<Rightarrow> events_index lib tenant (h_event_time hit)) in
      if alert_event_linked tenant (h_event_id hit) (h_rule_id hit) db then Inr (db, Duplicate, None)
      else
        let (asset_id, agent_status) = resolve_asset tenant hit db in
        case compute_priority (h_severity hit) None 1 agent_status of
          Inl e \<Rightarrow> Inl (ScoreError e)
        | Inr score \<Rightarrow>
            rbind (upsert_with_window (env_dedup_window env) (env_now env) tenant hit asset_id score
                     (env_alert_ids env) db) (\<lambda>(db1, res).
            case res of
              None \<Rightarrow> Inl UpsertContention
            | Some (row, inserted) \<Rightarrow>
                let db2 = link_event tenant (al_id row) (h_event_id hit) es_index db1 in
                rbind (if inserted then process_new env tenant hit es_index score (al_id row) db2
                       else process_occurrence env tenant hit row db2) (\<lambda>(db3, payload).
                  Inr (db3, if payload = None then Ok else Stored, payload))))"

definition handle ::
  "alerter_env \<Rightarrow> hit_lib \<Rightarrow> string \<Rightarrow> json \<Rightarrow> string \<Rightarrow> alert_db \<Rightarrow> db_error + (alert_db \<times> outcome \<times> obj option)" where
  "handle env lib tenant payload detail db =
     (case model_validate lib payload of
        None \<Rightarrow>
          Inr (insert_dead_letter tenant None ''generic'' ''DETECTION_HIT_MALFORMED'' (Some detail) db,
               DeadLettered, None)
      | Some hit \<Rightarrow> process_hit env lib tenant hit db)"

subsection \<open>The retry loop, from its interface\<close>

text \<open>What the loop relies on: an attempt succeeds unless an expired alert blocks the key, a blocked
  attempt changes nothing, and closing the expired alerts unblocks the key.\<close>

locale window_store =
  fixes try_put :: "'i \<Rightarrow> 'db \<Rightarrow> 'e + ('db \<times> 'r option)"
    and evict :: "'db \<Rightarrow> 'db"
    and blocked :: "'db \<Rightarrow> bool"
    and fresh :: "'i \<Rightarrow> 'db \<Rightarrow> bool"
    and retry_loop :: "'i list \<Rightarrow> 'db \<Rightarrow> 'e + ('db \<times> 'r option)"
  assumes put_free: "fresh i db \<Longrightarrow> \<not> blocked db \<Longrightarrow> \<exists>db' r. try_put i db = Inr (db', Some r)"
    and put_not_blocked: "\<not> blocked db \<Longrightarrow> try_put i db \<noteq> Inr (db', None)"
    and put_blocked: "blocked db \<Longrightarrow> try_put i db = Inr (db, None)"
    and evict_unblocks: "\<not> blocked (evict db)"
    and evict_fresh: "fresh i (evict db) = fresh i db"
    and loop_Nil: "retry_loop [] db = Inr (db, None)"
    and loop_Cons: "retry_loop (i # is) db = rbind (try_put i db)
          (\<lambda>res. case snd res of Some x \<Rightarrow> Inr (fst res, Some x) | None \<Rightarrow> retry_loop is (evict (fst res)))"
begin

lemma loop_free:
  assumes "\<not> blocked db"
  shows "retry_loop (i # is) db = try_put i db"
proof (cases "try_put i db")
  case (Inr res)
  with put_not_blocked [OF assms, of i "fst res"] have "snd res \<noteq> None" by (cases res) auto
  with Inr show ?thesis by (cases res) (auto simp: loop_Cons)
qed (simp add: loop_Cons)

lemma loop_blocked: "blocked db \<Longrightarrow> retry_loop (i # j # is) db = try_put j (evict db)"
  by (simp add: loop_Cons [of i] put_blocked loop_free evict_unblocks)

lemma two_attempts_suffice:
  assumes "fresh i db" "fresh j db"
  shows "\<exists>db' r. retry_loop (i # j # is) db = Inr (db', Some r)"
  using assms put_free evict_unblocks evict_fresh
  by (cases "blocked db") (simp_all add: loop_blocked loop_free)

lemma loop_invariant:
  assumes "P db" and "retry_loop is db = Inr (db', res)"
    and "\<And>i db db' r. P db \<Longrightarrow> try_put i db = Inr (db', r) \<Longrightarrow> P db'"
    and "\<And>db. P db \<Longrightarrow> P (evict db)"
  shows "P db'"
  using assms(1,2)
proof (induction "is" arbitrary: db)
  case Nil
  then show ?case by (simp add: loop_Nil)
next
  case (Cons i "is")
  from Cons.prems(2) obtain db1 r where put: "try_put i db = Inr (db1, r)"
    and rest: "(case r of Some x \<Rightarrow> Inr (db1, Some x) | None \<Rightarrow> retry_loop is (evict db1)) = Inr (db', res)"
    by (auto simp: loop_Cons rbind_Inr_iff split: option.splits)
  from assms(3) [OF Cons.prems(1) put] have "P db1" .
  with rest Cons.IH assms(4) show ?case by (auto split: option.splits)
qed

end

definition key_blocked :: "int \<Rightarrow> string \<Rightarrow> detection_hit \<Rightarrow> alert_db \<Rightarrow> bool" where
  "key_blocked window tenant hit db =
     (case find (is_open_for tenant hit) (db_alerts db) of None \<Rightarrow> False | Some r \<Rightarrow> window_expired window hit r)"

definition evict_expired :: "int \<Rightarrow> int \<Rightarrow> string \<Rightarrow> detection_hit \<Rightarrow> alert_db \<Rightarrow> alert_db" where
  "evict_expired window now tenant hit db =
     (let closed = close_expired_open_alert window now tenant hit db in
      close_history tenant (snd closed) (fst closed))"

definition id_fresh :: "string \<Rightarrow> alert_db \<Rightarrow> bool" where
  "id_fresh i db = (i \<notin> set (map al_id (db_alerts db)))"

lemma history_simps [simp]:
  "db_alerts (history t a ac f t' d db) = db_alerts db"
  "db_links (history t a ac f t' d db) = db_links db"
  "db_groups (history t a ac f t' d db) = db_groups db"
  "db_assets (history t a ac f t' d db) = db_assets db"
  "db_dead_letters (history t a ac f t' d db) = db_dead_letters db"
  by (simp_all add: history_def insert_history_def)

lemma fold_history_simps [simp]:
  "db_alerts (fold (\<lambda>i. history t i ac f t' d) ids db) = db_alerts db"
  "db_links (fold (\<lambda>i. history t i ac f t' d) ids db) = db_links db"
  "db_groups (fold (\<lambda>i. history t i ac f t' d) ids db) = db_groups db"
  "db_assets (fold (\<lambda>i. history t i ac f t' d) ids db) = db_assets db"
  "db_dead_letters (fold (\<lambda>i. history t i ac f t' d) ids db) = db_dead_letters db"
  by (induction ids arbitrary: db) simp_all

lemma evict_expired_simps [simp]:
  "db_alerts (evict_expired w now t hit db) =
     update_rows (\<lambda>r. is_open_for t hit r \<and> window_expired w hit r) (close_row now) (db_alerts db)"
  "db_links (evict_expired w now t hit db) = db_links db"
  "db_groups (evict_expired w now t hit db) = db_groups db"
  "db_assets (evict_expired w now t hit db) = db_assets db"
  "db_dead_letters (evict_expired w now t hit db) = db_dead_letters db"
  by (simp_all add: evict_expired_def close_expired_open_alert_def close_history_def Let_def)

lemma close_row_simps [simp]:
  "al_id (close_row now r) = al_id r" "al_tenant (close_row now r) = al_tenant r"
  "al_rule_id (close_row now r) = al_rule_id r" "al_group (close_row now r) = al_group r"
  "\<not> is_open (close_row now r)" "row_ok r \<Longrightarrow> row_ok (close_row now r)"
  by (simp_all add: close_row_def is_open_def row_ok_def)

lemma not_open_for_close_row [simp]: "\<not> is_open_for t hit (close_row now r)"
  by (simp add: is_open_for_def)

lemma find_evicted:
  assumes "find (is_open_for t hit) (update_rows (\<lambda>r. is_open_for t hit r \<and> window_expired w hit r) (close_row now) rows) = Some r"
  shows "\<not> window_expired w hit r"
  using assms by (induction rows) (auto split: if_splits)

interpretation dedup: window_store
  "alert_upsert w now t hit asset score" "evict_expired w now t hit" "key_blocked w t hit" id_fresh
  "upsert_with_window w now t hit asset score"
proof unfold_locales
  show "\<not> key_blocked w t hit (evict_expired w now t hit db)" for db
    by (auto simp: key_blocked_def dest: find_evicted split: option.splits)
  show "id_fresh i (evict_expired w now t hit db) = id_fresh i db" for i db
    by (simp add: id_fresh_def update_rows_map)
qed (auto simp: alert_upsert_def key_blocked_def id_fresh_def evict_expired_def Let_def split: option.splits if_splits)

subsection \<open>The database invariant\<close>

text \<open>Links point at alerts, alerts at groups of their own tenant, and every group counts its
  alerts.\<close>

definition alert_ref :: "alert_row \<Rightarrow> string \<times> string" where
  "alert_ref r = (al_tenant r, al_id r)"

definition group_ref :: "alert_row \<Rightarrow> string \<times> string option" where
  "group_ref r = (al_tenant r, al_group r)"

definition refs_ok :: "alert_db \<Rightarrow> bool" where
  "refs_ok db \<longleftrightarrow>
     (\<forall>l \<in> set (db_links db). (ln_tenant l, ln_alert l) \<in> set (map alert_ref (db_alerts db)))
   \<and> distinct (map gr_id (db_groups db))
   \<and> (\<forall>g \<in> set (db_groups db). gr_alert_count g = group_size (gr_tenant g) (gr_id g) (db_alerts db))
   \<and> (\<forall>t gid. (t, Some gid) \<in> set (map group_ref (db_alerts db)) \<longrightarrow>
        (\<exists>g \<in> set (db_groups db). gr_id g = gid \<and> gr_tenant g = t))"

lemma group_size_count: "group_size t gid rows = count_list (map group_ref rows) (t, Some gid)"
  by (induction rows) (auto simp: group_size_def group_ref_def)

definition db_ok :: "alert_db \<Rightarrow> bool" where
  "db_ok db \<longleftrightarrow> alerts_ok (db_alerts db) \<and> refs_ok db"

definition keeps_refs :: "(alert_row \<Rightarrow> alert_row) \<Rightarrow> bool" where
  "keeps_refs f \<longleftrightarrow> (\<forall>r. al_id (f r) = al_id r \<and> al_tenant (f r) = al_tenant r
     \<and> al_rule_id (f r) = al_rule_id r \<and> al_group (f r) = al_group r)"

lemma keeps_refs_add_occurrence: "keeps_refs (add_occurrence hit now)"
  by (simp add: keeps_refs_def add_occurrence_def)

lemma keeps_refs_close_row: "keeps_refs (close_row now)"
  by (simp add: keeps_refs_def)

lemma keeps_refs_maps:
  assumes "keeps_refs f"
  shows "map alert_ref (update_rows p f rows) = map alert_ref rows"
    and "map group_ref (update_rows p f rows) = map group_ref rows"
  using assms by (simp_all add: update_rows_map keeps_refs_def alert_ref_def group_ref_def)

lemma refs_ok_update:
  assumes "refs_ok db" "keeps_refs f"
  shows "refs_ok (db\<lparr>db_alerts := update_rows p f (db_alerts db)\<rparr>)"
proof -
  let ?db = "db\<lparr>db_alerts := update_rows p f (db_alerts db)\<rparr>"
  have "db_links ?db = db_links db" "db_groups ?db = db_groups db"
    "db_alerts ?db = update_rows p f (db_alerts db)" by simp_all
  with assms(1) show ?thesis
    by (simp only: refs_ok_def group_size_count keeps_refs_maps [OF assms(2)]) blast
qed

lemma refs_ok_cong:
  "db_alerts db' = db_alerts db \<Longrightarrow> db_links db' = db_links db \<Longrightarrow> db_groups db' = db_groups db
     \<Longrightarrow> refs_ok db' = refs_ok db"
  by (simp add: refs_ok_def)

lemma db_ok_cong:
  "db_alerts db' = db_alerts db \<Longrightarrow> db_links db' = db_links db \<Longrightarrow> db_groups db' = db_groups db
     \<Longrightarrow> db_ok db' = db_ok db"
  by (simp add: db_ok_def refs_ok_cong [of db' db])

lemma db_ok_history [simp]: "db_ok (history t a ac f t' d db) = db_ok db"
  by (rule db_ok_cong) simp_all

lemma db_ok_fold_history [simp]: "db_ok (fold (\<lambda>i. history t i ac f t' d) ids db) = db_ok db"
  by (rule db_ok_cong) simp_all

lemma group_size_append: "group_size t g (xs @ ys) = group_size t g xs + group_size t g ys"
  by (simp add: group_size_def)

lemma is_open_for_keys:
  "find (is_open_for t hit) rows = None \<longleftrightarrow> hit_key t hit \<notin> set (open_keys rows)"
  by (auto simp: find_None_iff is_open_for_def open_keys_mem)

lemma new_row_simps [simp]:
  "al_id (new_row i t hit a sc now) = i" "al_tenant (new_row i t hit a sc now) = t"
  "al_rule_id (new_row i t hit a sc now) = h_rule_id hit" "al_group (new_row i t hit a sc now) = None"
  "is_open (new_row i t hit a sc now)" "dedup_key (new_row i t hit a sc now) = hit_key t hit"
  "al_occurrence_count (new_row i t hit a sc now) = 1"
  by (simp_all add: new_row_def is_open_def dedup_key_def hit_key_def)

definition score_ok :: "detection_hit \<Rightarrow> priority_score \<Rightarrow> bool" where
  "score_ok hit score \<longleftrightarrow> h_severity hit \<in> set SEVERITIES \<and> 0 \<le> ps_score score \<and> ps_score score \<le> 100"

lemma row_ok_new_row: "score_ok hit score \<Longrightarrow> row_ok (new_row i t hit a score now)"
  by (simp add: score_ok_def row_ok_def new_row_def)

lemma add_occurrence_simps [simp]:
  "al_id (add_occurrence hit now r) = al_id r" "al_rule_id (add_occurrence hit now r) = al_rule_id r"
  "al_tenant (add_occurrence hit now r) = al_tenant r"
  "is_open (add_occurrence hit now r) = is_open r" "dedup_key (add_occurrence hit now r) = dedup_key r"
  "row_ok r \<Longrightarrow> row_ok (add_occurrence hit now r)"
  by (auto simp: add_occurrence_def is_open_def dedup_key_def row_ok_def)

lemma db_ok_upsert:
  assumes "db_ok db" "score_ok hit score" "alert_upsert w now t hit asset score i db = Inr (db', res)"
  shows "db_ok db'"
proof (cases "find (is_open_for t hit) (db_alerts db)")
  case None
  with assms(3) have i: "i \<notin> set (map al_id (db_alerts db))"
    and db': "db' = db\<lparr>db_alerts := db_alerts db @ [new_row i t hit asset score now]\<rparr>"
    by (auto simp: alert_upsert_def Let_def split: if_splits)
  from None have "hit_key t hit \<notin> set (open_keys (db_alerts db))" by (simp add: is_open_for_keys)
  with assms(1,2) i have "alerts_ok (db_alerts db')"
    unfolding db' by (auto intro!: alerts_ok_insert row_ok_new_row simp: db_ok_def)
  moreover have "refs_ok db'"
    using assms(1) unfolding db' db_ok_def refs_ok_def group_size_count
    by (auto simp: group_ref_def)
  ultimately show ?thesis by (simp add: db_ok_def)
next
  case (Some r)
  with assms show ?thesis
    by (auto simp: alert_upsert_def db_ok_def refs_ok_update keeps_refs_add_occurrence
        intro!: alerts_ok_update_same split: if_splits)
qed

lemma db_ok_evict: 
  assumes "db_ok db"
  shows "db_ok (evict_expired w now t hit db)"
proof -
  let ?db = "db\<lparr>db_alerts := update_rows (\<lambda>r. is_open_for t hit r \<and> window_expired w hit r) (close_row now) (db_alerts db)\<rparr>"
  have "db_ok ?db"
    using assms by (auto simp: db_ok_def refs_ok_update keeps_refs_close_row intro!: alerts_ok_update_close)
  then show ?thesis by (subst db_ok_cong [of _ ?db]) simp_all
qed

lemma db_ok_loop:
  assumes "db_ok db" "score_ok hit score" "upsert_with_window w now t hit asset score ids db = Inr (db', res)"
  shows "db_ok db'"
  using assms(1,3)
  by (rule dedup.loop_invariant) (use db_ok_upsert [OF _ assms(2)] db_ok_evict in blast)+

text \<open>The row the loop returns is a row of the table with the key of the hit.\<close>

definition row_in :: "string \<Rightarrow> detection_hit \<Rightarrow> alert_row \<Rightarrow> alert_db \<Rightarrow> bool" where
  "row_in t hit r db \<longleftrightarrow> r \<in> set (db_alerts db) \<and> is_open_for t hit r"

lemma find_SomeD: "find P xs = Some x \<Longrightarrow> x \<in> set xs \<and> P x"
  by (auto simp: find_Some_iff)

lemma upsert_row_in:
  assumes "alert_upsert w now t hit asset score i db = Inr (db', Some (r, b))"
  shows "row_in t hit r db'"
  using assms
  by (auto simp: alert_upsert_def row_in_def is_open_for_def Let_def set_update_rows
      split: option.splits if_splits dest!: find_SomeD)

lemma loop_row_in:
  assumes "upsert_with_window w now t hit asset score ids db = Inr (db', Some (r, b))"
  shows "row_in t hit r db'"
  using assms
proof (induction ids arbitrary: db)
  case (Cons i ids)
  then show ?case by (auto simp: rbind_Inr_iff Let_def upsert_row_in split: option.splits)
qed simp

lemma link_event_simps [simp]:
  "db_alerts (link_event t a e x db) = db_alerts db" "db_groups (link_event t a e x db) = db_groups db"
  "db_assets (link_event t a e x db) = db_assets db" "db_history (link_event t a e x db) = db_history db"
  "db_dead_letters (link_event t a e x db) = db_dead_letters db"
  by (simp_all add: link_event_def)

lemma db_ok_link:
  assumes "db_ok db" "(t, a) \<in> set (map alert_ref (db_alerts db))"
  shows "db_ok (link_event t a e x db)"
proof -
  have "db_ok (db\<lparr>db_links := db_links db @ [\<lparr>ln_tenant = t, ln_alert = a, ln_event = e, ln_es_index = x\<rparr>]\<rparr>)"
    using assms unfolding db_ok_def refs_ok_def by auto
  with assms(1) show ?thesis by (simp add: link_event_def)
qed

lemma first_group_in: "first_group cs = Some g \<Longrightarrow> \<exists>c \<in> set cs. al_group c = Some g"
  by (induction cs) (auto split: option.splits if_splits)

definition assigned_rows :: "int \<Rightarrow> string \<Rightarrow> string list \<Rightarrow> string \<Rightarrow> alert_row list \<Rightarrow> alert_row list" where
  "assigned_rows now t ids gid = update_rows (\<lambda>r. al_tenant r = t \<and> al_id r \<in> set ids \<and> al_group r = None)
     (\<lambda>r. r\<lparr>al_group := Some gid, al_updated_at := now\<rparr>)"

lemma group_size_assigned:
  "(t', gid') \<noteq> (t, gid) \<Longrightarrow> group_size t' gid' (assigned_rows now t ids gid rows) = group_size t' gid' rows"
  unfolding group_size_def assigned_rows_def by (induction rows) auto

lemma group_ref_assigned:
  "(t', Some gid') \<in> set (map group_ref (assigned_rows now t ids gid rows)) \<Longrightarrow>
     (t' = t \<and> gid' = gid) \<or> (t', Some gid') \<in> set (map group_ref rows)"
  unfolding assigned_rows_def by (induction rows) (auto simp: group_ref_def split: if_splits)

lemma alert_ref_assigned: "map alert_ref (assigned_rows now t ids gid rows) = map alert_ref rows"
  unfolding assigned_rows_def by (simp add: update_rows_map alert_ref_def)

lemma alerts_ok_assigned: "alerts_ok rows \<Longrightarrow> alerts_ok (assigned_rows now t ids gid rows)"
  unfolding assigned_rows_def
  by (rule alerts_ok_update_same) (simp_all add: is_open_def dedup_key_def row_ok_def)

lemma assign_group_rows:
  "fst (assign_group now t ids gid db) = db\<lparr>db_alerts := assigned_rows now t ids gid (db_alerts db)\<rparr>"
  by (simp add: assign_group_def assigned_rows_def Let_def)

lemma db_ok_assign_stats:
  assumes "db_ok db" "\<exists>g \<in> set (db_groups db). gr_id g = gid \<and> gr_tenant g = t"
  shows "db_ok (update_group_stats t gid seen_at (fst (assign_group now t ids gid db)))"
proof -
  let ?db = "update_group_stats t gid seen_at (fst (assign_group now t ids gid db))"
  let ?upd = "\<lambda>g. if gr_tenant g = t \<and> gr_id g = gid
    then g\<lparr>gr_alert_count := group_size (gr_tenant g) (gr_id g) (assigned_rows now t ids gid (db_alerts db)),
           gr_last_alert_at := max (gr_last_alert_at g) seen_at\<rparr> else g"
  have alerts: "db_alerts ?db = assigned_rows now t ids gid (db_alerts db)"
    and links: "db_links ?db = db_links db"
    and grps: "db_groups ?db = map ?upd (db_groups db)"
    by (simp_all add: update_group_stats_def assign_group_rows)
  have upd: "gr_id (?upd g) = gr_id g" "gr_tenant (?upd g) = gr_tenant g" for g by simp_all
  have ids: "map gr_id (map ?upd gs) = map gr_id gs" for gs by simp
  from assms(1) have ok: "alerts_ok (db_alerts db)" and refs: "refs_ok db" by (simp_all add: db_ok_def)
  have count: "gr_alert_count (?upd g) = group_size (gr_tenant (?upd g)) (gr_id (?upd g)) (db_alerts ?db)"
    if "g \<in> set (db_groups db)" for g
    using refs that group_size_assigned [of "gr_tenant g" "gr_id g" t gid]
    unfolding alerts refs_ok_def by auto
  have fk: "\<exists>g \<in> set (db_groups ?db). gr_id g = gid' \<and> gr_tenant g = t'"
    if "(t', Some gid') \<in> set (map group_ref (db_alerts ?db))" for t' gid'
  proof -
    from group_ref_assigned [OF that [unfolded alerts]] refs assms(2)
    obtain g where "g \<in> set (db_groups db)" "gr_id g = gid'" "gr_tenant g = t'"
      unfolding refs_ok_def by blast
    then have "?upd g \<in> set (db_groups ?db)" "gr_id (?upd g) = gid'" "gr_tenant (?upd g) = t'"
      unfolding grps by (simp_all add: upd)
    then show ?thesis by blast
  qed
  have "refs_ok ?db"
    unfolding refs_ok_def
  proof (intro conjI allI impI)
    show "\<forall>l \<in> set (db_links ?db). (ln_tenant l, ln_alert l) \<in> set (map alert_ref (db_alerts ?db))"
      using refs unfolding alerts links alert_ref_assigned refs_ok_def by blast
    show "distinct (map gr_id (db_groups ?db))"
      using refs unfolding grps ids refs_ok_def by blast
    show "\<forall>g \<in> set (db_groups ?db). gr_alert_count g = group_size (gr_tenant g) (gr_id g) (db_alerts ?db)"
      unfolding grps set_map using count by blast
  qed (rule fk)
  moreover have "alerts_ok (db_alerts ?db)" unfolding alerts by (rule alerts_ok_assigned [OF ok])
  ultimately show ?thesis by (simp add: db_ok_def)
qed

lemma db_ok_create_group:
  assumes "db_ok db" "create_group gid t h seen_at db = Inr db'"
  shows "db_ok db' \<and> (\<exists>g \<in> set (db_groups db'). gr_id g = gid \<and> gr_tenant g = t)"
proof -
  from assms(2) have gid: "gid \<notin> set (map gr_id (db_groups db))"
    and db': "db' = db\<lparr>db_groups := db_groups db @ [\<lparr>gr_id = gid, gr_tenant = t, gr_hostname = h,
        gr_alert_count = 0, gr_last_alert_at = seen_at\<rparr>]\<rparr>"
    by (auto simp: create_group_def split: if_splits)
  from assms(1) gid have "(t, Some gid) \<notin> set (map group_ref (db_alerts db))"
    unfolding db_ok_def refs_ok_def by fastforce
  then have "group_size t gid (db_alerts db) = 0"
    unfolding group_size_count by (simp add: count_list_0_iff)
  with assms(1) gid show ?thesis unfolding db' db_ok_def refs_ok_def by auto
qed

lemma db_ok_correlate:
  assumes "db_ok db" "correlate w now gid t hit a db = Inr (db', g)"
  shows "db_ok db'"
proof (cases "db' = db")
  case False
  define pick where "pick h cands = (case first_group cands of Some g \<Rightarrow> Inr (db, g)
      | None \<Rightarrow> rbind (create_group gid t h (h_event_time hit) db) (\<lambda>db'. Inr (db', gid)))" for h cands
  from assms(2) False obtain h where h: "h_hostname hit = Some h" "h \<noteq> []"
    by (auto simp: correlate_def split: option.splits if_splits)
  define cands where "cands = correlation_candidates w t hit h a db"
  define ids where "ids = a # map al_id (filter (\<lambda>c. al_group c = None) cands)"
  from assms(2) False h have "rbind (pick h cands) (\<lambda>(db1, gid1).
      Inr (fold (\<lambda>i. history t i ''correlated'' None None [(''correlation_group_id'', JStr gid1)])
             (snd (assign_group now t ids gid1 db1))
             (update_group_stats t gid1 (h_event_time hit) (fst (assign_group now t ids gid1 db1))), Some gid1))
      = Inr (db', g)"
    by (simp add: correlate_def Let_def cands_def [symmetric] ids_def [symmetric] pick_def [symmetric] split: if_splits)
  then obtain db1 gid1 where pick: "pick h cands = Inr (db1, gid1)"
    and db': "db' = fold (\<lambda>i. history t i ''correlated'' None None [(''correlation_group_id'', JStr gid1)])
        (snd (assign_group now t ids gid1 db1))
        (update_group_stats t gid1 (h_event_time hit) (fst (assign_group now t ids gid1 db1)))"
    by (auto simp: rbind_Inr_iff)
  have "db_ok db1 \<and> (\<exists>g \<in> set (db_groups db1). gr_id g = gid1 \<and> gr_tenant g = t)"
  proof (cases "first_group cands")
    case None
    with pick assms(1) show ?thesis by (auto simp: pick_def rbind_Inr_iff dest: db_ok_create_group)
  next
    case (Some g)
    with pick have eq: "db1 = db" "gid1 = g" by (auto simp: pick_def)
    from first_group_in [OF Some] obtain c where "c \<in> set cands" "al_group c = Some g" by blast
    then have "(t, Some g) \<in> set (map group_ref (db_alerts db))"
      unfolding cands_def correlation_candidates_def by (force simp: group_ref_def)
    with assms(1) show ?thesis unfolding eq db_ok_def refs_ok_def by blast
  qed
  with db' show ?thesis by (auto intro: db_ok_assign_stats)
qed (use assms in simp)

lemma db_ok_recompute:
  assumes "db_ok db" "recompute_priority now t hit row db = Inr db'"
  shows "db_ok db'"
proof -
  from assms(2) obtain score f where "26 \<le> ps_score score" "ps_score score \<le> 100"
    and f: "f = (\<lambda>r. r\<lparr>al_priority_score := ps_score score, al_priority_inputs := priority_inputs score,
                        al_updated_at := now\<rparr>)"
    and db': "db' = db\<lparr>db_alerts := update_rows (\<lambda>r. al_tenant r = t \<and> al_id r = al_id row) f (db_alerts db)\<rparr>"
    by (auto simp: recompute_priority_def Let_def dest: compute_priority_range split: sum.splits)
  moreover have "keeps_refs f" by (simp add: f keeps_refs_def)
  ultimately show ?thesis
    using assms(1) unfolding db_ok_def db'
    by (auto intro!: alerts_ok_update_same refs_ok_update simp: f is_open_def dedup_key_def row_ok_def)
qed

subsection \<open>Processing a hit\<close>

definition hit_tail ::
  "alerter_env \<Rightarrow> hit_lib \<Rightarrow> string \<Rightarrow> detection_hit \<Rightarrow> priority_score \<Rightarrow> alert_row \<Rightarrow> bool \<Rightarrow> string \<Rightarrow> alert_db
     \<Rightarrow> db_error + (alert_db \<times> obj option)" where
  "hit_tail env lib t hit score row inserted es_index db =
     (let db2 = link_event t (al_id row) (h_event_id hit) es_index db in
      if inserted then process_new env t hit es_index score (al_id row) db2
      else process_occurrence env t hit row db2)"

lemma hit_tail_cases [consumes 1, case_names correlated recomputed plain]:
  assumes "hit_tail env lib t hit score row ins ix db = Inr (db', p)"
  obtains ac f t' d w now gid g where
    "correlate w now gid t hit (al_id row)
       (history t (al_id row) ac f t' d (link_event t (al_id row) (h_event_id hit) ix db)) = Inr (db', g)"
    "ins" "p = Some (triage_payload hit (al_id row) g ix)"
  | ac f t' d now where
    "recompute_priority now t hit row
       (history t (al_id row) ac f t' d (link_event t (al_id row) (h_event_id hit) ix db)) = Inr db'"
    "\<not> ins" "p = None"
  | ac f t' d where
    "db' = history t (al_id row) ac f t' d (link_event t (al_id row) (h_event_id hit) ix db)"
    "\<not> ins" "p = None"
proof (cases ins)
  case True
  with assms obtain db2 g where "correlate (env_correlation_window env) (env_now env) (env_group_id env) t hit (al_id row)
      (history t (al_id row) ''created'' None (Some ''new'')
            [(''rule_id'', JStr (h_rule_id hit)), (''rule_version'', JStr (h_rule_version hit)),
             (''priority_score'', JInt (ps_score score)), (''event_id'', JStr (h_event_id hit))]
        (link_event t (al_id row) (h_event_id hit) ix db)) = Inr (db2, g)"
    and "db2 = db'" "p = Some (triage_payload hit (al_id row) g ix)"
    by (auto simp: hit_tail_def process_new_def Let_def rbind_Inr_iff)
  with True show thesis using that(1) by blast
next
  case False
  let ?db2 = "history t (al_id row) ''occurrence_added'' None None
            [(''occurrence_count'', JInt (al_occurrence_count row)), (''event_id'', JStr (h_event_id hit))]
            (link_event t (al_id row) (h_event_id hit) ix db)"
  from False assms have "(if al_occurrence_count row \<in> {2, 5, 20}
      then rbind (recompute_priority (env_now env) t hit row ?db2) (\<lambda>db2. Inr (db2, None))
      else Inr (?db2, None)) = Inr (db', p)"
    by (simp only: hit_tail_def process_occurrence_def Let_def if_False)
  then have "recompute_priority (env_now env) t hit row ?db2 = Inr db' \<and> p = None \<or> db' = ?db2 \<and> p = None"
    by (simp only: rbind_Inr_iff split: if_splits) auto
  then show thesis
  proof (elim disjE conjE)
    assume re: "recompute_priority (env_now env) t hit row ?db2 = Inr db'" and p: "p = None"
    show thesis by (rule that(2) [OF re False p])
  next
    assume eq: "db' = ?db2" and p: "p = None"
    show thesis by (rule that(3) [OF eq False p])
  qed
qed

lemma process_hit_cases [consumes 1, case_names duplicate processed]:
  assumes "process_hit env lib t hit db = Inr (db', out, p)"
  obtains "alert_event_linked t (h_event_id hit) (h_rule_id hit) db" "db' = db" "out = Duplicate" "p = None"
  | asset ag score db1 row ins ix where
    "\<not> alert_event_linked t (h_event_id hit) (h_rule_id hit) db"
    "resolve_asset t hit db = (asset, ag)" "compute_priority (h_severity hit) None 1 ag = Inr score"
    "upsert_with_window (env_dedup_window env) (env_now env) t hit asset score (env_alert_ids env) db
       = Inr (db1, Some (row, ins))"
    "hit_tail env lib t hit score row ins ix db1 = Inr (db', p)"
    "out = (if p = None then Ok else Stored)"
proof (cases "alert_event_linked t (h_event_id hit) (h_rule_id hit) db")
  case True
  with assms have "db' = db" "out = Duplicate" "p = None" by (simp_all add: process_hit_def Let_def)
  with True show thesis by (rule that(1))
next
  case False
  obtain asset ag where ra: "resolve_asset t hit db = (asset, ag)" by fastforce
  from assms False ra obtain score where sc: "compute_priority (h_severity hit) None 1 ag = Inr score"
    by (auto simp: process_hit_def Let_def split: sum.splits)
  define ix where "ix = (case h_es_index hit of Some i \<Rightarrow> if i = [] then events_index lib t (h_event_time hit) else i
                      | None \<Rightarrow> events_index lib t (h_event_time hit))"
  from assms False ra sc obtain db1 row ins where
    up: "upsert_with_window (env_dedup_window env) (env_now env) t hit asset score (env_alert_ids env) db
       = Inr (db1, Some (row, ins))"
    by (auto simp: process_hit_def Let_def rbind_Inr_iff split: option.splits)
  from assms False ra sc up have "hit_tail env lib t hit score row ins ix db1 = Inr (db', p)"
    "out = (if p = None then Ok else Stored)"
    by (auto simp: process_hit_def hit_tail_def ix_def [symmetric] Let_def rbind_Inr_iff)
  with False ra sc up show thesis by (rule that(2))
qed

lemma db_ok_process_hit:
  assumes "db_ok db" "process_hit env lib t hit db = Inr (db', out, p)"
  shows "db_ok db'"
  using assms(2)
proof (cases rule: process_hit_cases)
  case duplicate
  with assms(1) show ?thesis by simp
next
  case (processed asset ag score db1 row ins ix)
  have sc: "score_ok hit score"
    using compute_priority_range [OF processed(3)] by (simp add: score_ok_def)
  have ok1: "db_ok db1" by (rule db_ok_loop [OF assms(1) sc processed(4)])
  have "alert_ref row \<in> set (map alert_ref (db_alerts db1))" "al_tenant row = t"
    using loop_row_in [OF processed(4)] by (auto simp: row_in_def is_open_for_def dedup_key_def hit_key_def)
  then have "db_ok (link_event t (al_id row) (h_event_id hit) ix db1)"
    by (intro db_ok_link [OF ok1]) (simp add: alert_ref_def)
  then have ok2: "db_ok (history t (al_id row) ac f t' d (link_event t (al_id row) (h_event_id hit) ix db1))"
    for ac f t' d by simp
  from processed(5) show ?thesis
  proof (cases rule: hit_tail_cases)
    case correlated
    from db_ok_correlate [OF ok2 correlated(1)] show ?thesis .
  next
    case recomputed
    from db_ok_recompute [OF ok2 recomputed(1)] show ?thesis .
  next
    case plain
    then show ?thesis using ok2 by simp
  qed
qed

lemma db_ok_handle:
  assumes "db_ok db" "handle env lib t payload detail db = Inr (db', out, p)"
  shows "db_ok db'"
proof (cases "model_validate lib payload")
  case None
  with assms show ?thesis
    by (auto simp: handle_def insert_dead_letter_def Let_def db_ok_cong [of "db\<lparr>db_dead_letters := _\<rparr>" db])
next
  case (Some hit)
  with assms(2) have "process_hit env lib t hit db = Inr (db', out, p)" by (simp add: handle_def)
  with assms(1) show ?thesis by (rule db_ok_process_hit)
qed

subsection \<open>Redelivery\<close>

definition alert_ident :: "alert_row \<Rightarrow> string \<times> string \<times> string" where
  "alert_ident r = (al_tenant r, al_id r, al_rule_id r)"

text \<open>The later steps of a transaction leave links and alert identities alone.\<close>

definition same_links :: "alert_db \<Rightarrow> alert_db \<Rightarrow> bool" where
  "same_links db db' \<longleftrightarrow> db_links db' = db_links db
     \<and> map alert_ident (db_alerts db') = map alert_ident (db_alerts db)"

lemma alert_event_linked_ident:
  "alert_event_linked t e rid db \<longleftrightarrow>
     (\<exists>l \<in> set (db_links db). ln_tenant l = t \<and> ln_event l = e
        \<and> (t, ln_alert l, rid) \<in> set (map alert_ident (db_alerts db)))"
  by (force simp: alert_event_linked_def list_ex_iff alert_ident_def)

lemma same_links_linked: "same_links db db' \<Longrightarrow> alert_event_linked t e rid db' = alert_event_linked t e rid db"
  by (simp only: alert_event_linked_ident same_links_def)

lemma same_links_update:
  "(\<And>r. alert_ident (f r) = alert_ident r) \<Longrightarrow> same_links db (db\<lparr>db_alerts := update_rows p f (db_alerts db)\<rparr>)"
  by (simp add: same_links_def update_rows_map)

lemma same_links_correlate:
  assumes "correlate w now gid t hit a db = Inr (db', g)"
  shows "same_links db db'"
  using assms
  by (auto simp: correlate_def Let_def rbind_Inr_iff same_links_def update_group_stats_def create_group_def
      assign_group_rows assigned_rows_def update_rows_map alert_ident_def split: option.splits if_splits)

lemma same_links_recompute:
  "recompute_priority now t hit row db = Inr db' \<Longrightarrow> same_links db db'"
  by (auto simp: recompute_priority_def Let_def alert_ident_def intro!: same_links_update split: sum.splits)

lemma same_links_history: "same_links (history t a ac f t' d db) db' = same_links db db'"
  by (simp add: same_links_def)

lemma same_links_history_right: "same_links db (history t a ac f t' d db)"
  by (simp add: same_links_def)

lemma hit_tail_linked:
  assumes "hit_tail env lib t hit score row ins ix db1 = Inr (db', p)" "row_in t hit row db1"
  shows "alert_event_linked t (h_event_id hit) (h_rule_id hit) db'"
proof -
  let ?db2 = "link_event t (al_id row) (h_event_id hit) ix db1"
  from assms(1) have same: "same_links ?db2 db'"
  proof (cases rule: hit_tail_cases)
    case correlated
    from same_links_correlate [OF correlated(1)] show ?thesis by (simp add: same_links_history)
  next
    case recomputed
    from same_links_recompute [OF recomputed(1)] show ?thesis by (simp add: same_links_history)
  next
    case plain
    then show ?thesis by (simp add: same_links_history_right)
  qed
  obtain l where "l \<in> set (db_links ?db2)" "ln_tenant l = t" "ln_event l = h_event_id hit" "ln_alert l = al_id row"
  proof -
    have "\<exists>l \<in> set (db_links ?db2). ln_tenant l = t \<and> ln_event l = h_event_id hit \<and> ln_alert l = al_id row"
      by (auto simp: link_event_def list_ex_iff)
    with that show thesis by blast
  qed
  moreover have "(t, al_id row, h_rule_id hit) \<in> set (map alert_ident (db_alerts ?db2))"
    using assms(2) by (force simp: row_in_def is_open_for_def dedup_key_def hit_key_def alert_ident_def)
  ultimately show ?thesis
    unfolding same_links_linked [OF same] unfolding alert_event_linked_ident by (intro bexI [of _ l] conjI) simp_all
qed

lemma process_hit_linked:
  assumes "process_hit env lib t hit db = Inr (db', out, p)"
  shows "alert_event_linked t (h_event_id hit) (h_rule_id hit) db'"
  using assms
proof (cases rule: process_hit_cases)
  case (processed asset ag score db1 row ins ix)
  show ?thesis by (rule hit_tail_linked [OF processed(5) loop_row_in [OF processed(4)]])
qed simp

subsection \<open>Tenant isolation\<close>

record tenant_view =
  tv_alerts :: "alert_row list"
  tv_links :: "event_link list"
  tv_history :: "history_row list"
  tv_groups :: "group_row list"
  tv_dead_letters :: "dead_letter list"
  tv_audit :: "audit_row list"

definition tenant_part :: "string \<Rightarrow> alert_db \<Rightarrow> tenant_view" where
  "tenant_part t db =
     \<lparr>tv_alerts = filter (\<lambda>r. al_tenant r = t) (db_alerts db),
      tv_links = filter (\<lambda>l. ln_tenant l = t) (db_links db),
      tv_history = filter (\<lambda>h. hi_tenant h = t) (db_history db),
      tv_groups = filter (\<lambda>g. gr_tenant g = t) (db_groups db),
      tv_dead_letters = filter (\<lambda>d. dl_tenant d = t) (db_dead_letters db),
      tv_audit = filter (\<lambda>d. au_tenant d = t) (db_audit db)\<rparr>"

definition isolated :: "string \<Rightarrow> alert_db \<Rightarrow> alert_db \<Rightarrow> bool" where
  "isolated t db db' \<longleftrightarrow> (\<forall>t'. t' \<noteq> t \<longrightarrow> tenant_part t' db' = tenant_part t' db)"

lemma isolated_refl [simp]: "isolated t db db"
  by (simp add: isolated_def)

lemma isolated_trans: "isolated t db db1 \<Longrightarrow> isolated t db1 db2 \<Longrightarrow> isolated t db db2"
  by (simp add: isolated_def)

lemma filter_update_other:
  assumes "\<And>r. p r \<Longrightarrow> al_tenant r = t" "\<And>r. al_tenant (f r) = al_tenant r" "t' \<noteq> t"
  shows "filter (\<lambda>r. al_tenant r = t') (update_rows p f rows) = filter (\<lambda>r. al_tenant r = t') rows"
  using assms by (induction rows) auto

lemma isolated_update:
  assumes "\<And>r. p r \<Longrightarrow> al_tenant r = t" "\<And>r. al_tenant (f r) = al_tenant r"
  shows "isolated t db (db\<lparr>db_alerts := update_rows p f (db_alerts db)\<rparr>)"
  unfolding isolated_def tenant_part_def using assms by (auto simp: filter_update_other [where t = t])

lemma isolated_history: "isolated t db (history t a ac f t' d db)"
  by (simp add: isolated_def tenant_part_def history_def insert_history_def)

lemma isolated_fold_history: "isolated t db (fold (\<lambda>i. history t i ac f t' d) ids db)"
proof (induction ids arbitrary: db)
  case (Cons i ids)
  show ?case using isolated_trans [OF isolated_history Cons] by simp
qed simp

lemma is_open_for_tenant: "is_open_for t hit r \<Longrightarrow> al_tenant r = t"
  by (simp add: is_open_for_def dedup_key_def hit_key_def)

lemma isolated_evict: "isolated t db (evict_expired w now t hit db)"
  unfolding evict_expired_def close_expired_open_alert_def close_history_def Let_def fst_conv snd_conv
  by (rule isolated_trans [OF isolated_update isolated_fold_history]) (auto dest: is_open_for_tenant)

lemma isolated_upsert:
  assumes "alert_upsert w now t hit asset score i db = Inr (db', r)"
  shows "isolated t db db'"
proof -
  have "isolated t db (db\<lparr>db_alerts := db_alerts db @ [new_row i t hit asset score now]\<rparr>)"
    by (simp add: isolated_def tenant_part_def)
  moreover have "isolated t db (db\<lparr>db_alerts := update_rows (is_open_for t hit) (add_occurrence hit now) (db_alerts db)\<rparr>)"
    by (rule isolated_update) (auto dest: is_open_for_tenant)
  ultimately show ?thesis
    using assms by (auto simp: alert_upsert_def Let_def split: option.splits if_splits)
qed

lemma isolated_loop:
  assumes "upsert_with_window w now t hit asset score ids db = Inr (db', r)"
  shows "isolated t db db'"
  by (rule dedup.loop_invariant [where P = "isolated t db", OF isolated_refl assms])
    (auto intro: isolated_trans isolated_upsert isolated_evict)

lemma isolated_link: "isolated t db (link_event t a e x db)"
  by (simp add: isolated_def tenant_part_def link_event_def)

lemma isolated_assign: "isolated t db (fst (assign_group now t ids gid db))"
  unfolding assign_group_def Let_def fst_conv by (rule isolated_update) auto

lemma filter_map_other:
  assumes "t' \<noteq> t"
  shows "filter (\<lambda>g. gr_tenant g = t') (map (\<lambda>g. if gr_tenant g = t \<and> gr_id g = gid
     then g\<lparr>gr_alert_count := c g, gr_last_alert_at := m g\<rparr> else g) gs) = filter (\<lambda>g. gr_tenant g = t') gs"
  using assms by (induction gs) auto

lemma isolated_stats: "isolated t db (update_group_stats t gid seen db)"
  by (simp add: isolated_def tenant_part_def update_group_stats_def filter_map_other)

lemma isolated_create: "create_group gid t h seen db = Inr db' \<Longrightarrow> isolated t db db'"
  by (auto simp: isolated_def tenant_part_def create_group_def split: if_splits)

lemma isolated_group_chain:
  "isolated t db (fold (\<lambda>i. history t i ac f t' d) ids2 (update_group_stats t gid seen (fst (assign_group now t ids gid db))))"
  by (blast intro: isolated_trans isolated_assign isolated_stats isolated_fold_history)

lemma isolated_correlate:
  assumes "correlate w now gid t hit a db = Inr (db', g)"
  shows "isolated t db db'"
  using assms
  by (auto simp: correlate_def Let_def rbind_Inr_iff isolated_group_chain
      intro: isolated_trans [OF isolated_create isolated_group_chain] split: option.splits if_splits)

lemma isolated_recompute: "recompute_priority now t hit row db = Inr db' \<Longrightarrow> isolated t db db'"
  by (auto simp: recompute_priority_def Let_def intro!: isolated_update split: sum.splits)

lemma isolated_process_hit:
  assumes "process_hit env lib t hit db = Inr (db', out, p)"
  shows "isolated t db db'"
  using assms
proof (cases rule: process_hit_cases)
  case (processed asset ag score db1 row ins ix)
  have to2: "isolated t db (history t (al_id row) ac f t' d (link_event t (al_id row) (h_event_id hit) ix db1))"
    for ac f t' d
    by (blast intro: isolated_trans isolated_loop [OF processed(4)] isolated_link isolated_history)
  from processed(5) show ?thesis
  proof (cases rule: hit_tail_cases)
    case correlated
    from isolated_trans [OF to2 isolated_correlate [OF correlated(1)]] show ?thesis .
  next
    case recomputed
    from isolated_trans [OF to2 isolated_recompute [OF recomputed(1)]] show ?thesis .
  next
    case plain
    then show ?thesis using to2 by simp
  qed
qed simp

lemma isolated_handle:
  assumes "handle env lib t payload detail db = Inr (db', out, p)"
  shows "isolated t db db'"
  using assms isolated_process_hit
  by (auto simp: handle_def insert_dead_letter_def Let_def isolated_def tenant_part_def split: option.splits)

subsection \<open>Window semantics\<close>

lemma find_unique:
  assumes "distinct (open_keys rows)" "r \<in> set rows" "is_open_for t hit r"
  shows "find (is_open_for t hit) rows = Some r"
proof -
  from assms(2,3) obtain s where s: "find (is_open_for t hit) rows = Some s"
    by (cases "find (is_open_for t hit) rows") (auto simp: find_None_iff)
  have "s \<in> set rows" "is_open_for t hit s" using find_SomeD [OF s] by simp_all
  with assms have "s = r" unfolding is_open_for_def by (metis open_key_unique)
  with s show ?thesis by simp
qed

lemma update_unique:
  assumes "distinct (open_keys rows)" "r \<in> set rows" "is_open_for t hit r"
  shows "update_rows (\<lambda>x. is_open_for t hit x \<and> Q x) f rows = update_rows (\<lambda>x. x = r \<and> Q x) f rows"
  unfolding update_rows_def
proof (rule map_cong [OF refl])
  fix x
  assume "x \<in> set rows"
  then have "is_open_for t hit x \<Longrightarrow> x = r"
    using assms(2,3) unfolding is_open_for_def by (metis open_key_unique [OF assms(1)])
  with assms(3) have "is_open_for t hit x \<longleftrightarrow> x = r" by blast
  then show "(if is_open_for t hit x \<and> Q x then f x else x) = (if x = r \<and> Q x then f x else x)" by auto
qed

text \<open>What the upsert does, as a function of the open alert for the hit's key: a fresh row, one more
  occurrence, or the expired alert closed and superseded.\<close>

definition window_spec ::
  "int \<Rightarrow> int \<Rightarrow> string \<Rightarrow> detection_hit \<Rightarrow> string option \<Rightarrow> priority_score \<Rightarrow> string \<Rightarrow> string \<Rightarrow> alert_row option
     \<Rightarrow> alert_row list \<Rightarrow> alert_row list \<times> alert_row \<times> bool" where
  "window_spec w now t hit asset score i j open_alert rows =
     (case open_alert of
        None \<Rightarrow> (rows @ [new_row i t hit asset score now], new_row i t hit asset score now, True)
      | Some r \<Rightarrow>
          if al_last_seen r \<ge> h_event_time hit - minutes w
          then (update_rows (\<lambda>x. x = r) (add_occurrence hit now) rows, add_occurrence hit now r, False)
          else (update_rows (\<lambda>x. x = r) (close_row now) rows @ [new_row j t hit asset score now],
                new_row j t hit asset score now, True))"

definition open_alert_for :: "string \<Rightarrow> detection_hit \<Rightarrow> alert_row list \<Rightarrow> alert_row option" where
  "open_alert_for t hit rows = find (is_open_for t hit) rows"

lemma upsert_with_window_spec:
  assumes "alerts_ok (db_alerts db)" "id_fresh i db" "id_fresh j db"
  shows "\<exists>db'. upsert_with_window w now t hit asset score (i # j # ids) db
     = Inr (db', Some (snd (window_spec w now t hit asset score i j (open_alert_for t hit (db_alerts db)) (db_alerts db))))
   \<and> db_alerts db' = fst (window_spec w now t hit asset score i j (open_alert_for t hit (db_alerts db)) (db_alerts db))"
proof (cases "open_alert_for t hit (db_alerts db)")
  case None
  then have "find (is_open_for t hit) (db_alerts db) = None" by (simp add: open_alert_for_def)
  moreover then have "\<not> key_blocked w t hit db" by (simp add: key_blocked_def)
  ultimately show ?thesis
    using assms(2) None by (simp add: dedup.loop_free alert_upsert_def window_spec_def id_fresh_def Let_def)
next
  case (Some r)
  then have find: "find (is_open_for t hit) (db_alerts db) = Some r" by (simp add: open_alert_for_def)
  have r: "r \<in> set (db_alerts db)" "is_open_for t hit r" using find_SomeD [OF find] by simp_all
  from assms(1) have d: "distinct (open_keys (db_alerts db))" by (simp add: alerts_ok_def)
  show ?thesis
  proof (cases "window_expired w hit r")
    case False
    then have "\<not> key_blocked w t hit db" by (simp add: key_blocked_def find)
    with False Some find show ?thesis
      using update_unique [OF d r, of "\<lambda>_. True"]
      by (auto simp: dedup.loop_free alert_upsert_def window_spec_def window_expired_def)
  next
    case True
    then have blocked: "key_blocked w t hit db" by (simp add: key_blocked_def find)
    have ext: "(\<lambda>x. x = r \<and> window_expired w hit x) = (\<lambda>x. x = r)" using True by auto
    have upd: "update_rows (\<lambda>x. is_open_for t hit x \<and> window_expired w hit x) (close_row now) (db_alerts db)
        = update_rows (\<lambda>x. x = r) (close_row now) (db_alerts db)"
      using update_unique [OF d r, of "window_expired w hit" "close_row now"] by (simp only: ext)
    have "x = r" if "x \<in> set (db_alerts db)" "is_open_for t hit x" for x
      using that r unfolding is_open_for_def by (metis open_key_unique [OF d])
    then have "find (is_open_for t hit) (update_rows (\<lambda>x. x = r) (close_row now) (db_alerts db)) = None"
      by (auto simp: find_None_iff set_update_rows)
    moreover have "\<not> al_last_seen r \<ge> h_event_time hit - minutes w"
      using True by (simp add: window_expired_def)
    ultimately show ?thesis
      using assms(3) Some unfolding dedup.loop_blocked [OF blocked]
      by (simp add: alert_upsert_def upd Let_def window_spec_def id_fresh_def update_rows_map)
  qed
qed

subsection \<open>Progress\<close>

definition assets_ok :: "alert_db \<Rightarrow> bool" where
  "assets_ok db \<longleftrightarrow> list_all (\<lambda>a. av_agent_status a \<in> set AGENT_STATUSES) (db_assets db)"

lemma resolve_asset_status:
  assumes "assets_ok db"
  shows "snd (resolve_asset t hit db) \<in> set AGENT_STATUSES"
proof -
  have none: "''none'' \<in> set AGENT_STATUSES" by (simp add: AGENT_STATUSES_def)
  have "av_agent_status a \<in> set AGENT_STATUSES" if "resolve_asset_row t h db = Some a" for h a
  proof -
    from that obtain as where as: "sort_key (\<lambda>a. - av_last_seen a)
        (filter (\<lambda>a. av_tenant a = t \<and> av_hostname a = h \<and> av_active a) (db_assets db)) = a # as"
      unfolding resolve_asset_row_def by (auto split: list.splits)
    have "a \<in> set (sort_key (\<lambda>a. - av_last_seen a)
        (filter (\<lambda>a. av_tenant a = t \<and> av_hostname a = h \<and> av_active a) (db_assets db)))"
      unfolding as by simp
    with assms show ?thesis by (simp add: assets_ok_def list_all_iff)
  qed
  with none show ?thesis by (auto simp: resolve_asset_def split: option.splits)
qed

lemma compute_priority_total:
  assumes "s \<in> set SEVERITIES" "\<forall>a \<in> set_option ai. a \<in> set SEVERITIES" "1 \<le> n" "ag \<in> set AGENT_STATUSES"
  shows "\<exists>score. compute_priority s ai n ag = Inr score"
proof -
  have "\<exists>v. occurrence_component n = Inr v" "\<exists>v. asset_component ag = Inr v"
    using assms(3,4) by (auto simp: occurrence_component_def asset_component_def)
  moreover have "severity_points s = Inr (points s)" using assms(1) by (simp add: severity_points_iff)
  moreover have "\<exists>e. effective_ai_severity s a = Inr e \<and> severity_points e = Inr (points e)" if "ai = Some a" for a
  proof -
    have a: "a \<in> set SEVERITIES" using that assms(2) by simp
    have r: "0 \<le> max (tier a) (tier s - 1)" "max (tier a) (tier s - 1) \<le> 3"
      using tier_range [OF a] tier_range [OF assms(1)] by auto
    show ?thesis
      using tier_severities_nth [OF r] a assms(1) effective_ai_severity_iff severity_points_iff by blast
  qed
  ultimately show ?thesis by (cases ai) (auto simp: compute_priority_def Let_def)
qed

lemma correlate_total:
  "gid \<notin> set (map gr_id (db_groups db)) \<Longrightarrow> \<exists>db' g. correlate w now gid t hit a db = Inr (db', g)"
  by (simp add: correlate_def Let_def create_group_def split: option.splits)

lemma db_assets_upsert:
  "alert_upsert w now t hit asset score i db = Inr (db', r) \<Longrightarrow>
     db_assets db' = db_assets db \<and> db_groups db' = db_groups db"
  by (auto simp: alert_upsert_def Let_def split: option.splits if_splits)

lemma db_assets_loop:
  assumes "upsert_with_window w now t hit asset score ids db = Inr (db', r)"
  shows "db_assets db' = db_assets db \<and> db_groups db' = db_groups db"
  by (rule dedup.loop_invariant [where P = "\<lambda>d. db_assets d = db_assets db \<and> db_groups d = db_groups db", OF _ assms])
    (auto dest: db_assets_upsert)

definition env_fresh :: "alerter_env \<Rightarrow> alert_db \<Rightarrow> bool" where
  "env_fresh env db \<longleftrightarrow>
     2 \<le> length (env_alert_ids env) \<and> id_fresh (env_alert_ids env ! 0) db \<and> id_fresh (env_alert_ids env ! 1) db
     \<and> env_group_id env \<notin> set (map gr_id (db_groups db))"

lemma row_in_ok: "row_in t hit r db \<Longrightarrow> db_ok db \<Longrightarrow> row_ok r"
  by (auto simp: row_in_def db_ok_def alerts_ok_def list_all_iff)

lemma process_hit_tail:
  assumes "\<not> alert_event_linked t (h_event_id hit) (h_rule_id hit) db"
    "resolve_asset t hit db = (asset, ag)" "compute_priority (h_severity hit) None 1 ag = Inr score"
    "upsert_with_window (env_dedup_window env) (env_now env) t hit asset score (env_alert_ids env) db
       = Inr (db1, Some (row, ins))"
  obtains ix where "process_hit env lib t hit db
     = rbind (hit_tail env lib t hit score row ins ix db1)
         (\<lambda>(db3, payload). Inr (db3, if payload = None then Ok else Stored, payload))"
proof -
  define ix where "ix = (case h_es_index hit of Some i \<Rightarrow> if i = [] then events_index lib t (h_event_time hit) else i
                      | None \<Rightarrow> events_index lib t (h_event_time hit))"
  from assms show thesis
    by (intro that [of ix]) (simp add: process_hit_def hit_tail_def Let_def ix_def)
qed

lemma process_hit_total:
  assumes "db_ok db" "assets_ok db" "env_fresh env db" "h_severity hit \<in> set SEVERITIES"
  shows "\<exists>res. process_hit env lib t hit db = Inr res"
proof (cases "alert_event_linked t (h_event_id hit) (h_rule_id hit) db")
  case True
  then show ?thesis by (simp add: process_hit_def Let_def)
next
  case False
  obtain asset ag where ra: "resolve_asset t hit db = (asset, ag)" by fastforce
  with resolve_asset_status [OF assms(2), of t hit] have "ag \<in> set AGENT_STATUSES" by simp
  then obtain score where sc: "compute_priority (h_severity hit) None 1 ag = Inr score"
    using compute_priority_total [OF assms(4), of None 1] by auto
  from assms(3) obtain i j ids where ids: "env_alert_ids env = i # j # ids" "id_fresh i db" "id_fresh j db"
    by (cases "env_alert_ids env"; cases "tl (env_alert_ids env)") (auto simp: env_fresh_def)
  obtain db1 row ins where up: "upsert_with_window (env_dedup_window env) (env_now env) t hit asset score
      (env_alert_ids env) db = Inr (db1, Some (row, ins))"
    using dedup.two_attempts_suffice [OF ids(2,3)] unfolding ids(1) by (metis surj_pair)
  from db_assets_loop [OF up] assms(2,3) have same: "assets_ok db1" "db_groups db1 = db_groups db"
    by (simp_all add: assets_ok_def)
  have "score_ok hit score" using compute_priority_range [OF sc] by (simp add: score_ok_def)
  then have "row_ok row" using row_in_ok [OF loop_row_in [OF up]] db_ok_loop [OF assms(1) _ up] by blast
  define rdb where "rdb ix = history t (al_id row) ''occurrence_added'' None None
            [(''occurrence_count'', JInt (al_occurrence_count row)), (''event_id'', JStr (h_event_id hit))]
      (link_event t (al_id row) (h_event_id hit) ix db1)" for ix
  have "snd (resolve_asset t hit (rdb ix)) \<in> set AGENT_STATUSES" for ix
    using same(1) by (intro resolve_asset_status) (simp add: rdb_def assets_ok_def)
  with \<open>row_ok row\<close> have "\<exists>sc. compute_priority (al_rule_severity row)
      (if al_triage_status row = ''completed'' then al_ai_severity row else None)
      (al_occurrence_count row) (snd (resolve_asset t hit (rdb ix))) = Inr sc" for ix
    by (intro compute_priority_total) (auto simp: row_ok_def)
  then have re: "\<exists>db2. recompute_priority (env_now env) t hit row (rdb ix) = Inr db2" for ix
    unfolding recompute_priority_def Let_def by (metis sum.case(2))
  have tail: "\<exists>r. hit_tail env lib t hit score row ins ix db1 = Inr r" for ix
  proof (cases ins)
    case True
    let ?db2 = "history t (al_id row) ''created'' None (Some ''new'')
            [(''rule_id'', JStr (h_rule_id hit)), (''rule_version'', JStr (h_rule_version hit)),
             (''priority_score'', JInt (ps_score score)), (''event_id'', JStr (h_event_id hit))]
            (link_event t (al_id row) (h_event_id hit) ix db1)"
    have "env_group_id env \<notin> set (map gr_id (db_groups ?db2))"
      using assms(3) same(2) by (simp add: env_fresh_def)
    from correlate_total [OF this] obtain db3 g where
      "correlate (env_correlation_window env) (env_now env) (env_group_id env) t hit (al_id row) ?db2 = Inr (db3, g)"
      by blast
    with True show ?thesis by (simp add: hit_tail_def process_new_def Let_def)
  next
    case False
    from re [of ix] obtain db2 where "recompute_priority (env_now env) t hit row (rdb ix) = Inr db2" by blast
    with False show ?thesis
      by (simp only: hit_tail_def process_occurrence_def Let_def if_False rdb_def [symmetric] rbind_simps split: if_split) blast
  qed
  from process_hit_tail [OF False ra sc up] obtain ix where ph: "process_hit env lib t hit db
     = rbind (hit_tail env lib t hit score row ins ix db1)
         (\<lambda>(db3, payload). Inr (db3, if payload = None then Ok else Stored, payload))" .
  from tail [of ix] obtain r where "hit_tail env lib t hit score row ins ix db1 = Inr r" by blast
  with ph show ?thesis by (cases r) simp
qed

lemma model_validate_severity:
  "model_validate lib payload = Some hit \<Longrightarrow> h_severity hit \<in> set SEVERITIES"
  by (auto simp: model_validate_def Option.bind_eq_Some_conv split: json.splits if_splits)

subsection \<open>Properties\<close>

text \<open>A concrete database and detection: host \<^verbatim>\<open>ws-1\<close> has an open alert of another rule, and the
  rule of the detection has an open alert whose window has expired.\<close>

definition demo_hit_lib :: hit_lib where
  "demo_hit_lib = \<lparr>parse_uuid = (\<lambda>v. case v of JStr s \<Rightarrow> Some s | _ \<Rightarrow> None),
     parse_time = (\<lambda>v. case v of JInt i \<Rightarrow> Some i | _ \<Rightarrow> None), events_index = (\<lambda>t _. ''events-v1-'' @ t)\<rparr>"

definition demo_payload :: json where
  "demo_payload = JObj [(''rule_id'', JStr ''r1''), (''rule_version'', JStr ''1.0.0''), (''title'', JStr ''T''),
     (''severity'', JStr ''high''), (''entity_key'', JStr ''ws-1''), (''event_id'', JStr ''e9''),
     (''event_time'', JInt 7200000001), (''entity_hostname'', JStr ''ws-1'')]"

definition demo_hit :: detection_hit where
  "demo_hit = \<lparr>h_rule_id = ''r1'', h_rule_version = ''1.0.0'', h_title = ''T'', h_severity = ''high'',
     h_mitre = [], h_entity_key = ''ws-1'', h_event_id = ''e9'', h_pack_version = None,
     h_event_time = 7200000001, h_hostname = Some ''ws-1'', h_user = None, h_es_index = None\<rparr>"

definition demo_score :: priority_score where
  "demo_score = projr (compute_priority ''high'' None 1 ''healthy'')"

definition demo_env :: alerter_env where
  "demo_env = \<lparr>env_dedup_window = 60, env_correlation_window = 30, env_now = 7200000500,
     env_alert_ids = [''al_3'', ''al_4'', ''al_5''], env_group_id = ''cg_1''\<rparr>"

definition demo_db :: alert_db where
  "demo_db = \<lparr>db_alerts =
       [new_row ''al_1'' ''t1'' (demo_hit\<lparr>h_event_time := 3600000000\<rparr>) None demo_score 1,
        new_row ''al_2'' ''t1'' (demo_hit\<lparr>h_rule_id := ''r2'', h_event_time := 7200000000\<rparr>) None demo_score 2],
     db_links = [], db_history = [], db_groups = [],
     db_assets = [\<lparr>av_id = ''as1'', av_tenant = ''t1'', av_hostname = ''ws-1'', av_active = True,
                   av_agent_status = ''offline'', av_last_seen = 5\<rparr>],
     db_dead_letters = [], db_audit = []\<rparr>"

lemma demo_db_alerts_ok: "alerts_ok (db_alerts demo_db)"
  by code_simp

lemma demo_db_ok: "db_ok demo_db"
proof -
  have "db_links demo_db = []" "db_groups demo_db = []" "list_all (\<lambda>r. al_group r = None) (db_alerts demo_db)"
    by code_simp+
  with demo_db_alerts_ok show ?thesis by (auto simp: db_ok_def refs_ok_def group_ref_def list_all_iff)
qed

lemma demo_run: "is_ok (handle demo_env demo_hit_lib ''t1'' demo_payload ''d'' demo_db)"
  by code_simp

text \<open>C4: dedup window semantics. On a well-formed table and with unused alert ids, the upsert loop
  always returns a row, within two attempts: a new alert when the key has no open alert; one more
  occurrence and the later of the two times when the open alert is inside the window; the open
  alert closed and a new one inserted when its window has expired. No other row changes.\<close>

theorem dedup_window_semantics:
  assumes "alerts_ok (db_alerts db)" "id_fresh i db" "id_fresh j db"
  shows "\<exists>db'. upsert_with_window w now t hit asset score (i # j # ids) db
     = Inr (db', Some (snd (window_spec w now t hit asset score i j (open_alert_for t hit (db_alerts db)) (db_alerts db))))
   \<and> db_alerts db' = fst (window_spec w now t hit asset score i j (open_alert_for t hit (db_alerts db)) (db_alerts db))"
  using assms by (rule upsert_with_window_spec)

theorem dedup_window_semantics_witness:
  "\<exists>db'. upsert_with_window 60 7200000500 ''t1'' demo_hit None demo_score [''al_3'', ''al_4'', ''al_5''] demo_db
     = Inr (db', Some (new_row ''al_4'' ''t1'' demo_hit None demo_score 7200000500, True))
   \<and> map al_state (db_alerts db') = [Closed, New, New]"
proof -
  have ids: "id_fresh ''al_3'' demo_db" "id_fresh ''al_4'' demo_db" by code_simp+
  let ?s = "window_spec 60 7200000500 ''t1'' demo_hit None demo_score ''al_3'' ''al_4''
      (open_alert_for ''t1'' demo_hit (db_alerts demo_db)) (db_alerts demo_db)"
  have s: "snd ?s = (new_row ''al_4'' ''t1'' demo_hit None demo_score 7200000500, True)"
    "map al_state (fst ?s) = [Closed, New, New]" by code_simp+
  from dedup_window_semantics [OF demo_db_alerts_ok ids, of 60 7200000500 "''t1''" demo_hit None demo_score "[''al_5'']"]
  show ?thesis unfolding s(1) using s(2) by metis
qed

text \<open>C5: every transaction of the alerter keeps the database well formed: alert ids unique, at most
  one open alert per tenant, rule and entity, every row within the table's checks, links to existing
  alerts, alerts in existing groups of their own tenant, and every group's count equal to the number
  of its alerts.\<close>

theorem alerter_keeps_invariant:
  assumes "db_ok db" "handle env lib t payload detail db = Inr (db', out, p)"
  shows "db_ok db'"
  using assms by (rule db_ok_handle)

theorem alerter_keeps_invariant_witness:
  "\<exists>db' out p. handle demo_env demo_hit_lib ''t1'' demo_payload ''d'' demo_db = Inr (db', out, p) \<and> db_ok db'"
proof -
  obtain db' out p where r: "handle demo_env demo_hit_lib ''t1'' demo_payload ''d'' demo_db = Inr (db', out, p)"
    using demo_run unfolding is_ok_iff by (metis prod_cases3)
  with alerter_keeps_invariant [OF demo_db_ok r] show ?thesis by blast
qed

text \<open>C6: the alerter never gets stuck. On a well-formed database, with unused ids and the agent
  statuses the assets table admits, handling any payload commits: no contention error, no unique
  violation and no scoring error can occur.\<close>

theorem alerter_progress:
  assumes "db_ok db" "assets_ok db" "env_fresh env db"
  shows "\<exists>db' out p. handle env lib t payload detail db = Inr (db', out, p)"
proof (cases "model_validate lib payload")
  case (Some hit)
  with process_hit_total [OF assms model_validate_severity [OF Some], of lib t] show ?thesis
    by (auto simp: handle_def)
qed (simp add: handle_def)

theorem alerter_progress_witness:
  "\<exists>db' out p. handle demo_env demo_hit_lib ''t1'' demo_payload ''d'' demo_db = Inr (db', out, p)"
proof -
  have "assets_ok demo_db" "env_fresh demo_env demo_db" by code_simp+
  from alerter_progress [OF demo_db_ok this] show ?thesis .
qed

text \<open>C7: redelivery is idempotent. Once a valid detection has been handled, handling the same
  payload again, at any later time and with any ids, changes nothing, publishes nothing and is
  recorded as a duplicate.\<close>

theorem alerter_redelivery:
  assumes "handle env lib t payload detail db = Inr (db', out, p)"
    and "model_validate lib payload = Some hit"
  shows "handle env' lib t payload detail' db' = Inr (db', Duplicate, None)"
proof -
  from assms have "process_hit env lib t hit db = Inr (db', out, p)" by (simp add: handle_def)
  then have "alert_event_linked t (h_event_id hit) (h_rule_id hit) db'" by (rule process_hit_linked)
  with assms(2) show ?thesis by (simp add: handle_def process_hit_def Let_def)
qed

theorem alerter_redelivery_witness:
  "\<exists>db' out p. handle demo_env demo_hit_lib ''t1'' demo_payload ''d'' demo_db = Inr (db', out, p)
     \<and> handle demo_env demo_hit_lib ''t1'' demo_payload ''d'' db' = Inr (db', Duplicate, None)"
proof -
  obtain db' out p where r: "handle demo_env demo_hit_lib ''t1'' demo_payload ''d'' demo_db = Inr (db', out, p)"
    using demo_run unfolding is_ok_iff by (metis prod_cases3)
  have "model_validate demo_hit_lib demo_payload = Some demo_hit" by code_simp
  from alerter_redelivery [OF r this] r show ?thesis by blast
qed

text \<open>C8: tenant isolation. A transaction for one tenant leaves the alerts, links, history, groups
  and dead letters of every other tenant exactly as they were.\<close>

theorem alerter_isolation:
  assumes "handle env lib t payload detail db = Inr (db', out, p)" and "t' \<noteq> t"
  shows "tenant_part t' db' = tenant_part t' db"
  using isolated_handle [OF assms(1)] assms(2) by (simp add: isolated_def)

theorem alerter_isolation_witness:
  "\<exists>db' out p. handle demo_env demo_hit_lib ''t1'' demo_payload ''d'' demo_db = Inr (db', out, p)
     \<and> tenant_part ''t2'' db' = tenant_part ''t2'' demo_db"
proof -
  obtain db' out p where r: "handle demo_env demo_hit_lib ''t1'' demo_payload ''d'' demo_db = Inr (db', out, p)"
    using demo_run unfolding is_ok_iff by (metis prod_cases3)
  from alerter_isolation [OF r, of "''t2''"] r show ?thesis by simp
qed

end
