(* ===== verification/Alert_Api.thy ===== *)
theory Alert_Api
  imports Alerter "HOL-Library.Product_Lexorder" "HOL-Library.Multiset"
begin

section \<open>The alert API\<close>

text \<open>
  Model of \<^verbatim>\<open>services/dataplane/src/dataplane/api/alerts.py\<close> and
  \<^verbatim>\<open>core/pagination.py\<close>: the state machine of an alert as a compare-and-set under the row-level
  security of the caller's tenant, bulk operations, the queue listing with keyset pagination, the
  detail view and the event bodies of an alert. A cursor is its decoded payload. The search in the
  event store is an argument; \<open>None\<close> stands for an exception.
\<close>

datatype api_error =
    NotFound
  | InvalidStateTransition alert_state "alert_state list"
  | ValidationError string
  | ServiceUnavailable
  | Unhandled db_error

record session_principal =
  pr_tenant :: string
  pr_user :: string

subsection \<open>Transitions\<close>

datatype alert_action = Acknowledge | Close | Reopen

definition TRANSITIONS :: "alert_action \<Rightarrow> alert_state list \<times> alert_state" where
  "TRANSITIONS action =
     (case action of
        Acknowledge \<Rightarrow> ([New], Acknowledged)
      | Close \<Rightarrow> ([New, Acknowledged], Closed)
      | Reopen \<Rightarrow> ([Closed], New))"

definition state_str :: "alert_state \<Rightarrow> string" where
  "state_str s = (case s of New \<Rightarrow> ''new'' | Acknowledged \<Rightarrow> ''acknowledged'' | Closed \<Rightarrow> ''closed'')"

definition action_str :: "alert_action \<Rightarrow> string" where
  "action_str a = (case a of Acknowledge \<Rightarrow> ''acknowledge'' | Close \<Rightarrow> ''close'' | Reopen \<Rightarrow> ''reopen'')"

definition past_action :: "alert_action \<Rightarrow> string" where
  "past_action a = (case a of Acknowledge \<Rightarrow> ''acknowledged'' | Close \<Rightarrow> ''closed'' | Reopen \<Rightarrow> ''reopened'')"

text \<open>The \<^verbatim>\<open>SET\<close> and \<^verbatim>\<open>WHERE\<close> parts of the three \<^verbatim>\<open>UPDATE\<close> statements.\<close>

definition transition_set ::
  "alert_action \<Rightarrow> string \<Rightarrow> string option \<Rightarrow> string option \<Rightarrow> int \<Rightarrow> alert_row \<Rightarrow> alert_row" where
  "transition_set action user reason comment now r =
     (case action of
        Acknowledge \<Rightarrow>
          r\<lparr>al_state := Acknowledged, al_acknowledged_by := Some user, al_acknowledged_at := Some now,
            al_updated_at := now\<rparr>
      | Close \<Rightarrow>
          r\<lparr>al_state := Closed, al_close_reason := reason, al_close_comment := comment,
            al_closed_by := Some user, al_closed_at := Some now, al_updated_at := now\<rparr>
      | Reopen \<Rightarrow>
          r\<lparr>al_state := New, al_close_reason := None, al_close_comment := None, al_closed_by := None,
            al_closed_at := None, al_acknowledged_by := None, al_acknowledged_at := None,
            al_updated_at := now\<rparr>)"

definition transition_where :: "alert_action \<Rightarrow> string \<Rightarrow> string \<Rightarrow> alert_row \<Rightarrow> bool" where
  "transition_where action tenant alert_id r =
     (al_tenant r = tenant \<and> al_id r = alert_id \<and>
      (case action of
         Acknowledge \<Rightarrow> al_state r = New
       | Close \<Rightarrow> al_state r = New \<or> al_state r = Acknowledged
       | Reopen \<Rightarrow> al_state r = Closed))"

text \<open>The update statement: the database refuses a table that its unique index or its check does
  not admit.\<close>

definition update_alert ::
  "alert_action \<Rightarrow> session_principal \<Rightarrow> string \<Rightarrow> string option \<Rightarrow> string option \<Rightarrow> int \<Rightarrow> alert_db
     \<Rightarrow> db_error + (alert_db \<times> alert_row option)" where
  "update_alert action who alert_id reason comment now db =
     (let p = transition_where action (pr_tenant who) alert_id;
          f = transition_set action (pr_user who) reason comment now;
          rows = update_rows p f (db_alerts db) in
      if \<not> distinct (open_keys rows) then Inl (UniqueViolation ''alerts_open_dedup_uq'')
      else if list_ex (\<lambda>r. al_state r = Closed \<and> al_close_reason r = None) (map f (filter p (db_alerts db)))
        then Inl (CheckViolation ''alerts_check'')
      else Inr (db\<lparr>db_alerts := rows\<rparr>, map_option f (find p (db_alerts db))))"

definition write_audit :: "audit_row \<Rightarrow> alert_db \<Rightarrow> alert_db" where
  "write_audit a db = db\<lparr>db_audit := db_audit db @ [a]\<rparr>"

definition transition ::
  "session_principal \<Rightarrow> string \<Rightarrow> alert_action \<Rightarrow> string option \<Rightarrow> string option \<Rightarrow> int \<Rightarrow> alert_db
     \<Rightarrow> api_error + (alert_db \<times> alert_row)" where
  "transition who alert_id action reason comment now db =
     (let (valid_from, to_state) = TRANSITIONS action in
      case update_alert action who alert_id reason comment now db of
        Inl e \<Rightarrow> Inl (Unhandled e)
      | Inr (db1, None) \<Rightarrow>
          (case find (\<lambda>r. al_tenant r = pr_tenant who \<and> al_id r = alert_id) (db_alerts db1) of
             None \<Rightarrow> Inl NotFound
           | Some current \<Rightarrow> Inl (InvalidStateTransition (al_state current) valid_from))
      | Inr (db1, Some row) \<Rightarrow>
          let db2 = insert_history
                \<lparr>hi_tenant = pr_tenant who, hi_alert = alert_id, hi_actor_type = ''user'',
                 hi_actor_id = pr_user who, hi_action = past_action action,
                 hi_from = (case valid_from of [s] \<Rightarrow> Some (state_str s) | _ \<Rightarrow> None),
                 hi_to = Some (state_str to_state), hi_reason = reason, hi_comment = comment,
                 hi_details = []\<rparr> db1;
              db3 = write_audit
                \<lparr>au_tenant = pr_tenant who, au_actor_type = ''user'', au_actor_id = pr_user who,
                 au_action = ''alert.'' @ action_str action, au_target_type = ''alert'',
                 au_target_id = alert_id,
                 au_after = (case reason of
                     Some rs \<Rightarrow> if rs = [] then [(''state'', JStr (state_str to_state))]
                       else [(''state'', JStr (state_str to_state)), (''reason'', JStr rs)]
                   | None \<Rightarrow> [(''state'', JStr (state_str to_state))]),
                 au_reason_code = reason\<rparr> db2 in
          Inr (db3, row))"

definition event_refs_for :: "string \<Rightarrow> string \<Rightarrow> alert_db \<Rightarrow> (string \<times> string) list" where
  "event_refs_for tenant alert_id db =
     sort_key fst (map (\<lambda>l. (ln_event l, ln_es_index l))
       (filter (\<lambda>l. ln_tenant l = tenant \<and> ln_alert l = alert_id) (db_links db)))"

text \<open>One transaction: an error leaves the database as it was.\<close>

definition run_transition ::
  "session_principal \<Rightarrow> string \<Rightarrow> alert_action \<Rightarrow> string option \<Rightarrow> string option \<Rightarrow> int \<Rightarrow> alert_db
     \<Rightarrow> api_error + (alert_db \<times> alert_row \<times> (string \<times> string) list)" where
  "run_transition who alert_id action reason comment now db =
     rbind (transition who alert_id action reason comment now db) (\<lambda>(db', row).
       Inr (db', row, event_refs_for (pr_tenant who) alert_id db'))"

definition acknowledge_alert :: "session_principal \<Rightarrow> string \<Rightarrow> int \<Rightarrow> alert_db
     \<Rightarrow> api_error + (alert_db \<times> alert_row \<times> (string \<times> string) list)" where
  "acknowledge_alert who alert_id now db =
     run_transition who alert_id Acknowledge None None now db"

definition close_alert :: "session_principal \<Rightarrow> string \<Rightarrow> string \<Rightarrow> string option \<Rightarrow> int \<Rightarrow> alert_db
     \<Rightarrow> api_error + (alert_db \<times> alert_row \<times> (string \<times> string) list)" where
  "close_alert who alert_id reason comment now db =
     run_transition who alert_id Close (Some reason) comment now db"

definition reopen_alert :: "session_principal \<Rightarrow> string \<Rightarrow> int \<Rightarrow> alert_db
     \<Rightarrow> api_error + (alert_db \<times> alert_row \<times> (string \<times> string) list)" where
  "reopen_alert who alert_id now db = run_transition who alert_id Reopen None None now db"

text \<open>The loop over the ids catches \<^verbatim>\<open>ApiError\<close> only; an error of the database propagates.\<close>

fun bulk_loop ::
  "session_principal \<Rightarrow> alert_action \<Rightarrow> string option \<Rightarrow> int \<Rightarrow> string list \<Rightarrow> string list \<Rightarrow> (string \<times> api_error) list \<Rightarrow> alert_db
     \<Rightarrow> api_error + (alert_db \<times> string list \<times> (string \<times> api_error) list)" where
  "bulk_loop who action reason now [] succeeded failed db = Inr (db, succeeded, failed)"
| "bulk_loop who action reason now (alert_id # ids) succeeded failed db =
     (case run_transition who alert_id action (if action = Close then reason else None) None now db of
        Inl (Unhandled e) \<Rightarrow> Inl (Unhandled e)
      | Inl err \<Rightarrow> bulk_loop who action reason now ids succeeded (failed @ [(alert_id, err)]) db
      | Inr (db', _) \<Rightarrow> bulk_loop who action reason now ids (succeeded @ [alert_id]) failed db')"

text \<open>\<^verbatim>\<open>dict.fromkeys\<close>: the ids in the order of their first occurrence.\<close>

fun dict_fromkeys :: "string list \<Rightarrow> string list \<Rightarrow> string list" where
  "dict_fromkeys seen [] = []"
| "dict_fromkeys seen (x # xs) = (if x \<in> set seen then dict_fromkeys seen xs else x # dict_fromkeys (x # seen) xs)"

definition bulk_alerts ::
  "session_principal \<Rightarrow> alert_action \<Rightarrow> string option \<Rightarrow> string list \<Rightarrow> int \<Rightarrow> alert_db
     \<Rightarrow> api_error + (alert_db \<times> string list \<times> (string \<times> api_error) list)" where
  "bulk_alerts who action reason alert_ids now db =
     (if action = Close \<and> reason = None then Inl (ValidationError ''reason'')
      else bulk_loop who action reason now (dict_fromkeys [] alert_ids) [] [] db)"

subsection \<open>The queue\<close>

definition DEFAULT_LIMIT :: int where "DEFAULT_LIMIT = 50"

definition MAX_LIMIT :: int where "MAX_LIMIT = 200"

definition clamp_limit :: "int option \<Rightarrow> api_error + int" where
  "clamp_limit limit =
     (case limit of
        None \<Rightarrow> Inr DEFAULT_LIMIT
      | Some l \<Rightarrow> if l < 1 \<or> l > MAX_LIMIT then Inl (ValidationError ''limit'') else Inr l)"

datatype alert_sort = PriorityDesc | PriorityAsc | LastSeenDesc | LastSeenAsc

definition parse_sort :: "string \<Rightarrow> alert_sort option" where
  "parse_sort s = map_of [(''-priority'', PriorityDesc), (''priority'', PriorityAsc),
     (''-last_seen'', LastSeenDesc), (''last_seen'', LastSeenAsc)] s"

text \<open>The \<^verbatim>\<open>ORDER BY\<close> of a sort, as a key for the lexicographic order of tuples.\<close>

definition order_key :: "alert_sort \<Rightarrow> alert_row \<Rightarrow> int \<times> int \<times> string" where
  "order_key sorting r =
     (case sorting of
        PriorityDesc \<Rightarrow> (- al_priority_score r, - al_last_seen r, al_id r)
      | PriorityAsc \<Rightarrow> (al_priority_score r, - al_last_seen r, al_id r)
      | LastSeenDesc \<Rightarrow> (0, - al_last_seen r, al_id r)
      | LastSeenAsc \<Rightarrow> (0, al_last_seen r, al_id r))"

text \<open>The keyset condition of a sorting, with the cursor's values for \<^verbatim>\<open>p1\<close>, \<^verbatim>\<open>p2\<close>, \<^verbatim>\<open>p3\<close>.\<close>

definition keyset :: "alert_sort \<Rightarrow> int \<Rightarrow> int \<Rightarrow> string \<Rightarrow> alert_row \<Rightarrow> bool" where
  "keyset sorting p1 p2 p3 r =
     (case sorting of
        PriorityDesc \<Rightarrow> al_priority_score r < p1 \<or> (al_priority_score r = p1 \<and> al_last_seen r < p2)
          \<or> (al_priority_score r = p1 \<and> al_last_seen r = p2 \<and> al_id r > p3)
      | PriorityAsc \<Rightarrow> al_priority_score r > p1 \<or> (al_priority_score r = p1 \<and> al_last_seen r < p2)
          \<or> (al_priority_score r = p1 \<and> al_last_seen r = p2 \<and> al_id r > p3)
      | LastSeenDesc \<Rightarrow> al_last_seen r < p2 \<or> (al_last_seen r = p2 \<and> al_id r > p3)
      | LastSeenAsc \<Rightarrow> al_last_seen r > p2 \<or> (al_last_seen r = p2 \<and> al_id r > p3))"

record alert_cursor =
  cu_sort :: alert_sort
  cu_ps :: int
  cu_ls :: int
  cu_id :: string

record alert_filter =
  fi_state :: "string list"
  fi_severity :: "string list"
  fi_ai_severity :: "string list"
  fi_rule_id :: string
  fi_host :: string
  fi_group :: string
  fi_from :: "int option"
  fi_to :: "int option"

text \<open>An absent or empty query parameter adds no condition.\<close>

definition filter_where :: "alert_filter \<Rightarrow> alert_row \<Rightarrow> bool" where
  "filter_where f r =
     ((fi_state f \<noteq> [] \<longrightarrow> state_str (al_state r) \<in> set (fi_state f))
      \<and> (fi_severity f \<noteq> [] \<longrightarrow> al_rule_severity r \<in> set (fi_severity f))
      \<and> (fi_ai_severity f \<noteq> [] \<longrightarrow> (case al_ai_severity r of None \<Rightarrow> False | Some s \<Rightarrow> s \<in> set (fi_ai_severity f)))
      \<and> (fi_rule_id f \<noteq> [] \<longrightarrow> al_rule_id r = fi_rule_id f)
      \<and> (fi_host f \<noteq> [] \<longrightarrow> al_hostname r = Some (py_lower (fi_host f)))
      \<and> (fi_group f \<noteq> [] \<longrightarrow> al_group r = Some (fi_group f))
      \<and> (case fi_from f of None \<Rightarrow> True | Some t \<Rightarrow> al_last_seen r \<ge> t)
      \<and> (case fi_to f of None \<Rightarrow> True | Some t \<Rightarrow> al_last_seen r \<le> t))"

record alert_page =
  pg_items :: "alert_row list"
  pg_next :: "alert_cursor option"
  pg_total :: nat

definition list_alerts ::
  "session_principal \<Rightarrow> alert_filter \<Rightarrow> string \<Rightarrow> int option \<Rightarrow> alert_cursor option \<Rightarrow> alert_db \<Rightarrow> api_error + alert_page" where
  "list_alerts who filt sort_arg limit cursor db =
     (case parse_sort sort_arg of
        None \<Rightarrow> Inl (ValidationError ''sort'')
      | Some sorting \<Rightarrow>
          rbind (clamp_limit limit) (\<lambda>page_limit.
          rbind (guard (set (fi_state filt) \<subseteq> {''new'', ''acknowledged'', ''closed''}) (ValidationError ''state'')) (\<lambda>_.
          rbind (guard (set (fi_severity filt) \<subseteq> set SEVERITIES) (ValidationError ''severity'')) (\<lambda>_.
          rbind (guard (set (fi_ai_severity filt) \<subseteq> set SEVERITIES) (ValidationError ''ai_severity'')) (\<lambda>_.
          rbind (guard (case cursor of None \<Rightarrow> True | Some c \<Rightarrow> cu_sort c = sorting) (ValidationError ''cursor'')) (\<lambda>_.
          let visible = filter (\<lambda>r. al_tenant r = pr_tenant who) (db_alerts db);
              matching = filter (filter_where filt) visible;
              after = (case cursor of None \<Rightarrow> matching
                       | Some c \<Rightarrow> filter (keyset sorting (cu_ps c) (cu_ls c) (cu_id c)) matching);
              rows = take (nat page_limit + 1) (sort_key (order_key sorting) after);
              page_rows = take (nat page_limit) rows in
          Inr \<lparr>pg_items = page_rows,
               pg_next = (if length rows > nat page_limit \<and> page_rows \<noteq> []
                  then Some \<lparr>cu_sort = sorting, cu_ps = al_priority_score (last page_rows),
                         cu_ls = al_last_seen (last page_rows), cu_id = al_id (last page_rows)\<rparr> else None),
               pg_total = length matching\<rparr>))))))"

definition get_alert ::
  "session_principal \<Rightarrow> string \<Rightarrow> alert_db \<Rightarrow> api_error + (alert_row \<times> (string \<times> string) list \<times> alert_row list \<times> history_row list)" where
  "get_alert who alert_id db =
     (let visible = filter (\<lambda>r. al_tenant r = pr_tenant who) (db_alerts db) in
      case find (\<lambda>r. al_id r = alert_id) visible of
        None \<Rightarrow> Inl NotFound
      | Some row \<Rightarrow>
          Inr (row, event_refs_for (pr_tenant who) alert_id db,
               (case al_group row of
                  None \<Rightarrow> []
                | Some g \<Rightarrow> if g = [] then []
                    else sort_key (order_key PriorityDesc) (filter (\<lambda>r. al_group r = Some g \<and> al_id r \<noteq> alert_id) visible)),
               filter (\<lambda>h. hi_tenant h = pr_tenant who \<and> hi_alert h = alert_id) (db_history db)))"

subsection \<open>Event bodies\<close>

fun collect_hits :: "string list \<Rightarrow> (string \<times> obj) list \<Rightarrow> (string \<times> obj) list \<Rightarrow> (string \<times> obj) list" where
  "collect_hits wanted [] items = items"
| "collect_hits wanted ((eid, src) # hits) items =
     (if eid \<in> set wanted \<and> eid \<notin> set (map fst items) then collect_hits wanted hits (items @ [(eid, src)])
      else collect_hits wanted hits items)"

definition event_bodies ::
  "(string list \<Rightarrow> (string \<times> obj) list option) \<Rightarrow> string list \<Rightarrow> string option \<Rightarrow> nat
     \<Rightarrow> api_error + ((string \<times> obj) list \<times> string option \<times> nat \<times> string list)" where
  "event_bodies search wanted next_cursor ref_count =
     (if wanted = [] then Inr ([], next_cursor, ref_count, [])
      else (case search wanted of
          None \<Rightarrow> Inl ServiceUnavailable
        | Some hits \<Rightarrow>
            let items = collect_hits wanted hits [] in
            Inr (items, next_cursor, ref_count, filter (\<lambda>e. e \<notin> set (map fst items)) wanted)))"

definition alert_events ::
  "session_principal \<Rightarrow> string \<Rightarrow> int option \<Rightarrow> string option \<Rightarrow> (string list \<Rightarrow> (string \<times> obj) list option) \<Rightarrow> alert_db
     \<Rightarrow> api_error + ((string \<times> obj) list \<times> string option \<times> nat \<times> string list)" where
  "alert_events who alert_id limit cursor search db =
     rbind (clamp_limit limit) (\<lambda>page_limit.
     if \<not> list_ex (\<lambda>r. al_tenant r = pr_tenant who \<and> al_id r = alert_id) (db_alerts db) then Inl NotFound
     else
       let refs = map ln_event (filter (\<lambda>l. ln_tenant l = pr_tenant who \<and> ln_alert l = alert_id) (db_links db));
           after = (case cursor of None \<Rightarrow> [] | Some c \<Rightarrow> c);
           ref_rows = take (nat page_limit + 1) (sort (filter (\<lambda>e. e > after) refs));
           wanted = take (nat page_limit) ref_rows;
           next_cursor = (if length ref_rows > nat page_limit \<and> wanted \<noteq> [] then Some (last wanted) else None) in
       event_bodies search wanted next_cursor (length refs))"

subsection \<open>Keyset pagination, from its interface\<close>

text \<open>A pager needs one law: the condition a cursor adds selects exactly the rows after the cursor's
  row in the sort order.\<close>

locale keyset_pager =
  fixes key :: "'row \<Rightarrow> 'k::linorder" and after :: "'row \<Rightarrow> 'row \<Rightarrow> bool"
  assumes after_iff: "after r s \<longleftrightarrow> key r < key s"
begin

lemma strictly_sorted:
  assumes "inj_on key (set rows)" "distinct rows"
  shows "sorted_wrt (\<lambda>r s. key r < key s) (sort_key key rows)"
proof -
  have d: "distinct (map key (sort_key key rows))"
    using assms by (simp add: distinct_map)
  have "sorted (map key (sort_key key rows))" by simp
  with d have "sorted_wrt (<) (map key (sort_key key rows))"
    by (simp only: strict_sorted_iff)
  then show ?thesis by (simp add: sorted_wrt_map)
qed

lemma filter_after_nth:
  assumes "sorted_wrt (\<lambda>r s. key r < key s) xs" "k < length xs"
  shows "filter (after (xs ! k)) xs = drop (Suc k) xs"
  using assms
proof (induction xs arbitrary: k)
  case (Cons x xs)
  show ?case
  proof (cases k)
    case 0
    with Cons.prems(1) show ?thesis by (auto simp: after_iff intro!: filter_True)
  next
    case (Suc k')
    with Cons.prems have "key x < key (xs ! k')" by simp
    then have "\<not> key (xs ! k') < key x" by simp
    with Suc Cons show ?thesis by (simp add: after_iff)
  qed
qed simp

lemma next_page:
  assumes "inj_on key (set rows)" "distinct rows" "k < length rows"
  shows "sort_key key (filter (after (sort_key key rows ! k)) rows) = drop (Suc k) (sort_key key rows)"
  using filter_after_nth [OF strictly_sorted [OF assms(1,2)], of k] assms(3)
  by (simp add: filter_sort [symmetric])

end

definition keyset_after :: "alert_sort \<Rightarrow> alert_row \<Rightarrow> alert_row \<Rightarrow> bool" where
  "keyset_after s r = keyset s (al_priority_score r) (al_last_seen r) (al_id r)"

interpretation queue: keyset_pager "order_key s" "keyset_after s"
  by unfold_locales (cases s; auto simp: keyset_after_def keyset_def order_key_def less_prod_def)

definition matching_rows :: "session_principal \<Rightarrow> alert_filter \<Rightarrow> alert_db \<Rightarrow> alert_row list" where
  "matching_rows who filt db = filter (filter_where filt) (filter (\<lambda>r. al_tenant r = pr_tenant who) (db_alerts db))"

text \<open>A client that follows the cursors: the pages it gets, concatenated.\<close>

fun all_pages ::
  "nat \<Rightarrow> session_principal \<Rightarrow> alert_filter \<Rightarrow> string \<Rightarrow> int option \<Rightarrow> alert_cursor option \<Rightarrow> alert_db \<Rightarrow> alert_row list option" where
  "all_pages 0 who filt sort_arg limit cursor db = None"
| "all_pages (Suc n) who filt sort_arg limit cursor db =
     (case list_alerts who filt sort_arg limit cursor db of
        Inl _ \<Rightarrow> None
      | Inr pg \<Rightarrow>
          (case pg_next pg of
             None \<Rightarrow> Some (pg_items pg)
           | Some c \<Rightarrow> map_option ((@) (pg_items pg)) (all_pages n who filt sort_arg limit (Some c) db)))"

definition request_ok :: "alert_filter \<Rightarrow> int option \<Rightarrow> bool" where
  "request_ok filt limit \<longleftrightarrow> set (fi_state filt) \<subseteq> {''new'', ''acknowledged'', ''closed''}
     \<and> set (fi_severity filt) \<subseteq> set SEVERITIES \<and> set (fi_ai_severity filt) \<subseteq> set SEVERITIES
     \<and> (\<forall>l \<in> set_option limit. 1 \<le> l \<and> l \<le> MAX_LIMIT)"

lemma clamp_limit_ok:
  "request_ok filt limit \<Longrightarrow> \<exists>n. clamp_limit limit = Inr (int n) \<and> 1 \<le> n"
  by (cases limit) (auto simp: request_ok_def clamp_limit_def DEFAULT_LIMIT_def intro!: exI [of _ "nat _"])

definition cursor_of :: "alert_sort \<Rightarrow> alert_row \<Rightarrow> alert_cursor" where
  "cursor_of s r = \<lparr>cu_sort = s, cu_ps = al_priority_score r, cu_ls = al_last_seen r, cu_id = al_id r\<rparr>"

lemma list_alerts_page:
  assumes "request_ok filt limit" "clamp_limit limit = Inr (int n)" "1 \<le> n" "parse_sort arg = Some s"
    and "case cursor of None \<Rightarrow> True | Some c \<Rightarrow> cu_sort c = s"
    and "ys = sort_key (order_key s) (case cursor of None \<Rightarrow> matching_rows who filt db
           | Some c \<Rightarrow> filter (keyset s (cu_ps c) (cu_ls c) (cu_id c)) (matching_rows who filt db))"
  shows "list_alerts who filt arg limit cursor db =
     Inr \<lparr>pg_items = take n ys, pg_next = (if length ys > n then Some (cursor_of s (ys ! (n - 1))) else None),
          pg_total = length (matching_rows who filt db)\<rparr>"
proof -
  have last: "n < length ys \<Longrightarrow> last (take n ys) = ys ! (n - 1)"
    using assms(3) by (subst last_conv_nth) auto
  have "list_alerts who filt arg limit cursor db =
    (let rows = take (n + 1) ys; page_rows = take n rows in
      Inr \<lparr>pg_items = page_rows,
           pg_next = (if length rows > n \<and> page_rows \<noteq> [] then Some (cursor_of s (last page_rows)) else None),
           pg_total = length (matching_rows who filt db)\<rparr>)"
    using assms(1,2,4,5)
    by (cases cursor)
      (simp_all add: list_alerts_def request_ok_def assms(6) matching_rows_def cursor_of_def Let_def)
  also have "\<dots> = Inr \<lparr>pg_items = take n ys, pg_next = (if length ys > n then Some (cursor_of s (ys ! (n - 1))) else None),
          pg_total = length (matching_rows who filt db)\<rparr>"
    using last assms(3) by (auto simp: Let_def min_def)
  finally show ?thesis .
qed

lemma matching_rows_key:
  assumes "distinct (map al_id (db_alerts db))"
  shows "inj_on (order_key s) (set (matching_rows who filt db))" "distinct (matching_rows who filt db)"
proof -
  have "inj_on al_id (set (db_alerts db))" "distinct (db_alerts db)"
    using assms by (simp_all add: distinct_map)
  then show "distinct (matching_rows who filt db)" by (simp add: matching_rows_def)
  have "inj_on al_id (set (matching_rows who filt db))"
    using \<open>inj_on al_id (set (db_alerts db))\<close> by (rule inj_on_subset) (auto simp: matching_rows_def)
  then show "inj_on (order_key s) (set (matching_rows who filt db))"
    by (cases s) (auto simp: inj_on_def order_key_def)
qed

lemma all_pages_from:
  assumes "request_ok filt limit" "parse_sort arg = Some s" "distinct (map al_id (db_alerts db))"
    and "sort_key (order_key s) (case cursor of None \<Rightarrow> matching_rows who filt db
           | Some c \<Rightarrow> filter (keyset s (cu_ps c) (cu_ls c) (cu_id c)) (matching_rows who filt db))
         = drop k (sort_key (order_key s) (matching_rows who filt db))"
    and "case cursor of None \<Rightarrow> True | Some c \<Rightarrow> cu_sort c = s"
    and "length (matching_rows who filt db) < fuel + k" "k \<le> length (matching_rows who filt db)"
  shows "all_pages fuel who filt arg limit cursor db = Some (drop k (sort_key (order_key s) (matching_rows who filt db)))"
  using assms(4-7)
proof (induction fuel arbitrary: cursor k)
  case 0
  then show ?case by simp
next
  case (Suc fuel)
  let ?m = "matching_rows who filt db" and ?xs = "sort_key (order_key s) (matching_rows who filt db)"
  obtain n where n: "clamp_limit limit = Inr (int n)" "1 \<le> n" using clamp_limit_ok [OF assms(1)] by blast
  note page = list_alerts_page [OF assms(1) n assms(2) Suc.prems(2) Suc.prems(1) [symmetric]]
  show ?case
  proof (cases "n < length (drop k ?xs)")
    case False
    then show ?thesis by (simp add: page)
  next
    case True
    define c where "c = cursor_of s (?xs ! (k + n - 1))"
    have idx: "k + n - 1 < length ?m" "Suc (k + n - 1) = k + n" "drop k ?xs ! (n - 1) = ?xs ! (k + n - 1)"
      using True n(2) by auto
    have "keyset s (cu_ps c) (cu_ls c) (cu_id c) = keyset_after s (?xs ! (k + n - 1))"
      by (simp add: c_def cursor_of_def keyset_after_def)
    then have "sort_key (order_key s) (filter (keyset s (cu_ps c) (cu_ls c) (cu_id c)) ?m) = drop (k + n) ?xs"
      using queue.next_page [OF matching_rows_key [OF assms(3)] idx(1)] idx(2) by simp
    moreover have "cu_sort c = s" by (simp add: c_def cursor_of_def)
    ultimately have "all_pages fuel who filt arg limit (Some c) db = Some (drop (k + n) ?xs)"
      using Suc.prems(3) True n(2) by (intro Suc.IH) auto
    moreover have "take n (drop k ?xs) @ drop (k + n) ?xs = drop k ?xs"
      by (metis append_take_drop_id drop_drop add.commute)
    moreover have "list_alerts who filt arg limit cursor db =
        Inr \<lparr>pg_items = take n (drop k ?xs), pg_next = Some c, pg_total = length ?m\<rparr>"
      using True idx(3) by (simp add: page c_def)
    ultimately show ?thesis by simp
  qed
qed

subsection \<open>Transitions\<close>

definition owned :: "session_principal \<Rightarrow> string \<Rightarrow> alert_row \<Rightarrow> bool" where
  "owned who alert_id r \<longleftrightarrow> al_tenant r = pr_tenant who \<and> al_id r = alert_id"

lemma transition_where_iff:
  "transition_where action (pr_tenant who) a r \<longleftrightarrow> owned who a r \<and> al_state r \<in> set (fst (TRANSITIONS action))"
  by (cases action) (auto simp: transition_where_def owned_def TRANSITIONS_def)

lemma transition_set_simps [simp]:
  "al_id (transition_set ac u rs cm now r) = al_id r"
  "al_tenant (transition_set ac u rs cm now r) = al_tenant r"
  "al_rule_id (transition_set ac u rs cm now r) = al_rule_id r"
  "al_group (transition_set ac u rs cm now r) = al_group r"
  "dedup_key (transition_set ac u rs cm now r) = dedup_key r"
  "al_state (transition_set ac u rs cm now r) = snd (TRANSITIONS ac)"
  by (cases ac; simp add: transition_set_def dedup_key_def TRANSITIONS_def)+

lemma transition_set_row_ok:
  "row_ok r \<Longrightarrow> (ac = Close \<longrightarrow> rs \<noteq> None) \<Longrightarrow> row_ok (transition_set ac u rs cm now r)"
  by (cases ac) (auto simp: row_ok_def transition_set_def)

lemma keeps_refs_transition_set: "keeps_refs (transition_set ac u rs cm now)"
  by (simp add: keeps_refs_def)

lemma check_violated:
  "list_ex (\<lambda>r. al_state r = Closed \<and> al_close_reason r = None) (map (transition_set ac u rs cm now) xs)
     \<longleftrightarrow> xs \<noteq> [] \<and> ac = Close \<and> rs = None"
  by (cases ac; induction xs) (auto simp: transition_set_def)

lemma db_ok_update_alert:
  assumes "db_ok db" "update_alert ac who a rs cm now db = Inr (db', res)"
  shows "db_ok db'"
proof -
  let ?p = "transition_where ac (pr_tenant who) a" and ?f = "transition_set ac (pr_user who) rs cm now"
  from assms(2) have db': "db' = db\<lparr>db_alerts := update_rows ?p ?f (db_alerts db)\<rparr>"
    and d: "distinct (open_keys (update_rows ?p ?f (db_alerts db)))"
    and c: "filter ?p (db_alerts db) \<noteq> [] \<longrightarrow> ac = Close \<longrightarrow> rs \<noteq> None"
    unfolding update_alert_def Let_def check_violated by (auto split: if_splits)
  have rows: "row_ok (?f r)" if "r \<in> set (db_alerts db)" "?p r" for r
    using that c assms(1) by (intro transition_set_row_ok) (auto simp: db_ok_def alerts_ok_def list_all_iff filter_empty_conv)
  have "alerts_ok (db_alerts db')"
    using assms(1) d rows unfolding db' db_ok_def alerts_ok_def
    by (auto simp: update_rows_map list_all_iff set_update_rows)
  moreover have "refs_ok db'"
    using assms(1) unfolding db' db_ok_def by (simp add: refs_ok_update keeps_refs_transition_set)
  ultimately show ?thesis by (simp add: db_ok_def)
qed

lemma db_ok_transition:
  assumes "db_ok db" "transition who a ac rs cm now db = Inr (db', row)"
  shows "db_ok db'"
proof -
  from assms(2) obtain db1 where up: "update_alert ac who a rs cm now db = Inr (db1, Some row)"
    and same: "db_alerts db' = db_alerts db1" "db_links db' = db_links db1" "db_groups db' = db_groups db1"
    by (auto simp: transition_def Let_def insert_history_def write_audit_def
        split: sum.splits option.splits prod.splits)
  have "db_ok db1" by (rule db_ok_update_alert [OF assms(1) up])
  then show ?thesis by (subst db_ok_cong [OF same])
qed

text \<open>What a transition does, as a function of the caller's row with that id.\<close>

definition transition_spec ::
  "session_principal \<Rightarrow> string \<Rightarrow> alert_action \<Rightarrow> string option \<Rightarrow> string option \<Rightarrow> int \<Rightarrow> alert_row list
     \<Rightarrow> api_error + alert_row list \<times> alert_row" where
  "transition_spec who a ac rs cm now rows =
     (case find (owned who a) rows of
        None \<Rightarrow> Inl NotFound
      | Some r \<Rightarrow>
          let (valid_from, to_state) = TRANSITIONS ac; r' = transition_set ac (pr_user who) rs cm now r in
          if al_state r \<notin> set valid_from then Inl (InvalidStateTransition (al_state r) valid_from)
          else if ac = Reopen \<and> (\<exists>s \<in> set rows. is_open s \<and> dedup_key s = dedup_key r)
            then Inl (Unhandled (UniqueViolation ''alerts_open_dedup_uq''))
          else if ac = Close \<and> rs = None then Inl (Unhandled (CheckViolation ''alerts_check''))
          else Inr (update_rows (\<lambda>x. x = r) (\<lambda>_. r') rows, r'))"

lemma update_rows_cong:
  "(\<And>r. r \<in> set rows \<Longrightarrow> p r = p' r) \<Longrightarrow> (\<And>r. r \<in> set rows \<Longrightarrow> p r \<Longrightarrow> f r = f' r)
     \<Longrightarrow> update_rows p f rows = update_rows p' f' rows"
  by (simp add: update_rows_def)

lemma update_rows_none: "(\<And>r. r \<in> set rows \<Longrightarrow> \<not> p r) \<Longrightarrow> update_rows p f rows = rows"
  by (induction rows) auto

lemma set_change_one:
  "r \<in> set rows \<Longrightarrow> set (update_rows (\<lambda>x. x = r) (\<lambda>_. r') rows) = (set rows - {r}) \<union> {r'}"
  by (auto simp: set_update_rows)

lemma open_keys_change_one:
  assumes "r \<in> set rows"
  shows "set (open_keys (update_rows (\<lambda>x. x = r) (\<lambda>_. r') rows)) =
     set (open_keys (filter (\<lambda>x. x \<noteq> r) rows)) \<union> (if is_open r' then {dedup_key r'} else {})"
  unfolding set_eq_iff open_keys_mem set_change_one [OF assms] by (auto simp: open_keys_mem)

lemma distinct_open_change_one:
  assumes "distinct rows" "r \<in> set rows" "distinct (open_keys rows)" "dedup_key r' = dedup_key r"
  shows "distinct (open_keys (update_rows (\<lambda>x. x = r) (\<lambda>_. r') rows)) \<longleftrightarrow>
     \<not> (is_open r' \<and> (\<exists>s \<in> set rows. s \<noteq> r \<and> is_open s \<and> dedup_key s = dedup_key r))"
  using assms
proof (induction rows)
  case (Cons x rows)
  show ?case
  proof (cases "x = r")
    case True
    with Cons.prems have "update_rows (\<lambda>x. x = r) (\<lambda>_. r') rows = rows" by (intro update_rows_none) auto
    with True Cons.prems show ?thesis by (auto simp: open_keys_mem split: if_splits)
  next
    case False
    with Cons.prems have r: "r \<in> set rows" "distinct rows" "distinct (open_keys rows)"
      by (auto split: if_splits)
    have "dedup_key x \<in> set (open_keys (update_rows (\<lambda>x. x = r) (\<lambda>_. r') rows)) \<longleftrightarrow>
        is_open r' \<and> dedup_key x = dedup_key r" if "is_open x"
      using that Cons.prems(3,4) r(1) False
      by (auto simp: open_keys_change_one [OF r(1)] open_keys_mem split: if_splits)
    with Cons.IH [OF r(2,1,3) Cons.prems(4)] False show ?thesis by auto
  qed
qed simp

lemma update_alert_no_match:
  assumes "alerts_ok (db_alerts db)" "\<And>x. x \<in> set (db_alerts db) \<Longrightarrow> \<not> transition_where ac (pr_tenant who) a x"
  shows "update_alert ac who a rs cm now db = Inr (db, None)"
proof -
  let ?p = "transition_where ac (pr_tenant who) a" and ?f = "transition_set ac (pr_user who) rs cm now"
  have u: "update_rows ?p ?f (db_alerts db) = db_alerts db" using assms(2) by (rule update_rows_none)
  have f: "filter ?p (db_alerts db) = []" using assms(2) by (simp add: filter_empty_conv)
  have n: "find ?p (db_alerts db) = None" using assms(2) by (simp add: find_None_iff)
  from assms(1) show ?thesis
    unfolding update_alert_def Let_def u check_violated f n by (simp add: alerts_ok_def)
qed

lemma owned_unique:
  assumes "alerts_ok rows" "r \<in> set rows" "owned who a r" "x \<in> set rows" "owned who a x"
  shows "x = r"
  using assms by (auto simp: alerts_ok_def distinct_map owned_def inj_on_def)

lemma update_alert_match:
  fixes rs cm :: "string option" and now :: int
  assumes "alerts_ok (db_alerts db)" "r \<in> set (db_alerts db)" "owned who a r" "al_state r \<in> set (fst (TRANSITIONS ac))"
  defines "r' \<equiv> transition_set ac (pr_user who) rs cm now r"
  defines "rows' \<equiv> update_rows (\<lambda>x. x = r) (\<lambda>_. r') (db_alerts db)"
  shows "update_alert ac who a rs cm now db =
    (if ac = Reopen \<and> (\<exists>s \<in> set (db_alerts db). is_open s \<and> dedup_key s = dedup_key r)
     then Inl (UniqueViolation ''alerts_open_dedup_uq'')
     else if ac = Close \<and> rs = None then Inl (CheckViolation ''alerts_check'')
     else Inr (db\<lparr>db_alerts := rows'\<rparr>, Some r'))"
proof -
  let ?p = "transition_where ac (pr_tenant who) a" and ?f = "transition_set ac (pr_user who) rs cm now"
  let ?rows = "db_alerts db"
  have p: "?p x \<longleftrightarrow> x = r" if "x \<in> set ?rows" for x
    using that owned_unique [OF assms(1-3), of x] assms(3,4) unfolding transition_where_iff by blast
  have u: "update_rows ?p ?f ?rows = rows'"
    unfolding rows'_def r'_def by (rule update_rows_cong) (simp_all add: p)
  have f: "filter ?p ?rows \<noteq> []" using assms(2) p by (auto simp: filter_empty_conv)
  have n: "find ?p ?rows = Some r"
  proof (cases "find ?p ?rows")
    case None
    with assms(2) p show ?thesis by (auto simp: find_None_iff)
  next
    case (Some y)
    from find_SomeD [OF this] p have "y = r" by blast
    with Some show ?thesis by simp
  qed
  from assms(1) have d: "distinct ?rows" "distinct (open_keys ?rows)"
    by (simp_all add: alerts_ok_def distinct_map)
  have st: "is_open r' \<longleftrightarrow> ac \<noteq> Close" "ac = Reopen \<Longrightarrow> \<not> is_open r" "ac \<noteq> Reopen \<Longrightarrow> is_open r"
    using assms(4) by (cases ac; auto simp: r'_def is_open_def TRANSITIONS_def)+
  have key: "dedup_key r' = dedup_key r" by (simp add: r'_def)
  have "distinct (open_keys rows') \<longleftrightarrow> \<not> (ac = Reopen \<and> (\<exists>s \<in> set ?rows. is_open s \<and> dedup_key s = dedup_key r))"
    unfolding rows'_def distinct_open_change_one [OF d(1) assms(2) d(2) key]
    using st open_key_unique [OF d(2) _ assms(2)] by (cases ac) auto
  with f n show ?thesis
    unfolding update_alert_def Let_def u check_violated by (auto simp: r'_def)
qed

lemma transition_refines:
  assumes "alerts_ok (db_alerts db)"
  shows "map_sum id (\<lambda>(db', r). (db_alerts db', r)) (transition who a ac rs cm now db)
       = transition_spec who a ac rs cm now (db_alerts db)"
proof (cases "find (owned who a) (db_alerts db)")
  case None
  then have no: "\<And>x. x \<in> set (db_alerts db) \<Longrightarrow> \<not> owned who a x" by (simp add: find_None_iff)
  then have "update_alert ac who a rs cm now db = Inr (db, None)"
    by (intro update_alert_no_match [OF assms]) (simp add: transition_where_iff)
  moreover have "find (\<lambda>r. al_tenant r = pr_tenant who \<and> al_id r = a) (db_alerts db) = None"
    using no by (simp add: find_None_iff owned_def)
  ultimately show ?thesis
    by (simp add: transition_def transition_spec_def None Let_def split: prod.splits)
next
  case (Some r)
  have r: "r \<in> set (db_alerts db)" "owned who a r" using find_SomeD [OF Some] by simp_all
  obtain vf ts where tr: "TRANSITIONS ac = (vf, ts)" by fastforce
  show ?thesis
  proof (cases "al_state r \<in> set vf")
    case False
    have "\<not> transition_where ac (pr_tenant who) a x" if "x \<in> set (db_alerts db)" for x
      using owned_unique [OF assms r that] False tr unfolding transition_where_iff by auto
    then have "update_alert ac who a rs cm now db = Inr (db, None)" by (rule update_alert_no_match [OF assms])
    moreover have "find (\<lambda>r. al_tenant r = pr_tenant who \<and> al_id r = a) (db_alerts db) = Some r"
      using Some by (simp add: owned_def [abs_def])
    ultimately show ?thesis using False
      by (simp add: transition_def transition_spec_def Some Let_def tr)
  next
    case True
    with tr have "al_state r \<in> set (fst (TRANSITIONS ac))" by simp
    from update_alert_match [OF assms r this, of rs cm now] True show ?thesis
      by (auto simp: transition_def transition_spec_def Some Let_def tr insert_history_def write_audit_def)
  qed
qed

lemma transition_logs:
  assumes "transition who a ac rs cm now db = Inr (db', row)"
  shows "\<exists>h au. db_history db' = db_history db @ [h] \<and> db_audit db' = db_audit db @ [au]
     \<and> hi_tenant h = pr_tenant who \<and> hi_alert h = a \<and> hi_actor_id h = pr_user who \<and> hi_action h = past_action ac
     \<and> hi_to h = Some (state_str (snd (TRANSITIONS ac)))
     \<and> au_tenant au = pr_tenant who \<and> au_actor_id au = pr_user who \<and> au_target_id au = a"
  using assms
  by (auto simp: transition_def Let_def insert_history_def write_audit_def update_alert_def
      split: sum.splits option.splits prod.splits if_splits)

subsection \<open>Bulk operations\<close>

lemma dict_fromkeys_set: "set (dict_fromkeys seen xs) = set xs - set seen"
  by (induction xs arbitrary: seen) auto

lemma distinct_dict_fromkeys: "distinct (dict_fromkeys seen xs)"
  by (induction xs arbitrary: seen) (auto simp: dict_fromkeys_set)

lemma run_transition_bulk:
  assumes "db_ok db" "ac \<noteq> Reopen" "ac = Close \<longrightarrow> rs \<noteq> None"
  shows "run_transition who a ac (if ac = Close then rs else None) None now db \<noteq> Inl (Unhandled e)"
proof
  assume "run_transition who a ac (if ac = Close then rs else None) None now db = Inl (Unhandled e)"
  then have "transition who a ac (if ac = Close then rs else None) None now db = Inl (Unhandled e)"
    by (auto simp: run_transition_def rbind_Inl_iff)
  with transition_refines [of db who a ac "if ac = Close then rs else None" None now] assms show False
    by (auto simp: db_ok_def transition_spec_def Let_def split: option.splits if_splits prod.splits)
qed

lemma bulk_loop_total:
  assumes "db_ok db" "ac \<noteq> Reopen" "ac = Close \<longrightarrow> rs \<noteq> None"
  shows "\<exists>db' ok bad. bulk_loop who ac rs now ids s f db = Inr (db', s @ ok, f @ bad)
     \<and> mset ids = mset ok + mset (map fst bad) \<and> db_ok db'
     \<and> (\<forall>x \<in> set bad. \<forall>e. snd x \<noteq> Unhandled e)"
  using assms(1)
proof (induction ids arbitrary: s f db)
  case Nil
  then show ?case by simp
next
  case (Cons i ids)
  let ?rs = "if ac = Close then rs else None"
  show ?case
  proof (cases "run_transition who i ac ?rs None now db")
    case (Inl e)
    with run_transition_bulk [OF Cons.prems assms(2,3)] have ne: "\<forall>d. e \<noteq> Unhandled d" by blast
    with Inl have "bulk_loop who ac rs now (i # ids) s f db = bulk_loop who ac rs now ids s (f @ [(i, e)]) db"
      by (cases e) simp_all
    with Cons.IH [OF Cons.prems, of s "f @ [(i, e)]"] ne show ?thesis
      by (fastforce intro: exI [of _ "(i, e) # _"])
  next
    case (Inr res)
    obtain db1 row refs where res: "res = (db1, row, refs)" by (cases res) auto
    with Inr have "transition who i ac ?rs None now db = Inr (db1, row)"
      by (auto simp: run_transition_def rbind_Inr_iff)
    then have "db_ok db1" by (rule db_ok_transition [OF Cons.prems])
    moreover have "bulk_loop who ac rs now (i # ids) s f db = bulk_loop who ac rs now ids (s @ [i]) f db1"
      using Inr res by simp
    ultimately show ?thesis using Cons.IH [of db1 "s @ [i]" f] by (fastforce intro: exI [of _ "i # _"])
  qed
qed

subsection \<open>Event bodies\<close>

lemma collect_hits_inv:
  assumes "distinct (map fst items)" "set (map fst items) \<subseteq> set wanted"
  shows "distinct (map fst (collect_hits wanted hits items)) \<and> set (map fst (collect_hits wanted hits items)) \<subseteq> set wanted
    \<and> set (map fst (collect_hits wanted hits items)) = set (map fst items) \<union> (set (map fst hits) \<inter> set wanted)"
  using assms by (induction wanted hits items rule: collect_hits.induct) auto

subsection \<open>Properties\<close>

definition demo_user :: session_principal where
  "demo_user = \<lparr>pr_tenant = ''t1'', pr_user = ''u1''\<rparr>"

definition no_filter :: alert_filter where
  "no_filter = \<lparr>fi_state = [], fi_severity = [], fi_ai_severity = [], fi_rule_id = [], fi_host = [],
     fi_group = [], fi_from = None, fi_to = None\<rparr>"



text \<open>transitions are logged and keep the database well formed. A successful transition
  preserves the invariant that the alerter relies on, and appends exactly one history row and one
  audit row, in the caller's tenant and name, for that alert and that action.\<close>

theorem alert_transition_logged:
  assumes "db_ok db" "transition who a ac rs cm now db = Inr (db', row)"
  shows "db_ok db' \<and> (\<exists>h au. db_history db' = db_history db @ [h] \<and> db_audit db' = db_audit db @ [au]
     \<and> hi_tenant h = pr_tenant who \<and> hi_alert h = a \<and> hi_actor_id h = pr_user who \<and> hi_action h = past_action ac
     \<and> hi_to h = Some (state_str (snd (TRANSITIONS ac)))
     \<and> au_tenant au = pr_tenant who \<and> au_actor_id au = pr_user who \<and> au_target_id au = a)"
  using db_ok_transition [OF assms] transition_logs [OF assms(2)] by blast

theorem alert_transition_logged_witness:
  "\<exists>db' row. transition demo_user ''al_1'' Acknowledge None None 9 demo_db = Inr (db', row) \<and> db_ok db'"
proof -
  have "is_ok (transition demo_user ''al_1'' Acknowledge None None 9 demo_db)" by code_simp
  then obtain db' row where r: "transition demo_user ''al_1'' Acknowledge None None 9 demo_db = Inr (db', row)"
    unfolding is_ok_iff by (metis surj_pair)
  with alert_transition_logged [OF demo_db_ok r] show ?thesis by blast
qed



text \<open>C11: keyset pagination is exact. A client that starts without a cursor and follows the returned
  cursors until there is none gets, over all pages, exactly the alerts of its tenant that match the
  filter, each once, in the requested order, for every page size and each of the four sorts; the
  chain of cursors ends.\<close>

theorem alert_pages_complete:
  assumes "alerts_ok (db_alerts db)" "request_ok filt limit" "parse_sort arg = Some s"
  shows "all_pages (length (db_alerts db) + 1) who filt arg limit None db
       = Some (sort_key (order_key s) (matching_rows who filt db))"
proof -
  have "length (matching_rows who filt db) \<le> length (db_alerts db)"
    unfolding matching_rows_def by (meson length_filter_le le_trans)
  then show ?thesis
    using all_pages_from [OF assms(2,3), where cursor = None and k = 0 and fuel = "length (db_alerts db) + 1"] assms(1)
    by (simp add: alerts_ok_def)
qed

theorem alert_pages_complete_witness:
  "all_pages 3 demo_user no_filter ''-last_seen'' (Some 1) None demo_db
     = Some (sort_key (order_key LastSeenDesc) (matching_rows demo_user no_filter demo_db))
   \<and> map al_id (sort_key (order_key LastSeenDesc) (matching_rows demo_user no_filter demo_db)) = [''al_2'', ''al_1'']"
proof -
  have "request_ok no_filter (Some 1)" by (simp add: request_ok_def no_filter_def MAX_LIMIT_def)
  moreover have "parse_sort ''-last_seen'' = Some LastSeenDesc" by code_simp
  moreover have "length (db_alerts demo_db) = 2"
    "map al_id (sort_key (order_key LastSeenDesc) (matching_rows demo_user no_filter demo_db)) = [''al_2'', ''al_1'']"
    by code_simp+
  ultimately show ?thesis
    using alert_pages_complete [OF demo_db_alerts_ok, of no_filter "Some 1" "''-last_seen''" LastSeenDesc demo_user]
    by (simp add: numeral_3_eq_3)
qed

text \<open>event bodies are accounted for. Whatever the event store returns for a page of an alert's
  events, no event id is returned twice, only requested ids are returned, and every requested id is
  either among the items or reported as missing, never both.\<close>

theorem alert_events_partition:
  assumes "alert_events who a limit cursor search db = Inr (items, nxt, num_refs, missing)"
  shows "\<exists>wanted. sorted wanted \<and> set (map fst items) \<inter> set missing = {}
     \<and> set (map fst items) \<union> set missing = set wanted \<and> distinct (map fst items)
     \<and> set wanted \<subseteq> ln_event ` {l \<in> set (db_links db). ln_tenant l = pr_tenant who \<and> ln_alert l = a}"
proof -
  define refs where "refs = map ln_event (filter (\<lambda>l. ln_tenant l = pr_tenant who \<and> ln_alert l = a) (db_links db))"
  from assms obtain n where n: "clamp_limit limit = Inr n" by (auto simp: alert_events_def rbind_Inr_iff)
  define wanted where "wanted = take (nat n) (take (nat n + 1)
      (sort (filter (\<lambda>e. e > (case cursor of None \<Rightarrow> [] | Some c \<Rightarrow> c)) refs)))"
  have s: "sorted wanted" unfolding wanted_def by (intro sorted_wrt_take) simp
  have sub: "set wanted \<subseteq> set refs"
    unfolding wanted_def by (auto dest!: in_set_takeD)
  from assms n obtain c where "event_bodies search wanted c (length refs) = Inr (items, nxt, num_refs, missing)"
    by (simp only: alert_events_def rbind_simps Let_def refs_def [symmetric] wanted_def [symmetric] split: if_split_asm)
       simp_all
  then obtain hits where "items = collect_hits wanted hits []"
    "missing = filter (\<lambda>e. e \<notin> set (map fst items)) wanted"
    by (cases "wanted = []"; cases "search wanted") (auto simp: event_bodies_def Let_def intro: that [of "[]"])
  with collect_hits_inv [of "[]" wanted hits] s sub show ?thesis
    by (intro exI [of _ wanted]) (auto simp: refs_def)
qed

definition demo_links_db :: alert_db where
  "demo_links_db = \<lparr>db_alerts = [new_row ''al_1'' ''t1'' demo_hit None demo_score 1],
     db_links = [\<lparr>ln_tenant = ''t1'', ln_alert = ''al_1'', ln_event = ''e2'', ln_es_index = []\<rparr>,
                 \<lparr>ln_tenant = ''t1'', ln_alert = ''al_1'', ln_event = ''e1'', ln_es_index = []\<rparr>],
     db_history = [], db_groups = [], db_assets = [], db_dead_letters = [], db_audit = []\<rparr>"

definition demo_search :: "string list \<Rightarrow> (string \<times> obj) list option" where
  "demo_search wanted = Some [(''e1'', []), (''e7'', []), (''e1'', [])]"

theorem alert_events_partition_witness:
  "\<exists>wanted. sorted wanted \<and> set (map fst [(''e1'', [] :: obj)]) \<inter> set [''e2''] = {}
     \<and> set (map fst [(''e1'', [] :: obj)]) \<union> set [''e2''] = set wanted \<and> distinct (map fst [(''e1'', [] :: obj)])
     \<and> set wanted \<subseteq> ln_event ` {l \<in> set (db_links demo_links_db). ln_tenant l = pr_tenant demo_user \<and> ln_alert l = ''al_1''}"
proof -
  have "alert_events demo_user ''al_1'' (Some 2) None demo_search demo_links_db = Inr ([(''e1'', [])], None, 2, [''e2''])"
    by code_simp
  then show ?thesis by (rule alert_events_partition)
qed

text \<open>Reopening an alert that a newer open alert has superseded is an unhandled database error.\<close>

lemma reopen_superseded_alert_fails:
  "reopen_alert demo_user ''al_1'' 9 (demo_db\<lparr>db_alerts :=
      [(new_row ''al_1'' ''t1'' demo_hit None demo_score 1)\<lparr>al_state := Closed, al_close_reason := Some ''resolved''\<rparr>,
       new_row ''al_2'' ''t1'' demo_hit None demo_score 2]\<rparr>)
   = Inl (Unhandled (UniqueViolation ''alerts_open_dedup_uq''))"
  by code_simp

end
