(* ===== verification/Ids.thy ===== *)
theory Ids
  imports Soc_Prelude
begin

section \<open>Identifiers: UUIDs, ULIDs and prefixed public ids\<close>

text \<open>
  \<^item> Python's \<^verbatim>\<open>UUID\<close> class, as far as the program uses it: the constructor from a string
    (\<open>uuid_of\<close>, with the spellings the library accepts) and \<^verbatim>\<open>str\<close> (\<open>uuid_str\<close>, the canonical form).
    A UUID is its 128-bit number.
  \<^item> The two ULID generators, \<^verbatim>\<open>new_ulid\<close> of \<^verbatim>\<open>dataplane/workers/common.py\<close> and \<^verbatim>\<open>ulid\<close> of
    \<^verbatim>\<open>dataplane/core/ids.py\<close>. The clock reading and the random bits are arguments.
  \<^item> The prefixed ids of \<^verbatim>\<open>controlplane/ids.py\<close>.
  The two properties: both generators produce the same 26 characters and their ids sort by time;
  public ids decode to the UUID they were made from, and only under their own prefix.
\<close>

subsection \<open>UUIDs\<close>

fun py_replace :: "string \<Rightarrow> string \<Rightarrow> string" where
  "py_replace p [] = []"
| "py_replace p (c # cs) =
     (if p \<noteq> [] \<and> starts_with (c # cs) p then py_replace p (drop (length p - 1) cs) else c # py_replace p cs)"

definition hex_val :: "char \<Rightarrow> nat option" where
  "hex_val c = (let n = (of_char c :: nat) in
     if 48 \<le> n \<and> n \<le> 57 then Some (n - 48)
     else if 97 \<le> n \<and> n \<le> 102 then Some (n - 87)
     else if 65 \<le> n \<and> n \<le> 70 then Some (n - 55) else None)"

text \<open>The digits of \<^verbatim>\<open>int(s, 16)\<close>: hexadecimal digits, with single underscores between them.\<close>

fun hex_digits :: "nat \<Rightarrow> bool \<Rightarrow> string \<Rightarrow> nat option" where
  "hex_digits acc after_digit [] = (if after_digit then Some acc else None)"
| "hex_digits acc after_digit (c # cs) =
     (if c = CHR ''_'' then (if after_digit then hex_digits acc False cs else None)
      else case hex_val c of None \<Rightarrow> None | Some d \<Rightarrow> hex_digits (acc * 16 + d) True cs)"

text \<open>The hyphens have been removed, so the only sign left is a plus.\<close>

definition int_base16 :: "string \<Rightarrow> nat option" where
  "int_base16 s =
     (let t = py_strip s;
          u = (if starts_with t ''+'' then drop 1 t else t) in
      if starts_with u ''0x'' \<or> starts_with u ''0X''
      then (let v = drop 2 u in hex_digits 0 False (if starts_with v ''_'' then drop 1 v else v))
      else hex_digits 0 False u)"

definition strip_braces :: "string \<Rightarrow> string" where
  "strip_braces s = (let brace = (\<lambda>c. c = CHR ''{'' \<or> c = CHR ''}'') in
     rev (dropWhile brace (rev (dropWhile brace s))))"

definition uuid_of :: "string \<Rightarrow> nat option" where
  "uuid_of s =
     (let h = py_replace ''-'' (strip_braces (py_replace ''uuid:'' (py_replace ''urn:'' s))) in
      if length h \<noteq> 32 then None
      else case int_base16 h of None \<Rightarrow> None | Some n \<Rightarrow> if n < 2 ^ 128 then Some n else None)"

definition hex_char :: "nat \<Rightarrow> char" where
  "hex_char d = char_of (if d < 10 then 48 + d else 87 + d)"

fun to_hex :: "nat \<Rightarrow> nat \<Rightarrow> string" where
  "to_hex 0 n = []"
| "to_hex (Suc k) n = to_hex k (n div 16) @ [hex_char (n mod 16)]"

definition uuid_str :: "nat \<Rightarrow> string" where
  "uuid_str n = (let h = to_hex 32 n in
     take 8 h @ ''-'' @ take 4 (drop 8 h) @ ''-'' @ take 4 (drop 12 h) @ ''-'' @ take 4 (drop 16 h) @ ''-'' @ drop 20 h)"

subsection \<open>ULIDs\<close>

definition CROCKFORD :: string where
  "CROCKFORD = ''0123456789ABCDEFGHJKMNPQRSTVWXYZ''"

text \<open>\<^verbatim>\<open>workers/common.py\<close>: the digits from the most significant one down.\<close>

definition new_ulid :: "nat \<Rightarrow> nat \<Rightarrow> string option" where
  "new_ulid ts randbits =
     (if ts < 2 ^ 48
      then let v = ts * 2 ^ 80 + randbits in
        Some (map (\<lambda>k. CROCKFORD ! ((v div 2 ^ (5 * k)) mod 32)) (rev [0..<26]))
      else None)"

text \<open>\<^verbatim>\<open>core/ids.py\<close>: the digits from the least significant one up, then reversed; no range check.\<close>

fun ulid_chars :: "nat \<Rightarrow> nat \<Rightarrow> string" where
  "ulid_chars 0 v = []"
| "ulid_chars (Suc k) v = CROCKFORD ! (v mod 32) # ulid_chars k (v div 32)"

definition ulid :: "nat \<Rightarrow> nat \<Rightarrow> string" where
  "ulid ts rand = rev (ulid_chars 26 (ts * 2 ^ 80 + rand))"

definition new_id :: "string \<Rightarrow> nat \<Rightarrow> nat \<Rightarrow> string" where
  "new_id prefix ts rand = prefix @ ''_'' @ ulid ts rand"

definition new_alert_id :: "nat \<Rightarrow> nat \<Rightarrow> string option" where
  "new_alert_id ts rand = map_option (\<lambda>u. ''al_'' @ u) (new_ulid ts rand)"

definition new_correlation_group_id :: "nat \<Rightarrow> nat \<Rightarrow> string option" where
  "new_correlation_group_id ts rand = map_option (\<lambda>u. ''cg_'' @ u) (new_ulid ts rand)"

subsection \<open>Public ids\<close>

definition ACCOUNT_PREFIX :: string where "ACCOUNT_PREFIX = ''acc''"
definition TENANT_PREFIX :: string where "TENANT_PREFIX = ''tn''"
definition USER_PREFIX :: string where "USER_PREFIX = ''usr''"

definition public_id :: "string \<Rightarrow> nat \<Rightarrow> string" where
  "public_id prefix u = prefix @ ''_'' @ uuid_str u"

text \<open>The error code of the \<^verbatim>\<open>ApiError\<close> is the caller's choice; \<open>None\<close> is that error.\<close>

definition parse_public_id :: "string \<Rightarrow> string \<Rightarrow> nat option" where
  "parse_public_id prefix s =
     (let marker = prefix @ ''_'' in
      if starts_with s marker then uuid_of (drop (length marker) s) else None)"

subsection \<open>Hexadecimal round trip\<close>

definition plain :: "char \<Rightarrow> bool" where
  "plain c \<longleftrightarrow> hex_val c \<noteq> None"

lemma plain_not_space: "plain c \<Longrightarrow> \<not> is_space c"
  by (auto simp: plain_def hex_val_def is_space_def Let_def split: if_splits)

lemma not_plain [simp]:
  "\<not> plain CHR ''-''" "\<not> plain CHR ''_''" "\<not> plain CHR ''{''" "\<not> plain CHR ''}''" "\<not> plain CHR ''+''"
  "\<not> plain CHR ''x''" "\<not> plain CHR ''X''" "\<not> plain CHR ''u''"
  by (simp_all add: plain_def hex_val_def)

lemma hex_char_facts:
  assumes "d < 16"
  shows "hex_val (hex_char d) = Some d" and "plain (hex_char d)"
proof -
  show "hex_val (hex_char d) = Some d"
    using assms by (auto simp: hex_val_def hex_char_def Let_def)
  then show "plain (hex_char d)" by (simp add: plain_def)
qed

lemma to_hex_length [simp]: "length (to_hex k n) = k"
  by (induction k arbitrary: n) simp_all

lemma to_hex_set: "c \<in> set (to_hex k n) \<Longrightarrow> plain c \<and> hex_val c \<noteq> None"
proof (induction k arbitrary: n)
  case (Suc k)
  have "n mod 16 < 16" by simp
  with Suc hex_char_facts [OF this] show ?case by fastforce
qed simp

lemma plain_no_underscore: "plain c \<Longrightarrow> c \<noteq> CHR ''_''"
  by auto

lemma hex_digits_snoc:
  assumes "c \<noteq> CHR ''_''" "hex_val c = Some d"
  shows "\<forall>x \<in> set xs. plain x \<Longrightarrow> hex_digits acc b xs = Some m \<Longrightarrow> hex_digits acc b (xs @ [c]) = Some (m * 16 + d)"
proof (induction xs arbitrary: acc b)
  case Nil
  then show ?case using assms by (simp split: if_splits)
next
  case (Cons x xs)
  then show ?case using plain_no_underscore [of x] by (simp split: option.splits)
qed

lemma hex_digits_to_hex: "n < 16 ^ Suc k \<Longrightarrow> hex_digits 0 False (to_hex (Suc k) n) = Some n"
proof (induction k arbitrary: n)
  case 0
  then have "n < 16" by simp
  from hex_char_facts [OF this] plain_no_underscore [of "hex_char n"] \<open>n < 16\<close> show ?case by simp
next
  case (Suc k)
  have IH: "hex_digits 0 False (to_hex (Suc k) (n div 16)) = Some (n div 16)"
    using Suc.prems by (intro Suc.IH) (simp add: less_mult_imp_div_less)
  have "n mod 16 < 16" by simp
  note f = hex_char_facts [OF this]
  have "hex_digits 0 False (to_hex (Suc k) (n div 16) @ [hex_char (n mod 16)]) = Some (n div 16 * 16 + n mod 16)"
    using f plain_no_underscore to_hex_set IH by (intro hex_digits_snoc) blast+
  then show ?case unfolding to_hex.simps(2) [of "Suc k"] by simp
qed

subsection \<open>UUID round trip\<close>

lemma py_replace_absent:
  assumes "p \<noteq> []" "hd p \<notin> set s"
  shows "py_replace p s = s"
  using assms(2)
proof (induction s)
  case (Cons c cs)
  have "\<not> starts_with (c # cs) p"
    using assms(1) Cons.prems by (cases p) (auto simp: starts_with_def)
  with Cons show ?case by simp
qed simp

lemma py_replace_remove: "py_replace [c] s = filter (\<lambda>x. x \<noteq> c) s"
  by (induction s) (auto simp: starts_with_def)

lemma strip_braces_plain:
  assumes "\<forall>c \<in> set s. c \<noteq> CHR ''{'' \<and> c \<noteq> CHR ''}''"
  shows "strip_braces s = s"
proof -
  have d: "dropWhile (\<lambda>c. c = CHR ''{'' \<or> c = CHR ''}'') t = t" if "set t = set s" for t
    using assms that by (cases t) auto
  show ?thesis unfolding strip_braces_def Let_def by (simp add: d)
qed

lemma py_strip_plain: "\<forall>c \<in> set s. \<not> is_space c \<Longrightarrow> py_strip s = s"
proof -
  assume a: "\<forall>c \<in> set s. \<not> is_space c"
  have d: "dropWhile is_space t = t" if "set t = set s" for t
    using a that by (cases t) auto
  show ?thesis unfolding py_strip_def by (simp add: d)
qed

lemma int_base16_plain:
  assumes "\<forall>c \<in> set s. plain c"
  shows "int_base16 s = hex_digits 0 False s"
proof -
  have no: "\<not> starts_with s (a # c # [])" if "\<not> plain c" for a c
    using assms that by (cases s; cases "drop 1 s") (auto simp: starts_with_def)
  have "\<not> starts_with s ''+''" using assms by (cases s) (auto simp: starts_with_def)
  moreover have "\<not> starts_with s ''0x''" "\<not> starts_with s ''0X''" by (rule no, simp)+
  moreover have "py_strip s = s" using assms by (intro py_strip_plain) (simp add: plain_not_space)
  ultimately show ?thesis by (simp add: int_base16_def)
qed

lemma uuid_str_set: "c \<in> set (uuid_str n) \<Longrightarrow> c = CHR ''-'' \<or> plain c"
  unfolding uuid_str_def Let_def using to_hex_set [of c 32 n] by (auto dest!: in_set_takeD in_set_dropD)

lemma uuid_str_digits: "filter (\<lambda>x. x \<noteq> CHR ''-'') (uuid_str n) = to_hex 32 n"
proof -
  have keep: "filter (\<lambda>x. x \<noteq> CHR ''-'') xs = xs" if "set xs \<subseteq> set (to_hex 32 n)" for xs
  proof (intro filter_True ballI)
    fix x assume "x \<in> set xs"
    then have "plain x" using that to_hex_set by blast
    then show "x \<noteq> CHR ''-''" by auto
  qed
  have sub: "set (take a (drop b (to_hex 32 n))) \<subseteq> set (to_hex 32 n)" for a b
    by (meson order_trans set_drop_subset set_take_subset)
  let ?h = "to_hex 32 n"
  have "filter (\<lambda>x. x \<noteq> CHR ''-'') (uuid_str n) = take 8 ?h @ take 4 (drop 8 ?h) @ take 4 (drop 12 ?h) @ take 4 (drop 16 ?h) @ drop 20 ?h"
    unfolding uuid_str_def Let_def
    by (simp add: keep sub set_take_subset set_drop_subset del: to_hex.simps)
  also have "\<dots> = ?h"
  proof -
    have s: "take 4 (drop k ?h) @ drop (k + 4) ?h = drop k ?h" for k
      by (metis add.commute append_take_drop_id drop_drop)
    show ?thesis using s [of 8] s [of 12] s [of 16] append_take_drop_id [of 8 ?h] by simp
  qed
  finally show ?thesis .
qed

lemma uuid_of_str: "n < 2 ^ 128 \<Longrightarrow> uuid_of (uuid_str n) = Some n"
proof -
  assume n: "n < 2 ^ 128"
  have set: "c \<notin> set (uuid_str n)" if "c \<in> {CHR ''u'', CHR ''{'', CHR ''}''}" for c
    using uuid_str_set [of c n] that by auto
  have "py_replace ''urn:'' (uuid_str n) = uuid_str n" "py_replace ''uuid:'' (uuid_str n) = uuid_str n"
    by (rule py_replace_absent; simp add: set)+
  moreover have "strip_braces (uuid_str n) = uuid_str n" by (rule strip_braces_plain) (use set in auto)
  moreover have "py_replace ''-'' (uuid_str n) = to_hex 32 n"
    by (simp add: py_replace_remove uuid_str_digits del: to_hex.simps)
  moreover have "int_base16 (to_hex 32 n) = Some n"
  proof -
    have "n < 16 ^ Suc 31" using n by simp
    moreover have "(32 :: nat) = Suc 31" by simp
    ultimately have "hex_digits 0 False (to_hex 32 n) = Some n" by (simp only: hex_digits_to_hex)
    moreover have "int_base16 (to_hex 32 n) = hex_digits 0 False (to_hex 32 n)"
      by (rule int_base16_plain) (use to_hex_set in blast)
    ultimately show ?thesis by simp
  qed
  ultimately show ?thesis using n by (simp add: uuid_of_def del: to_hex.simps)
qed

subsection \<open>ULIDs as numbers in base 32\<close>

definition crockford_digits :: "nat \<Rightarrow> nat \<Rightarrow> string" where
  "crockford_digits k v = map (\<lambda>i. CROCKFORD ! ((v div 32 ^ i) mod 32)) (rev [0..<k])"

lemma ulid_chars_digits: "rev (ulid_chars k v) = crockford_digits k v"
proof -
  have "ulid_chars k v = map (\<lambda>i. CROCKFORD ! ((v div 32 ^ i) mod 32)) [0..<k]"
  proof (induction k arbitrary: v)
    case (Suc k)
    have "[0..<Suc k] = 0 # map Suc [0..<k]" by (simp add: upt_conv_Cons map_Suc_upt del: upt_Suc)
    then show ?case using Suc by (simp add: div_mult2_eq)
  qed simp
  then show ?thesis by (simp add: crockford_digits_def rev_map)
qed

lemma ulid_digits: "ulid ts rand = crockford_digits 26 (ts * 2 ^ 80 + rand)"
  unfolding ulid_def by (rule ulid_chars_digits)

lemma new_ulid_digits:
  "ts < 2 ^ 48 \<Longrightarrow> new_ulid ts rand = Some (crockford_digits 26 (ts * 2 ^ 80 + rand))"
  unfolding new_ulid_def crockford_digits_def Let_def by (simp add: power_mult)

lemma crockford_digits_length [simp]: "length (crockford_digits k v) = k"
  by (simp add: crockford_digits_def)

lemma crockford_digits_Suc:
  "crockford_digits (Suc k) v = CROCKFORD ! ((v div 32 ^ k) mod 32) # crockford_digits k (v mod 32 ^ k)"
proof -
  have "(v mod 32 ^ k) div 32 ^ i mod 32 = v div 32 ^ i mod 32" if "i < k" for i
  proof -
    have k: "(32 :: nat) ^ k = 32 ^ i * 32 * 32 ^ (k - Suc i)"
    proof -
      have "k = i + (1 + (k - Suc i))" using that by simp
      then show ?thesis by (metis power_add power_one_right mult.assoc)
    qed
    have "v mod (32 ^ i * (32 * 32 ^ (k - Suc i))) div 32 ^ i = v div 32 ^ i mod (32 * 32 ^ (k - Suc i))"
      by (simp add: mod_mult2_eq)
    then show ?thesis unfolding k by (simp add: mult.assoc mod_mod_cancel)
  qed
  then show ?thesis by (simp add: crockford_digits_def)
qed

lemma crockford_mono: "a < b \<Longrightarrow> b < 32 \<Longrightarrow> CROCKFORD ! a < CROCKFORD ! b"
proof -
  assume "a < b" "b < 32"
  moreover have "sorted_wrt (<) CROCKFORD" "length CROCKFORD = 32"
    by (simp_all add: CROCKFORD_def less_char_def)
  ultimately show ?thesis by (simp add: sorted_wrt_iff_nth_less)
qed

lemma crockford_digits_less:
  "v < w \<Longrightarrow> w < 32 ^ k \<Longrightarrow> crockford_digits k v < crockford_digits k w"
proof (induction k arbitrary: v w)
  case (Suc k)
  have le: "v div 32 ^ k \<le> w div 32 ^ k" using Suc.prems by (simp add: div_le_mono)
  have w: "w div 32 ^ k < 32" using Suc.prems by (simp add: less_mult_imp_div_less)
  show ?case
  proof (cases "v div 32 ^ k = w div 32 ^ k")
    case True
    have "v mod 32 ^ k < w mod 32 ^ k"
      using Suc.prems(1) True by (metis add_less_cancel_left mult_div_mod_eq)
    then show ?thesis unfolding crockford_digits_Suc True by (simp add: Suc.IH)
  next
    case False
    with le w have "CROCKFORD ! ((v div 32 ^ k) mod 32) < CROCKFORD ! ((w div 32 ^ k) mod 32)"
      by (intro crockford_mono) simp_all
    then show ?thesis unfolding crockford_digits_Suc by simp
  qed
qed simp

lemma crockford_digits_less_iff:
  assumes "v < 32 ^ k" "w < 32 ^ k"
  shows "crockford_digits k v < crockford_digits k w \<longleftrightarrow> v < w"
  using crockford_digits_less [OF _ assms(2), of v] crockford_digits_less [OF _ assms(1), of w]
  by (metis less_asym linorder_neqE_nat order_less_irrefl)

lemma ulid_value_bound:
  assumes "ts < 2 ^ 48" "rand < (2 ^ 80 :: nat)"
  shows "ts * 2 ^ 80 + rand < 32 ^ 26"
proof -
  have "ts * 2 ^ 80 + rand < Suc ts * 2 ^ 80" using assms(2) by simp
  also have "\<dots> \<le> 2 ^ 48 * 2 ^ 80" using assms(1) by (intro mult_le_mono1) simp
  also have "\<dots> < (32 ^ 26 :: nat)" by simp
  finally show ?thesis .
qed

lemma pair_value_less:
  assumes "r1 < (m :: nat)" "r2 < m"
  shows "t1 * m + r1 < t2 * m + r2 \<longleftrightarrow> t1 < t2 \<or> t1 = t2 \<and> r1 < r2"
proof -
  have *: "t1 * m + r1 < t2 * m + r2" if "t1 < t2" "r1 < m" for t1 t2 r1 r2 :: nat
  proof -
    have "t1 * m + r1 < Suc t1 * m" using that(2) by simp
    also have "\<dots> \<le> t2 * m" using that(1) by (intro mult_le_mono1) simp
    finally show ?thesis by simp
  qed
  show ?thesis
    using * [of t1 t2 r1 r2] * [of t2 t1 r2 r1] assms by (cases t1 t2 rule: linorder_cases) auto
qed

subsection \<open>Properties\<close>

text \<open>ULIDs sort by time. For every clock reading of 48 bits both generators return the same
  26 characters, and the string order of two ids is the order of their timestamps, then of their
  random parts; in particular different inputs give different ids.\<close>

theorem ulid_sortable:
  assumes "t1 < 2 ^ 48" "t2 < 2 ^ 48" "r1 < 2 ^ 80" "r2 < 2 ^ 80"
  shows "new_ulid t1 r1 = Some (ulid t1 r1) \<and> length (ulid t1 r1) = 26
     \<and> (ulid t1 r1 < ulid t2 r2 \<longleftrightarrow> t1 < t2 \<or> t1 = t2 \<and> r1 < r2)"
  using assms new_ulid_digits [OF assms(1), of r1]
  by (simp only: ulid_digits crockford_digits_length crockford_digits_less_iff [OF ulid_value_bound ulid_value_bound]
      pair_value_less)

theorem ulid_sortable_witness:
  "new_ulid 1700000000000 5 = Some (ulid 1700000000000 5) \<and> ulid 1700000000000 5 < ulid 1700000000001 0"
  using ulid_sortable [of 1700000000000 1700000000001 5 0] by simp

text \<open>public ids decode to what they encode. The wire form of a UUID under a prefix parses, under
  that prefix, to that UUID, and is refused (the not-found error) under each of the other two
  prefixes, so an id of one kind is never taken for another.\<close>

theorem public_id_roundtrip:
  assumes "u < 2 ^ 128" "p \<in> {ACCOUNT_PREFIX, TENANT_PREFIX, USER_PREFIX}"
    "q \<in> {ACCOUNT_PREFIX, TENANT_PREFIX, USER_PREFIX}"
  shows "parse_public_id q (public_id p u) = (if q = p then Some u else None)"
proof (cases "q = p")
  case True
  have "starts_with (public_id p u) (p @ ''_'')" by (simp add: public_id_def starts_with_def)
  then show ?thesis
    using True uuid_of_str [OF assms(1)] by (simp add: parse_public_id_def public_id_def)
next
  case False
  have "\<not> starts_with (public_id p u) (q @ ''_'')"
    using assms(2,3) False
    by (auto simp: public_id_def starts_with_def ACCOUNT_PREFIX_def TENANT_PREFIX_def USER_PREFIX_def)
  with False show ?thesis by (simp add: parse_public_id_def)
qed

theorem public_id_roundtrip_witness:
  "parse_public_id TENANT_PREFIX (public_id TENANT_PREFIX 77) = Some 77
   \<and> parse_public_id USER_PREFIX (public_id TENANT_PREFIX 77) = None"
proof -
  have "USER_PREFIX \<noteq> TENANT_PREFIX" by (simp add: USER_PREFIX_def TENANT_PREFIX_def)
  with public_id_roundtrip [of 77 TENANT_PREFIX TENANT_PREFIX] public_id_roundtrip [of 77 TENANT_PREFIX USER_PREFIX]
  show ?thesis by simp
qed

end
