(* ===== verification/Assets.thy ===== *)
theory Assets
  imports Alert_Api Ids
begin

section \<open>The asset inventory\<close>

text \<open>
  \<^verbatim>\<open>dataplane/workers/asset_dedup.py\<close> (the deduplicating worker) and \<^verbatim>\<open>dataplane/api/assets.py\<close> (the
  inventory API with manual merge and split) over the tables of
  \<^verbatim>\<open>db/migrations/0004_tenantdata_core.sql\<close>. Every statement runs in a tenant transaction, so it
  sees and writes only rows of that tenant; the model filters by tenant where row-level
  security does. A fresh asset id (\<^verbatim>\<open>uuid4\<close>, \<^verbatim>\<open>gen_random_uuid\<close>) and the ids of inserted identity rows are
  arguments. UUIDs are canonical strings; timestamps are microseconds.

  The lemmas show the table invariant \<open>inventory_ok\<close> (an identifier is bound to one asset, which is
  active; a pin agrees with the binding; ids are unique) through every operation, that
  automatic deduplication never moves an identifier or a pin, and that it never gives an asset a
  second agent.
\<close>

subsection \<open>Tables\<close>

datatype asset_state = Active | Merged

record asset_row =
  as_id :: string
  as_tenant :: string
  as_hostname :: "string option"
  as_os_family :: "string option"
  as_os_name :: "string option"
  as_os_version :: "string option"
  as_ip :: "string option"
  as_mac :: "string option"
  as_sources :: "string list"
  as_agent_status :: string
  as_billable :: bool
  as_state :: asset_state
  as_merged_into :: "string option"
  as_dedup_rule :: "string option"
  as_created_via :: string
  as_first_seen :: int
  as_last_seen :: int

record identity_row =
  id_id :: string
  id_tenant :: string
  id_asset :: string
  id_source :: string
  id_type :: string
  id_value :: string
  id_first_seen :: int
  id_last_seen :: int

record pin_row =
  pn_tenant :: string
  pn_type :: string
  pn_value :: string
  pn_asset :: string
  pn_origin :: string
  pn_reason :: string
  pn_created_by :: string

record device_row =
  dv_id :: string
  dv_tenant :: string
  dv_asset :: string

record merge_audit_row =
  ma_tenant :: string
  ma_asset :: string
  ma_rule :: string
  ma_actor_type :: string
  ma_actor_id :: string
  ma_details :: obj

record asset_db =
  ad_assets :: "asset_row list"
  ad_identities :: "identity_row list"
  ad_pins :: "pin_row list"
  ad_devices :: "device_row list"
  ad_merge_audit :: "merge_audit_row list"
  ad_audit :: "audit_row list"
  ad_dead_letters :: "dead_letter list"

definition OS_FAMILIES :: "string list" where
  "OS_FAMILIES = [''windows'', ''linux'', ''macos'', ''other'']"

definition os_family_ok :: "string option \<Rightarrow> bool" where
  "os_family_ok f = (case f of None \<Rightarrow> True | Some s \<Rightarrow> s \<in> set OS_FAMILIES)"

subsection \<open>Observations\<close>

record observation =
  ob_observed_at :: int
  ob_source :: string
  ob_hostname :: "string option"
  ob_os_family :: "string option"
  ob_os_name :: "string option"
  ob_os_version :: "string option"
  ob_ip :: "string option"
  ob_mac :: "string option"
  ob_device_id :: "string option"

text \<open>A string field that is absent, null or empty is false in a condition.\<close>

definition truthy :: "string option \<Rightarrow> string option" where
  "truthy f = (case f of None \<Rightarrow> None | Some s \<Rightarrow> if s = [] then None else Some s)"

definition validate_observation :: "(json \<Rightarrow> int option) \<Rightarrow> json \<Rightarrow> observation option" where
  "validate_observation parse_aware payload =
     (case payload of
        JObj d \<Rightarrow>
          Option.bind (Option.bind (map_of d ''observed_at'') parse_aware) (\<lambda>observed_at.
          Option.bind (req_str d ''source'' 0) (\<lambda>source.
          if source \<notin> {''agent'', ''log_ingest''} then None else
          Option.bind (opt_str_field d ''hostname'') (\<lambda>hostname.
          Option.bind (opt_str_field d ''os_family'') (\<lambda>os_family.
          Option.bind (opt_str_field d ''os_name'') (\<lambda>os_name.
          Option.bind (opt_str_field d ''os_version'') (\<lambda>os_version.
          Option.bind (opt_str_field d ''ip'') (\<lambda>ip.
          Option.bind (opt_str_field d ''mac'') (\<lambda>mac.
          Option.bind (opt_str_field d ''device_id'') (\<lambda>device_id.
          Option.bind (opt_str_field d ''agent_version'') (\<lambda>_.
          Some \<lparr>ob_observed_at = observed_at, ob_source = source, ob_hostname = hostname, ob_os_family = os_family,
                ob_os_name = os_name, ob_os_version = os_version, ob_ip = ip, ob_mac = mac, ob_device_id = device_id\<rparr>))))))))))
      | _ \<Rightarrow> None)"

definition identifiers :: "observation \<Rightarrow> (string \<times> string) list" where
  "identifiers obs =
     (case truthy (ob_device_id obs) of None \<Rightarrow> [] | Some d \<Rightarrow> [(''device_id'', d)])
   @ (case (truthy (ob_hostname obs), truthy (ob_os_family obs)) of
        (Some h, Some f) \<Rightarrow> [(''hostname_os'', py_lower h @ ''|'' @ f)] | _ \<Rightarrow> [])
   @ (case truthy (ob_mac obs) of None \<Rightarrow> [] | Some m \<Rightarrow> [(''mac'', py_lower m)])"

definition RULE_BY_IDENTIFIER_TYPE :: "string \<Rightarrow> string" where
  "RULE_BY_IDENTIFIER_TYPE ty =
     (if ty = ''device_id'' then ''device_id_match'' else if ty = ''hostname_os'' then ''hostname_os_match'' else ''mac_match'')"

subsection \<open>Statements of the worker\<close>

definition has_pin :: "string \<Rightarrow> string \<Rightarrow> string \<Rightarrow> pin_row \<Rightarrow> bool" where
  "has_pin tenant ty v p = (pn_tenant p = tenant \<and> pn_type p = ty \<and> pn_value p = v)"

definition has_ident :: "string \<Rightarrow> string \<Rightarrow> string \<Rightarrow> identity_row \<Rightarrow> bool" where
  "has_ident tenant ty v i = (id_tenant i = tenant \<and> id_type i = ty \<and> id_value i = v)"

definition pin_lookup :: "string \<Rightarrow> string \<Rightarrow> string \<Rightarrow> asset_db \<Rightarrow> string option" where
  "pin_lookup tenant ty v db = map_option pn_asset (find (has_pin tenant ty v) (ad_pins db))"

definition identity_lookup :: "string \<Rightarrow> string \<Rightarrow> string \<Rightarrow> asset_db \<Rightarrow> string option" where
  "identity_lookup tenant ty v db = map_option id_asset (find (has_ident tenant ty v) (ad_identities db))"

definition asset_device_identity :: "string \<Rightarrow> string \<Rightarrow> asset_db \<Rightarrow> string option" where
  "asset_device_identity tenant a db =
     map_option id_value (find (\<lambda>i. id_tenant i = tenant \<and> id_asset i = a \<and> id_type i = ''device_id'') (ad_identities db))"

definition coalesce :: "'a option \<Rightarrow> 'a option \<Rightarrow> 'a option" where
  "coalesce x y = (case x of None \<Rightarrow> y | Some _ \<Rightarrow> x)"

definition observe_asset :: "observation \<Rightarrow> string option \<Rightarrow> asset_row \<Rightarrow> asset_row" where
  "observe_asset obs rule r =
     r\<lparr>as_hostname := coalesce (map_option py_lower (truthy (ob_hostname obs))) (as_hostname r),
       as_os_family := coalesce (ob_os_family obs) (as_os_family r),
       as_os_name := coalesce (ob_os_name obs) (as_os_name r),
       as_os_version := coalesce (ob_os_version obs) (as_os_version r),
       as_ip := coalesce (ob_ip obs) (as_ip r),
       as_mac := coalesce (map_option py_lower (truthy (ob_mac obs))) (as_mac r),
       as_sources := (if ob_source obs \<in> set (as_sources r) then as_sources r else as_sources r @ [ob_source obs]),
       as_last_seen := max (as_last_seen r) (ob_observed_at obs),
       as_billable := (if as_agent_status r = ''revoked'' then as_billable r else True),
       as_dedup_rule := coalesce rule (as_dedup_rule r)\<rparr>"

definition update_asset :: "string \<Rightarrow> string \<Rightarrow> observation \<Rightarrow> string option \<Rightarrow> asset_db \<Rightarrow> db_error + asset_db" where
  "update_asset tenant a obs rule db =
     (if (\<exists>r \<in> set (ad_assets db). as_tenant r = tenant \<and> as_id r = a) \<and> \<not> os_family_ok (ob_os_family obs)
      then Inl (CheckViolation ''assets_os_family_check'')
      else Inr (db\<lparr>ad_assets := map (\<lambda>r. if as_tenant r = tenant \<and> as_id r = a then observe_asset obs rule r else r) (ad_assets db)\<rparr>))"

definition create_asset :: "string \<Rightarrow> string \<Rightarrow> observation \<Rightarrow> asset_db \<Rightarrow> db_error + asset_db" where
  "create_asset fresh tenant obs db =
     (if fresh \<in> as_id ` set (ad_assets db) then Inl (UniqueViolation ''assets_pkey'')
      else if \<not> os_family_ok (ob_os_family obs) then Inl (CheckViolation ''assets_os_family_check'')
      else Inr (db\<lparr>ad_assets := ad_assets db @
        [\<lparr>as_id = fresh, as_tenant = tenant, as_hostname = map_option py_lower (truthy (ob_hostname obs)),
          as_os_family = ob_os_family obs, as_os_name = ob_os_name obs, as_os_version = ob_os_version obs,
          as_ip = ob_ip obs, as_mac = map_option py_lower (truthy (ob_mac obs)), as_sources = [ob_source obs],
          as_agent_status = (if ob_source obs = ''agent'' then ''enrolled'' else ''none''),
          as_billable = True, as_state = Active, as_merged_into = None, as_dedup_rule = None,
          as_created_via = (if ob_source obs = ''agent'' then ''agent_enrollment'' else ''log_ingest''),
          as_first_seen = ob_observed_at obs, as_last_seen = ob_observed_at obs\<rparr>]\<rparr>))"

text \<open>\<^verbatim>\<open>UPSERT_IDENTITY_SQL\<close>: the flag is the returned row, \<open>None\<close> when the identifier belongs to another
  asset.\<close>

definition upsert_identity ::
  "string \<Rightarrow> string \<Rightarrow> string \<Rightarrow> observation \<Rightarrow> string \<Rightarrow> string \<Rightarrow> asset_db \<Rightarrow> asset_db \<times> bool option" where
  "upsert_identity row_id tenant a obs ty v db =
     (case find (has_ident tenant ty v) (ad_identities db) of
        None \<Rightarrow> (db\<lparr>ad_identities := ad_identities db @
            [\<lparr>id_id = row_id, id_tenant = tenant, id_asset = a, id_source = ob_source obs, id_type = ty, id_value = v,
              id_first_seen = ob_observed_at obs, id_last_seen = ob_observed_at obs\<rparr>]\<rparr>, Some True)
      | Some i \<Rightarrow>
          if id_asset i = a
          then (db\<lparr>ad_identities := map (\<lambda>i. if has_ident tenant ty v i
                 then i\<lparr>id_last_seen := max (id_last_seen i) (ob_observed_at obs)\<rparr> else i) (ad_identities db)\<rparr>, Some False)
          else (db, None))"

subsection \<open>The worker\<close>

fun resolve :: "string \<Rightarrow> observation \<Rightarrow> (string \<times> string) list \<Rightarrow> asset_db \<Rightarrow> (string \<times> string option) option" where
  "resolve tenant obs [] db = None"
| "resolve tenant obs ((ty, v) # rest) db =
     (case (case pin_lookup tenant ty v db of
              Some a \<Rightarrow> Some (a, None)
            | None \<Rightarrow> map_option (\<lambda>a. (a, Some (RULE_BY_IDENTIFIER_TYPE ty))) (identity_lookup tenant ty v db)) of
        None \<Rightarrow> resolve tenant obs rest db
      | Some (candidate, rule) \<Rightarrow>
          if ty \<noteq> ''device_id'' \<and> truthy (ob_device_id obs) \<noteq> None
             \<and> truthy (asset_device_identity tenant candidate db) \<noteq> None
             \<and> truthy (asset_device_identity tenant candidate db) \<noteq> truthy (ob_device_id obs)
          then resolve tenant obs rest db
          else Some (candidate, rule))"

definition ACTOR_ID :: string where "ACTOR_ID = ''worker-asset-dedup''"

definition merge_audit_for :: "string \<Rightarrow> string \<Rightarrow> observation \<Rightarrow> string option \<Rightarrow> string \<Rightarrow> string \<Rightarrow> merge_audit_row" where
  "merge_audit_for tenant a obs matched_rule ty v =
     \<lparr>ma_tenant = tenant, ma_asset = a,
      ma_rule = (case matched_rule of Some r \<Rightarrow> r | None \<Rightarrow> RULE_BY_IDENTIFIER_TYPE ty),
      ma_actor_type = ''system'', ma_actor_id = ACTOR_ID,
      ma_details = [(''identifier_type'', JStr ty), (''value'', JStr v), (''source'', JStr (ob_source obs))]\<rparr>"

text \<open>The identifiers come with the ids their identity rows get when they are inserted.\<close>

fun bind_identities ::
  "string \<Rightarrow> string \<Rightarrow> observation \<Rightarrow> (string \<times> string \<times> string) list \<Rightarrow> bool \<Rightarrow> string option \<Rightarrow> asset_db \<Rightarrow> asset_db" where
  "bind_identities tenant a obs [] audit_merges matched_rule db = db"
| "bind_identities tenant a obs ((row_id, ty, v) # rest) audit_merges matched_rule db =
     bind_identities tenant a obs rest audit_merges matched_rule
       (if pin_lookup tenant ty v db \<noteq> None \<and> pin_lookup tenant ty v db \<noteq> Some a then db
        else case upsert_identity row_id tenant a obs ty v db of (db1, row) \<Rightarrow>
          if row = Some True \<and> audit_merges
          then db1\<lparr>ad_merge_audit := ad_merge_audit db1 @ [merge_audit_for tenant a obs matched_rule ty v]\<rparr>
          else db1)"

definition handle_observation ::
  "string \<Rightarrow> string list \<Rightarrow> string \<Rightarrow> observation \<Rightarrow> asset_db \<Rightarrow> db_error + asset_db" where
  "handle_observation fresh row_ids tenant obs db =
     (let idents = identifiers obs; rows = zip row_ids idents in
      case resolve tenant obs idents db of
        None \<Rightarrow> rbind (create_asset fresh tenant obs db) (\<lambda>db1.
          Inr (bind_identities tenant fresh obs rows False None db1))
      | Some (a, rule) \<Rightarrow> rbind (update_asset tenant a obs rule db) (\<lambda>db1.
          Inr (bind_identities tenant a obs rows True rule db1)))"

definition malformed :: "string \<Rightarrow> obj \<Rightarrow> string \<Rightarrow> asset_db \<Rightarrow> asset_db" where
  "malformed tenant payload detail db = db\<lparr>ad_dead_letters := ad_dead_letters db @
     [dead_letter_row tenant None (if map_of payload ''source'' = Some (JStr ''agent'') then ''agent'' else ''generic'')
        ''ASSET_OBSERVATION_MALFORMED'' (Some (take 500 detail))]\<rparr>"

definition handle ::
  "(json \<Rightarrow> int option) \<Rightarrow> string \<Rightarrow> string list \<Rightarrow> string \<Rightarrow> obj \<Rightarrow> string \<Rightarrow> asset_db \<Rightarrow> db_error + (asset_db \<times> outcome)" where
  "handle parse_aware fresh row_ids tenant payload detail db =
     (case validate_observation parse_aware (JObj payload) of
        None \<Rightarrow> Inr (malformed tenant payload detail db, DeadLettered)
      | Some obs \<Rightarrow>
          if identifiers obs = [] then Inr (malformed tenant payload detail db, DeadLettered)
          else rbind (handle_observation fresh row_ids tenant obs db) (\<lambda>db1. Inr (db1, Ok)))"

subsection \<open>The inventory API\<close>

definition parse_uuid :: "string \<Rightarrow> string option" where
  "parse_uuid s = map_option uuid_str (uuid_of s)"

definition uuid_or_404 :: "string \<Rightarrow> api_error + string" where
  "uuid_or_404 s = (case parse_uuid s of None \<Rightarrow> Inl NotFound | Some u \<Rightarrow> Inr u)"

definition visible :: "string \<Rightarrow> asset_db \<Rightarrow> asset_row list" where
  "visible tenant db = filter (\<lambda>r. as_tenant r = tenant) (ad_assets db)"

definition find_asset :: "string \<Rightarrow> string \<Rightarrow> asset_db \<Rightarrow> asset_row option" where
  "find_asset tenant a db = find (\<lambda>r. as_id r = a) (visible tenant db)"

definition update_visible :: "string \<Rightarrow> (asset_row \<Rightarrow> bool) \<Rightarrow> (asset_row \<Rightarrow> asset_row) \<Rightarrow> asset_db \<Rightarrow> asset_db" where
  "update_visible tenant p f db =
     db\<lparr>ad_assets := map (\<lambda>r. if as_tenant r = tenant \<and> p r then f r else r) (ad_assets db)\<rparr>"

definition move_identities :: "string \<Rightarrow> (identity_row \<Rightarrow> bool) \<Rightarrow> string \<Rightarrow> asset_db \<Rightarrow> asset_db" where
  "move_identities tenant p target db =
     db\<lparr>ad_identities := map (\<lambda>i. if id_tenant i = tenant \<and> p i then i\<lparr>id_asset := target\<rparr> else i) (ad_identities db)\<rparr>"

text \<open>The pin upsert of merge and split.\<close>

definition upsert_pin :: "string \<Rightarrow> string \<Rightarrow> string \<Rightarrow> string \<Rightarrow> string \<Rightarrow> identity_row \<Rightarrow> asset_db \<Rightarrow> asset_db" where
  "upsert_pin tenant target origin reason user i db =
     (if list_ex (has_pin tenant (id_type i) (id_value i)) (ad_pins db)
      then db\<lparr>ad_pins := map (\<lambda>p. if has_pin tenant (id_type i) (id_value i) p
             then p\<lparr>pn_asset := target, pn_origin := origin, pn_reason := reason, pn_created_by := user\<rparr> else p) (ad_pins db)\<rparr>
      else db\<lparr>ad_pins := ad_pins db @
        [\<lparr>pn_tenant = tenant, pn_type = id_type i, pn_value = id_value i, pn_asset = target, pn_origin = origin,
          pn_reason = reason, pn_created_by = user\<rparr>]\<rparr>)"

definition move_devices :: "string \<Rightarrow> (device_row \<Rightarrow> bool) \<Rightarrow> string \<Rightarrow> asset_db \<Rightarrow> asset_db" where
  "move_devices tenant p target db =
     db\<lparr>ad_devices := map (\<lambda>d. if dv_tenant d = tenant \<and> p d then d\<lparr>dv_asset := target\<rparr> else d) (ad_devices db)\<rparr>"

fun check_mergeable :: "string \<Rightarrow> string list \<Rightarrow> asset_db \<Rightarrow> api_error + unit" where
  "check_mergeable tenant [] db = Inr ()"
| "check_mergeable tenant (a # rest) db =
     (case find_asset tenant a db of
        None \<Rightarrow> Inl NotFound
      | Some r \<Rightarrow> if as_state r \<noteq> Active then Inl (ValidationError ''Only active assets can be merged.'')
                  else check_mergeable tenant rest db)"

fun first_agent_status :: "string \<Rightarrow> string list \<Rightarrow> asset_db \<Rightarrow> string" where
  "first_agent_status tenant [] db = ''none''"
| "first_agent_status tenant (a # rest) db =
     (case find_asset tenant a db of
        Some r \<Rightarrow> if as_agent_status r \<noteq> ''none'' then as_agent_status r else first_agent_status tenant rest db
      | None \<Rightarrow> first_agent_status tenant rest db)"

definition merge_survivor :: "asset_row list \<Rightarrow> string \<Rightarrow> asset_row \<Rightarrow> asset_row" where
  "merge_survivor rows status r =
     r\<lparr>as_sources := sort (remdups (concat (map as_sources rows))), as_agent_status := status,
       as_first_seen := min (as_first_seen r) (Min (as_first_seen ` set rows)),
       as_last_seen := max (as_last_seen r) (Max (as_last_seen ` set rows)),
       as_dedup_rule := Some ''manual_merge''\<rparr>"

definition merge_away :: "string \<Rightarrow> asset_row \<Rightarrow> asset_row" where
  "merge_away survivor r = r\<lparr>as_state := Merged, as_merged_into := Some survivor, as_billable := False\<rparr>"

definition merge_into :: "session_principal \<Rightarrow> string \<Rightarrow> string list \<Rightarrow> string \<Rightarrow> asset_db \<Rightarrow> asset_db" where
  "merge_into who survivor others reason db =
     (let tenant = pr_tenant who;
          rows = filter (\<lambda>r. as_id r \<in> set (survivor # others)) (visible tenant db);
          moved = filter (\<lambda>i. id_tenant i = tenant \<and> id_asset i \<in> set others) (ad_identities db);
          db1 = move_identities tenant (\<lambda>i. id_asset i \<in> set others) survivor db;
          db2 = foldl (\<lambda>d i. upsert_pin tenant survivor ''merge'' reason (pr_user who) i d) db1 moved;
          db3 = move_devices tenant (\<lambda>d. dv_asset d \<in> set others) survivor db2;
          status = (case find_asset tenant survivor db of None \<Rightarrow> ''none'' | Some r \<Rightarrow>
             if as_agent_status r = ''none'' then first_agent_status tenant others db else as_agent_status r);
          db4 = update_visible tenant (\<lambda>r. as_id r = survivor) (merge_survivor rows status) db3;
          db5 = update_visible tenant (\<lambda>r. as_id r \<in> set others) (merge_away survivor) db4 in
      db5\<lparr>ad_merge_audit := ad_merge_audit db5 @
            [\<lparr>ma_tenant = tenant, ma_asset = survivor, ma_rule = ''manual_merge'', ma_actor_type = ''user'',
              ma_actor_id = pr_user who,
              ma_details = [(''merged_asset_ids'', JList (map JStr others)),
                 (''moved_identities'', JList (map (JStr \<circ> id_id) moved)), (''reason'', JStr reason)]\<rparr>],
          ad_audit := ad_audit db5 @
            [\<lparr>au_tenant = tenant, au_actor_type = ''user'', au_actor_id = pr_user who, au_action = ''asset.merge'',
              au_target_type = ''asset'', au_target_id = survivor,
              au_after = [(''merged_asset_ids'', JList (map JStr others)), (''reason'', JStr reason)],
              au_reason_code = None\<rparr>]\<rparr>)"

definition merge_assets :: "session_principal \<Rightarrow> string list \<Rightarrow> string \<Rightarrow> asset_db \<Rightarrow> api_error + asset_db" where
  "merge_assets who asset_ids reason db =
     rbind (rmap uuid_or_404 (dict_fromkeys [] asset_ids)) (\<lambda>ids.
       case ids of
         survivor # o1 # os \<Rightarrow>
           rbind (check_mergeable (pr_tenant who) ids db) (\<lambda>_.
             Inr (merge_into who survivor (o1 # os) reason db))
       | _ \<Rightarrow> Inl (ValidationError ''merge requires >=2 distinct asset_ids.''))"

text \<open>Split: the hostname of the new asset is the host part of the last moved \<^verbatim>\<open>hostname_os\<close> identity, else
  the original's.\<close>

definition split_hostname :: "string option \<Rightarrow> identity_row list \<Rightarrow> string option" where
  "split_hostname original idents =
     foldl (\<lambda>h i. if id_type i = ''hostname_os'' \<and> CHR ''|'' \<in> set (id_value i)
                  then Some (takeWhile (\<lambda>c. c \<noteq> CHR ''|'') (id_value i)) else h) original idents"

definition parse_identity_ids :: "string list \<Rightarrow> api_error + string list" where
  "parse_identity_ids xs = rmap (\<lambda>s. case parse_uuid s of
     None \<Rightarrow> Inl (ValidationError ''identity_ids must be identity UUIDs'') | Some u \<Rightarrow> Inr u) (dict_fromkeys [] xs)"

definition split_row :: "string \<Rightarrow> string \<Rightarrow> asset_row \<Rightarrow> identity_row list \<Rightarrow> string list \<Rightarrow> asset_row" where
  "split_row tenant fresh original idents moved_device_ids =
     \<lparr>as_id = fresh, as_tenant = tenant, as_hostname = split_hostname (as_hostname original) idents,
      as_os_family = as_os_family original, as_os_name = as_os_name original,
      as_os_version = as_os_version original, as_ip = None, as_mac = None,
      as_sources = sort (remdups (map id_source idents)),
      as_agent_status = (if moved_device_ids \<noteq> [] then as_agent_status original else ''none''),
      as_billable = False, as_state = Active, as_merged_into = None, as_dedup_rule = Some ''manual_split'',
      as_created_via = ''manual_split'', as_first_seen = Min (id_first_seen ` set idents),
      as_last_seen = Max (id_last_seen ` set idents)\<rparr>"

definition split_off ::
  "session_principal \<Rightarrow> string \<Rightarrow> asset_row \<Rightarrow> string list \<Rightarrow> identity_row list \<Rightarrow> string \<Rightarrow> asset_db \<Rightarrow> asset_db" where
  "split_off who fresh original identity_ids idents reason db =
     (let tenant = pr_tenant who; a = as_id original;
          moved_device_ids = map id_value (filter (\<lambda>i. id_type i = ''device_id'') idents);
          db1 = db\<lparr>ad_assets := ad_assets db @ [split_row tenant fresh original idents moved_device_ids]\<rparr>;
          db2 = move_identities tenant (\<lambda>i. id_id i \<in> set identity_ids) fresh db1;
          db3 = foldl (\<lambda>d i. upsert_pin tenant fresh ''split'' reason (pr_user who) i d) db2 idents;
          db4 = (if moved_device_ids \<noteq> []
                 then update_visible tenant (\<lambda>r. as_id r = a) (\<lambda>r. r\<lparr>as_agent_status := ''none''\<rparr>)
                        (move_devices tenant (\<lambda>d. dv_id d \<in> set moved_device_ids) fresh db3)
                 else db3);
          trail = (\<lambda>target direction counterpart.
             \<lparr>ma_tenant = tenant, ma_asset = target, ma_rule = ''manual_split'', ma_actor_type = ''user'',
              ma_actor_id = pr_user who,
              ma_details = [(''direction'', JStr direction), (''counterpart_asset_id'', JStr counterpart),
                 (''identity_ids'', JList (map JStr identity_ids)), (''reason'', JStr reason)]\<rparr>) in
      db4\<lparr>ad_merge_audit := ad_merge_audit db4 @ [trail a ''split_from'' fresh, trail fresh ''split_to'' a],
          ad_audit := ad_audit db4 @
            [\<lparr>au_tenant = tenant, au_actor_type = ''user'', au_actor_id = pr_user who, au_action = ''asset.split'',
              au_target_type = ''asset'', au_target_id = a,
              au_after = [(''new_asset_id'', JStr fresh), (''identity_ids'', JList (map JStr identity_ids)),
                (''reason'', JStr reason)], au_reason_code = None\<rparr>]\<rparr>)"

definition split_asset ::
  "session_principal \<Rightarrow> string \<Rightarrow> string \<Rightarrow> string list \<Rightarrow> string \<Rightarrow> asset_db \<Rightarrow> api_error + asset_db" where
  "split_asset who fresh asset_id identity_ids_arg reason db =
     rbind (uuid_or_404 asset_id) (\<lambda>a.
     rbind (parse_identity_ids identity_ids_arg) (\<lambda>identity_ids.
       case find (\<lambda>r. as_id r = a \<and> as_state r = Active) (visible (pr_tenant who) db) of
         None \<Rightarrow> Inl NotFound
       | Some original \<Rightarrow>
           (let idents = filter (\<lambda>i. id_tenant i = pr_tenant who \<and> id_id i \<in> set identity_ids \<and> id_asset i = a)
                           (ad_identities db) in
            if length idents \<noteq> length identity_ids
            then Inl (ValidationError ''All identity_ids must belong to the asset being split.'')
            else Inr (split_off who fresh original identity_ids idents reason db))))"

text \<open>\<^verbatim>\<open>_BILLABLE_COUNT_SQL\<close>, with the window in days.\<close>

definition billable_count :: "string \<Rightarrow> int \<Rightarrow> int \<Rightarrow> asset_db \<Rightarrow> nat" where
  "billable_count tenant window_days now db =
     length (filter (\<lambda>r. as_state r = Active \<and> as_agent_status r \<noteq> ''revoked''
        \<and> as_last_seen r \<ge> now - window_days * 86400000000) (visible tenant db))"

record asset_filter =
  af_source :: "string option"
  af_agent_status :: "string option"
  af_billable :: "bool option"
  af_q :: "string option"

definition asset_where :: "asset_filter \<Rightarrow> asset_row \<Rightarrow> bool" where
  "asset_where f r \<longleftrightarrow> as_state r = Active
     \<and> (case truthy (af_source f) of None \<Rightarrow> True | Some s \<Rightarrow> s \<in> set (as_sources r))
     \<and> (case truthy (af_agent_status f) of None \<Rightarrow> True | Some s \<Rightarrow> as_agent_status r = s)
     \<and> (case af_billable f of None \<Rightarrow> True | Some b \<Rightarrow> as_billable r = b)
     \<and> (case truthy (af_q f) of None \<Rightarrow> True
        | Some q \<Rightarrow> (case as_hostname r of None \<Rightarrow> False | Some h \<Rightarrow> str_contains (py_lower h) (py_lower q)))"

definition asset_key :: "asset_row \<Rightarrow> int \<times> string" where
  "asset_key r = (- as_last_seen r, as_id r)"

definition asset_keyset :: "int \<Rightarrow> string \<Rightarrow> asset_row \<Rightarrow> bool" where
  "asset_keyset ls aid r \<longleftrightarrow> as_last_seen r < ls \<or> (as_last_seen r = ls \<and> as_id r > aid)"

record asset_page =
  ap_items :: "asset_row list"
  ap_next :: "(int \<times> string) option"
  ap_total :: nat

definition list_assets :: "session_principal \<Rightarrow> asset_filter \<Rightarrow> int option \<Rightarrow> (int \<times> string) option \<Rightarrow> asset_db \<Rightarrow> api_error + asset_page" where
  "list_assets who filt limit cursor db =
     rbind (clamp_limit limit) (\<lambda>page_limit.
       let matching = filter (\<lambda>r. asset_where filt r \<and> (case cursor of None \<Rightarrow> True | Some (ls, aid) \<Rightarrow> asset_keyset ls aid r))
             (visible (pr_tenant who) db);
           rows = take (nat page_limit + 1) (sort_key asset_key matching);
           page_rows = take (nat page_limit) rows in
       Inr \<lparr>ap_items = page_rows,
            ap_next = (if length rows > nat page_limit \<and> page_rows \<noteq> []
               then Some (as_last_seen (last page_rows), as_id (last page_rows)) else None),
            ap_total = length matching\<rparr>)"

record asset_detail =
  de_asset :: asset_row
  de_identities :: "identity_row list"
  de_merge_audit :: "merge_audit_row list"

definition asset_detail_of :: "string \<Rightarrow> string \<Rightarrow> asset_db \<Rightarrow> api_error + asset_detail" where
  "asset_detail_of tenant a db =
     (case find_asset tenant a db of
        None \<Rightarrow> Inl NotFound
      | Some r \<Rightarrow> Inr \<lparr>de_asset = r,
          de_identities = sort_key id_first_seen (filter (\<lambda>i. id_tenant i = tenant \<and> id_asset i = a) (ad_identities db)),
          de_merge_audit = filter (\<lambda>m. ma_tenant m = tenant \<and> ma_asset m = a) (ad_merge_audit db)\<rparr>)"

definition get_asset :: "session_principal \<Rightarrow> string \<Rightarrow> asset_db \<Rightarrow> api_error + asset_detail" where
  "get_asset who asset_id db = rbind (uuid_or_404 asset_id) (\<lambda>a. asset_detail_of (pr_tenant who) a db)"

subsection \<open>The invariant of the tables\<close>

definition ident_key :: "identity_row \<Rightarrow> string \<times> string \<times> string" where
  "ident_key i = (id_tenant i, id_type i, id_value i)"

definition pin_key :: "pin_row \<Rightarrow> string \<times> string \<times> string" where
  "pin_key p = (pn_tenant p, pn_type p, pn_value p)"

definition asset_active :: "asset_row list \<Rightarrow> string \<Rightarrow> string \<Rightarrow> bool" where
  "asset_active rows tenant a \<longleftrightarrow> (\<exists>r \<in> set rows. as_tenant r = tenant \<and> as_id r = a \<and> as_state r = Active)"

definition idents_ok :: "asset_row list \<Rightarrow> identity_row list \<Rightarrow> bool" where
  "idents_ok rows is \<longleftrightarrow> distinct (map id_id is) \<and> distinct (map ident_key is)
     \<and> (\<forall>i \<in> set is. asset_active rows (id_tenant i) (id_asset i) \<and> id_value i \<noteq> [])"

definition pins_ok :: "identity_row list \<Rightarrow> pin_row list \<Rightarrow> bool" where
  "pins_ok is ps \<longleftrightarrow> distinct (map pin_key ps)
     \<and> (\<forall>p \<in> set ps. \<exists>i \<in> set is. ident_key i = pin_key p \<and> id_asset i = pn_asset p)"

definition inventory_ok :: "asset_db \<Rightarrow> bool" where
  "inventory_ok db \<longleftrightarrow> distinct (map as_id (ad_assets db)) \<and> idents_ok (ad_assets db) (ad_identities db)
     \<and> pins_ok (ad_identities db) (ad_pins db)"

lemma has_ident_iff: "has_ident t ty v i \<longleftrightarrow> ident_key i = (t, ty, v)"
  by (auto simp: has_ident_def ident_key_def)

lemma has_pin_iff: "has_pin t ty v p \<longleftrightarrow> pin_key p = (t, ty, v)"
  by (auto simp: has_pin_def pin_key_def)

lemma find_key:
  assumes "distinct (map f xs)"
  shows "find (\<lambda>x. f x = k) xs = Some x \<longleftrightarrow> x \<in> set xs \<and> f x = k"
  using assms
proof (induction xs)
  case (Cons y ys)
  then show ?case by (cases "f y = k") (auto simp: image_iff)
qed simp

lemma find_key_None: "find (\<lambda>x. f x = k) xs = None \<longleftrightarrow> k \<notin> f ` set xs"
  by (auto simp: find_None_iff)

lemma identity_lookup_iff:
  assumes "idents_ok rows (ad_identities db)"
  shows "identity_lookup t ty v db = Some a \<longleftrightarrow> (\<exists>i \<in> set (ad_identities db). ident_key i = (t, ty, v) \<and> id_asset i = a)"
proof -
  have d: "distinct (map ident_key (ad_identities db))" using assms by (simp add: idents_ok_def)
  show ?thesis
    unfolding identity_lookup_def has_ident_iff using find_key [OF d, of "(t, ty, v)"]
    by auto
qed

lemma pin_lookup_iff:
  assumes "pins_ok is (ad_pins db)"
  shows "pin_lookup t ty v db = Some a \<longleftrightarrow> (\<exists>p \<in> set (ad_pins db). pin_key p = (t, ty, v) \<and> pn_asset p = a)"
proof -
  have d: "distinct (map pin_key (ad_pins db))" using assms by (simp add: pins_ok_def)
  show ?thesis
    unfolding pin_lookup_def has_pin_iff using find_key [OF d, of "(t, ty, v)"] by auto
qed

lemma pin_agrees:
  assumes "inventory_ok db" "pin_lookup t ty v db = Some a"
  shows "identity_lookup t ty v db = Some a"
proof -
  have ok: "idents_ok (ad_assets db) (ad_identities db)" "pins_ok (ad_identities db) (ad_pins db)"
    using assms(1) by (simp_all add: inventory_ok_def)
  obtain p where "p \<in> set (ad_pins db)" "pin_key p = (t, ty, v)" "pn_asset p = a"
    using assms(2) unfolding pin_lookup_iff [OF ok(2)] by blast
  with ok(2) have "\<exists>i \<in> set (ad_identities db). ident_key i = (t, ty, v) \<and> id_asset i = a"
    unfolding pins_ok_def by metis
  then show ?thesis unfolding identity_lookup_iff [OF ok(1)] .
qed

text \<open>What a match tells: the identifier was bound to the asset, and a match by host name or MAC of an
  observation with a device id is no asset of another device.\<close>

lemma resolve_bound:
  assumes "inventory_ok db"
  shows "resolve t obs idents db = Some (a, rule) \<Longrightarrow> \<exists>ty v. (ty, v) \<in> set idents \<and> identity_lookup t ty v db = Some a
     \<and> (ty = ''device_id'' \<or> truthy (ob_device_id obs) = None \<or> truthy (asset_device_identity t a db) = None
        \<or> truthy (asset_device_identity t a db) = truthy (ob_device_id obs))"
proof (induction idents)
  case (Cons e rest)
  obtain ty v where e: "e = (ty, v)" by fastforce
  define cand where "cand = (case pin_lookup t ty v db of Some a \<Rightarrow> Some (a, None)
      | None \<Rightarrow> map_option (\<lambda>a. (a, Some (RULE_BY_IDENTIFIER_TYPE ty))) (identity_lookup t ty v db))"
  have cand: "identity_lookup t ty v db = Some c" if "cand = Some (c, r)" for c r
    using that pin_agrees [OF assms, of t ty v] by (auto simp: cand_def split: option.splits)
  have step: "resolve t obs (e # rest) db = (case cand of None \<Rightarrow> resolve t obs rest db
      | Some (c, r) \<Rightarrow> if ty \<noteq> ''device_id'' \<and> truthy (ob_device_id obs) \<noteq> None
             \<and> truthy (asset_device_identity t c db) \<noteq> None
             \<and> truthy (asset_device_identity t c db) \<noteq> truthy (ob_device_id obs)
          then resolve t obs rest db else Some (c, r))"
    by (simp add: e cand_def)
  show ?case
  proof (cases "resolve t obs rest db = Some (a, rule)")
    case True
    from Cons.IH [OF this] show ?thesis by auto
  next
    case False
    then obtain r where "cand = Some (a, r)"
        "\<not> (ty \<noteq> ''device_id'' \<and> truthy (ob_device_id obs) \<noteq> None \<and> truthy (asset_device_identity t a db) \<noteq> None
             \<and> truthy (asset_device_identity t a db) \<noteq> truthy (ob_device_id obs))"
      using Cons.prems unfolding step by (auto split: option.splits if_splits prod.splits)
    with cand [of a r] show ?thesis by (intro exI [of _ ty] exI [of _ v]) (simp add: e)
  qed
qed simp

lemma bound_active:
  assumes "inventory_ok db" "identity_lookup t ty v db = Some a"
  shows "asset_active (ad_assets db) t a"
proof -
  have ok: "idents_ok (ad_assets db) (ad_identities db)" using assms(1) by (simp add: inventory_ok_def)
  obtain i where "i \<in> set (ad_identities db)" "ident_key i = (t, ty, v)" "id_asset i = a"
    using assms(2) unfolding identity_lookup_iff [OF ok] by blast
  with ok show ?thesis unfolding idents_ok_def ident_key_def by auto
qed

subsection \<open>The worker keeps it\<close>

text \<open>What a binding step may change: rows of the identity table keep their key, id and asset, and new
  rows may be added.\<close>

definition extends :: "identity_row list \<Rightarrow> identity_row list \<Rightarrow> bool" where
  "extends is js \<longleftrightarrow> (\<exists>f new. js = map f is @ new \<and> (\<forall>i. ident_key (f i) = ident_key i \<and> id_asset (f i) = id_asset i))"

lemma extends_refl: "extends is is"
  unfolding extends_def by (intro exI [of _ id] exI [of _ "[]"]) simp

lemma extends_trans: "extends is js \<Longrightarrow> extends js ks \<Longrightarrow> extends is ks"
proof -
  assume "extends is js" "extends js ks"
  then obtain f g n m where "js = map f is @ n" "ks = map g js @ m"
      "\<And>i. ident_key (f i) = ident_key i \<and> id_asset (f i) = id_asset i"
      "\<And>i. ident_key (g i) = ident_key i \<and> id_asset (g i) = id_asset i"
    unfolding extends_def by blast
  then show ?thesis unfolding extends_def
    by (intro exI [of _ "g \<circ> f"] exI [of _ "map g n @ m"]) simp
qed

lemma extends_member: "extends is js \<Longrightarrow> i \<in> set is \<Longrightarrow> \<exists>j \<in> set js. ident_key j = ident_key i \<and> id_asset j = id_asset i"
  unfolding extends_def by fastforce

lemma pins_ok_extends: "pins_ok is ps \<Longrightarrow> extends is js \<Longrightarrow> pins_ok js ps"
  unfolding pins_ok_def by (metis extends_member)

lemma asset_active_update:
  assumes "\<And>r. as_id (f r) = as_id r \<and> as_tenant (f r) = as_tenant r \<and> (as_state r = Active \<longrightarrow> as_state (f r) = Active)"
    and "asset_active rows t a"
  shows "asset_active (map f rows) t a"
  using assms unfolding asset_active_def by (metis image_eqI list.set_map)

lemma asset_active_append: "asset_active rows t a \<Longrightarrow> asset_active (rows @ new) t a"
  by (auto simp: asset_active_def)

lemma idents_ok_assets:
  assumes "idents_ok rows is" "\<And>t a. asset_active rows t a \<Longrightarrow> asset_active rows' t a"
  shows "idents_ok rows' is"
  using assms by (simp add: idents_ok_def)

lemma upsert_identity_cases:
  assumes "upsert_identity row_id t a obs ty v db = (db', flag)"
  obtains f new where "db' = db\<lparr>ad_identities := map f (ad_identities db) @ new\<rparr>"
    "\<And>i. ident_key (f i) = ident_key i" "\<And>i. id_asset (f i) = id_asset i" "\<And>i. id_id (f i) = id_id i"
    "\<And>i. id_value (f i) = id_value i" "\<And>i. id_tenant (f i) = id_tenant i"
    "new = [] \<or> (\<exists>n. new = [n] \<and> id_id n = row_id \<and> ident_key n = (t, ty, v) \<and> id_asset n = a
        \<and> (t, ty, v) \<notin> ident_key ` set (ad_identities db))"
proof (cases "find (has_ident t ty v) (ad_identities db)")
  case None
  then have "(t, ty, v) \<notin> ident_key ` set (ad_identities db)"
    by (auto simp: find_None_iff has_ident_iff)
  then show ?thesis
    using assms None by (intro that [of id "[_]"]) (auto simp: upsert_identity_def ident_key_def)
next
  case (Some i)
  define f where "f = (\<lambda>i. if id_asset (the (find (has_ident t ty v) (ad_identities db))) = a \<and> has_ident t ty v i
     then i\<lparr>id_last_seen := max (id_last_seen i) (ob_observed_at obs)\<rparr> else i)"
  have "db' = db\<lparr>ad_identities := map f (ad_identities db) @ []\<rparr>"
    using assms Some by (auto simp: upsert_identity_def f_def split: if_splits)
  then show ?thesis
    by (rule that) (simp_all add: f_def ident_key_def)
qed

definition binding_step :: "(string \<times> string) set \<Rightarrow> string \<Rightarrow> string \<Rightarrow> asset_db \<Rightarrow> asset_db \<Rightarrow> bool" where
  "binding_step K t a db db' \<longleftrightarrow> ad_assets db' = ad_assets db \<and> ad_pins db' = ad_pins db
     \<and> extends (ad_identities db) (ad_identities db')
     \<and> (\<forall>j \<in> set (ad_identities db'). (\<exists>i \<in> set (ad_identities db). ident_key i = ident_key j \<and> id_asset i = id_asset j)
          \<or> id_asset j = a \<and> id_tenant j = t \<and> (id_type j, id_value j) \<in> K)"

lemma binding_step_trans:
  assumes "binding_step K t a db1 db2" "binding_step K t a db2 db3"
  shows "binding_step K t a db1 db3"
proof -
  have e: "extends (ad_identities db1) (ad_identities db3)"
    using assms extends_trans unfolding binding_step_def by blast
  have "(\<exists>i \<in> set (ad_identities db1). ident_key i = ident_key j \<and> id_asset i = id_asset j) \<or> id_asset j = a \<and> id_tenant j = t \<and> (id_type j, id_value j) \<in> K"
    if j: "j \<in> set (ad_identities db3)" for j
  proof (cases "id_asset j = a \<and> id_tenant j = t \<and> (id_type j, id_value j) \<in> K")
    case False
    with assms(2) j obtain k where k: "k \<in> set (ad_identities db2)" "ident_key k = ident_key j" "id_asset k = id_asset j"
      unfolding binding_step_def by metis
    have "\<not> (id_asset k = a \<and> id_tenant k = t \<and> (id_type k, id_value k) \<in> K)" using False k(2,3) by (simp add: ident_key_def)
    with assms(1) k show ?thesis unfolding binding_step_def by metis
  qed simp
  with e assms show ?thesis unfolding binding_step_def by simp
qed

lemma idents_ok_map:
  assumes "\<And>i. ident_key (f i) = ident_key i" "\<And>i. id_asset (f i) = id_asset i" "\<And>i. id_id (f i) = id_id i"
  shows "idents_ok rows (map f is) \<longleftrightarrow> idents_ok rows is"
proof -
  have k: "id_tenant (f i) = id_tenant i" "id_value (f i) = id_value i" for i
    using assms(1) [of i] by (simp_all add: ident_key_def)
  have "ident_key \<circ> f = ident_key" "id_id \<circ> f = id_id" using assms by auto
  then show ?thesis by (simp add: idents_ok_def k assms(2))
qed

lemma idents_ok_snoc:
  "idents_ok rows is \<Longrightarrow> id_id n \<notin> id_id ` set is \<Longrightarrow> ident_key n \<notin> ident_key ` set is \<Longrightarrow>
   asset_active rows (id_tenant n) (id_asset n) \<Longrightarrow> id_value n \<noteq> [] \<Longrightarrow> idents_ok rows (is @ [n])"
  by (simp add: idents_ok_def)

lemma upsert_identity_step:
  assumes up: "upsert_identity row_id t a obs ty v db = (db', flag)" and ok: "idents_ok (ad_assets db) (ad_identities db)"
    and fresh: "row_id \<notin> id_id ` set (ad_identities db)" and a: "asset_active (ad_assets db) t a" and v: "v \<noteq> []"
    and K: "(ty, v) \<in> K"
  shows "binding_step K t a db db' \<and> idents_ok (ad_assets db') (ad_identities db')
     \<and> id_id ` set (ad_identities db') \<subseteq> insert row_id (id_id ` set (ad_identities db))"
proof -
  obtain f new where db': "db' = db\<lparr>ad_identities := map f (ad_identities db) @ new\<rparr>"
    and f: "\<And>i. ident_key (f i) = ident_key i" "\<And>i. id_asset (f i) = id_asset i" "\<And>i. id_id (f i) = id_id i"
      "\<And>i. id_value (f i) = id_value i" "\<And>i. id_tenant (f i) = id_tenant i"
    and new: "new = [] \<or> (\<exists>n. new = [n] \<and> id_id n = row_id \<and> ident_key n = (t, ty, v) \<and> id_asset n = a
        \<and> (t, ty, v) \<notin> ident_key ` set (ad_identities db))"
    by (rule upsert_identity_cases [OF up]) (rule that)
  have ext: "extends (ad_identities db) (ad_identities db')"
    unfolding extends_def db' using f(1,2) by (intro exI [of _ f] exI [of _ new]) simp
  have old: "idents_ok (ad_assets db) (map f (ad_identities db))"
    using ok by (simp add: idents_ok_map f)
  have img: "id_id ` set (map f (ad_identities db)) = id_id ` set (ad_identities db)"
      "ident_key ` set (map f (ad_identities db)) = ident_key ` set (ad_identities db)"
    by (simp_all add: image_image f)
  have mem: "\<exists>i \<in> set (ad_identities db). ident_key i = ident_key j \<and> id_asset i = id_asset j"
    if "j \<in> set (map f (ad_identities db))" for j
    using that f by auto
  show ?thesis
  proof (cases "new = []")
    case True
    then show ?thesis using ext old img mem by (simp add: binding_step_def db') blast
  next
    case False
    with new obtain n where n: "new = [n]" "id_id n = row_id" "ident_key n = (t, ty, v)" "id_asset n = a"
        "(t, ty, v) \<notin> ident_key ` set (ad_identities db)" by blast
    have nk: "id_tenant n = t" "id_value n = v" "id_type n = ty" using n(3) by (simp_all add: ident_key_def)
    have "idents_ok (ad_assets db) (map f (ad_identities db) @ [n])"
      by (rule idents_ok_snoc [OF old]) (use img n nk fresh a v in simp_all)
    then show ?thesis using ext img mem n nk K by (auto simp: binding_step_def db')
  qed
qed

lemma bind_identities_step:
  assumes "idents_ok (ad_assets db) (ad_identities db)" "asset_active (ad_assets db) t a"
    and "distinct (map fst rows)" "fst ` set rows \<inter> id_id ` set (ad_identities db) = {}"
    and "\<forall>(r, ty, v) \<in> set rows. v \<noteq> []" "snd ` set rows \<subseteq> K"
  shows "binding_step K t a db (bind_identities t a obs rows audit rule db)
     \<and> idents_ok (ad_assets db) (ad_identities (bind_identities t a obs rows audit rule db))"
  using assms
proof (induction rows arbitrary: db)
  case Nil
  then show ?case by (auto simp: binding_step_def extends_refl)
next
  case (Cons row rows)
  obtain row_id ty v where row: "row = (row_id, ty, v)" by (cases row) auto
  define db1 where "db1 = (if pin_lookup t ty v db \<noteq> None \<and> pin_lookup t ty v db \<noteq> Some a then db
        else case upsert_identity row_id t a obs ty v db of (db1, row) \<Rightarrow>
          if row = Some True \<and> audit
          then db1\<lparr>ad_merge_audit := ad_merge_audit db1 @ [merge_audit_for t a obs rule ty v]\<rparr> else db1)"
  have one: "binding_step K t a db db1 \<and> idents_ok (ad_assets db1) (ad_identities db1)
     \<and> id_id ` set (ad_identities db1) \<subseteq> insert row_id (id_id ` set (ad_identities db))"
  proof (cases "pin_lookup t ty v db \<noteq> None \<and> pin_lookup t ty v db \<noteq> Some a")
    case True
    then show ?thesis using Cons.prems(1) by (auto simp: db1_def binding_step_def extends_refl)
  next
    case False
    obtain db' flag where up: "upsert_identity row_id t a obs ty v db = (db', flag)" by fastforce
    have "row_id \<notin> id_id ` set (ad_identities db)" "v \<noteq> []" "(ty, v) \<in> K" using Cons.prems(4-6) by (auto simp: row)
    from upsert_identity_step [OF up Cons.prems(1) this(1) Cons.prems(2) this(2,3)]
    show ?thesis
      unfolding db1_def if_not_P [OF False] up by (auto simp: binding_step_def)
  qed
  have same: "ad_assets db1 = ad_assets db" using one by (simp add: binding_step_def)
  have "fst ` set rows \<inter> id_id ` set (ad_identities db1) = {}"
  proof -
    have "fst ` set rows \<inter> insert row_id (id_id ` set (ad_identities db)) = {}"
      using Cons.prems(3,4) by (simp add: row disjoint_iff)
    with one show ?thesis by blast
  qed
  then have "binding_step K t a db1 (bind_identities t a obs rows audit rule db1)
     \<and> idents_ok (ad_assets db1) (ad_identities (bind_identities t a obs rows audit rule db1))"
    using Cons.prems one same by (intro Cons.IH) auto
  note rest = this
  have eq: "bind_identities t a obs (row # rows) audit rule db = bind_identities t a obs rows audit rule db1"
    unfolding row bind_identities.simps db1_def ..
  from one have "binding_step K t a db db1" by (rule conjunct1)
  from binding_step_trans [OF this conjunct1 [OF rest]] conjunct2 [OF rest] same show ?case unfolding eq by simp
qed

definition row_ids_ok :: "string list \<Rightarrow> asset_db \<Rightarrow> bool" where
  "row_ids_ok ids db \<longleftrightarrow> 3 \<le> length ids \<and> distinct ids \<and> set ids \<inter> id_id ` set (ad_identities db) = {}"

lemma truthy_Some: "truthy f = Some s \<longleftrightarrow> f = Some s \<and> s \<noteq> []"
  by (auto simp: truthy_def split: option.splits)

lemma identifiers_nonempty: "(ty, v) \<in> set (identifiers obs) \<Longrightarrow> v \<noteq> []"
  by (auto simp: identifiers_def truthy_def py_lower_def split: option.splits if_splits)

lemma identifiers_device: "(''device_id'', d) \<in> set (identifiers obs) \<longleftrightarrow> truthy (ob_device_id obs) = Some d"
  by (auto simp: identifiers_def split: option.splits)

lemma zip_ids:
  assumes "distinct ids"
  shows "distinct (map fst (zip ids idents))" "fst ` set (zip ids idents) \<subseteq> set ids"
proof -
  show "distinct (map fst (zip ids idents))" using assms by (simp add: map_fst_zip_take)
  show "fst ` set (zip ids idents) \<subseteq> set ids" by (auto dest: set_zip_leftD)
qed

lemma bind_after:
  assumes ok: "idents_ok (ad_assets db1) (ad_identities db)" "pins_ok (ad_identities db) (ad_pins db)"
    and same: "ad_identities db1 = ad_identities db" "ad_pins db1 = ad_pins db" "distinct (map as_id (ad_assets db1))"
    and a: "asset_active (ad_assets db1) t a" and ids: "row_ids_ok ids db"
    and db'_def: "db' = bind_identities t a obs (zip ids (identifiers obs)) audit rule db1"
  shows "inventory_ok db' \<and> binding_step (set (identifiers obs)) t a db1 db'"
proof -
  let ?rows = "zip ids (identifiers obs)"
  have "\<forall>(r, ty, v) \<in> set ?rows. v \<noteq> []" using identifiers_nonempty by (auto dest: set_zip_rightD)
  moreover have "distinct (map fst ?rows)" using ids by (simp add: row_ids_ok_def zip_ids(1) del: map_zip_map)
  moreover have "fst ` set ?rows \<inter> id_id ` set (ad_identities db1) = {}"
    using ids zip_ids(2) [of ids "identifiers obs"] same unfolding row_ids_ok_def by auto
  moreover have "snd ` set ?rows \<subseteq> set (identifiers obs)" by (auto dest: set_zip_rightD)
  ultimately have b: "binding_step (set (identifiers obs)) t a db1 db' \<and> idents_ok (ad_assets db1) (ad_identities db')"
    unfolding db'_def using ok(1) same a by (intro bind_identities_step) simp_all
  have "pins_ok (ad_identities db') (ad_pins db')"
    using b ok(2) same pins_ok_extends unfolding binding_step_def by metis
  with b same show ?thesis by (simp add: inventory_ok_def binding_step_def)
qed

lemma handle_observation_cases:
  assumes ok: "inventory_ok db" and ids: "row_ids_ok ids db"
    and run: "handle_observation fresh ids t obs db = Inr db'"
  obtains a db1 where "inventory_ok db'" "binding_step (set (identifiers obs)) t a db1 db'" "ad_identities db1 = ad_identities db"
      "ad_pins db1 = ad_pins db"
      "fresh \<notin> as_id ` set (ad_assets db) \<and> a = fresh \<and> resolve t obs (identifiers obs) db = None
       \<or> (\<exists>rule. resolve t obs (identifiers obs) db = Some (a, rule))"
proof (cases "resolve t obs (identifiers obs) db")
  case None
  with run obtain db1 where db1: "create_asset fresh t obs db = Inr db1"
      and db': "db' = bind_identities t fresh obs (zip ids (identifiers obs)) False None db1"
    by (auto simp: handle_observation_def rbind_Inr_iff)
  have f: "fresh \<notin> as_id ` set (ad_assets db)" "ad_identities db1 = ad_identities db" "ad_pins db1 = ad_pins db"
      "\<exists>r. ad_assets db1 = ad_assets db @ [r] \<and> as_id r = fresh \<and> as_tenant r = t \<and> as_state r = Active"
    using db1 by (auto simp: create_asset_def split: if_splits)
  then obtain r where r: "ad_assets db1 = ad_assets db @ [r]" "as_id r = fresh" "as_tenant r = t" "as_state r = Active"
    by blast
  have "inventory_ok db' \<and> binding_step (set (identifiers obs)) t fresh db1 db'"
  proof (rule bind_after [OF _ _ f(2,3) _ _ ids db'])
    show "idents_ok (ad_assets db1) (ad_identities db)"
      using ok asset_active_append unfolding r(1) inventory_ok_def by (blast intro: idents_ok_assets)
    show "pins_ok (ad_identities db) (ad_pins db)" using ok by (simp add: inventory_ok_def)
    show "distinct (map as_id (ad_assets db1))" using ok f(1) r by (simp add: inventory_ok_def)
    show "asset_active (ad_assets db1) t fresh" using r by (simp add: asset_active_def)
  qed
  with f None show ?thesis by (intro that [of fresh db1]) simp_all
next
  case (Some x)
  obtain a rule where x: "x = (a, rule)" by fastforce
  with run Some obtain db1 where db1: "update_asset t a obs rule db = Inr db1"
      and db': "db' = bind_identities t a obs (zip ids (identifiers obs)) True rule db1"
    by (auto simp: handle_observation_def rbind_Inr_iff)
  have f: "ad_identities db1 = ad_identities db" "ad_pins db1 = ad_pins db"
      "ad_assets db1 = map (\<lambda>r. if as_tenant r = t \<and> as_id r = a then observe_asset obs rule r else r) (ad_assets db)"
    using db1 by (auto simp: update_asset_def split: if_splits)
  have keep: "asset_active (ad_assets db) t' a' \<Longrightarrow> asset_active (ad_assets db1) t' a'" for t' a'
    unfolding f(3) by (rule asset_active_update) (simp_all add: observe_asset_def)
  have "asset_active (ad_assets db) t a"
    using resolve_bound [OF ok, of t obs "identifiers obs" a rule] Some x bound_active [OF ok] by auto
  have "inventory_ok db' \<and> binding_step (set (identifiers obs)) t a db1 db'"
  proof (rule bind_after [OF _ _ f(1,2) _ keep ids db'])
    show "idents_ok (ad_assets db1) (ad_identities db)"
      using ok keep unfolding inventory_ok_def by (blast intro: idents_ok_assets)
    show "pins_ok (ad_identities db) (ad_pins db)" using ok by (simp add: inventory_ok_def)
    have "map as_id (ad_assets db1) = map as_id (ad_assets db)" unfolding f(3) by (simp add: observe_asset_def)
    with ok show "distinct (map as_id (ad_assets db1))" by (simp add: inventory_ok_def)
    show "asset_active (ad_assets db) t a" by fact
  qed
  with f Some x show ?thesis by (intro that [of a db1]) simp_all
qed

lemma binding_step_lookup:
  assumes "binding_step K t a db1 db2" "idents_ok rows (ad_identities db1)" "idents_ok rows' (ad_identities db2)"
    and "identity_lookup t' ty v db1 = Some b"
  shows "identity_lookup t' ty v db2 = Some b"
proof -
  obtain i where "i \<in> set (ad_identities db1)" "ident_key i = (t', ty, v)" "id_asset i = b"
    using assms(4) unfolding identity_lookup_iff [OF assms(2)] by blast
  with assms(1) extends_member have "\<exists>j \<in> set (ad_identities db2). ident_key j = (t', ty, v) \<and> id_asset j = b"
    unfolding binding_step_def by metis
  then show ?thesis unfolding identity_lookup_iff [OF assms(3)] .
qed

subsection \<open>Merge and split keep it\<close>

definition pin_all :: "string \<Rightarrow> string \<Rightarrow> string \<Rightarrow> string \<Rightarrow> string \<Rightarrow> identity_row list \<Rightarrow> asset_db \<Rightarrow> asset_db" where
  "pin_all t target origin reason user moved db = foldl (\<lambda>d i. upsert_pin t target origin reason user i d) db moved"

lemma pin_all_simps [simp]:
  "pin_all t target origin reason user [] db = db"
  "pin_all t target origin reason user (i # is) db
     = pin_all t target origin reason user is (upsert_pin t target origin reason user i db)"
  by (simp_all add: pin_all_def)

lemma pin_all_frame [simp]:
  "ad_assets (pin_all t target origin reason user moved db) = ad_assets db"
  "ad_identities (pin_all t target origin reason user moved db) = ad_identities db"
  "ad_devices (pin_all t target origin reason user moved db) = ad_devices db"
  "ad_merge_audit (pin_all t target origin reason user moved db) = ad_merge_audit db"
  by (induction moved arbitrary: db) (simp_all add: upsert_pin_def)

definition repinned :: "string \<Rightarrow> (string \<times> string \<times> string) set \<Rightarrow> pin_row list \<Rightarrow> pin_row list \<Rightarrow> bool" where
  "repinned target K ps qs \<longleftrightarrow> distinct (map pin_key qs)
     \<and> (\<forall>q \<in> set qs. pin_key q \<in> K \<and> pn_asset q = target \<or> pin_key q \<notin> K \<and> q \<in> set ps)
     \<and> K \<subseteq> pin_key ` set qs"

lemma upsert_pin_cases:
  assumes "id_tenant i = t"
  obtains f where "ad_pins (upsert_pin t target origin reason user i db) = map f (ad_pins db)"
      "\<And>p. pin_key (f p) = pin_key p" "\<And>p. pin_key p = ident_key i \<Longrightarrow> pn_asset (f p) = target"
      "\<And>p. pin_key p \<noteq> ident_key i \<Longrightarrow> f p = p" "ident_key i \<in> pin_key ` set (ad_pins db)"
  | n where "ad_pins (upsert_pin t target origin reason user i db) = ad_pins db @ [n]" "pin_key n = ident_key i"
      "pn_asset n = target" "ident_key i \<notin> pin_key ` set (ad_pins db)"
proof -
  let ?k = "ident_key i"
  have k: "has_pin t (id_type i) (id_value i) p \<longleftrightarrow> pin_key p = ?k" for p
    using assms by (auto simp: has_pin_def pin_key_def ident_key_def)
  show ?thesis
  proof (cases "list_ex (has_pin t (id_type i) (id_value i)) (ad_pins db)")
    case True
    define f where "f = (\<lambda>p. if pin_key p = ?k
        then p\<lparr>pn_asset := target, pn_origin := origin, pn_reason := reason, pn_created_by := user\<rparr> else p)"
    show ?thesis
    proof (rule that(1) [of f])
      show "ad_pins (upsert_pin t target origin reason user i db) = map f (ad_pins db)"
        using True by (simp add: upsert_pin_def k f_def)
      show "?k \<in> pin_key ` set (ad_pins db)" using True unfolding list_ex_iff k by (metis image_eqI)
    qed (simp_all add: f_def pin_key_def)
  next
    case False
    show ?thesis
    proof (rule that(2))
      show "ad_pins (upsert_pin t target origin reason user i db) = ad_pins db @
          [\<lparr>pn_tenant = t, pn_type = id_type i, pn_value = id_value i, pn_asset = target, pn_origin = origin,
            pn_reason = reason, pn_created_by = user\<rparr>]"
        using False by (simp add: upsert_pin_def)
      show "?k \<notin> pin_key ` set (ad_pins db)" using False unfolding list_ex_iff k by (metis imageE)
    qed (simp_all add: pin_key_def ident_key_def assms)
  qed
qed

lemma upsert_pin_keys:
  assumes "id_tenant i = t"
  shows "pin_key ` set (ad_pins db) \<subseteq> pin_key ` set (ad_pins (upsert_pin t target origin reason user i db))"
  by (rule upsert_pin_cases [OF assms, of target origin reason user db]) (auto simp: image_image)

lemma pin_all_keys:
  "\<forall>i \<in> set moved. id_tenant i = t \<Longrightarrow>
   pin_key ` set (ad_pins db) \<subseteq> pin_key ` set (ad_pins (pin_all t target origin reason user moved db))"
proof (induction moved arbitrary: db)
  case (Cons i moved)
  have "id_tenant i = t" using Cons.prems by simp
  from upsert_pin_keys [OF this] Cons.IH Cons.prems show ?case
    by (metis (no_types, lifting) list.set_intros(2) order_trans pin_all_simps(2))
qed simp

lemma upsert_pin_repinned:
  assumes "distinct (map pin_key (ad_pins db))" "id_tenant i = t"
  shows "repinned target {ident_key i} (ad_pins db) (ad_pins (upsert_pin t target origin reason user i db))"
proof (cases rule: upsert_pin_cases [OF assms(2), of target origin reason user db])
  case (1 f)
  have "pin_key q \<in> {ident_key i} \<and> pn_asset q = target \<or> pin_key q \<notin> {ident_key i} \<and> q \<in> set (ad_pins db)"
    if q: "q \<in> set (map f (ad_pins db))" for q
  proof -
    obtain p where p: "p \<in> set (ad_pins db)" "q = f p" using q by auto
    then show ?thesis using 1(2-4) [of p] by (cases "pin_key p = ident_key i") simp_all
  qed
  moreover have "pin_key \<circ> f = pin_key" using 1(2) by auto
  ultimately show ?thesis
    unfolding repinned_def 1(1) using assms(1) 1(5) by (simp add: image_image 1(2))
next
  case (2 n)
  have "pin_key q \<noteq> ident_key i" if "q \<in> set (ad_pins db)" for q using 2(4) that by (metis image_eqI)
  with 2 assms(1) show ?thesis unfolding repinned_def 2(1) by simp
qed

lemma pin_all_repinned:
  "distinct (map pin_key (ad_pins db)) \<Longrightarrow> \<forall>i \<in> set moved. id_tenant i = t \<Longrightarrow>
   repinned target (ident_key ` set moved) (ad_pins db) (ad_pins (pin_all t target origin reason user moved db))"
proof (induction moved arbitrary: db)
  case Nil
  then show ?case by (simp add: repinned_def)
next
  case (Cons i moved)
  let ?db1 = "upsert_pin t target origin reason user i db"
  have one: "repinned target {ident_key i} (ad_pins db) (ad_pins ?db1)"
    using Cons.prems by (intro upsert_pin_repinned) simp_all
  then have rest: "repinned target (ident_key ` set moved) (ad_pins ?db1) (ad_pins (pin_all t target origin reason user moved ?db1))"
    using Cons.prems by (intro Cons.IH) (simp_all add: repinned_def)
  have keys: "ident_key i \<in> pin_key ` set (ad_pins (pin_all t target origin reason user moved ?db1))"
  proof -
    have sub: "pin_key ` set (ad_pins ?db1) \<subseteq> pin_key ` set (ad_pins (pin_all t target origin reason user moved ?db1))"
      using Cons.prems(2) by (intro pin_all_keys) simp
    have "ident_key i \<in> pin_key ` set (ad_pins ?db1)" using one by (simp add: repinned_def)
    with sub show ?thesis by blast
  qed
  show ?case
    using one rest keys unfolding repinned_def by auto
qed

lemma move_and_pin:
  assumes ok: "inventory_ok db" and target: "asset_active rows t target"
    and P: "\<And>i. P i \<Longrightarrow> id_tenant i = t"
    and others: "\<And>i. i \<in> set (ad_identities db) \<Longrightarrow> \<not> P i \<Longrightarrow> asset_active rows (id_tenant i) (id_asset i)"
    and is': "is' = map (\<lambda>i. if P i then i\<lparr>id_asset := target\<rparr> else i) (ad_identities db)"
    and pins: "repinned target (ident_key ` {i \<in> set (ad_identities db). P i}) (ad_pins db) ps'"
  shows "idents_ok rows is' \<and> pins_ok is' ps'"
proof -
  let ?f = "\<lambda>i. if P i then i\<lparr>id_asset := target\<rparr> else i"
  have f: "ident_key (?f i) = ident_key i" "id_id (?f i) = id_id i" "id_value (?f i) = id_value i" "id_tenant (?f i) = id_tenant i" for i
    by (simp_all add: ident_key_def)
  have maps: "map ident_key is' = map ident_key (ad_identities db)" "map id_id is' = map id_id (ad_identities db)"
    unfolding is' by (simp_all add: ident_key_def)
  have iok: "idents_ok (ad_assets db) (ad_identities db)" and pok: "pins_ok (ad_identities db) (ad_pins db)"
    using ok by (simp_all add: inventory_ok_def)
  have "asset_active rows (id_tenant j) (id_asset j) \<and> id_value j \<noteq> []" if j: "j \<in> set is'" for j
  proof -
    obtain i where i: "i \<in> set (ad_identities db)" "j = ?f i" using j unfolding is' by auto
    have "id_value i \<noteq> []" using iok i(1) by (simp add: idents_ok_def)
    then show ?thesis using i(2) target P [of i] others [OF i(1)] by (cases "P i") simp_all
  qed
  then have a: "idents_ok rows is'" using iok by (simp add: idents_ok_def maps)
  have "\<exists>i \<in> set is'. ident_key i = pin_key p \<and> id_asset i = pn_asset p" if p: "p \<in> set ps'" for p
  proof (cases "pin_key p \<in> ident_key ` {i \<in> set (ad_identities db). P i}")
    case True
    then obtain i where i: "i \<in> set (ad_identities db)" "P i" "ident_key i = pin_key p" by auto
    have "pn_asset p = target" using pins p True unfolding repinned_def by blast
    then show ?thesis using i unfolding is' by (intro bexI [of _ "?f i"]) (simp_all add: ident_key_def)
  next
    case False
    then have "p \<in> set (ad_pins db)" using pins p unfolding repinned_def by blast
    then obtain i where i: "i \<in> set (ad_identities db)" "ident_key i = pin_key p" "id_asset i = pn_asset p"
      using pok unfolding pins_ok_def by blast
    then have "\<not> P i" using False by (metis (mono_tags, lifting) image_eqI mem_Collect_eq)
    then show ?thesis using i unfolding is' by (intro bexI [of _ "?f i"]) simp_all
  qed
  then have "pins_ok is' ps'" using pins by (simp add: pins_ok_def repinned_def)
  with a show ?thesis by blast
qed

lemma find_asset_Some:
  "find_asset t a db = Some r \<Longrightarrow> r \<in> set (ad_assets db) \<and> as_tenant r = t \<and> as_id r = a"
  by (auto simp: find_asset_def visible_def find_Some_iff dest: nth_mem)

lemma check_mergeable_active:
  "check_mergeable t ids db = Inr () \<Longrightarrow> a \<in> set ids \<Longrightarrow> asset_active (ad_assets db) t a"
proof (induction ids)
  case (Cons b ids)
  then show ?case
    by (auto simp: asset_active_def split: option.splits if_splits dest!: find_asset_Some)
qed simp

text \<open>The tables after a merge.\<close>

lemma merge_into_tables:
  "ad_identities (merge_into who s os reason db) =
     map (\<lambda>i. if id_tenant i = pr_tenant who \<and> id_asset i \<in> set os then i\<lparr>id_asset := s\<rparr> else i) (ad_identities db)"
  "ad_pins (merge_into who s os reason db) = ad_pins (pin_all (pr_tenant who) s ''merge'' reason (pr_user who)
     (filter (\<lambda>i. id_tenant i = pr_tenant who \<and> id_asset i \<in> set os) (ad_identities db))
     (move_identities (pr_tenant who) (\<lambda>i. id_asset i \<in> set os) s db))"
  "\<exists>f. ad_assets (merge_into who s os reason db) = map f (ad_assets db)
     \<and> (\<forall>r. as_id (f r) = as_id r \<and> as_tenant (f r) = as_tenant r
          \<and> as_state (f r) = (if as_tenant r = pr_tenant who \<and> as_id r \<in> set os then Merged else as_state r))"
proof -
  let ?t = "pr_tenant who"
  show "ad_identities (merge_into who s os reason db) =
     map (\<lambda>i. if id_tenant i = pr_tenant who \<and> id_asset i \<in> set os then i\<lparr>id_asset := s\<rparr> else i) (ad_identities db)"
    "ad_pins (merge_into who s os reason db) = ad_pins (pin_all (pr_tenant who) s ''merge'' reason (pr_user who)
     (filter (\<lambda>i. id_tenant i = pr_tenant who \<and> id_asset i \<in> set os) (ad_identities db))
     (move_identities (pr_tenant who) (\<lambda>i. id_asset i \<in> set os) s db))"
    unfolding merge_into_def Let_def pin_all_def [symmetric]
    by (simp_all add: update_visible_def move_devices_def move_identities_def)
  obtain rows status where assets: "ad_assets (merge_into who s os reason db) =
      map (\<lambda>r. if as_tenant r = ?t \<and> as_id r \<in> set os then merge_away s r else r)
        (map (\<lambda>r. if as_tenant r = ?t \<and> as_id r = s then merge_survivor rows status r else r) (ad_assets db))"
    unfolding merge_into_def Let_def pin_all_def [symmetric]
    by (simp add: update_visible_def move_devices_def move_identities_def del: map_map)
  let ?f = "\<lambda>r. (\<lambda>r. if as_tenant r = ?t \<and> as_id r \<in> set os then merge_away s r else r)
      (if as_tenant r = ?t \<and> as_id r = s then merge_survivor rows status r else r)"
  have "ad_assets (merge_into who s os reason db) = map ?f (ad_assets db)"
    unfolding assets map_map comp_def ..
  moreover have "\<forall>r. as_id (?f r) = as_id r \<and> as_tenant (?f r) = as_tenant r
          \<and> as_state (?f r) = (if as_tenant r = ?t \<and> as_id r \<in> set os then Merged else as_state r)"
    by (simp add: merge_away_def merge_survivor_def)
  ultimately show "\<exists>f. ad_assets (merge_into who s os reason db) = map f (ad_assets db)
     \<and> (\<forall>r. as_id (f r) = as_id r \<and> as_tenant (f r) = as_tenant r
          \<and> as_state (f r) = (if as_tenant r = pr_tenant who \<and> as_id r \<in> set os then Merged else as_state r))"
    by (intro exI [of _ ?f]) (rule conjI)
qed

lemma inventory_ok_move:
  assumes ok: "inventory_ok db" and d: "distinct (map as_id (ad_assets db'))"
    and target: "asset_active (ad_assets db') t target" and P: "\<And>i. P i \<Longrightarrow> id_tenant i = t"
    and others: "\<And>i. i \<in> set (ad_identities db) \<Longrightarrow> \<not> P i \<Longrightarrow> asset_active (ad_assets db') (id_tenant i) (id_asset i)"
    and ids: "ad_identities db' = map (\<lambda>i. if P i then i\<lparr>id_asset := target\<rparr> else i) (ad_identities db)"
    and pins: "ad_pins db' = ad_pins (pin_all t target origin reason user (filter P (ad_identities db)) db1)"
      "ad_pins db1 = ad_pins db"
  shows "inventory_ok db' \<and> (\<forall>i \<in> set (ad_identities db). P i \<longrightarrow>
     identity_lookup t (id_type i) (id_value i) db' = Some target \<and> pin_lookup t (id_type i) (id_value i) db' = Some target)"
proof -
  have dp: "distinct (map pin_key (ad_pins db))" using ok by (simp add: inventory_ok_def pins_ok_def)
  have "repinned target (ident_key ` set (filter P (ad_identities db))) (ad_pins db1) (ad_pins db')"
    unfolding pins(1) using dp P by (intro pin_all_repinned) (simp_all add: pins(2))
  then have re: "repinned target (ident_key ` {i \<in> set (ad_identities db). P i}) (ad_pins db) (ad_pins db')"
    unfolding pins(2) set_filter .
  from move_and_pin [OF ok target P others ids re] have m: "idents_ok (ad_assets db') (ad_identities db')" "pins_ok (ad_identities db') (ad_pins db')"
    by simp_all
  have "identity_lookup t (id_type i) (id_value i) db' = Some target \<and> pin_lookup t (id_type i) (id_value i) db' = Some target"
    if i: "i \<in> set (ad_identities db)" "P i" for i
  proof
    have k: "ident_key i = (t, id_type i, id_value i)" using P [OF i(2)] by (simp add: ident_key_def)
    have "i\<lparr>id_asset := target\<rparr> \<in> set (ad_identities db')" unfolding ids using i by (auto intro!: image_eqI [of _ _ i])
    then show "identity_lookup t (id_type i) (id_value i) db' = Some target"
      unfolding identity_lookup_iff [OF m(1)] using k by (intro bexI [of _ "i\<lparr>id_asset := target\<rparr>"]) (simp_all add: ident_key_def)
    have K: "ident_key ` {i \<in> set (ad_identities db). P i} \<subseteq> pin_key ` set (ad_pins db')"
      and T: "\<And>q. q \<in> set (ad_pins db') \<Longrightarrow> pin_key q \<in> ident_key ` {i \<in> set (ad_identities db). P i} \<Longrightarrow> pn_asset q = target"
      using re unfolding repinned_def by blast+
    have k': "ident_key i \<in> ident_key ` {i \<in> set (ad_identities db). P i}" using i by simp
    from subsetD [OF K this] obtain q where q: "pin_key q = ident_key i" "q \<in> set (ad_pins db')" by (metis imageE)
    moreover from T [OF q(2)] k' q(1) have "pn_asset q = target" by simp
    ultimately have "\<exists>q \<in> set (ad_pins db'). pin_key q = (t, id_type i, id_value i) \<and> pn_asset q = target"
      unfolding k [symmetric] by blast
    then show "pin_lookup t (id_type i) (id_value i) db' = Some target"
      unfolding pin_lookup_iff [OF m(2)] .
  qed
  with m d show ?thesis by (simp add: inventory_ok_def)
qed

lemma merge_into_ok:
  assumes ok: "inventory_ok db" and s: "asset_active (ad_assets db) (pr_tenant who) s" and new: "s \<notin> set os"
  shows "inventory_ok (merge_into who s os reason db)
    \<and> (\<forall>i \<in> set (ad_identities db). id_tenant i = pr_tenant who \<and> id_asset i \<in> set os \<longrightarrow>
         identity_lookup (pr_tenant who) (id_type i) (id_value i) (merge_into who s os reason db) = Some s
       \<and> pin_lookup (pr_tenant who) (id_type i) (id_value i) (merge_into who s os reason db) = Some s)"
proof -
  let ?db = "merge_into who s os reason db"
  obtain f where f: "ad_assets ?db = map f (ad_assets db)"
      "\<And>r. as_id (f r) = as_id r" "\<And>r. as_tenant (f r) = as_tenant r"
      "\<And>r. as_state (f r) = (if as_tenant r = pr_tenant who \<and> as_id r \<in> set os then Merged else as_state r)"
    using merge_into_tables(3) [of who s os reason db] by blast
  have keep: "asset_active (ad_assets ?db) t a" if "asset_active (ad_assets db) t a" "\<not> (t = pr_tenant who \<and> a \<in> set os)" for t a
    using that f(2-4) unfolding f(1) asset_active_def by (metis image_eqI list.set_map)
  have "as_id \<circ> f = as_id" using f(2) by auto
  then have "distinct (map as_id (ad_assets ?db))" using ok by (simp add: f(1) inventory_ok_def)
  moreover have "asset_active (ad_assets ?db) (pr_tenant who) s" using keep [OF s] new by simp
  moreover have "asset_active (ad_assets ?db) (id_tenant i) (id_asset i)"
    if "i \<in> set (ad_identities db)" "\<not> (id_tenant i = pr_tenant who \<and> id_asset i \<in> set os)" for i
  proof -
    have "asset_active (ad_assets db) (id_tenant i) (id_asset i)"
      using ok that(1) by (simp add: inventory_ok_def idents_ok_def)
    from keep [OF this that(2)] show ?thesis .
  qed
  moreover have "ad_pins (move_identities (pr_tenant who) (\<lambda>i. id_asset i \<in> set os) s db) = ad_pins db"
    by (simp add: move_identities_def)
  ultimately show ?thesis
    by (intro inventory_ok_move [OF ok _ _ _ _ merge_into_tables(1,2)]) simp_all
qed

text \<open>When as many rows of the asset were found as ids were given, the ids select exactly those rows.\<close>

lemma all_selected:
  assumes d: "distinct (map id_id is)"
    and len: "length (filter (\<lambda>i. Q i \<and> id_id i \<in> set ids \<and> R i) is) = length ids"
  shows "filter (\<lambda>i. Q i \<and> id_id i \<in> set ids \<and> R i) is = filter (\<lambda>i. Q i \<and> id_id i \<in> set ids) is"
proof -
  let ?S = "filter (\<lambda>i. Q i \<and> id_id i \<in> set ids \<and> R i) is"
  have ds: "distinct (map id_id ?S)" using d by (simp add: distinct_map_filter)
  have sub: "set (map id_id ?S) \<subseteq> set ids" by auto
  have "card (set (map id_id ?S)) = length ids" using len distinct_card [OF ds] by simp
  then have eq: "set (map id_id ?S) = set ids"
  proof (intro card_subset_eq)
    show "card (set (map id_id ?S)) = card (set ids)"
      using \<open>card (set (map id_id ?S)) = length ids\<close> card_length [of ids] card_mono [OF finite_set sub] by linarith
  qed (use sub in simp_all)
  have "R i" if i: "i \<in> set is" "Q i \<and> id_id i \<in> set ids" for i
  proof -
    have "id_id i \<in> id_id ` set ?S" using eq i(2) by (simp only: set_map)
    then obtain j where j: "j \<in> set ?S" "id_id j = id_id i" by (rule imageE) (simp only: that)
    then have "j = i" using d i(1) by (simp add: distinct_map inj_on_def)
    with j show ?thesis by simp
  qed
  then show ?thesis by (auto intro: filter_cong)
qed

lemma split_off_tables:
  fixes who fresh original ids idents reason db
  defines "db' \<equiv> split_off who fresh original ids idents reason db"
  shows "ad_identities db' =
     map (\<lambda>i. if id_tenant i = pr_tenant who \<and> id_id i \<in> set ids then i\<lparr>id_asset := fresh\<rparr> else i) (ad_identities db)"
  "\<exists>db1. ad_pins db' = ad_pins (pin_all (pr_tenant who) fresh ''split'' reason (pr_user who) idents db1) \<and> ad_pins db1 = ad_pins db"
  "\<exists>f n. ad_assets db' = map f (ad_assets db @ [n])
     \<and> (\<forall>r. as_id (f r) = as_id r \<and> as_tenant (f r) = as_tenant r \<and> as_state (f r) = as_state r)
     \<and> as_id n = fresh \<and> as_tenant n = pr_tenant who \<and> as_state n = Active"
proof -
  define devs where "devs = map id_value (filter (\<lambda>i. id_type i = ''device_id'') idents)"
  define db1 where "db1 = move_identities (pr_tenant who) (\<lambda>i. id_id i \<in> set ids) fresh
     (db\<lparr>ad_assets := ad_assets db @ [split_row (pr_tenant who) fresh original idents devs]\<rparr>)"
  define db3 where "db3 = pin_all (pr_tenant who) fresh ''split'' reason (pr_user who) idents db1"
  define f :: "asset_row \<Rightarrow> asset_row" where "f = (\<lambda>r. if devs \<noteq> [] \<and> as_tenant r = pr_tenant who \<and> as_id r = as_id original
     then r\<lparr>as_agent_status := ''none''\<rparr> else r)"
  have t: "ad_identities db' = ad_identities db3" "ad_pins db' = ad_pins db3" "ad_assets db' = map f (ad_assets db3)"
    unfolding db'_def split_off_def Let_def pin_all_def [symmetric] devs_def [symmetric] db1_def [symmetric] db3_def [symmetric]
    by (simp_all add: update_visible_def move_devices_def f_def)
  have db1: "ad_pins db1 = ad_pins db" by (simp add: db1_def move_identities_def)
  show "ad_identities db' =
     map (\<lambda>i. if id_tenant i = pr_tenant who \<and> id_id i \<in> set ids then i\<lparr>id_asset := fresh\<rparr> else i) (ad_identities db)"
    by (simp add: t db3_def db1_def move_identities_def)
  show "\<exists>db1. ad_pins db' = ad_pins (pin_all (pr_tenant who) fresh ''split'' reason (pr_user who) idents db1) \<and> ad_pins db1 = ad_pins db"
    using db1 by (intro exI [of _ db1]) (simp add: t db3_def)
  show "\<exists>f n. ad_assets db' = map f (ad_assets db @ [n])
     \<and> (\<forall>r. as_id (f r) = as_id r \<and> as_tenant (f r) = as_tenant r \<and> as_state (f r) = as_state r)
     \<and> as_id n = fresh \<and> as_tenant n = pr_tenant who \<and> as_state n = Active"
    by (intro exI [of _ f] exI [of _ "split_row (pr_tenant who) fresh original idents devs"])
      (simp add: t db3_def db1_def move_identities_def f_def split_row_def)
qed

lemma split_off_ok:
  assumes ok: "inventory_ok db" and fresh: "fresh \<notin> as_id ` set (ad_assets db)"
    and idents: "idents = filter (\<lambda>i. id_tenant i = pr_tenant who \<and> id_id i \<in> set ids \<and> id_asset i = a) (ad_identities db)"
      "length idents = length ids"
  shows "inventory_ok (split_off who fresh original ids idents reason db)
    \<and> (\<forall>i \<in> set (ad_identities db). id_tenant i = pr_tenant who \<and> id_id i \<in> set ids \<longrightarrow>
         identity_lookup (pr_tenant who) (id_type i) (id_value i) (split_off who fresh original ids idents reason db) = Some fresh
       \<and> pin_lookup (pr_tenant who) (id_type i) (id_value i) (split_off who fresh original ids idents reason db) = Some fresh)"
proof -
  let ?db = "split_off who fresh original ids idents reason db"
  have sel: "idents = filter (\<lambda>i. id_tenant i = pr_tenant who \<and> id_id i \<in> set ids) (ad_identities db)"
    using all_selected [of "ad_identities db" "\<lambda>i. id_tenant i = pr_tenant who" ids "\<lambda>i. id_asset i = a"] ok idents
    by (simp add: inventory_ok_def idents_ok_def)
  obtain f n where f: "ad_assets ?db = map f (ad_assets db @ [n])"
      "\<And>r. as_id (f r) = as_id r" "\<And>r. as_tenant (f r) = as_tenant r" "\<And>r. as_state (f r) = as_state r"
    and n: "as_id n = fresh" "as_tenant n = pr_tenant who" "as_state n = Active"
    using split_off_tables(3) [of who fresh original ids idents reason db] by blast
  obtain db1 where p: "ad_pins ?db = ad_pins (pin_all (pr_tenant who) fresh ''split'' reason (pr_user who)
      (filter (\<lambda>i. id_tenant i = pr_tenant who \<and> id_id i \<in> set ids) (ad_identities db)) db1)" "ad_pins db1 = ad_pins db"
    using split_off_tables(2) [of who fresh original ids idents reason db] sel by metis
  have keep: "asset_active (ad_assets ?db) t b" if "asset_active (ad_assets db @ [n]) t b" for t b
    unfolding f(1) by (rule asset_active_update [OF _ that]) (simp add: f)
  show ?thesis
  proof (rule inventory_ok_move [OF ok _ _ _ _ split_off_tables(1) p])
    have "as_id \<circ> f = as_id" using f(2) by auto
    then show "distinct (map as_id (ad_assets ?db))" using ok fresh n by (simp add: f(1,2) inventory_ok_def)
    show "asset_active (ad_assets ?db) (pr_tenant who) fresh" by (rule keep) (simp add: asset_active_def n)
    fix i assume "i \<in> set (ad_identities db)"
    then have "asset_active (ad_assets db) (id_tenant i) (id_asset i)" using ok by (simp add: inventory_ok_def idents_ok_def)
    then show "asset_active (ad_assets ?db) (id_tenant i) (id_asset i)" by (intro keep asset_active_append)
  qed simp
qed

subsection \<open>Reachable inventories\<close>

text \<open>One step of the inventory: the worker handles a message, or the API merges or splits. Row ids and
  asset ids the database generates are new. The merge rule asks for distinct assets; the lemma
  \<open>merge_two_spellings\<close> below shows what the code does without it.\<close>

inductive asset_step :: "asset_db \<Rightarrow> asset_db \<Rightarrow> bool" where
  observe: "handle parse_aware fresh ids t payload detail db = Inr (db', out) \<Longrightarrow> row_ids_ok ids db \<Longrightarrow> asset_step db db'"
| merge: "merge_assets who asset_ids reason db = Inr db' \<Longrightarrow>
    rmap uuid_or_404 (dict_fromkeys [] asset_ids) = Inr ids \<Longrightarrow> distinct ids \<Longrightarrow> asset_step db db'"
| split: "split_asset who fresh asset_id identity_ids reason db = Inr db' \<Longrightarrow>
    fresh \<notin> as_id ` set (ad_assets db) \<Longrightarrow> asset_step db db'"

definition empty_inventory :: asset_db where
  "empty_inventory = \<lparr>ad_assets = [], ad_identities = [], ad_pins = [], ad_devices = [], ad_merge_audit = [],
     ad_audit = [], ad_dead_letters = []\<rparr>"

lemma handle_cases:
  assumes "handle parse_aware fresh ids t payload detail db = Inr (db', out)"
  obtains "db' = malformed t payload detail db"
  | obs where "validate_observation parse_aware (JObj payload) = Some obs" "identifiers obs \<noteq> []"
      "handle_observation fresh ids t obs db = Inr db'"
  using assms by (auto simp: handle_def rbind_Inr_iff split: option.splits if_splits)

lemma malformed_tables [simp]:
  "ad_assets (malformed t payload detail db) = ad_assets db"
  "ad_identities (malformed t payload detail db) = ad_identities db"
  "ad_pins (malformed t payload detail db) = ad_pins db"
  by (simp_all add: malformed_def)

lemma merge_assets_cases:
  assumes "merge_assets who asset_ids reason db = Inr db'" "rmap uuid_or_404 (dict_fromkeys [] asset_ids) = Inr ids"
  obtains s os where "ids = s # os" "os \<noteq> []" "check_mergeable (pr_tenant who) (s # os) db = Inr ()"
    "db' = merge_into who s os reason db"
  using assms by (auto simp: merge_assets_def rbind_Inr_iff split: list.splits)

lemma split_asset_cases:
  assumes "split_asset who fresh asset_id arg reason db = Inr db'"
  obtains a ids original idents where "uuid_or_404 asset_id = Inr a" "parse_identity_ids arg = Inr ids"
    "idents = filter (\<lambda>i. id_tenant i = pr_tenant who \<and> id_id i \<in> set ids \<and> id_asset i = a) (ad_identities db)"
    "length idents = length ids" "db' = split_off who fresh original ids idents reason db"
  using assms by (auto simp: split_asset_def rbind_Inr_iff Let_def split: option.splits if_splits)

lemma inventory_ok_step: "asset_step db db' \<Longrightarrow> inventory_ok db \<Longrightarrow> inventory_ok db'"
proof (induction rule: asset_step.induct)
  case (observe parse_aware fresh ids t payload detail db db' out)
  from observe(1) show ?case
  proof (cases rule: handle_cases)
    case 1
    with observe(3) show ?thesis by (simp add: inventory_ok_def)
  next
    case (2 obs)
    show ?thesis by (rule handle_observation_cases [OF observe(3,2) 2(3)])
  qed
next
  case (merge who asset_ids reason db db' ids)
  from merge(1,2) obtain s os where m: "ids = s # os" "check_mergeable (pr_tenant who) (s # os) db = Inr ()"
      "db' = merge_into who s os reason db" by (rule merge_assets_cases)
  have "asset_active (ad_assets db) (pr_tenant who) s" by (rule check_mergeable_active [OF m(2)]) simp
  moreover have "s \<notin> set os" using merge(3) m(1) by simp
  ultimately show ?case unfolding m(3) using merge_into_ok [OF merge(4)] by blast
next
  case (split who fresh asset_id identity_ids reason db db')
  from split(1) obtain a ids original idents where s:
    "idents = filter (\<lambda>i. id_tenant i = pr_tenant who \<and> id_id i \<in> set ids \<and> id_asset i = a) (ad_identities db)"
    "length idents = length ids" "db' = split_off who fresh original ids idents reason db" by (rule split_asset_cases)
  show ?case unfolding s(3) using split_off_ok [OF split(3,2) s(1,2)] by blast
qed

lemma inventory_ok_steps: "asset_step\<^sup>*\<^sup>* db db' \<Longrightarrow> inventory_ok db \<Longrightarrow> inventory_ok db'"
  by (induction rule: rtranclp_induct) (simp_all add: inventory_ok_step)

lemma inventory_ok_empty: "inventory_ok empty_inventory"
  by (simp add: inventory_ok_def idents_ok_def pins_ok_def empty_inventory_def)

subsection \<open>Two spellings of one id\<close>

lemma uuid_of_braces:
  assumes "n < 2 ^ 128"
  shows "uuid_of (''{'' @ uuid_str n @ ''}'') = Some n"
proof -
  let ?s = "uuid_str n"
  have set: "c \<notin> set ?s" if "c \<in> {CHR ''u'', CHR ''{'', CHR ''}''}" for c
    using uuid_str_set [of c n] that by auto
  have "py_replace ''urn:'' (''{'' @ ?s @ ''}'') = ''{'' @ ?s @ ''}''" "py_replace ''uuid:'' (''{'' @ ?s @ ''}'') = ''{'' @ ?s @ ''}''"
    by (rule py_replace_absent; simp add: set)+
  moreover have "strip_braces (''{'' @ ?s @ ''}'') = strip_braces ?s"
  proof -
    let ?b = "\<lambda>c. c = CHR ''{'' \<or> c = CHR ''}''"
    have ne: "?s \<noteq> []" by (simp add: uuid_str_def Let_def)
    then obtain x xs where x: "?s = x # xs" by (cases ?s) auto
    have nb: "\<not> ?b c" if "c \<in> set ?s" for c using set that by blast
    then have "\<not> ?b x" by (simp add: x)
    then have 1: "dropWhile ?b (''{'' @ ?s @ ''}'') = ?s @ ''}''" by (simp add: x)
    from ne obtain y ys where y: "rev ?s = y # ys" by (cases "rev ?s") auto
    have "y \<in> set ?s" by (metis list.set_intros(1) set_rev y)
    then have "\<not> ?b y" by (rule nb)
    then have 2: "dropWhile ?b (rev (?s @ ''}'')) = rev ?s" by (simp add: y)
    have "strip_braces (''{'' @ ?s @ ''}'') = ?s" unfolding strip_braces_def Let_def 1 2 by simp
    moreover have "strip_braces ?s = ?s" by (rule strip_braces_plain) (use set in auto)
    ultimately show ?thesis by simp
  qed
  moreover have "py_replace ''urn:'' ?s = ?s" "py_replace ''uuid:'' ?s = ?s"
    by (rule py_replace_absent; simp add: set)+
  ultimately have "uuid_of (''{'' @ ?s @ ''}'') = uuid_of ?s" unfolding uuid_of_def Let_def by simp
  then show ?thesis using uuid_of_str [OF assms] by simp
qed

text \<open>The request is checked for distinct strings, not for distinct assets: given one active asset in two
  spellings, the merge succeeds and marks the asset as merged into itself, so no active asset is left
  under that id.\<close>

lemma merge_two_spellings:
  assumes n: "n < 2 ^ 128" and r: "find_asset (pr_tenant who) (uuid_str n) db = Some r" "as_state r = Active"
    and uniq: "distinct (map as_id (ad_assets db))"
  shows "\<exists>db'. merge_assets who [uuid_str n, ''{'' @ uuid_str n @ ''}''] reason db = Inr db'
     \<and> \<not> asset_active (ad_assets db') (pr_tenant who) (uuid_str n)"
proof -
  have "uuid_str n \<noteq> ''{'' @ uuid_str n @ ''}''" by simp
  then have ids: "rmap uuid_or_404 (dict_fromkeys [] [uuid_str n, ''{'' @ uuid_str n @ ''}'']) = Inr [uuid_str n, uuid_str n]"
    using uuid_of_str [OF n] uuid_of_braces [OF n] by (simp add: uuid_or_404_def parse_uuid_def)
  have "merge_assets who [uuid_str n, ''{'' @ uuid_str n @ ''}''] reason db
      = Inr (merge_into who (uuid_str n) [uuid_str n] reason db)"
    unfolding merge_assets_def ids using r by simp
  moreover obtain f where "ad_assets (merge_into who (uuid_str n) [uuid_str n] reason db) = map f (ad_assets db)"
      "\<And>r. as_id (f r) = as_id r" "\<And>r. as_tenant (f r) = as_tenant r"
      "\<And>r. as_state (f r) = (if as_tenant r = pr_tenant who \<and> as_id r \<in> set [uuid_str n] then Merged else as_state r)"
    using merge_into_tables(3) [of who "uuid_str n" "[uuid_str n]" reason db] by blast
  then have "\<not> asset_active (ad_assets (merge_into who (uuid_str n) [uuid_str n] reason db)) (pr_tenant who) (uuid_str n)"
    by (auto simp: asset_active_def)
  ultimately show ?thesis by blast
qed

interpretation inventory: keyset_pager asset_key "\<lambda>r. asset_keyset (as_last_seen r) (as_id r)"
  by unfold_locales (auto simp: asset_keyset_def asset_key_def less_prod_def)

subsection \<open>Properties\<close>


definition demo_aware :: "json \<Rightarrow> int option" where
  "demo_aware v = (case v of JInt i \<Rightarrow> Some i | _ \<Rightarrow> None)"

definition demo_observation :: "string \<Rightarrow> obj" where
  "demo_observation device = [(''observed_at'', JInt 5), (''source'', JStr ''agent''), (''hostname'', JStr ''PC1''),
     (''os_family'', JStr ''windows''), (''device_id'', JStr device)]"

definition demo_inventory :: asset_db where
  "demo_inventory = fst (projr (handle demo_aware ''a1'' [''i1'', ''i2'', ''i3''] ''t1'' (demo_observation ''d1'') [] empty_inventory))"

lemma demo_inventory_step:
  "handle demo_aware ''a1'' [''i1'', ''i2'', ''i3''] ''t1'' (demo_observation ''d1'') [] empty_inventory
     = Inr (demo_inventory, outcome.Ok)"
  by code_simp

lemma demo_inventory_reach: "asset_step\<^sup>*\<^sup>* empty_inventory demo_inventory"
  by (intro r_into_rtranclp asset_step.observe [OF demo_inventory_step])
    (simp add: row_ids_ok_def empty_inventory_def)

lemma demo_inventory_ok: "inventory_ok demo_inventory"
  by (rule inventory_ok_steps [OF demo_inventory_reach inventory_ok_empty])


text \<open>Manual corrections win. Handling any message leaves every pin as it is and every identifier that
  is already bound on the asset it is bound to, so what an administrator merged or split is never
  undone automatically.\<close>

theorem manual_corrections_win:
  assumes "inventory_ok db" "row_ids_ok ids db" "handle parse_aware fresh ids t payload detail db = Inr (db', out)"
  shows "ad_pins db' = ad_pins db
    \<and> (\<forall>t' ty v a. identity_lookup t' ty v db = Some a \<longrightarrow> identity_lookup t' ty v db' = Some a)"
  using assms(3)
proof (cases rule: handle_cases)
  case 1
  then show ?thesis by (simp add: identity_lookup_def)
next
  case (2 obs)
  obtain a db1 where b: "inventory_ok db'" "binding_step (set (identifiers obs)) t a db1 db'" "ad_identities db1 = ad_identities db" "ad_pins db1 = ad_pins db"
    by (rule handle_observation_cases [OF assms(1,2) 2(3)])
  have ok: "idents_ok (ad_assets db) (ad_identities db1)" "idents_ok (ad_assets db') (ad_identities db')"
    using assms(1) b(1,3) by (simp_all add: inventory_ok_def)
  have "identity_lookup t' ty v db' = Some c" if "identity_lookup t' ty v db = Some c" for t' ty v c
    using binding_step_lookup [OF b(2) ok] that b(3) by (simp add: identity_lookup_def)
  moreover have "ad_pins db' = ad_pins db" using b(2,4) by (simp add: binding_step_def)
  ultimately show ?thesis by blast
qed

theorem manual_corrections_win_witness:
  "\<exists>db'. handle demo_aware ''a2'' [''i4'', ''i5'', ''i6''] ''t1'' (demo_observation ''d2'') [] demo_inventory = Inr (db', outcome.Ok)
    \<and> identity_lookup ''t1'' ''hostname_os'' ''pc1|windows'' db' = Some ''a1''"
proof -
  have "is_ok (handle demo_aware ''a2'' [''i4'', ''i5'', ''i6''] ''t1'' (demo_observation ''d2'') [] demo_inventory)"
    "snd (projr (handle demo_aware ''a2'' [''i4'', ''i5'', ''i6''] ''t1'' (demo_observation ''d2'') [] demo_inventory)) = outcome.Ok"
    by code_simp+
  then obtain db' where h: "handle demo_aware ''a2'' [''i4'', ''i5'', ''i6''] ''t1'' (demo_observation ''d2'') [] demo_inventory = Inr (db', outcome.Ok)"
    by (metis is_ok_iff prod.collapse sum.sel(2))
  have "row_ids_ok [''i4'', ''i5'', ''i6''] demo_inventory" "identity_lookup ''t1'' ''hostname_os'' ''pc1|windows'' demo_inventory = Some ''a1''"
    by code_simp+
  with manual_corrections_win [OF demo_inventory_ok this(1) h] h show ?thesis by blast
qed

text \<open>C26: agents stay separate. When handling a message binds a device id that was not bound before,
  the asset it goes to had no device id: automatic deduplication never puts two agents on one asset,
  not even two machines that share a host name.\<close>

theorem agents_stay_separate:
  assumes "inventory_ok db" "row_ids_ok ids db" "handle parse_aware fresh ids t payload detail db = Inr (db', out)"
    and "identity_lookup t ''device_id'' d db = None" "identity_lookup t ''device_id'' d db' = Some a"
  shows "asset_device_identity t a db = None"
  using assms(3)
proof (cases rule: handle_cases)
  case 1
  with assms(4,5) show ?thesis by (simp add: identity_lookup_def)
next
  case (2 obs)
  have iok: "idents_ok (ad_assets db) (ad_identities db)" using assms(1) by (simp add: inventory_ok_def)
  obtain b db1 where b: "inventory_ok db'" "binding_step (set (identifiers obs)) t b db1 db'" "ad_identities db1 = ad_identities db"
      "fresh \<notin> as_id ` set (ad_assets db) \<and> b = fresh \<and> resolve t obs (identifiers obs) db = None
       \<or> (\<exists>rule. resolve t obs (identifiers obs) db = Some (b, rule))"
    by (rule handle_observation_cases [OF assms(1,2) 2(3)])
  have iok': "idents_ok (ad_assets db') (ad_identities db')" using b(1) by (simp add: inventory_ok_def)
  obtain j where j: "j \<in> set (ad_identities db')" "ident_key j = (t, ''device_id'', d)" "id_asset j = a"
    using assms(5) unfolding identity_lookup_iff [OF iok'] by blast
  have unbound: "\<not> (\<exists>i \<in> set (ad_identities db). ident_key i = (t, ''device_id'', d))"
    using assms(4) identity_lookup_iff [OF iok] by (metis option.distinct(1))
  then have new: "id_asset j = b \<and> (id_type j, id_value j) \<in> set (identifiers obs)"
    using b(2,3) j(1,2) unfolding binding_step_def by metis
  then have ab: "a = b" using j(3) by simp
  have dev: "truthy (ob_device_id obs) = Some d"
    using new j(2) identifiers_device [of d obs] by (simp add: ident_key_def)
  show ?thesis
  proof (rule ccontr)
    assume "asset_device_identity t a db \<noteq> None"
    then obtain i where i: "i \<in> set (ad_identities db)" "id_tenant i = t" "id_asset i = a" "id_type i = ''device_id''"
        "asset_device_identity t a db = Some (id_value i)"
      unfolding asset_device_identity_def by (auto simp: find_Some_iff dest: nth_mem)
    have "asset_active (ad_assets db) t a" "id_value i \<noteq> []" using iok i by (auto simp: idents_ok_def)
    then have "a \<in> as_id ` set (ad_assets db)" by (auto simp: asset_active_def)
    with b(4) ab obtain rule where res: "resolve t obs (identifiers obs) db = Some (a, rule)" by blast
    from resolve_bound [OF assms(1) res] obtain ty v where m: "(ty, v) \<in> set (identifiers obs)"
        "identity_lookup t ty v db = Some a"
        "ty = ''device_id'' \<or> truthy (ob_device_id obs) = None \<or> truthy (asset_device_identity t a db) = None
         \<or> truthy (asset_device_identity t a db) = truthy (ob_device_id obs)" by blast
    have "ty \<noteq> ''device_id''"
    proof
      assume ty: "ty = ''device_id''"
      with m(1) identifiers_device [of v obs] dev have "v = d" by simp
      with ty m(2) assms(4) show False by simp
    qed
    with m(3) dev i(5) \<open>id_value i \<noteq> []\<close> have "id_value i = d" by (simp add: truthy_def)
    with i have "ident_key i = (t, ''device_id'', d)" by (simp add: ident_key_def)
    with unbound i(1) show False by blast
  qed
qed

definition second_inventory :: asset_db where
  "second_inventory = fst (projr (handle demo_aware ''a2'' [''i4'', ''i5'', ''i6''] ''t1'' (demo_observation ''d2'') [] demo_inventory))"

lemma second_inventory_step:
  "handle demo_aware ''a2'' [''i4'', ''i5'', ''i6''] ''t1'' (demo_observation ''d2'') [] demo_inventory = Inr (second_inventory, outcome.Ok)"
  by code_simp

theorem agents_stay_separate_witness:
  "identity_lookup ''t1'' ''device_id'' ''d2'' second_inventory = Some ''a2'' \<and> asset_device_identity ''t1'' ''a2'' demo_inventory = None"
proof -
  have "row_ids_ok [''i4'', ''i5'', ''i6''] demo_inventory" "identity_lookup ''t1'' ''device_id'' ''d2'' demo_inventory = None"
    and a2: "identity_lookup ''t1'' ''device_id'' ''d2'' second_inventory = Some ''a2''"
    by code_simp+
  from agents_stay_separate [OF demo_inventory_ok this(1) second_inventory_step this(2) a2] a2 show ?thesis by blast
qed

text \<open>a merge redirects everything. When a merge of distinct assets succeeds, the first asset stays
  active, the others are no longer active, and every identifier that was bound to one of them is bound
  and pinned to the survivor, so later observations go to the survivor.\<close>

theorem merge_redirects:
  assumes "inventory_ok db" "merge_assets who asset_ids reason db = Inr db'"
    and "rmap uuid_or_404 (dict_fromkeys [] asset_ids) = Inr (s # os)" "distinct (s # os)"
  shows "asset_active (ad_assets db') (pr_tenant who) s \<and> (\<forall>a \<in> set os. \<not> asset_active (ad_assets db') (pr_tenant who) a)
    \<and> (\<forall>i \<in> set (ad_identities db). id_tenant i = pr_tenant who \<and> id_asset i \<in> set os \<longrightarrow>
         identity_lookup (pr_tenant who) (id_type i) (id_value i) db' = Some s
       \<and> pin_lookup (pr_tenant who) (id_type i) (id_value i) db' = Some s)"
proof -
  have m: "check_mergeable (pr_tenant who) (s # os) db = Inr ()" "db' = merge_into who s os reason db"
    using assms(2,3) by (auto elim: merge_assets_cases)
  have act: "asset_active (ad_assets db) (pr_tenant who) s" by (rule check_mergeable_active [OF m(1)]) simp
  have new: "s \<notin> set os" using assms(4) by simp
  obtain f where f: "ad_assets db' = map f (ad_assets db)"
      "\<And>r. as_id (f r) = as_id r" "\<And>r. as_tenant (f r) = as_tenant r"
      "\<And>r. as_state (f r) = (if as_tenant r = pr_tenant who \<and> as_id r \<in> set os then Merged else as_state r)"
    using merge_into_tables(3) [of who s os reason db] unfolding m(2) by blast
  obtain r where "r \<in> set (ad_assets db)" "as_tenant r = pr_tenant who" "as_id r = s" "as_state r = Active"
    using act unfolding asset_active_def by blast
  then have "asset_active (ad_assets db') (pr_tenant who) s"
    unfolding asset_active_def f(1) by (intro bexI [of _ "f r"]) (simp_all add: f(2-4) new)
  moreover have "\<not> asset_active (ad_assets db') (pr_tenant who) a" if "a \<in> set os" for a
    using that unfolding asset_active_def f(1) by (auto simp: f(2-4))
  moreover note merge_into_ok [OF assms(1) act new, of reason]
  ultimately show ?thesis unfolding m(2) by blast
qed

definition two_assets :: asset_db where
  "two_assets = (let row = (\<lambda>n. \<lparr>as_id = uuid_str n, as_tenant = ''t1'', as_hostname = None, as_os_family = None,
       as_os_name = None, as_os_version = None, as_ip = None, as_mac = None, as_sources = [''agent''],
       as_agent_status = ''none'', as_billable = True, as_state = Active, as_merged_into = None, as_dedup_rule = None,
       as_created_via = ''log_ingest'', as_first_seen = 0, as_last_seen = 0\<rparr>) in
     empty_inventory\<lparr>ad_assets := [row 1, row 2],
       ad_identities := [\<lparr>id_id = ''i1'', id_tenant = ''t1'', id_asset = uuid_str 2, id_source = ''agent'', id_type = ''mac'',
         id_value = ''m'', id_first_seen = 0, id_last_seen = 0\<rparr>]\<rparr>)"

lemma uuid_str_neq: "m < 2 ^ 128 \<Longrightarrow> n < 2 ^ 128 \<Longrightarrow> m \<noteq> n \<Longrightarrow> uuid_str m \<noteq> uuid_str n"
  using uuid_of_str by (metis option.inject)

theorem merge_redirects_witness:
  "\<exists>db'. merge_assets demo_user [uuid_str 1, uuid_str 2] ''same host'' two_assets = Inr db'
     \<and> identity_lookup ''t1'' ''mac'' ''m'' db' = Some (uuid_str 1)"
proof -
  have ne: "uuid_str 1 \<noteq> uuid_str 2" by (rule uuid_str_neq) simp_all
  have u: "pr_tenant demo_user = ''t1''" by (simp add: demo_user_def)
  have "uuid_of (uuid_str 1) = Some 1" "uuid_of (uuid_str 2) = Some 2" by (rule uuid_of_str, simp)+
  then have ids: "rmap uuid_or_404 (dict_fromkeys [] [uuid_str 1, uuid_str 2]) = Inr [uuid_str 1, uuid_str 2]"
    using ne by (simp add: uuid_or_404_def parse_uuid_def)
  have ok: "inventory_ok two_assets"
    using ne by (simp add: two_assets_def empty_inventory_def inventory_ok_def idents_ok_def pins_ok_def asset_active_def)
  have "\<exists>r. find_asset ''t1'' (uuid_str 1) two_assets = Some r \<and> as_state r = Active"
    "\<exists>r. find_asset ''t1'' (uuid_str 2) two_assets = Some r \<and> as_state r = Active"
    using ne by (auto simp: find_asset_def visible_def two_assets_def)
  then have "check_mergeable ''t1'' [uuid_str 1, uuid_str 2] two_assets = Inr ()" by auto
  then have m: "merge_assets demo_user [uuid_str 1, uuid_str 2] ''same host'' two_assets
      = Inr (merge_into demo_user (uuid_str 1) [uuid_str 2] ''same host'' two_assets)"
    unfolding merge_assets_def ids by (simp add: u)
  have "distinct [uuid_str 1, uuid_str 2]" using ne by simp
  from merge_redirects [OF ok m ids this] m show ?thesis by (auto simp: u two_assets_def)
qed

end
