(* ===== verification/Stream_Consumer.thy ===== *)
theory Stream_Consumer
  imports Ids
begin

section \<open>The pipeline transport\<close>

text \<open>
  \<^verbatim>\<open>packages/pipeline\<close>: the message envelope (\<^verbatim>\<open>messages.py\<close>), the producer (\<^verbatim>\<open>producer.py\<close>) and the
  consumer-group consumer (\<^verbatim>\<open>consumer.py\<close>).

  Redis is the record \<open>redis_client\<close> of the commands the consumer issues, over an arbitrary server
  state; what the retry bound needs of it is the predicate \<open>redis_laws\<close>, the documented effect of
  the commands on a group's pending entries. The handler (with the tenant context around it) and the
  dead-letter callback are arbitrary functions on an arbitrary world that may raise. JSON
  serialisation is the record \<open>json_codec\<close>. A field a raw entry holds is its UTF-8 decoding, \<open>None\<close>
  when it has none.

  Next to the two states the model keeps the list of effects in the order in which they
  happened: a handler call and its outcome, a completed dead-letter callback, an XACK. A crash of the
  process between two effects leaves a prefix of that list, so a statement about every prefix is a
  statement about crashes too.
\<close>

subsection \<open>Messages\<close>

record json_codec =
  dumps :: "obj \<Rightarrow> string"
  loads :: "string \<Rightarrow> json option"

record pipeline_message =
  pm_tenant :: nat
  pm_trace :: string
  pm_payload :: obj

record received_message =
  rm_stream :: string
  rm_id :: string
  rm_tenant :: nat
  rm_trace :: string
  rm_payload :: obj
  rm_delivery_count :: nat

datatype pipe_exc =
    Malformed string
  | UnicodeDecodeError
  | CallbackError string
  | ResponseError string
  | ValueError string

type_synonym raw_fields = "(string option \<times> string option) list"

definition TENANT_ID_FIELD :: string where "TENANT_ID_FIELD = ''tenant_id''"
definition TRACE_ID_FIELD :: string where "TRACE_ID_FIELD = ''trace_id''"
definition PAYLOAD_FIELD :: string where "PAYLOAD_FIELD = ''payload''"

definition message_to_fields :: "json_codec \<Rightarrow> pipeline_message \<Rightarrow> (string \<times> string) list" where
  "message_to_fields codec m =
     [(TENANT_ID_FIELD, uuid_str (pm_tenant m)), (TRACE_ID_FIELD, pm_trace m),
      (PAYLOAD_FIELD, dumps codec (pm_payload m))]"

definition encode_fields :: "(string \<times> string) list \<Rightarrow> raw_fields" where
  "encode_fields = map (\<lambda>(k, v). (Some k, Some v))"

definition decode :: "string option \<Rightarrow> pipe_exc + string" where
  "decode raw = (case raw of None \<Rightarrow> Inl UnicodeDecodeError | Some s \<Rightarrow> Inr s)"

text \<open>A dict comprehension: a later entry replaces the value of an equal key.\<close>

definition decode_fields :: "raw_fields \<Rightarrow> pipe_exc + (string \<times> string) list" where
  "decode_fields raw =
     rbind (rmap (\<lambda>(k, v). rbind (decode k) (\<lambda>k'. rbind (decode v) (\<lambda>v'. Inr (k', v')))) raw)
       (\<lambda>kvs. Inr (foldl (\<lambda>d (k, v). AList.update k v d) [] kvs))"

definition fields_to_message :: "json_codec \<Rightarrow> raw_fields \<Rightarrow> pipe_exc + pipeline_message" where
  "fields_to_message codec raw = rbind (decode_fields raw) (\<lambda>decoded.
     case (map_of decoded TENANT_ID_FIELD, map_of decoded TRACE_ID_FIELD, map_of decoded PAYLOAD_FIELD) of
       (Some tenant_raw, Some trace_id, Some payload_raw) \<Rightarrow>
         if tenant_raw = [] \<or> trace_id = []
         then Inl (Malformed ''pipeline message must carry tenant_id, trace_id, and payload'')
         else (case uuid_of tenant_raw of
             None \<Rightarrow> Inl (Malformed ''invalid tenant_id in envelope'')
           | Some tenant \<Rightarrow>
               (case loads codec payload_raw of
                  None \<Rightarrow> Inl (Malformed ''payload is not valid JSON'')
                | Some (JObj payload) \<Rightarrow>
                    Inr \<lparr>pm_tenant = tenant, pm_trace = trace_id, pm_payload = payload\<rparr>
                | Some _ \<Rightarrow> Inl (Malformed ''payload must be a JSON object'')))
     | _ \<Rightarrow> Inl (Malformed ''pipeline message must carry tenant_id, trace_id, and payload''))"

subsection \<open>Producer\<close>

definition ALL_STREAMS :: "string list" where
  "ALL_STREAMS = [''pipe:raw'', ''pipe:normalized'', ''pipe:detections'', ''pipe:alerts.triage'', ''pipe:asset.observations'']"

definition DEFAULT_MAX_DELIVERY_ATTEMPTS :: nat where "DEFAULT_MAX_DELIVERY_ATTEMPTS = 5"
definition DEFAULT_MIN_IDLE_MS :: nat where "DEFAULT_MIN_IDLE_MS = 60000"

text \<open>What \<^verbatim>\<open>publish\<close> hands to XADD, or the error it raises before any I/O.\<close>

definition publish :: "json_codec \<Rightarrow> string list \<Rightarrow> string \<Rightarrow> string \<Rightarrow> string \<Rightarrow> obj \<Rightarrow> pipe_exc + (string \<times> string) list" where
  "publish codec allowed stream tenant_id trace_id payload =
     (if stream \<notin> set allowed then Inl (ValueError ''unknown stream'')
      else case uuid_of tenant_id of
        None \<Rightarrow> Inl (ValueError ''badly formed hexadecimal UUID string'')
      | Some u \<Rightarrow>
          if trace_id = [] then Inl (ValueError ''trace_id'')
          else Inr (message_to_fields codec \<lparr>pm_tenant = u, pm_trace = trace_id, pm_payload = payload\<rparr>))"

subsection \<open>Consumer\<close>

record dead_lettered =
  dm_stream :: string
  dm_group :: string
  dm_id :: string
  dm_fields :: "(string \<times> string) list"
  dm_error_code :: string
  dm_error_detail :: string
  dm_tenant :: "string option"
  dm_trace :: "string option"
  dm_delivery_count :: nat

datatype effect =
    Handled received_message bool
  | DeadLettered dead_lettered
  | Acked string

record 's redis_client =
  xreadgroup :: "nat \<Rightarrow> 's \<Rightarrow> (string \<times> raw_fields) list \<times> 's"
  xautoclaim :: "nat \<Rightarrow> nat \<Rightarrow> 's \<Rightarrow> (string \<times> raw_fields option) list \<times> 's"
  xpending :: "'s \<Rightarrow> string \<Rightarrow> nat option"
  xack :: "string \<Rightarrow> 's \<Rightarrow> 's"

record 'w consumer =
  c_stream :: string
  c_group :: string
  c_handler :: "received_message \<Rightarrow> 'w \<Rightarrow> string option \<times> 'w"
  c_dead_letter :: "dead_lettered \<Rightarrow> 'w \<Rightarrow> string option \<times> 'w"
  c_max :: nat
  c_min_idle :: nat
  c_batch :: nat
  c_codec :: json_codec

record ('s, 'w) sys =
  redis :: 's
  world :: 'w
  effects :: "effect list"

text \<open>A step returns the exception that escapes it, if any, and the state it leaves.\<close>

type_synonym ('s, 'w) step = "('s, 'w) sys \<Rightarrow> pipe_exc option \<times> ('s, 'w) sys"

definition and_then :: "('s, 'w) step \<Rightarrow> ('s, 'w) step \<Rightarrow> ('s, 'w) step" where
  "and_then f g s = (case f s of (None, s') \<Rightarrow> g s' | (Some e, s') \<Rightarrow> (Some e, s'))"

definition ack :: "'s redis_client \<Rightarrow> string \<Rightarrow> ('s, 'w) step" where
  "ack R mid s = (None, s\<lparr>redis := xack R mid (redis s), effects := effects s @ [Acked mid]\<rparr>)"

definition delivery_count :: "'s redis_client \<Rightarrow> string \<Rightarrow> 's \<Rightarrow> nat" where
  "delivery_count R mid r = (case xpending R r mid of None \<Rightarrow> 1 | Some n \<Rightarrow> n)"

definition to_dead_letter :: "'w consumer \<Rightarrow> string \<Rightarrow> raw_fields \<Rightarrow> string \<Rightarrow> string \<Rightarrow> nat \<Rightarrow> ('s, 'w) step" where
  "to_dead_letter con mid raw code detail count s =
     (case decode_fields raw of
        Inl e \<Rightarrow> (Some e, s)
      | Inr decoded \<Rightarrow>
          let d = \<lparr>dm_stream = c_stream con, dm_group = c_group con, dm_id = mid, dm_fields = decoded,
                   dm_error_code = code, dm_error_detail = detail,
                   dm_tenant = map_of decoded ''tenant_id'', dm_trace = map_of decoded ''trace_id'',
                   dm_delivery_count = count\<rparr> in
          (case c_dead_letter con d (world s) of
             (Some err, w) \<Rightarrow> (Some (CallbackError err), s\<lparr>world := w\<rparr>)
           | (None, w) \<Rightarrow> (None, s\<lparr>world := w, effects := effects s @ [DeadLettered d]\<rparr>)))"

definition process :: "'s redis_client \<Rightarrow> 'w consumer \<Rightarrow> string \<Rightarrow> raw_fields \<Rightarrow> nat \<Rightarrow> ('s, 'w) step" where
  "process R con mid raw count s =
     (case fields_to_message (c_codec con) raw of
        Inl (Malformed detail) \<Rightarrow>
          and_then (to_dead_letter con mid raw ''MALFORMED_PIPELINE_MESSAGE'' detail count) (ack R mid) s
      | Inl e \<Rightarrow> (Some e, s)
      | Inr envelope \<Rightarrow>
          let message = \<lparr>rm_stream = c_stream con, rm_id = mid, rm_tenant = pm_tenant envelope,
                         rm_trace = pm_trace envelope, rm_payload = pm_payload envelope,
                         rm_delivery_count = count\<rparr> in
          (case c_handler con message (world s) of
             (Some err, w) \<Rightarrow>
               let s1 = s\<lparr>world := w, effects := effects s @ [Handled message False]\<rparr> in
               if count \<ge> c_max con
               then and_then (to_dead_letter con mid raw ''HANDLER_FAILED'' err count) (ack R mid) s1
               else (None, s1)
           | (None, w) \<Rightarrow>
               ack R mid (s\<lparr>world := w, effects := effects s @ [Handled message True]\<rparr>)))"

fun process_new :: "'s redis_client \<Rightarrow> 'w consumer \<Rightarrow> (string \<times> raw_fields) list \<Rightarrow> ('s, 'w) step" where
  "process_new R con [] s = (None, s)"
| "process_new R con ((mid, raw) # es) s = and_then (process R con mid raw 1) (process_new R con es) s"

definition poll_once :: "'s redis_client \<Rightarrow> 'w consumer \<Rightarrow> ('s, 'w) step" where
  "poll_once R con s =
     (case xreadgroup R (c_batch con) (redis s) of (es, r) \<Rightarrow> process_new R con es (s\<lparr>redis := r\<rparr>))"

definition process_claimed :: "'s redis_client \<Rightarrow> 'w consumer \<Rightarrow> string \<Rightarrow> raw_fields \<Rightarrow> ('s, 'w) step" where
  "process_claimed R con mid raw s =
     (let count = delivery_count R mid (redis s) in
      if count \<ge> c_max con
      then and_then (to_dead_letter con mid raw ''MAX_DELIVERY_ATTEMPTS_EXCEEDED''
                       (nat_to_dec count @ '' delivery attempts (limit '' @ nat_to_dec (c_max con) @ '')'') count)
                    (ack R mid) s
      else process R con mid raw count s)"

fun process_stuck :: "'s redis_client \<Rightarrow> 'w consumer \<Rightarrow> (string \<times> raw_fields option) list \<Rightarrow> ('s, 'w) step" where
  "process_stuck R con [] s = (None, s)"
| "process_stuck R con ((mid, None) # es) s = process_stuck R con es s"
| "process_stuck R con ((mid, Some raw) # es) s =
     and_then (process_claimed R con mid raw) (process_stuck R con es) s"

definition claim_stuck_once :: "'s redis_client \<Rightarrow> 'w consumer \<Rightarrow> ('s, 'w) step" where
  "claim_stuck_once R con s =
     (case xautoclaim R (c_min_idle con) (c_batch con) (redis s) of
        (es, r) \<Rightarrow> process_stuck R con es (s\<lparr>redis := r\<rparr>))"

text \<open>The reply to XGROUP CREATE is an argument; \<open>None\<close> is success.\<close>

definition ensure_group :: "string option \<Rightarrow> pipe_exc option" where
  "ensure_group reply = (case reply of None \<Rightarrow> None
     | Some msg \<Rightarrow> if str_contains msg ''BUSYGROUP'' then None else Some (ResponseError msg))"

text \<open>The loop of \<^verbatim>\<open>run\<close>, for the clock readings of the iterations until \<^verbatim>\<open>stop\<close> is set. Between two
  iterations the server state may change (producers, trimming, the passing of time): that is the
  function paired with each reading.\<close>

fun run_loop :: "'s redis_client \<Rightarrow> 'w consumer \<Rightarrow> rat \<Rightarrow> (rat \<times> ('s \<Rightarrow> 's)) list \<Rightarrow> rat \<Rightarrow> ('s, 'w) step" where
  "run_loop R con interval [] last_claim s = (None, s)"
| "run_loop R con interval ((now, env) # ticks) last_claim s =
     and_then (poll_once R con)
       (\<lambda>s1. if now - last_claim \<ge> interval
             then and_then (claim_stuck_once R con) (run_loop R con interval ticks now) s1
             else run_loop R con interval ticks last_claim s1)
       (s\<lparr>redis := env (redis s)\<rparr>)"

definition run :: "'s redis_client \<Rightarrow> 'w consumer \<Rightarrow> string option \<Rightarrow> rat \<Rightarrow> (rat \<times> ('s \<Rightarrow> 's)) list \<Rightarrow> ('s, 'w) step" where
  "run R con reply interval ticks s =
     (case ensure_group reply of Some e \<Rightarrow> (Some e, s) | None \<Rightarrow> run_loop R con interval ticks 0 s)"


subsection \<open>What a step adds to the effects\<close>

definition settles :: "string \<Rightarrow> effect \<Rightarrow> bool" where
  "settles mid e = (case e of Handled m ok \<Rightarrow> rm_id m = mid \<and> ok | DeadLettered d \<Rightarrow> dm_id d = mid | Acked _ \<Rightarrow> False)"

definition settled :: "effect list \<Rightarrow> string \<Rightarrow> bool" where
  "settled es mid = list_ex (settles mid) es"

text \<open>Every XACK in the list comes after a completed handler or dead-letter call for its entry.\<close>

definition acks_justified :: "effect list \<Rightarrow> bool" where
  "acks_justified es \<longleftrightarrow> (\<forall>pre mid post. es = pre @ Acked mid # post \<longrightarrow> settled pre mid)"

lemma acks_justified_Nil [simp]: "acks_justified []"
  by (simp add: acks_justified_def)

lemma acks_justified_snoc:
  "acks_justified (es @ [e]) \<longleftrightarrow> acks_justified es \<and> (\<forall>mid. e = Acked mid \<longrightarrow> settled es mid)"
proof
  assume a: "acks_justified (es @ [e])"
  then have "acks_justified es" unfolding acks_justified_def by (metis append_Cons append_assoc)
  moreover have "settled es mid" if "e = Acked mid" for mid
    using a that unfolding acks_justified_def by blast
  ultimately show "acks_justified es \<and> (\<forall>mid. e = Acked mid \<longrightarrow> settled es mid)" by blast
next
  assume a: "acks_justified es \<and> (\<forall>mid. e = Acked mid \<longrightarrow> settled es mid)"
  show "acks_justified (es @ [e])"
    unfolding acks_justified_def
  proof (intro allI impI)
    fix pre mid post assume eq: "es @ [e] = pre @ Acked mid # post"
    show "settled pre mid"
    proof (cases post rule: rev_cases)
      case Nil
      with eq have "es = pre" "e = Acked mid" by simp_all
      with a show ?thesis by blast
    next
      case (snoc post' x)
      with eq have "es = pre @ Acked mid # post'" by simp
      with a show ?thesis unfolding acks_justified_def by blast
    qed
  qed
qed

lemma settled_snoc: "settled (es @ [e]) mid \<longleftrightarrow> settled es mid \<or> settles mid e"
  by (auto simp: settled_def)

text \<open>One entry's processing: at most one handler call, then perhaps a dead letter, then perhaps an
  XACK, which is justified. \<open>entry_effects\<close> lists the shapes.\<close>

definition attempts :: "string \<Rightarrow> effect list \<Rightarrow> nat" where
  "attempts mid es = length (filter (\<lambda>e. case e of Handled m _ \<Rightarrow> rm_id m = mid | _ \<Rightarrow> False) es)"

lemma attempts_Nil [simp]: "attempts mid [] = 0"
  by (simp add: attempts_def)

lemma attempts_append [simp]: "attempts mid (es @ fs) = attempts mid es + attempts mid fs"
  by (simp add: attempts_def)

lemma attempts_Cons [simp]:
  "attempts mid (Handled m ok # es) = (if rm_id m = mid then 1 else 0) + attempts mid es"
  "attempts mid (DeadLettered d # es) = attempts mid es"
  "attempts mid (Acked i # es) = attempts mid es"
  by (simp_all add: attempts_def)

definition handler_failed :: "effect list \<Rightarrow> bool" where
  "handler_failed es = list_ex (\<lambda>e. case e of DeadLettered d \<Rightarrow> dm_error_code d = ''HANDLER_FAILED'' | _ \<Rightarrow> False) es"

inductive entry_effects :: "nat \<Rightarrow> bool \<Rightarrow> string \<Rightarrow> bool \<Rightarrow> effect list \<Rightarrow> bool" for calls last_try mid where
  nothing: "entry_effects calls last_try mid False []"
| failed: "rm_id m = mid \<Longrightarrow> 0 < calls \<Longrightarrow> entry_effects calls last_try mid False [Handled m False]"
| handled: "rm_id m = mid \<Longrightarrow> 0 < calls \<Longrightarrow> entry_effects calls last_try mid True [Handled m True, Acked mid]"
| dead: "dm_id d = mid \<Longrightarrow> dm_error_code d \<noteq> ''HANDLER_FAILED'' \<Longrightarrow>
    entry_effects calls last_try mid True [DeadLettered d, Acked mid]"
| gave_up: "rm_id m = mid \<Longrightarrow> dm_id d = mid \<Longrightarrow> 0 < calls \<Longrightarrow> last_try \<Longrightarrow>
    entry_effects calls last_try mid True [Handled m False, DeadLettered d, Acked mid]"

lemma to_dead_letter_cases:
  obtains e w where "to_dead_letter con mid raw code detail count s = (Some e, s\<lparr>world := w\<rparr>)"
  | d w where "to_dead_letter con mid raw code detail count s
      = (None, s\<lparr>world := w, effects := effects s @ [DeadLettered d]\<rparr>)" "dm_id d = mid" "dm_error_code d = code"
proof (cases "decode_fields raw")
  case (Inl e)
  then have "to_dead_letter con mid raw code detail count s = (Some e, s\<lparr>world := world s\<rparr>)"
    by (simp add: to_dead_letter_def)
  then show ?thesis by (rule that(1))
next
  case (Inr decoded)
  define d where "d = \<lparr>dm_stream = c_stream con, dm_group = c_group con, dm_id = mid, dm_fields = decoded,
      dm_error_code = code, dm_error_detail = detail,
      dm_tenant = map_of decoded ''tenant_id'', dm_trace = map_of decoded ''trace_id'', dm_delivery_count = count\<rparr>"
  obtain r w where cb: "c_dead_letter con d (world s) = (r, w)" by fastforce
  have eq: "to_dead_letter con mid raw code detail count s = (case r of
      Some err \<Rightarrow> (Some (CallbackError err), s\<lparr>world := w\<rparr>)
    | None \<Rightarrow> (None, s\<lparr>world := w, effects := effects s @ [DeadLettered d]\<rparr>))"
    unfolding to_dead_letter_def Inr using cb by (simp add: d_def [symmetric] Let_def split: option.splits)
  show ?thesis
  proof (cases r)
    case None
    show ?thesis by (rule that(2) [where d = d and w = w]) (simp_all add: eq None, simp_all add: d_def)
  next
    case (Some err)
    show ?thesis by (rule that(1)) (simp add: eq Some)
  qed
qed

lemma dead_letter_ack_cases:
  obtains e w where "and_then (to_dead_letter con mid raw code detail count) (ack R mid) s = (Some e, s\<lparr>world := w\<rparr>)"
  | d w where "and_then (to_dead_letter con mid raw code detail count) (ack R mid) s
      = (None, s\<lparr>world := w, redis := xack R mid (redis s), effects := effects s @ [DeadLettered d, Acked mid]\<rparr>)"
      "dm_id d = mid" "dm_error_code d = code"
proof (cases rule: to_dead_letter_cases [of con mid raw code detail count s])
  case (1 e w)
  show ?thesis by (rule that(1)) (simp add: and_then_def 1)
next
  case (2 d w)
  show ?thesis by (rule that(2) [where d = d and w = w]) (simp_all add: and_then_def ack_def 2)
qed

definition entry_step :: "'s redis_client \<Rightarrow> nat \<Rightarrow> bool \<Rightarrow> string \<Rightarrow> ('s, 'w) sys \<Rightarrow> pipe_exc option \<times> ('s, 'w) sys \<Rightarrow> bool" where
  "entry_step R calls last_try mid s out \<longleftrightarrow> (\<exists>acked l. entry_effects calls last_try mid acked l
     \<and> effects (snd out) = effects s @ l
     \<and> redis (snd out) = (if acked then xack R mid (redis s) else redis s)
     \<and> (fst out = None \<longrightarrow> l \<noteq> []))"

lemma process_entry_step: "entry_step R 1 (c_max con \<le> count) mid s (process R con mid raw count s)"
proof (cases "fields_to_message (c_codec con) raw")
  case (Inl e)
  show ?thesis
  proof (cases "\<exists>detail. e = Malformed detail")
    case True
    then obtain detail where e: "e = Malformed detail" by blast
    have eq: "process R con mid raw count s =
        and_then (to_dead_letter con mid raw ''MALFORMED_PIPELINE_MESSAGE'' detail count) (ack R mid) s"
      by (simp add: process_def Inl e)
    show ?thesis
    proof (cases rule: dead_letter_ack_cases [of con mid raw "''MALFORMED_PIPELINE_MESSAGE''" detail count R s])
      case (1 e w)
      then show ?thesis unfolding eq entry_step_def
        by (intro exI [of _ False] exI [of _ "[]"]) (simp add: entry_effects.intros)
    next
      case (2 d w)
      then show ?thesis unfolding eq entry_step_def
        by (intro exI [of _ True] exI [of _ "[DeadLettered d, Acked mid]"]) (simp add: entry_effects.intros)
    qed
  next
    case False
    then have "process R con mid raw count s = (Some e, s)"
      by (cases e) (simp_all add: process_def Inl)
    then show ?thesis unfolding entry_step_def
      by (intro exI [of _ False] exI [of _ "[]"]) (simp add: entry_effects.intros)
  qed
next
  case (Inr envelope)
  define m where "m = \<lparr>rm_stream = c_stream con, rm_id = mid, rm_tenant = pm_tenant envelope,
      rm_trace = pm_trace envelope, rm_payload = pm_payload envelope, rm_delivery_count = count\<rparr>"
  obtain r w where h: "c_handler con m (world s) = (r, w)" by fastforce
  have mid: "rm_id m = mid" by (simp add: m_def)
  have eq: "process R con mid raw count s = (case r of
      Some err \<Rightarrow> let s1 = s\<lparr>world := w, effects := effects s @ [Handled m False]\<rparr> in
        if count \<ge> c_max con
        then and_then (to_dead_letter con mid raw ''HANDLER_FAILED'' err count) (ack R mid) s1
        else (None, s1)
    | None \<Rightarrow> ack R mid (s\<lparr>world := w, effects := effects s @ [Handled m True]\<rparr>))"
    unfolding process_def Inr using h by (simp add: m_def [symmetric] Let_def split: option.splits)
  show ?thesis
  proof (cases r)
    case None
    then show ?thesis unfolding eq entry_step_def
      by (intro exI [of _ True] exI [of _ "[Handled m True, Acked mid]"]) (simp add: ack_def mid entry_effects.intros)
  next
    case (Some err)
    define s1 where "s1 = s\<lparr>world := w, effects := effects s @ [Handled m False]\<rparr>"
    show ?thesis
    proof (cases "count < c_max con")
      case True
      then show ?thesis unfolding eq entry_step_def using Some
        by (intro exI [of _ False] exI [of _ "[Handled m False]"]) (simp add: mid entry_effects.intros)
    next
      case False
      then have eq': "process R con mid raw count s
          = and_then (to_dead_letter con mid raw ''HANDLER_FAILED'' err count) (ack R mid) s1"
        unfolding eq Some by (simp add: s1_def)
      show ?thesis
      proof (cases rule: dead_letter_ack_cases [of con mid raw "''HANDLER_FAILED''" err count R s1])
        case (1 e w)
        then show ?thesis unfolding eq' entry_step_def
          by (intro exI [of _ False] exI [of _ "[Handled m False]"]) (simp add: s1_def mid entry_effects.intros)
      next
        case (2 d w)
        then show ?thesis unfolding eq' entry_step_def using False
          by (intro exI [of _ True] exI [of _ "[Handled m False, DeadLettered d, Acked mid]"])
            (simp add: s1_def mid entry_effects.intros)
      qed
    qed
  qed
qed

lemma process_claimed_entry_step:
  fixes R :: "'s redis_client" and mid :: string and s :: "('s, 'w) sys"
  defines "count \<equiv> delivery_count R mid (redis s)"
  shows "entry_step R (if count < c_max con then 1 else 0) False mid s (process_claimed R con mid raw s)"
proof (cases "count < c_max con")
  case True
  then show ?thesis
    using process_entry_step [of R con count mid s raw] by (simp add: process_claimed_def count_def Let_def not_le [symmetric])
next
  case False
  define detail where "detail = nat_to_dec count @ '' delivery attempts (limit '' @ nat_to_dec (c_max con) @ '')''"
  have eq: "process_claimed R con mid raw s =
      and_then (to_dead_letter con mid raw ''MAX_DELIVERY_ATTEMPTS_EXCEEDED'' detail count) (ack R mid) s"
    using False by (simp add: process_claimed_def detail_def count_def Let_def)
  show ?thesis
  proof (cases rule: dead_letter_ack_cases [of con mid raw "''MAX_DELIVERY_ATTEMPTS_EXCEEDED''" detail count R s])
    case (1 e w)
    then show ?thesis unfolding eq entry_step_def
      by (intro exI [of _ False] exI [of _ "[]"]) (simp add: entry_effects.intros)
  next
    case (2 d w)
    then show ?thesis unfolding eq entry_step_def
      by (intro exI [of _ True] exI [of _ "[DeadLettered d, Acked mid]"]) (simp add: entry_effects.intros)
  qed
qed

subsection \<open>Acknowledgement only after an effect\<close>

lemma entry_effects_justified:
  assumes "entry_effects calls last_try mid acked l" "acks_justified es"
  shows "acks_justified (es @ l)"
proof -
  have two: "es @ [a, b] = (es @ [a]) @ [b]" for es and a b :: effect by simp
  have three: "es @ [a, b, c] = ((es @ [a]) @ [b]) @ [c]" for es and a b c :: effect by simp
  show ?thesis
    using assms
    by cases (simp_all only: two three acks_justified_snoc settled_snoc, simp_all add: settles_def acks_justified_snoc)
qed

definition keeps_justified :: "('s, 'w) step \<Rightarrow> bool" where
  "keeps_justified f \<longleftrightarrow> (\<forall>s. acks_justified (effects s) \<longrightarrow> acks_justified (effects (snd (f s))))"

lemma keeps_justified_entry:
  "(\<And>s. entry_step R (calls s) (last_try s) mid s (f s)) \<Longrightarrow> keeps_justified f"
  unfolding keeps_justified_def entry_step_def by (metis entry_effects_justified)

lemma keeps_justified_process: "keeps_justified (process R con mid raw count)"
  by (rule keeps_justified_entry [where f = "process R con mid raw count"]) (rule process_entry_step)

lemma keeps_justified_process_claimed: "keeps_justified (process_claimed R con mid raw)"
  by (rule keeps_justified_entry [where f = "process_claimed R con mid raw"]) (rule process_claimed_entry_step)

lemma keeps_justified_and_then:
  "keeps_justified f \<Longrightarrow> keeps_justified g \<Longrightarrow> keeps_justified (and_then f g)"
  unfolding keeps_justified_def and_then_def by (fastforce split: prod.split option.split)

lemma keeps_justified_process_new: "keeps_justified (process_new R con es)"
proof (induction es)
  case Nil
  then show ?case by (simp add: keeps_justified_def)
next
  case (Cons e es)
  obtain mid raw where e: "e = (mid, raw)" by fastforce
  have "process_new R con (e # es) = and_then (process R con mid raw 1) (process_new R con es)"
    by (rule ext) (simp add: e)
  with Cons keeps_justified_process [of R con mid raw 1] show ?case
    by (simp add: keeps_justified_and_then)
qed

lemma keeps_justified_process_stuck: "keeps_justified (process_stuck R con es)"
proof (induction es)
  case Nil
  then show ?case by (simp add: keeps_justified_def)
next
  case (Cons e es)
  obtain mid raw where e: "e = (mid, raw)" by fastforce
  show ?case
  proof (cases raw)
    case None
    then have "process_stuck R con (e # es) = process_stuck R con es" by (intro ext) (simp add: e)
    with Cons show ?thesis by simp
  next
    case (Some f)
    then have "process_stuck R con (e # es) = and_then (process_claimed R con mid f) (process_stuck R con es)"
      by (intro ext) (simp add: e)
    with Cons keeps_justified_process_claimed [of R con mid f] show ?thesis
      by (simp add: keeps_justified_and_then)
  qed
qed

lemma keeps_justified_fetch:
  fixes g :: "'s \<Rightarrow> 'e \<times> 's" and f :: "'e \<Rightarrow> ('s, 'w) step"
  assumes "\<And>es. keeps_justified (f es)"
  shows "keeps_justified (\<lambda>s. case g (redis s) of (es, r) \<Rightarrow> f es (s\<lparr>redis := r\<rparr>))"
  unfolding keeps_justified_def
proof (intro allI impI)
  fix s :: "('s, 'w) sys" assume a: "acks_justified (effects s)"
  obtain es r where g: "g (redis s) = (es, r)" by fastforce
  have "acks_justified (effects (snd (f es (s\<lparr>redis := r\<rparr>))))"
    using assms [of es] a unfolding keeps_justified_def by simp
  with g show "acks_justified (effects (snd (case g (redis s) of (es, r) \<Rightarrow> f es (s\<lparr>redis := r\<rparr>))))" by simp
qed

lemma keeps_justified_poll: "keeps_justified (poll_once R con)"
  unfolding poll_once_def [abs_def] by (rule keeps_justified_fetch) (rule keeps_justified_process_new)

lemma keeps_justified_claim: "keeps_justified (claim_stuck_once R con)"
  unfolding claim_stuck_once_def [abs_def] by (rule keeps_justified_fetch) (rule keeps_justified_process_stuck)

lemma keeps_justified_run_loop: "keeps_justified (run_loop R con interval ticks last_claim)"
proof (induction ticks arbitrary: last_claim)
  case Nil
  then show ?case by (simp add: keeps_justified_def)
next
  case (Cons t ticks)
  obtain now env where t: "t = (now, env)" by fastforce
  let ?rest = "\<lambda>s1. if now - last_claim \<ge> interval
             then and_then (claim_stuck_once R con) (run_loop R con interval ticks now) s1
             else run_loop R con interval ticks last_claim s1"
  have "keeps_justified ?rest"
    using Cons [of last_claim] keeps_justified_and_then [OF keeps_justified_claim Cons [of now], of R con]
    unfolding keeps_justified_def by simp
  then have "keeps_justified (and_then (poll_once R con) ?rest)"
    by (rule keeps_justified_and_then [OF keeps_justified_poll])
  then show ?case unfolding keeps_justified_def t run_loop.simps by simp
qed

lemma keeps_justified_run: "keeps_justified (run R con reply interval ticks)"
  using keeps_justified_run_loop [of R con interval ticks 0]
  unfolding keeps_justified_def run_def by (auto split: option.split)

subsection \<open>The retry bound\<close>

text \<open>The documented effect of the commands on a group with one consumer. \<open>delivered\<close> is the set of
  entries the group has ever handed out: XREADGROUP with \<^verbatim>\<open>>\<close> delivers entries never delivered before
  and makes them pending with count 1; XAUTOCLAIM returns pending entries and adds one to their
  count, and drops the pending entries whose stream entry was trimmed; XACK removes one.\<close>

definition redis_laws :: "'s redis_client \<Rightarrow> ('s \<Rightarrow> string set) \<Rightarrow> bool" where
  "redis_laws R delivered \<longleftrightarrow>
     (\<forall>n r es r'. xreadgroup R n r = (es, r') \<longrightarrow>
        distinct (map fst es) \<and> fst ` set es \<inter> delivered r = {} \<and> delivered r' = delivered r \<union> fst ` set es
        \<and> (\<forall>i. xpending R r' i = (if i \<in> fst ` set es then Some 1 else xpending R r i)))
   \<and> (\<forall>t n r es r'. xautoclaim R t n r = (es, r') \<longrightarrow>
        distinct (map fst es) \<and> delivered r' = delivered r
        \<and> (\<forall>i raw. (i, Some raw) \<in> set es \<longrightarrow> (\<exists>k. xpending R r i = Some k \<and> xpending R r' i = Some (Suc k)))
        \<and> (\<forall>i. (i, None) \<in> set es \<longrightarrow> i \<in> delivered r \<and> xpending R r' i = None)
        \<and> (\<forall>i. i \<notin> fst ` set es \<longrightarrow> xpending R r' i = xpending R r i))
   \<and> (\<forall>i r. delivered (xack R i r) = delivered r \<and> xpending R (xack R i r) = (xpending R r)(i := None))
   \<and> (\<forall>i r k. xpending R r i = Some k \<longrightarrow> i \<in> delivered r)"

lemma redis_read:
  assumes "redis_laws R delivered" "xreadgroup R n r = (es, r')"
  shows "distinct (map fst es) \<and> fst ` set es \<inter> delivered r = {} \<and> delivered r' = delivered r \<union> fst ` set es
    \<and> (\<forall>i. xpending R r' i = (if i \<in> fst ` set es then Some 1 else xpending R r i))"
  using conjunct1 [OF assms(1) [unfolded redis_laws_def]] assms(2) by meson

lemma redis_claim:
  assumes "redis_laws R delivered" "xautoclaim R t n r = (es, r')"
  shows "distinct (map fst es) \<and> delivered r' = delivered r
    \<and> (\<forall>i raw. (i, Some raw) \<in> set es \<longrightarrow> (\<exists>k. xpending R r i = Some k \<and> xpending R r' i = Some (Suc k)))
    \<and> (\<forall>i. (i, None) \<in> set es \<longrightarrow> i \<in> delivered r \<and> xpending R r' i = None)
    \<and> (\<forall>i. i \<notin> fst ` set es \<longrightarrow> xpending R r' i = xpending R r i)"
  using conjunct1 [OF conjunct2 [OF assms(1) [unfolded redis_laws_def]]] assms(2) by meson

text \<open>Producers, trimming and time do not touch the group's bookkeeping.\<close>

definition outside_step :: "'s redis_client \<Rightarrow> ('s \<Rightarrow> string set) \<Rightarrow> ('s \<Rightarrow> 's) \<Rightarrow> bool" where
  "outside_step R delivered env \<longleftrightarrow> (\<forall>r. delivered (env r) = delivered r \<and> xpending R (env r) = xpending R r)"

text \<open>How often the handler may have been called for an entry: as often as the entry was delivered,
  not counting deliveries still to be processed (\<open>todo\<close>), and never more than the limit less one.\<close>

definition retry_ok :: "'s redis_client \<Rightarrow> ('s \<Rightarrow> string set) \<Rightarrow> nat \<Rightarrow> string set \<Rightarrow> ('s, 'w) sys \<Rightarrow> bool" where
  "retry_ok R delivered limit todo s \<longleftrightarrow>
     (\<forall>i. attempts i (effects s) \<le> limit - 1
        \<and> (i \<notin> delivered (redis s) \<longrightarrow> attempts i (effects s) = 0)
        \<and> (i \<in> todo \<longrightarrow> (\<exists>k. xpending R (redis s) i = Some (Suc k) \<and> attempts i (effects s) \<le> k))
        \<and> (\<forall>k. xpending R (redis s) i = Some k \<longrightarrow> attempts i (effects s) \<le> k))
     \<and> \<not> handler_failed (effects s)"

lemma entry_effects_attempts:
  assumes "entry_effects calls last_try mid acked l"
  shows "attempts i l \<le> (if i = mid then calls else 0)"
  using assms by cases auto

lemma entry_effects_not_failed:
  "entry_effects calls False mid acked l \<Longrightarrow> handler_failed (es @ l) = handler_failed es"
  by (erule entry_effects.cases) (auto simp: handler_failed_def)

lemma retry_ok_entry_step:
  assumes laws: "redis_laws R delivered"
    and w: "retry_ok R delivered limit (insert mid todo) s" and new: "mid \<notin> todo"
    and k: "xpending R (redis s) mid = Some k" and calls: "calls \<le> (if k < limit then 1 else 0)"
    and step: "entry_step R calls False mid s out"
  shows "retry_ok R delivered limit todo (snd out)"
proof -
  obtain acked l where l: "entry_effects calls False mid acked l" "effects (snd out) = effects s @ l"
      "redis (snd out) = (if acked then xack R mid (redis s) else redis s)"
    using step unfolding entry_step_def by blast
  have ack: "delivered (redis (snd out)) = delivered (redis s)"
      "xpending R (redis (snd out)) i = (if acked \<and> i = mid then None else xpending R (redis s) i)" for i
    using laws l(3) unfolding redis_laws_def by simp_all
  have mid: "mid \<in> delivered (redis s)" using laws k unfolding redis_laws_def by blast
  obtain k' where k': "k = Suc k'" "attempts mid (effects s) \<le> k'"
    using w k unfolding retry_ok_def by (metis insertI1 option.inject)
  have att: "attempts i (effects (snd out)) \<le> attempts i (effects s) + (if i = mid then calls else 0)" for i
    using entry_effects_attempts [OF l(1), of i] l(2) by simp
  have old: "attempts i (effects s) \<le> limit - 1"
      "i \<notin> delivered (redis s) \<Longrightarrow> attempts i (effects s) = 0"
      "xpending R (redis s) i = Some n \<Longrightarrow> attempts i (effects s) \<le> n"
      "i \<in> todo \<Longrightarrow> \<exists>k. xpending R (redis s) i = Some (Suc k) \<and> attempts i (effects s) \<le> k" for i n
    using w unfolding retry_ok_def by auto
  have other: "attempts i (effects (snd out)) \<le> attempts i (effects s)" if "i \<noteq> mid" for i
    using att [of i] that by simp
  have same: "attempts mid (effects (snd out)) \<le> k \<and> attempts mid (effects (snd out)) \<le> limit - 1"
    using att [of mid] k' calls old(1) [of mid] by (auto split: if_splits)
  show ?thesis
    unfolding retry_ok_def
  proof (intro conjI allI impI)
    fix i
    show "attempts i (effects (snd out)) \<le> limit - 1"
      using same other [of i] old(1) [of i] by (cases "i = mid") auto
    show "attempts i (effects (snd out)) = 0" if "i \<notin> delivered (redis (snd out))"
      using that ack(1) mid other [of i] old(2) [of i] by (cases "i = mid") auto
    show "\<exists>k. xpending R (redis (snd out)) i = Some (Suc k) \<and> attempts i (effects (snd out)) \<le> k" if "i \<in> todo"
    proof -
      have "i \<noteq> mid" using that new by blast
      with old(4) [OF that] other [of i] show ?thesis by (auto simp: ack(2))
    qed
    show "attempts i (effects (snd out)) \<le> n" if "xpending R (redis (snd out)) i = Some n" for n
      using that same other [of i] old(3) [of i n] k by (cases "i = mid") (auto simp: ack(2) split: if_splits)
  next
    show "\<not> handler_failed (effects (snd out))"
      using w entry_effects_not_failed [OF l(1)] l(2) unfolding retry_ok_def by simp
  qed
qed

lemma retry_ok_mono: "retry_ok R delivered limit todo s \<Longrightarrow> todo' \<subseteq> todo \<Longrightarrow> retry_ok R delivered limit todo' s"
  unfolding retry_ok_def by blast

lemma entry_step_pending_other:
  assumes "redis_laws R delivered" "entry_step R calls last_try mid s out" "i \<noteq> mid"
  shows "xpending R (redis (snd out)) i = xpending R (redis s) i"
  using assms unfolding entry_step_def redis_laws_def by (auto split: if_splits)

lemma retry_ok_process_new:
  assumes laws: "redis_laws R delivered" and limit: "2 \<le> c_max con"
  shows "retry_ok R delivered (c_max con) (fst ` set es) s \<Longrightarrow> distinct (map fst es) \<Longrightarrow>
     \<forall>i \<in> fst ` set es. xpending R (redis s) i = Some 1 \<Longrightarrow>
     retry_ok R delivered (c_max con) {} (snd (process_new R con es s))"
proof (induction es arbitrary: s)
  case Nil
  then show ?case by simp
next
  case (Cons e es)
  obtain mid raw where e: "e = (mid, raw)" by fastforce
  let ?out = "process R con mid raw 1 s"
  have step: "entry_step R 1 False mid s ?out"
    using process_entry_step [of R con 1 mid s raw] limit by (simp add: not_le)
  have w: "retry_ok R delivered (c_max con) (fst ` set es) (snd ?out)"
    using Cons.prems e limit by (intro retry_ok_entry_step [OF laws _ _ _ _ step, of _ _ 1]) auto
  show ?case
  proof (cases "fst ?out")
    case None
    then obtain s' where s': "?out = (None, s')" by (metis prod.collapse)
    have "\<forall>i \<in> fst ` set es. xpending R (redis s') i = Some 1"
      using Cons.prems e entry_step_pending_other [OF laws step] s' by (metis (no_types, lifting) distinct.simps(2)
        fst_conv image_insert insert_iff list.map(2) list.set(2) list.set_map snd_conv)
    with Cons.IH [of s'] w Cons.prems(2) s' show ?thesis by (simp add: e and_then_def)
  next
    case (Some x)
    then obtain s' where s': "?out = (Some x, s')" by (metis prod.collapse)
    with retry_ok_mono [OF w, of "{}"] show ?thesis by (simp add: e and_then_def)
  qed
qed

definition live :: "(string \<times> raw_fields option) list \<Rightarrow> string set" where
  "live es = {i. \<exists>raw. (i, Some raw) \<in> set es}"

lemma live_simps [simp]:
  "live [] = {}" "live ((i, None) # es) = live es" "live ((i, Some raw) # es) = insert i (live es)"
  by (auto simp: live_def)

lemma live_subset: "live es \<subseteq> fst ` set es"
  by (force simp: live_def)

lemma retry_ok_process_stuck:
  assumes laws: "redis_laws R delivered"
  shows "retry_ok R delivered (c_max con) (live es) s \<Longrightarrow> distinct (map fst es) \<Longrightarrow>
     retry_ok R delivered (c_max con) {} (snd (process_stuck R con es s))"
proof (induction es arbitrary: s)
  case Nil
  then show ?case by simp
next
  case (Cons e es)
  obtain mid opt where e: "e = (mid, opt)" by fastforce
  show ?case
  proof (cases opt)
    case None
    with Cons e show ?thesis by simp
  next
    case (Some raw)
    let ?out = "process_claimed R con mid raw s"
    obtain k where k: "xpending R (redis s) mid = Some k"
      using Cons.prems(1) unfolding e Some retry_ok_def live_simps by (meson insertI1)
    have step: "entry_step R (if k < c_max con then 1 else 0) False mid s ?out"
      using process_claimed_entry_step [of R mid s con raw] by (simp add: delivery_count_def k)
    have new: "mid \<notin> live es" using Cons.prems(2) live_subset [of es] by (auto simp: e)
    have w: "retry_ok R delivered (c_max con) (live es) (snd ?out)"
      by (rule retry_ok_entry_step [OF laws _ new k _ step]) (use Cons.prems e Some in auto)
    show ?thesis
    proof (cases "fst ?out")
      case None
      then obtain s' where s': "?out = (None, s')" by (metis prod.collapse)
      with Cons.IH [of s'] w Cons.prems(2) show ?thesis by (simp add: e Some and_then_def)
    next
      case (Some x)
      then obtain s' where s': "?out = (Some x, s')" by (metis prod.collapse)
      with retry_ok_mono [OF w, of "{}"] show ?thesis by (simp add: e \<open>opt = Some raw\<close> and_then_def)
    qed
  qed
qed

lemma retry_ok_poll:
  assumes laws: "redis_laws R delivered" and limit: "2 \<le> c_max con"
    and w: "retry_ok R delivered (c_max con) {} s"
  shows "retry_ok R delivered (c_max con) {} (snd (poll_once R con s))"
proof -
  obtain es r where es: "xreadgroup R (c_batch con) (redis s) = (es, r)" by fastforce
  have law: "distinct (map fst es)" "fst ` set es \<inter> delivered (redis s) = {}"
      "delivered r = delivered (redis s) \<union> fst ` set es"
      "\<And>i. xpending R r i = (if i \<in> fst ` set es then Some 1 else xpending R (redis s) i)"
    using redis_read [OF laws es] by simp_all
  have old: "attempts i (effects s) \<le> c_max con - 1" "i \<notin> delivered (redis s) \<Longrightarrow> attempts i (effects s) = 0"
      "xpending R (redis s) i = Some n \<Longrightarrow> attempts i (effects s) \<le> n" "\<not> handler_failed (effects s)" for i n
    using w unfolding retry_ok_def by auto
  have zero: "attempts i (effects s) = 0" if "i \<in> fst ` set es" for i
  proof -
    have "i \<notin> delivered (redis s)" using law(2) that by (metis IntI empty_iff)
    then show ?thesis by (rule old(2))
  qed
  have bound: "attempts i (effects s) \<le> n" if "xpending R r i = Some n" for i n
    using that old(3) zero law(4) [of i] by (cases "i \<in> fst ` set es") auto
  have todo: "\<exists>k. xpending R r i = Some (Suc k) \<and> attempts i (effects s) \<le> k" if "i \<in> fst ` set es" for i
    using law(4) [of i] that zero [OF that] by (intro exI [of _ 0]) simp
  have "retry_ok R delivered (c_max con) (fst ` set es) (s\<lparr>redis := r\<rparr>)"
    unfolding retry_ok_def using old bound todo by (simp add: law(3))
  from retry_ok_process_new [OF laws limit this law(1)] law(4) show ?thesis
    by (simp add: poll_once_def es)
qed

lemma retry_ok_claim:
  assumes laws: "redis_laws R delivered" and w: "retry_ok R delivered (c_max con) {} s"
  shows "retry_ok R delivered (c_max con) {} (snd (claim_stuck_once R con s))"
proof -
  obtain es r where es: "xautoclaim R (c_min_idle con) (c_batch con) (redis s) = (es, r)" by fastforce
  have law: "distinct (map fst es)" "delivered r = delivered (redis s)"
      "\<And>i raw. (i, Some raw) \<in> set es \<Longrightarrow> \<exists>k. xpending R (redis s) i = Some k \<and> xpending R r i = Some (Suc k)"
      "\<And>i. (i, None) \<in> set es \<Longrightarrow> xpending R r i = None"
      "\<And>i. i \<notin> fst ` set es \<Longrightarrow> xpending R r i = xpending R (redis s) i"
    using redis_claim [OF laws es] by (simp, simp, meson, simp, simp)
  have old: "attempts i (effects s) \<le> c_max con - 1" "i \<notin> delivered (redis s) \<Longrightarrow> attempts i (effects s) = 0"
      "xpending R (redis s) i = Some n \<Longrightarrow> attempts i (effects s) \<le> n" "\<not> handler_failed (effects s)" for i n
    using w unfolding retry_ok_def by auto
  have todo: "\<exists>k. xpending R r i = Some (Suc k) \<and> attempts i (effects s) \<le> k" if "i \<in> live es" for i
    using that law(3) old(3) unfolding live_def by blast
  have bound: "attempts i (effects s) \<le> n" if "xpending R r i = Some n" for i n
  proof (cases "i \<in> fst ` set es")
    case True
    then obtain raw where "(i, raw) \<in> set es" by force
    with law(4) that have "i \<in> live es" by (cases raw) (auto simp: live_def)
    from todo [OF this] that show ?thesis by auto
  next
    case False
    with law(5) that old(3) show ?thesis by simp
  qed
  have "retry_ok R delivered (c_max con) (live es) (s\<lparr>redis := r\<rparr>)"
    unfolding retry_ok_def using old todo bound by (simp add: law(2))
  from retry_ok_process_stuck [OF laws this law(1)] show ?thesis
    by (simp add: claim_stuck_once_def es)
qed

lemma and_then_invariant:
  assumes "P (snd (f s))" "\<And>s. P s \<Longrightarrow> P (snd (g s))"
  shows "P (snd (and_then f g s))"
  using assms by (cases "f s") (auto simp: and_then_def split: option.split)

lemma retry_ok_run_loop:
  assumes laws: "redis_laws R delivered" and limit: "2 \<le> c_max con"
  shows "\<forall>(now, env) \<in> set ticks. outside_step R delivered env \<Longrightarrow> retry_ok R delivered (c_max con) {} s \<Longrightarrow>
     retry_ok R delivered (c_max con) {} (snd (run_loop R con interval ticks last_claim s))"
proof (induction ticks arbitrary: last_claim s)
  case Nil
  then show ?case by simp
next
  case (Cons t ticks)
  obtain now env where t: "t = (now, env)" by fastforce
  have s1: "retry_ok R delivered (c_max con) {} (s\<lparr>redis := env (redis s)\<rparr>)"
    using Cons.prems unfolding t outside_step_def retry_ok_def by simp
  show ?case
    unfolding t run_loop.simps
  proof (rule and_then_invariant [where P = "retry_ok R delivered (c_max con) {}"])
    show "retry_ok R delivered (c_max con) {} (snd (poll_once R con (s\<lparr>redis := env (redis s)\<rparr>)))"
      by (rule retry_ok_poll [OF laws limit s1])
  next
    fix s2 :: "('a, 'b) sys"
    assume s2: "retry_ok R delivered (c_max con) {} s2"
    have IH: "retry_ok R delivered (c_max con) {} s \<Longrightarrow>
        retry_ok R delivered (c_max con) {} (snd (run_loop R con interval ticks lc s))" for lc s
      using Cons.IH Cons.prems(1) by simp
    show "retry_ok R delivered (c_max con) {} (snd (if now - last_claim \<ge> interval
             then and_then (claim_stuck_once R con) (run_loop R con interval ticks now) s2
             else run_loop R con interval ticks last_claim s2))"
    proof (cases "now - last_claim \<ge> interval")
      case True
      have "retry_ok R delivered (c_max con) {}
          (snd (and_then (claim_stuck_once R con) (run_loop R con interval ticks now) s2))"
        by (rule and_then_invariant [where P = "retry_ok R delivered (c_max con) {}"])
          (rule retry_ok_claim [OF laws s2], erule IH)
      with True show ?thesis by simp
    next
      case False
      with IH [OF s2] show ?thesis by simp
    qed
  qed
qed

subsection \<open>Progress of a claim\<close>

lemma entry_step_settles:
  assumes laws: "redis_laws R delivered" and step: "entry_step R calls False mid s (None, s')"
    and k: "xpending R (redis s) mid = Some k"
  shows "xpending R (redis s') mid = None \<and> settled (effects s') mid
     \<or> xpending R (redis s') mid = Some k \<and> 0 < calls"
proof -
  obtain acked l where l: "entry_effects calls False mid acked l" "effects s' = effects s @ l"
      "redis s' = (if acked then xack R mid (redis s) else redis s)" "l \<noteq> []"
    using step unfolding entry_step_def by auto
  have ack: "xpending R (xack R mid (redis s)) mid = None" using laws unfolding redis_laws_def by simp
  show ?thesis
    using l(1) l(2-4) ack k
    by cases (auto simp: settled_def settles_def)
qed

lemma settled_append: "settled es mid \<Longrightarrow> settled (es @ l) mid"
  by (simp add: settled_def)

lemma entry_step_settled_mono:
  "entry_step R calls last_try mid s out \<Longrightarrow> settled (effects s) i \<Longrightarrow> settled (effects (snd out)) i"
  unfolding entry_step_def by (auto simp: settled_append)

lemma process_stuck_frame:
  assumes laws: "redis_laws R delivered"
  shows "i \<notin> live es \<Longrightarrow> xpending R (redis (snd (process_stuck R con es s))) i = xpending R (redis s) i
     \<and> (settled (effects s) i \<longrightarrow> settled (effects (snd (process_stuck R con es s))) i)"
proof (induction es arbitrary: s)
  case Nil
  then show ?case by simp
next
  case (Cons e es)
  obtain mid opt where e: "e = (mid, opt)" by fastforce
  show ?case
  proof (cases opt)
    case None
    with Cons e show ?thesis by simp
  next
    case (Some raw)
    obtain r s1 where out: "process_claimed R con mid raw s = (r, s1)" by fastforce
    note step = process_claimed_entry_step [of R mid s con raw, unfolded out]
    have i: "i \<noteq> mid" "i \<notin> live es" using Cons.prems by (simp_all add: e Some)
    have "xpending R (redis s1) i = xpending R (redis s) i"
      using entry_step_pending_other [OF laws step i(1)] by simp
    moreover have "settled (effects s) i \<longrightarrow> settled (effects s1) i"
      using entry_step_settled_mono [OF step, of i] by simp
    ultimately show ?thesis
      using Cons.IH [OF i(2), of s1] by (cases r) (simp_all add: e Some and_then_def out)
  qed
qed

lemma process_stuck_settles:
  assumes laws: "redis_laws R delivered"
  shows "process_stuck R con es s = (None, s') \<Longrightarrow> distinct (map fst es) \<Longrightarrow> (i, Some raw) \<in> set es \<Longrightarrow>
     xpending R (redis s) i = Some k \<Longrightarrow>
     xpending R (redis s') i = None \<and> settled (effects s') i \<or> xpending R (redis s') i = Some k \<and> k < c_max con"
proof (induction es arbitrary: s)
  case Nil
  then show ?case by simp
next
  case (Cons e es)
  obtain mid opt where e: "e = (mid, opt)" by fastforce
  show ?case
  proof (cases opt)
    case None
    with Cons e show ?thesis by auto
  next
    case (Some f)
    obtain s1 where out: "process_claimed R con mid f s = (None, s1)"
      and rest: "process_stuck R con es s1 = (None, s')"
      using Cons.prems(1) by (auto simp: e Some and_then_def split: prod.splits option.splits)
    note step = process_claimed_entry_step [of R mid s con f, unfolded out]
    show ?thesis
    proof (cases "i = mid")
      case True
      have "i \<notin> live es" using Cons.prems(2) live_subset [of es] by (auto simp: e True)
      from process_stuck_frame [OF laws this, of con s1] rest
      have frame: "xpending R (redis s') i = xpending R (redis s1) i" "settled (effects s1) i \<longrightarrow> settled (effects s') i"
        by simp_all
      have "xpending R (redis s1) i = None \<and> settled (effects s1) i \<or> xpending R (redis s1) i = Some k \<and> k < c_max con"
        using entry_step_settles [OF laws step] Cons.prems(4) True
        by (auto simp: delivery_count_def split: if_splits)
      with frame show ?thesis by auto
    next
      case False
      have "xpending R (redis s1) i = Some k"
        using entry_step_pending_other [OF laws step False] Cons.prems(4) by simp
      moreover have "(i, Some raw) \<in> set es" using Cons.prems(3) False by (simp add: e)
      moreover have "distinct (map fst es)" using Cons.prems(2) by simp
      ultimately show ?thesis using Cons.IH [OF rest] by blast
    qed
  qed
qed

subsection \<open>Properties\<close>

text \<open>C27: nothing is acknowledged before its effect. For every Redis server, handler, dead-letter
  callback and schedule, every XACK of a consumer's run comes after a handler call for that entry
  that returned normally or a dead-letter callback for it that returned normally. A crash at any
  point leaves a prefix of the run, so it never loses an entry that was not processed.\<close>

theorem acks_follow_effects:
  "acks_justified (effects (snd (run R con reply interval ticks (s\<lparr>effects := []\<rparr>))))"
  using keeps_justified_run [of R con reply interval ticks] unfolding keeps_justified_def by simp

text \<open>C28: delivery is bounded. With the documented behaviour of the Redis commands and a limit of at least
  two attempts, a run of any length calls the handler at most one time less than the limit for each
  entry, and the dead-letter code \<^verbatim>\<open>HANDLER_FAILED\<close> never occurs: the limit is always
  noticed when the entry is claimed.\<close>

theorem delivery_bounded:
  assumes "redis_laws R delivered" "2 \<le> c_max con" "\<forall>(now, env) \<in> set ticks. outside_step R delivered env"
  shows "attempts i (effects (snd (run R con reply interval ticks (s\<lparr>effects := []\<rparr>)))) \<le> c_max con - 1
    \<and> \<not> handler_failed (effects (snd (run R con reply interval ticks (s\<lparr>effects := []\<rparr>))))"
proof -
  have "retry_ok R delivered (c_max con) {} (s\<lparr>effects := []\<rparr>)"
    by (simp add: retry_ok_def handler_failed_def)
  from retry_ok_run_loop [OF assms(1,2,3) this, of interval 0]
  have "retry_ok R delivered (c_max con) {} (snd (run R con reply interval ticks (s\<lparr>effects := []\<rparr>)))"
    using \<open>retry_ok R delivered (c_max con) {} (s\<lparr>effects := []\<rparr>)\<close> by (auto simp: run_def split: option.split)
  then show ?thesis unfolding retry_ok_def by blast
qed

text \<open>a claim makes progress. When a claim round returns without an exception, every entry it claimed
  is either settled (handled or dead-lettered) and no longer pending, or still pending with
  a delivery count one higher and still below the limit. So an entry whose handler keeps failing is
  dead-lettered after finitely many rounds.\<close>

theorem claim_progress:
  assumes "redis_laws R delivered" "claim_stuck_once R con s = (None, s')"
    and "xautoclaim R (c_min_idle con) (c_batch con) (redis s) = (es, r)" "(i, Some raw) \<in> set es"
  shows "xpending R (redis s') i = None \<and> settled (effects s') i
    \<or> (\<exists>k. xpending R (redis s) i = Some k \<and> xpending R (redis s') i = Some (Suc k) \<and> Suc k < c_max con)"
proof -
  obtain k where k: "xpending R (redis s) i = Some k" "xpending R r i = Some (Suc k)"
    using redis_claim [OF assms(1,3)] assms(4) by meson
  have "process_stuck R con es (s\<lparr>redis := r\<rparr>) = (None, s')"
    using assms(2) by (simp add: claim_stuck_once_def assms(3))
  from process_stuck_settles [OF assms(1) this _ assms(4), of "Suc k"] k redis_claim [OF assms(1,3)]
  show ?thesis by simp
qed

text \<open>the envelope survives the stream. What the producer writes for an accepted message, the
  consumer reads back as the same tenant, trace id and payload, when decoding a payload inverts
  its encoding; the tenant is the one given to the producer, whatever the payload says.\<close>

theorem envelope_roundtrip:
  assumes "publish codec allowed stream tenant_id trace_id payload = Inr fields_out"
    and "loads codec (dumps codec payload) = Some (JObj payload)"
  shows "stream \<in> set allowed \<and> (\<exists>u. uuid_of tenant_id = Some u \<and> fields_to_message codec (encode_fields fields_out)
     = Inr \<lparr>pm_tenant = u, pm_trace = trace_id, pm_payload = payload\<rparr>)"
proof -
  obtain u where u: "stream \<in> set allowed" "uuid_of tenant_id = Some u" "trace_id \<noteq> []"
      "fields_out = message_to_fields codec \<lparr>pm_tenant = u, pm_trace = trace_id, pm_payload = payload\<rparr>"
    using assms(1) by (auto simp: publish_def split: if_splits option.splits)
  have "u < 2 ^ 128" using u(2) by (auto simp: uuid_of_def Let_def split: if_splits option.splits)
  then have "uuid_of (uuid_str u) = Some u" by (rule uuid_of_str)
  moreover have "uuid_str u \<noteq> []" by (simp add: uuid_str_def Let_def)
  ultimately show ?thesis
    using u assms(2)
    by (simp add: fields_to_message_def message_to_fields_def encode_fields_def decode_fields_def decode_def
        TENANT_ID_FIELD_def TRACE_ID_FIELD_def PAYLOAD_FIELD_def)
qed

subsection \<open>Witnesses\<close>

text \<open>A server with one entry, a handler that always fails, and a dead-letter callback that counts.\<close>

datatype slot = Queued raw_fields | Pending raw_fields nat | Gone

definition one_entry :: "slot redis_client" where
  "one_entry = \<lparr>
     xreadgroup = (\<lambda>n r. case r of Queued raw \<Rightarrow> ([(''1-0'', raw)], Pending raw 1) | _ \<Rightarrow> ([], r)),
     xautoclaim = (\<lambda>t n r. case r of Pending raw k \<Rightarrow> ([(''1-0'', Some raw)], Pending raw (Suc k)) | _ \<Rightarrow> ([], r)),
     xpending = (\<lambda>r i. case r of Pending raw k \<Rightarrow> if i = ''1-0'' then Some k else None | _ \<Rightarrow> None),
     xack = (\<lambda>i r. case r of Pending raw k \<Rightarrow> if i = ''1-0'' then Gone else r | _ \<Rightarrow> r)\<rparr>"

definition one_delivered :: "slot \<Rightarrow> string set" where
  "one_delivered r = (case r of Queued _ \<Rightarrow> {} | _ \<Rightarrow> {''1-0''})"

lemma one_entry_laws: "redis_laws one_entry one_delivered"
  unfolding redis_laws_def
  by (auto simp: one_entry_def one_delivered_def split: slot.splits if_splits)

definition demo_codec :: json_codec where
  "demo_codec = \<lparr>dumps = (\<lambda>_. ''{}''), loads = (\<lambda>_. Some (JObj []))\<rparr>"

definition failing_consumer :: "nat consumer" where
  "failing_consumer = \<lparr>c_stream = ''pipe:raw'', c_group = ''g'', c_handler = (\<lambda>m w. (Some ''boom'', w)),
     c_dead_letter = (\<lambda>d w. (None, Suc w)), c_max = 3, c_min_idle = 60000, c_batch = 32, c_codec = demo_codec\<rparr>"

definition demo_message :: pipeline_message where
  "demo_message = \<lparr>pm_tenant = 10, pm_trace = ''t'', pm_payload = []\<rparr>"

definition demo_fields :: raw_fields where
  "demo_fields = encode_fields (message_to_fields demo_codec demo_message)"

lemma demo_decode: "decode_fields demo_fields = Inr (message_to_fields demo_codec demo_message)"
  by (simp add: decode_fields_def demo_fields_def encode_fields_def message_to_fields_def decode_def
      TENANT_ID_FIELD_def TRACE_ID_FIELD_def PAYLOAD_FIELD_def)

lemma demo_to_message: "fields_to_message demo_codec demo_fields = Inr demo_message"
proof -
  have "uuid_of (uuid_str 10) = Some 10" by (rule uuid_of_str) simp
  moreover have "uuid_str 10 \<noteq> []" by (simp add: uuid_str_def Let_def)
  ultimately show ?thesis
    by (simp add: fields_to_message_def demo_decode message_to_fields_def demo_message_def demo_codec_def
        TENANT_ID_FIELD_def TRACE_ID_FIELD_def PAYLOAD_FIELD_def)
qed

lemmas run_simps = run_def ensure_group_def poll_once_def claim_stuck_once_def and_then_def process_def
  process_claimed_def delivery_count_def to_dead_letter_def ack_def one_entry_def failing_consumer_def Let_def

definition demo_sys :: "(slot, nat) sys" where
  "demo_sys = \<lparr>redis = Queued demo_fields, world = 0, effects = []\<rparr>"

theorem delivery_bounded_witness:
  "attempts ''1-0'' (effects (snd (run one_entry failing_consumer None 15
      [(20, \<lambda>r. r), (40, \<lambda>r. r), (60, \<lambda>r. r)] demo_sys))) \<le> 2
   \<and> snd (run one_entry failing_consumer None 15 [(20, \<lambda>r. r), (40, \<lambda>r. r), (60, \<lambda>r. r)] demo_sys)
       \<noteq> demo_sys"
proof -
  have "2 \<le> c_max failing_consumer" by (simp add: failing_consumer_def)
  moreover have "\<forall>(now, env) \<in> set [(20 :: rat, \<lambda>r. r), (40, \<lambda>r. r), (60, \<lambda>r. r)]. outside_step one_entry one_delivered env"
    by (simp add: outside_step_def)
  ultimately have "attempts ''1-0'' (effects (snd (run one_entry failing_consumer None 15
      [(20, \<lambda>r. r), (40, \<lambda>r. r), (60, \<lambda>r. r)] (demo_sys\<lparr>effects := []\<rparr>)))) \<le> c_max failing_consumer - 1"
    using delivery_bounded [OF one_entry_laws] by blast
  moreover have "demo_sys\<lparr>effects := []\<rparr> = demo_sys" by (simp add: demo_sys_def)
  moreover have "world (snd (run one_entry failing_consumer None 15
      [(20, \<lambda>r. r), (40, \<lambda>r. r), (60, \<lambda>r. r)] demo_sys)) = 1"
    by (simp add: run_simps demo_sys_def demo_decode demo_to_message)
  ultimately show ?thesis by (auto simp: failing_consumer_def demo_sys_def)
qed

theorem claim_progress_witness:
  "fst (claim_stuck_once one_entry failing_consumer (demo_sys\<lparr>redis := Pending demo_fields 1\<rparr>)) = None
   \<and> xpending one_entry (redis (snd (claim_stuck_once one_entry failing_consumer (demo_sys\<lparr>redis := Pending demo_fields 1\<rparr>)))) ''1-0'' = Some 2"
proof -
  let ?s = "demo_sys\<lparr>redis := Pending demo_fields 1\<rparr>"
  have ok: "fst (claim_stuck_once one_entry failing_consumer ?s) = None"
    and pend: "xpending one_entry (redis (snd (claim_stuck_once one_entry failing_consumer ?s))) ''1-0'' \<noteq> None"
    by (simp_all add: run_simps demo_sys_def demo_decode demo_to_message)
  obtain s' where s': "claim_stuck_once one_entry failing_consumer ?s = (None, s')"
    using ok by (metis prod.collapse)
  have "xautoclaim one_entry (c_min_idle failing_consumer) (c_batch failing_consumer) (redis ?s)
      = ([(''1-0'', Some demo_fields)], Pending demo_fields 2)"
    by (simp add: one_entry_def)
  from claim_progress [OF one_entry_laws s' this, of "''1-0''" demo_fields] pend s' ok
  show ?thesis by (auto simp: one_entry_def)
qed

theorem envelope_roundtrip_witness:
  "fields_to_message demo_codec (encode_fields (projr (publish demo_codec ALL_STREAMS ''pipe:raw'' (uuid_str 10) ''t'' [])))
   = Inr demo_message"
proof -
  have u: "uuid_of (uuid_str 10) = Some 10" by (rule uuid_of_str) simp
  have p: "publish demo_codec ALL_STREAMS ''pipe:raw'' (uuid_str 10) ''t'' [] = Inr (message_to_fields demo_codec demo_message)"
    by (simp add: publish_def u ALL_STREAMS_def demo_message_def)
  have "loads demo_codec (dumps demo_codec []) = Some (JObj [])" by (simp add: demo_codec_def)
  from envelope_roundtrip [OF p this] u show ?thesis by (simp add: p demo_message_def)
qed

end
