(* ===== verification/Rule_Compiler.thy ===== *)
theory Rule_Compiler
  imports Soc_Prelude
begin

section \<open>The rule compiler\<close>

text \<open>
  Model of \<^verbatim>\<open>services/dataplane/src/dataplane/rulepub/compiler.py\<close>: validation of a
  \<^verbatim>\<open>rule-pack/v1\<close> document and its compilation to an executable predicate on events.
  A document is a \<open>json\<close> value, an event is a \<open>json\<close> value, a predicate maps an event to a
  boolean or to the one exception an evaluation can raise. What the code takes from Python's
  regular-expression engine and from \<^verbatim>\<open>repr(float)\<close> is the parameter \<open>pylib\<close>; the engine's
  answer is \<open>None\<close> when it does not come within the 10 ms guard.
  The second half gives the documents an abstract syntax and a two-valued meaning, written from
  \<^verbatim>\<open>rules/FORMAT.md\<close>, and proves that a compiled predicate computes it, that it looks at no
  field outside the allowlist, and that a document which compiles is within the size bounds.
\<close>

record pylib =
  re_compiles :: "string \<Rightarrow> bool"
  re_search :: "string \<Rightarrow> string \<Rightarrow> bool option"
  float_repr :: "pyfloat \<Rightarrow> string"

subsection \<open>Bounds and tables\<close>

definition MAX_TREE_DEPTH :: nat where "MAX_TREE_DEPTH = 8"

definition MAX_LEAVES :: nat where "MAX_LEAVES = 64"

definition MAX_STRING_CHARS :: nat where "MAX_STRING_CHARS = 1024"

definition MAX_LIST_ENTRIES :: nat where "MAX_LIST_ENTRIES = 64"

definition MAX_CHILDREN :: nat where "MAX_CHILDREN = 32"

definition MAX_REGEX_CHARS :: nat where "MAX_REGEX_CHARS = 512"

lemmas compile_bounds = MAX_TREE_DEPTH_def MAX_LEAVES_def MAX_STRING_CHARS_def MAX_LIST_ENTRIES_def
  MAX_CHILDREN_def MAX_REGEX_CHARS_def

definition SEVERITIES :: "string list" where
  "SEVERITIES = [''low'', ''medium'', ''high'', ''critical'']"

definition EVENT_CLASSES :: "string list" where
  "EVENT_CLASSES = [''process_activity'', ''network_activity'', ''authentication'', ''generic'']"

definition TOP_LEVEL_ORDER :: "string list" where
  "TOP_LEVEL_ORDER = [''id'', ''version'', ''title'', ''description'', ''severity'', ''event_class'',
     ''min_schema_version'', ''mitre_technique_ids'', ''entity'', ''detection'',
     ''false_positives'', ''references'']"

definition STRING_OPS :: "string list" where
  "STRING_OPS = [''contains'', ''icontains'', ''startswith'', ''istartswith'', ''endswith'', ''iendswith'']"

definition NUMERIC_OPS :: "(string \<times> (pyfloat \<Rightarrow> pyfloat \<Rightarrow> bool)) list" where
  "NUMERIC_OPS = [(''gt'', \<lambda>a b. flt_less b a), (''gte'', \<lambda>a b. flt_le b a),
     (''lt'', flt_less), (''lte'', flt_le)]"

definition ENVELOPE_MATCHABLE :: "string list" where
  "ENVELOPE_MATCHABLE = [''activity'', ''event_time'', ''time_inferred'', ''source_type'',
     ''source_event_id'', ''severity_hint'', ''host.hostname'', ''host.os_family'', ''host.os_name'',
     ''host.os_version'', ''host.ip'', ''host.mac'', ''source.vendor'', ''source.product'',
     ''source.agent_version'']"

definition CLASS_MATCHABLE :: "(string \<times> string list) list" where
  "CLASS_MATCHABLE =
    [(''process_activity'',
       [''process.pid'', ''process.name'', ''process.exe_path'', ''process.cmd_line'',
        ''process.sha256'', ''process.created_time'', ''parent.pid'', ''parent.name'',
        ''parent.exe_path'', ''user.name'', ''user.domain'', ''user.uid'', ''exit_code'']),
     (''network_activity'',
       [''direction'', ''protocol'', ''src.ip'', ''src.port'', ''dst.ip'', ''dst.port'',
        ''dst.hostname'', ''process.pid'', ''process.name'', ''process.exe_path'', ''bytes_sent'',
        ''bytes_received'', ''user.name'', ''user.domain'', ''user.uid'']),
     (''authentication'',
       [''status'', ''logon_type'', ''user.name'', ''user.domain'', ''user.uid'', ''src_ip'',
        ''session_id'', ''failure_reason'']),
     (''generic'', [''message'', ''category'', ''raw_truncated''])]"

definition NEVER_MATCHABLE :: "string list" where
  "NEVER_MATCHABLE = [''tenant_id'', ''event_id'', ''batch_id'', ''ingest_time'', ''schema_version'',
     ''event_class'', ''source.device_id'', ''source.ingest_key_id'']"

definition FORBIDDEN_ROOTS :: "string list" where
  "FORBIDDEN_ROOTS = [''raw'', ''unmapped'']"

definition RE2_FORBIDDEN :: "string list" where
  "RE2_FORBIDDEN = [''(?='', ''(?!'', ''(?<='', ''(?<!'', ''(?>'', ''(?('', ''(?P='', ''(?P>'', ''(?R'',
     [CHR 0x5C, CHR ''g''], [CHR 0x5C, CHR ''k'']]"

subsection \<open>Exceptions\<close>

datatype compile_reason =
    PathNotString json
  | MalformedPath string
  | PathNotMatchable string
  | PathForbiddenRoot string string
  | PathNotInClass string string
  | NotAString json
  | StringTooLong nat
  | EmptyValueList
  | ValueListTooLong nat
  | NotStringOrList json
  | NotAScalar json
  | RegexTooLong nat
  | RegexForbidden string
  | RegexBackreference
  | RegexInvalid
  | UnknownLeafKeys "string list"
  | OpNotString
  | TooManyLeaves
  | ExistsTakesNoValue
  | OpNeedsValue string
  | OpNeedsList string
  | OpNeedsNumber string
  | UnknownOperator string
  | TreeTooDeep
  | NodeNotMapping json
  | NotOneStructuralKey "string list"
  | SiblingKeys string
  | NoChildren string
  | TooManyChildren string nat
  | DocNotMapping json
  | UnknownTopLevelKeys "string list"
  | MissingKeys "string list"
  | NotNonEmptyString string
  | NotNonEmptyList string
  | EntryNotString string
  | BadRuleId
  | BadSemver string
  | TitleTooLong
  | BadSeverity
  | BadEventClass
  | BadTechniqueId string
  | BadEntityCount
  | BadDetection

datatype compile_exc =
    RuleCompileError "string option" compile_reason
  | ClassKeyError string

datatype eval_exc = RegexTimeoutError

type_synonym predicate = "json \<Rightarrow> eval_exc + bool"

subsection \<open>Semver\<close>

type_synonym semver = "nat \<times> nat \<times> nat"

definition all_digits :: "string \<Rightarrow> bool" where
  "all_digits s = (s \<noteq> [] \<and> list_all is_digit s)"

definition semver_match :: "string \<Rightarrow> semver option" where
  "semver_match s =
     (case py_split (CHR ''.'') (drop_final_newline s) of
        [a, b, c] \<Rightarrow>
          if all_digits a \<and> all_digits b \<and> all_digits c
          then Some (digits_to_nat 0 a, digits_to_nat 0 b, digits_to_nat 0 c) else None
      | _ \<Rightarrow> None)"

definition parse_semver :: "json \<Rightarrow> semver option" where
  "parse_semver v = (case v of JStr s \<Rightarrow> semver_match s | _ \<Rightarrow> None)"

fun semver_le :: "semver \<Rightarrow> semver \<Rightarrow> bool" where
  "semver_le (a, b, c) (a', b', c') = (a < a' \<or> a = a' \<and> (b < b' \<or> b = b' \<and> c \<le> c'))"

definition schema_version_applies :: "semver \<Rightarrow> json \<Rightarrow> bool" where
  "schema_version_applies min_schema v =
     (case v of
        JStr s \<Rightarrow>
          (case semver_match s of
             None \<Rightarrow> False
           | Some ev \<Rightarrow> fst ev = fst min_schema \<and> semver_le min_schema ev)
      | _ \<Rightarrow> False)"

subsection \<open>Field paths\<close>

definition validate_field_path :: "json \<Rightarrow> string \<Rightarrow> string option \<Rightarrow> compile_exc + unit" where
  "validate_field_path path event_class rid =
     (case path of
        JStr p \<Rightarrow>
          if p = [] then Inl (RuleCompileError rid (PathNotString path))
          else let segments = py_split (CHR ''.'') p in
            if list_ex (\<lambda>seg. seg = []) segments then Inl (RuleCompileError rid (MalformedPath p))
            else if p \<in> set NEVER_MATCHABLE \<or> hd segments \<in> set NEVER_MATCHABLE
              then Inl (RuleCompileError rid (PathNotMatchable p))
            else if hd segments \<in> set FORBIDDEN_ROOTS
              then Inl (RuleCompileError rid (PathForbiddenRoot p (hd segments)))
            else if p \<in> set ENVELOPE_MATCHABLE then Inr ()
            else (case map_of CLASS_MATCHABLE event_class of
                None \<Rightarrow> Inl (ClassKeyError event_class)
              | Some allowed \<Rightarrow>
                  if p \<in> set allowed then Inr ()
                  else if event_class = ''generic'' \<and> length segments = 2
                    \<and> hd segments = ''fields'' \<and> segments ! 1 \<noteq> [] then Inr ()
                  else Inl (RuleCompileError rid (PathNotInClass p event_class)))
      | _ \<Rightarrow> Inl (RuleCompileError rid (PathNotString path)))"

text \<open>\<open>None\<close> is the sentinel \<^verbatim>\<open>_UNRESOLVED\<close>.\<close>

fun resolve_path :: "json \<Rightarrow> string list \<Rightarrow> json option" where
  "resolve_path current [] =
     (case current of JNull \<Rightarrow> None | JObj _ \<Rightarrow> None | JList _ \<Rightarrow> None | v \<Rightarrow> Some v)"
| "resolve_path current (segment # segments) =
     (case current of
        JObj d \<Rightarrow> (case map_of d segment of None \<Rightarrow> None | Some v \<Rightarrow> resolve_path v segments)
      | _ \<Rightarrow> None)"

definition is_unresolved :: "json option \<Rightarrow> bool" where
  "is_unresolved v = (v = None)"

subsection \<open>Entity keys\<close>

definition fold_entity_value :: "pylib \<Rightarrow> json option \<Rightarrow> string" where
  "fold_entity_value lib v =
     (case v of
        None \<Rightarrow> []
      | Some (JBool b) \<Rightarrow> (if b then ''true'' else ''false'')
      | Some (JStr s) \<Rightarrow> py_casefold s
      | Some (JInt i) \<Rightarrow> int_to_dec i
      | Some (JFloat (Fin q)) \<Rightarrow>
          (if of_int \<lfloor>q\<rfloor> = q then int_to_dec \<lfloor>q\<rfloor> else float_repr lib (Fin q))
      | Some (JFloat f) \<Rightarrow> float_repr lib f
      | Some _ \<Rightarrow> [])"

subsection \<open>Value validation\<close>

definition check_string_value :: "json \<Rightarrow> string option \<Rightarrow> compile_exc + string" where
  "check_string_value v rid =
     (case v of
        JStr s \<Rightarrow>
          if length s > MAX_STRING_CHARS then Inl (RuleCompileError rid (StringTooLong (length s)))
          else Inr s
      | _ \<Rightarrow> Inl (RuleCompileError rid (NotAString v)))"

definition string_or_list :: "json \<Rightarrow> string option \<Rightarrow> compile_exc + string list" where
  "string_or_list v rid =
     (case v of
        JStr _ \<Rightarrow> rbind (check_string_value v rid) (\<lambda>s. Inr [s])
      | JList vs \<Rightarrow>
          if vs = [] then Inl (RuleCompileError rid EmptyValueList)
          else if length vs > MAX_LIST_ENTRIES
            then Inl (RuleCompileError rid (ValueListTooLong (length vs)))
          else rmap (\<lambda>x. check_string_value x rid) vs
      | _ \<Rightarrow> Inl (RuleCompileError rid (NotStringOrList v)))"

definition check_scalar_value :: "json \<Rightarrow> string option \<Rightarrow> compile_exc + json" where
  "check_scalar_value v rid =
     (case v of
        JBool _ \<Rightarrow> Inr v
      | JInt _ \<Rightarrow> Inr v
      | JFloat _ \<Rightarrow> Inr v
      | JStr _ \<Rightarrow> rbind (check_string_value v rid) (\<lambda>s. Inr (JStr s))
      | _ \<Rightarrow> Inl (RuleCompileError rid (NotAScalar v)))"

definition scalar_equals :: "json option \<Rightarrow> json \<Rightarrow> bool" where
  "scalar_equals field_value rule_value =
     (case rule_value of
        JBool b \<Rightarrow> field_value = Some (JBool b)
      | JStr s \<Rightarrow> field_value = Some (JStr s)
      | _ \<Rightarrow>
          (case num_of rule_value of
             None \<Rightarrow> False
           | Some r \<Rightarrow>
               (case Option.bind field_value num_of of None \<Rightarrow> False | Some f \<Rightarrow> flt_eq f r)))"

subsection \<open>Regular expressions\<close>

fun has_numeric_backref :: "string \<Rightarrow> bool" where
  "has_numeric_backref (a # b # cs) =
     ((a = CHR 0x5C \<and> CHR ''1'' \<le> b \<and> b \<le> CHR ''9'') \<or> has_numeric_backref (b # cs))"
| "has_numeric_backref _ = False"

definition validate_re2_subset :: "pylib \<Rightarrow> string \<Rightarrow> string option \<Rightarrow> compile_exc + string" where
  "validate_re2_subset lib pattern rid =
     (if length pattern > MAX_REGEX_CHARS
      then Inl (RuleCompileError rid (RegexTooLong (length pattern)))
      else case find (str_contains pattern) RE2_FORBIDDEN of
          Some needle \<Rightarrow> Inl (RuleCompileError rid (RegexForbidden needle))
        | None \<Rightarrow>
            if has_numeric_backref pattern then Inl (RuleCompileError rid RegexBackreference)
            else if re_compiles lib pattern then Inr pattern
            else Inl (RuleCompileError rid RegexInvalid))"

definition regex_search_guarded :: "pylib \<Rightarrow> string \<Rightarrow> string \<Rightarrow> eval_exc + bool" where
  "regex_search_guarded lib compiled v =
     (case re_search lib compiled v of None \<Rightarrow> Inl RegexTimeoutError | Some b \<Rightarrow> Inr b)"

subsection \<open>Leaf predicates\<close>

definition pred_exists :: "string list \<Rightarrow> predicate" where
  "pred_exists segs event = Inr (\<not> is_unresolved (resolve_path event segs))"

definition pred_equals :: "string list \<Rightarrow> json \<Rightarrow> predicate" where
  "pred_equals segs rv event = Inr (scalar_equals (resolve_path event segs) rv)"

definition pred_iequals :: "string list \<Rightarrow> string \<Rightarrow> predicate" where
  "pred_iequals segs rv event =
     Inr (case resolve_path event segs of Some (JStr s) \<Rightarrow> py_casefold s = rv | _ \<Rightarrow> False)"

definition string_tester :: "string \<Rightarrow> string \<Rightarrow> string \<Rightarrow> bool" where
  "string_tester base =
     (if base = ''contains'' then str_contains
      else if base = ''startswith'' then starts_with else ends_with)"

definition pred_string_op ::
  "string list \<Rightarrow> string list \<Rightarrow> bool \<Rightarrow> (string \<Rightarrow> string \<Rightarrow> bool) \<Rightarrow> predicate" where
  "pred_string_op segs vals ci test event =
     Inr (case resolve_path event segs of
            Some (JStr s) \<Rightarrow>
              (let haystack = (if ci then py_casefold s else s) in list_ex (test haystack) vals)
          | _ \<Rightarrow> False)"

definition pred_in :: "string list \<Rightarrow> json list \<Rightarrow> predicate" where
  "pred_in segs vals event = Inr (list_ex (scalar_equals (resolve_path event segs)) vals)"

definition pred_iin :: "string list \<Rightarrow> string list \<Rightarrow> predicate" where
  "pred_iin segs vals event =
     Inr (case resolve_path event segs of Some (JStr s) \<Rightarrow> py_casefold s \<in> set vals | _ \<Rightarrow> False)"

definition pred_numeric ::
  "string list \<Rightarrow> pyfloat \<Rightarrow> (pyfloat \<Rightarrow> pyfloat \<Rightarrow> bool) \<Rightarrow> predicate" where
  "pred_numeric segs rv cmp event =
     Inr (case Option.bind (resolve_path event segs) num_of of None \<Rightarrow> False | Some f \<Rightarrow> cmp f rv)"

definition pred_regex :: "pylib \<Rightarrow> string list \<Rightarrow> string \<Rightarrow> predicate" where
  "pred_regex lib segs re event =
     (case resolve_path event segs of
        Some (JStr s) \<Rightarrow> regex_search_guarded lib re s
      | _ \<Rightarrow> Inr False)"

subsection \<open>Compilation of the condition tree\<close>

record compile_state =
  cs_rule_id :: "string option"
  cs_event_class :: string
  cs_leaves :: nat

definition compile_op ::
  "pylib \<Rightarrow> string option \<Rightarrow> string \<Rightarrow> obj \<Rightarrow> string list \<Rightarrow> compile_exc + predicate" where
  "compile_op lib rid op node segments =
     (if op = ''exists'' then
        (if has_key node ''value'' then Inl (RuleCompileError rid ExistsTakesNoValue)
         else Inr (pred_exists segments))
      else if \<not> has_key node ''value'' then Inl (RuleCompileError rid (OpNeedsValue op))
      else let v = obj_get node ''value'' in
      if op = ''equals'' then rbind (check_scalar_value v rid) (\<lambda>rv. Inr (pred_equals segments rv))
      else if op = ''iequals'' then
        rbind (check_string_value v rid) (\<lambda>s. Inr (pred_iequals segments (py_casefold s)))
      else if op \<in> set STRING_OPS then
        (let case_insensitive = starts_with op ''i'';
             base = (if case_insensitive then drop 1 op else op) in
         rbind (string_or_list v rid) (\<lambda>vals.
           Inr (pred_string_op segments (if case_insensitive then map py_casefold vals else vals)
             case_insensitive (string_tester base))))
      else if op = ''in'' then
        (case v of
           JList vs \<Rightarrow>
             if vs = [] then Inl (RuleCompileError rid (OpNeedsList op))
             else if length vs > MAX_LIST_ENTRIES
               then Inl (RuleCompileError rid (ValueListTooLong (length vs)))
             else rbind (rmap (\<lambda>x. check_scalar_value x rid) vs) (\<lambda>scalars. Inr (pred_in segments scalars))
         | _ \<Rightarrow> Inl (RuleCompileError rid (OpNeedsList op)))
      else if op = ''iin'' then
        (case v of
           JList vs \<Rightarrow>
             if vs = [] then Inl (RuleCompileError rid (OpNeedsList op))
             else rbind (string_or_list v rid) (\<lambda>vals. Inr (pred_iin segments (map py_casefold vals)))
         | _ \<Rightarrow> Inl (RuleCompileError rid (OpNeedsList op)))
      else case map_of NUMERIC_OPS op of
          Some compare \<Rightarrow>
            (case num_of v of
               None \<Rightarrow> Inl (RuleCompileError rid (OpNeedsNumber op))
             | Some rv \<Rightarrow> Inr (pred_numeric segments rv compare))
        | None \<Rightarrow>
            if op = ''regex'' then
              rbind (check_string_value v rid) (\<lambda>pattern.
                rbind (validate_re2_subset lib pattern rid) (\<lambda>compiled.
                  Inr (pred_regex lib segments compiled)))
            else Inl (RuleCompileError rid (UnknownOperator op)))"

text \<open>\<^verbatim>\<open>str(path)\<close>; the caller has checked that it is a string.\<close>

definition path_str :: "json \<Rightarrow> string" where
  "path_str v = (case v of JStr s \<Rightarrow> s | _ \<Rightarrow> [])"

definition compile_leaf ::
  "pylib \<Rightarrow> obj \<Rightarrow> compile_state \<Rightarrow> compile_exc + (predicate \<times> compile_state)" where
  "compile_leaf lib node st =
     (let rid = cs_rule_id st;
          extra = filter (\<lambda>k. k \<notin> {''field'', ''op'', ''value''}) (map fst node);
          path = obj_get node ''field'' in
      rbind (guard (extra = []) (RuleCompileError rid (UnknownLeafKeys (sort extra)))) (\<lambda>_.
      (case obj_get node ''op'' of
         JStr op \<Rightarrow>
           rbind (validate_field_path path (cs_event_class st) rid) (\<lambda>_.
           let segments = py_split (CHR ''.'') (path_str path);
               st' = st\<lparr>cs_leaves := cs_leaves st + 1\<rparr> in
           rbind (guard (cs_leaves st' \<le> MAX_LEAVES) (RuleCompileError rid TooManyLeaves)) (\<lambda>_.
           rbind (compile_op lib rid op node segments) (\<lambda>p. Inr (p, st'))))
       | _ \<Rightarrow> Inl (RuleCompileError rid OpNotString))))"

definition pred_not :: "predicate \<Rightarrow> predicate" where
  "pred_not child event = rbind (child event) (\<lambda>b. Inr (\<not> b))"

fun pred_all :: "predicate list \<Rightarrow> predicate" where
  "pred_all [] event = Inr True"
| "pred_all (p # ps) event = rbind (p event) (\<lambda>b. if b then pred_all ps event else Inr False)"

fun pred_any :: "predicate list \<Rightarrow> predicate" where
  "pred_any [] event = Inr False"
| "pred_any (p # ps) event = rbind (p event) (\<lambda>b. if b then Inr True else pred_any ps event)"

lemma rbind_cong [fundef_cong]:
  "m = m' \<Longrightarrow> (\<And>x. m' = Inr x \<Longrightarrow> f x = f' x) \<Longrightarrow> rbind m f = rbind m' f'"
  by (cases m') simp_all

lemma obj_get_size [termination_simp]: "size (obj_get d k) < size (JObj d)"
  using map_of_size_less [of d k] by (auto simp: obj_get_def split: option.splits)

lemma obj_get_list_size [termination_simp]:
  "obj_get d k = JList cs \<Longrightarrow> size_list size cs < size (JObj d)"
  using obj_get_size [of d k] by simp

function (sequential) compile_node ::
    "pylib \<Rightarrow> json \<Rightarrow> compile_state \<Rightarrow> nat \<Rightarrow> compile_exc + (predicate \<times> compile_state)"
  and compile_nodes ::
    "pylib \<Rightarrow> json list \<Rightarrow> compile_state \<Rightarrow> nat \<Rightarrow> compile_exc + (predicate list \<times> compile_state)"
where
  "compile_node lib node st depth =
     (if depth > MAX_TREE_DEPTH then Inl (RuleCompileError (cs_rule_id st) TreeTooDeep)
      else case node of
        JObj d \<Rightarrow>
          (let structural = filter (has_key d) [''field'', ''all'', ''any'', ''not''] in
           if length structural \<noteq> 1
             then Inl (RuleCompileError (cs_rule_id st) (NotOneStructuralKey (sort structural)))
           else if has_key d ''field'' then compile_leaf lib d st
           else if has_key d ''not'' then
             (if set (map fst d) \<noteq> {''not''}
              then Inl (RuleCompileError (cs_rule_id st) (SiblingKeys ''not''))
              else rbind (compile_node lib (obj_get d ''not'') st (depth + 1)) (\<lambda>pst.
                     Inr (pred_not (fst pst), snd pst)))
           else
             (let key = (if has_key d ''all'' then ''all'' else ''any'') in
              if set (map fst d) \<noteq> {key}
                then Inl (RuleCompileError (cs_rule_id st) (SiblingKeys key))
              else case obj_get d key of
                  JList children \<Rightarrow>
                    if children = [] then Inl (RuleCompileError (cs_rule_id st) (NoChildren key))
                    else if length children > MAX_CHILDREN
                      then Inl (RuleCompileError (cs_rule_id st) (TooManyChildren key (length children)))
                    else rbind (compile_nodes lib children st (depth + 1)) (\<lambda>pst.
                           Inr (if key = ''all'' then pred_all (fst pst) else pred_any (fst pst), snd pst))
                | _ \<Rightarrow> Inl (RuleCompileError (cs_rule_id st) (NoChildren key))))
      | _ \<Rightarrow> Inl (RuleCompileError (cs_rule_id st) (NodeNotMapping node)))"
| "compile_nodes lib [] st depth = Inr ([], st)"
| "compile_nodes lib (child # children) st depth =
     rbind (compile_node lib child st depth) (\<lambda>pst.
     rbind (compile_nodes lib children (snd pst) depth) (\<lambda>psst.
       Inr (fst pst # fst psst, snd psst)))"
  by pat_completeness auto
termination
proof (relation "measure (case_sum (\<lambda>(lib, n, st, d). size n) (\<lambda>(lib, ns, st, d). size_list size ns))",
    goal_cases)
  case 1
  then show ?case by simp
next
  case (2 lib node st depth d structural)
  then show ?case using obj_get_size [of d "''not''"] by (simp only: in_measure sum.case prod.case)
next
  case (3 lib node st depth d structural key children)
  from 3(2) have "node = JObj d" .
  moreover have "size_list size children < size (JObj d)"
    by (rule obj_get_list_size) fact
  ultimately show ?case by (simp only: in_measure sum.case prod.case)
next
  case 4
  then show ?case by simp
next
  case 5
  then show ?case by simp
qed

declare compile_node.simps [simp del]

subsection \<open>Rule documents\<close>

record compiled_rule =
  cr_rule_id :: string
  cr_version :: string
  cr_title :: string
  cr_description :: string
  cr_severity :: string
  cr_event_class :: string
  cr_min_schema_version :: string
  cr_min_schema :: semver
  cr_mitre_technique_ids :: "string list"
  cr_entity :: "string list"
  cr_false_positives :: "string list"
  cr_references :: "string list"
  cr_definition :: obj
  cr_predicate :: predicate
  cr_entity_segments :: "string list list"

definition event_get :: "json \<Rightarrow> string \<Rightarrow> json" where
  "event_get event k = (case event of JObj d \<Rightarrow> obj_get d k | _ \<Rightarrow> JNull)"

definition applies_to :: "compiled_rule \<Rightarrow> json \<Rightarrow> bool" where
  "applies_to r event =
     (event_get event ''event_class'' = JStr (cr_event_class r)
      \<and> schema_version_applies (cr_min_schema r) (event_get event ''schema_version''))"

definition matches_condition :: "compiled_rule \<Rightarrow> predicate" where
  "matches_condition r event = cr_predicate r event"

definition evaluate :: "compiled_rule \<Rightarrow> predicate" where
  "evaluate r event = (if applies_to r event then matches_condition r event else Inr False)"

definition entity_key :: "pylib \<Rightarrow> compiled_rule \<Rightarrow> json \<Rightarrow> string" where
  "entity_key lib r event =
     join_with ''|'' (map (\<lambda>segs. fold_entity_value lib (resolve_path event segs)) (cr_entity_segments r))"

definition require_str :: "obj \<Rightarrow> string \<Rightarrow> string option \<Rightarrow> compile_exc + string" where
  "require_str doc key rid =
     (case obj_get doc key of
        JStr s \<Rightarrow>
          if py_strip s = [] then Inl (RuleCompileError rid (NotNonEmptyString key)) else Inr s
      | _ \<Rightarrow> Inl (RuleCompileError rid (NotNonEmptyString key)))"

definition require_str_list :: "obj \<Rightarrow> string \<Rightarrow> string option \<Rightarrow> compile_exc + string list" where
  "require_str_list doc key rid =
     (case obj_get doc key of
        JList vs \<Rightarrow>
          if vs = [] then Inl (RuleCompileError rid (NotNonEmptyList key))
          else rmap (\<lambda>item. case item of
              JStr s \<Rightarrow>
                if py_strip s = [] then Inl (RuleCompileError rid (EntryNotString key)) else Inr s
            | _ \<Rightarrow> Inl (RuleCompileError rid (EntryNotString key))) vs
      | _ \<Rightarrow> Inl (RuleCompileError rid (NotNonEmptyList key)))"

text \<open>\<^verbatim>\<open>RULE_ID_RE.match\<close>: dash-separated non-empty runs of lower-case letters and digits.\<close>

definition rule_id_matches :: "string \<Rightarrow> bool" where
  "rule_id_matches s =
     list_all (\<lambda>seg. seg \<noteq> [] \<and> list_all (\<lambda>c. is_lower c \<or> is_digit c) seg)
       (py_split (CHR ''-'') (drop_final_newline s))"

text \<open>\<^verbatim>\<open>TECHNIQUE_ID_RE.match\<close>: a T, four digits, and optionally a dot and three digits.\<close>

definition technique_id_matches :: "string \<Rightarrow> bool" where
  "technique_id_matches s =
     (case py_split (CHR ''.'') (drop_final_newline s) of
        [t] \<Rightarrow> length t = 5 \<and> hd t = CHR ''T'' \<and> list_all is_digit (tl t)
      | [t, sub] \<Rightarrow> length t = 5 \<and> hd t = CHR ''T'' \<and> list_all is_digit (tl t)
                  \<and> length sub = 3 \<and> list_all is_digit sub
      | _ \<Rightarrow> False)"

definition require_semver :: "obj \<Rightarrow> string \<Rightarrow> string option \<Rightarrow> compile_exc + (string \<times> semver)" where
  "require_semver doc key rid =
     rbind (require_str doc key rid) (\<lambda>v.
       case parse_semver (JStr v) of
         None \<Rightarrow> Inl (RuleCompileError rid (BadSemver key))
       | Some sv \<Rightarrow> Inr (v, sv))"

definition compile_detection ::
  "pylib \<Rightarrow> obj \<Rightarrow> string \<Rightarrow> string option \<Rightarrow> compile_exc + predicate" where
  "compile_detection lib doc event_class rid =
     (case obj_get doc ''detection'' of
        JObj det \<Rightarrow>
          if set (map fst det) \<noteq> {''condition''} then Inl (RuleCompileError rid BadDetection)
          else rbind (compile_node lib (obj_get det ''condition'')
                 \<lparr>cs_rule_id = rid, cs_event_class = event_class, cs_leaves = 0\<rparr> 1) (\<lambda>pst.
                 Inr (fst pst))
      | _ \<Rightarrow> Inl (RuleCompileError rid BadDetection))"

definition compile_rule :: "pylib \<Rightarrow> json \<Rightarrow> compile_exc + compiled_rule" where
  "compile_rule lib document =
     (case document of
        JObj doc \<Rightarrow>
          (let rid0 = (case obj_get doc ''id'' of JStr s \<Rightarrow> Some s | _ \<Rightarrow> None);
               unknown = filter (\<lambda>k. k \<notin> set TOP_LEVEL_ORDER) (map fst doc);
               missing = filter (\<lambda>k. \<not> has_key doc k) TOP_LEVEL_ORDER in
           rbind (guard (unknown = []) (RuleCompileError rid0 (UnknownTopLevelKeys (sort unknown)))) (\<lambda>_.
           rbind (guard (missing = []) (RuleCompileError rid0 (MissingKeys (sort missing)))) (\<lambda>_.
           rbind (require_str doc ''id'' rid0) (\<lambda>rule_id. let rid = Some rule_id in
           rbind (guard (length rule_id \<le> 64 \<and> rule_id_matches rule_id) (RuleCompileError rid BadRuleId)) (\<lambda>_.
           rbind (require_semver doc ''version'' rid) (\<lambda>version.
           rbind (require_str doc ''title'' rid) (\<lambda>title.
           rbind (guard (length title \<le> 120) (RuleCompileError rid TitleTooLong)) (\<lambda>_.
           rbind (require_str doc ''description'' rid) (\<lambda>description.
           rbind (require_str doc ''severity'' rid) (\<lambda>severity.
           rbind (guard (severity \<in> set SEVERITIES) (RuleCompileError rid BadSeverity)) (\<lambda>_.
           rbind (require_str doc ''event_class'' rid) (\<lambda>event_class.
           rbind (guard (event_class \<in> set EVENT_CLASSES) (RuleCompileError rid BadEventClass)) (\<lambda>_.
           rbind (require_semver doc ''min_schema_version'' rid) (\<lambda>min_schema.
           rbind (require_str_list doc ''mitre_technique_ids'' rid) (\<lambda>techniques.
           rbind (rmap (\<lambda>tid. guard (technique_id_matches tid)
                    (RuleCompileError rid (BadTechniqueId tid))) techniques) (\<lambda>_.
           rbind (require_str_list doc ''entity'' rid) (\<lambda>entity_paths.
           rbind (guard (1 \<le> length entity_paths \<and> length entity_paths \<le> 4)
                    (RuleCompileError rid BadEntityCount)) (\<lambda>_.
           rbind (rmap (\<lambda>path. validate_field_path (JStr path) event_class rid) entity_paths) (\<lambda>_.
           rbind (require_str_list doc ''false_positives'' rid) (\<lambda>false_positives.
           rbind (require_str_list doc ''references'' rid) (\<lambda>references.
           rbind (compile_detection lib doc event_class rid) (\<lambda>predicate.
           Inr \<lparr>cr_rule_id = rule_id, cr_version = fst version, cr_title = title,
                cr_description = description, cr_severity = severity, cr_event_class = event_class,
                cr_min_schema_version = fst min_schema, cr_min_schema = snd min_schema,
                cr_mitre_technique_ids = techniques, cr_entity = entity_paths,
                cr_false_positives = false_positives, cr_references = references,
                cr_definition = map (\<lambda>k. (k, obj_get doc k)) TOP_LEVEL_ORDER,
                cr_predicate = predicate,
                cr_entity_segments = map (py_split (CHR ''.'')) entity_paths\<rparr>))))))))))))))))))))))
      | _ \<Rightarrow> Inl (RuleCompileError None (DocNotMapping document)))"

subsection \<open>Case analysis of a successful compilation\<close>

lemma compile_node_cases [consumes 1, case_names leaf neg all any]:
  assumes "compile_node lib node st depth = Inr pst"
  obtains
    (leaf) d where "depth \<le> MAX_TREE_DEPTH" "node = JObj d" "has_key d ''field''"
      "compile_leaf lib d st = Inr pst"
  | (neg) d q where "depth \<le> MAX_TREE_DEPTH" "node = JObj d" "\<not> has_key d ''field''"
      "has_key d ''not''" "compile_node lib (obj_get d ''not'') st (depth + 1) = Inr (q, snd pst)"
      "fst pst = pred_not q"
  | (all) d cs ps where "depth \<le> MAX_TREE_DEPTH" "node = JObj d" "\<not> has_key d ''field''"
      "\<not> has_key d ''not''" "has_key d ''all''" "obj_get d ''all'' = JList cs" "cs \<noteq> []"
      "length cs \<le> MAX_CHILDREN"
      "compile_nodes lib cs st (depth + 1) = Inr (ps, snd pst)" "fst pst = pred_all ps"
  | (any) d cs ps where "depth \<le> MAX_TREE_DEPTH" "node = JObj d" "\<not> has_key d ''field''"
      "\<not> has_key d ''not''" "\<not> has_key d ''all''" "obj_get d ''any'' = JList cs" "cs \<noteq> []"
      "length cs \<le> MAX_CHILDREN"
      "compile_nodes lib cs st (depth + 1) = Inr (ps, snd pst)" "fst pst = pred_any ps"
proof -
  from assms have depth: "depth \<le> MAX_TREE_DEPTH"
    by (auto simp: compile_node.simps split: if_splits)
  with assms obtain d where node: "node = JObj d"
    by (auto simp: compile_node.simps split: json.splits)
  show thesis
  proof (cases "has_key d ''field''")
    case True
    with assms depth node have "compile_leaf lib d st = Inr pst"
      by (simp add: compile_node.simps Let_def split: if_splits)
    with depth node True show thesis by (rule leaf)
  next
    case nf: False
    show thesis
    proof (cases "has_key d ''not''")
      case True
      with assms depth node nf
      have "rbind (compile_node lib (obj_get d ''not'') st (depth + 1)) (\<lambda>pst.
              Inr (pred_not (fst pst), snd pst)) = Inr pst"
        by (simp add: compile_node.simps [of lib "JObj d"] Let_def split: if_splits)
      then obtain q where "compile_node lib (obj_get d ''not'') st (depth + 1) = Inr (q, snd pst)"
        "fst pst = pred_not q"
        by (auto simp: rbind_Inr_iff)
      with depth node nf True show thesis by (rule neg)
    next
      case nn: False
      define key where "key = (if has_key d ''all'' then ''all'' else ''any'')"
      from assms depth node nf nn
      have "(case obj_get d key of
               JList cs \<Rightarrow>
                 if cs = [] then Inl (RuleCompileError (cs_rule_id st) (NoChildren key))
                 else if length cs > MAX_CHILDREN
                   then Inl (RuleCompileError (cs_rule_id st) (TooManyChildren key (length cs)))
                 else rbind (compile_nodes lib cs st (depth + 1)) (\<lambda>pst.
                        Inr (if key = ''all'' then pred_all (fst pst) else pred_any (fst pst), snd pst))
             | _ \<Rightarrow> Inl (RuleCompileError (cs_rule_id st) (NoChildren key))) = Inr pst"
        unfolding key_def
        by (simp only: compile_node.simps [of lib "JObj d"] Let_def json.case split: if_split_asm)
           simp_all
      then obtain cs ps where cs: "obj_get d key = JList cs" "cs \<noteq> []" "length cs \<le> MAX_CHILDREN"
        "compile_nodes lib cs st (depth + 1) = Inr (ps, snd pst)"
        "fst pst = (if key = ''all'' then pred_all ps else pred_any ps)"
        by (auto simp: rbind_Inr_iff split: json.splits if_splits)
      show thesis
      proof (cases "has_key d ''all''")
        case True
        with cs have "obj_get d ''all'' = JList cs" "fst pst = pred_all ps"
          by (simp_all add: key_def)
        with depth node nf nn True cs(2,3,4) show thesis by (intro all)
      next
        case False
        with cs have "obj_get d ''any'' = JList cs" "fst pst = pred_any ps"
          by (simp_all add: key_def)
        with depth node nf nn False cs(2,3,4) show thesis by (intro any)
      qed
    qed
  qed
qed

subsection \<open>The meaning of a condition, from FORMAT.md\<close>

text \<open>
  \<open>leaf_holds\<close> is the operator table of \<^verbatim>\<open>FORMAT.md\<close> 3.1 on a resolved field value, and
  \<open>cond_holds\<close> the meaning of a condition node: an unresolved path makes a leaf false (5.3), \<^verbatim>\<open>all\<close>
  and \<^verbatim>\<open>any\<close> are the quantifiers over the children, \<^verbatim>\<open>not\<close> the complement. \<open>cond_times_out\<close> says
  that some regex leaf of the tree does not finish on the event.
\<close>

definition value_strings :: "json \<Rightarrow> string set" where
  "value_strings v =
     (case v of JStr s \<Rightarrow> {s} | JList vs \<Rightarrow> {s. JStr s \<in> set vs} | _ \<Rightarrow> {})"

definition value_list :: "json \<Rightarrow> json list" where
  "value_list v = (case v of JList vs \<Rightarrow> vs | _ \<Rightarrow> [])"

definition leaf_holds :: "pylib \<Rightarrow> string \<Rightarrow> json \<Rightarrow> json \<Rightarrow> bool" where
  "leaf_holds lib op rv fv \<longleftrightarrow>
     op = ''exists''
   \<or> op = ''equals'' \<and> scalar_equals (Some fv) rv
   \<or> op = ''iequals'' \<and> (\<exists>f r. fv = JStr f \<and> rv = JStr r \<and> py_casefold f = py_casefold r)
   \<or> op = ''contains'' \<and> (\<exists>f. fv = JStr f \<and> (\<exists>n \<in> value_strings rv. \<exists>a b. f = a @ n @ b))
   \<or> op = ''icontains'' \<and> (\<exists>f. fv = JStr f \<and>
        (\<exists>n \<in> value_strings rv. \<exists>a b. py_casefold f = a @ py_casefold n @ b))
   \<or> op = ''startswith'' \<and> (\<exists>f. fv = JStr f \<and> (\<exists>n \<in> value_strings rv. \<exists>b. f = n @ b))
   \<or> op = ''istartswith'' \<and> (\<exists>f. fv = JStr f \<and>
        (\<exists>n \<in> value_strings rv. \<exists>b. py_casefold f = py_casefold n @ b))
   \<or> op = ''endswith'' \<and> (\<exists>f. fv = JStr f \<and> (\<exists>n \<in> value_strings rv. \<exists>a. f = a @ n))
   \<or> op = ''iendswith'' \<and> (\<exists>f. fv = JStr f \<and>
        (\<exists>n \<in> value_strings rv. \<exists>a. py_casefold f = a @ py_casefold n))
   \<or> op = ''in'' \<and> (\<exists>r \<in> set (value_list rv). scalar_equals (Some fv) r)
   \<or> op = ''iin'' \<and> (\<exists>f. fv = JStr f \<and> (\<exists>n \<in> value_strings rv. py_casefold f = py_casefold n))
   \<or> op = ''gt'' \<and> (\<exists>f r. num_of fv = Some f \<and> num_of rv = Some r \<and> flt_less r f)
   \<or> op = ''gte'' \<and> (\<exists>f r. num_of fv = Some f \<and> num_of rv = Some r \<and> flt_le r f)
   \<or> op = ''lt'' \<and> (\<exists>f r. num_of fv = Some f \<and> num_of rv = Some r \<and> flt_less f r)
   \<or> op = ''lte'' \<and> (\<exists>f r. num_of fv = Some f \<and> num_of rv = Some r \<and> flt_le f r)
   \<or> op = ''regex'' \<and> (\<exists>f r. fv = JStr f \<and> rv = JStr r \<and> re_search lib r f = Some True)"

definition leaf_times_out :: "pylib \<Rightarrow> string \<Rightarrow> json \<Rightarrow> json \<Rightarrow> bool" where
  "leaf_times_out lib op rv fv \<longleftrightarrow>
     op = ''regex'' \<and> (\<exists>f r. fv = JStr f \<and> rv = JStr r \<and> re_search lib r f = None)"

definition leaf_path :: "obj \<Rightarrow> string list" where
  "leaf_path d = py_split (CHR ''.'') (path_str (obj_get d ''field''))"

definition leaf_op :: "obj \<Rightarrow> string" where
  "leaf_op d = path_str (obj_get d ''op'')"

definition children_of :: "obj \<Rightarrow> string \<Rightarrow> json list" where
  "children_of d key = value_list (obj_get d key)"

lemma children_of_size [termination_simp]:
  assumes "c \<in> set (children_of d key)"
  shows "size c < size (JObj d)"
proof -
  from assms obtain cs where cs: "obj_get d key = JList cs" "c \<in> set cs"
    by (cases "obj_get d key") (auto simp: children_of_def value_list_def)
  from cs(2) have "size c \<le> size_list size cs" by (rule size_list_estimation') simp
  also from cs(1) have "\<dots> < size (JObj d)" by (rule obj_get_list_size)
  finally show ?thesis .
qed

function cond_holds :: "pylib \<Rightarrow> json \<Rightarrow> json \<Rightarrow> bool" where
  "cond_holds lib node event =
     (case node of
        JObj d \<Rightarrow>
          if has_key d ''field'' then
            (\<exists>v. resolve_path event (leaf_path d) = Some v
               \<and> leaf_holds lib (leaf_op d) (obj_get d ''value'') v)
          else if has_key d ''not'' then \<not> cond_holds lib (obj_get d ''not'') event
          else if has_key d ''all'' then (\<forall>c \<in> set (children_of d ''all''). cond_holds lib c event)
          else (\<exists>c \<in> set (children_of d ''any''). cond_holds lib c event)
      | _ \<Rightarrow> False)"
  by pat_completeness auto
termination
  by (relation "measure (\<lambda>(lib, n, ev). size n)") (simp_all del: json.size add: obj_get_size children_of_size)

function cond_leaves :: "json \<Rightarrow> obj list" where
  "cond_leaves node =
     (case node of
        JObj d \<Rightarrow>
          if has_key d ''field'' then [d]
          else if has_key d ''not'' then cond_leaves (obj_get d ''not'')
          else if has_key d ''all'' then concat (map cond_leaves (children_of d ''all''))
          else concat (map cond_leaves (children_of d ''any''))
      | _ \<Rightarrow> [])"
  by pat_completeness auto
termination
  by (relation "measure size") (simp_all del: json.size add: obj_get_size children_of_size)

function cond_depth :: "json \<Rightarrow> nat" where
  "cond_depth node =
     (case node of
        JObj d \<Rightarrow>
          if has_key d ''field'' then 1
          else if has_key d ''not'' then 1 + cond_depth (obj_get d ''not'')
          else if has_key d ''all'' then 1 + foldr max (map cond_depth (children_of d ''all'')) 0
          else 1 + foldr max (map cond_depth (children_of d ''any'')) 0
      | _ \<Rightarrow> 1)"
  by pat_completeness auto
termination
  by (relation "measure size") (simp_all del: json.size add: obj_get_size children_of_size)

function cond_fanout :: "json \<Rightarrow> nat" where
  "cond_fanout node =
     (case node of
        JObj d \<Rightarrow>
          if has_key d ''field'' then 0
          else if has_key d ''not'' then cond_fanout (obj_get d ''not'')
          else let cs = (if has_key d ''all'' then children_of d ''all'' else children_of d ''any'') in
            foldr max (map cond_fanout cs) (length cs)
      | _ \<Rightarrow> 0)"
  by pat_completeness auto
termination
  by (relation "measure size") (auto simp del: json.size simp add: obj_get_size children_of_size split: if_splits)

definition cond_times_out :: "pylib \<Rightarrow> json \<Rightarrow> json \<Rightarrow> bool" where
  "cond_times_out lib node event \<longleftrightarrow>
     (\<exists>d \<in> set (cond_leaves node). \<exists>v. resolve_path event (leaf_path d) = Some v
        \<and> leaf_times_out lib (leaf_op d) (obj_get d ''value'') v)"

declare cond_holds.simps [simp del] cond_leaves.simps [simp del] cond_depth.simps [simp del]
  cond_fanout.simps [simp del]

subsection \<open>Compiled predicates compute the meaning\<close>

lemma check_string_value_Inr: "check_string_value v rid = Inr s \<longleftrightarrow> v = JStr s \<and> length s \<le> MAX_STRING_CHARS"
  by (auto simp: check_string_value_def split: json.splits if_splits)

lemma check_scalar_value_Inr: "check_scalar_value v rid = Inr w \<Longrightarrow> w = v"
  by (auto simp: check_scalar_value_def check_string_value_Inr soc_simps split: json.splits)

lemma rmap_check_string: "rmap (\<lambda>x. check_string_value x rid) vs = Inr ss \<Longrightarrow> vs = map JStr ss"
  by (induction vs arbitrary: ss) (auto simp: soc_simps check_string_value_Inr)

lemma rmap_check_scalar: "rmap (\<lambda>x. check_scalar_value x rid) vs = Inr ws \<Longrightarrow> ws = vs"
  by (induction vs arbitrary: ws) (auto simp: soc_simps dest: check_scalar_value_Inr)

lemma string_or_list_Inr:
  assumes "string_or_list v rid = Inr ss"
  shows "set ss = value_strings v"
proof (cases v)
  case (JList vs)
  with assms have "rmap (\<lambda>x. check_string_value x rid) vs = Inr ss"
    by (simp add: string_or_list_def split: if_splits)
  with JList show ?thesis by (auto simp: value_strings_def dest: rmap_check_string)
qed (use assms in \<open>auto simp: string_or_list_def value_strings_def check_string_value_Inr soc_simps\<close>)

lemma scalar_equals_None [simp]: "scalar_equals None rv = False"
  by (simp add: scalar_equals_def split: json.splits option.splits)

lemma list_ex_scalar_None [simp]: "\<not> list_ex (scalar_equals None) vs"
  by (simp add: list_ex_iff)

lemma string_op_names:
  "op \<in> set STRING_OPS \<longleftrightarrow>
     op = ''contains'' \<or> op = ''icontains'' \<or> op = ''startswith'' \<or> op = ''istartswith''
     \<or> op = ''endswith'' \<or> op = ''iendswith''"
  by (auto simp: STRING_OPS_def)

lemma pred_string_op_value:
  "pred_string_op segs vals ci test ev =
     Inr (\<exists>v f. resolve_path ev segs = Some v \<and> v = JStr f
          \<and> (\<exists>n \<in> set vals. test (if ci then py_casefold f else f) n))"
  by (auto simp: pred_string_op_def list_ex_iff Let_def split: option.splits json.splits)

lemma validate_re2_subset_Inr:
  "validate_re2_subset lib pat rid = Inr c \<Longrightarrow> c = pat \<and> length pat \<le> MAX_REGEX_CHARS
     \<and> (\<forall>needle \<in> set RE2_FORBIDDEN. \<not> str_contains pat needle) \<and> \<not> has_numeric_backref pat
     \<and> re_compiles lib pat"
  by (auto simp: validate_re2_subset_def find_None_iff split: if_splits option.splits)

definition leaf_outcome :: "pylib \<Rightarrow> string \<Rightarrow> json \<Rightarrow> json option \<Rightarrow> eval_exc + bool \<Rightarrow> bool" where
  "leaf_outcome lib op rv fv out \<longleftrightarrow>
     out = Inr (\<exists>v. fv = Some v \<and> leaf_holds lib op rv v)
     \<or> out = Inl RegexTimeoutError \<and> (\<exists>v. fv = Some v \<and> leaf_times_out lib op rv v)"

lemma string_test_meaning:
  assumes "op \<in> set STRING_OPS" and "set vals = value_strings rv"
  shows "(\<exists>n \<in> set (if starts_with op ''i'' then map py_casefold vals else vals).
            string_tester (if starts_with op ''i'' then drop 1 op else op)
              (if starts_with op ''i'' then py_casefold f else f) n)
         \<longleftrightarrow> leaf_holds lib op rv (JStr f)"
  using assms(1) unfolding string_op_names
  by (elim disjE; hypsubst)
     (simp_all add: leaf_holds_def string_tester_def assms(2) [symmetric] str_contains_iff ends_with_iff
       starts_with_iff [of f] starts_with_iff [of "py_casefold f"] starts_with_def [of "_ # _" "''i''"])

lemma leaf_holds_string_op:
  "op \<in> set STRING_OPS \<Longrightarrow> leaf_holds lib op rv v \<Longrightarrow> \<exists>f. v = JStr f"
  unfolding string_op_names by (auto simp: leaf_holds_def)

lemma compile_op_string:
  assumes "compile_op lib rid op node segs = Inr p" and "op \<in> set STRING_OPS"
  shows "p ev = Inr (\<exists>v. resolve_path ev segs = Some v \<and> leaf_holds lib op (obj_get node ''value'') v)"
proof -
  have ops: "op \<noteq> ''exists''" "op \<noteq> ''equals''" "op \<noteq> ''iequals''"
    using assms(2) by (auto simp: STRING_OPS_def)
  from assms ops obtain vals where vals: "string_or_list (obj_get node ''value'') rid = Inr vals"
    and p: "p = pred_string_op segs (if starts_with op ''i'' then map py_casefold vals else vals)
        (starts_with op ''i'') (string_tester (if starts_with op ''i'' then drop 1 op else op))"
    by (auto simp: compile_op_def Let_def rbind_Inr_iff split: if_splits)
  show ?thesis
    unfolding p pred_string_op_value
    using leaf_holds_string_op [OF assms(2), of lib "obj_get node ''value''"]
    by (simp only: string_test_meaning [OF assms(2) string_or_list_Inr [OF vals], of _ lib]) blast
qed

lemma compile_op_other:
  assumes "compile_op lib rid op node segs = Inr p" and "op \<notin> set STRING_OPS"
  shows "leaf_outcome lib op (obj_get node ''value'') (resolve_path ev segs) (p ev)"
proof -
  define v where "v = obj_get node ''value''"
  consider (ex) "op = ''exists''" "p = pred_exists segs"
    | (eq) rv where "op = ''equals''" "check_scalar_value v rid = Inr rv" "p = pred_equals segs rv"
    | (ieq) s where "op = ''iequals''" "check_string_value v rid = Inr s" "p = pred_iequals segs (py_casefold s)"
    | (inn) vs ws where "op = ''in''" "v = JList vs" "rmap (\<lambda>x. check_scalar_value x rid) vs = Inr ws"
        "p = pred_in segs ws"
    | (iin) vals where "op = ''iin''" "string_or_list v rid = Inr vals" "p = pred_iin segs (map py_casefold vals)"
    | (num) cmp rv where "map_of NUMERIC_OPS op = Some cmp" "num_of v = Some rv" "p = pred_numeric segs rv cmp"
    | (re) pat c where "op = ''regex''" "check_string_value v rid = Inr pat"
        "validate_re2_subset lib pat rid = Inr c" "p = pred_regex lib segs c"
  proof (cases "op = ''exists'' \<or> op = ''equals'' \<or> op = ''iequals'' \<or> op = ''in'' \<or> op = ''iin''")
    case True
    with assms that(1-5) show thesis
      by (auto simp: compile_op_def Let_def rbind_Inr_iff v_def STRING_OPS_def
          split: if_splits json.splits)
  next
    case False
    with assms that(6,7) show thesis
      by (auto simp: compile_op_def Let_def rbind_Inr_iff v_def
          split: if_splits option.splits)
  qed
  then show ?thesis
  proof cases
    case ex
    then show ?thesis
      by (auto simp: leaf_outcome_def pred_exists_def is_unresolved_def leaf_holds_def)
  next
    case eq
    then show ?thesis unfolding v_def [symmetric]
      by (auto simp: leaf_outcome_def pred_equals_def leaf_holds_def dest: check_scalar_value_Inr)
        (cases "resolve_path ev segs"; auto dest: check_scalar_value_Inr)+
  next
    case ieq
    then show ?thesis unfolding v_def [symmetric]
      by (auto simp: leaf_outcome_def pred_iequals_def leaf_holds_def check_string_value_Inr
          split: option.splits json.splits)
  next
    case inn
    then have "ws = vs" by (auto dest: rmap_check_scalar)
    with inn show ?thesis unfolding v_def [symmetric]
      by (cases "resolve_path ev segs")
        (auto simp: leaf_outcome_def pred_in_def leaf_holds_def value_list_def list_ex_iff)
  next
    case iin
    then have "set vals = value_strings v" by (simp add: string_or_list_Inr)
    with iin show ?thesis unfolding v_def [symmetric]
      by (auto simp: leaf_outcome_def pred_iin_def leaf_holds_def 
          split: option.splits json.splits)
  next
    case num
    then show ?thesis unfolding v_def [symmetric]
      by (cases "resolve_path ev segs")
        (auto simp: leaf_outcome_def pred_numeric_def leaf_holds_def NUMERIC_OPS_def
          split: option.splits if_splits)
  next
    case re
    then have "v = JStr c" by (auto simp: check_string_value_Inr dest: validate_re2_subset_Inr)
    with re show ?thesis unfolding v_def [symmetric]
      by (auto simp: leaf_outcome_def pred_regex_def leaf_holds_def leaf_times_out_def
          regex_search_guarded_def split: option.splits json.splits)
  qed
qed

lemma compile_op_outcome:
  assumes "compile_op lib rid op node segs = Inr p"
  shows "leaf_outcome lib op (obj_get node ''value'') (resolve_path ev segs) (p ev)"
proof (cases "op \<in> set STRING_OPS")
  case True
  with compile_op_string [OF assms] show ?thesis by (simp add: leaf_outcome_def)
qed (rule compile_op_other [OF assms])

lemma compile_leaf_Inr:
  assumes "compile_leaf lib d st = Inr pst"
  obtains op path where "obj_get d ''op'' = JStr op" "obj_get d ''field'' = JStr path"
    "validate_field_path (JStr path) (cs_event_class st) (cs_rule_id st) = Inr ()"
    "cs_leaves st < MAX_LEAVES" "snd pst = st\<lparr>cs_leaves := cs_leaves st + 1\<rparr>"
    "compile_op lib (cs_rule_id st) op d (py_split (CHR ''.'') path) = Inr (fst pst)"
    "set (map fst d) \<subseteq> {''field'', ''op'', ''value''}"
proof -
  from assms obtain op where op: "obj_get d ''op'' = JStr op"
    by (auto simp: compile_leaf_def rbind_Inr_iff Let_def split: json.splits)
  from assms op have keys: "set (map fst d) \<subseteq> {''field'', ''op'', ''value''}"
    by (auto simp: compile_leaf_def rbind_Inr_iff guard_Inr_iff Let_def filter_empty_conv)
  from assms op obtain u where v: "validate_field_path (obj_get d ''field'') (cs_event_class st) (cs_rule_id st) = Inr u"
    by (auto simp: compile_leaf_def rbind_Inr_iff Let_def)
  then obtain path where path: "obj_get d ''field'' = JStr path"
    by (auto simp: validate_field_path_def split: json.splits)
  show thesis
    by (rule that [OF op path _ _ _ _ keys])
      (use assms op v path in \<open>auto simp: compile_leaf_def rbind_Inr_iff guard_Inr_iff Let_def path_str_def\<close>)
qed

text \<open>The outcome of a predicate on an event agrees with the meaning of its node, or is the guard's
  timeout, and then some regex leaf of the node does time out on that event.\<close>

definition node_outcome :: "pylib \<Rightarrow> json \<Rightarrow> json \<Rightarrow> eval_exc + bool \<Rightarrow> bool" where
  "node_outcome lib node ev out \<longleftrightarrow>
     out = Inr (cond_holds lib node ev) \<or> out = Inl RegexTimeoutError \<and> cond_times_out lib node ev"

lemma pred_all_outcome:
  assumes "list_all2 (\<lambda>c p. node_outcome lib c ev (p ev)) cs ps"
  shows "pred_all ps ev = Inr (\<forall>c \<in> set cs. cond_holds lib c ev)
       \<or> pred_all ps ev = Inl RegexTimeoutError \<and> (\<exists>c \<in> set cs. cond_times_out lib c ev)"
  using assms by induction (auto simp: node_outcome_def split: if_splits)

lemma pred_any_outcome:
  assumes "list_all2 (\<lambda>c p. node_outcome lib c ev (p ev)) cs ps"
  shows "pred_any ps ev = Inr (\<exists>c \<in> set cs. cond_holds lib c ev)
       \<or> pred_any ps ev = Inl RegexTimeoutError \<and> (\<exists>c \<in> set cs. cond_times_out lib c ev)"
  using assms by induction (auto simp: node_outcome_def split: if_splits)

text \<open>An induction rule for successful compilations: one case per kind of node.\<close>

lemma compile_node_induct [consumes 1, case_names leaf neg all any Nil Cons]:
  fixes P :: "json \<Rightarrow> compile_state \<Rightarrow> nat \<Rightarrow> predicate \<Rightarrow> compile_state \<Rightarrow> bool"
    and Q :: "json list \<Rightarrow> compile_state \<Rightarrow> nat \<Rightarrow> predicate list \<Rightarrow> compile_state \<Rightarrow> bool"
  assumes "compile_node lib node st depth = Inr (p, st')"
  assumes "\<And>d st depth p st'. \<lbrakk>depth \<le> MAX_TREE_DEPTH; has_key d ''field''; compile_leaf lib d st = Inr (p, st')\<rbrakk>
             \<Longrightarrow> P (JObj d) st depth p st'"
    and "\<And>d st depth q st'. \<lbrakk>depth \<le> MAX_TREE_DEPTH; \<not> has_key d ''field''; has_key d ''not'';
             P (obj_get d ''not'') st (depth + 1) q st'\<rbrakk> \<Longrightarrow> P (JObj d) st depth (pred_not q) st'"
    and "\<And>d cs st depth ps st'. \<lbrakk>depth \<le> MAX_TREE_DEPTH; \<not> has_key d ''field''; \<not> has_key d ''not'';
             has_key d ''all''; obj_get d ''all'' = JList cs; cs \<noteq> []; length cs \<le> MAX_CHILDREN;
             Q cs st (depth + 1) ps st'\<rbrakk> \<Longrightarrow> P (JObj d) st depth (pred_all ps) st'"
    and "\<And>d cs st depth ps st'. \<lbrakk>depth \<le> MAX_TREE_DEPTH; \<not> has_key d ''field''; \<not> has_key d ''not'';
             \<not> has_key d ''all''; obj_get d ''any'' = JList cs; cs \<noteq> []; length cs \<le> MAX_CHILDREN;
             Q cs st (depth + 1) ps st'\<rbrakk> \<Longrightarrow> P (JObj d) st depth (pred_any ps) st'"
    and "\<And>st depth. Q [] st depth [] st"
    and "\<And>c cs st depth p st1 ps st'. \<lbrakk>P c st depth p st1; Q cs st1 depth ps st'\<rbrakk>
             \<Longrightarrow> Q (c # cs) st depth (p # ps) st'"
  shows "P node st depth p st'"
proof -
  have nodes: "Q cs st depth ps st'"
    if "compile_nodes lib cs st depth = Inr (ps, st')"
      and "\<And>c st p st'. c \<in> set cs \<Longrightarrow> compile_node lib c st depth = Inr (p, st') \<Longrightarrow> P c st depth p st'"
    for cs st depth ps st'
    using that
  proof (induction cs arbitrary: st ps)
    case Nil
    then show ?case using assms(6) by simp
  next
    case (Cons c cs)
    from Cons.prems(1) obtain p st1 qs where c: "compile_node lib c st depth = Inr (p, st1)"
      and cs: "compile_nodes lib cs st1 depth = Inr (qs, st')" and ps: "ps = p # qs"
      by (auto simp: rbind_Inr_iff)
    have "P c st depth p st1" by (rule Cons.prems(2) [OF _ c]) simp
    moreover have "Q cs st1 depth qs st'" by (rule Cons.IH [OF cs]) (simp add: Cons.prems(2))
    ultimately show ?case unfolding ps by (rule assms(7))
  qed
  from assms(1) show ?thesis
  proof (induction "size node" arbitrary: node st depth p st' rule: less_induct)
    case less
    have lists: "Q cs st (depth + 1) ps st'"
      if "compile_nodes lib cs st (depth + 1) = Inr (ps, st')" "obj_get d key = JList cs" "node = JObj d"
      for d key cs ps st'
    proof (rule nodes [OF that(1)])
      fix c st p st'
      assume "c \<in> set cs" and c: "compile_node lib c st (depth + 1) = Inr (p, st')"
      with that(2) have "c \<in> set (children_of d key)" by (simp add: children_of_def value_list_def)
      then have "size c < size node" unfolding that(3) by (rule children_of_size)
      then show "P c st (depth + 1) p st'" using c by (rule less.hyps)
    qed
    from less.prems show ?case
    proof (cases rule: compile_node_cases)
      case (leaf d)
      then show ?thesis using assms(2) by simp
    next
      case (neg d q)
      have "P (obj_get d ''not'') st (depth + 1) q st'"
        using neg obj_get_size [of d "''not''"] by (intro less.hyps) simp_all
      with neg assms(3) show ?thesis by simp
    next
      case (all d cs ps)
      then have "Q cs st (depth + 1) ps st'" by (intro lists) simp_all
      with all assms(4) show ?thesis by simp
    next
      case (any d cs ps)
      then have "Q cs st (depth + 1) ps st'" by (intro lists) simp_all
      with any assms(5) show ?thesis by simp
    qed
  qed
qed

lemma compile_node_outcome:
  assumes "compile_node lib node st depth = Inr (p, st')"
  shows "node_outcome lib node ev (p ev)"
  using assms
proof (induction rule: compile_node_induct [where Q = "\<lambda>cs _ _ ps _. list_all2 (\<lambda>c p. node_outcome lib c ev (p ev)) cs ps"])
  case (leaf d st depth p st')
  from leaf(3) obtain op path where l: "obj_get d ''op'' = JStr op" "obj_get d ''field'' = JStr path"
    "compile_op lib (cs_rule_id st) op d (py_split (CHR ''.'') path) = Inr p"
    by (rule compile_leaf_Inr) simp
  from compile_op_outcome [OF l(3), of ev] leaf(2) l(1,2) show ?case
    by (auto simp: leaf_outcome_def node_outcome_def cond_holds.simps cond_times_out_def cond_leaves.simps leaf_op_def
        leaf_path_def path_str_def)
next
  case (neg d st depth q st')
  then show ?case
    by (auto simp: node_outcome_def cond_holds.simps [of _ "JObj d"] cond_times_out_def cond_leaves.simps [of "JObj d"] pred_not_def)
next
  case (all d cs st depth ps st')
  then have "children_of d ''all'' = cs" by (simp add: children_of_def value_list_def)
  with all pred_all_outcome [OF all(8)] show ?case
    by (auto simp: node_outcome_def cond_holds.simps [of _ "JObj d"] cond_times_out_def cond_leaves.simps [of "JObj d"])
next
  case (any d cs st depth ps st')
  then have "children_of d ''any'' = cs" by (simp add: children_of_def value_list_def)
  with any pred_any_outcome [OF any(8)] show ?case
    by (auto simp: node_outcome_def cond_holds.simps [of _ "JObj d"] cond_times_out_def cond_leaves.simps [of "JObj d"])
qed simp_all

subsection \<open>Size bounds of a compiled condition\<close>

lemma foldr_max_le: "foldr max xs (a::nat) \<le> b \<longleftrightarrow> a \<le> b \<and> (\<forall>x \<in> set xs. x \<le> b)"
  by (induction xs) auto

definition leaf_ok :: "pylib \<Rightarrow> string \<Rightarrow> obj \<Rightarrow> bool" where
  "leaf_ok lib event_class d \<longleftrightarrow>
     (\<exists>rid path op p. obj_get d ''field'' = JStr path \<and> obj_get d ''op'' = JStr op
        \<and> validate_field_path (JStr path) event_class rid = Inr ()
        \<and> compile_op lib rid op d (py_split (CHR ''.'') path) = Inr p)"

lemma compile_node_leaves:
  assumes "compile_node lib node st depth = Inr (p, st')"
  shows "(\<forall>d \<in> set (cond_leaves node). leaf_ok lib (cs_event_class st) d)
       \<and> cs_leaves st' = cs_leaves st + length (cond_leaves node)
       \<and> cs_event_class st' = cs_event_class st
       \<and> cond_leaves node \<noteq> [] \<and> cs_leaves st' \<le> MAX_LEAVES"
  using assms
proof (induction rule: compile_node_induct [where
      Q = "\<lambda>cs st _ _ st'. (\<forall>d \<in> set (concat (map cond_leaves cs)). leaf_ok lib (cs_event_class st) d)
       \<and> cs_leaves st' = cs_leaves st + length (concat (map cond_leaves cs))
       \<and> cs_event_class st' = cs_event_class st
       \<and> (cs \<noteq> [] \<longrightarrow> concat (map cond_leaves cs) \<noteq> [] \<and> cs_leaves st' \<le> MAX_LEAVES)"])
  case (leaf d st depth p st')
  from leaf(3) obtain op path where "obj_get d ''op'' = JStr op" "obj_get d ''field'' = JStr path"
    "validate_field_path (JStr path) (cs_event_class st) (cs_rule_id st) = Inr ()"
    "cs_leaves st < MAX_LEAVES" "st' = st\<lparr>cs_leaves := cs_leaves st + 1\<rparr>"
    "compile_op lib (cs_rule_id st) op d (py_split (CHR ''.'') path) = Inr p"
    by (rule compile_leaf_Inr) simp
  with leaf(2) show ?case
    unfolding leaf_ok_def cond_leaves.simps [of "JObj d"] by auto
next
  case (neg d st depth q st')
  then show ?case by (simp add: cond_leaves.simps [of "JObj d"])
next
  case (all d cs st depth ps st')
  then show ?case by (simp add: cond_leaves.simps [of "JObj d"] children_of_def value_list_def)
next
  case (any d cs st depth ps st')
  then show ?case by (simp add: cond_leaves.simps [of "JObj d"] children_of_def value_list_def)
next
  case (Cons c cs st depth p st1 ps st')
  then show ?case by (cases "cs = []") auto
qed simp_all

lemma compile_node_shape:
  assumes "compile_node lib node st depth = Inr (p, st')"
  shows "depth + cond_depth node \<le> MAX_TREE_DEPTH + 1 \<and> cond_fanout node \<le> MAX_CHILDREN"
  using assms
proof (induction rule: compile_node_induct [where
      Q = "\<lambda>cs _ depth _ _. \<forall>c \<in> set cs. depth + cond_depth c \<le> MAX_TREE_DEPTH + 1 \<and> cond_fanout c \<le> MAX_CHILDREN"])
  case (leaf d st depth p st')
  then show ?case by (simp add: cond_depth.simps [of "JObj d"] cond_fanout.simps [of "JObj d"])
next
  case (neg d st depth q st')
  then show ?case by (simp add: cond_depth.simps [of "JObj d"] cond_fanout.simps [of "JObj d"])
next
  case (all d cs st depth ps st')
  then have "foldr max (map cond_depth cs) 0 \<le> MAX_TREE_DEPTH - depth"
    by (fastforce simp: foldr_max_le)
  moreover from all have "foldr max (map cond_fanout cs) (length cs) \<le> MAX_CHILDREN"
    by (simp add: foldr_max_le)
  ultimately show ?case using all
    by (simp add: cond_depth.simps [of "JObj d"] cond_fanout.simps [of "JObj d"] children_of_def
        value_list_def Let_def)
next
  case (any d cs st depth ps st')
  then have "foldr max (map cond_depth cs) 0 \<le> MAX_TREE_DEPTH - depth"
    by (fastforce simp: foldr_max_le)
  moreover from any have "foldr max (map cond_fanout cs) (length cs) \<le> MAX_CHILDREN"
    by (simp add: foldr_max_le)
  ultimately show ?case using any
    by (simp add: cond_depth.simps [of "JObj d"] cond_fanout.simps [of "JObj d"] children_of_def
        value_list_def Let_def)
qed simp_all

subsection \<open>Inversion of a successful compilation\<close>

definition rule_condition :: "json \<Rightarrow> json" where
  "rule_condition document = event_get (event_get document ''detection'') ''condition''"

lemma compile_detection_Inr:
  assumes "compile_detection lib doc ec rid = Inr p"
  obtains st' where "compile_node lib (rule_condition (JObj doc))
      \<lparr>cs_rule_id = rid, cs_event_class = ec, cs_leaves = 0\<rparr> 1 = Inr (p, st')"
  using assms
  by (auto simp: compile_detection_def rule_condition_def event_get_def rbind_Inr_iff
      split: json.splits if_splits)

lemma compile_rule_Inr:
  assumes "compile_rule lib document = Inr r"
  obtains doc where "document = JObj doc"
    "obj_get doc ''id'' = JStr (cr_rule_id r)"
    "set (map fst doc) = set TOP_LEVEL_ORDER"
    "rule_id_matches (cr_rule_id r)" "length (cr_rule_id r) \<le> 64"
    "compile_detection lib doc (cr_event_class r) (Some (cr_rule_id r)) = Inr (cr_predicate r)"
    "cr_event_class r \<in> set EVENT_CLASSES" "cr_severity r \<in> set SEVERITIES"
    "semver_match (cr_min_schema_version r) = Some (cr_min_schema r)"
    "cr_entity_segments r = map (py_split (CHR ''.'')) (cr_entity r)"
    "1 \<le> length (cr_entity r)" "length (cr_entity r) \<le> 4"
    "\<forall>path \<in> set (cr_entity r).
       validate_field_path (JStr path) (cr_event_class r) (Some (cr_rule_id r)) = Inr ()"
proof -
  from assms obtain doc where doc: "document = JObj doc"
    by (auto simp: compile_rule_def split: json.splits)
  have str: "obj_get doc ''id'' = JStr s" if "require_str doc ''id'' x = Inr s" for x s
    using that by (auto simp: require_str_def split: json.splits if_splits)
  have sem: "semver_match s = Some v" if "require_semver doc k x = Inr (s, v)" for k x s v
    using that by (auto simp: require_semver_def rbind_Inr_iff parse_semver_def split: option.splits)
  note inv = assms [unfolded doc compile_rule_def json.case Let_def rbind_Inr_iff guard_Inr_iff]
  from inv have "filter (\<lambda>k. k \<notin> set TOP_LEVEL_ORDER) (map fst doc) = []"
    by (elim exE conjE) assumption
  moreover from inv have "filter (\<lambda>k. \<not> has_key doc k) TOP_LEVEL_ORDER = []"
    by (elim exE conjE) assumption
  ultimately have keys: "set (map fst doc) = set TOP_LEVEL_ORDER"
    unfolding has_key_def filter_empty_conv by blast
  from inv show thesis
    by (elim exE conjE) (rule that [OF doc _ keys], auto simp: str dest: sem rmap_Inr_all)
qed


subsection \<open>What a rule can see of an event\<close>

text \<open>The event without what no rule may match on: the server-assigned envelope keys, the raw
  payload and the unmapped vendor fields, and the two identifiers inside \<^verbatim>\<open>source\<close>.\<close>

definition HIDDEN_KEYS :: "string list" where
  "HIDDEN_KEYS = filter (\<lambda>k. CHR ''.'' \<notin> set k) NEVER_MATCHABLE @ FORBIDDEN_ROOTS"

definition without_keys :: "string list \<Rightarrow> obj \<Rightarrow> obj" where
  "without_keys ks d = filter (\<lambda>kv. fst kv \<notin> set ks) d"

definition hide_source :: "string \<times> json \<Rightarrow> string \<times> json" where
  "hide_source kv = (case kv of
      (k, JObj d) \<Rightarrow> (k, if k = ''source'' then JObj (without_keys [''device_id'', ''ingest_key_id''] d) else JObj d)
    | _ \<Rightarrow> kv)"

definition matchable_part :: "json \<Rightarrow> json" where
  "matchable_part ev = (case ev of
      JObj d \<Rightarrow> JObj (map hide_source (without_keys HIDDEN_KEYS d)) | v \<Rightarrow> v)"

lemma map_of_without_keys: "map_of (without_keys ks d) k = (if k \<in> set ks then None else map_of d k)"
  by (induction d) (auto simp: without_keys_def)

lemma fst_hide_source [simp]: "fst (hide_source kv) = fst kv"
  by (auto simp: hide_source_def split: prod.splits json.splits)

lemma map_of_hide_source:
  "map_of (map hide_source d) k = map_option (\<lambda>v. snd (hide_source (k, v))) (map_of d k)"
  by (induction d) (auto simp: hide_source_def split: prod.splits json.splits)

lemma resolve_matchable_part:
  assumes "segs \<noteq> []" "hd segs \<notin> set HIDDEN_KEYS"
    and "\<And>s rest. segs = ''source'' # s # rest \<Longrightarrow> s \<noteq> ''device_id'' \<and> s \<noteq> ''ingest_key_id''"
  shows "resolve_path (matchable_part ev) segs = resolve_path ev segs"
proof (cases ev)
  case (JObj d)
  from assms(1) obtain k rest where segs: "segs = k # rest" by (cases segs) auto
  have sub: "resolve_path (snd (hide_source (k, v))) rest = resolve_path v rest" for v
    using assms(3) segs
    by (cases rest) (auto simp: hide_source_def map_of_without_keys split: json.splits option.splits)
  from JObj segs assms(2) sub show ?thesis
    by (simp add: matchable_part_def map_of_hide_source map_of_without_keys split: option.splits)
qed (use assms(1) in \<open>auto simp: matchable_part_def\<close>)

lemma validate_field_path_Inr:
  assumes "validate_field_path (JStr p) ec rid = Inr ()"
  shows "p \<in> set ENVELOPE_MATCHABLE \<or> (\<exists>ps. map_of CLASS_MATCHABLE ec = Some ps \<and> p \<in> set ps)
       \<or> (\<exists>k. ec = ''generic'' \<and> py_split (CHR ''.'') p = [''fields'', k])"
proof -
  have two: "segs = [hd segs, segs ! 1]" if "length segs = 2" for segs :: "string list"
    using that by (cases segs; cases "tl segs") auto
  from assms show ?thesis
    by (auto simp: validate_field_path_def Let_def split: if_splits option.splits) (metis two)
qed

lemma validated_path_visible:
  assumes "validate_field_path (JStr p) ec rid = Inr ()"
  shows "resolve_path (matchable_part ev) (py_split (CHR ''.'') p) = resolve_path ev (py_split (CHR ''.'') p)"
proof (rule resolve_matchable_part)
  from validate_field_path_Inr [OF assms]
  consider "p \<in> set (ENVELOPE_MATCHABLE @ concat (map snd CLASS_MATCHABLE))"
    | k where "py_split (CHR ''.'') p = [''fields'', k]"
    by (force dest: map_of_SomeD)
  then have "hd (py_split (CHR ''.'') p) \<notin> set HIDDEN_KEYS
    \<and> (\<forall>s rest. py_split (CHR ''.'') p = ''source'' # s # rest \<longrightarrow> s \<noteq> ''device_id'' \<and> s \<noteq> ''ingest_key_id'')"
  proof cases
    case 1
    moreover have "list_all (\<lambda>p. hd (py_split (CHR ''.'') p) \<notin> set HIDDEN_KEYS
      \<and> (case py_split (CHR ''.'') p of h # s # _ \<Rightarrow> h = ''source'' \<longrightarrow> s \<noteq> ''device_id'' \<and> s \<noteq> ''ingest_key_id''
         | _ \<Rightarrow> True)) (ENVELOPE_MATCHABLE @ concat (map snd CLASS_MATCHABLE))"
      by code_simp
    ultimately have "hd (py_split (CHR ''.'') p) \<notin> set HIDDEN_KEYS
      \<and> (case py_split (CHR ''.'') p of h # s # _ \<Rightarrow> h = ''source'' \<longrightarrow> s \<noteq> ''device_id'' \<and> s \<noteq> ''ingest_key_id''
         | _ \<Rightarrow> True)"
      unfolding list_all_iff by blast
    then show ?thesis by (auto split: list.splits)
  next
    case 2
    then show ?thesis by (simp add: HIDDEN_KEYS_def NEVER_MATCHABLE_def FORBIDDEN_ROOTS_def)
  qed
  then show "hd (py_split (CHR ''.'') p) \<notin> set HIDDEN_KEYS"
    "\<And>s rest. py_split (CHR ''.'') p = ''source'' # s # rest \<Longrightarrow> s \<noteq> ''device_id'' \<and> s \<noteq> ''ingest_key_id''"
    by blast+
qed simp


lemmas pred_defs = pred_exists_def pred_equals_def pred_iequals_def pred_string_op_def pred_in_def
  pred_iin_def pred_numeric_def pred_regex_def

lemma compile_op_local:
  assumes "compile_op lib rid op node segs = Inr p" "resolve_path ev segs = resolve_path ev' segs"
  shows "p ev = p ev'"
proof -
  have "\<exists>f. \<forall>e. p e = f (resolve_path e segs)"
    using assms(1)
    by (auto simp: compile_op_def Let_def rbind_Inr_iff pred_defs
        split: if_splits option.splits json.splits)
  with assms(2) show ?thesis by metis
qed

lemma pred_list_local:
  assumes "\<forall>p \<in> set ps. p ev = p ev'"
  shows "pred_all ps ev = pred_all ps ev'" and "pred_any ps ev = pred_any ps ev'"
  using assms by (induction ps) (simp_all cong: if_cong)

lemma compile_node_local:
  assumes "compile_node lib node st depth = Inr (p, st')"
  shows "p (matchable_part ev) = p ev"
  using assms
proof (induction rule: compile_node_induct [where Q = "\<lambda>_ _ _ ps _. \<forall>p \<in> set ps. p (matchable_part ev) = p ev"])
  case (leaf d st depth p st')
  from leaf(3) obtain op path where
    "validate_field_path (JStr path) (cs_event_class st) (cs_rule_id st) = Inr ()"
    "compile_op lib (cs_rule_id st) op d (py_split (CHR ''.'') path) = Inr p"
    by (rule compile_leaf_Inr) simp
  then show ?case by (blast intro: compile_op_local validated_path_visible)
next
  case (all d cs st depth ps st')
  then show ?case by (intro pred_list_local) simp
next
  case (any d cs st depth ps st')
  then show ?case by (intro pred_list_local) simp
qed (simp_all add: pred_not_def)

subsection \<open>Properties of compiled rules\<close>

lemma evaluate_meaning:
  assumes "compile_rule lib document = Inr r"
  shows "evaluate r ev = Inr (applies_to r ev \<and> cond_holds lib (rule_condition document) ev)
       \<or> evaluate r ev = Inl RegexTimeoutError \<and> applies_to r ev
           \<and> cond_times_out lib (rule_condition document) ev"
proof -
  from assms obtain doc where doc: "document = JObj doc"
    "compile_detection lib doc (cr_event_class r) (Some (cr_rule_id r)) = Inr (cr_predicate r)"
    by (rule compile_rule_Inr)
  from doc(2) obtain st' where "compile_node lib (rule_condition (JObj doc))
      \<lparr>cs_rule_id = Some (cr_rule_id r), cs_event_class = cr_event_class r, cs_leaves = 0\<rparr> 1
      = Inr (cr_predicate r, st')"
    by (rule compile_detection_Inr)
  from compile_node_outcome [OF this, of ev] doc(1) show ?thesis
    by (auto simp: evaluate_def matches_condition_def node_outcome_def)
qed

lemma compiled_rule_sees_matchable_part:
  assumes "compile_rule lib document = Inr r"
  shows "matches_condition r (matchable_part ev) = matches_condition r ev"
    and "entity_key lib r (matchable_part ev) = entity_key lib r ev"
proof -
  from assms obtain doc where doc: "document = JObj doc"
    "compile_detection lib doc (cr_event_class r) (Some (cr_rule_id r)) = Inr (cr_predicate r)"
    "cr_entity_segments r = map (py_split (CHR ''.'')) (cr_entity r)"
    "\<forall>path \<in> set (cr_entity r).
       validate_field_path (JStr path) (cr_event_class r) (Some (cr_rule_id r)) = Inr ()"
    by (rule compile_rule_Inr)
  from doc(2) show "matches_condition r (matchable_part ev) = matches_condition r ev"
    by (auto simp: matches_condition_def elim!: compile_detection_Inr dest: compile_node_local)
  have "map (\<lambda>segs. fold_entity_value lib (resolve_path (matchable_part ev) segs)) (cr_entity_segments r)
      = map (\<lambda>segs. fold_entity_value lib (resolve_path ev segs)) (cr_entity_segments r)"
    using doc(3,4) by (auto simp: validated_path_visible)
  then show "entity_key lib r (matchable_part ev) = entity_key lib r ev"
    by (simp only: entity_key_def)
qed

lemma compiled_rule_bounds:
  assumes "compile_rule lib document = Inr r"
  shows "cond_depth (rule_condition document) \<le> 8" "cond_fanout (rule_condition document) \<le> 32"
    "1 \<le> length (cond_leaves (rule_condition document))"
    "length (cond_leaves (rule_condition document)) \<le> 64"
    "\<forall>d \<in> set (cond_leaves (rule_condition document)). leaf_ok lib (cr_event_class r) d"
proof -
  from assms obtain doc where doc: "document = JObj doc"
    "compile_detection lib doc (cr_event_class r) (Some (cr_rule_id r)) = Inr (cr_predicate r)"
    by (rule compile_rule_Inr)
  from doc(2) obtain st' where node: "compile_node lib (rule_condition document)
      \<lparr>cs_rule_id = Some (cr_rule_id r), cs_event_class = cr_event_class r, cs_leaves = 0\<rparr> 1
      = Inr (cr_predicate r, st')"
    unfolding doc(1) by (rule compile_detection_Inr)
  from compile_node_leaves [OF node] compile_node_shape [OF node]
  show "cond_depth (rule_condition document) \<le> 8" "cond_fanout (rule_condition document) \<le> 32"
    "1 \<le> length (cond_leaves (rule_condition document))"
    "length (cond_leaves (rule_condition document)) \<le> 64"
    "\<forall>d \<in> set (cond_leaves (rule_condition document)). leaf_ok lib (cr_event_class r) d"
    by (auto simp: compile_bounds Suc_le_eq)
qed

definition demo_lib :: pylib where
  "demo_lib = \<lparr>re_compiles = (\<lambda>_. True), re_search = (\<lambda>pat s. Some (str_contains s pat)),
     float_repr = (\<lambda>_. ''1.5'')\<rparr>"

definition demo_rule :: json where
  "demo_rule = JObj
     [(''id'', JStr ''encoded-powershell''), (''version'', JStr ''1.0.0''), (''title'', JStr ''Encoded command''),
      (''description'', JStr ''An encoded PowerShell command''), (''severity'', JStr ''high''),
      (''event_class'', JStr ''process_activity''), (''min_schema_version'', JStr ''1.0.0''),
      (''mitre_technique_ids'', JList [JStr ''T1059.001'']),
      (''entity'', JList [JStr ''host.hostname'', JStr ''user.name'']),
      (''detection'', JObj [(''condition'', JObj [(''all'', JList
         [JObj [(''field'', JStr ''process.name''), (''op'', JStr ''iequals''), (''value'', JStr ''PowerShell.exe'')],
          JObj [(''not'', JObj [(''field'', JStr ''process.cmd_line''), (''op'', JStr ''regex''),
                                (''value'', JStr ''signed'')])]])])]),
      (''false_positives'', JList [JStr ''administration scripts'']),
      (''references'', JList [JStr ''ref'']) ]"

definition demo_event :: json where
  "demo_event = JObj
     [(''tenant_id'', JStr ''t1''), (''event_class'', JStr ''process_activity''), (''schema_version'', JStr ''1.2.0''),
      (''host'', JObj [(''hostname'', JStr ''WS-1'')]), (''user'', JObj [(''name'', JStr ''Ada'')]),
      (''process'', JObj [(''name'', JStr ''powershell.EXE''), (''cmd_line'', JStr ''-enc AAAA'')])]"

lemma demo_rule_compiles: "is_ok (compile_rule demo_lib demo_rule)"
  by code_simp

lemma demo_rule_matches:
  "evaluate (projr (compile_rule demo_lib demo_rule)) demo_event = Inr True"
  by code_simp

lemma demo_rule_key: "entity_key demo_lib (projr (compile_rule demo_lib demo_rule)) demo_event = ''ws-1|ada''"
  by code_simp

text \<open>C1: the compiler is correct. When a rule document compiles, evaluating the compiled rule on
  any event gives exactly what \<^verbatim>\<open>FORMAT.md\<close> says the condition means on that event (and false when
  the rule does not apply to the event's class and schema version); the only other outcome is the
  regex guard's timeout, and then some regex leaf of the rule does time out on that event.\<close>

theorem compiled_rule_correct:
  assumes "compile_rule lib document = Inr r"
  shows "evaluate r ev = Inr (applies_to r ev \<and> cond_holds lib (rule_condition document) ev)
       \<or> evaluate r ev = Inl RegexTimeoutError \<and> applies_to r ev
           \<and> cond_times_out lib (rule_condition document) ev"
  using assms by (rule evaluate_meaning)

theorem compiled_rule_correct_witness:
  "\<exists>r. compile_rule demo_lib demo_rule = Inr r \<and>
     (evaluate r demo_event = Inr (applies_to r demo_event \<and> cond_holds demo_lib (rule_condition demo_rule) demo_event)
      \<or> evaluate r demo_event = Inl RegexTimeoutError \<and> applies_to r demo_event
           \<and> cond_times_out demo_lib (rule_condition demo_rule) demo_event)"
  using demo_rule_compiles compiled_rule_correct [of demo_lib demo_rule _ demo_event]
  unfolding is_ok_iff by blast

text \<open>C2: rules are blind to tenancy and to server-assigned data. Deleting from an event its tenant,
  event, batch and device identifiers, its ingest time, schema version and class, the raw payload
  and the unmapped fields changes neither whether a compiled rule's condition matches nor the
  entity key it derives.\<close>

theorem compiled_rule_noninterference:
  assumes "compile_rule lib document = Inr r"
  shows "matches_condition r (matchable_part ev) = matches_condition r ev
       \<and> entity_key lib r (matchable_part ev) = entity_key lib r ev"
  using compiled_rule_sees_matchable_part [OF assms] by blast

theorem compiled_rule_noninterference_witness:
  "\<exists>r. compile_rule demo_lib demo_rule = Inr r
     \<and> matchable_part demo_event \<noteq> demo_event
     \<and> matches_condition r (matchable_part demo_event) = matches_condition r demo_event
     \<and> entity_key demo_lib r (matchable_part demo_event) = entity_key demo_lib r demo_event"
proof -
  obtain r where r: "compile_rule demo_lib demo_rule = Inr r"
    using demo_rule_compiles unfolding is_ok_iff by blast
  moreover have "matchable_part demo_event \<noteq> demo_event" by code_simp
  ultimately show ?thesis using compiled_rule_noninterference [OF r, of demo_event] by blast
qed

text \<open>A compiled rule is bounded. A document that compiles has a condition tree at most 8
  deep, with 1 to 64 leaves and at most 32 children per node, and every leaf names a field on the
  allowlist of the rule's event class and an operator whose value is valid.\<close>

theorem compiled_rule_bounded:
  assumes "compile_rule lib document = Inr r"
  shows "cond_depth (rule_condition document) \<le> 8
       \<and> cond_fanout (rule_condition document) \<le> 32
       \<and> length (cond_leaves (rule_condition document)) \<in> {1..64}
       \<and> (\<forall>d \<in> set (cond_leaves (rule_condition document)). leaf_ok lib (cr_event_class r) d)"
  using compiled_rule_bounds [OF assms] by simp

theorem compiled_rule_bounded_witness:
  "\<exists>r. compile_rule demo_lib demo_rule = Inr r
     \<and> length (cond_leaves (rule_condition demo_rule)) = 2
     \<and> cond_depth (rule_condition demo_rule) \<le> 8
     \<and> (\<forall>d \<in> set (cond_leaves (rule_condition demo_rule)). leaf_ok demo_lib (cr_event_class r) d)"
proof -
  obtain r where r: "compile_rule demo_lib demo_rule = Inr r"
    using demo_rule_compiles unfolding is_ok_iff by blast
  moreover have "length (cond_leaves (rule_condition demo_rule)) = 2" by code_simp
  ultimately show ?thesis using compiled_rule_bounded [OF r] by blast
qed

text \<open>The entity key identifies the entity. When no folded entity value contains the separator
  \<^verbatim>\<open>|\<close>, two events have the same entity key for a compiled rule exactly when they agree on every
  folded entity value, so alerts of distinct entities are never merged.\<close>

theorem entity_key_faithful:
  assumes "compile_rule lib document = Inr r"
    and "\<forall>e \<in> {ev, ev'}. \<forall>segs \<in> set (cr_entity_segments r).
           CHR ''|'' \<notin> set (fold_entity_value lib (resolve_path e segs))"
  shows "entity_key lib r ev = entity_key lib r ev' \<longleftrightarrow>
     (\<forall>segs \<in> set (cr_entity_segments r).
        fold_entity_value lib (resolve_path ev segs) = fold_entity_value lib (resolve_path ev' segs))"
proof -
  define vals where "vals e = map (\<lambda>segs. fold_entity_value lib (resolve_path e segs)) (cr_entity_segments r)" for e
  have "cr_entity_segments r \<noteq> []"
    using assms(1) by (auto elim: compile_rule_Inr)
  with assms(2) have "py_split (CHR ''|'') (entity_key lib r e) = vals e" if "e \<in> {ev, ev'}" for e
    unfolding entity_key_def vals_def [symmetric]
    by (intro py_split_join) (use that in \<open>auto simp: vals_def\<close>)
  then have "entity_key lib r ev = entity_key lib r ev' \<longleftrightarrow> vals ev = vals ev'"
    by (metis entity_key_def insertCI vals_def)
  then show ?thesis by (auto simp: vals_def)
qed

theorem entity_key_faithful_witness:
  "\<exists>r. compile_rule demo_lib demo_rule = Inr r \<and>
     (entity_key demo_lib r demo_event = entity_key demo_lib r JNull \<longleftrightarrow>
       (\<forall>segs \<in> set (cr_entity_segments r).
         fold_entity_value demo_lib (resolve_path demo_event segs) = fold_entity_value demo_lib (resolve_path JNull segs)))"
proof -
  obtain r where r: "compile_rule demo_lib demo_rule = Inr r"
    using demo_rule_compiles unfolding is_ok_iff by blast
  have "list_all (\<lambda>e. list_all (\<lambda>segs. CHR ''|'' \<notin> set (fold_entity_value demo_lib (resolve_path e segs)))
      (cr_entity_segments (projr (compile_rule demo_lib demo_rule)))) [demo_event, JNull]"
    by code_simp
  with r have "\<forall>e \<in> {demo_event, JNull}. \<forall>segs \<in> set (cr_entity_segments r).
      CHR ''|'' \<notin> set (fold_entity_value demo_lib (resolve_path e segs))"
    by (simp add: list_all_iff)
  with r entity_key_faithful [OF r, of demo_event JNull] show ?thesis by blast
qed

text \<open>Two behaviours of the validators that the format document does not mean: the end anchor of the
  rule-id pattern accepts a final newline, and a possessive quantifier passes the regex screen.\<close>

lemma rule_id_accepts_final_newline: "rule_id_matches (''lsass-dump'' @ [newline])"
  by code_simp

lemma possessive_quantifier_accepted: "validate_re2_subset demo_lib ''a++b'' None = Inr ''a++b''"
  by code_simp

end
