(* ===== verification/Rule_Pack.thy ===== *)
theory Rule_Pack
  imports Rule_Compiler
begin

section \<open>Rule packs: validation, publication and loading\<close>

text \<open>
  Model of \<^verbatim>\<open>rulepub/packio.py\<close> and \<^verbatim>\<open>rulepub/publish.py\<close> and of \<^verbatim>\<open>LoadedPack\<close> and
  \<^verbatim>\<open>PackManager\<close> in \<^verbatim>\<open>workers/detector_pack.py\<close>. The pack directory is the argument \<open>pack_fs\<close>:
  what parsing each file gives. The digest of the manifest is an argument as well. An exception
  that the validation does not catch (a fixture that is not shaped as the code assumes) is
  \<open>Inl\<close>. The theorems say that publishing is all or nothing, that one pack is active, and that
  every published rule compiles again when the detector loads it, to the same rule.
\<close>

subsection \<open>The manifest\<close>

definition PACK_SCHEMA :: string where "PACK_SCHEMA = ''rule-pack/v1''"

definition MANIFEST_ENTRY_KEYS :: "string list" where
  "MANIFEST_ENTRY_KEYS = [''id'', ''version'', ''path'', ''enabled'']"

definition MANIFEST_KEYS :: "string list" where
  "MANIFEST_KEYS = [''schema'', ''pack_version'', ''generated_at'', ''min_schema_version'', ''rules'']"

record manifest_entry =
  me_rule_id :: string
  me_version :: string
  me_path :: string
  me_enabled :: bool

record pack_manifest =
  pm_schema :: string
  pm_pack_version :: string
  pm_generated_at :: string
  pm_min_schema_version :: string
  pm_entries :: "manifest_entry list"

record pack_rule =
  pr_entry :: manifest_entry
  pr_compiled :: compiled_rule

datatype pack_err =
    CannotLoad string
  | ManifestNotMapping
  | ManifestUnknownKeys "string list"
  | ManifestMissingKeys "string list"
  | ManifestSchema
  | ManifestSemver string
  | ManifestGeneratedAt
  | ManifestRules
  | EntryKeys nat
  | EntryStrings nat
  | EntryEnabled nat
  | DuplicateId string
  | DuplicatePath string
  | RuleFileMissing string
  | RuleFileName string
  | RuleFileParse string
  | RuleInvalid compile_exc
  | RuleIdMismatch string
  | RuleVersionMismatch string
  | FixtureMissing string
  | FixtureParse string
  | FixtureRuleId string
  | FixtureRuleVersion string
  | FixtureNoCases string string
  | FixtureCase string string
  | FixtureClass string
  | MustMatchFailed string
  | MustNotMatchFailed string
  | UnlistedRuleFile string

datatype pack_exc = FixtureShape | EvalRaised eval_exc | CompileRaised compile_exc

record pack_validation =
  pv_manifest :: "pack_manifest option"
  pv_rules :: "pack_rule list"
  pv_errors :: "pack_err list"
  pv_case_count :: nat

definition pv_ok :: "pack_validation \<Rightarrow> bool" where
  "pv_ok v = (pv_manifest v \<noteq> None \<and> pv_errors v = [])"

definition truthy_str :: "json \<Rightarrow> string option" where
  "truthy_str v = (case v of JStr s \<Rightarrow> if s = [] then None else Some s | _ \<Rightarrow> None)"

text \<open>The loop over \<^verbatim>\<open>raw_rules\<close>: entries and errors in order, with the ids and paths seen.\<close>

fun parse_entries ::
  "nat \<Rightarrow> json list \<Rightarrow> string list \<Rightarrow> string list \<Rightarrow> manifest_entry list \<times> pack_err list" where
  "parse_entries index [] seen_ids seen_paths = ([], [])"
| "parse_entries index (raw # rest) seen_ids seen_paths =
     (let failed = (\<lambda>e. let (es, errs) = parse_entries (index + 1) rest seen_ids seen_paths in (es, e # errs)) in
      case raw of
        JObj d \<Rightarrow>
          if set (map fst d) \<noteq> set MANIFEST_ENTRY_KEYS then failed (EntryKeys index)
          else (case (truthy_str (obj_get d ''id''), truthy_str (obj_get d ''version''), truthy_str (obj_get d ''path'')) of
              (Some rid, Some version, Some path) \<Rightarrow>
                (case obj_get d ''enabled'' of
                   JBool enabled \<Rightarrow>
                     if rid \<in> set seen_ids then failed (DuplicateId rid)
                     else if path \<in> set seen_paths then failed (DuplicatePath path)
                     else let (es, errs) = parse_entries (index + 1) rest (rid # seen_ids) (path # seen_paths) in
                       (\<lparr>me_rule_id = rid, me_version = version, me_path = path, me_enabled = enabled\<rparr> # es, errs)
                 | _ \<Rightarrow> failed (EntryEnabled index))
            | _ \<Rightarrow> failed (EntryStrings index))
      | _ \<Rightarrow> failed (EntryKeys index))"

definition parse_manifest :: "json \<Rightarrow> pack_err list \<times> pack_manifest option" where
  "parse_manifest document =
     (case document of
        JObj doc \<Rightarrow>
          let unknown = filter (\<lambda>k. k \<notin> set MANIFEST_KEYS) (map fst doc);
              missing = filter (\<lambda>k. \<not> has_key doc k) MANIFEST_KEYS;
              errs0 = (if unknown = [] then [] else [ManifestUnknownKeys (sort unknown)]) in
          if missing \<noteq> [] then (errs0 @ [ManifestMissingKeys (sort missing)], None)
          else if obj_get doc ''schema'' \<noteq> JStr PACK_SCHEMA then (errs0 @ [ManifestSchema], None)
          else (case (obj_get doc ''pack_version'', obj_get doc ''min_schema_version'') of
              (JStr version, JStr min_schema) \<Rightarrow>
                if parse_semver (JStr version) = None then (errs0 @ [ManifestSemver ''pack_version''], None)
                else if parse_semver (JStr min_schema) = None
                  then (errs0 @ [ManifestSemver ''min_schema_version''], None)
                else (case (obj_get doc ''generated_at'', obj_get doc ''rules'') of
                    (JStr generated_at, JList raw_rules) \<Rightarrow>
                      if raw_rules = [] then (errs0 @ [ManifestRules], None)
                      else let (entries, errs) = parse_entries 0 raw_rules [] [] in
                        if errs0 @ errs \<noteq> [] then (errs0 @ errs, None)
                        else ([], Some \<lparr>pm_schema = PACK_SCHEMA, pm_pack_version = version,
                               pm_generated_at = generated_at, pm_min_schema_version = min_schema,
                               pm_entries = entries\<rparr>)
                  | (JStr _, _) \<Rightarrow> (errs0 @ [ManifestRules], None)
                  | _ \<Rightarrow> (errs0 @ [ManifestGeneratedAt], None))
            | (JStr version, _) \<Rightarrow>
                (errs0 @ [ManifestSemver (if parse_semver (JStr version) = None then ''pack_version''
                   else ''min_schema_version'')], None)
            | _ \<Rightarrow> (errs0 @ [ManifestSemver ''pack_version''], None))
      | _ \<Rightarrow> ([ManifestNotMapping], None))"

subsection \<open>Fixtures\<close>

definition case_ok :: "json \<Rightarrow> bool" where
  "case_ok c = (case c of JObj d \<Rightarrow> has_key d ''name'' \<and> has_key d ''event'' | _ \<Rightarrow> False)"

fun validate_cases :: "compiled_rule \<Rightarrow> string \<Rightarrow> json list \<Rightarrow> pack_exc + (nat \<times> pack_err list)" where
  "validate_cases r section [] = Inr (0, [])"
| "validate_cases r section (c # cs) =
     (if \<not> case_ok c
      then rbind (validate_cases r section cs) (\<lambda>(n, errs). Inr (n, FixtureCase (cr_rule_id r) section # errs))
      else
        let event = event_get c ''event'' in
        rbind (guard (section \<noteq> ''must_not_match'' \<or> is_mapping event) FixtureShape) (\<lambda>_.
        rbind (validate_cases r section cs) (\<lambda>(n, errs).
          Inr (n + 1, (if section = ''must_not_match'' \<and> event_get event ''event_class'' \<noteq> JStr (cr_event_class r)
                       then [FixtureClass (cr_rule_id r)] else []) @ errs))))"

definition validate_section :: "compiled_rule \<Rightarrow> obj \<Rightarrow> string \<Rightarrow> pack_exc + (nat \<times> pack_err list)" where
  "validate_section r fixture section =
     (case obj_get fixture section of
        JList cases \<Rightarrow> if cases = [] then Inr (0, [FixtureNoCases (cr_rule_id r) section])
          else validate_cases r section cases
      | _ \<Rightarrow> Inr (0, [FixtureNoCases (cr_rule_id r) section]))"

definition validate_fixture :: "compiled_rule \<Rightarrow> json \<Rightarrow> pack_exc + (nat \<times> pack_err list)" where
  "validate_fixture r fixture =
     (case fixture of
        JObj d \<Rightarrow>
          let e1 = (if obj_get d ''rule_id'' \<noteq> JStr (cr_rule_id r) then [FixtureRuleId (cr_rule_id r)] else []);
              e2 = (if obj_get d ''rule_version'' \<noteq> JStr (cr_version r) then [FixtureRuleVersion (cr_rule_id r)] else []) in
          rbind (validate_section r d ''must_match'') (\<lambda>(n1, errs1).
          rbind (validate_section r d ''must_not_match'') (\<lambda>(n2, errs2).
            Inr (n1 + n2, e1 @ e2 @ errs1 @ errs2)))
      | _ \<Rightarrow> Inl FixtureShape)"

fun run_cases :: "compiled_rule \<Rightarrow> bool \<Rightarrow> json list \<Rightarrow> pack_exc + pack_err list" where
  "run_cases r want [] = Inr []"
| "run_cases r want (c # cs) =
     (case c of
        JObj d \<Rightarrow>
          (case map_of d ''event'' of
             None \<Rightarrow> Inl FixtureShape
           | Some event \<Rightarrow>
               if \<not> is_mapping event then Inl FixtureShape
               else (case evaluate r event of
                   Inl e \<Rightarrow> Inl (EvalRaised e)
                 | Inr got \<Rightarrow>
                     rbind (guard (got = want \<or> has_key d ''name'') FixtureShape) (\<lambda>_.
                     rbind (run_cases r want cs) (\<lambda>errs.
                       Inr ((if got = want then []
                             else if want then [MustMatchFailed (cr_rule_id r)] else [MustNotMatchFailed (cr_rule_id r)])
                            @ errs)))))
      | _ \<Rightarrow> Inl FixtureShape)"

text \<open>\<^verbatim>\<open>fixture.get(section, [])\<close> iterated: a value that is present and not a list is not iterable as
  cases (a mapping or a string would yield strings, on which the lookup raises too).\<close>

definition section_cases :: "obj \<Rightarrow> string \<Rightarrow> pack_exc + json list" where
  "section_cases d section =
     (case map_of d section of None \<Rightarrow> Inr [] | Some (JList cs) \<Rightarrow> Inr cs
      | Some (JObj []) \<Rightarrow> Inr [] | Some (JStr []) \<Rightarrow> Inr [] | Some _ \<Rightarrow> Inl FixtureShape)"

definition run_rule_fixture :: "compiled_rule \<Rightarrow> json \<Rightarrow> pack_exc + pack_err list" where
  "run_rule_fixture r fixture =
     (case fixture of
        JObj d \<Rightarrow>
          rbind (section_cases d ''must_match'') (\<lambda>pos.
          rbind (run_cases r True pos) (\<lambda>errs1.
          rbind (section_cases d ''must_not_match'') (\<lambda>neg.
          rbind (run_cases r False neg) (\<lambda>errs2. Inr (errs1 @ errs2)))))
      | _ \<Rightarrow> Inl FixtureShape)"

subsection \<open>Validation of a pack\<close>

record pack_fs =
  fs_manifest :: "string + json"
  fs_is_file :: "string \<Rightarrow> bool"
  fs_stem :: "string \<Rightarrow> string"
  fs_resolve :: "string \<Rightarrow> string"
  fs_rule :: "string \<Rightarrow> string + json"
  fs_has_fixture :: "string \<Rightarrow> bool"
  fs_fixture :: "string \<Rightarrow> string + json"
  fs_rule_files :: "string list"

definition load_entry ::
  "pylib \<Rightarrow> pack_fs \<Rightarrow> bool \<Rightarrow> manifest_entry \<Rightarrow> pack_exc + (pack_rule option \<times> pack_err list \<times> nat)" where
  "load_entry lib fs run_fixtures entry =
     (let rid = me_rule_id entry; path = me_path entry in
      if \<not> fs_is_file fs path then Inr (None, [RuleFileMissing rid], 0)
      else
        let e1 = (if fs_stem fs path \<noteq> rid then [RuleFileName rid] else []) in
        (case fs_rule fs path of
           Inl _ \<Rightarrow> Inr (None, e1 @ [RuleFileParse rid], 0)
         | Inr doc \<Rightarrow>
             (case compile_rule lib doc of
                Inl (RuleCompileError x reason) \<Rightarrow> Inr (None, e1 @ [RuleInvalid (RuleCompileError x reason)], 0)
              | Inl e \<Rightarrow> Inl (CompileRaised e)
              | Inr compiled \<Rightarrow>
                  if cr_rule_id compiled \<noteq> rid then Inr (None, e1 @ [RuleIdMismatch rid], 0)
                  else if cr_version compiled \<noteq> me_version entry then Inr (None, e1 @ [RuleVersionMismatch rid], 0)
                  else if \<not> fs_has_fixture fs rid then Inr (None, e1 @ [FixtureMissing rid], 0)
                  else (case fs_fixture fs rid of
                      Inl _ \<Rightarrow> Inr (None, e1 @ [FixtureParse rid], 0)
                    | Inr fixture \<Rightarrow>
                        rbind (validate_fixture compiled fixture) (\<lambda>(n, errs).
                        rbind (if run_fixtures then run_rule_fixture compiled fixture else Inr []) (\<lambda>fails.
                          Inr (Some \<lparr>pr_entry = entry, pr_compiled = compiled\<rparr>, e1 @ errs @ fails, n)))))))"

fun load_entries ::
  "pylib \<Rightarrow> pack_fs \<Rightarrow> bool \<Rightarrow> manifest_entry list \<Rightarrow> pack_exc + (pack_rule list \<times> pack_err list \<times> nat)" where
  "load_entries lib fs run_fixtures [] = Inr ([], [], 0)"
| "load_entries lib fs run_fixtures (e # es) =
     rbind (load_entry lib fs run_fixtures e) (\<lambda>(r, errs, n).
     rbind (load_entries lib fs run_fixtures es) (\<lambda>(rs, errs', n').
       Inr ((case r of None \<Rightarrow> rs | Some x \<Rightarrow> x # rs), errs @ errs', n + n')))"

definition load_pack :: "pylib \<Rightarrow> pack_fs \<Rightarrow> bool \<Rightarrow> pack_exc + pack_validation" where
  "load_pack lib fs run_fixtures =
     (case fs_manifest fs of
        Inl msg \<Rightarrow> Inr \<lparr>pv_manifest = None, pv_rules = [], pv_errors = [CannotLoad msg], pv_case_count = 0\<rparr>
      | Inr doc \<Rightarrow>
          (case parse_manifest doc of
             (errs, None) \<Rightarrow> Inr \<lparr>pv_manifest = None, pv_rules = [], pv_errors = errs, pv_case_count = 0\<rparr>
           | (errs, Some manifest) \<Rightarrow>
               rbind (load_entries lib fs run_fixtures (pm_entries manifest)) (\<lambda>(rules, errs', n).
               let listed = map (\<lambda>e. fs_resolve fs (me_path e)) (pm_entries manifest);
                   unlisted = filter (\<lambda>f. fs_resolve fs (''rules/'' @ f) \<notin> set listed) (sort (fs_rule_files fs)) in
               Inr \<lparr>pv_manifest = Some manifest, pv_rules = rules,
                    pv_errors = errs @ errs' @ map UnlistedRuleFile unlisted, pv_case_count = n\<rparr>)))"

subsection \<open>Publication\<close>

record pack_row =
  pk_version :: string
  pk_manifest_hash :: string
  pk_active :: bool
  pk_rule_count :: nat
  pk_published_by :: string
  pk_published_at :: int

record rule_row =
  rr_pack_version :: string
  rr_rule_id :: string
  rr_rule_version :: string
  rr_title :: string
  rr_severity :: string
  rr_mitre :: "string list"
  rr_event_classes :: "string list"
  rr_description :: string
  rr_min_schema_version :: string
  rr_definition :: json
  rr_enabled_default :: bool

record publish_db =
  pb_packs :: "pack_row list"
  pb_rules :: "rule_row list"
  pb_audit :: "(string \<times> string \<times> string) list"

datatype publish_error = NotValidated | NoPublisher | AlreadyPublished string

definition canonical_manifest :: "pack_manifest \<Rightarrow> string \<Rightarrow> json" where
  "canonical_manifest m generated_at = JObj
     [(''generated_at'', JStr generated_at), (''min_schema_version'', JStr (pm_min_schema_version m)),
      (''pack_version'', JStr (pm_pack_version m)),
      (''rules'', JList (map (\<lambda>e. JObj [(''enabled'', JBool (me_enabled e)), (''id'', JStr (me_rule_id e)),
         (''path'', JStr (me_path e)), (''version'', JStr (me_version e))]) (pm_entries m))),
      (''schema'', JStr (pm_schema m))]"

definition rule_row_of :: "string \<Rightarrow> pack_rule \<Rightarrow> rule_row" where
  "rule_row_of version p =
     (let c = pr_compiled p in
      \<lparr>rr_pack_version = version, rr_rule_id = cr_rule_id c, rr_rule_version = cr_version c,
       rr_title = cr_title c, rr_severity = cr_severity c, rr_mitre = cr_mitre_technique_ids c,
       rr_event_classes = [cr_event_class c], rr_description = cr_description c,
       rr_min_schema_version = cr_min_schema_version c, rr_definition = JObj (cr_definition c),
       rr_enabled_default = me_enabled (pr_entry p)\<rparr>)"

definition AUDIT_ACTION_PUBLISH :: string where "AUDIT_ACTION_PUBLISH = ''rule_pack.publish''"

definition publish_pack ::
  "(json \<Rightarrow> string) \<Rightarrow> pack_validation \<Rightarrow> string \<Rightarrow> string \<Rightarrow> int \<Rightarrow> publish_db \<Rightarrow> publish_error + publish_db" where
  "publish_pack digest validation published_by stamped_at now db =
     (case pv_manifest validation of
        None \<Rightarrow> Inl NotValidated
      | Some manifest \<Rightarrow>
          if \<not> pv_ok validation then Inl NotValidated
          else if py_strip published_by = [] then Inl NoPublisher
          else
            let version = pm_pack_version manifest;
                hash = digest (canonical_manifest manifest stamped_at) in
            if version \<in> set (map pk_version (pb_packs db)) then Inl (AlreadyPublished version)
            else Inr \<lparr>pb_packs = map (\<lambda>p. if pk_active p \<and> pk_version p \<noteq> version then p\<lparr>pk_active := False\<rparr> else p) (pb_packs db)
                        @ [\<lparr>pk_version = version, pk_manifest_hash = hash, pk_active = True,
                            pk_rule_count = length (pv_rules validation), pk_published_by = published_by,
                            pk_published_at = now\<rparr>],
                      pb_rules = pb_rules db @ map (rule_row_of version) (pv_rules validation),
                      pb_audit = pb_audit db @ [(published_by, AUDIT_ACTION_PUBLISH, version)]\<rparr>)"

subsection \<open>The detector's view\<close>

text \<open>\<^verbatim>\<open>SQL_ACTIVE_PACK_VERSION\<close> and \<^verbatim>\<open>SQL_FETCH_PACK_RULES\<close>.\<close>

definition active_pack_version :: "publish_db \<Rightarrow> string option" where
  "active_pack_version db =
     (case sort_key (\<lambda>p. - pk_published_at p) (filter pk_active (pb_packs db)) of
        [] \<Rightarrow> None | p # _ \<Rightarrow> Some (pk_version p))"

definition fetch_rules :: "string \<Rightarrow> publish_db \<Rightarrow> rule_row list" where
  "fetch_rules version db = sort_key rr_rule_id (filter (\<lambda>r. rr_pack_version r = version) (pb_rules db))"

record loaded_rule =
  lr_compiled :: compiled_rule
  lr_enabled_default :: bool

record loaded_pack =
  lp_version :: string
  lp_by_class :: "(string \<times> loaded_rule list) list"
  lp_load_errors :: "(string \<times> compile_exc) list"

text \<open>\<^verbatim>\<open>by_class.setdefault(c, []).append(rule)\<close> for each rule in turn.\<close>

definition index_by_class :: "loaded_rule list \<Rightarrow> (string \<times> loaded_rule list) list" where
  "index_by_class rules =
     fold (\<lambda>r m. let c = cr_event_class (lr_compiled r) in
       AList.update c ((case map_of m c of None \<Rightarrow> [] | Some rs \<Rightarrow> rs) @ [r]) m) rules []"

fun compile_rows :: "pylib \<Rightarrow> rule_row list \<Rightarrow> compile_exc + (loaded_rule list \<times> (string \<times> compile_exc) list)" where
  "compile_rows lib [] = Inr ([], [])"
| "compile_rows lib (row # rows) =
     (case compile_rule lib (rr_definition row) of
        Inl (RuleCompileError x reason) \<Rightarrow>
          rbind (compile_rows lib rows) (\<lambda>(ls, errs). Inr (ls, (rr_rule_id row, RuleCompileError x reason) # errs))
      | Inl e \<Rightarrow> Inl e
      | Inr compiled \<Rightarrow>
          rbind (compile_rows lib rows) (\<lambda>(ls, errs).
            Inr (\<lparr>lr_compiled = compiled, lr_enabled_default = rr_enabled_default row\<rparr> # ls, errs)))"

definition from_rows :: "pylib \<Rightarrow> string \<Rightarrow> rule_row list \<Rightarrow> compile_exc + loaded_pack" where
  "from_rows lib version rows =
     rbind (compile_rows lib rows) (\<lambda>(ls, errs).
       Inr \<lparr>lp_version = version, lp_by_class = index_by_class ls, lp_load_errors = errs\<rparr>)"

definition candidates :: "loaded_pack \<Rightarrow> json \<Rightarrow> loaded_rule list" where
  "candidates pack event_class =
     (case event_class of
        JStr c \<Rightarrow> (case map_of (lp_by_class pack) c of None \<Rightarrow> [] | Some rs \<Rightarrow> rs)
      | _ \<Rightarrow> [])"

definition refresh :: "pylib \<Rightarrow> publish_db \<Rightarrow> loaded_pack option \<Rightarrow> compile_exc + (loaded_pack option \<times> bool)" where
  "refresh lib db current =
     (case active_pack_version db of
        None \<Rightarrow> Inr (current, False)
      | Some version \<Rightarrow>
          if (case current of None \<Rightarrow> False | Some p \<Rightarrow> lp_version p = version) then Inr (current, False)
          else rbind (from_rows lib version (fetch_rules version db)) (\<lambda>pack. Inr (Some pack, True)))"

definition ensure_loaded :: "pylib \<Rightarrow> publish_db \<Rightarrow> loaded_pack option \<Rightarrow> compile_exc + loaded_pack option" where
  "ensure_loaded lib db current =
     (case current of None \<Rightarrow> rbind (refresh lib db None) (\<lambda>(p, _). Inr p) | Some p \<Rightarrow> Inr (Some p))"

subsection \<open>A rule compiles from its stored definition\<close>

lemma compile_rule_cong:
  assumes keys: "set (map fst d) = set TOP_LEVEL_ORDER" "set (map fst d') = set TOP_LEVEL_ORDER"
    and get: "\<And>k. k \<in> set TOP_LEVEL_ORDER \<Longrightarrow> obj_get d k = obj_get d' k"
  shows "compile_rule lib (JObj d) = compile_rule lib (JObj d')"
proof -
  have unknown: "filter (\<lambda>k. k \<notin> set TOP_LEVEL_ORDER) (map fst e) = []"
    and missing: "filter (\<lambda>k. \<not> has_key e k) TOP_LEVEL_ORDER = []"
    if "set (map fst e) = set TOP_LEVEL_ORDER" for e :: obj
    using that unfolding filter_empty_conv has_key_def by auto
  have g: "obj_get d ''id'' = obj_get d' ''id''" "obj_get d ''version'' = obj_get d' ''version''"
    "obj_get d ''title'' = obj_get d' ''title''" "obj_get d ''description'' = obj_get d' ''description''"
    "obj_get d ''severity'' = obj_get d' ''severity''" "obj_get d ''event_class'' = obj_get d' ''event_class''"
    "obj_get d ''min_schema_version'' = obj_get d' ''min_schema_version''"
    "obj_get d ''mitre_technique_ids'' = obj_get d' ''mitre_technique_ids''"
    "obj_get d ''entity'' = obj_get d' ''entity''" "obj_get d ''detection'' = obj_get d' ''detection''"
    "obj_get d ''false_positives'' = obj_get d' ''false_positives''"
    "obj_get d ''references'' = obj_get d' ''references''"
    by (rule get, simp add: TOP_LEVEL_ORDER_def)+
  have def: "map (\<lambda>k. (k, obj_get d k)) TOP_LEVEL_ORDER = map (\<lambda>k. (k, obj_get d' k)) TOP_LEVEL_ORDER"
    by (rule map_cong [OF refl]) (simp add: get)
  show ?thesis
    unfolding compile_rule_def json.case Let_def unknown [OF keys(1)] unknown [OF keys(2)]
      missing [OF keys(1)] missing [OF keys(2)] require_semver_def require_str_def require_str_list_def
      compile_detection_def def g ..
qed

lemma obj_get_map: "k \<in> set ks \<Longrightarrow> obj_get (map (\<lambda>k. (k, f k)) ks) k = f k"
  by (induction ks) (auto simp: obj_get_def)

lemma cr_definition_eq:
  assumes "compile_rule lib (JObj doc) = Inr r"
  shows "cr_definition r = map (\<lambda>k. (k, obj_get doc k)) TOP_LEVEL_ORDER"
  using assms
  by (auto simp: compile_rule_def Let_def rbind_Inr_iff)

lemma compile_rule_definition:
  assumes "compile_rule lib document = Inr r"
  shows "compile_rule lib (JObj (cr_definition r)) = Inr r"
proof -
  from assms obtain doc where doc: "document = JObj doc" "set (map fst doc) = set TOP_LEVEL_ORDER"
    by (rule compile_rule_Inr)
  have d: "cr_definition r = map (\<lambda>k. (k, obj_get doc k)) TOP_LEVEL_ORDER"
    using assms cr_definition_eq unfolding doc(1) by blast
  have "compile_rule lib (JObj (cr_definition r)) = compile_rule lib (JObj doc)"
    unfolding d by (rule compile_rule_cong [OF _ doc(2)]) (simp_all add: obj_get_map comp_def)
  with assms doc(1) show ?thesis by simp
qed

subsection \<open>A validated pack\<close>

lemma parse_entries_step:
  assumes "parse_entries i (raw # rest) ids paths = (es, errs)"
  shows "(\<exists>errs'. parse_entries (i + 1) rest ids paths = (es, errs'))
    \<or> (\<exists>e es' p. es = e # es' \<and> parse_entries (i + 1) rest (me_rule_id e # ids) (p # paths) = (es', errs)
         \<and> me_rule_id e \<notin> set ids)"
proof -
  obtain es1 errs1 where r1: "parse_entries (i + 1) rest ids paths = (es1, errs1)" by fastforce
  from assms show ?thesis
    by (cases raw)
      (auto simp: r1 [simplified] Let_def split: if_splits option.splits json.splits prod.splits)
qed

lemma parse_entries_distinct:
  "parse_entries i raws ids paths = (es, errs) \<Longrightarrow>
     distinct (map me_rule_id es) \<and> set (map me_rule_id es) \<inter> set ids = {}"
proof (induction raws arbitrary: i ids paths es errs)
  case (Cons raw rest)
  from parse_entries_step [OF Cons.prems] show ?case
  proof (elim disjE exE conjE)
    fix e es' p
    assume "es = e # es'" "parse_entries (i + 1) rest (me_rule_id e # ids) (p # paths) = (es', errs)"
      "me_rule_id e \<notin> set ids"
    with Cons.IH [of "i + 1" "me_rule_id e # ids" "p # paths" es' errs] show ?thesis by auto
  qed (use Cons.IH in auto)
qed simp

lemma parse_manifest_distinct:
  assumes "parse_manifest doc = (errs, Some m)"
  shows "distinct (map me_rule_id (pm_entries m)) \<and> errs = []"
  using assms
  by (auto simp: parse_manifest_def Let_def split: json.splits if_splits prod.splits dest: parse_entries_distinct)

lemma load_entry_ok:
  assumes "load_entry lib fs rf e = Inr (r, [], n)"
  shows "\<exists>p doc. r = Some p \<and> pr_entry p = e \<and> compile_rule lib doc = Inr (pr_compiled p)
    \<and> cr_rule_id (pr_compiled p) = me_rule_id e \<and> cr_version (pr_compiled p) = me_version e
    \<and> (\<exists>fixture. fs_fixture fs (me_rule_id e) = Inr fixture \<and> (rf \<longrightarrow> run_rule_fixture (pr_compiled p) fixture = Inr []))"
  using assms
  by (auto simp: load_entry_def Let_def rbind_Inr_iff split: if_splits sum.splits compile_exc.splits)

lemma load_entries_ok:
  "load_entries lib fs rf es = Inr (rules, [], n) \<Longrightarrow>
     map pr_entry rules = es \<and> (\<forall>p \<in> set rules. \<exists>doc. compile_rule lib doc = Inr (pr_compiled p)
       \<and> cr_rule_id (pr_compiled p) = me_rule_id (pr_entry p)
       \<and> (\<exists>fixture. fs_fixture fs (me_rule_id (pr_entry p)) = Inr fixture
            \<and> (rf \<longrightarrow> run_rule_fixture (pr_compiled p) fixture = Inr [])))"
proof (induction es arbitrary: rules n)
  case (Cons e es)
  from Cons.prems obtain r n1 rs n2 where e: "load_entry lib fs rf e = Inr (r, [], n1)"
    and es: "load_entries lib fs rf es = Inr (rs, [], n2)"
    and rules: "rules = (case r of None \<Rightarrow> rs | Some x \<Rightarrow> x # rs)"
    by (auto simp: rbind_Inr_iff)
  from load_entry_ok [OF e] obtain p where "r = Some p" "pr_entry p = e" "\<exists>doc. compile_rule lib doc = Inr (pr_compiled p)"
    "cr_rule_id (pr_compiled p) = me_rule_id e"
    "\<exists>fixture. fs_fixture fs (me_rule_id e) = Inr fixture \<and> (rf \<longrightarrow> run_rule_fixture (pr_compiled p) fixture = Inr [])"
    by blast
  with Cons.IH [OF es] rules show ?case by simp
qed simp

text \<open>What a pack that passes validation guarantees.\<close>

definition validated :: "pylib \<Rightarrow> pack_validation \<Rightarrow> bool" where
  "validated lib v \<longleftrightarrow>
     distinct (map (\<lambda>p. cr_rule_id (pr_compiled p)) (pv_rules v))
     \<and> (\<forall>p \<in> set (pv_rules v). \<exists>doc. compile_rule lib doc = Inr (pr_compiled p))"

lemma load_pack_validated:
  assumes "load_pack lib fs rf = Inr v" "pv_ok v"
  shows "validated lib v"
    and "\<And>p. p \<in> set (pv_rules v) \<Longrightarrow> \<exists>fixture. fs_fixture fs (cr_rule_id (pr_compiled p)) = Inr fixture
           \<and> (rf \<longrightarrow> run_rule_fixture (pr_compiled p) fixture = Inr [])"
proof -
  from assms obtain doc m errs rules n where m: "parse_manifest doc = (errs, Some m)"
    and es: "load_entries lib fs rf (pm_entries m) = Inr (rules, [], n)" and v: "pv_rules v = rules"
    by (auto simp: load_pack_def pv_ok_def rbind_Inr_iff Let_def split: sum.splits prod.splits option.splits)
  note ok = load_entries_ok [OF es]
  have "map (\<lambda>p. cr_rule_id (pr_compiled p)) rules = map (\<lambda>p. me_rule_id (pr_entry p)) rules"
    by (rule map_cong [OF refl]) (use ok in metis)
  also have "\<dots> = map me_rule_id (map pr_entry rules)" by simp
  also have "map pr_entry rules = pm_entries m" using ok by blast
  finally have "map (\<lambda>p. cr_rule_id (pr_compiled p)) rules = map me_rule_id (pm_entries m)" .
  with ok parse_manifest_distinct [OF m] show "validated lib v" unfolding validated_def v by auto
  show "\<exists>fixture. fs_fixture fs (cr_rule_id (pr_compiled p)) = Inr fixture
           \<and> (rf \<longrightarrow> run_rule_fixture (pr_compiled p) fixture = Inr [])" if "p \<in> set (pv_rules v)" for p
    using ok that unfolding v by metis
qed

lemma run_cases_ok:
  "run_cases r want cs = Inr [] \<Longrightarrow> c \<in> set cs \<Longrightarrow> \<exists>d event. c = JObj d \<and> map_of d ''event'' = Some event \<and> evaluate r event = Inr want"
proof (induction cs)
  case (Cons c' cs)
  from Cons.prems(1) obtain d event where "c' = JObj d" "map_of d ''event'' = Some event" "evaluate r event = Inr want"
    "run_cases r want cs = Inr []"
    by (auto simp: rbind_Inr_iff guard_Inr_iff split: json.splits option.splits sum.splits if_splits)
  with Cons show ?case by auto
qed simp

subsection \<open>The published tables\<close>

definition pub_ok :: "pylib \<Rightarrow> publish_db \<Rightarrow> bool" where
  "pub_ok lib db \<longleftrightarrow>
     distinct (map pk_version (pb_packs db)) \<and> length (filter pk_active (pb_packs db)) \<le> 1
     \<and> distinct (map (\<lambda>r. (rr_pack_version r, rr_rule_id r)) (pb_rules db))
     \<and> (\<forall>row \<in> set (pb_rules db). rr_pack_version row \<in> set (map pk_version (pb_packs db))
          \<and> (\<exists>c. compile_rule lib (rr_definition row) = Inr c \<and> cr_rule_id c = rr_rule_id row))"

lemma publish_pack_Inr:
  assumes "publish_pack digest v who stamp now db = Inr db'"
  obtains m where "pv_manifest v = Some m" "pv_ok v" "pm_pack_version m \<notin> set (map pk_version (pb_packs db))"
    "pb_packs db' = map (\<lambda>p. if pk_active p \<and> pk_version p \<noteq> pm_pack_version m then p\<lparr>pk_active := False\<rparr> else p) (pb_packs db)
       @ [\<lparr>pk_version = pm_pack_version m, pk_manifest_hash = digest (canonical_manifest m stamp), pk_active = True,
           pk_rule_count = length (pv_rules v), pk_published_by = who, pk_published_at = now\<rparr>]"
    "pb_rules db' = pb_rules db @ map (rule_row_of (pm_pack_version m)) (pv_rules v)"
    "pb_audit db' = pb_audit db @ [(who, AUDIT_ACTION_PUBLISH, pm_pack_version m)]"
  using assms
  by (auto simp: publish_pack_def Let_def split: option.splits if_splits)

lemma rule_row_of_simps [simp]:
  "rr_pack_version (rule_row_of ver p) = ver" "rr_rule_id (rule_row_of ver p) = cr_rule_id (pr_compiled p)"
  "rr_definition (rule_row_of ver p) = JObj (cr_definition (pr_compiled p))"
  "rr_enabled_default (rule_row_of ver p) = me_enabled (pr_entry p)"
  by (simp_all add: rule_row_of_def Let_def)

lemma superseded_none_active:
  assumes "ver \<notin> set (map pk_version ps)"
  shows "filter pk_active (map (\<lambda>p. if pk_active p \<and> pk_version p \<noteq> ver then p\<lparr>pk_active := False\<rparr> else p) ps) = []"
  using assms by (induction ps) auto

lemma superseded_versions:
  "map pk_version (map (\<lambda>p. if pk_active p \<and> pk_version p \<noteq> ver then p\<lparr>pk_active := False\<rparr> else p) ps) = map pk_version ps"
  by (induction ps) auto

lemma publish_pub_ok:
  assumes "pub_ok lib db" "validated lib v" "publish_pack digest v who stamp now db = Inr db'"
  shows "pub_ok lib db'"
proof -
  from assms(3) obtain m where m: "pm_pack_version m \<notin> set (map pk_version (pb_packs db))"
    and packs: "pb_packs db' = map (\<lambda>p. if pk_active p \<and> pk_version p \<noteq> pm_pack_version m then p\<lparr>pk_active := False\<rparr> else p) (pb_packs db)
       @ [\<lparr>pk_version = pm_pack_version m, pk_manifest_hash = digest (canonical_manifest m stamp), pk_active = True,
           pk_rule_count = length (pv_rules v), pk_published_by = who, pk_published_at = now\<rparr>]"
    and rules: "pb_rules db' = pb_rules db @ map (rule_row_of (pm_pack_version m)) (pv_rules v)"
    by (rule publish_pack_Inr)
  have vers: "map pk_version (pb_packs db') = map pk_version (pb_packs db) @ [pm_pack_version m]"
    unfolding packs map_append superseded_versions by simp
  have act: "length (filter pk_active (pb_packs db')) = 1"
    unfolding packs filter_append superseded_none_active [OF m] by simp
  have old: "(pm_pack_version m, x) \<notin> set (map (\<lambda>r. (rr_pack_version r, rr_rule_id r)) (pb_rules db))" for x
    using assms(1) m unfolding pub_ok_def by force
  have new: "map (\<lambda>r. (rr_pack_version r, rr_rule_id r)) (map (rule_row_of (pm_pack_version m)) (pv_rules v))
      = map (\<lambda>i. (pm_pack_version m, i)) (map (\<lambda>p. cr_rule_id (pr_compiled p)) (pv_rules v))" by simp
  have "distinct (map (\<lambda>i. (pm_pack_version m, i)) (map (\<lambda>p. cr_rule_id (pr_compiled p)) (pv_rules v)))"
    using assms(2) unfolding validated_def distinct_map [of "\<lambda>i. (pm_pack_version m, i)"] by (simp add: inj_on_def)
  moreover have "set (map (\<lambda>r. (rr_pack_version r, rr_rule_id r)) (pb_rules db))
      \<inter> set (map (\<lambda>i. (pm_pack_version m, i)) (map (\<lambda>p. cr_rule_id (pr_compiled p)) (pv_rules v))) = {}"
    using old by (simp add: disjoint_iff image_iff) blast
  ultimately have dist: "distinct (map (\<lambda>r. (rr_pack_version r, rr_rule_id r)) (pb_rules db'))"
    using assms(1) unfolding rules map_append new distinct_append pub_ok_def by blast
  have "\<exists>c. compile_rule lib (rr_definition row) = Inr c \<and> cr_rule_id c = rr_rule_id row"
    if "row \<in> set (map (rule_row_of (pm_pack_version m)) (pv_rules v))" for row
    using that assms(2) compile_rule_definition unfolding validated_def by fastforce
  with assms(1) vers act dist m show ?thesis unfolding pub_ok_def rules by auto
qed

lemma publish_active:
  assumes "publish_pack digest v who stamp now db = Inr db'"
  obtains m where "pv_manifest v = Some m" "active_pack_version db' = Some (pm_pack_version m)"
    "set (fetch_rules (pm_pack_version m) db') \<supseteq> rule_row_of (pm_pack_version m) ` set (pv_rules v)"
proof -
  from assms obtain m where m: "pv_manifest v = Some m" "pm_pack_version m \<notin> set (map pk_version (pb_packs db))"
    and packs: "pb_packs db' = map (\<lambda>p. if pk_active p \<and> pk_version p \<noteq> pm_pack_version m then p\<lparr>pk_active := False\<rparr> else p) (pb_packs db)
       @ [\<lparr>pk_version = pm_pack_version m, pk_manifest_hash = digest (canonical_manifest m stamp), pk_active = True,
           pk_rule_count = length (pv_rules v), pk_published_by = who, pk_published_at = now\<rparr>]"
    and rules: "pb_rules db' = pb_rules db @ map (rule_row_of (pm_pack_version m)) (pv_rules v)"
    by (rule publish_pack_Inr)
  have "active_pack_version db' = Some (pm_pack_version m)"
    unfolding active_pack_version_def packs filter_append superseded_none_active [OF m(2)] by simp
  moreover have "set (fetch_rules (pm_pack_version m) db') \<supseteq> rule_row_of (pm_pack_version m) ` set (pv_rules v)"
    unfolding fetch_rules_def rules by auto
  ultimately show thesis using m(1) that by blast
qed

subsection \<open>Loading\<close>

definition load_row :: "pylib \<Rightarrow> rule_row \<Rightarrow> loaded_rule" where
  "load_row lib row = \<lparr>lr_compiled = projr (compile_rule lib (rr_definition row)), lr_enabled_default = rr_enabled_default row\<rparr>"

lemma compile_rows_all:
  "(\<And>row. row \<in> set rows \<Longrightarrow> is_ok (compile_rule lib (rr_definition row))) \<Longrightarrow>
     compile_rows lib rows = Inr (map (load_row lib) rows, [])"
proof (induction rows)
  case (Cons row rows)
  from Cons.prems [of row] obtain c where "compile_rule lib (rr_definition row) = Inr c"
    by (auto simp: is_ok_iff)
  with Cons show ?case by (simp add: load_row_def)
qed simp

definition class_rules :: "(string \<times> loaded_rule list) list \<Rightarrow> string \<Rightarrow> loaded_rule list" where
  "class_rules m c = (case map_of m c of None \<Rightarrow> [] | Some rs \<Rightarrow> rs)"

lemma class_rules_index:
  "class_rules (index_by_class rules) c = filter (\<lambda>r. cr_event_class (lr_compiled r) = c) rules"
proof -
  have "class_rules (fold (\<lambda>r m. let c = cr_event_class (lr_compiled r) in
       AList.update c ((case map_of m c of None \<Rightarrow> [] | Some rs \<Rightarrow> rs) @ [r]) m) rules m) c
     = class_rules m c @ filter (\<lambda>r. cr_event_class (lr_compiled r) = c) rules" for m
    by (induction rules arbitrary: m) (simp_all add: Let_def class_rules_def)
  then show ?thesis by (simp add: index_by_class_def class_rules_def)
qed

lemma from_rows_ok:
  assumes "\<And>row. row \<in> set rows \<Longrightarrow> is_ok (compile_rule lib (rr_definition row))"
  obtains pack where "from_rows lib ver rows = Inr pack" "lp_version pack = ver" "lp_load_errors pack = []"
    "\<And>c. candidates pack (JStr c) = filter (\<lambda>r. cr_event_class (lr_compiled r) = c) (map (load_row lib) rows)"
proof -
  let ?pack = "\<lparr>lp_version = ver, lp_by_class = index_by_class (map (load_row lib) rows), lp_load_errors = []\<rparr>"
  have "from_rows lib ver rows = Inr ?pack"
    by (simp add: from_rows_def compile_rows_all assms)
  moreover have "candidates ?pack (JStr c) = filter (\<lambda>r. cr_event_class (lr_compiled r) = c) (map (load_row lib) rows)" for c
    using class_rules_index [of "map (load_row lib) rows" c] by (simp add: candidates_def class_rules_def)
  ultimately show thesis by (intro that [of ?pack]) simp_all
qed

lemma refresh_loads:
  assumes "pub_ok lib db" "active_pack_version db = Some ver"
    and "case cur of None \<Rightarrow> True | Some p \<Rightarrow> lp_version p \<noteq> ver"
  shows "\<exists>pack. refresh lib db cur = Inr (Some pack, True) \<and> lp_version pack = ver \<and> lp_load_errors pack = []
     \<and> (\<forall>c. candidates pack (JStr c) = filter (\<lambda>r. cr_event_class (lr_compiled r) = c) (map (load_row lib) (fetch_rules ver db)))"
proof -
  have "is_ok (compile_rule lib (rr_definition row))" if "row \<in> set (fetch_rules ver db)" for row
    using that assms(1) by (fastforce simp: pub_ok_def fetch_rules_def is_ok_iff)
  from from_rows_ok [OF this, where ver = ver] obtain pack where "from_rows lib ver (fetch_rules ver db) = Inr pack" "lp_version pack = ver"
    "lp_load_errors pack = []" "\<And>c. candidates pack (JStr c) = filter (\<lambda>r. cr_event_class (lr_compiled r) = c) (map (load_row lib) (fetch_rules ver db))"
    by blast
  with assms(2,3) show ?thesis by (auto simp: refresh_def split: option.splits)
qed

subsection \<open>Properties\<close>

definition demo_manifest :: json where
  "demo_manifest = JObj [(''schema'', JStr ''rule-pack/v1''), (''pack_version'', JStr ''1.0.0''),
     (''generated_at'', JStr ''2026-07-01T00:00:00Z''), (''min_schema_version'', JStr ''1.0.0''),
     (''rules'', JList [JObj [(''id'', JStr ''encoded-powershell''), (''version'', JStr ''1.0.0''),
        (''path'', JStr ''rules/encoded-powershell.yml''), (''enabled'', JBool True)]])]"

definition demo_fixture :: json where
  "demo_fixture = JObj [(''rule_id'', JStr ''encoded-powershell''), (''rule_version'', JStr ''1.0.0''),
     (''must_match'', JList [JObj [(''name'', JStr ''hit''), (''event'', demo_event)]]),
     (''must_not_match'', JList [JObj [(''name'', JStr ''miss''),
        (''event'', JObj [(''event_class'', JStr ''process_activity''), (''schema_version'', JStr ''1.0.0'')])]])]"

definition demo_fs :: pack_fs where
  "demo_fs = \<lparr>fs_manifest = Inr demo_manifest, fs_is_file = (\<lambda>_. True),
     fs_stem = (\<lambda>_. ''encoded-powershell''), fs_resolve = (\<lambda>p. p), fs_rule = (\<lambda>_. Inr demo_rule),
     fs_has_fixture = (\<lambda>_. True), fs_fixture = (\<lambda>_. Inr demo_fixture),
     fs_rule_files = [''encoded-powershell.yml'']\<rparr>"

definition empty_pub :: publish_db where
  "empty_pub = \<lparr>pb_packs = [], pb_rules = [], pb_audit = []\<rparr>"

lemma demo_pack_ok: "(case load_pack demo_lib demo_fs True of Inr v \<Rightarrow> pv_ok v | _ \<Rightarrow> False)"
  by code_simp

lemma demo_publish_ok:
  "(case load_pack demo_lib demo_fs True of
      Inr v \<Rightarrow> is_ok (publish_pack (\<lambda>_. ''hash'') v ''ci'' ''now'' 5 empty_pub) | _ \<Rightarrow> False)"
  by code_simp

lemma demo_publish:
  obtains v db' where "load_pack demo_lib demo_fs True = Inr v" "pv_ok v"
    "publish_pack (\<lambda>_. ''hash'') v ''ci'' ''now'' 5 empty_pub = Inr db'"
  using demo_pack_ok demo_publish_ok that unfolding is_ok_iff by (auto split: sum.splits)

lemma empty_pub_ok: "pub_ok lib empty_pub"
  by (simp add: pub_ok_def empty_pub_def)



text \<open>What was published is what the detector runs. When the detector refreshes on a well-formed
  database whose active version differs from the loaded one, it loads that version with no load
  error, and the candidate rules of an event class are exactly the version's rules of that class,
  each compiled from its stored definition, in order of rule id.\<close>

theorem published_rules_load:
  assumes "pub_ok lib db" "active_pack_version db = Some ver"
    and "case cur of None \<Rightarrow> True | Some p \<Rightarrow> lp_version p \<noteq> ver"
  shows "\<exists>pack. refresh lib db cur = Inr (Some pack, True) \<and> lp_version pack = ver \<and> lp_load_errors pack = []
     \<and> (\<forall>c. candidates pack (JStr c)
          = filter (\<lambda>r. cr_event_class (lr_compiled r) = c) (map (load_row lib) (fetch_rules ver db)))"
  using assms by (rule refresh_loads)

theorem published_rules_load_witness:
  "\<exists>db pack. refresh demo_lib db None = Inr (Some pack, True) \<and> lp_version pack = ''1.0.0'' \<and> lp_load_errors pack = []"
proof -
  obtain v db' where v: "load_pack demo_lib demo_fs True = Inr v" "pv_ok v"
    "publish_pack (\<lambda>_. ''hash'') v ''ci'' ''now'' 5 empty_pub = Inr db'" by (rule demo_publish)
  have "(case load_pack demo_lib demo_fs True of Inr v \<Rightarrow>
      (case publish_pack (\<lambda>_. ''hash'') v ''ci'' ''now'' 5 empty_pub of
         Inr db' \<Rightarrow> active_pack_version db' = Some ''1.0.0'' | _ \<Rightarrow> False) | _ \<Rightarrow> False)"
    by code_simp
  with v have act: "active_pack_version db' = Some ''1.0.0''" by simp
  have ok: "pub_ok demo_lib db'"
    by (rule publish_pub_ok [OF empty_pub_ok load_pack_validated(1) [OF v(1,2)] v(3)])
  from published_rules_load [OF ok act, of None] show ?thesis by auto
qed

text \<open>published rules pass their fixtures. When a pack validates with its fixtures run, every
  rule matches every event its fixture says it must match and none that it must not.\<close>

theorem validated_pack_passes_fixtures:
  assumes "load_pack lib fs True = Inr v" "pv_ok v" "p \<in> set (pv_rules v)"
  shows "\<exists>fx. fs_fixture fs (cr_rule_id (pr_compiled p)) = Inr (JObj fx)
     \<and> (\<forall>cs c. map_of fx ''must_match'' = Some (JList cs) \<longrightarrow> c \<in> set cs
          \<longrightarrow> evaluate (pr_compiled p) (event_get c ''event'') = Inr True)
     \<and> (\<forall>cs c. map_of fx ''must_not_match'' = Some (JList cs) \<longrightarrow> c \<in> set cs
          \<longrightarrow> evaluate (pr_compiled p) (event_get c ''event'') = Inr False)"
proof -
  from load_pack_validated(2) [OF assms] obtain fixture where
    f: "fs_fixture fs (cr_rule_id (pr_compiled p)) = Inr fixture" "run_rule_fixture (pr_compiled p) fixture = Inr []"
    by auto
  then obtain fx pos neg where fx: "fixture = JObj fx" and pos: "section_cases fx ''must_match'' = Inr pos"
    "run_cases (pr_compiled p) True pos = Inr []" and neg: "section_cases fx ''must_not_match'' = Inr neg"
    "run_cases (pr_compiled p) False neg = Inr []"
    by (auto simp: run_rule_fixture_def rbind_Inr_iff split: json.splits)
  have "evaluate (pr_compiled p) (event_get c ''event'') = Inr want"
    if "run_cases (pr_compiled p) want cs = Inr []" "c \<in> set cs" for want cs c
    using run_cases_ok [OF that] by (auto simp: event_get_def obj_get_def)
  with f(1) fx pos neg show ?thesis by (auto simp: section_cases_def)
qed

theorem validated_pack_passes_fixtures_witness:
  "\<exists>v p. load_pack demo_lib demo_fs True = Inr v \<and> p \<in> set (pv_rules v)
     \<and> evaluate (pr_compiled p) demo_event = Inr True"
proof -
  obtain v db' where v: "load_pack demo_lib demo_fs True = Inr v" "pv_ok v"
    "publish_pack (\<lambda>_. ''hash'') v ''ci'' ''now'' 5 empty_pub = Inr db'" by (rule demo_publish)
  have "(case load_pack demo_lib demo_fs True of Inr v \<Rightarrow> pv_rules v \<noteq> [] | _ \<Rightarrow> False)" by code_simp
  with v(1) obtain p where p: "p \<in> set (pv_rules v)" by (cases "pv_rules v") auto
  define c where "c = JObj [(''name'', JStr ''hit''), (''event'', demo_event)]"
  have ev: "event_get c ''event'' = demo_event" by (simp add: c_def event_get_def obj_get_def)
  from validated_pack_passes_fixtures [OF v(1,2) p]
  have "evaluate (pr_compiled p) (event_get c ''event'') = Inr True"
    by (auto simp: demo_fs_def demo_fixture_def c_def)
  with v(1) p ev show ?thesis by metis
qed

end
