(* ===== verification/Detector.thy ===== *)
theory Detector
  imports Rule_Pack
begin

section \<open>The detector worker\<close>

text \<open>
  Model of \<^verbatim>\<open>workers/detector_pack.py\<close> (the enablement overlay), \<^verbatim>\<open>workers/detector_engine.py\<close> (the
  failure tracker and the evaluation of a pack on one event) and \<^verbatim>\<open>workers/detector.py\<close> (the message
  handler). The monotonic clock is a rational number passed to each call, the rule store is the
  state of its tables at that call. A set is a list of its elements.
\<close>

subsection \<open>Effective enablement\<close>

record rule_store =
  rs_disabled :: "string list"
  rs_toggles :: "string \<Rightarrow> (string \<times> bool) list"

record enablement_cache =
  ec_disabled :: "string list"
  ec_expires :: rat
  ec_toggles :: "(string \<times> rat \<times> (string \<times> bool) list) list"

definition OVERLAY_TTL_SECONDS :: rat where "OVERLAY_TTL_SECONDS = 30"

definition new_cache :: enablement_cache where
  "new_cache = \<lparr>ec_disabled = [], ec_expires = 0, ec_toggles = []\<rparr>"

definition runtime_disabled ::
  "rat \<Rightarrow> rat \<Rightarrow> rule_store \<Rightarrow> enablement_cache \<Rightarrow> string list \<times> enablement_cache" where
  "runtime_disabled ttl now store cache =
     (let cache' = (if now \<ge> ec_expires cache
                    then cache\<lparr>ec_disabled := rs_disabled store, ec_expires := now + ttl\<rparr> else cache) in
      (ec_disabled cache', cache'))"

definition tenant_toggles ::
  "rat \<Rightarrow> rat \<Rightarrow> rule_store \<Rightarrow> string \<Rightarrow> enablement_cache \<Rightarrow> (string \<times> bool) list \<times> enablement_cache" where
  "tenant_toggles ttl now store key cache =
     (let fetch =
        (let toggles = rs_toggles store key;
             kept = (if length (ec_toggles cache) > 10000
                     then filter (\<lambda>kv. fst (snd kv) > now) (ec_toggles cache) else ec_toggles cache) in
         (toggles, cache\<lparr>ec_toggles := AList.update key (now + ttl, toggles) kept\<rparr>)) in
      case map_of (ec_toggles cache) key of
        Some (expires, toggles) \<Rightarrow> if now < expires then (toggles, cache) else fetch
      | None \<Rightarrow> fetch)"

definition note_runtime_disable :: "string \<Rightarrow> enablement_cache \<Rightarrow> enablement_cache" where
  "note_runtime_disable rid cache = cache\<lparr>ec_disabled := rid # ec_disabled cache\<rparr>"

definition is_enabled ::
  "rat \<Rightarrow> rat \<Rightarrow> rule_store \<Rightarrow> loaded_rule \<Rightarrow> string \<Rightarrow> enablement_cache \<Rightarrow> bool \<times> enablement_cache" where
  "is_enabled ttl now store rule tenant cache =
     (let rid = cr_rule_id (lr_compiled rule);
          (disabled, cache1) = runtime_disabled ttl now store cache in
      if rid \<in> set disabled then (False, cache1)
      else
        let (toggles, cache2) = tenant_toggles ttl now store tenant cache1 in
        ((case map_of toggles rid of None \<Rightarrow> lr_enabled_default rule | Some b \<Rightarrow> b), cache2))"

subsection \<open>The failure tracker\<close>

record tracker_config =
  tc_fraction :: rat
  tc_min_tenants :: nat
  tc_min_samples :: nat
  tc_window :: rat
  tc_bucket_count :: nat

definition DEFAULT_TRACKER :: tracker_config where
  "DEFAULT_TRACKER = \<lparr>tc_fraction = 5 / 100, tc_min_tenants = 3, tc_min_samples = 200, tc_window = 300,
     tc_bucket_count = 10\<rparr>"

definition tracker_config_ok :: "tracker_config \<Rightarrow> bool" where
  "tracker_config_ok cfg = (\<not> (tc_fraction cfg \<le> 0 \<or> tc_min_tenants cfg < 2))"

record bucket =
  bk_start :: rat
  bk_evals :: nat
  bk_errors :: nat
  bk_error_tenants :: "string list"

record tracker =
  tk_buckets :: "(string \<times> bucket list) list"
  tk_flagged :: "string list"

definition new_tracker :: tracker where
  "new_tracker = \<lparr>tk_buckets = [], tk_flagged = []\<rparr>"

record disable_decision =
  dd_rule_id :: string
  dd_error_fraction :: rat
  dd_tenants_affected :: nat
  dd_samples :: nat
  dd_window :: rat

text \<open>\<^verbatim>\<open>round(x, 6)\<close> of an exact value: to the nearest millionth, ties to even.\<close>

definition round6 :: "rat \<Rightarrow> rat" where
  "round6 q =
     (let m = \<lfloor>q * 1000000\<rfloor>; d = q * 1000000 - of_int m in
      of_int (if d < 1 / 2 then m else if d > 1 / 2 then m + 1 else if even m then m else m + 1) / 1000000)"

definition bucket_start :: "tracker_config \<Rightarrow> rat \<Rightarrow> rat" where
  "bucket_start cfg now =
     (let width = tc_window cfg / of_nat (tc_bucket_count cfg) in of_int \<lfloor>now / width\<rfloor> * width)"

definition rule_buckets :: "tracker \<Rightarrow> string \<Rightarrow> bucket list" where
  "rule_buckets tr rid = (case map_of (tk_buckets tr) rid of None \<Rightarrow> [] | Some bs \<Rightarrow> bs)"

text \<open>Expired buckets leave at the front, and the last bucket is the one of the present instant.\<close>

definition current_buckets :: "tracker_config \<Rightarrow> rat \<Rightarrow> bucket list \<Rightarrow> bucket list" where
  "current_buckets cfg now bs =
     (let kept = dropWhile (\<lambda>b. bk_start b < now - tc_window cfg) bs; s = bucket_start cfg now in
      if kept = [] \<or> bk_start (last kept) \<noteq> s
      then kept @ [\<lparr>bk_start = s, bk_evals = 0, bk_errors = 0, bk_error_tenants = []\<rparr>] else kept)"

definition count_eval :: "string \<Rightarrow> bool \<Rightarrow> bucket \<Rightarrow> bucket" where
  "count_eval tenant error b =
     (let b' = b\<lparr>bk_evals := bk_evals b + 1\<rparr> in
      if error then b'\<lparr>bk_errors := bk_errors b' + 1, bk_error_tenants := List.insert tenant (bk_error_tenants b')\<rparr> else b')"

definition record_outcome ::
  "tracker_config \<Rightarrow> rat \<Rightarrow> string \<Rightarrow> string \<Rightarrow> bool \<Rightarrow> tracker \<Rightarrow> disable_decision option \<times> tracker" where
  "record_outcome cfg now rid tenant error tr =
     (let cur = current_buckets cfg now (rule_buckets tr rid);
          buckets = butlast cur @ [count_eval tenant error (last cur)];
          tr' = tr\<lparr>tk_buckets := AList.update rid buckets (tk_buckets tr)\<rparr> in
      if \<not> error \<or> rid \<in> set (tk_flagged tr) then (None, tr')
      else
        let samples = sum_list (map bk_evals buckets);
            errors = sum_list (map bk_errors buckets);
            tenants = remdups (concat (map bk_error_tenants buckets));
            fraction = (of_nat errors / of_nat samples :: rat) in
        if samples < tc_min_samples cfg then (None, tr')
        else if fraction < tc_fraction cfg \<or> length tenants < tc_min_tenants cfg then (None, tr')
        else (Some \<lparr>dd_rule_id = rid, dd_error_fraction = round6 fraction, dd_tenants_affected = length tenants,
                    dd_samples = samples, dd_window = tc_window cfg\<rparr>,
              tr'\<lparr>tk_flagged := rid # tk_flagged tr'\<rparr>))"

subsection \<open>The engine\<close>

record engine_hit =
  eh_rule_id :: string
  eh_rule_version :: string
  eh_title :: string
  eh_severity :: string
  eh_mitre :: "string list"
  eh_entity_key :: string
  eh_pack_version :: string
  eh_hostname :: "string option"
  eh_user :: "string option"

record engine_result =
  er_hits :: "engine_hit list"
  er_errors :: "(string \<times> eval_exc) list"
  er_decisions :: "disable_decision list"
  er_evaluated :: nat

record engine_state =
  en_cache :: enablement_cache
  en_tracker :: tracker

definition nonempty_str :: "json \<Rightarrow> string option" where
  "nonempty_str v = (case v of JStr s \<Rightarrow> if s = [] then None else Some s | _ \<Rightarrow> None)"

definition event_hostname :: "json \<Rightarrow> string option" where
  "event_hostname event =
     (case event_get event ''host'' of JObj h \<Rightarrow> nonempty_str (obj_get h ''hostname'') | _ \<Rightarrow> None)"

definition entity_user :: "compiled_rule \<Rightarrow> json \<Rightarrow> string option" where
  "entity_user compiled event =
     (if ''user.name'' \<notin> set (cr_entity compiled) then None
      else case event_get event ''user'' of JObj u \<Rightarrow> nonempty_str (obj_get u ''name'') | _ \<Rightarrow> None)"

definition make_hit :: "pylib \<Rightarrow> string \<Rightarrow> compiled_rule \<Rightarrow> json \<Rightarrow> engine_hit" where
  "make_hit lib pack_version c event =
     \<lparr>eh_rule_id = cr_rule_id c, eh_rule_version = cr_version c, eh_title = cr_title c,
      eh_severity = cr_severity c, eh_mitre = cr_mitre_technique_ids c,
      eh_entity_key = entity_key lib c event, eh_pack_version = pack_version,
      eh_hostname = event_hostname event, eh_user = entity_user c event\<rparr>"

record engine_env =
  ee_lib :: pylib
  ee_ttl :: rat
  ee_now :: rat
  ee_store :: rule_store
  ee_tracker_cfg :: tracker_config

fun evaluate_rules ::
  "engine_env \<Rightarrow> string \<Rightarrow> json \<Rightarrow> string \<Rightarrow> loaded_rule list \<Rightarrow> engine_result \<Rightarrow> engine_state \<Rightarrow> engine_result \<times> engine_state" where
  "evaluate_rules env ver event tenant [] res st = (res, st)"
| "evaluate_rules env ver event tenant (rule # rules) res st =
     (let c = lr_compiled rule in
      if \<not> schema_version_applies (cr_min_schema c) (event_get event ''schema_version'')
      then evaluate_rules env ver event tenant rules res st
      else
        let (enabled, cache) = is_enabled (ee_ttl env) (ee_now env) (ee_store env) rule tenant (en_cache st);
            st1 = st\<lparr>en_cache := cache\<rparr> in
        if \<not> enabled then evaluate_rules env ver event tenant rules res st1
        else
          let out = matches_condition c event;
              (decision, tracker) = record_outcome (ee_tracker_cfg env) (ee_now env) (cr_rule_id c) tenant
                 (\<not> is_ok out) (en_tracker st1);
              res1 = res\<lparr>er_evaluated := er_evaluated res + 1,
                er_hits := er_hits res @ (if out = Inr True then [make_hit (ee_lib env) ver c event] else []),
                er_errors := er_errors res @ (case out of Inl e \<Rightarrow> [(cr_rule_id c, e)] | Inr _ \<Rightarrow> []),
                er_decisions := er_decisions res @ (case decision of None \<Rightarrow> [] | Some d \<Rightarrow> [d])\<rparr> in
          evaluate_rules env ver event tenant rules res1 (st1\<lparr>en_tracker := tracker\<rparr>))"

definition empty_result :: engine_result where
  "empty_result = \<lparr>er_hits = [], er_errors = [], er_decisions = [], er_evaluated = 0\<rparr>"

definition evaluate_event ::
  "engine_env \<Rightarrow> loaded_pack \<Rightarrow> json \<Rightarrow> string \<Rightarrow> engine_state \<Rightarrow> engine_result \<times> engine_state" where
  "evaluate_event env pack event tenant st =
     (if \<not> is_mapping event then (empty_result, st)
      else evaluate_rules env (lp_version pack) event tenant
             (candidates pack (event_get event ''event_class'')) empty_result st)"

subsection \<open>The message handler\<close>

definition opt_field :: "string \<Rightarrow> string option \<Rightarrow> obj" where
  "opt_field k v = (case v of None \<Rightarrow> [] | Some s \<Rightarrow> [(k, JStr s)])"

definition detection_payload :: "engine_hit \<Rightarrow> json \<Rightarrow> string \<Rightarrow> string \<Rightarrow> obj" where
  "detection_payload hit event_id event_time es_index =
     [(''rule_id'', JStr (eh_rule_id hit)), (''rule_version'', JStr (eh_rule_version hit)),
      (''title'', JStr (eh_title hit)), (''severity'', JStr (eh_severity hit)),
      (''mitre_technique_ids'', JList (map JStr (eh_mitre hit))), (''entity_key'', JStr (eh_entity_key hit)),
      (''event_id'', event_id), (''event_time'', JStr event_time), (''es_index'', JStr es_index),
      (''pack_version'', JStr (eh_pack_version hit))]
     @ opt_field ''entity_hostname'' (eh_hostname hit) @ opt_field ''entity_user'' (eh_user hit)"

text \<open>Parsing and printing of timestamps, and the monthly index name of a tenant.\<close>

record time_lib =
  tl_parse :: "string \<Rightarrow> int option"
  tl_format :: "int \<Rightarrow> string"
  tl_now :: int
  tl_index :: "string \<Rightarrow> int \<Rightarrow> string"

definition event_time_utc :: "time_lib \<Rightarrow> json \<Rightarrow> int" where
  "event_time_utc tlib event =
     (let parsed = (\<lambda>k. case event_get event k of JStr s \<Rightarrow> tl_parse tlib s | _ \<Rightarrow> None) in
      case parsed ''event_time'' of
        Some t \<Rightarrow> t
      | None \<Rightarrow> (case parsed ''ingest_time'' of Some t \<Rightarrow> t | None \<Rightarrow> tl_now tlib))"

record detector_state =
  ds_engine :: engine_state
  ds_pack :: "loaded_pack option"
  ds_disables :: "(string \<times> rat \<times> nat) list"

definition apply_runtime_disable :: "disable_decision \<Rightarrow> detector_state \<Rightarrow> detector_state" where
  "apply_runtime_disable d ds =
     ds\<lparr>ds_disables := (if dd_rule_id d \<in> set (map fst (ds_disables ds)) then ds_disables ds
                        else ds_disables ds @ [(dd_rule_id d, dd_error_fraction d, dd_tenants_affected d)]),
        ds_engine := (ds_engine ds)\<lparr>en_cache := note_runtime_disable (dd_rule_id d) (en_cache (ds_engine ds))\<rparr>\<rparr>"

definition handle ::
  "engine_env \<Rightarrow> time_lib \<Rightarrow> publish_db \<Rightarrow> string \<Rightarrow> obj \<Rightarrow> detector_state \<Rightarrow> compile_exc + (obj list \<times> detector_state)" where
  "handle env tlib pub tenant payload ds =
     rbind (ensure_loaded (ee_lib env) pub (ds_pack ds)) (\<lambda>loaded.
       case loaded of
         None \<Rightarrow> Inr ([], ds)
       | Some pack \<Rightarrow>
           let (event, es_raw) = (case obj_get payload ''event'' of
                 JObj e \<Rightarrow> (JObj e, obj_get payload ''es_index'') | _ \<Rightarrow> (JObj payload, JNull));
               es_index = (case nonempty_str es_raw of Some s \<Rightarrow> s | None \<Rightarrow> tl_index tlib tenant (event_time_utc tlib event));
               event_time = (case nonempty_str (event_get event ''event_time'') of
                 Some s \<Rightarrow> s | None \<Rightarrow> tl_format tlib (event_time_utc tlib event));
               (result, engine) = evaluate_event env pack event tenant (ds_engine ds);
               published = map (\<lambda>h. detection_payload h (event_get event ''event_id'') event_time es_index) (er_hits result) in
           Inr (published, fold apply_runtime_disable (er_decisions result)
                 (ds\<lparr>ds_engine := engine, ds_pack := Some pack\<rparr>)))"

subsection \<open>Enablement overlays, from the interface of a cache\<close>

text \<open>A read through a cache: the answer approximates a snapshot of the source taken at most \<open>ttl\<close>
  ago (equality for the toggles; for the disables the cache may hold more, the ones the worker itself
  decided), and the cache it leaves again only holds such snapshots.\<close>

locale ttl_cache =
  fixes read :: "rat \<Rightarrow> 'src \<Rightarrow> 'cache \<Rightarrow> 'val \<times> 'cache"
    and snapshot :: "'src \<Rightarrow> 'val"
    and entry :: "'cache \<Rightarrow> (rat \<times> 'val) option"
    and ttl :: rat
    and approx :: "'val \<Rightarrow> 'val \<Rightarrow> bool"
  assumes ttl_pos: "0 < ttl"
    and approx_refl: "approx v v"
    and hit: "entry c = Some (e, v) \<Longrightarrow> now < e \<Longrightarrow> read now s c = (v, c)"
    and miss: "(case entry c of None \<Rightarrow> True | Some (e, v) \<Rightarrow> e \<le> now) \<Longrightarrow>
          fst (read now s c) = snapshot s \<and> entry (snd (read now s c)) = Some (now + ttl, snapshot s)"
begin

text \<open>\<open>valid\<close>: the entry was read from the source, \<open>ttl\<close> before it expires, in the past.\<close>

definition valid :: "(rat \<Rightarrow> 'src) \<Rightarrow> rat \<Rightarrow> 'cache \<Rightarrow> bool" where
  "valid src now c \<longleftrightarrow> (\<forall>e v. entry c = Some (e, v) \<longrightarrow> now < e \<longrightarrow> e - ttl \<le> now \<and> approx v (snapshot (src (e - ttl))))"

lemma valid_later: "valid src now c \<Longrightarrow> now \<le> later \<Longrightarrow> valid src later c"
  unfolding valid_def by fastforce

lemma read_fresh:
  assumes "valid src now c"
  shows "\<exists>t. now - ttl < t \<and> t \<le> now \<and> approx (fst (read now (src now) c)) (snapshot (src t))"
proof (cases "case entry c of None \<Rightarrow> False | Some (e, v) \<Rightarrow> now < e")
  case True
  then obtain e v where e: "entry c = Some (e, v)" "now < e" by (auto split: option.splits)
  with assms have "e - ttl \<le> now" "approx v (snapshot (src (e - ttl)))" unfolding valid_def by blast+
  with e hit [OF e] show ?thesis by (intro exI [of _ "e - ttl"]) auto
next
  case False
  then have "case entry c of None \<Rightarrow> True | Some (e, v) \<Rightarrow> e \<le> now" by (auto split: option.splits)
  with miss [where c = c and now = now and s = "src now"] ttl_pos approx_refl show ?thesis by (intro exI [of _ now]) auto
qed

lemma read_valid:
  assumes "valid src now c"
  shows "valid src now (snd (read now (src now) c))"
proof (cases "case entry c of None \<Rightarrow> False | Some (e, v) \<Rightarrow> now < e")
  case True
  then obtain e v where e: "entry c = Some (e, v)" "now < e" by (auto split: option.splits)
  with hit [OF e] assms show ?thesis by simp
next
  case False
  then have "case entry c of None \<Rightarrow> True | Some (e, v) \<Rightarrow> e \<le> now" by (auto split: option.splits)
  with miss [where c = c and now = now and s = "src now"] ttl_pos approx_refl show ?thesis unfolding valid_def by auto
qed

lemma read_stable: "fst (read now s (snd (read now s c))) = fst (read now s c)"
proof (cases "case entry c of None \<Rightarrow> False | Some (e, v) \<Rightarrow> now < e")
  case True
  then obtain e v where e: "entry c = Some (e, v)" "now < e" by (auto split: option.splits)
  with hit [OF e] show ?thesis by simp
next
  case False
  then have m: "case entry c of None \<Rightarrow> True | Some (e, v) \<Rightarrow> e \<le> now" by (auto split: option.splits)
  have "read now s (snd (read now s c)) = (snapshot s, snd (read now s c))"
    using miss [OF m, of s] ttl_pos by (intro hit [where e = "now + ttl"]) auto
  with miss [OF m, of s] show ?thesis by simp
qed

end

definition disabled_entry :: "enablement_cache \<Rightarrow> (rat \<times> string list) option" where
  "disabled_entry c = Some (ec_expires c, ec_disabled c)"

definition toggles_entry :: "string \<Rightarrow> enablement_cache \<Rightarrow> (rat \<times> (string \<times> bool) list) option" where
  "toggles_entry t c = map_of (ec_toggles c) t"

interpretation disables: ttl_cache "runtime_disabled OVERLAY_TTL_SECONDS" rs_disabled disabled_entry OVERLAY_TTL_SECONDS
  "\<lambda>v s. set s \<subseteq> set v"
  by unfold_locales (auto simp: runtime_disabled_def disabled_entry_def OVERLAY_TTL_SECONDS_def)

interpretation toggles: ttl_cache "\<lambda>now s c. tenant_toggles OVERLAY_TTL_SECONDS now s t c" "\<lambda>s. rs_toggles s t"
  "toggles_entry t" OVERLAY_TTL_SECONDS "(=)"
  by unfold_locales (auto simp: tenant_toggles_def toggles_entry_def OVERLAY_TTL_SECONDS_def Let_def split: option.splits)


definition cache_ok :: "(rat \<Rightarrow> rule_store) \<Rightarrow> rat \<Rightarrow> enablement_cache \<Rightarrow> bool" where
  "cache_ok src now c \<longleftrightarrow> distinct (map fst (ec_toggles c)) \<and> disables.valid src now c \<and> (\<forall>t. toggles.valid t src now c)"

lemma cache_ok_later: "cache_ok src now c \<Longrightarrow> now \<le> later \<Longrightarrow> cache_ok src later c"
  using disables.valid_later toggles.valid_later by (fastforce simp: cache_ok_def)

lemma disabled_entry_toggles [simp]: "disabled_entry (snd (tenant_toggles ttl now s t c)) = disabled_entry c"
  by (auto simp: tenant_toggles_def disabled_entry_def Let_def split: option.splits)

lemma toggles_entry_disabled [simp]: "toggles_entry t (snd (runtime_disabled ttl now s c)) = toggles_entry t c"
  by (simp add: runtime_disabled_def toggles_entry_def Let_def)


lemma map_of_filter_distinct:
  "distinct (map fst d) \<Longrightarrow> map_of (filter P d) k = Some v \<Longrightarrow> map_of d k = Some v"
  by (metis (no_types, lifting) map_of_is_SomeI map_of_SomeD mem_Collect_eq set_filter)

lemma distinct_keys_filter: "distinct (map fst d) \<Longrightarrow> distinct (map fst (filter P d))"
  by (simp add: distinct_map_filter)

lemma tenant_toggles_distinct:
  "distinct (map fst (ec_toggles c)) \<Longrightarrow> distinct (map fst (ec_toggles (snd (tenant_toggles ttl now s t c))))"
  by (auto simp: tenant_toggles_def Let_def distinct_keys_filter distinct_update split: option.splits)

lemma toggles_entry_other:
  assumes "distinct (map fst (ec_toggles c))" "t' \<noteq> t"
    and "toggles_entry t' (snd (tenant_toggles ttl now s t c)) = Some ev"
  shows "toggles_entry t' c = Some ev"
proof -
  have "toggles_entry t' (snd (tenant_toggles ttl now s t c)) = toggles_entry t' c
    \<or> toggles_entry t' (snd (tenant_toggles ttl now s t c)) = map_of (filter (\<lambda>kv. fst (snd kv) > now) (ec_toggles c)) t'"
    using assms(2) by (cases "map_of (ec_toggles c) t") (auto simp: tenant_toggles_def toggles_entry_def Let_def)
  with assms(3) show ?thesis
    unfolding toggles_entry_def by (metis map_of_filter_distinct [OF assms(1)])
qed

lemma cache_ok_disabled:
  "cache_ok src now c \<Longrightarrow> cache_ok src now (snd (runtime_disabled OVERLAY_TTL_SECONDS now (src now) c))"
  using disables.read_valid [of src now c]
  by (simp add: cache_ok_def toggles.valid_def) (simp add: runtime_disabled_def Let_def)

lemma cache_ok_toggles:
  assumes "cache_ok src now c"
  shows "cache_ok src now (snd (tenant_toggles OVERLAY_TTL_SECONDS now (src now) t c))" (is "cache_ok src now ?c")
proof -
  from assms have d: "distinct (map fst (ec_toggles c))" by (simp add: cache_ok_def)
  have "toggles.valid t' src now ?c" for t'
  proof (cases "t' = t")
    case True
    with assms toggles.read_valid [of t src now c] show ?thesis by (simp add: cache_ok_def)
  next
    case False
    with assms toggles_entry_other [OF d False] show ?thesis
      unfolding cache_ok_def toggles.valid_def by blast
  qed
  with assms tenant_toggles_distinct [OF d] show ?thesis
    by (simp add: cache_ok_def disables.valid_def)
qed

lemma is_enabled_unfold:
  "is_enabled ttl now s r t c =
     (let rid = cr_rule_id (lr_compiled r); c1 = snd (runtime_disabled ttl now s c) in
      if rid \<in> set (fst (runtime_disabled ttl now s c)) then (False, c1)
      else (case map_of (fst (tenant_toggles ttl now s t c1)) rid of None \<Rightarrow> lr_enabled_default r | Some b \<Rightarrow> b,
            snd (tenant_toggles ttl now s t c1)))"
  by (simp add: is_enabled_def Let_def split: prod.splits)

lemma cache_ok_is_enabled:
  assumes "cache_ok src now c"
  shows "cache_ok src now (snd (is_enabled OVERLAY_TTL_SECONDS now (src now) r t c))"
  using cache_ok_toggles [OF cache_ok_disabled [OF assms]] cache_ok_disabled [OF assms]
  by (simp add: is_enabled_unfold Let_def)

lemma cache_ok_note: "cache_ok src now c \<Longrightarrow> cache_ok src now (note_runtime_disable rid c)"
  by (auto simp: cache_ok_def note_runtime_disable_def disables.valid_def toggles.valid_def
      disabled_entry_def toggles_entry_def)

lemma cache_ok_new: "0 \<le> now \<Longrightarrow> cache_ok src now new_cache"
  by (simp add: cache_ok_def new_cache_def disables.valid_def toggles.valid_def disabled_entry_def toggles_entry_def)

definition toggle_value :: "rule_store \<Rightarrow> loaded_rule \<Rightarrow> string \<Rightarrow> bool" where
  "toggle_value s r t =
     (case map_of (rs_toggles s t) (cr_rule_id (lr_compiled r)) of None \<Rightarrow> lr_enabled_default r | Some b \<Rightarrow> b)"

lemma is_enabled_fresh:
  assumes "cache_ok src now c"
  shows "\<exists>t1 t2. now - 30 < t1 \<and> t1 \<le> now \<and> now - 30 < t2 \<and> t2 \<le> now
     \<and> (cr_rule_id (lr_compiled r) \<in> set (rs_disabled (src t1)) \<longrightarrow> \<not> fst (is_enabled OVERLAY_TTL_SECONDS now (src now) r t c))
     \<and> (fst (is_enabled OVERLAY_TTL_SECONDS now (src now) r t c) \<longrightarrow> toggle_value (src t2) r t)
     \<and> (cr_rule_id (lr_compiled r) \<notin> set (fst (runtime_disabled OVERLAY_TTL_SECONDS now (src now) c))
          \<longrightarrow> fst (is_enabled OVERLAY_TTL_SECONDS now (src now) r t c) = toggle_value (src t2) r t)"
proof -
  let ?c1 = "snd (runtime_disabled OVERLAY_TTL_SECONDS now (src now) c)"
  from assms have v: "disables.valid src now c" "toggles.valid t src now ?c1"
    using cache_ok_disabled [OF assms] by (simp_all add: cache_ok_def)
  obtain t1 where t1: "now - 30 < t1" "t1 \<le> now"
    "set (rs_disabled (src t1)) \<subseteq> set (fst (runtime_disabled OVERLAY_TTL_SECONDS now (src now) c))"
    using disables.read_fresh [OF v(1)] unfolding OVERLAY_TTL_SECONDS_def by blast
  obtain t2 where t2: "now - 30 < t2" "t2 \<le> now"
    "fst (tenant_toggles OVERLAY_TTL_SECONDS now (src now) t ?c1) = rs_toggles (src t2) t"
    using toggles.read_fresh [OF v(2)] unfolding OVERLAY_TTL_SECONDS_def by blast
  show ?thesis
    by (intro exI [of _ t1] exI [of _ t2]) (use t1 t2 in \<open>auto simp: is_enabled_unfold Let_def toggle_value_def\<close>)
qed

lemma is_enabled_same_instant:
  "fst (is_enabled OVERLAY_TTL_SECONDS now s r' t (snd (is_enabled OVERLAY_TTL_SECONDS now s r t c)))
     = fst (is_enabled OVERLAY_TTL_SECONDS now s r' t c)"
proof -
  define rd where "rd c = runtime_disabled OVERLAY_TTL_SECONDS now s c" for c
  define tt where "tt c = tenant_toggles OVERLAY_TTL_SECONDS now s t c" for c
  have ie: "is_enabled OVERLAY_TTL_SECONDS now s r t c =
     (let rid = cr_rule_id (lr_compiled r) in
      if rid \<in> set (fst (rd c)) then (False, snd (rd c))
      else (case map_of (fst (tt (snd (rd c)))) rid of None \<Rightarrow> lr_enabled_default r | Some b \<Rightarrow> b, snd (tt (snd (rd c)))))"
    for r c by (simp add: is_enabled_unfold rd_def tt_def Let_def)
  have idem: "rd (snd (rd c)) = (fst (rd c), snd (rd c))" for c
    by (simp add: rd_def runtime_disabled_def Let_def OVERLAY_TTL_SECONDS_def)
  have rd_tt: "rd (snd (tt (snd (rd c)))) = (fst (rd c), snd (tt (snd (rd c))))" for c
  proof -
    have "disabled_entry (snd (tt (snd (rd c)))) = disabled_entry (snd (rd c))" by (simp add: tt_def)
    moreover have "now < ec_expires (snd (rd c))" "fst (rd c) = ec_disabled (snd (rd c))"
      by (auto simp: rd_def runtime_disabled_def Let_def OVERLAY_TTL_SECONDS_def)
    ultimately show ?thesis by (simp add: disabled_entry_def rd_def runtime_disabled_def Let_def)
  qed
  have tt: "fst (tt (snd (tt c))) = fst (tt c)" for c
    unfolding tt_def by (rule toggles.read_stable)
  show ?thesis by (simp add: ie Let_def idem rd_tt tt)
qed

subsection \<open>The failure tracker\<close>

type_synonym eval_call = "rat \<times> string \<times> string \<times> bool"

fun track_calls :: "tracker_config \<Rightarrow> eval_call list \<Rightarrow> tracker \<Rightarrow> disable_decision list \<times> tracker" where
  "track_calls cfg [] tr = ([], tr)"
| "track_calls cfg ((now, rid, tenant, error) # calls) tr =
     (let (d, tr1) = record_outcome cfg now rid tenant error tr; (ds, tr2) = track_calls cfg calls tr1 in
      ((case d of None \<Rightarrow> ds | Some x \<Rightarrow> x # ds), tr2))"

definition cfg_ok :: "tracker_config \<Rightarrow> bool" where
  "cfg_ok cfg \<longleftrightarrow> tracker_config_ok cfg \<and> 0 < tc_window cfg \<and> 0 < tc_bucket_count cfg"

definition bucket_width :: "tracker_config \<Rightarrow> rat" where
  "bucket_width cfg = tc_window cfg / of_nat (tc_bucket_count cfg)"

lemma bucket_start_alt: "bucket_start cfg now = of_int \<lfloor>now / bucket_width cfg\<rfloor> * bucket_width cfg"
  by (simp add: bucket_start_def bucket_width_def Let_def)

lemma width_pos: "cfg_ok cfg \<Longrightarrow> 0 < bucket_width cfg"
  by (simp add: cfg_ok_def bucket_width_def)

lemma width_le_window: "cfg_ok cfg \<Longrightarrow> bucket_width cfg \<le> tc_window cfg"
  by (simp add: cfg_ok_def bucket_width_def divide_le_eq mult_le_cancel_left1)

lemma bucket_start_le: "cfg_ok cfg \<Longrightarrow> bucket_start cfg now \<le> now"
  using width_pos [of cfg] floor_divide_lower [of "bucket_width cfg" now] by (simp add: bucket_start_alt)

lemma bucket_start_gt: "cfg_ok cfg \<Longrightarrow> now - bucket_width cfg < bucket_start cfg now"
  using width_pos [of cfg] floor_divide_upper [of "bucket_width cfg" now]
  by (simp add: bucket_start_alt algebra_simps)

lemma bucket_start_mono: "cfg_ok cfg \<Longrightarrow> a \<le> b \<Longrightarrow> bucket_start cfg a \<le> bucket_start cfg b"
  using width_pos [of cfg] by (simp add: bucket_start_alt floor_mono divide_right_mono)

text \<open>A bucket of a rule only names tenants for which an error was recorded at or after its start.\<close>

definition buckets_ok :: "tracker_config \<Rightarrow> eval_call set \<Rightarrow> rat \<Rightarrow> string \<Rightarrow> bucket list \<Rightarrow> bool" where
  "buckets_ok cfg H latest rid bs \<longleftrightarrow>
     sorted (map bk_start bs)
     \<and> (\<forall>b \<in> set bs. bk_start b \<le> bucket_start cfg latest
          \<and> (\<forall>t \<in> set (bk_error_tenants b). \<exists>s. (s, rid, t, True) \<in> H \<and> bk_start b \<le> s))"

definition tracker_ok :: "tracker_config \<Rightarrow> eval_call set \<Rightarrow> rat \<Rightarrow> tracker \<Rightarrow> bool" where
  "tracker_ok cfg H latest tr \<longleftrightarrow> (\<forall>rid. buckets_ok cfg H latest rid (rule_buckets tr rid))"

lemma current_buckets_nonempty: "current_buckets cfg now bs \<noteq> []"
  by (auto simp: current_buckets_def Let_def)

lemma last_current: "bk_start (last (current_buckets cfg now bs)) = bucket_start cfg now"
  by (auto simp: current_buckets_def Let_def)

lemma sorted_dropWhile_ge:
  "sorted (map bk_start bs) \<Longrightarrow> b \<in> set (dropWhile (\<lambda>b. bk_start b < x) bs) \<Longrightarrow> x \<le> bk_start b"
  by (induction bs) (auto split: if_splits)

lemma current_buckets_ok:
  assumes "cfg_ok cfg" "buckets_ok cfg H latest rid bs" "latest \<le> now"
  shows "buckets_ok cfg H now rid (current_buckets cfg now bs)"
    and "\<forall>b \<in> set (current_buckets cfg now bs). now - tc_window cfg \<le> bk_start b"
proof -
  let ?kept = "dropWhile (\<lambda>b. bk_start b < now - tc_window cfg) bs"
  have m: "bucket_start cfg latest \<le> bucket_start cfg now" by (rule bucket_start_mono [OF assms(1,3)])
  have sub: "set ?kept \<subseteq> set bs" by (rule set_dropWhileD [THEN subsetI])
  have "sorted (map bk_start bs)" using assms(2) by (simp add: buckets_ok_def)
  then have s: "sorted (map bk_start ?kept)"
    by (metis dropWhile_eq_drop drop_map sorted_wrt_drop)
  have le: "bk_start b \<le> bucket_start cfg now" if "b \<in> set ?kept" for b
    using assms(2) sub that m unfolding buckets_ok_def by fastforce
  show "buckets_ok cfg H now rid (current_buckets cfg now bs)"
    using assms(2) s le sub
    by (auto simp: buckets_ok_def current_buckets_def Let_def sorted_append)
  have "now - tc_window cfg \<le> bucket_start cfg now"
    using bucket_start_gt [OF assms(1), of now] width_le_window [OF assms(1)] by simp
  then show "\<forall>b \<in> set (current_buckets cfg now bs). now - tc_window cfg \<le> bk_start b"
    using sorted_dropWhile_ge [OF \<open>sorted (map bk_start bs)\<close>]
    by (auto simp: current_buckets_def Let_def)
qed

definition recorded_buckets :: "tracker_config \<Rightarrow> rat \<Rightarrow> string \<Rightarrow> bool \<Rightarrow> bucket list \<Rightarrow> bucket list" where
  "recorded_buckets cfg now tenant error bs =
     (let cur = current_buckets cfg now bs in butlast cur @ [count_eval tenant error (last cur)])"

lemma count_eval_simps [simp]:
  "bk_start (count_eval t e b) = bk_start b"
  "set (bk_error_tenants (count_eval t e b)) = (if e then {t} else {}) \<union> set (bk_error_tenants b)"
  by (auto simp: count_eval_def Let_def)

lemma recorded_buckets_ok:
  assumes "cfg_ok cfg" "buckets_ok cfg H latest rid bs" "latest \<le> now" "error \<longrightarrow> (now, rid, tenant, True) \<in> H"
  shows "buckets_ok cfg H now rid (recorded_buckets cfg now tenant error bs)"
    and "\<forall>b \<in> set (recorded_buckets cfg now tenant error bs). now - tc_window cfg \<le> bk_start b"
proof -
  let ?cur = "current_buckets cfg now bs"
  have split: "?cur = butlast ?cur @ [last ?cur]"
    using current_buckets_nonempty [of cfg now bs] by simp
  have starts: "map bk_start (recorded_buckets cfg now tenant error bs) = map bk_start ?cur"
  proof -
    have "map bk_start ?cur = map bk_start (butlast ?cur @ [last ?cur])" using split by simp
    also have "\<dots> = map bk_start (recorded_buckets cfg now tenant error bs)"
      by (simp only: recorded_buckets_def Let_def map_append list.map count_eval_simps(1))
    finally show ?thesis by simp
  qed
  have mem: "b \<in> set ?cur \<or> b = count_eval tenant error (last ?cur)"
    if "b \<in> set (recorded_buckets cfg now tenant error bs)" for b
    using that by (auto simp: recorded_buckets_def Let_def dest: in_set_butlastD)
  have l: "last ?cur \<in> set ?cur" using current_buckets_nonempty [of cfg now bs] by simp
  note ok = current_buckets_ok [OF assms(1-3)]
  have "bk_start b \<le> bucket_start cfg now \<and> (\<forall>t \<in> set (bk_error_tenants b). \<exists>s. (s, rid, t, True) \<in> H \<and> bk_start b \<le> s)"
    if "b \<in> set (recorded_buckets cfg now tenant error bs)" for b
    using mem [OF that]
  proof
    assume b: "b = count_eval tenant error (last ?cur)"
    show ?thesis
      using ok(1) l assms(4) bucket_start_le [OF assms(1), of now] last_current [of cfg now bs]
      unfolding b buckets_ok_def by (auto split: if_splits)
  qed (use ok(1) in \<open>auto simp: buckets_ok_def\<close>)
  with ok(1) show "buckets_ok cfg H now rid (recorded_buckets cfg now tenant error bs)"
    unfolding buckets_ok_def starts by blast
  show "\<forall>b \<in> set (recorded_buckets cfg now tenant error bs). now - tc_window cfg \<le> bk_start b"
    using ok(2) mem l by fastforce
qed

lemma rule_buckets_record:
  "rule_buckets (snd (record_outcome cfg now rid tenant error tr)) r =
     (if r = rid then recorded_buckets cfg now tenant error (rule_buckets tr rid) else rule_buckets tr r)"
  by (simp add: record_outcome_def Let_def rule_buckets_def recorded_buckets_def)

lemma buckets_ok_mono: "buckets_ok cfg H latest rid bs \<Longrightarrow> H \<subseteq> H' \<Longrightarrow> buckets_ok cfg H' latest rid bs"
  unfolding buckets_ok_def by blast

lemma buckets_ok_later:
  "cfg_ok cfg \<Longrightarrow> buckets_ok cfg H latest rid bs \<Longrightarrow> latest \<le> now \<Longrightarrow> buckets_ok cfg H now rid bs"
  unfolding buckets_ok_def using bucket_start_mono [of cfg latest now] by (meson order_trans)

lemma tracker_ok_record:
  assumes "cfg_ok cfg" "tracker_ok cfg H latest tr" "latest \<le> now" "H' = insert (now, rid, tenant, error) H"
  shows "tracker_ok cfg H' now (snd (record_outcome cfg now rid tenant error tr))"
proof -
  have H: "buckets_ok cfg H' latest r (rule_buckets tr r)" for r
    using assms(2,4) by (auto simp: tracker_ok_def intro: buckets_ok_mono)
  show ?thesis
    unfolding tracker_ok_def rule_buckets_record
    using recorded_buckets_ok(1) [OF assms(1) H assms(3), of error rid tenant] buckets_ok_later [OF assms(1) H assms(3)]
      assms(4) by auto
qed

definition failing_tenants :: "eval_call set \<Rightarrow> string \<Rightarrow> rat \<Rightarrow> string set" where
  "failing_tenants H rid since = {t. \<exists>s. (s, rid, t, True) \<in> H \<and> since \<le> s}"

lemma decision_multi_tenant:
  assumes "cfg_ok cfg" "tracker_ok cfg H latest tr" "latest \<le> now" "finite H"
    and "record_outcome cfg now rid tenant error tr = (Some d, tr')"
  shows "tc_min_tenants cfg \<le> card (failing_tenants (insert (now, rid, tenant, error) H) rid (now - tc_window cfg))
     \<and> dd_rule_id d = rid \<and> tc_min_samples cfg \<le> dd_samples d \<and> rid \<notin> set (tk_flagged tr) \<and> rid \<in> set (tk_flagged tr')"
proof -
  let ?H = "insert (now, rid, tenant, error) H" and ?bs = "recorded_buckets cfg now tenant error (rule_buckets tr rid)"
  have e: "error" "rid \<notin> set (tk_flagged tr)" "rid \<in> set (tk_flagged tr')"
    and n: "tc_min_tenants cfg \<le> length (remdups (concat (map bk_error_tenants ?bs)))"
    and d: "dd_rule_id d = rid" "tc_min_samples cfg \<le> dd_samples d"
    using assms(5) by (auto simp: record_outcome_def recorded_buckets_def Let_def split: if_splits)
  have H: "buckets_ok cfg ?H latest rid (rule_buckets tr rid)"
    using assms(2) by (auto simp: tracker_ok_def intro: buckets_ok_mono)
  note ok = recorded_buckets_ok [OF assms(1) H assms(3), of error tenant]
  have "set (remdups (concat (map bk_error_tenants ?bs))) \<subseteq> failing_tenants ?H rid (now - tc_window cfg)"
    using ok e(1) unfolding failing_tenants_def buckets_ok_def by fastforce
  moreover have "finite (failing_tenants ?H rid (now - tc_window cfg))"
  proof (rule finite_subset)
    show "failing_tenants ?H rid (now - tc_window cfg) \<subseteq> (\<lambda>c. fst (snd (snd c))) ` ?H"
      by (force simp: failing_tenants_def)
  qed (simp add: assms(4))
  ultimately have "card (set (remdups (concat (map bk_error_tenants ?bs)))) \<le> card (failing_tenants ?H rid (now - tc_window cfg))"
    by (intro card_mono)
  moreover have "card (set (remdups (concat (map bk_error_tenants ?bs)))) = length (remdups (concat (map bk_error_tenants ?bs)))"
    by (rule distinct_card) simp
  ultimately show ?thesis using n d e by simp
qed

lemma flagged_grow: "set (tk_flagged tr) \<subseteq> set (tk_flagged (snd (record_outcome cfg now rid tenant error tr)))"
  by (auto simp: record_outcome_def Let_def)

lemma track_calls_flagged:
  assumes "track_calls cfg calls tr = (ds, tr')"
  shows "distinct (map dd_rule_id ds) \<and> set (map dd_rule_id ds) \<inter> set (tk_flagged tr) = {}"
  using assms
proof (induction calls arbitrary: tr ds)
  case (Cons call calls)
  obtain now rid tenant error where call: "call = (now, rid, tenant, error)" by (cases call) auto
  obtain d tr1 where r: "record_outcome cfg now rid tenant error tr = (d, tr1)" by fastforce
  obtain ds1 where t: "track_calls cfg calls tr1 = (ds1, tr')" "ds = (case d of None \<Rightarrow> ds1 | Some x \<Rightarrow> x # ds1)"
    using Cons.prems call r by (auto split: prod.splits)
  have g: "set (tk_flagged tr) \<subseteq> set (tk_flagged tr1)" using flagged_grow [of tr cfg now rid tenant error] r by simp
  have f: "dd_rule_id x = rid \<and> rid \<notin> set (tk_flagged tr) \<and> rid \<in> set (tk_flagged tr1)" if "d = Some x" for x
    using r that by (auto simp: record_outcome_def Let_def split: if_splits)
  from Cons.IH [OF t(1)] g f t(2) show ?case by (cases d) auto
qed simp

lemma tracker_ok_new: "tracker_ok cfg {} latest new_tracker"
  by (simp add: tracker_ok_def new_tracker_def rule_buckets_def buckets_ok_def)

lemma track_calls_snd:
  "snd (track_calls cfg ((now, rid, tenant, err) # calls) tr)
     = snd (track_calls cfg calls (snd (record_outcome cfg now rid tenant err tr)))"
  by (simp add: Let_def split: prod.splits)

lemma track_calls_ok:
  assumes "cfg_ok cfg"
  shows "tracker_ok cfg H latest tr \<Longrightarrow> sorted (latest # map fst calls) \<Longrightarrow>
     tracker_ok cfg (H \<union> set calls) (last (latest # map fst calls)) (snd (track_calls cfg calls tr))"
proof (induction calls arbitrary: H latest tr)
  case (Cons call calls)
  obtain now rid tenant error where call: "call = (now, rid, tenant, error)" by (cases call) auto
  have "tracker_ok cfg (insert call H) now (snd (record_outcome cfg now rid tenant error tr))"
    using Cons.prems call by (intro tracker_ok_record [OF assms Cons.prems(1)]) auto
  from Cons.IH [OF this] Cons.prems(2) show ?case
    unfolding call track_calls_snd by simp
qed simp

subsection \<open>Evaluation of an event\<close>

definition gate :: "engine_env \<Rightarrow> json \<Rightarrow> string \<Rightarrow> enablement_cache \<Rightarrow> loaded_rule \<Rightarrow> bool" where
  "gate env event tenant cache rule \<longleftrightarrow>
     schema_version_applies (cr_min_schema (lr_compiled rule)) (event_get event ''schema_version'')
     \<and> fst (is_enabled (ee_ttl env) (ee_now env) (ee_store env) rule tenant cache)"

definition same_answers :: "engine_env \<Rightarrow> string \<Rightarrow> enablement_cache \<Rightarrow> enablement_cache \<Rightarrow> bool" where
  "same_answers env tenant c c' \<longleftrightarrow>
     (\<forall>r. fst (is_enabled (ee_ttl env) (ee_now env) (ee_store env) r tenant c')
        = fst (is_enabled (ee_ttl env) (ee_now env) (ee_store env) r tenant c))"

lemma same_answers_step:
  assumes "ee_ttl env = OVERLAY_TTL_SECONDS" "same_answers env tenant c0 c"
  shows "same_answers env tenant c0 (snd (is_enabled (ee_ttl env) (ee_now env) (ee_store env) r tenant c))"
  using assms(2) unfolding same_answers_def assms(1) by (simp add: is_enabled_same_instant)

lemma evaluate_rules_results:
  assumes "ee_ttl env = OVERLAY_TTL_SECONDS"
  shows "same_answers env tenant c0 (en_cache st) \<Longrightarrow>
     er_hits (fst (evaluate_rules env ver event tenant rules res st)) = er_hits res @
       map (\<lambda>r. make_hit (ee_lib env) ver (lr_compiled r) event)
         (filter (\<lambda>r. gate env event tenant c0 r \<and> matches_condition (lr_compiled r) event = Inr True) rules)
   \<and> er_errors (fst (evaluate_rules env ver event tenant rules res st)) = er_errors res @
       concat (map (\<lambda>r. case matches_condition (lr_compiled r) event of Inl e \<Rightarrow> [(cr_rule_id (lr_compiled r), e)] | Inr _ \<Rightarrow> [])
         (filter (gate env event tenant c0) rules))
   \<and> er_evaluated (fst (evaluate_rules env ver event tenant rules res st)) = er_evaluated res + length (filter (gate env event tenant c0) rules)"
proof (induction rules arbitrary: res st)
  case (Cons rule rules)
  let ?c = "lr_compiled rule"
  obtain enabled cache where ie: "is_enabled (ee_ttl env) (ee_now env) (ee_store env) rule tenant (en_cache st) = (enabled, cache)"
    by fastforce
  have g: "gate env event tenant c0 rule \<longleftrightarrow>
      schema_version_applies (cr_min_schema ?c) (event_get event ''schema_version'') \<and> enabled"
    using Cons.prems ie unfolding gate_def same_answers_def by (metis fst_conv)
  have cache: "same_answers env tenant c0 cache"
    using same_answers_step [OF assms Cons.prems, of rule] ie by simp
  define out where "out = matches_condition ?c event"
  obtain d tr where ro: "record_outcome (ee_tracker_cfg env) (ee_now env) (cr_rule_id ?c) tenant
      (\<not> is_ok out) (en_tracker st) = (d, tr)" by fastforce
  define res1 where "res1 = res\<lparr>er_evaluated := er_evaluated res + 1,
      er_hits := er_hits res @ (if out = Inr True then [make_hit (ee_lib env) ver ?c event] else []),
      er_errors := er_errors res @ (case out of Inl e \<Rightarrow> [(cr_rule_id ?c, e)] | Inr _ \<Rightarrow> []),
      er_decisions := er_decisions res @ (case d of None \<Rightarrow> [] | Some d \<Rightarrow> [d])\<rparr>"
  have step: "evaluate_rules env ver event tenant (rule # rules) res st =
     (if \<not> schema_version_applies (cr_min_schema ?c) (event_get event ''schema_version'')
      then evaluate_rules env ver event tenant rules res st
      else if \<not> enabled then evaluate_rules env ver event tenant rules res (st\<lparr>en_cache := cache\<rparr>)
      else evaluate_rules env ver event tenant rules res1 (st\<lparr>en_cache := cache, en_tracker := tr\<rparr>))"
    by (simp add: ie ro out_def [symmetric] res1_def Let_def)
  show ?case
    unfolding step
    using Cons.IH [of st res] Cons.IH [of "st\<lparr>en_cache := cache\<rparr>" res] Cons.prems cache
      Cons.IH [of "st\<lparr>en_cache := cache, en_tracker := tr\<rparr>" res1]
    by (cases out) (auto simp: g out_def [symmetric] res1_def)
qed simp

subsection \<open>Properties\<close>

text \<open>Enablement follows the tables within 30 seconds. If a rule has been disabled at runtime
  throughout the last 30 seconds, it is not evaluated, whatever the tenant's toggles say; and if it
  is evaluated, the tenant's toggle (or the pack default when there is none) was on at some instant
  of the last 30 seconds. The cache keeps holding only such readings.\<close>

theorem enablement_within_ttl:
  assumes "cache_ok src now c"
  shows "((\<forall>t. now - 30 < t \<and> t \<le> now \<longrightarrow> cr_rule_id (lr_compiled r) \<in> set (rs_disabled (src t)))
       \<longrightarrow> \<not> fst (is_enabled OVERLAY_TTL_SECONDS now (src now) r tenant c))
     \<and> (fst (is_enabled OVERLAY_TTL_SECONDS now (src now) r tenant c)
       \<longrightarrow> (\<exists>t. now - 30 < t \<and> t \<le> now \<and> toggle_value (src t) r tenant))
     \<and> cache_ok src now (snd (is_enabled OVERLAY_TTL_SECONDS now (src now) r tenant c))"
  using is_enabled_fresh [OF assms, of r tenant] cache_ok_is_enabled [OF assms, of r tenant] by blast

definition demo_loaded :: loaded_rule where
  "demo_loaded = \<lparr>lr_compiled = projr (compile_rule demo_lib demo_rule), lr_enabled_default = True\<rparr>"

definition demo_store :: rule_store where
  "demo_store = \<lparr>rs_disabled = [], rs_toggles = (\<lambda>_. [])\<rparr>"

theorem enablement_within_ttl_witness:
  "fst (is_enabled OVERLAY_TTL_SECONDS 5 demo_store demo_loaded ''t1'' new_cache)
   \<and> (\<exists>t. 5 - 30 < t \<and> t \<le> (5 :: rat) \<and> toggle_value demo_store demo_loaded ''t1'')"
proof -
  have on: "fst (is_enabled OVERLAY_TTL_SECONDS 5 demo_store demo_loaded ''t1'' new_cache)" by code_simp
  have "cache_ok (\<lambda>_. demo_store) 5 new_cache" by (rule cache_ok_new) simp
  from enablement_within_ttl [OF this, of demo_loaded "''t1''"] on show ?thesis by simp
qed

text \<open>One tenant cannot switch a rule off. Whenever, after any sequence of recorded evaluations in
  time order, the tracker decides to disable a rule, errors of that rule were recorded for at least
  the configured number of distinct tenants (at least two) within the window, and the decision names that rule.\<close>

theorem auto_disable_multi_tenant:
  assumes "cfg_ok cfg" "sorted (map fst (pre @ [(now, rid, tenant, err)]))"
    and "fst (record_outcome cfg now rid tenant err (snd (track_calls cfg pre new_tracker))) = Some d"
  shows "dd_rule_id d = rid \<and> 2 \<le> tc_min_tenants cfg
     \<and> tc_min_tenants cfg \<le> card (failing_tenants (set (pre @ [(now, rid, tenant, err)])) rid (now - tc_window cfg))"
proof -
  define start where "start = (case pre of [] \<Rightarrow> now | c # _ \<Rightarrow> fst c)"
  have s: "sorted (start # map fst pre)" "last (start # map fst pre) \<le> now"
  proof (atomize (full), cases pre)
    case (Cons c cs)
    have "last (map fst pre) \<in> fst ` set pre" using Cons by (metis last_in_set list.set_map list.distinct(1) map_is_Nil_conv)
    then have "last (map fst pre) \<le> now" using assms(2) by (auto simp: sorted_append)
    then show "sorted (start # map fst pre) \<and> last (start # map fst pre) \<le> now"
      using assms(2) Cons by (simp add: start_def sorted_append)
  qed (simp add: start_def)
  let ?tr = "snd (track_calls cfg pre new_tracker)"
  have ok: "tracker_ok cfg (set pre) (last (start # map fst pre)) ?tr"
    using track_calls_ok [OF assms(1) tracker_ok_new s(1)] by simp
  obtain tr' where "record_outcome cfg now rid tenant err ?tr = (Some d, tr')" using assms(3) by (metis prod.collapse)
  from decision_multi_tenant [OF assms(1) ok s(2) finite_set this] assms(1) show ?thesis
    by (simp add: cfg_ok_def tracker_config_ok_def)
qed

definition small_tracker :: tracker_config where
  "small_tracker = \<lparr>tc_fraction = 1 / 2, tc_min_tenants = 2, tc_min_samples = 2, tc_window = 300, tc_bucket_count = 10\<rparr>"

theorem auto_disable_multi_tenant_witness:
  "\<exists>d. fst (record_outcome small_tracker 40 ''r1'' ''t2'' True
      (snd (track_calls small_tracker [(10, ''r1'', ''t1'', True)] new_tracker))) = Some d
   \<and> tc_min_tenants small_tracker \<le>
      card (failing_tenants (set ([(10, ''r1'', ''t1'', True)] @ [(40, ''r1'', ''t2'', True)])) ''r1'' (40 - tc_window small_tracker))"
proof -
  have "cfg_ok small_tracker" by (simp add: cfg_ok_def tracker_config_ok_def small_tracker_def)
  moreover have "sorted (map fst ([(10 :: rat, ''r1'', ''t1'', True)] @ [(40, ''r1'', ''t2'', True)]))" by simp
  moreover have "fst (record_outcome small_tracker 40 ''r1'' ''t2'' True
      (snd (track_calls small_tracker [(10, ''r1'', ''t1'', True)] new_tracker))) \<noteq> None"
    by code_simp
  then obtain d where "fst (record_outcome small_tracker 40 ''r1'' ''t2'' True
      (snd (track_calls small_tracker [(10, ''r1'', ''t1'', True)] new_tracker))) = Some d" by auto
  ultimately show ?thesis using auto_disable_multi_tenant by metis
qed

text \<open>evaluation errors are isolated per rule. Evaluating a pack on an event yields exactly one hit
  for every enabled rule that applies to the event and whose condition matches, in order, and one
  error record for every such rule whose evaluation raises; no rule's error changes the outcome of
  another rule.\<close>

theorem evaluate_event_isolated:
  assumes "ee_ttl env = OVERLAY_TTL_SECONDS" "is_mapping event"
  shows "er_hits (fst (evaluate_event env pack event tenant st)) =
       map (\<lambda>r. make_hit (ee_lib env) (lp_version pack) (lr_compiled r) event)
         (filter (\<lambda>r. gate env event tenant (en_cache st) r \<and> matches_condition (lr_compiled r) event = Inr True)
            (candidates pack (event_get event ''event_class'')))
   \<and> er_errors (fst (evaluate_event env pack event tenant st)) =
       concat (map (\<lambda>r. case matches_condition (lr_compiled r) event of
              Inl e \<Rightarrow> [(cr_rule_id (lr_compiled r), e)] | Inr _ \<Rightarrow> [])
         (filter (gate env event tenant (en_cache st)) (candidates pack (event_get event ''event_class''))))"
  using evaluate_rules_results [OF assms(1), of tenant "en_cache st" st] assms(2)
  by (simp add: evaluate_event_def empty_result_def same_answers_def)

definition demo_engine_env :: engine_env where
  "demo_engine_env = \<lparr>ee_lib = demo_lib, ee_ttl = 30, ee_now = 5, ee_store = demo_store, ee_tracker_cfg = DEFAULT_TRACKER\<rparr>"

definition demo_engine_state :: engine_state where
  "demo_engine_state = \<lparr>en_cache = new_cache, en_tracker = new_tracker\<rparr>"

definition demo_pack :: loaded_pack where
  "demo_pack = \<lparr>lp_version = ''1.0.0'', lp_by_class = [(''process_activity'', [demo_loaded])], lp_load_errors = []\<rparr>"

theorem evaluate_event_isolated_witness:
  "er_hits (fst (evaluate_event demo_engine_env demo_pack demo_event ''t1'' demo_engine_state)) =
       map (\<lambda>r. make_hit demo_lib ''1.0.0'' (lr_compiled r) demo_event)
         (filter (\<lambda>r. gate demo_engine_env demo_event ''t1'' new_cache r \<and> matches_condition (lr_compiled r) demo_event = Inr True)
            (candidates demo_pack (event_get demo_event ''event_class'')))
   \<and> length (er_hits (fst (evaluate_event demo_engine_env demo_pack demo_event ''t1'' demo_engine_state))) = 1"
proof -
  have "length (er_hits (fst (evaluate_event demo_engine_env demo_pack demo_event ''t1'' demo_engine_state))) = 1"
    by code_simp
  moreover have "ee_ttl demo_engine_env = OVERLAY_TTL_SECONDS" "is_mapping demo_event" by code_simp+
  note evaluate_event_isolated [OF this, of demo_pack "''t1''" demo_engine_state]
  ultimately show ?thesis by (simp add: demo_engine_env_def demo_pack_def demo_engine_state_def)
qed

end
