(* ===== verification/Py_Re.thy ===== *)
theory Py_Re
  imports Soc_Prelude
begin

section \<open>Regular expressions\<close>

text \<open>
  The part of Python's \<^verbatim>\<open>re\<close> that the fixed patterns of the services use: character classes, concatenation, ordered
  alternatives, greedy repetition, word boundaries, lookahead and the two anchors. A pattern is a value of
  \<open>rex\<close>; a position in a text is the character before it and the rest of the text.
  \<open>ends\<close> is the backtracking matcher: the positions where a match can end, in the order the engine tries
  them, so that its first element is the match the engine reports. An iteration of a repetition
  that consumes nothing is not repeated. \<open>matches\<close> is the declarative meaning, and \<open>ends_iff\<close> says that
  the matcher finds exactly the ends it allows.
\<close>

type_synonym re_pos = "char option \<times> string"

datatype rex =
    RChar "char \<Rightarrow> bool"
  | REps
  | RSeq rex rex
  | RAlt rex rex
  | RStar rex
  | RBound
  | RLook rex
  | RBegin
  | REnd

text \<open>\<^verbatim>\<open>\w\<close> on the code points below 256: letters, digits and numerals of Latin-1, and the underscore.\<close>

definition is_word :: "char \<Rightarrow> bool" where
  "is_word c = (let n = (of_char c :: int) in
     (97 \<le> n \<and> n \<le> 122) \<or> (65 \<le> n \<and> n \<le> 90) \<or> (48 \<le> n \<and> n \<le> 57) \<or> n = 95
     \<or> (n \<ge> 170 \<and> (n \<in> {170, 178, 179, 181, 185, 186, 188, 189, 190} \<or> (192 \<le> n \<and> n \<noteq> 215 \<and> n \<noteq> 247))))"

text \<open>The same on the bits of a code point, for evaluation.\<close>

lemma is_word_bits [code]:
  "is_word (Char b0 b1 b2 b3 b4 b5 b6 b7) =
     (if b7 then
        (if b6 then \<not> (b4 \<and> \<not> b3 \<and> b2 \<and> b1 \<and> b0)
         else b5 \<and> (if b4 then (if b3 then (if b2 then \<not> (b1 \<and> b0) else b1 \<noteq> b0) else if b2 then \<not> b1 \<and> b0 else b1)
                    else b3 \<and> \<not> b2 \<and> b1 \<and> \<not> b0))
      else if b6 then
        (if b4 then \<not> (b3 \<and> (b2 \<or> (b1 \<and> b0))) else b3 \<or> b2 \<or> b1 \<or> b0) \<or> (\<not> b5 \<and> b4 \<and> b3 \<and> b2 \<and> b1 \<and> b0)
      else b5 \<and> b4 \<and> (\<not> b3 \<or> (\<not> b2 \<and> \<not> b1)))"
  by (cases b0; cases b1; cases b2; cases b3; cases b4; cases b5; cases b6; cases b7) (simp_all add: is_word_def)

lemma lower_char_bits [code]:
  "lower_char (Char b0 b1 b2 b3 b4 b5 b6 b7) =
     Char b0 b1 b2 b3 b4 (b5 \<or> b6 \<and> (if b7 then \<not> (b4 \<and> b2 \<and> b1 \<and> b0)
       else if b4 then \<not> (b3 \<and> (b2 \<or> (b1 \<and> b0))) else b3 \<or> b2 \<or> b1 \<or> b0)) b6 b7"
  by (cases b0; cases b1; cases b2; cases b3; cases b4; cases b5; cases b6; cases b7)
    (simp_all add: lower_char_def char_of_def bit_simps)

definition at_boundary :: "re_pos \<Rightarrow> bool" where
  "at_boundary p = (case p of (prev, rest) \<Rightarrow>
     (case prev of None \<Rightarrow> False | Some c \<Rightarrow> is_word c) \<noteq> (case rest of [] \<Rightarrow> False | c # _ \<Rightarrow> is_word c))"

text \<open>\<^verbatim>\<open>$\<close> holds at the end and before a newline that ends the text.\<close>

definition at_end :: "re_pos \<Rightarrow> bool" where
  "at_end p = (snd p = [] \<or> snd p = [newline])"

subsection \<open>The matcher\<close>

fun star_ends :: "nat \<Rightarrow> (re_pos \<Rightarrow> re_pos list) \<Rightarrow> re_pos \<Rightarrow> re_pos list" where
  "star_ends 0 f p = [p]"
| "star_ends (Suc n) f p =
     concat (map (star_ends n f) (filter (\<lambda>q. length (snd q) < length (snd p)) (f p))) @ [p]"

fun ends :: "rex \<Rightarrow> re_pos \<Rightarrow> re_pos list" where
  "ends (RChar P) p = (case snd p of [] \<Rightarrow> [] | c # cs \<Rightarrow> if P c then [(Some c, cs)] else [])"
| "ends REps p = [p]"
| "ends (RSeq a b) p = concat (map (ends b) (ends a p))"
| "ends (RAlt a b) p = ends a p @ ends b p"
| "ends (RStar a) p = star_ends (length (snd p)) (ends a) p"
| "ends RBound p = (if at_boundary p then [p] else [])"
| "ends (RLook a) p = (if ends a p \<noteq> [] then [p] else [])"
| "ends RBegin p = (if fst p = None then [p] else [])"
| "ends REnd p = (if at_end p then [p] else [])"

definition match_end :: "rex \<Rightarrow> re_pos \<Rightarrow> re_pos option" where
  "match_end r p = (case ends r p of [] \<Rightarrow> None | q # _ \<Rightarrow> Some q)"

text \<open>\<^verbatim>\<open>search\<close>, \<^verbatim>\<open>findall\<close> and \<^verbatim>\<open>sub\<close>. The last two are for patterns that match no empty text (\<open>min_width\<close>
  below is positive); the text between matches is copied by \<^verbatim>\<open>sub\<close>.\<close>

fun search_from :: "rex \<Rightarrow> char option \<Rightarrow> string \<Rightarrow> bool" where
  "search_from r prev [] = (match_end r (prev, []) \<noteq> None)"
| "search_from r prev (c # cs) = (match_end r (prev, c # cs) \<noteq> None \<or> search_from r (Some c) cs)"

definition search :: "rex \<Rightarrow> string \<Rightarrow> bool" where
  "search r s = search_from r None s"

definition match :: "rex \<Rightarrow> string \<Rightarrow> bool" where
  "match r s = (match_end r (None, s) \<noteq> None)"

text \<open>The text split into its matches (\<open>Inr\<close>) and the characters outside them (\<open>Inl\<close>).\<close>

function scan :: "rex \<Rightarrow> re_pos \<Rightarrow> (char + string) list" where
  "scan r p =
     (case snd p of
        [] \<Rightarrow> []
      | c # cs \<Rightarrow>
          (case match_end r p of
             Some q \<Rightarrow>
               if length (snd q) < length (snd p)
               then Inr (take (length (snd p) - length (snd q)) (snd p)) # scan r q
               else Inl c # scan r (Some c, cs)
           | None \<Rightarrow> Inl c # scan r (Some c, cs)))"
  by pat_completeness auto
termination by (relation "measure (\<lambda>(r, p). length (snd p))") auto

declare scan.simps [simp del]

definition findall :: "rex \<Rightarrow> string \<Rightarrow> string list" where
  "findall r s = concat (map (\<lambda>x. case x of Inl _ \<Rightarrow> [] | Inr m \<Rightarrow> [m]) (scan r (None, s)))"

definition re_sub :: "rex \<Rightarrow> string \<Rightarrow> string \<Rightarrow> string" where
  "re_sub r repl s = concat (map (\<lambda>x. case x of Inl c \<Rightarrow> [c] | Inr _ \<Rightarrow> repl) (scan r (None, s)))"

subsection \<open>Pattern notation\<close>

definition is_char :: "char \<Rightarrow> char \<Rightarrow> bool" where
  "is_char c x = (x = c)"

definition is_ichar :: "char \<Rightarrow> char \<Rightarrow> bool" where
  "is_ichar c x = (x = c \<or> lower_char x = c)"

fun r_lit :: "string \<Rightarrow> rex" where
  "r_lit [] = REps"
| "r_lit [c] = RChar (is_char c)"
| "r_lit (c # cs) = RSeq (RChar (is_char c)) (r_lit cs)"

text \<open>A literal under \<^verbatim>\<open>re.IGNORECASE\<close>, written in lower case.\<close>

fun r_ilit :: "string \<Rightarrow> rex" where
  "r_ilit [] = REps"
| "r_ilit [c] = RChar (is_ichar c)"
| "r_ilit (c # cs) = RSeq (RChar (is_ichar c)) (r_ilit cs)"

fun r_seq :: "rex list \<Rightarrow> rex" where
  "r_seq [] = REps"
| "r_seq [r] = r"
| "r_seq (r # rs) = RSeq r (r_seq rs)"

fun r_alts :: "rex list \<Rightarrow> rex" where
  "r_alts [] = RChar (\<lambda>_. False)"
| "r_alts [r] = r"
| "r_alts (r # rs) = RAlt r (r_alts rs)"

definition r_opt :: "rex \<Rightarrow> rex" where
  "r_opt r = RAlt r REps"

definition r_plus :: "rex \<Rightarrow> rex" where
  "r_plus r = RSeq r (RStar r)"

text \<open>\<^verbatim>\<open>r{n,}\<close>\<close>

definition r_atleast :: "nat \<Rightarrow> rex \<Rightarrow> rex" where
  "r_atleast n r = foldr RSeq (replicate n r) (RStar r)"

definition r_words :: rex where
  "r_words = RStar (RChar is_word)"

text \<open>\<^verbatim>\<open>\bword\b\<close>, ignoring case\<close>

definition r_iword :: "string \<Rightarrow> rex" where
  "r_iword s = r_seq [RBound, r_ilit s, RBound]"

subsection \<open>Meaning\<close>

primrec matches :: "rex \<Rightarrow> re_pos \<Rightarrow> re_pos \<Rightarrow> bool" where
  "matches (RChar P) = (\<lambda>p q. \<exists>c. P c \<and> snd p = c # snd q \<and> fst q = Some c)"
| "matches REps = (=)"
| "matches (RSeq a b) = matches a OO matches b"
| "matches (RAlt a b) = (\<lambda>p q. matches a p q \<or> matches b p q)"
| "matches (RStar a) = (matches a)\<^sup>*\<^sup>*"
| "matches RBound = (\<lambda>p q. p = q \<and> at_boundary p)"
| "matches (RLook a) = (\<lambda>p q. p = q \<and> (\<exists>p'. matches a p p'))"
| "matches RBegin = (\<lambda>p q. p = q \<and> fst p = None)"
| "matches REnd = (\<lambda>p q. p = q \<and> at_end p)"

text \<open>A match only moves forward: it stays where it is or consumes a prefix of the rest.\<close>

definition forward :: "re_pos \<Rightarrow> re_pos \<Rightarrow> bool" where
  "forward p q \<longleftrightarrow> p = q \<or> (\<exists>u c. snd p = u @ [c] @ snd q \<and> fst q = Some c)"

lemma forward_refl [simp]: "forward p p"
  by (simp add: forward_def)

lemma forward_trans: "forward p q \<Longrightarrow> forward q s \<Longrightarrow> forward p s"
  by (auto simp: forward_def)

lemma forward_shorter: "forward p q \<Longrightarrow> p = q \<or> length (snd q) < length (snd p)"
  by (auto simp: forward_def)

lemma matches_forward: "matches r p q \<Longrightarrow> forward p q"
proof (induction r arbitrary: p q)
  case (RChar P)
  then show ?case by (auto simp: forward_def)
next
  case (RSeq a b)
  then obtain m where "matches a p m" "matches b m q" by (auto simp: relcompp_apply)
  then show ?case by (rule forward_trans [OF RSeq.IH])
next
  case (RStar a)
  from RStar.prems have "(matches a)\<^sup>*\<^sup>* p q" by simp
  then show ?case by induction (auto intro: forward_trans RStar.IH)
qed auto

lemma star_ends_sound:
  assumes "\<And>p q. q \<in> set (f p) \<Longrightarrow> R p q"
  shows "q \<in> set (star_ends n f p) \<Longrightarrow> R\<^sup>*\<^sup>* p q"
  by (induction n arbitrary: p) (auto intro: converse_rtranclp_into_rtranclp assms)

lemma star_ends_complete:
  assumes "\<And>p q. R p q \<Longrightarrow> q \<in> set (f p)" "\<And>p q. R p q \<Longrightarrow> forward p q"
  shows "R\<^sup>*\<^sup>* p q \<Longrightarrow> length (snd p) \<le> n \<Longrightarrow> q \<in> set (star_ends n f p)"
proof (induction n arbitrary: p)
  case 0
  from 0(1) have "forward p q" by induction (auto intro: forward_trans assms(2))
  with 0(2) show ?case by (auto dest!: forward_shorter)
next
  case (Suc n)
  have "p = q \<or> (\<exists>p'. R p p' \<and> p' \<noteq> p \<and> R\<^sup>*\<^sup>* p' q)"
    using Suc.prems(1) by (induction rule: converse_rtranclp_induct) auto
  then show ?case
  proof (elim disjE exE conjE)
    fix p' assume p': "R p p'" "p' \<noteq> p" "R\<^sup>*\<^sup>* p' q"
    then have shorter: "length (snd p') < length (snd p)" using assms(2) forward_shorter by metis
    with Suc.IH [OF p'(3)] Suc.prems(2) have "q \<in> set (star_ends n f p')" by simp
    moreover have "p' \<in> set (filter (\<lambda>q. length (snd q) < length (snd p)) (f p))" using assms(1) [OF p'(1)] shorter by simp
    ultimately have "q \<in> set (concat (map (star_ends n f) (filter (\<lambda>q. length (snd q) < length (snd p)) (f p))))"
      unfolding set_concat set_map by (metis UN_I imageI)
    then show ?case by simp
  qed simp
qed

theorem ends_iff: "q \<in> set (ends r p) \<longleftrightarrow> matches r p q"
proof (induction r arbitrary: p q)
  case (RChar P)
  then show ?case by (cases p; cases q; cases "snd p") auto
next
  case (RStar a)
  show ?case
    using star_ends_sound [of "ends a" "matches a" q "length (snd p)" p]
      star_ends_complete [of "matches a" "ends a" p q "length (snd p)"] RStar.IH
    by (auto intro: matches_forward)
next
  case (RLook a)
  have "(ends a p \<noteq> []) = (\<exists>p'. p' \<in> set (ends a p))" by (cases "ends a p") auto
  then show ?case by (auto simp: RLook.IH)
qed auto

subsection \<open>Width\<close>

fun min_width :: "rex \<Rightarrow> nat" where
  "min_width (RChar P) = 1"
| "min_width (RSeq a b) = min_width a + min_width b"
| "min_width (RAlt a b) = min (min_width a) (min_width b)"
| "min_width _ = 0"

lemma matches_width: "matches r p q \<Longrightarrow> length (snd q) + min_width r \<le> length (snd p)"
proof (induction r arbitrary: p q)
  case (RStar a)
  then show ?case using matches_forward [of "RStar a" p q] by (auto dest!: forward_shorter)
qed fastforce+

text \<open>Splitting loses nothing: the characters and matches put together are the text.\<close>

lemma match_end_forward: "match_end r p = Some q \<Longrightarrow> forward p q"
  by (auto simp: match_end_def split: list.splits dest!: arg_cong [where f = set]
      intro!: matches_forward [of r] simp flip: ends_iff)

lemma scan_concat: "concat (map (\<lambda>x. case x of Inl c \<Rightarrow> [c] | Inr m \<Rightarrow> m) (scan r p)) = snd p"
proof (induction r p rule: scan.induct)
  case (1 r p)
  show ?case
  proof (cases "snd p")
    case (Cons c cs)
    show ?thesis
    proof (cases "\<exists>q. match_end r p = Some q \<and> length (snd q) < length (snd p)")
      case True
      then obtain q where q: "match_end r p = Some q" "length (snd q) < length (snd p)" by blast
      then obtain u where u: "snd p = u @ snd q"
        using match_end_forward [OF q(1)] by (auto simp: forward_def)
      have "scan r p = Inr (take (length (snd p) - length (snd q)) (snd p)) # scan r q"
        by (subst scan.simps) (use q Cons in simp)
      with "1.IH"(2) [OF Cons q(1) q(2)] u show ?thesis by simp
    next
      case False
      then have "scan r p = Inl c # scan r (Some c, cs)"
        by (subst scan.simps) (use Cons in \<open>auto split: option.splits\<close>)
      moreover have "concat (map (\<lambda>x. case x of Inl c \<Rightarrow> [c] | Inr m \<Rightarrow> m) (scan r (Some c, cs))) = cs"
        using "1.IH"(1,3) False Cons by (cases "match_end r p") auto
      ultimately show ?thesis using Cons by simp
    qed
  qed (simp add: scan.simps)
qed

lemma search_iff:
  "search_from r prev s \<longleftrightarrow> (\<exists>u v q. s = u @ v \<and> matches r (if u = [] then prev else Some (last u), v) q)"
proof (induction s arbitrary: prev)
  case Nil
  have "match_end r (prev, []) \<noteq> None \<longleftrightarrow> (\<exists>q. matches r (prev, []) q)"
    by (auto simp: match_end_def simp flip: ends_iff split: list.splits)
  then show ?case by auto
next
  case (Cons c cs)
  have here: "match_end r (prev, c # cs) \<noteq> None \<longleftrightarrow> (\<exists>q. matches r (prev, c # cs) q)"
    by (auto simp: match_end_def simp flip: ends_iff split: list.splits)
  show ?case
  proof
    assume "search_from r prev (c # cs)"
    then consider q where "matches r (prev, c # cs) q"
      | u v q where "cs = u @ v" "matches r (if u = [] then Some c else Some (last u), v) q"
      using here Cons.IH by auto
    then show "\<exists>u v q. c # cs = u @ v \<and> matches r (if u = [] then prev else Some (last u), v) q"
    proof cases
      case 1
      then show ?thesis by (intro exI [of _ "[]"] exI [of _ "c # cs"] exI [of _ q]) simp
    next
      case (2 u v q)
      then show ?thesis by (intro exI [of _ "c # u"] exI [of _ v] exI [of _ q]) (auto split: if_splits)
    qed
  next
    assume "\<exists>u v q. c # cs = u @ v \<and> matches r (if u = [] then prev else Some (last u), v) q"
    then obtain u v q where h: "c # cs = u @ v" "matches r (if u = [] then prev else Some (last u), v) q" by blast
    show "search_from r prev (c # cs)"
    proof (cases u)
      case Nil
      with h have "matches r (prev, c # cs) q" by simp
      then have "match_end r (prev, c # cs) \<noteq> None" using here by blast
      then show ?thesis by simp
    next
      case (Cons d u')
      with h have "cs = u' @ v \<and> matches r (if u' = [] then Some c else Some (last u'), v) q" by auto
      then have "search_from r (Some c) cs" unfolding Cons.IH by blast
      then show ?thesis by simp
    qed
  qed
qed

end
