(* ===== verification/Triage_Output.thy ===== *)
theory Triage_Output
  imports Scoring Py_Re
begin

section \<open>Triage: what goes into the prompt and what is accepted from the model\<close>

text \<open>
  The pure parts of \<^verbatim>\<open>dataplane/triage\<close>: trimming of events before they may enter a prompt
  (\<^verbatim>\<open>context.py\<close>), the strict parser and the validator of the model's reply (\<^verbatim>\<open>validator.py\<close>) and the price
  table (\<^verbatim>\<open>pricing.py\<close>). The patterns of the code are values of \<open>rex\<close>, run by the matcher of \<open>Py_Re\<close>; \<open>loads\<close> is
  \<^verbatim>\<open>json.loads\<close>, \<open>None\<close> for a \<^verbatim>\<open>JSONDecodeError\<close>. The truncation mark starts with a code point above 255,
  which the character type does not have: it is the argument \<open>mark\<close>.
\<close>

subsection \<open>Character classes\<close>

definition in_range :: "char \<Rightarrow> char \<Rightarrow> char \<Rightarrow> bool" where
  "in_range lo hi c = (let n = (of_char c :: int) in of_char lo \<le> n \<and> n \<le> of_char hi)"

definition c_lower :: "char \<Rightarrow> bool" where "c_lower c = in_range (CHR ''a'') (CHR ''z'') c"

definition c_digit :: "char \<Rightarrow> bool" where "c_digit c = in_range (CHR ''0'') (CHR ''9'') c"

definition c_lower_digit :: "char \<Rightarrow> bool" where "c_lower_digit c = (c_lower c \<or> c_digit c)"

definition c_lower_digit_dash :: "char \<Rightarrow> bool" where "c_lower_digit_dash c = (c_lower_digit c \<or> c = CHR ''-'')"

definition c_account :: "char \<Rightarrow> bool" where "c_account c = (c_lower_digit c \<or> c = CHR ''_'' \<or> c = CHR ''-'')"

definition c_account_dot :: "char \<Rightarrow> bool" where "c_account_dot c = (c_account c \<or> c = CHR ''.'')"

definition c_letter :: "char \<Rightarrow> bool" where "c_letter c = (c_lower c \<or> in_range (CHR ''A'') (CHR ''Z'') c)"

definition c_base64 :: "char \<Rightarrow> bool" where
  "c_base64 c = (c_letter c \<or> c_digit c \<or> c = CHR ''+'' \<or> c = CHR ''/'' \<or> c = CHR ''='')"

definition c_hex :: "char \<Rightarrow> bool" where
  "c_hex c = (c_digit c \<or> in_range (CHR ''a'') (CHR ''f'') c \<or> in_range (CHR ''A'') (CHR ''F'') c)"

definition c_dash_space :: "char \<Rightarrow> bool" where "c_dash_space c = (c = CHR '' '' \<or> c = CHR ''-'')"

subsection \<open>Trimming\<close>

definition DROPPED_EVENT_KEYS :: "string list" where
  "DROPPED_EVENT_KEYS = [''raw'', ''unmapped'', ''batch_id'', ''tenant_id'', ''source'']"

text \<open>\<^verbatim>\<open>[A-Za-z0-9+/=]{64,}|\b[0-9a-fA-F]{40,}\b\<close>\<close>

definition BLOB_RE :: rex where
  "BLOB_RE = RAlt (r_atleast 64 (RChar c_base64)) (r_seq [RBound, r_atleast 40 (RChar c_hex), RBound])"

definition BLOB_PLACEHOLDER :: string where "BLOB_PLACEHOLDER = ''[blob-removed]''"

definition trim_string :: "string \<Rightarrow> nat \<Rightarrow> string \<Rightarrow> string" where
  "trim_string mark max_chars s =
     (let scrubbed = re_sub BLOB_RE BLOB_PLACEHOLDER s in
      if length scrubbed > max_chars then take max_chars scrubbed @ mark else scrubbed)"

lemma size_take [termination_simp]: "x \<in> set (take n vs) \<Longrightarrow> size x < Suc (size_list size vs)"
  by (meson in_set_takeD less_Suc_eq size_list_estimation lessI order_refl le_imp_less_Suc size_list_estimation')

fun trim_value :: "string \<Rightarrow> nat \<Rightarrow> json \<Rightarrow> json" where
  "trim_value mark n (JStr s) = JStr (trim_string mark n s)"
| "trim_value mark n (JObj d) =
     JObj (map (\<lambda>(k, v). (k, trim_value mark n v)) (filter (\<lambda>(k, v). k \<notin> set DROPPED_EVENT_KEYS) d))"
| "trim_value mark n (JList vs) = JList (map (trim_value mark n) (take 16 vs))"
| "trim_value mark n v = v"

definition trim_event :: "string \<Rightarrow> nat \<Rightarrow> obj \<Rightarrow> obj" where
  "trim_event mark n event = (case trim_value mark n (JObj event) of JObj d \<Rightarrow> d | _ \<Rightarrow> [])"

subsection \<open>Parsing the reply\<close>

datatype parse_error = NoObject | InvalidJson | NotAnObject | MissingSummary | BadSeverity

record triage_output =
  to_summary :: string
  to_ai_severity :: string

text \<open>\<^verbatim>\<open>^```[a-zA-Z]*\s*|\s*```$\<close>\<close>

definition FENCE_RE :: rex where
  "FENCE_RE = RAlt (r_seq [RBegin, r_lit ''```'', RStar (RChar c_letter), RStar (RChar is_space)])
                   (r_seq [RStar (RChar is_space), r_lit ''```'', REnd])"

definition find_char :: "char \<Rightarrow> string \<Rightarrow> nat option" where
  "find_char c s = (if c \<in> set s then Some (length (takeWhile (\<lambda>x. x \<noteq> c) s)) else None)"

definition rfind_char :: "char \<Rightarrow> string \<Rightarrow> nat option" where
  "rfind_char c s = map_option (\<lambda>i. length s - 1 - i) (find_char c (rev s))"

definition json_part :: "string \<Rightarrow> string option" where
  "json_part candidate =
     (case (find_char (CHR ''{'') candidate, rfind_char (CHR ''}'') candidate) of
        (Some start, Some stop) \<Rightarrow> if stop \<le> start then None else Some (take (stop + 1 - start) (drop start candidate))
      | _ \<Rightarrow> None)"

definition parse_model_output :: "(string \<Rightarrow> json option) \<Rightarrow> string \<Rightarrow> parse_error + triage_output" where
  "parse_model_output loads text =
     (let stripped = py_strip text;
          candidate = (if starts_with stripped ''```'' then py_strip (re_sub FENCE_RE [] stripped) else stripped) in
      case json_part candidate of
        None \<Rightarrow> Inl NoObject
      | Some part \<Rightarrow>
          (case loads part of
             None \<Rightarrow> Inl InvalidJson
           | Some (JObj d) \<Rightarrow>
               (case obj_get d ''summary'' of
                  JStr summary \<Rightarrow>
                    if py_strip summary = [] then Inl MissingSummary
                    else (case obj_get d ''ai_severity'' of
                        JStr sev \<Rightarrow>
                          if py_lower sev \<notin> set SEVERITIES then Inl BadSeverity
                          else Inr \<lparr>to_summary = summary, to_ai_severity = py_lower sev\<rparr>
                      | _ \<Rightarrow> Inl BadSeverity)
                | _ \<Rightarrow> Inl MissingSummary)
           | Some _ \<Rightarrow> Inl NotAnObject))"

subsection \<open>Validating the summary\<close>

definition MAX_TOTAL_WORDS :: nat where "MAX_TOTAL_WORDS = 120"

definition LINE_PREFIXES :: "string list" where
  "LINE_PREFIXES = [''What happened: '', ''Why it matters: '', ''Do this next: '']"

definition FORMAT_DENYLIST :: "string list" where
  "FORMAT_DENYLIST = [''`'', ''**'', ''# '', '']('', ''http://'', ''https://'', ''!'']"

definition BANNED_TERMS :: "(string \<times> rex) list" where
  "BANNED_TERMS = [
     (''lateral movement'', r_iword ''lateral movement''),
     (''C2 / command and control'', r_alts [r_iword ''c2'', r_seq [RBound, r_ilit ''command'', RChar c_dash_space, r_ilit ''and'', RChar c_dash_space, r_ilit ''control'', RBound]]),
     (''beaconing / callback'', r_alts [r_seq [RBound, r_ilit ''beacon'', r_opt (RAlt (r_ilit ''ing'') (r_ilit ''s'')), RBound], r_seq [RBound, r_ilit ''callback'', r_opt (r_ilit ''s''), RBound]]),
     (''exfiltration'', r_seq [RBound, r_ilit ''exfiltrat'', r_words, RBound]),
     (''persistence'', r_iword ''persistence''),
     (''privilege escalation'', r_iword ''privilege escalation''),
     (''credential dumping/access'', r_seq [RBound, r_ilit ''credential '', RAlt (RSeq (r_ilit ''dump'') r_words) (r_ilit ''access''), RBound]),
     (''brute force'', r_seq [RBound, r_ilit ''brute'', RChar c_dash_space, r_ilit ''force'', r_words, RBound]),
     (''payload/dropper/implant/RAT'', r_alts [r_seq [RBound, r_ilit ''payload'', r_opt (r_ilit ''s''), RBound], r_seq [RBound, r_ilit ''dropper'', r_opt (r_ilit ''s''), RBound], r_seq [RBound, r_ilit ''implant'', r_opt (r_ilit ''s''), RBound], r_seq [RBound, r_ilit ''rat'', r_opt (r_ilit ''s''), RBound]]),
     (''reverse shell / shell access'', r_alts [r_iword ''reverse shell'', r_iword ''shell access'']),
     (''obfuscated/encoded'', r_alts [r_seq [RBound, r_ilit ''obfuscat'', r_words, RBound], r_iword ''encoded'']),
     (''process injection'', r_iword ''process injection''),
     (''living off the land / LOLBin'', r_alts [r_iword ''living off the land'', r_seq [RBound, r_ilit ''lolbin'', r_opt (r_ilit ''s''), RBound]]),
     (''enumeration/recon/discovery'', r_alts [r_seq [RBound, r_ilit ''enumerat'', r_words, RBound], r_iword ''recon'', r_iword ''discovery'']),
     (''IOC / indicator'', r_alts [r_seq [RBound, r_ilit ''ioc'', r_opt (r_ilit ''s''), RBound], r_seq [RBound, r_ilit ''indicator'', r_opt (r_ilit ''s''), RBound]]),
     (''threat actor/adversary/TTP'', r_alts [r_seq [RBound, r_ilit ''threat actor'', r_opt (r_ilit ''s''), RBound], r_seq [RBound, r_ilit ''adversar'', RAlt (r_ilit ''y'') (r_ilit ''ies''), RBound], r_seq [RBound, r_ilit ''ttp'', r_opt (r_ilit ''s''), RBound]]),
     (''endpoint/host as nouns'', r_alts [r_seq [RBound, r_ilit ''endpoint'', r_opt (r_ilit ''s''), RBound], r_seq [RBound, r_ilit ''host'', r_opt (r_ilit ''s''), RBound]]),
     (''compromised'', r_iword ''compromised''),
     (''mitigate/remediate'', r_alts [r_seq [RBound, r_ilit ''mitigat'', r_words, RBound], r_seq [RBound, r_ilit ''remediat'', r_words, RBound]]),
     (''exploit (verb)'', r_seq [RBound, r_ilit ''exploit'', r_words, RBound]),
     (''zero-day / CVE'', r_alts [r_seq [RBound, r_ilit ''zero'', RChar c_dash_space, r_ilit ''day'', r_opt (r_ilit ''s''), RBound], r_seq [RBound, r_ilit ''cve-'', r_plus (RChar c_digit)]])]"

definition PHISHING :: rex where "PHISHING = r_iword ''phishing''"

definition TRICK :: rex where "TRICK = RSeq RBound (r_ilit ''trick'')"

text \<open>\<^verbatim>\<open>\b(?=[a-z0-9-]*\d)[a-z][a-z0-9]*(?:-[a-z0-9]+)+\b\<close>\<close>

definition HOSTLIKE :: rex where
  "HOSTLIKE = r_seq [RBound, RLook (RSeq (RStar (RChar c_lower_digit_dash)) (RChar c_digit)),
     RChar c_lower, RStar (RChar c_lower_digit), r_plus (RSeq (r_lit ''-'') (r_plus (RChar c_lower_digit))), RBound]"

text \<open>\<^verbatim>\<open>\b[a-z][a-z0-9_-]*\.[a-z][a-z0-9._-]*[a-z0-9]\b\<close>\<close>

definition USERLIKE :: rex where
  "USERLIKE = r_seq [RBound, RChar c_lower, RStar (RChar c_account), r_lit ''.'',
     RChar c_lower, RStar (RChar c_account_dot), RChar c_lower_digit, RBound]"

text \<open>\<^verbatim>\<open>[A-Za-z0-9+/=]{40,}|\b[0-9a-fA-F]{32,}\b\<close>\<close>

definition BLOBLIKE :: rex where
  "BLOBLIKE = RAlt (r_atleast 40 (RChar c_base64)) (r_seq [RBound, r_atleast 32 (RChar c_hex), RBound])"

definition EMOJI_RANGES :: "(int \<times> int) list" where
  "EMOJI_RANGES = [(0x1F000, 0x1FAFF), (0x2600, 0x27BF), (0x2B00, 0x2BFF), (0xFE00, 0xFE0F)]"

text \<open>The patterns given to \<^verbatim>\<open>findall\<close> and \<^verbatim>\<open>sub\<close> match no empty text.\<close>

lemma patterns_consume: "list_all (\<lambda>r. 0 < min_width r) [BLOB_RE, FENCE_RE, HOSTLIKE, USERLIKE]"
  by (simp add: BLOB_RE_def FENCE_RE_def HOSTLIKE_def USERLIKE_def r_atleast_def r_plus_def numeral_eq_Suc)

datatype check_error =
    LineCount nat
  | LineShape string
  | TooLong
  | BannedSequence string
  | Emoji
  | BannedTerm string
  | UnglossedPhishing
  | UnknownHost string
  | UnknownUser string
  | Blob

text \<open>\<^verbatim>\<open>s.split()\<close>: the maximal runs of non-space characters.\<close>

fun py_words_from :: "string \<Rightarrow> string \<Rightarrow> string list" where
  "py_words_from cur [] = (if cur = [] then [] else [rev cur])"
| "py_words_from cur (c # cs) =
     (if is_space c then (if cur = [] then py_words_from [] cs else rev cur # py_words_from [] cs)
      else py_words_from (c # cur) cs)"

definition py_words :: "string \<Rightarrow> string list" where
  "py_words s = py_words_from [] s"

fun split_sentences :: "string \<Rightarrow> string list" where
  "split_sentences [] = [[]]"
| "split_sentences (c # cs) =
     (if c = CHR ''.'' \<or> c = CHR ''?'' then [] # split_sentences cs
      else (case split_sentences cs of [] \<Rightarrow> [[c]] | x # xs \<Rightarrow> (c # x) # xs))"

definition line_ok :: "string \<Rightarrow> string \<Rightarrow> bool" where
  "line_ok prefix line = (starts_with line prefix \<and>
     (case drop (length prefix) line of [] \<Rightarrow> False | c # _ \<Rightarrow> \<not> is_space c))"

definition structure_errors :: "string \<Rightarrow> check_error list" where
  "structure_errors summary =
     (let lines = py_split newline summary in
      if length lines \<noteq> 3 then [LineCount (length lines)]
      else concat (map (\<lambda>(p, l). if line_ok p l then [] else [LineShape p]) (zip LINE_PREFIXES lines)))"

definition present :: "string option \<Rightarrow> string list" where
  "present v = (case v of None \<Rightarrow> [] | Some s \<Rightarrow> if s = [] then [] else [s])"

definition validate_summary :: "string \<Rightarrow> string option \<Rightarrow> string option \<Rightarrow> check_error list" where
  "validate_summary summary entity_hostname entity_user =
     (let allowed = present entity_hostname @ present entity_user in
      structure_errors summary
    @ (if length (py_words summary) > MAX_TOTAL_WORDS then [TooLong] else [])
    @ concat (map (\<lambda>t. if str_contains summary t then [BannedSequence t] else []) FORMAT_DENYLIST)
    @ (if list_ex (\<lambda>ch. list_ex (\<lambda>(a, b). a \<le> of_char ch \<and> of_char ch \<le> b) EMOJI_RANGES) summary then [Emoji] else [])
    @ concat (map (\<lambda>(label, pattern). if search pattern summary then [BannedTerm label] else []) BANNED_TERMS)
    @ concat (map (\<lambda>sn. if search PHISHING sn \<and> \<not> search TRICK sn then [UnglossedPhishing] else []) (split_sentences summary))
    @ concat (map (\<lambda>m. if m \<notin> set allowed then [UnknownHost m] else []) (findall HOSTLIKE summary))
    @ concat (map (\<lambda>m. if m \<notin> set allowed then [UnknownUser m] else []) (findall USERLIKE summary))
    @ (if search BLOBLIKE summary then [Blob] else []))"

subsection \<open>Prices\<close>

definition DEFAULT_PRICES :: "(string \<times> rat \<times> rat) list" where
  "DEFAULT_PRICES = [(''claude-haiku-4-5'', 1, 5), (''claude-sonnet-4-5'', 3, 15), (''fake-triage'', 0, 0)]"

definition FALLBACK :: "rat \<times> rat" where "FALLBACK = (3, 15)"

text \<open>The overrides are the decoded \<^verbatim>\<open>TRIAGE_PRICING_JSON\<close>.\<close>

definition price_table :: "(string \<times> rat \<times> rat) list \<Rightarrow> (string \<times> rat \<times> rat) list" where
  "price_table overrides = foldl (\<lambda>d (k, v). AList.update k v d) DEFAULT_PRICES overrides"

text \<open>\<^verbatim>\<open>Decimal.quantize\<close> to six places rounds half to even.\<close>

definition quantize6 :: "rat \<Rightarrow> rat" where
  "quantize6 x =
     (let y = x * 1000000; n = floor y; r = y - of_int n in
      of_int (if r < 1 / 2 then n else if r > 1 / 2 then n + 1 else if even n then n else n + 1) / 1000000)"

definition rates_for :: "(string \<times> rat \<times> rat) list \<Rightarrow> string \<Rightarrow> rat \<times> rat" where
  "rates_for table model_id =
     (case find (\<lambda>(p, r). starts_with model_id p) (sort_key (\<lambda>(p, r). - int (length p)) table) of
        Some (p, r) \<Rightarrow> r | None \<Rightarrow> FALLBACK)"

definition cost_usd :: "(string \<times> rat \<times> rat) list \<Rightarrow> string \<Rightarrow> nat \<Rightarrow> nat \<Rightarrow> rat" where
  "cost_usd overrides model_id tokens_in tokens_out =
     (case rates_for (price_table overrides) model_id of
        (rin, rout) \<Rightarrow> quantize6 ((of_nat tokens_in * rin + of_nat tokens_out * rout) / 1000000))"

subsection \<open>The trimmed context is bounded\<close>

text \<open>No dropped key at any depth, no list longer than 16, no string longer than the cap and the mark.\<close>

fun bounded_value :: "nat \<Rightarrow> json \<Rightarrow> bool" where
  "bounded_value n (JStr s) = (length s \<le> n)"
| "bounded_value n (JObj d) = (list_all (\<lambda>(k, v). k \<notin> set DROPPED_EVENT_KEYS \<and> bounded_value n v) d)"
| "bounded_value n (JList vs) = (length vs \<le> 16 \<and> list_all (bounded_value n) vs)"
| "bounded_value n v = True"

lemma trim_string_bounded: "length (trim_string mark n s) \<le> n + length mark"
  by (simp add: trim_string_def Let_def)

lemma trim_value_bounded: "bounded_value (n + length mark) (trim_value mark n v)"
proof (induction mark n v rule: trim_value.induct)
  case (1 mark n s)
  then show ?case by (simp add: trim_string_bounded)
next
  case (2 mark n d)
  then show ?case by (fastforce simp: list_all_iff)
next
  case (3 mark n vs)
  then show ?case by (simp add: list_all_iff)
qed simp_all

text \<open>A validated summary has the three labelled lines and at most 120 words, none of the banned
  sequences, and names no host or account but the alert's.\<close>

definition well_formed_summary :: "string option \<Rightarrow> string option \<Rightarrow> string \<Rightarrow> bool" where
  "well_formed_summary host user s \<longleftrightarrow>
     (\<exists>a b c. s = ''What happened: '' @ a @ [newline] @ ''Why it matters: '' @ b @ [newline] @ ''Do this next: '' @ c
        \<and> a \<noteq> [] \<and> b \<noteq> [] \<and> c \<noteq> [])
     \<and> length (py_words s) \<le> 120
     \<and> (\<forall>t \<in> set FORMAT_DENYLIST. \<not> (\<exists>x y. s = x @ t @ y))
     \<and> (\<forall>(label, pattern) \<in> set BANNED_TERMS. \<not> search pattern s)
     \<and> (\<forall>m \<in> set (findall HOSTLIKE s) \<union> set (findall USERLIKE s). Some m = host \<or> Some m = user)
     \<and> \<not> search BLOBLIKE s"

lemma line_okD: "line_ok p l \<Longrightarrow> \<exists>r. l = p @ r \<and> r \<noteq> []"
  by (auto simp: line_ok_def starts_with_iff)

lemma concat_map_Nil_iff: "concat (map f xs) = [] \<longleftrightarrow> (\<forall>x \<in> set xs. f x = [])"
  by auto

lemma validated_summary:
  assumes "validate_summary s host user = []"
  shows "well_formed_summary host user s"
proof -
  have e: "structure_errors s = []" "length (py_words s) \<le> 120"
      "\<And>t. t \<in> set FORMAT_DENYLIST \<Longrightarrow> \<not> str_contains s t"
      "\<And>m. m \<in> set (findall HOSTLIKE s) \<union> set (findall USERLIKE s) \<Longrightarrow> m \<in> set (present host @ present user)"
      "\<not> search BLOBLIKE s" "\<And>x. x \<in> set BANNED_TERMS \<Longrightarrow> \<not> search (snd x) s"
  proof -
    have cond: "(if b then [e] else []) = [] \<longleftrightarrow> \<not> b" for b and e :: check_error by simp
    note parts = assms [unfolded validate_summary_def Let_def append_is_Nil_conv concat_map_Nil_iff cond MAX_TOTAL_WORDS_def not_less not_not]
    show "structure_errors s = []" by (rule conjunct1 [OF parts])
    from parts show "length (py_words s) \<le> 120" by (elim conjE)
    from parts show "\<And>t. t \<in> set FORMAT_DENYLIST \<Longrightarrow> \<not> str_contains s t" by (elim conjE) (rule bspec)
    from parts show "\<And>m. m \<in> set (findall HOSTLIKE s) \<union> set (findall USERLIKE s) \<Longrightarrow> m \<in> set (present host @ present user)"
      by (elim conjE) (metis UnE)
    from parts show "\<not> search BLOBLIKE s" by (elim conjE)
    from parts have banned: "\<forall>x \<in> set BANNED_TERMS. (case x of (label, pattern) \<Rightarrow>
        if search pattern s then [BannedTerm label] else []) = []" by (elim conjE)
    show "\<not> search (snd x) s" if "x \<in> set BANNED_TERMS" for x
      using bspec [OF banned that] by (cases x) (simp split: if_splits)
  qed
  define lines where "lines = py_split newline s"
  have len: "length lines = 3"
  proof (rule ccontr)
    assume "length lines \<noteq> 3"
    with e(1) show False unfolding structure_errors_def Let_def lines_def [symmetric] by simp
  qed
  then obtain l1 l2 l3 where ls: "lines = [l1, l2, l3]"
    unfolding numeral_3_eq_3 length_Suc_conv length_0_conv by (elim exE conjE) simp
  have ok: "line_ok ''What happened: '' l1" "line_ok ''Why it matters: '' l2" "line_ok ''Do this next: '' l3"
    using e(1) len unfolding structure_errors_def Let_def lines_def [symmetric]
    by (simp_all add: ls LINE_PREFIXES_def split: if_splits)
  have "s = join_with [newline] lines" unfolding lines_def by (rule join_py_split [symmetric])
  then have s: "s = l1 @ [newline] @ l2 @ [newline] @ l3" by (simp add: ls)
  obtain a b c where abc: "l1 = ''What happened: '' @ a \<and> a \<noteq> []" "l2 = ''Why it matters: '' @ b \<and> b \<noteq> []"
      "l3 = ''Do this next: '' @ c \<and> c \<noteq> []"
    using line_okD [OF ok(1)] line_okD [OF ok(2)] line_okD [OF ok(3)] by metis
  have "\<exists>a b c. s = ''What happened: '' @ a @ [newline] @ ''Why it matters: '' @ b @ [newline] @ ''Do this next: '' @ c
        \<and> a \<noteq> [] \<and> b \<noteq> [] \<and> c \<noteq> []"
    unfolding s using abc by (intro exI [of _ a] exI [of _ b] exI [of _ c]) simp
  moreover have "Some m = host \<or> Some m = user" if "m \<in> set (findall HOSTLIKE s) \<union> set (findall USERLIKE s)" for m
    using e(4) [OF that] by (auto simp: present_def split: option.splits if_splits)
  ultimately show ?thesis
    using e(2,3,5,6) unfolding case_prod_beta well_formed_summary_def str_contains_iff by blast
qed

lemma parsed_severity:
  "parse_model_output loads text = Inr out \<Longrightarrow> to_ai_severity out \<in> set SEVERITIES"
  by (auto simp: parse_model_output_def Let_def split: option.splits json.splits if_splits)

end
