(* ===== verification/Triage.thy ===== *)
theory Triage
  imports Alerter Triage_Output
begin

section \<open>Triage: the graph, its budget and its effects\<close>

text \<open>
  \<^verbatim>\<open>dataplane/triage/graph.py\<close> with the parts it composes: context assembly (\<^verbatim>\<open>context.py\<close>), the daily token budget
  (\<^verbatim>\<open>budget.py\<close>), metering (\<^verbatim>\<open>metering.py\<close>), persistence (\<^verbatim>\<open>persist.py\<close>, through \<^verbatim>\<open>scoring_adapter.py\<close>), and the
  message handler of \<^verbatim>\<open>workers/triager.py\<close>.

  The model client is an arbitrary function of the attempt number and the correction (\<open>None\<close> is the
  worker without an API key), the event store an arbitrary function. \<open>triage_world\<close> is what a run
  writes outside the alert tables: the meter rows, the tokens counted for the tenant and day, and the
  number of model calls (a counter of the model, for the statements). Between reading the alert and writing the
  result other workers commit transactions: \<open>interfere\<close> is what they did to the database meanwhile.

  The loop through the generate and validate nodes is a function with a termination proof: each round
  uses up one of the attempts.
\<close>

subsection \<open>Context\<close>

record alert_view =
  vw_id :: string
  vw_tenant :: string
  vw_rule_id :: string
  vw_rule_version :: string
  vw_rule_title :: string
  vw_rule_severity :: string
  vw_mitre :: "string list"
  vw_hostname :: "string option"
  vw_user :: "string option"
  vw_asset_id :: "string option"
  vw_occurrence_count :: int
  vw_first_seen :: int
  vw_last_seen :: int
  vw_triage_status :: string
  vw_triage_attempts :: int

record alert_context =
  cx_tenant :: string
  cx_alert :: alert_view
  cx_events :: "obj list"

definition fetch_alert :: "string \<Rightarrow> string \<Rightarrow> alert_db \<Rightarrow> alert_view option" where
  "fetch_alert tenant alert_id db =
     map_option (\<lambda>r. \<lparr>vw_id = al_id r, vw_tenant = al_tenant r, vw_rule_id = al_rule_id r,
        vw_rule_version = al_rule_version r, vw_rule_title = al_rule_title r, vw_rule_severity = al_rule_severity r,
        vw_mitre = al_mitre r, vw_hostname = al_hostname r, vw_user = al_user r, vw_asset_id = al_asset_id r,
        vw_occurrence_count = al_occurrence_count r, vw_first_seen = al_first_seen r, vw_last_seen = al_last_seen r,
        vw_triage_status = al_triage_status r, vw_triage_attempts = al_triage_attempts r\<rparr>)
       (find (\<lambda>r. al_tenant r = tenant \<and> al_id r = alert_id) (db_alerts db))"

definition fetch_event_refs :: "string \<Rightarrow> string \<Rightarrow> nat \<Rightarrow> alert_db \<Rightarrow> (string \<times> string) list" where
  "fetch_event_refs tenant alert_id limit db =
     take limit (map (\<lambda>l. (ln_event l, ln_es_index l))
       (filter (\<lambda>l. ln_tenant l = tenant \<and> ln_alert l = alert_id) (db_links db)))"

record triage_settings =
  ts_model_id :: string
  ts_timeout_ms :: int
  ts_max_attempts :: nat
  ts_max_events :: nat
  ts_max_field_chars :: nat
  ts_region :: "string option"

datatype llm_reply =
    LlmTimeout
  | LlmError
  | LlmReply (rp_text: string) (rp_model: string) (rp_in: nat) (rp_out: nat) (rp_latency: int)

record triage_env =
  te_settings :: triage_settings
  te_mark :: string
  te_loads :: "string \<Rightarrow> json option"
  te_events :: "string \<Rightarrow> (string \<times> string) list \<Rightarrow> obj list"
  te_client :: "(nat \<Rightarrow> alert_context \<Rightarrow> (check_error list + parse_error) option \<Rightarrow> llm_reply) option"
  te_cap :: int
  te_prices :: "(string \<times> rat \<times> rat) list"

definition assemble_context :: "triage_env \<Rightarrow> string \<Rightarrow> string \<Rightarrow> alert_db \<Rightarrow> alert_context option" where
  "assemble_context env tenant alert_id db =
     (case fetch_alert tenant alert_id db of
        None \<Rightarrow> None
      | Some alert \<Rightarrow>
          let n = ts_max_events (te_settings env);
              refs = fetch_event_refs tenant alert_id n db;
              bodies = te_events env tenant refs in
          Some \<lparr>cx_tenant = tenant, cx_alert = alert,
                cx_events = map (trim_event (te_mark env) (ts_max_field_chars (te_settings env))) (take n bodies)\<rparr>)"

subsection \<open>Budget and metering\<close>

record meter_row =
  mr_tenant :: string
  mr_alert :: string
  mr_model_id :: string
  mr_tokens_in :: nat
  mr_tokens_out :: nat
  mr_cost_usd :: rat
  mr_latency_ms :: "int option"
  mr_outcome :: string
  mr_region :: "string option"

record triage_world =
  tw_meter :: "meter_row list"
  tw_spent :: int
  tw_calls :: nat

definition exceeded :: "int \<Rightarrow> int \<Rightarrow> bool" where
  "exceeded spent cap = (spent \<ge> cap)"

definition budget_add :: "nat \<Rightarrow> triage_world \<Rightarrow> triage_world" where
  "budget_add tokens w = w\<lparr>tw_spent := tw_spent w + int tokens\<rparr>"

definition meter_record :: "meter_row \<Rightarrow> triage_world \<Rightarrow> triage_world" where
  "meter_record m w = w\<lparr>tw_meter := tw_meter w @ [m]\<rparr>"

subsection \<open>Nodes\<close>

datatype outcome_kind = Completed | Unavailable | Skipped

record triage_state =
  st_tenant :: string
  st_alert_id :: string
  st_ctx :: "alert_context option"
  st_attempts :: nat
  st_regenerations :: nat
  st_correction :: "(check_error list + parse_error) option"
  st_llm_ok :: bool
  st_raw :: "string option"
  st_model :: "string option"
  st_summary :: "string option"
  st_ai_severity :: "string option"
  st_outcome :: "outcome_kind option"
  st_reason :: "string option"

definition zero_row :: "triage_env \<Rightarrow> string \<Rightarrow> string \<Rightarrow> int option \<Rightarrow> string \<Rightarrow> meter_row" where
  "zero_row env tenant alert_id latency outcome =
     \<lparr>mr_tenant = tenant, mr_alert = alert_id, mr_model_id = ts_model_id (te_settings env), mr_tokens_in = 0,
      mr_tokens_out = 0, mr_cost_usd = 0, mr_latency_ms = latency, mr_outcome = outcome,
      mr_region = ts_region (te_settings env)\<rparr>"

definition node_assemble :: "triage_env \<Rightarrow> alert_db \<Rightarrow> triage_state \<Rightarrow> triage_world \<Rightarrow> triage_state \<times> triage_world" where
  "node_assemble env db st w =
     (case assemble_context env (st_tenant st) (st_alert_id st) db of
        None \<Rightarrow> (st\<lparr>st_ctx := None, st_outcome := Some Skipped, st_reason := Some ''alert_not_found''\<rparr>, w)
      | Some ctx \<Rightarrow>
          if vw_triage_status (cx_alert ctx) \<noteq> ''pending''
          then (st\<lparr>st_ctx := Some ctx, st_outcome := Some Skipped, st_reason := Some ''already_terminal''\<rparr>, w)
          else if te_client env = None
          then (st\<lparr>st_ctx := Some ctx, st_outcome := Some Unavailable, st_reason := Some ''no_api_key''\<rparr>, w)
          else if exceeded (tw_spent w) (te_cap env)
          then (st\<lparr>st_ctx := Some ctx, st_outcome := Some Unavailable, st_reason := Some ''budget''\<rparr>,
                meter_record (zero_row env (st_tenant st) (st_alert_id st) None ''over_budget'') w)
          else (st\<lparr>st_ctx := Some ctx\<rparr>, w))"

definition after_failed_call :: "triage_env \<Rightarrow> nat \<Rightarrow> string \<Rightarrow> triage_state \<Rightarrow> triage_state" where
  "after_failed_call env attempt kind st =
     (if attempt \<ge> ts_max_attempts (te_settings env)
      then st\<lparr>st_outcome := Some Unavailable, st_reason := Some (''llm_'' @ kind)\<rparr> else st)"

text \<open>The nodes assert that there is a context and a client; \<open>None\<close> is the \<^verbatim>\<open>AssertionError\<close>.\<close>

definition node_generate :: "triage_env \<Rightarrow> triage_state \<Rightarrow> triage_world \<Rightarrow> (triage_state \<times> triage_world) option" where
  "node_generate env st w =
     (case (st_ctx st, te_client env) of
        (Some ctx, Some client) \<Rightarrow>
          let attempt = st_attempts st + 1;
              st1 = st\<lparr>st_attempts := attempt, st_raw := None, st_llm_ok := False\<rparr>;
              w1 = w\<lparr>tw_calls := tw_calls w + 1\<rparr> in
          Some (case client attempt ctx (st_correction st) of
             LlmTimeout \<Rightarrow>
               (after_failed_call env attempt ''timeout'' st1,
                meter_record (zero_row env (st_tenant st) (st_alert_id st) (Some (ts_timeout_ms (te_settings env))) ''timeout'') w1)
           | LlmError \<Rightarrow>
               (after_failed_call env attempt ''error'' st1,
                meter_record (zero_row env (st_tenant st) (st_alert_id st) None ''error'') w1)
           | LlmReply text model_id tokens_in tokens_out latency \<Rightarrow>
               (st1\<lparr>st_llm_ok := True, st_raw := Some text, st_model := Some model_id\<rparr>,
                budget_add (tokens_in + tokens_out)
                  (meter_record \<lparr>mr_tenant = st_tenant st, mr_alert = st_alert_id st, mr_model_id = model_id,
                     mr_tokens_in = tokens_in, mr_tokens_out = tokens_out,
                     mr_cost_usd = cost_usd (te_prices env) model_id tokens_in tokens_out,
                     mr_latency_ms = Some latency, mr_outcome = ''ok'', mr_region = ts_region (te_settings env)\<rparr> w1)))
      | _ \<Rightarrow> None)"

definition node_validate :: "triage_env \<Rightarrow> triage_state \<Rightarrow> triage_state option" where
  "node_validate env st =
     (case st_ctx st of
        None \<Rightarrow> None
      | Some ctx \<Rightarrow>
          let verdict = (case parse_model_output (te_loads env) (case st_raw st of None \<Rightarrow> [] | Some t \<Rightarrow> t) of
                Inl e \<Rightarrow> Inl (Inr e)
              | Inr out \<Rightarrow>
                  (case validate_summary (to_summary out) (vw_hostname (cx_alert ctx)) (vw_user (cx_alert ctx)) of
                     [] \<Rightarrow> Inr out
                   | es \<Rightarrow> Inl (Inl es))) in
          Some (case verdict of
             Inr out \<Rightarrow> st\<lparr>st_summary := Some (to_summary out), st_ai_severity := Some (to_ai_severity out),
                           st_outcome := Some Completed, st_reason := None\<rparr>
           | Inl errs \<Rightarrow>
               if st_regenerations st < 1 \<and> st_attempts st < ts_max_attempts (te_settings env)
               then st\<lparr>st_regenerations := st_regenerations st + 1, st_correction := Some errs\<rparr>
               else st\<lparr>st_outcome := Some Unavailable, st_reason := Some ''validation_failed''\<rparr>))"

definition generated :: "triage_env \<Rightarrow> triage_state \<Rightarrow> triage_world \<Rightarrow> triage_state \<Rightarrow> triage_world \<Rightarrow> bool" where
  "generated env st w st' w' \<longleftrightarrow>
     st_attempts st' = st_attempts st + 1 \<and> st_ctx st' = st_ctx st \<and> st_regenerations st' = st_regenerations st
   \<and> st_tenant st' = st_tenant st \<and> st_alert_id st' = st_alert_id st \<and> tw_calls w' = tw_calls w + 1
   \<and> (\<exists>m. tw_meter w' = tw_meter w @ [m] \<and> mr_tenant m = st_tenant st \<and> mr_alert m = st_alert_id st
        \<and> mr_outcome m \<noteq> ''over_budget'' \<and> tw_spent w' = tw_spent w + int (mr_tokens_in m + mr_tokens_out m))
   \<and> st_outcome st' = (if \<not> st_llm_ok st' \<and> st_attempts st' \<ge> ts_max_attempts (te_settings env)
        then Some Unavailable else st_outcome st)"

lemma node_generate_generated:
  assumes "node_generate env st w = Some (st', w')"
  shows "generated env st w st' w'"
proof -
  obtain ctx client where c: "st_ctx st = Some ctx" "te_client env = Some client"
    using assms by (auto simp: node_generate_def split: option.splits)
  show ?thesis
    using assms
    by (cases "client (st_attempts st + 1) ctx (st_correction st)")
      (auto simp: node_generate_def c Let_def after_failed_call_def meter_record_def budget_add_def zero_row_def generated_def)
qed

definition accepted :: "triage_env \<Rightarrow> alert_context \<Rightarrow> string \<Rightarrow> string \<Rightarrow> bool" where
  "accepted env ctx summary sev \<longleftrightarrow> sev \<in> set SEVERITIES
     \<and> validate_summary summary (vw_hostname (cx_alert ctx)) (vw_user (cx_alert ctx)) = []"

lemma node_validate_cases:
  assumes "node_validate env st = Some st'"
  obtains (accept) ctx summary sev where "st_ctx st = Some ctx" "accepted env ctx summary sev"
      "st' = st\<lparr>st_summary := Some summary, st_ai_severity := Some sev, st_outcome := Some Completed, st_reason := None\<rparr>"
  | (retry) errs where "st_regenerations st < 1" "st_attempts st < ts_max_attempts (te_settings env)"
      "st' = st\<lparr>st_regenerations := st_regenerations st + 1, st_correction := Some errs\<rparr>"
  | (give_up) "st' = st\<lparr>st_outcome := Some Unavailable, st_reason := Some ''validation_failed''\<rparr>"
proof -
  obtain ctx where ctx: "st_ctx st = Some ctx" using assms by (auto simp: node_validate_def split: option.splits)
  define verdict where "verdict = (case parse_model_output (te_loads env) (case st_raw st of None \<Rightarrow> [] | Some t \<Rightarrow> t) of
      Inl e \<Rightarrow> Inl (Inr e)
    | Inr out \<Rightarrow> (case validate_summary (to_summary out) (vw_hostname (cx_alert ctx)) (vw_user (cx_alert ctx)) of
         [] \<Rightarrow> Inr out | es \<Rightarrow> Inl (Inl es)))"
  have eq: "st' = (case verdict of
       Inr out \<Rightarrow> st\<lparr>st_summary := Some (to_summary out), st_ai_severity := Some (to_ai_severity out),
                     st_outcome := Some Completed, st_reason := None\<rparr>
     | Inl errs \<Rightarrow> if st_regenerations st < 1 \<and> st_attempts st < ts_max_attempts (te_settings env)
         then st\<lparr>st_regenerations := st_regenerations st + 1, st_correction := Some errs\<rparr>
         else st\<lparr>st_outcome := Some Unavailable, st_reason := Some ''validation_failed''\<rparr>)"
    using assms by (simp add: node_validate_def ctx verdict_def Let_def)
  show ?thesis
  proof (cases verdict)
    case (Inr out)
    have "accepted env ctx (to_summary out) (to_ai_severity out)"
      using Inr parsed_severity unfolding verdict_def accepted_def
      by (auto split: sum.splits list.splits)
    with ctx show ?thesis by (rule accept) (simp add: eq Inr)
  next
    case (Inl errs)
    show ?thesis
    proof (cases "st_regenerations st < 1 \<and> st_attempts st < ts_max_attempts (te_settings env)")
      case True
      then show ?thesis by (intro retry [of errs]) (simp_all add: eq Inl)
    next
      case False
      then show ?thesis by (intro give_up) (auto simp: eq Inl)
    qed
  qed
qed

text \<open>The graph from the generate node on.\<close>

function generate_loop :: "triage_env \<Rightarrow> triage_state \<Rightarrow> triage_world \<Rightarrow> (triage_state \<times> triage_world) option" where
  "generate_loop env st w =
     (case node_generate env st w of
        None \<Rightarrow> None
      | Some (st1, w1) \<Rightarrow>
          if st_llm_ok st1
          then (case node_validate env st1 of
                  None \<Rightarrow> None
                | Some st2 \<Rightarrow> if st_outcome st2 \<noteq> None then Some (st2, w1) else generate_loop env st2 w1)
          else if st_outcome st1 \<noteq> None then Some (st1, w1)
          else generate_loop env st1 w1)"
  by pat_completeness auto
termination
proof (relation "measure (\<lambda>(env, st, w). ts_max_attempts (te_settings env) - st_attempts st)", goal_cases)
  case (2 env st w x st1 w1 st2)
  then have g: "generated env st w st1 w1" and v: "node_validate env st1 = Some st2" "st_outcome st2 = None"
    by (simp_all add: node_generate_generated)
  from v have "st_attempts st2 = st_attempts st1 \<and> st_attempts st1 < ts_max_attempts (te_settings env)"
    by (cases rule: node_validate_cases) auto
  with g show ?case by (auto simp: generated_def)
next
  case (3 env st w x st1 w1)
  then have "generated env st w st1 w1" "\<not> st_llm_ok st1" "st_outcome st1 = None"
    by (simp_all add: node_generate_generated)
  then show ?case by (auto simp: generated_def split: if_splits)
qed simp

declare generate_loop.simps [simp del]

subsection \<open>Persistence\<close>

definition agent_status_of :: "string \<Rightarrow> string option \<Rightarrow> alert_db \<Rightarrow> string" where
  "agent_status_of tenant asset_id db =
     (case asset_id of
        None \<Rightarrow> ''none''
      | Some a \<Rightarrow> (case find (\<lambda>v. av_tenant v = tenant \<and> av_id v = a) (db_assets db) of
            None \<Rightarrow> ''none'' | Some v \<Rightarrow> av_agent_status v))"

definition triage_history :: "string \<Rightarrow> string \<Rightarrow> string \<Rightarrow> obj \<Rightarrow> alert_db \<Rightarrow> alert_db" where
  "triage_history tenant alert_id action details db =
     insert_history \<lparr>hi_tenant = tenant, hi_alert = alert_id, hi_actor_type = ''system'', hi_actor_id = ''worker-triager'',
       hi_action = action, hi_from = None, hi_to = None, hi_reason = None, hi_comment = None, hi_details = details\<rparr> db"

definition complete_row :: "string \<Rightarrow> string \<Rightarrow> string \<Rightarrow> nat \<Rightarrow> priority_score \<Rightarrow> int \<Rightarrow> alert_row \<Rightarrow> alert_row" where
  "complete_row summary ai_severity model_id attempts p now r =
     r\<lparr>al_triage_status := ''completed'', al_triage_summary := Some summary, al_ai_severity := Some ai_severity,
       al_ai_severity_effective := ps_ai_severity_effective p, al_triage_model_id := Some model_id,
       al_triage_completed_at := Some now, al_triage_attempts := int attempts,
       al_priority_score := ps_score p, al_priority_inputs := priority_inputs p, al_updated_at := now\<rparr>"

definition persist_completed ::
  "string \<Rightarrow> alert_view \<Rightarrow> string \<Rightarrow> string \<Rightarrow> string \<Rightarrow> nat \<Rightarrow> int \<Rightarrow> alert_db \<Rightarrow> db_error + alert_db" where
  "persist_completed tenant alert summary ai_severity model_id attempts now db =
     (case compute_priority (vw_rule_severity alert) (Some ai_severity) (vw_occurrence_count alert)
             (agent_status_of tenant (vw_asset_id alert) db) of
        Inl e \<Rightarrow> Inl (ScoreError e)
      | Inr p \<Rightarrow> Inr (triage_history tenant (vw_id alert) ''triage_completed''
           [(''ai_severity'', JStr ai_severity), (''ai_severity_effective'', opt_str (ps_ai_severity_effective p)),
            (''priority_score'', JInt (ps_score p)), (''model_id'', JStr model_id), (''attempts'', JInt (int attempts))]
           (db\<lparr>db_alerts := update_rows (\<lambda>r. al_tenant r = tenant \<and> al_id r = vw_id alert)
              (complete_row summary ai_severity model_id attempts p now) (db_alerts db)\<rparr>)))"

definition persist_unavailable :: "string \<Rightarrow> string \<Rightarrow> nat \<Rightarrow> string \<Rightarrow> int \<Rightarrow> alert_db \<Rightarrow> alert_db" where
  "persist_unavailable tenant alert_id attempts reason now db =
     triage_history tenant alert_id ''triage_unavailable'' [(''reason'', JStr reason), (''attempts'', JInt (int attempts))]
       (db\<lparr>db_alerts := update_rows (\<lambda>r. al_tenant r = tenant \<and> al_id r = alert_id)
          (\<lambda>r. r\<lparr>al_triage_status := ''unavailable'', al_triage_attempts := int attempts, al_updated_at := now\<rparr>) (db_alerts db)\<rparr>)"

datatype triage_exc = DbError db_error | AssertionFailed | NoAlertId

definition node_persist :: "triage_env \<Rightarrow> int \<Rightarrow> triage_state \<Rightarrow> alert_db \<Rightarrow> triage_exc + alert_db" where
  "node_persist env now st db =
     (case st_outcome st of
        Some Completed \<Rightarrow>
          (case st_ctx st of
             None \<Rightarrow> Inl AssertionFailed
           | Some ctx \<Rightarrow>
               (case persist_completed (st_tenant st) (cx_alert ctx) (case st_summary st of None \<Rightarrow> [] | Some s \<Rightarrow> s)
                       (case st_ai_severity st of None \<Rightarrow> [] | Some s \<Rightarrow> s)
                       (case st_model st of None \<Rightarrow> ts_model_id (te_settings env)
                        | Some m \<Rightarrow> if m = [] then ts_model_id (te_settings env) else m)
                       (st_attempts st) now db of
                  Inl e \<Rightarrow> Inl (DbError e) | Inr db' \<Rightarrow> Inr db'))
      | Some Unavailable \<Rightarrow>
          Inr (persist_unavailable (st_tenant st) (st_alert_id st) (st_attempts st)
                 (case st_reason st of None \<Rightarrow> ''unknown'' | Some r \<Rightarrow> r) now db)
      | _ \<Rightarrow> Inr db)"

subsection \<open>A run\<close>

definition initial_state :: "string \<Rightarrow> string \<Rightarrow> triage_state" where
  "initial_state tenant alert_id = \<lparr>st_tenant = tenant, st_alert_id = alert_id, st_ctx = None, st_attempts = 0,
     st_regenerations = 0, st_correction = None, st_llm_ok = False, st_raw = None, st_model = None, st_summary = None,
     st_ai_severity = None, st_outcome = None, st_reason = None\<rparr>"

record triage_outcome =
  to_kind :: outcome_kind
  to_reason :: "string option"
  to_attempts :: nat

definition outcome_of :: "triage_state \<Rightarrow> triage_outcome" where
  "outcome_of st = \<lparr>to_kind = (case st_outcome st of None \<Rightarrow> Unavailable | Some k \<Rightarrow> k), to_reason = st_reason st,
     to_attempts = st_attempts st\<rparr>"

definition graph_run :: "triage_env \<Rightarrow> string \<Rightarrow> string \<Rightarrow> alert_db \<Rightarrow> triage_world \<Rightarrow> (triage_state \<times> triage_world) option" where
  "graph_run env tenant alert_id db w =
     (case node_assemble env db (initial_state tenant alert_id) w of
        (st, w1) \<Rightarrow> if st_outcome st \<noteq> None then Some (st, w1) else generate_loop env st w1)"

definition run :: "triage_env \<Rightarrow> (alert_db \<Rightarrow> alert_db) \<Rightarrow> int \<Rightarrow> string \<Rightarrow> string \<Rightarrow> alert_db \<Rightarrow> triage_world
     \<Rightarrow> (triage_exc + alert_db \<times> triage_outcome) \<times> triage_world" where
  "run env interfere now tenant alert_id db w =
     (case graph_run env tenant alert_id db w of
        None \<Rightarrow> (Inl AssertionFailed, w)
      | Some (st, w1) \<Rightarrow>
          (case node_persist env now st (interfere db) of
             Inl e \<Rightarrow> (Inl e, w1)
           | Inr db' \<Rightarrow> (Inr (db', outcome_of st), w1)))"

definition handle :: "triage_env \<Rightarrow> (alert_db \<Rightarrow> alert_db) \<Rightarrow> int \<Rightarrow> string \<Rightarrow> obj \<Rightarrow> alert_db \<Rightarrow> triage_world
     \<Rightarrow> (triage_exc + alert_db \<times> triage_outcome) \<times> triage_world" where
  "handle env interfere now tenant payload db w =
     (case obj_get payload ''alert_id'' of
        JStr alert_id \<Rightarrow> if alert_id = [] then (Inl NoAlertId, w) else run env interfere now tenant alert_id db w
      | _ \<Rightarrow> (Inl NoAlertId, w))"

subsection \<open>What the loop does\<close>

text \<open>From a state with a context and a client the loop returns, in an outcome other than skipped; it
  calls the model once per attempt and writes one meter row per call; a completed outcome carries an
  accepted summary and severity.\<close>

definition tokens :: "meter_row \<Rightarrow> int" where
  "tokens m = int (mr_tokens_in m + mr_tokens_out m)"

definition loop_post :: "triage_env \<Rightarrow> alert_context \<Rightarrow> triage_state \<Rightarrow> triage_world \<Rightarrow> triage_state \<Rightarrow> triage_world \<Rightarrow> bool" where
  "loop_post env ctx st w st' w' \<longleftrightarrow>
     (st_outcome st' = Some Unavailable
      \<or> (st_outcome st' = Some Completed \<and> (\<exists>s v. st_summary st' = Some s \<and> st_ai_severity st' = Some v \<and> accepted env ctx s v)))
   \<and> st_ctx st' = Some ctx \<and> st_tenant st' = st_tenant st \<and> st_alert_id st' = st_alert_id st
   \<and> st_attempts st < st_attempts st' \<and> st_attempts st' \<le> max (st_attempts st + 1) (ts_max_attempts (te_settings env))
   \<and> tw_calls w' + st_attempts st = tw_calls w + st_attempts st'
   \<and> (\<exists>ms. tw_meter w' = tw_meter w @ ms \<and> length ms + st_attempts st = st_attempts st'
        \<and> (\<forall>m \<in> set ms. mr_tenant m = st_tenant st \<and> mr_alert m = st_alert_id st \<and> mr_outcome m \<noteq> ''over_budget'')
        \<and> tw_spent w' = tw_spent w + sum_list (map tokens ms))"

lemma loop_post_first:
  assumes "generated env st w st1 w1" "st_ctx st = Some ctx"
    and "st_outcome st' = Some Unavailable
      \<or> (st_outcome st' = Some Completed \<and> (\<exists>s v. st_summary st' = Some s \<and> st_ai_severity st' = Some v \<and> accepted env ctx s v))"
    and "st_ctx st' = st_ctx st1" "st_tenant st' = st_tenant st1" "st_alert_id st' = st_alert_id st1" "st_attempts st' = st_attempts st1"
  shows "loop_post env ctx st w st' w1"
proof -
  obtain m where m: "tw_meter w1 = tw_meter w @ [m]" "mr_tenant m = st_tenant st" "mr_alert m = st_alert_id st"
      "mr_outcome m \<noteq> ''over_budget''" "tw_spent w1 = tw_spent w + tokens m"
    using assms(1) unfolding generated_def tokens_def by blast
  have "st_attempts st1 = st_attempts st + 1" "st_ctx st1 = Some ctx" "st_tenant st1 = st_tenant st"
      "st_alert_id st1 = st_alert_id st" "tw_calls w1 = tw_calls w + 1"
    using assms(1,2) by (simp_all add: generated_def)
  with m assms(3-7) show ?thesis
    unfolding loop_post_def by (intro conjI exI [of _ "[m]"]) simp_all
qed

lemma loop_post_more:
  assumes "generated env st w st1 w1" "st_attempts st2 = st_attempts st1" "st_tenant st2 = st_tenant st1" "st_alert_id st2 = st_alert_id st1"
    and "st_attempts st2 < ts_max_attempts (te_settings env)" "loop_post env ctx st2 w1 st' w'"
  shows "loop_post env ctx st w st' w'"
proof -
  obtain m where m: "tw_meter w1 = tw_meter w @ [m]" "mr_tenant m = st_tenant st" "mr_alert m = st_alert_id st"
      "mr_outcome m \<noteq> ''over_budget''" "tw_spent w1 = tw_spent w + tokens m"
    using assms(1) unfolding generated_def tokens_def by blast
  have g: "st_attempts st1 = st_attempts st + 1" "st_tenant st1 = st_tenant st"
      "st_alert_id st1 = st_alert_id st" "tw_calls w1 = tw_calls w + 1"
    using assms(1) by (simp_all add: generated_def)
  obtain ms where ms: "tw_meter w' = tw_meter w1 @ ms" "length ms + st_attempts st2 = st_attempts st'"
      "\<forall>m \<in> set ms. mr_tenant m = st_tenant st2 \<and> mr_alert m = st_alert_id st2 \<and> mr_outcome m \<noteq> ''over_budget''"
      "tw_spent w' = tw_spent w1 + sum_list (map tokens ms)"
    using assms(6) unfolding loop_post_def by blast
  show ?thesis
    unfolding loop_post_def
  proof (intro conjI exI [of _ "m # ms"])
    show "st_outcome st' = Some Unavailable
      \<or> (st_outcome st' = Some Completed \<and> (\<exists>s v. st_summary st' = Some s \<and> st_ai_severity st' = Some v \<and> accepted env ctx s v))"
      using assms(6) unfolding loop_post_def by (rule conjunct1)
  qed (use assms(2-6) g m ms in \<open>simp_all add: loop_post_def\<close>)
qed

lemma generate_loop_post:
  "st_ctx st = Some ctx \<Longrightarrow> te_client env \<noteq> None \<Longrightarrow> st_outcome st = None \<Longrightarrow>
   \<exists>st' w'. generate_loop env st w = Some (st', w') \<and> loop_post env ctx st w st' w'"
proof (induction env st w rule: generate_loop.induct)
  case (1 env st w)
  have "node_generate env st w \<noteq> None" using "1.prems" by (auto simp: node_generate_def Let_def)
  then obtain st1 w1 where gen: "node_generate env st w = Some (st1, w1)" by auto
  have g: "generated env st w st1 w1" by (rule node_generate_generated [OF gen])
  have ctx1: "st_ctx st1 = Some ctx" using g "1.prems"(1) by (simp add: generated_def)
  show ?case
  proof (cases "st_llm_ok st1")
    case True
    have "node_validate env st1 \<noteq> None" by (simp add: node_validate_def ctx1 Let_def)
    then obtain st2 where val: "node_validate env st1 = Some st2" by auto
    have step: "generate_loop env st w = (if st_outcome st2 \<noteq> None then Some (st2, w1) else generate_loop env st2 w1)"
      by (subst generate_loop.simps) (simp add: gen True val)
    from val show ?thesis
    proof (cases rule: node_validate_cases)
      case (accept ctx' summary sev)
      then have "ctx' = ctx" using ctx1 by simp
      with accept have "loop_post env ctx st w st2 w1"
        by (intro loop_post_first [OF g "1.prems"(1)]) simp_all
      then show ?thesis using accept(3) by (simp add: step)
    next
      case (retry errs)
      have "st_outcome st1 = None" using g True "1.prems"(3) by (simp add: generated_def)
      then have out: "st_outcome st2 = None" by (simp add: retry(3))
      have "\<exists>st' w'. generate_loop env st2 w1 = Some (st', w') \<and> loop_post env ctx st2 w1 st' w'"
        using "1.IH"(1) [OF gen refl True val] out ctx1 "1.prems"(2) by (simp add: retry(3))
      then obtain st' w' where "generate_loop env st2 w1 = Some (st', w')" "loop_post env ctx st2 w1 st' w'" by blast
      moreover have "loop_post env ctx st w st' w'"
        by (rule loop_post_more [OF g _ _ _ _ \<open>loop_post env ctx st2 w1 st' w'\<close>]) (use retry in simp_all)
      ultimately show ?thesis using out by (simp add: step)
    next
      case give_up
      then have "loop_post env ctx st w st2 w1"
        by (intro loop_post_first [OF g "1.prems"(1)]) simp_all
      then show ?thesis using give_up by (simp add: step)
    qed
  next
    case False
    have step: "generate_loop env st w = (if st_outcome st1 \<noteq> None then Some (st1, w1) else generate_loop env st1 w1)"
      by (subst generate_loop.simps) (simp add: gen False)
    show ?thesis
    proof (cases "st_attempts st1 \<ge> ts_max_attempts (te_settings env)")
      case True
      then have out: "st_outcome st1 = Some Unavailable" using g False by (simp add: generated_def)
      have "loop_post env ctx st w st1 w1" by (rule loop_post_first [OF g "1.prems"(1)]) (simp_all add: out)
      then show ?thesis using out by (simp add: step)
    next
      case more: False
      then have out: "st_outcome st1 = None" using g False "1.prems"(3) by (simp add: generated_def)
      have "\<exists>st' w'. generate_loop env st1 w1 = Some (st', w') \<and> loop_post env ctx st1 w1 st' w'"
        using "1.IH"(2) [OF gen refl False] out ctx1 "1.prems"(2) by simp
      then obtain st' w' where "generate_loop env st1 w1 = Some (st', w')" "loop_post env ctx st1 w1 st' w'" by blast
      moreover have "loop_post env ctx st w st' w'"
        by (rule loop_post_more [OF g _ _ _ _ \<open>loop_post env ctx st1 w1 st' w'\<close>]) (use more in simp_all)
      ultimately show ?thesis using out by (simp add: step)
    qed
  qed
qed

subsection \<open>Cases of a run\<close>

lemma graph_run_cases:
  obtains (skipped) st where "graph_run env t a db w = Some (st, w)" "st_outcome st = Some Skipped"
  | (refused) st w' ms where "graph_run env t a db w = Some (st, w')" "st_outcome st = Some Unavailable" "st_tenant st = t" "st_alert_id st = a"
      "st_attempts st = 0" "tw_calls w' = tw_calls w" "tw_spent w' = tw_spent w" "tw_meter w' = tw_meter w @ ms"
      "\<forall>m \<in> set ms. mr_outcome m = ''over_budget'' \<and> tokens m = 0" "length ms \<le> 1"
  | (called) st w' ctx view where "graph_run env t a db w = Some (st, w')" "fetch_alert t a db = Some view" "cx_alert ctx = view"
      "vw_triage_status view = ''pending''" "te_client env \<noteq> None" "\<not> exceeded (tw_spent w) (te_cap env)"
      "loop_post env ctx ((initial_state t a)\<lparr>st_ctx := Some ctx\<rparr>) w st w'"
proof (cases "assemble_context env t a db")
  case None
  show ?thesis
    by (rule skipped, simp add: graph_run_def node_assemble_def None initial_state_def, simp)
next
  case (Some ctx)
  then obtain view where view: "fetch_alert t a db = Some view" "cx_alert ctx = view"
    by (auto simp: assemble_context_def Let_def split: option.splits)
  show ?thesis
  proof (cases "vw_triage_status view = ''pending''")
    case False
    show ?thesis
      by (rule skipped, simp add: graph_run_def node_assemble_def Some initial_state_def view False, simp)
  next
    case pending: True
    show ?thesis
    proof (cases "te_client env = None")
      case True
      show ?thesis
        by (rule refused [of _ w "[]"], simp add: graph_run_def node_assemble_def Some initial_state_def view pending True, simp_all)
    next
      case client: False
      show ?thesis
      proof (cases "exceeded (tw_spent w) (te_cap env)")
        case True
        show ?thesis
          by (rule refused [of _ "meter_record (zero_row env t a None ''over_budget'') w" "[zero_row env t a None ''over_budget'']"])
            (simp add: graph_run_def node_assemble_def Some initial_state_def view pending client True,
             simp_all add: meter_record_def zero_row_def tokens_def)
      next
        case False
        let ?st = "(initial_state t a)\<lparr>st_ctx := Some ctx\<rparr>"
        have "graph_run env t a db w = generate_loop env ?st w"
          by (simp add: graph_run_def node_assemble_def Some initial_state_def view pending client False)
        moreover obtain st' w' where "generate_loop env ?st w = Some (st', w')" "loop_post env ctx ?st w st' w'"
          using generate_loop_post [of ?st ctx env w] client by (auto simp: initial_state_def)
        ultimately show ?thesis using view pending client False by (intro called) simp_all
      qed
    qed
  qed
qed

lemma fetch_alert_id: "fetch_alert t a db = Some v \<Longrightarrow> vw_id v = a \<and> vw_tenant v = t"
  by (auto simp: fetch_alert_def find_Some_iff)

lemma db_ok_triage_history [simp]: "db_ok (triage_history t a ac d db) = db_ok db"
  by (rule db_ok_cong) (simp_all add: triage_history_def insert_history_def)

lemma isolated_triage_history: "isolated t db (triage_history t a ac d db)"
  by (simp add: isolated_def tenant_part_def triage_history_def insert_history_def)

lemma db_ok_update_priority:
  assumes "db_ok db" "keeps_refs f" "\<And>r. is_open (f r) = is_open r" "\<And>r. dedup_key (f r) = dedup_key r"
    and "\<And>r. row_ok r \<Longrightarrow> row_ok (f r)"
  shows "db_ok (db\<lparr>db_alerts := update_rows p f (db_alerts db)\<rparr>)"
proof -
  have "alerts_ok (update_rows p f (db_alerts db))"
    using assms by (intro alerts_ok_update_same) (simp_all add: db_ok_def keeps_refs_def)
  moreover have "refs_ok (db\<lparr>db_alerts := update_rows p f (db_alerts db)\<rparr>)"
    using assms by (intro refs_ok_update) (simp_all add: db_ok_def)
  ultimately show ?thesis by (simp add: db_ok_def)
qed

lemma db_ok_persist_completed:
  assumes "db_ok db" "persist_completed t v s sev m n now db = Inr db'" "sev \<in> set SEVERITIES"
  shows "db_ok db' \<and> isolated t db db'"
proof -
  obtain p d where p: "compute_priority (vw_rule_severity v) (Some sev) (vw_occurrence_count v) (agent_status_of t (vw_asset_id v) db) = Inr p"
    and db': "db' = triage_history t (vw_id v) ''triage_completed'' d (db\<lparr>db_alerts := update_rows (\<lambda>r. al_tenant r = t \<and> al_id r = vw_id v)
              (complete_row s sev m n p now) (db_alerts db)\<rparr>)"
    using assms(2) by (auto simp: persist_completed_def split: sum.splits)
  have range: "26 \<le> ps_score p \<and> ps_score p \<le> 100" using compute_priority_range [OF p] by simp
  have "db_ok (db\<lparr>db_alerts := update_rows (\<lambda>r. al_tenant r = t \<and> al_id r = vw_id v) (complete_row s sev m n p now) (db_alerts db)\<rparr>)"
    by (rule db_ok_update_priority [OF assms(1)])
      (use range assms(3) in \<open>simp_all add: keeps_refs_def complete_row_def is_open_def dedup_key_def row_ok_def\<close>)
  moreover have "isolated t db (db\<lparr>db_alerts := update_rows (\<lambda>r. al_tenant r = t \<and> al_id r = vw_id v) (complete_row s sev m n p now) (db_alerts db)\<rparr>)"
    by (rule isolated_update) (simp_all add: complete_row_def)
  ultimately show ?thesis unfolding db' using isolated_trans [OF _ isolated_triage_history] by simp
qed

lemma db_ok_persist_unavailable:
  assumes "db_ok db"
  shows "db_ok (persist_unavailable t a n reason now db) \<and> isolated t db (persist_unavailable t a n reason now db)"
proof -
  let ?db = "db\<lparr>db_alerts := update_rows (\<lambda>r. al_tenant r = t \<and> al_id r = a)
      (\<lambda>r. r\<lparr>al_triage_status := ''unavailable'', al_triage_attempts := int n, al_updated_at := now\<rparr>) (db_alerts db)\<rparr>"
  have "db_ok ?db"
    by (rule db_ok_update_priority [OF assms]) (simp_all add: keeps_refs_def is_open_def dedup_key_def row_ok_def)
  moreover have "isolated t db ?db" by (rule isolated_update) simp_all
  ultimately show ?thesis unfolding persist_unavailable_def using isolated_trans [OF _ isolated_triage_history] by simp
qed

lemma outcome_of_simps [simp]:
  "to_attempts (outcome_of st) = st_attempts st" "st_outcome st = Some k \<Longrightarrow> to_kind (outcome_of st) = k"
  by (simp_all add: outcome_of_def)

lemma node_persist_simps:
  "st_outcome st = Some Skipped \<Longrightarrow> node_persist env now st db = Inr db"
  "st_outcome st = Some Unavailable \<Longrightarrow> node_persist env now st db = Inr (persist_unavailable (st_tenant st) (st_alert_id st)
     (st_attempts st) (case st_reason st of None \<Rightarrow> ''unknown'' | Some r \<Rightarrow> r) now db)"
  by (simp_all add: node_persist_def)

lemma map_sum_Inr_iff: "map_sum f id x = Inr y \<longleftrightarrow> x = Inr y"
  by (cases x) simp_all

lemma node_persist_completed:
  assumes "st_outcome st = Some Completed" "st_ctx st = Some ctx" "st_summary st = Some s" "st_ai_severity st = Some v"
  obtains m where "node_persist env now st db = map_sum DbError id
    (persist_completed (st_tenant st) (cx_alert ctx) s v m (st_attempts st) now db)"
proof (rule that)
  show "node_persist env now st db = map_sum DbError id (persist_completed (st_tenant st) (cx_alert ctx) s v
      (case st_model st of None \<Rightarrow> ts_model_id (te_settings env) | Some m \<Rightarrow> if m = [] then ts_model_id (te_settings env) else m)
      (st_attempts st) now db)"
    using assms by (simp add: node_persist_def split: sum.split)
qed

lemma agent_status_of_ok: "assets_ok db \<Longrightarrow> agent_status_of t a db \<in> set AGENT_STATUSES"
  by (auto simp: agent_status_of_def assets_ok_def list_all_iff find_Some_iff AGENT_STATUSES_def
      split: option.splits dest!: nth_mem)

lemma fetch_alert_row_ok:
  assumes "db_ok db" "fetch_alert t a db = Some v"
  shows "vw_rule_severity v \<in> set SEVERITIES" "1 \<le> vw_occurrence_count v"
proof -
  from assms(2) obtain r where r: "find (\<lambda>r. al_tenant r = t \<and> al_id r = a) (db_alerts db) = Some r"
      "vw_rule_severity v = al_rule_severity r" "vw_occurrence_count v = al_occurrence_count r"
    by (auto simp: fetch_alert_def)
  then have "r \<in> set (db_alerts db)" by (auto simp: find_Some_iff)
  with assms(1) r(2,3) show "vw_rule_severity v \<in> set SEVERITIES" "1 \<le> vw_occurrence_count v"
    by (simp_all add: db_ok_def alerts_ok_def list_all_iff row_ok_def)
qed

lemma persist_completed_total:
  assumes "assets_ok db" "vw_rule_severity v \<in> set SEVERITIES" "1 \<le> vw_occurrence_count v" "sev \<in> set SEVERITIES"
  obtains db' where "persist_completed t v s sev m n now db = Inr db'"
proof -
  obtain p where "compute_priority (vw_rule_severity v) (Some sev) (vw_occurrence_count v) (agent_status_of t (vw_asset_id v) db) = Inr p"
    using compute_priority_total [OF assms(2) _ assms(3) agent_status_of_ok [OF assms(1)], of "Some sev"] assms(4) by auto
  with that show ?thesis by (simp add: persist_completed_def)
qed

lemma run_kept:
  assumes "db_ok db" "db_ok (interfere db)" "assets_ok (interfere db)"
  shows "\<exists>db' out w'. run env interfere now t a db w = (Inr (db', out), w') \<and> db_ok db' \<and> isolated t (interfere db) db'"
proof (cases rule: graph_run_cases [of env t a db w])
  case (skipped st)
  then show ?thesis using assms(2) by (simp add: run_def node_persist_simps isolated_refl)
next
  case (refused st w' ms)
  then show ?thesis
    using db_ok_persist_unavailable [OF assms(2)] by (simp add: run_def node_persist_simps)
next
  case (called st w' ctx view)
  have eq: "st_tenant st = t" "st_alert_id st = a" "st_ctx st = Some ctx"
    using called(7) by (simp_all add: loop_post_def initial_state_def)
  from called(7) consider "st_outcome st = Some Unavailable"
    | s v where "st_outcome st = Some Completed" "st_summary st = Some s" "st_ai_severity st = Some v" "accepted env ctx s v"
    unfolding loop_post_def by (elim conjE disjE exE) 
  then show ?thesis
  proof cases
    case 1
    then show ?thesis using db_ok_persist_unavailable [OF assms(2)] by (simp add: run_def called(1) node_persist_simps eq)
  next
    case (2 s v)
    from 2(1) eq(3) 2(2,3) obtain m where m: "node_persist env now st (interfere db) = map_sum DbError id
        (persist_completed t view s v m (st_attempts st) now (interfere db))"
      unfolding called(3) [symmetric] eq(1) [symmetric] by (rule node_persist_completed)
    have v: "v \<in> set SEVERITIES" using 2(4) by (simp add: accepted_def)
    obtain db' where db': "persist_completed t view s v m (st_attempts st) now (interfere db) = Inr db'"
      by (rule persist_completed_total [OF assms(3) fetch_alert_row_ok [OF assms(1) called(2)] v])
    from db_ok_persist_completed [OF assms(2) db' v] show ?thesis
      by (simp add: run_def called(1) m db')
  qed
qed


subsection \<open>Properties\<close>

text \<open>C24: what a run costs. It calls the model at most as often as the configured number of attempts
  (at least one attempt is made), every call leaves exactly one meter row of this tenant and alert,
  the tokens added to the tenant's day are those of the rows, and there is no call at all when
  the alert is missing or already triaged, no client is configured or the day's cap is reached.\<close>

theorem triage_bounded:
  "\<exists>ms. tw_meter (snd (run env interfere now t a db w)) = tw_meter w @ ms
     \<and> tw_calls (snd (run env interfere now t a db w)) = tw_calls w + length (filter (\<lambda>m. mr_outcome m \<noteq> ''over_budget'') ms)
     \<and> length ms \<le> max 1 (ts_max_attempts (te_settings env))
     \<and> tw_spent (snd (run env interfere now t a db w)) = tw_spent w + sum_list (map tokens ms)
     \<and> (te_client env = None \<or> exceeded (tw_spent w) (te_cap env)
          \<or> (\<forall>v. fetch_alert t a db = Some v \<longrightarrow> vw_triage_status v \<noteq> ''pending'')
        \<longrightarrow> tw_calls (snd (run env interfere now t a db w)) = tw_calls w)"
proof (cases rule: graph_run_cases [of env t a db w])
  case (skipped st)
  then show ?thesis by (intro exI [of _ "[]"]) (simp add: run_def node_persist_simps)
next
  case (refused st w' ms)
  then have w': "snd (run env interfere now t a db w) = w'" by (simp add: run_def node_persist_simps)
  have "length ms \<le> 1 \<and> filter (\<lambda>m. mr_outcome m \<noteq> ''over_budget'') ms = [] \<and> sum_list (map tokens ms) = 0"
    using refused(9,10) by (auto simp: filter_empty_conv intro!: sum_list_nonneg_eq_0_iff [THEN iffD2])
  then show ?thesis unfolding w' using refused by (intro exI [of _ ms]) auto
next
  case (called st w' ctx view)
  have w': "snd (run env interfere now t a db w) = w'"
    by (simp add: run_def called(1) split: sum.split)
  from called(7) obtain ms where ms: "tw_meter w' = tw_meter w @ ms" "length ms = st_attempts st"
      "\<forall>m \<in> set ms. mr_outcome m \<noteq> ''over_budget''" "tw_spent w' = tw_spent w + sum_list (map tokens ms)"
    unfolding loop_post_def initial_state_def by auto
  have "filter (\<lambda>m. mr_outcome m \<noteq> ''over_budget'') ms = ms" using ms(3) by (simp add: filter_id_conv)
  with called(2-7) ms show ?thesis unfolding w' by (intro exI [of _ ms]) (auto simp: loop_post_def initial_state_def)
qed


definition demo_summary :: string where
  "demo_summary = ''What happened: a'' @ [newline] @ ''Why it matters: b'' @ [newline] @ ''Do this next: ws-1.''"

text \<open>The first call times out, the second is answered without a severity, the third is accepted.\<close>

definition demo_triage :: triage_env where
  "demo_triage = \<lparr>te_settings = \<lparr>ts_model_id = ''m'', ts_timeout_ms = 20000, ts_max_attempts = 3, ts_max_events = 10,
       ts_max_field_chars = 512, ts_region = None\<rparr>,
     te_mark = ''...'',
     te_loads = (\<lambda>s. Some (JObj ((''summary'', JStr demo_summary) # (if s = ''{}'' then [] else [(''ai_severity'', JStr ''Low'')])))),
     te_events = (\<lambda>_ _. [[(''raw'', JStr ''x''), (''hostname'', JStr ''ws-1'')]]),
     te_client = Some (\<lambda>n _ _. if n = 1 then LlmTimeout else if n = 2 then LlmReply ''{}'' ''m'' 100 10 5 else LlmReply ''{ }'' ''m'' 120 20 5),
     te_cap = 500, te_prices = []\<rparr>"

definition fresh_world :: triage_world where
  "fresh_world = \<lparr>tw_meter = [], tw_spent = 0, tw_calls = 0\<rparr>"

theorem triage_bounded_witness:
  "tw_calls (snd (run (demo_triage\<lparr>te_cap := 0\<rparr>) id 9 ''t1'' ''al_1'' demo_db fresh_world)) = 0
   \<and> map mr_outcome (tw_meter (snd (run demo_triage id 9 ''t1'' ''al_1'' demo_db fresh_world))) = [''timeout'', ''ok'', ''ok'']"
proof -
  have "exceeded (tw_spent fresh_world) (te_cap (demo_triage\<lparr>te_cap := 0\<rparr>))" "tw_calls fresh_world = 0"
    by (simp_all add: exceeded_def fresh_world_def)
  moreover have "map mr_outcome (tw_meter (snd (run demo_triage id 9 ''t1'' ''al_1'' demo_db fresh_world))) = [''timeout'', ''ok'', ''ok'']"
    by code_simp
  ultimately show ?thesis
    using triage_bounded [of "demo_triage\<lparr>te_cap := 0\<rparr>" id 9 "''t1''" "''al_1''" demo_db fresh_world] by auto
qed

definition applied :: "triage_env \<Rightarrow> int \<Rightarrow> string \<Rightarrow> string \<Rightarrow> alert_db \<Rightarrow> alert_row list \<Rightarrow> triage_outcome \<Rightarrow> alert_row list \<Rightarrow> bool" where
  "applied env now t a db rows out rows' \<longleftrightarrow>
     (case to_kind out of
        Skipped \<Rightarrow> rows' = rows
      | Unavailable \<Rightarrow> rows' = update_rows (\<lambda>r. al_tenant r = t \<and> al_id r = a)
          (\<lambda>r. r\<lparr>al_triage_status := ''unavailable'', al_triage_attempts := int (to_attempts out), al_updated_at := now\<rparr>) rows
      | Completed \<Rightarrow> \<exists>view s sev m ag p. fetch_alert t a db = Some view
          \<and> well_formed_summary (vw_hostname view) (vw_user view) s \<and> sev \<in> set SEVERITIES
          \<and> compute_priority (vw_rule_severity view) (Some sev) (vw_occurrence_count view) ag = Inr p
          \<and> rows' = update_rows (\<lambda>r. al_tenant r = t \<and> al_id r = a) (complete_row s sev m (to_attempts out) p now) rows)"




text \<open>The triage handler keeps the store. On a store that satisfies the invariant, with the
  agent statuses the assets table admits, whatever the model answers and whatever valid
  change other workers commit meanwhile, handling a message with an alert id commits, keeps the invariant and
  touches no other tenant's rows; a message without one is refused.\<close>

theorem triage_keeps_store:
  assumes "db_ok db" "db_ok (interfere db)" "assets_ok (interfere db)"
  shows "(if \<exists>a. obj_get payload ''alert_id'' = JStr a \<and> a \<noteq> []
          then \<exists>db' out w'. Triage.handle env interfere now t payload db w = (Inr (db', out), w')
                 \<and> db_ok db' \<and> isolated t (interfere db) db'
          else Triage.handle env interfere now t payload db w = (Inl NoAlertId, w))"
  using run_kept [where interfere = interfere, OF assms] by (auto simp: Triage.handle_def split: json.splits)

theorem triage_keeps_store_witness:
  "\<exists>db' out w'. Triage.handle demo_triage id 9 ''t1'' [(''alert_id'', JStr ''al_2'')] demo_db fresh_world = (Inr (db', out), w') \<and> db_ok db'"
proof -
  have "assets_ok demo_db" by code_simp
  then have ok: "db_ok (id demo_db)" "assets_ok (id demo_db)" using demo_db_ok by simp_all
  have "obj_get [(''alert_id'', JStr ''al_2'')] ''alert_id'' = JStr ''al_2''" by code_simp
  with triage_keeps_store [where interfere = id, OF demo_db_ok ok,
      of "[(''alert_id'', JStr ''al_2'')]" demo_triage 9 "''t1''" fresh_world]
  show ?thesis by auto
qed

text \<open>what can reach the prompt is bounded and confined. The context of an alert is that tenant's
  alert, at most the configured number of events, and in every event, at every depth, no
  dropped key, no list of more than 16 items and no text longer than the configured cap and the mark.\<close>

theorem prompt_context_bounded:
  assumes "assemble_context env t a db = Some ctx"
  shows "cx_tenant ctx = t \<and> vw_tenant (cx_alert ctx) = t \<and> vw_id (cx_alert ctx) = a
       \<and> length (cx_events ctx) \<le> ts_max_events (te_settings env)
       \<and> (\<forall>ev \<in> set (cx_events ctx). bounded_value (ts_max_field_chars (te_settings env) + length (te_mark env)) (JObj ev))"
proof -
  have ev: "bounded_value (n + length mark) (JObj (trim_event mark n e))" for n mark e
    using trim_value_bounded [of n mark "JObj e"] by (simp add: trim_event_def)
  obtain view where v: "fetch_alert t a db = Some view"
    using assms by (auto simp: assemble_context_def split: option.splits)
  from assms show ?thesis
    using fetch_alert_id [OF v] ev by (auto simp: assemble_context_def v Let_def)
qed

theorem prompt_context_bounded_witness:
  "\<exists>ctx. assemble_context demo_triage ''t1'' ''al_1'' demo_db = Some ctx \<and> cx_events ctx = [[(''hostname'', JStr ''ws-1'')]]
     \<and> cx_tenant ctx = ''t1''"
proof -
  have "map_option cx_events (assemble_context demo_triage ''t1'' ''al_1'' demo_db) = Some [[(''hostname'', JStr ''ws-1'')]]" by code_simp
  then obtain ctx where r: "assemble_context demo_triage ''t1'' ''al_1'' demo_db = Some ctx" "cx_events ctx = [[(''hostname'', JStr ''ws-1'')]]"
    by auto
  from prompt_context_bounded [OF r(1)] r show ?thesis by simp
qed

text \<open>The completed update recomputes the priority from the occurrence count read before the model was
  called. When the alerter counts further occurrences meanwhile, the stored score is that of the old
  count: here 50 occurrences are on the row, and the score and its recorded inputs are those of one.\<close>

definition busy :: "alert_db \<Rightarrow> alert_db" where
  "busy db = db\<lparr>db_alerts := update_rows (\<lambda>r. al_id r = ''al_1'') (\<lambda>r. r\<lparr>al_occurrence_count := 50\<rparr>) (db_alerts db)\<rparr>"

lemma triage_writes_stale_priority:
  "map_sum id (\<lambda>(db', out). map (\<lambda>r. (al_occurrence_count r, al_priority_score r)) (take 1 (db_alerts db')))
     (fst (run demo_triage busy 9 ''t1'' ''al_1'' demo_db fresh_world))
     = Inr [(50, ps_score (projr (compute_priority ''high'' (Some ''low'') 1 ''none'')))]
   \<and> ps_score (projr (compute_priority ''high'' (Some ''low'') 1 ''none'')) < ps_score (projr (compute_priority ''high'' (Some ''low'') 50 ''none''))"
  by code_simp

end
