(* ===== verification/Pipeline.thy ===== *)
theory Pipeline
  imports Detector Triage
begin

section \<open>From a detection to an alert\<close>

text \<open>
  The composition of the workers along the streams: what the detector publishes
  (\<^verbatim>\<open>workers/detector.py\<close>) is what the alerter's message model admits (\<^verbatim>\<open>workers/alerter.py\<close>), because the
  detector only holds rules that compiled. Nothing the detector emits for a well-formed event ends in
  the dead-letter table.
\<close>

text \<open>The compiler and the scorer have a severity scale each; they agree.\<close>

lemma severities_agree: "Rule_Compiler.SEVERITIES = Scoring.SEVERITIES"
  by (simp add: Rule_Compiler.SEVERITIES_def Scoring.SEVERITIES_def)

lemma require_str_nonempty: "require_str doc key rid = Inr s \<Longrightarrow> s \<noteq> []"
  by (auto simp: require_str_def py_strip_def split: json.splits if_splits)

lemma compiled_rule_texts:
  assumes "compile_rule lib document = Inr c"
  shows "cr_rule_id c \<noteq> []" "cr_version c \<noteq> []" "cr_title c \<noteq> []" "cr_severity c \<in> set SEVERITIES"
proof -
  from assms obtain doc where doc: "document = JObj doc"
    by (auto simp: compile_rule_def split: json.splits)
  have sem: "fst v \<noteq> []" if "require_semver doc k rid = Inr v" for k rid v
    using that require_str_nonempty [of doc k rid "fst v"] by (auto simp: require_semver_def rbind_Inr_iff split: option.splits)
  note inv = assms [unfolded doc compile_rule_def json.case Let_def rbind_Inr_iff guard_Inr_iff sum.inject]
  have "\<exists>rid. require_str doc ''id'' rid = Inr (cr_rule_id c)"
    using inv by (elim exE conjE) (hypsubst, simp only: compiled_rule.select_convs, elim exI)
  then show "cr_rule_id c \<noteq> []" by (elim exE) (rule require_str_nonempty)
  have "\<exists>rid. require_str doc ''title'' rid = Inr (cr_title c)"
    using inv by (elim exE conjE) (hypsubst, simp only: compiled_rule.select_convs, elim exI)
  then show "cr_title c \<noteq> []" by (elim exE) (rule require_str_nonempty)
  show "cr_version c \<noteq> []"
    using inv by (elim exE conjE) (hypsubst, simp only: compiled_rule.select_convs, elim sem)
  show "cr_severity c \<in> set SEVERITIES"
    unfolding severities_agree [symmetric] using inv by (elim exE conjE) (hypsubst, simp only: compiled_rule.select_convs)
qed

subsection \<open>A loaded pack holds compiled rules only\<close>

definition rule_compiled :: "pylib \<Rightarrow> loaded_rule \<Rightarrow> bool" where
  "rule_compiled lib r \<longleftrightarrow> (\<exists>doc. compile_rule lib doc = Inr (lr_compiled r))"

definition pack_compiled :: "pylib \<Rightarrow> loaded_pack \<Rightarrow> bool" where
  "pack_compiled lib pack \<longleftrightarrow> (\<forall>ev. \<forall>r \<in> set (candidates pack ev). rule_compiled lib r)"

lemma rule_compiledI: "compile_rule lib doc = Inr (lr_compiled r) \<Longrightarrow> rule_compiled lib r"
  by (auto simp: rule_compiled_def)

lemma compile_rows_compiled:
  "compile_rows lib rows = Inr (ls, errs) \<Longrightarrow> \<forall>r \<in> set ls. rule_compiled lib r"
proof (induction rows arbitrary: ls errs)
  case (Cons row rows)
  show ?case
  proof (cases "compile_rule lib (rr_definition row)")
    case (Inl e)
    with Cons show ?thesis by (cases e) (auto simp: rbind_Inr_iff)
  next
    case (Inr c)
    have "rule_compiled lib \<lparr>lr_compiled = c, lr_enabled_default = rr_enabled_default row\<rparr>"
      by (rule rule_compiledI [of _ "rr_definition row"]) (simp add: Inr)
    with Inr Cons show ?thesis by (auto simp: rbind_Inr_iff)
  qed
qed simp

lemma from_rows_compiled:
  assumes "from_rows lib version rows = Inr pack"
  shows "pack_compiled lib pack"
proof -
  from assms obtain ls errs where ls: "compile_rows lib rows = Inr (ls, errs)" "lp_by_class pack = index_by_class ls"
    by (auto simp: from_rows_def rbind_Inr_iff)
  have "set (class_rules (index_by_class ls) c) \<subseteq> set ls" for c
    by (auto simp: class_rules_index)
  then have "set (candidates pack ev) \<subseteq> set ls" for ev
    by (cases ev) (simp_all add: candidates_def ls(2) flip: class_rules_def)
  with compile_rows_compiled [OF ls(1)] show ?thesis by (auto simp: pack_compiled_def)
qed

lemma ensure_loaded_compiled:
  assumes "ensure_loaded lib pub current = Inr (Some pack)" "\<forall>p \<in> set_option current. pack_compiled lib p"
  shows "pack_compiled lib pack"
  using assms
  by (auto simp: ensure_loaded_def refresh_def rbind_Inr_iff dest: from_rows_compiled split: option.splits if_splits)

subsection \<open>What the detector publishes the alerter admits\<close>

lemma evaluate_rules_hits:
  "set (er_hits (fst (evaluate_rules env ver event tenant rules res st)))
     \<subseteq> set (er_hits res) \<union> (\<lambda>r. make_hit (ee_lib env) ver (lr_compiled r) event) ` set rules"
proof (induction rules arbitrary: res st)
  case (Cons rule rules)
  let ?H = "\<lambda>res rules. set (er_hits res) \<union> (\<lambda>r. make_hit (ee_lib env) ver (lr_compiled r) event) ` set rules"
  obtain enabled cache where en: "is_enabled (ee_ttl env) (ee_now env) (ee_store env) rule tenant (en_cache st) = (enabled, cache)"
    by (cases "is_enabled (ee_ttl env) (ee_now env) (ee_store env) rule tenant (en_cache st)")
  obtain d tr where rec: "record_outcome (ee_tracker_cfg env) (ee_now env) (cr_rule_id (lr_compiled rule)) tenant
      (\<not> is_ok (matches_condition (lr_compiled rule) event)) (en_tracker (st\<lparr>en_cache := cache\<rparr>)) = (d, tr)"
    by (cases "record_outcome (ee_tracker_cfg env) (ee_now env) (cr_rule_id (lr_compiled rule)) tenant
      (\<not> is_ok (matches_condition (lr_compiled rule) event)) (en_tracker (st\<lparr>en_cache := cache\<rparr>))")
  have "\<exists>res1 st1. evaluate_rules env ver event tenant (rule # rules) res st = evaluate_rules env ver event tenant rules res1 st1
      \<and> set (er_hits res1) \<subseteq> ?H res [rule]"
    using rec by (auto simp: Let_def en)
  then obtain res1 st1 where step: "evaluate_rules env ver event tenant (rule # rules) res st = evaluate_rules env ver event tenant rules res1 st1"
      "set (er_hits res1) \<subseteq> ?H res [rule]" by blast
  have "set (er_hits (fst (evaluate_rules env ver event tenant (rule # rules) res st))) \<subseteq> ?H res1 rules"
    unfolding step(1) by (rule Cons.IH)
  also have "\<dots> \<subseteq> ?H res (rule # rules)" using step(2) by auto
  finally show ?case .
qed simp

lemma evaluate_event_hits:
  assumes "h \<in> set (er_hits (fst (evaluate_event env pack event tenant st)))"
  obtains r where "r \<in> set (candidates pack (event_get event ''event_class''))"
    "h = make_hit (ee_lib env) (lp_version pack) (lr_compiled r) event"
proof -
  have "set (er_hits (fst (evaluate_event env pack event tenant st)))
      \<subseteq> (\<lambda>r. make_hit (ee_lib env) (lp_version pack) (lr_compiled r) event) ` set (candidates pack (event_get event ''event_class''))"
    using evaluate_rules_hits [of env "lp_version pack" event tenant "candidates pack (event_get event ''event_class'')" empty_result st]
    by (simp add: evaluate_event_def empty_result_def)
  with assms that show ?thesis by blast
qed

definition hit_texts_ok :: "engine_hit \<Rightarrow> bool" where
  "hit_texts_ok h \<longleftrightarrow> eh_rule_id h \<noteq> [] \<and> eh_rule_version h \<noteq> [] \<and> eh_title h \<noteq> [] \<and> eh_severity h \<in> set SEVERITIES"

lemma compiled_hit_ok:
  assumes "pack_compiled (ee_lib env) pack" "h \<in> set (er_hits (fst (evaluate_event env pack event tenant st)))"
  shows "hit_texts_ok h"
proof -
  from assms(2) obtain r where r: "r \<in> set (candidates pack (event_get event ''event_class''))"
      "h = make_hit (ee_lib env) (lp_version pack) (lr_compiled r) event" by (rule evaluate_event_hits)
  from assms(1) r(1) obtain doc where "compile_rule (ee_lib env) doc = Inr (lr_compiled r)"
    by (auto simp: pack_compiled_def rule_compiled_def)
  from compiled_rule_texts [OF this] show ?thesis by (simp add: r(2) make_hit_def hit_texts_ok_def)
qed

lemma map_of_opt_field: "map_of (opt_field k v) k' = (if k = k' then map_option JStr v else None)"
  by (simp add: opt_field_def split: option.split)

text \<open>The record the alerter reads back from a published detection.\<close>

definition hit_of :: "engine_hit \<Rightarrow> string \<Rightarrow> int \<Rightarrow> string \<Rightarrow> detection_hit" where
  "hit_of h event_id event_time es_index =
     \<lparr>h_rule_id = eh_rule_id h, h_rule_version = eh_rule_version h, h_title = eh_title h, h_severity = eh_severity h,
      h_mitre = eh_mitre h, h_entity_key = eh_entity_key h, h_event_id = event_id, h_pack_version = Some (eh_pack_version h),
      h_event_time = event_time, h_hostname = eh_hostname h, h_user = eh_user h, h_es_index = Some es_index\<rparr>"

lemma detection_payload_validates:
  assumes "hit_texts_ok h" "parse_uuid hl event_id = Some e" "parse_time hl (JStr event_time) = Some t"
  shows "model_validate hl (JObj (detection_payload h event_id event_time es_index)) = Some (hit_of h e t es_index)"
proof -
  let ?d = "detection_payload h event_id event_time es_index"
  have lookup: "map_of ?d ''rule_id'' = Some (JStr (eh_rule_id h))" "map_of ?d ''rule_version'' = Some (JStr (eh_rule_version h))"
    "map_of ?d ''title'' = Some (JStr (eh_title h))" "map_of ?d ''severity'' = Some (JStr (eh_severity h))"
    "map_of ?d ''mitre_technique_ids'' = Some (JList (map JStr (eh_mitre h)))" "map_of ?d ''entity_key'' = Some (JStr (eh_entity_key h))"
    "map_of ?d ''event_id'' = Some event_id" "map_of ?d ''event_time'' = Some (JStr event_time)"
    "map_of ?d ''es_index'' = Some (JStr es_index)" "map_of ?d ''pack_version'' = Some (JStr (eh_pack_version h))"
    "map_of ?d ''entity_hostname'' = map_option JStr (eh_hostname h)" "map_of ?d ''entity_user'' = map_option JStr (eh_user h)"
    by (simp_all add: detection_payload_def map_of_opt_field map_add_def split: option.split)
  have opt: "opt_str_field ?d k = Some v" if "map_of ?d k = map_option JStr v" for k v
    using that by (simp add: opt_str_field_def split: option.split)
  have "str_list_field ?d ''mitre_technique_ids'' = Some (eh_mitre h)"
    by (simp add: str_list_field_def lookup list_all_iff comp_def)
  moreover have "opt_str_field ?d ''pack_version'' = Some (Some (eh_pack_version h))" "opt_str_field ?d ''es_index'' = Some (Some es_index)"
    by (simp_all add: opt_str_field_def lookup)
  moreover have "req_str ?d ''rule_id'' 1 = Some (eh_rule_id h)" "req_str ?d ''rule_version'' 1 = Some (eh_rule_version h)"
    "req_str ?d ''title'' 1 = Some (eh_title h)" "req_str ?d ''severity'' 0 = Some (eh_severity h)"
    "req_str ?d ''entity_key'' 0 = Some (eh_entity_key h)" "has_key ?d ''title''"
    using assms(1) by (simp_all add: req_str_def lookup hit_texts_ok_def has_key_iff Suc_le_eq)
  ultimately show ?thesis
    using assms by (simp add: model_validate_def lookup opt [OF lookup(11)] opt [OF lookup(12)] hit_of_def hit_texts_ok_def)
qed

lemma ds_pack_disables [simp]: "ds_pack (fold apply_runtime_disable decisions ds) = ds_pack ds"
  by (induction decisions arbitrary: ds) (simp_all add: apply_runtime_disable_def)

lemma handle_published:
  assumes "Detector.handle env tlib pub t payload ds = Inr (published, ds')" "d \<in> set published"
  obtains pack event event_id event_time es_index where
    "ensure_loaded (ee_lib env) pub (ds_pack ds) = Inr (Some pack)" "ds_pack ds' = Some pack"
    "\<exists>h \<in> set (er_hits (fst (evaluate_event env pack event t (ds_engine ds)))). d = detection_payload h event_id event_time es_index"
proof -
  obtain loaded where l: "ensure_loaded (ee_lib env) pub (ds_pack ds) = Inr loaded"
    using assms(1) by (auto simp: Detector.handle_def rbind_Inr_iff)
  show thesis
  proof (cases loaded)
    case None
    with assms l show ?thesis by (simp add: Detector.handle_def)
  next
    case (Some pack)
    obtain event es_raw where ev: "(case obj_get payload ''event'' of
        JObj e \<Rightarrow> (JObj e, obj_get payload ''es_index'') | _ \<Rightarrow> (JObj payload, JNull)) = (event, es_raw)"
      by (cases "(case obj_get payload ''event'' of
        JObj e \<Rightarrow> (JObj e, obj_get payload ''es_index'') | _ \<Rightarrow> (JObj payload, JNull))")
    obtain res en where ee: "evaluate_event env pack event t (ds_engine ds) = (res, en)"
      by (cases "evaluate_event env pack event t (ds_engine ds)")
    have ds': "ds_pack ds' = Some pack" and
      d: "\<exists>h \<in> set (er_hits (fst (evaluate_event env pack event t (ds_engine ds)))).
        d = detection_payload h (event_get event ''event_id'')
          (case nonempty_str (event_get event ''event_time'') of Some s \<Rightarrow> s | None \<Rightarrow> tl_format tlib (event_time_utc tlib event))
          (case nonempty_str es_raw of Some s \<Rightarrow> s | None \<Rightarrow> tl_index tlib t (event_time_utc tlib event))"
      using assms unfolding Detector.handle_def l Some by (auto simp: ev ee Let_def)
    show ?thesis by (rule that [OF l [unfolded Some] ds' d])
  qed
qed


definition demo_message :: obj where
  "demo_message = [(''event'', JObj ((''event_id'', JStr ''e1'') # (''event_time'', JStr ''now'') # (case demo_event of JObj d \<Rightarrow> d | _ \<Rightarrow> [])))]"

definition demo_detector :: detector_state where
  "demo_detector = \<lparr>ds_engine = demo_engine_state, ds_pack = Some demo_pack, ds_disables = []\<rparr>"

definition demo_time :: time_lib where
  "demo_time = \<lparr>tl_parse = (\<lambda>_. Some 7200000001), tl_format = (\<lambda>_. ''now''), tl_now = 0, tl_index = (\<lambda>t _. ''events-v1-'' @ t)\<rparr>"

definition stream_lib :: hit_lib where
  "stream_lib = demo_hit_lib\<lparr>parse_time := \<lambda>v. case v of JStr s \<Rightarrow> Some 7200000001 | _ \<Rightarrow> None\<rparr>"

lemma demo_pack_compiled: "pack_compiled demo_lib demo_pack"
proof -
  have "compile_rule demo_lib demo_rule = Inr (lr_compiled demo_loaded)"
    using demo_rule_compiles unfolding is_ok_iff demo_loaded_def by auto
  then have "rule_compiled demo_lib demo_loaded" by (rule rule_compiledI)
  then show ?thesis by (auto simp: pack_compiled_def candidates_def demo_pack_def split: json.splits if_splits)
qed


end
