(* ===== verification/Py_Json.thy ===== *)
theory Py_Json
  imports Soc_Prelude
begin

section \<open>Compact JSON text\<close>

text \<open>
  \<^verbatim>\<open>json.dumps(v, separators=(",", ":"), default=str)\<close> with the default \<^verbatim>\<open>ensure_ascii\<close>: the text is ASCII, so
  its length is its size in UTF-8. \<^verbatim>\<open>repr\<close> of a finite float is the argument \<open>fr\<close>. \<open>JOther s\<close> stands for an object whose
  \<^verbatim>\<open>str\<close> is \<open>s\<close>.
\<close>

definition quote_char :: char where "quote_char = CHR 0x22"

definition backslash :: char where "backslash = CHR 0x5C"

definition hex_lower :: "nat \<Rightarrow> char" where
  "hex_lower n = ''0123456789abcdef'' ! (n mod 16)"

definition json_escape :: "char \<Rightarrow> string" where
  "json_escape c =
     (let n = (of_char c :: nat) in
      if c = quote_char \<or> c = backslash then [backslash, c]
      else if n = 10 then [backslash, CHR ''n'']
      else if n = 13 then [backslash, CHR ''r'']
      else if n = 9 then [backslash, CHR ''t'']
      else if n = 8 then [backslash, CHR ''b'']
      else if n = 12 then [backslash, CHR ''f'']
      else if 32 \<le> n \<and> n \<le> 126 then [c]
      else [backslash, CHR ''u'', CHR ''0'', CHR ''0'', hex_lower (n div 16), hex_lower n])"

definition json_string :: "string \<Rightarrow> string" where
  "json_string s = [quote_char] @ concat (map json_escape s) @ [quote_char]"

fun json_dumps :: "(rat \<Rightarrow> string) \<Rightarrow> json \<Rightarrow> string" where
  "json_dumps fr JNull = ''null''"
| "json_dumps fr (JBool b) = (if b then ''true'' else ''false'')"
| "json_dumps fr (JInt i) = int_to_dec i"
| "json_dumps fr (JFloat (Fin q)) = fr q"
| "json_dumps fr (JFloat PosInf) = ''Infinity''"
| "json_dumps fr (JFloat NegInf) = ''-Infinity''"
| "json_dumps fr (JFloat NaN) = ''NaN''"
| "json_dumps fr (JStr s) = json_string s"
| "json_dumps fr (JList vs) = ''['' @ join_with '','' (map (json_dumps fr) vs) @ '']''"
| "json_dumps fr (JObj d) = ''{'' @ join_with '','' (map (\<lambda>(k, v). json_string k @ '':'' @ json_dumps fr v) d) @ ''}''"
| "json_dumps fr (JOther s) = json_string s"

definition json_size :: "(rat \<Rightarrow> string) \<Rightarrow> json \<Rightarrow> nat" where
  "json_size fr v = length (json_dumps fr v)"

lemma json_escape_length: "1 \<le> length (json_escape c)" "c = quote_char \<or> c = backslash \<Longrightarrow> length (json_escape c) = 2"
  by (auto simp: json_escape_def Let_def)

lemma length_json_string:
  "length (json_string s) \<ge> 2 + length s + length (filter (\<lambda>c. c = quote_char \<or> c = backslash) s)"
proof (induction s)
  case (Cons c s)
  then show ?case using json_escape_length [of c] by (auto simp: json_string_def)
qed (simp add: json_string_def)

lemma length_json_string_single: "length (json_string s) \<ge> 2 + length s"
  using length_json_string [of s] by linarith

end
