(* ===== verification/Event_Schema.thy ===== *)
theory Event_Schema
  imports Py_Json Py_Re
begin

section \<open>The event schema\<close>

text \<open>
  \<^verbatim>\<open>soc_schemas/events.py\<close>, \<^verbatim>\<open>normalize.py\<close> and \<^verbatim>\<open>identity.py\<close>: the event models, their validation and the helpers of
  the ingest path. A model class is a value of \<open>ftype\<close>, a table of its fields in the order of the class, with the
  defaults and the after-validator; \<open>validate_value\<close> is the behaviour the code relies on of the validation library
  (unknown keys are forbidden, a missing field takes its default or fails, null only where the
  annotation admits it) together with the dump of the result (\<^verbatim>\<open>mode="json", exclude_none=True\<close>): its value is the dumped
  document, or \<open>None\<close> for a \<^verbatim>\<open>ValidationError\<close>. The library's conversions of scalars (integers, booleans,
  timestamps, UUIDs) are the parameter \<open>schema_lib\<close>: each answers with the dumped form, or \<open>None\<close>.
\<close>

record schema_lib =
  to_int :: "json \<Rightarrow> int option"
  to_bool :: "json \<Rightarrow> bool option"
  to_time :: "json \<Rightarrow> string option"
  to_uuid :: "json \<Rightarrow> string option"
  to_uuid4 :: "json \<Rightarrow> string option"
  fl_repr :: "rat \<Rightarrow> string"

subsection \<open>Bounds\<close>

definition SCHEMA_VERSION :: string where "SCHEMA_VERSION = ''1.0.0''"

definition MAX_CMD_LINE_CHARS :: nat where "MAX_CMD_LINE_CHARS = 32 * 1024"

definition MAX_MESSAGE_CHARS :: nat where "MAX_MESSAGE_CHARS = 32 * 1024"

definition MAX_UNMAPPED_BYTES :: nat where "MAX_UNMAPPED_BYTES = 16 * 1024"

definition MAX_FIELDS_BYTES :: nat where "MAX_FIELDS_BYTES = 16 * 1024"

definition MAX_RAW_BYTES :: nat where "MAX_RAW_BYTES = 32 * 1024"

definition MAX_SOURCE_EVENT_ID_CHARS :: nat where "MAX_SOURCE_EVENT_ID_CHARS = 128"

definition MAX_HOSTNAME_CHARS :: nat where "MAX_HOSTNAME_CHARS = 253"

subsection \<open>Types of fields\<close>

datatype ftype =
    FStr nat "nat option"
  | FInt "int option" "int option"
  | FBool
  | FTime
  | FUuid
  | FUuid4
  | FEnum "string list"
  | FDict
  | FScalars
  | FOpt ftype
  | FVia ftype "schema_lib \<Rightarrow> json \<Rightarrow> json option"
  | FModel "(string \<times> json option \<times> ftype) list" "obj \<Rightarrow> bool"

definition scalar_value :: "json \<Rightarrow> bool" where
  "scalar_value v = (case v of JStr _ \<Rightarrow> True | JInt _ \<Rightarrow> True | JFloat _ \<Rightarrow> True | JBool _ \<Rightarrow> True | _ \<Rightarrow> False)"

fun traverse :: "('a \<Rightarrow> 'b option) \<Rightarrow> 'a list \<Rightarrow> 'b list option" where
  "traverse f [] = Some []"
| "traverse f (x # xs) = Option.bind (f x) (\<lambda>y. map_option ((#) y) (traverse f xs))"

lemma traverse_cong [fundef_cong]:
  "xs = ys \<Longrightarrow> (\<And>x. x \<in> set ys \<Longrightarrow> f x = g x) \<Longrightarrow> traverse f xs = traverse g ys"
  by (induction ys arbitrary: xs) auto

definition drop_null :: "obj \<Rightarrow> obj" where
  "drop_null d = filter (\<lambda>kv. snd kv \<noteq> JNull) d"

fun validate_value :: "schema_lib \<Rightarrow> ftype \<Rightarrow> json \<Rightarrow> json option" where
  "validate_value lib (FStr lo hi) v =
     (case v of JStr s \<Rightarrow> if lo \<le> length s \<and> (case hi of None \<Rightarrow> True | Some m \<Rightarrow> length s \<le> m) then Some v else None | _ \<Rightarrow> None)"
| "validate_value lib (FInt lo hi) v =
     (case to_int lib v of
        Some i \<Rightarrow> if (case lo of None \<Rightarrow> True | Some m \<Rightarrow> m \<le> i) \<and> (case hi of None \<Rightarrow> True | Some m \<Rightarrow> i \<le> m)
                  then Some (JInt i) else None
      | None \<Rightarrow> None)"
| "validate_value lib FBool v = map_option JBool (to_bool lib v)"
| "validate_value lib FTime v = map_option JStr (to_time lib v)"
| "validate_value lib FUuid v = map_option JStr (to_uuid lib v)"
| "validate_value lib FUuid4 v = map_option JStr (to_uuid4 lib v)"
| "validate_value lib (FEnum names) v = (case v of JStr s \<Rightarrow> if s \<in> set names then Some v else None | _ \<Rightarrow> None)"
| "validate_value lib FDict v = (case v of JObj _ \<Rightarrow> Some v | _ \<Rightarrow> None)"
| "validate_value lib FScalars v =
     (case v of JObj d \<Rightarrow> if list_all (\<lambda>kv. scalar_value (snd kv)) d then Some v else None | _ \<Rightarrow> None)"
| "validate_value lib (FOpt t) v = (if v = JNull then Some JNull else validate_value lib t v)"
| "validate_value lib (FVia t f) v = Option.bind (validate_value lib t v) (f lib)"
| "validate_value lib (FModel fs post) v =
     (case v of
        JObj d \<Rightarrow>
          if \<not> set (map fst d) \<subseteq> set (map fst fs) then None
          else Option.bind
            (traverse (\<lambda>(name, dflt, t). map_option (Pair name)
                (case map_of d name of None \<Rightarrow> dflt | Some x \<Rightarrow> validate_value lib t x)) fs)
            (\<lambda>vals. let out = drop_null vals in if post out then Some (JObj out) else None)
      | _ \<Rightarrow> None)"

definition no_post :: "obj \<Rightarrow> bool" where "no_post d = True"

definition is_null :: "obj \<Rightarrow> string \<Rightarrow> bool" where
  "is_null d k = (obj_get d k = JNull)"

definition sub_obj :: "obj \<Rightarrow> string \<Rightarrow> obj" where
  "sub_obj d k = (case obj_get d k of JObj x \<Rightarrow> x | _ \<Rightarrow> [])"

subsection \<open>The models\<close>

definition opt_text :: ftype where "opt_text = FOpt (FStr 0 None)"

definition User :: ftype where
  "User = FModel [(''name'', None, FStr 1 None), (''domain'', Some JNull, opt_text), (''uid'', Some JNull, opt_text)] no_post"

definition lower_text :: "schema_lib \<Rightarrow> json \<Rightarrow> json option" where
  "lower_text lib v = (case v of JStr s \<Rightarrow> Some (JStr (py_lower s)) | _ \<Rightarrow> Some v)"

definition hex_digit :: "char \<Rightarrow> bool" where
  "hex_digit c = (c \<in> set ''0123456789abcdef'')"

text \<open>\<^verbatim>\<open>^([0-9a-f]{2}:){5}[0-9a-f]{2}$\<close> and \<^verbatim>\<open>^[0-9a-f]{64}$\<close>, with \<^verbatim>\<open>match\<close>: a final newline passes.\<close>

definition mac_matches :: "string \<Rightarrow> bool" where
  "mac_matches s = (let parts = py_split (CHR '':'') (drop_final_newline s) in
     length parts = 6 \<and> list_all (\<lambda>p. length p = 2 \<and> list_all hex_digit p) parts)"

definition sha256_matches :: "string \<Rightarrow> bool" where
  "sha256_matches s = (let t = drop_final_newline s in length t = 64 \<and> list_all hex_digit t)"

definition normalize_mac :: "schema_lib \<Rightarrow> json \<Rightarrow> json option" where
  "normalize_mac lib v =
     (case v of JStr s \<Rightarrow> if mac_matches (py_lower s) then Some (JStr (py_lower s)) else None | _ \<Rightarrow> Some v)"

definition OS_FAMILIES :: "string list" where
  "OS_FAMILIES = [''windows'', ''linux'', ''macos'', ''other'']"

definition Host :: ftype where
  "Host = FModel [(''hostname'', None, FVia (FStr 1 (Some MAX_HOSTNAME_CHARS)) lower_text), (''os_family'', None, FEnum OS_FAMILIES),
     (''os_name'', None, FStr 0 None), (''os_version'', None, FStr 0 None), (''ip'', Some JNull, opt_text),
     (''mac'', Some JNull, FVia opt_text normalize_mac)] no_post"

definition device_xor_ingest_key :: "obj \<Rightarrow> bool" where
  "device_xor_ingest_key d = (is_null d ''device_id'' \<noteq> is_null d ''ingest_key_id'')"

definition SourceInfo :: ftype where
  "SourceInfo = FModel (map (\<lambda>k. (k, Some JNull, opt_text))
     [''device_id'', ''agent_version'', ''ingest_key_id'', ''vendor'', ''product'']) device_xor_ingest_key"

definition semver_text :: "schema_lib \<Rightarrow> json \<Rightarrow> json option" where
  "semver_text lib v = (case v of
     JStr s \<Rightarrow> (let parts = py_split (CHR ''.'') (drop_final_newline s) in
        if length parts = 3 \<and> list_all (\<lambda>p. p \<noteq> [] \<and> list_all is_digit p) parts then Some v else None)
   | _ \<Rightarrow> Some v)"

definition cap_bytes :: "nat \<Rightarrow> schema_lib \<Rightarrow> json \<Rightarrow> json option" where
  "cap_bytes cap lib v = (if v \<noteq> JNull \<and> json_size (fl_repr lib) v > cap then None else Some v)"

definition SOURCE_TYPES :: "string list" where "SOURCE_TYPES = [''agent'', ''generic'']"

definition SEVERITY_HINTS :: "string list" where "SEVERITY_HINTS = [''low'', ''medium'', ''high'', ''critical'']"

text \<open>The fields of the envelope, with what the class puts for \<^verbatim>\<open>event_class\<close> and \<^verbatim>\<open>activity\<close>.\<close>

definition EventEnvelope :: "string \<Rightarrow> json option \<times> ftype \<Rightarrow> (string \<times> json option \<times> ftype) list" where
  "EventEnvelope cls activity =
     [(''event_id'', None, FUuid4), (''tenant_id'', None, FUuid),
      (''schema_version'', Some (JStr SCHEMA_VERSION), FVia (FStr 0 None) semver_text),
      (''event_class'', Some (JStr cls), FEnum [cls]), (''activity'', activity), (''event_time'', None, FTime),
      (''time_inferred'', Some (JBool False), FBool), (''ingest_time'', None, FTime), (''source_type'', None, FEnum SOURCE_TYPES),
      (''source_event_id'', Some JNull, FOpt (FStr 0 (Some MAX_SOURCE_EVENT_ID_CHARS))), (''batch_id'', None, FUuid),
      (''source'', None, SourceInfo), (''host'', Some JNull, FOpt Host), (''severity_hint'', Some JNull, FOpt (FEnum SEVERITY_HINTS)),
      (''unmapped'', Some JNull, FVia (FOpt FDict) (cap_bytes MAX_UNMAPPED_BYTES))]"

definition agent_requirements :: "obj \<Rightarrow> bool" where
  "agent_requirements d =
     (if obj_get d ''source_type'' = JStr ''agent''
      then \<not> is_null d ''source_event_id'' \<and> \<not> is_null d ''host'' \<and> \<not> is_null (sub_obj d ''source'') ''device_id''
      else \<not> is_null (sub_obj d ''source'') ''ingest_key_id'')"

definition sha256_hex :: "schema_lib \<Rightarrow> json \<Rightarrow> json option" where
  "sha256_hex lib v =
     (case v of JStr s \<Rightarrow> if sha256_matches (py_lower s) then Some (JStr (py_lower s)) else None | _ \<Rightarrow> Some v)"

definition ProcessInfo :: ftype where
  "ProcessInfo = FModel [(''pid'', None, FInt None None), (''name'', None, FStr 1 None), (''exe_path'', None, FStr 1 None),
     (''cmd_line'', Some JNull, FOpt (FStr 0 (Some MAX_CMD_LINE_CHARS))), (''sha256'', Some JNull, FVia opt_text sha256_hex),
     (''created_time'', Some JNull, FOpt FTime)] no_post"

definition opt_int :: ftype where "opt_int = FOpt (FInt None None)"

definition ParentProcessInfo :: ftype where
  "ParentProcessInfo = FModel [(''pid'', Some JNull, opt_int), (''name'', Some JNull, opt_text), (''exe_path'', Some JNull, opt_text)] no_post"

definition process_rules :: "obj \<Rightarrow> bool" where
  "process_rules d =
     ((obj_get d ''activity'' = JStr ''process_launched'' \<longrightarrow>
         \<not> is_null (sub_obj d ''process'') ''cmd_line'' \<and> \<not> is_null d ''parent''
         \<and> \<not> is_null (sub_obj d ''parent'') ''pid'' \<and> \<not> is_null (sub_obj d ''parent'') ''name'')
    \<and> (obj_get d ''activity'' \<noteq> JStr ''process_terminated'' \<longrightarrow> is_null d ''exit_code''))"

definition ProcessActivityEvent :: ftype where
  "ProcessActivityEvent = FModel
     (EventEnvelope ''process_activity'' (None, FEnum [''process_launched'', ''process_terminated''])
      @ [(''process'', None, ProcessInfo), (''parent'', Some JNull, FOpt ParentProcessInfo), (''user'', None, User),
         (''exit_code'', Some JNull, opt_int)])
     (\<lambda>d. agent_requirements d \<and> process_rules d)"

definition port :: "json option \<times> ftype" where
  "port = (Some JNull, FOpt (FInt (Some 0) (Some 65535)))"

definition NetworkEndpoint :: ftype where
  "NetworkEndpoint = FModel [(''ip'', None, FStr 1 None), (''port'', port)] no_post"

definition NetworkDestination :: ftype where
  "NetworkDestination = FModel [(''ip'', None, FStr 1 None), (''port'', port), (''hostname'', Some JNull, opt_text)] no_post"

definition NetworkProcessRef :: ftype where
  "NetworkProcessRef = FModel [(''pid'', Some JNull, opt_int), (''name'', Some JNull, opt_text), (''exe_path'', Some JNull, opt_text)] no_post"

definition network_rules :: "obj \<Rightarrow> bool" where
  "network_rules d =
     ((obj_get d ''protocol'' \<in> {JStr ''tcp'', JStr ''udp''} \<longrightarrow>
         \<not> is_null (sub_obj d ''src'') ''port'' \<and> \<not> is_null (sub_obj d ''dst'') ''port'')
    \<and> (obj_get d ''activity'' \<noteq> JStr ''connection_closed'' \<longrightarrow> is_null d ''bytes_sent'' \<and> is_null d ''bytes_received''))"

definition NetworkActivityEvent :: ftype where
  "NetworkActivityEvent = FModel
     (EventEnvelope ''network_activity'' (None, FEnum [''connection_opened'', ''connection_closed''])
      @ [(''direction'', None, FEnum [''inbound'', ''outbound'', ''unknown'']),
         (''protocol'', None, FEnum [''tcp'', ''udp'', ''icmp'', ''other'']), (''src'', None, NetworkEndpoint),
         (''dst'', None, NetworkDestination), (''process'', Some JNull, FOpt NetworkProcessRef),
         (''bytes_sent'', Some JNull, opt_int), (''bytes_received'', Some JNull, opt_int), (''user'', Some JNull, FOpt User)])
     (\<lambda>d. agent_requirements d \<and> network_rules d)"

definition LOGON_TYPES :: "string list" where
  "LOGON_TYPES = [''interactive'', ''network'', ''remote_interactive'', ''service'', ''batch'', ''unlock'', ''other'']"

definition FAILURE_REASONS :: "string list" where
  "FAILURE_REASONS = [''bad_password'', ''unknown_user'', ''account_locked'', ''account_disabled'', ''expired'', ''other'']"

definition derive_status :: "obj \<Rightarrow> obj" where
  "derive_status d =
     (if obj_get d ''activity'' = JStr ''logon_failed'' \<and> \<not> has_key d ''status'' then d @ [(''status'', JStr ''failure'')] else d)"

definition auth_rules :: "obj \<Rightarrow> bool" where
  "auth_rules d = (obj_get d ''activity'' = JStr ''logon_failed'' \<longrightarrow>
     obj_get d ''status'' = JStr ''failure'' \<and> \<not> is_null d ''failure_reason'')"

definition AuthenticationEvent :: ftype where
  "AuthenticationEvent = FModel
     (EventEnvelope ''authentication'' (None, FEnum [''logon'', ''logoff'', ''logon_failed''])
      @ [(''status'', None, FEnum [''success'', ''failure'']), (''logon_type'', None, FEnum LOGON_TYPES), (''user'', None, User),
         (''src_ip'', Some JNull, opt_text), (''session_id'', Some JNull, opt_text),
         (''failure_reason'', Some JNull, FOpt (FEnum FAILURE_REASONS))])
     (\<lambda>d. agent_requirements d \<and> auth_rules d)"

definition GenericEvent :: ftype where
  "GenericEvent = FModel
     (EventEnvelope ''generic'' (Some (JStr ''log''), FEnum [''log''])
      @ [(''message'', None, FStr 1 (Some MAX_MESSAGE_CHARS)), (''category'', Some JNull, opt_text),
         (''fields'', Some JNull, FVia (FOpt FScalars) (cap_bytes MAX_FIELDS_BYTES)),
         (''raw'', None, FVia FDict (cap_bytes MAX_RAW_BYTES)), (''raw_truncated'', Some (JBool False), FBool)])
     agent_requirements"

definition CLASS_MODELS :: "(string \<times> ftype) list" where
  "CLASS_MODELS = [(''process_activity'', ProcessActivityEvent), (''network_activity'', NetworkActivityEvent),
     (''authentication'', AuthenticationEvent), (''generic'', GenericEvent)]"

subsection \<open>Parsing and the helpers of the ingest path\<close>

text \<open>The exceptions: the one the worker expects, with its code, and any other (\<^verbatim>\<open>TypeError\<close>, \<^verbatim>\<open>ValueError\<close>).\<close>

datatype event_error = UnknownEventClass | SchemaValidationFailed | Raised

definition error_code :: "event_error \<Rightarrow> string" where
  "error_code e = (case e of UnknownEventClass \<Rightarrow> ''UNKNOWN_EVENT_CLASS'' | SchemaValidationFailed \<Rightarrow> ''SCHEMA_VALIDATION_FAILED'' | Raised \<Rightarrow> [])"

text \<open>\<^verbatim>\<open>event_class in EventClass.__members__\<close>: a list or a mapping is not hashable and makes the test raise.\<close>

definition known_class :: "json \<Rightarrow> event_error + string option" where
  "known_class v =
     (case v of
        JStr c \<Rightarrow> Inr (if c \<in> set (map fst CLASS_MODELS) then Some c else None)
      | JList _ \<Rightarrow> Inl Raised
      | JObj _ \<Rightarrow> Inl Raised
      | _ \<Rightarrow> Inr None)"

definition parse_event :: "schema_lib \<Rightarrow> obj \<Rightarrow> event_error + obj" where
  "parse_event lib d =
     rbind (known_class (obj_get d ''event_class'')) (\<lambda>c.
       case Option.bind c (map_of CLASS_MODELS) of
         None \<Rightarrow> Inl UnknownEventClass
       | Some model \<Rightarrow>
           (case validate_value lib model (JObj (if c = Some ''authentication'' then derive_status d else d)) of
              Some (JObj doc) \<Rightarrow> Inr doc
            | _ \<Rightarrow> Inl SchemaValidationFailed))"

definition CLIENT_ASSIGNED_FIELDS :: "string list" where
  "CLIENT_ASSIGNED_FIELDS = [''event_id'', ''tenant_id'', ''ingest_time'', ''batch_id'', ''source'']"

definition strip_client_assigned_fields :: "obj \<Rightarrow> obj" where
  "strip_client_assigned_fields payload = filter (\<lambda>kv. fst kv \<notin> set CLIENT_ASSIGNED_FIELDS) payload"

definition known_fields_for_class :: "string \<Rightarrow> string list" where
  "known_fields_for_class c = (case map_of CLASS_MODELS c of Some (FModel fs post) \<Rightarrow> map fst fs | _ \<Rightarrow> [])"

text \<open>\<^verbatim>\<open>dict(v)\<close> of a truthy value: a mapping, or a sequence of pairs; anything else raises, and so does a key
  that is not hashable. A result with a key that is no string is \<open>Some None\<close>.\<close>

definition pair_of :: "json \<Rightarrow> (json \<times> json) option" where
  "pair_of v = (case v of
     JList [k, x] \<Rightarrow> Some (k, x)
   | JStr [a, b] \<Rightarrow> Some (JStr [a], JStr [b])
   | JObj [(a, _), (b, _)] \<Rightarrow> Some (JStr a, JStr b)
   | _ \<Rightarrow> None)"

definition dict_of :: "json \<Rightarrow> obj option option" where
  "dict_of v = (case v of
     JObj u \<Rightarrow> Some (Some u)
   | JList xs \<Rightarrow>
       Option.bind (traverse pair_of xs) (\<lambda>ps.
         if list_ex (\<lambda>(k, _). case k of JList _ \<Rightarrow> True | JObj _ \<Rightarrow> True | _ \<Rightarrow> False) ps then None
         else if list_ex (\<lambda>(k, _). case k of JStr _ \<Rightarrow> False | _ \<Rightarrow> True) ps then Some None
         else Some (Some (foldl (\<lambda>u (k, x). case k of JStr s \<Rightarrow> AList.update s x u | _ \<Rightarrow> u) [] ps)))
   | _ \<Rightarrow> None)"

definition falsy :: "json \<Rightarrow> bool" where
  "falsy v = (v \<in> {JNull, JBool False, JInt 0, JFloat (Fin 0), JStr [], JList [], JObj []})"

text \<open>\<^verbatim>\<open>unmapped[key] = value\<close> for every unknown field; a dictionary with keys that are no strings stays one,
  which no model admits (\<open>JOther\<close>).\<close>

definition move_unknown_to_unmapped :: "obj \<Rightarrow> event_error + obj" where
  "move_unknown_to_unmapped payload =
     rbind (known_class (obj_get payload ''event_class'')) (\<lambda>c.
       case c of
         None \<Rightarrow> Inl UnknownEventClass
       | Some c \<Rightarrow>
           (case (if falsy (obj_get payload ''unmapped'') then Some (Some []) else dict_of (obj_get payload ''unmapped'')) of
              None \<Rightarrow> Inl Raised
            | Some u0 \<Rightarrow>
                let known = known_fields_for_class c;
                    rest = filter (\<lambda>kv. fst kv \<noteq> ''unmapped'') payload;
                    result = filter (\<lambda>kv. fst kv \<in> set known) rest;
                    extra = filter (\<lambda>kv. fst kv \<notin> set known) rest in
                Inr (case u0 of
                    None \<Rightarrow> result @ [(''unmapped'', JOther ''dict'')]
                  | Some u \<Rightarrow>
                      let unmapped = foldl (\<lambda>u (k, v). AList.update k v u) u extra in
                      if unmapped = [] then result else result @ [(''unmapped'', JObj unmapped)])))"

definition truncate_generic_raw :: "(rat \<Rightarrow> string) \<Rightarrow> nat \<Rightarrow> obj \<Rightarrow> obj \<times> bool" where
  "truncate_generic_raw fr max_bytes raw =
     (let serialized = json_dumps fr (JObj raw) in
      if length serialized \<le> max_bytes then (raw, False)
      else ([(''truncated_json'', JStr (take (max_bytes - 64) serialized))], True))"

subsection \<open>What validation guarantees\<close>

lemma traverse_Some_iff: "traverse f xs = Some ys \<longleftrightarrow> list_all2 (\<lambda>x y. f x = Some y) xs ys"
proof (induction xs arbitrary: ys)
  case (Cons x xs)
  then show ?case by (cases ys) (auto simp: Option.bind_eq_Some_conv)
qed (cases ys; auto)

lemma obj_get_drop_null: "distinct (map fst d) \<Longrightarrow> obj_get (drop_null d) k = obj_get d k"
proof (induction d)
  case (Cons kv d)
  obtain k' v where kv: "kv = (k', v)" by (cases kv)
  have "map_of d k = None" if "k = k'" using Cons.prems that by (auto simp: kv map_of_eq_None_iff)
  with Cons show ?case by (auto simp: kv drop_null_def obj_get_def)
qed (simp add: drop_null_def)

lemma drop_null_keys: "set (map fst (drop_null d)) \<subseteq> set (map fst d)" "distinct (map fst d) \<Longrightarrow> distinct (map fst (drop_null d))"
  by (auto simp: drop_null_def distinct_map_filter)

text \<open>The value a field of a validated model has: the validated given value, or the default.\<close>

definition field_value :: "schema_lib \<Rightarrow> obj \<Rightarrow> string \<times> json option \<times> ftype \<Rightarrow> json option" where
  "field_value lib d f = (case f of (name, dflt, t) \<Rightarrow> case map_of d name of None \<Rightarrow> dflt | Some x \<Rightarrow> validate_value lib t x)"

lemma validate_model:
  assumes "validate_value lib (FModel fs post) (JObj d) = Some v" "distinct (map fst fs)"
  obtains out where "v = JObj out" "post out" "set (map fst out) \<subseteq> set (map fst fs)" "distinct (map fst out)"
    "set (map fst d) \<subseteq> set (map fst fs)" "\<And>f. f \<in> set fs \<Longrightarrow> field_value lib d f = Some (obj_get out (fst f))"
proof -
  let ?g = "\<lambda>(name, dflt, t). map_option (Pair name) (case map_of d name of None \<Rightarrow> dflt | Some x \<Rightarrow> validate_value lib t x)"
  from assms(1) obtain vals where vals: "traverse ?g fs = Some vals" "post (drop_null vals)" "v = JObj (drop_null vals)"
      "set (map fst d) \<subseteq> set (map fst fs)"
    by (auto simp: Option.bind_eq_Some_conv Let_def split: if_splits)
  have rel: "list_all2 (\<lambda>f kv. fst kv = fst f \<and> field_value lib d f = Some (snd kv)) fs vals"
    using vals(1) unfolding traverse_Some_iff
    by (rule list_all2_mono) (auto simp: field_value_def split: option.splits prod.splits)
  then have names: "map fst vals = map fst fs"
    by (induction rule: list_all2_induct) auto
  have "field_value lib d f = Some (obj_get vals (fst f))" if "f \<in> set fs" for f
  proof -
    from that obtain i where i: "i < length fs" "f = fs ! i" by (auto simp: in_set_conv_nth)
    with rel have kv: "fst (vals ! i) = fst f" "field_value lib d f = Some (snd (vals ! i))" "i < length vals"
      by (auto simp: list_all2_conv_all_nth)
    have "map_of vals (fst (vals ! i)) = Some (snd (vals ! i))"
      using kv(3) assms(2) names by (intro map_of_is_SomeI) auto
    with kv show ?thesis by (simp add: obj_get_def)
  qed
  then show ?thesis
    using vals names assms(2) drop_null_keys [of vals] obj_get_drop_null [of vals]
    by (intro that [of "drop_null vals"]) auto
qed

lemma models_distinct: "(c, m) \<in> set CLASS_MODELS \<Longrightarrow> \<exists>fs post. m = FModel fs post \<and> distinct (map fst fs)"
  by (auto simp: CLASS_MODELS_def ProcessActivityEvent_def NetworkActivityEvent_def AuthenticationEvent_def GenericEvent_def EventEnvelope_def)

lemma models_envelope:
  assumes "map_of CLASS_MODELS c = Some m"
  shows "\<exists>act own post. m = FModel (EventEnvelope c act @ own) post \<and> (\<forall>d. post d \<longrightarrow> agent_requirements d)"
  using assms
  by (auto simp: CLASS_MODELS_def ProcessActivityEvent_def NetworkActivityEvent_def AuthenticationEvent_def GenericEvent_def
      split: if_splits)

lemma obj_get_derive_status: "k \<noteq> ''status'' \<Longrightarrow> map_of (derive_status d) k = map_of d k"
  by (simp add: derive_status_def map_add_def split: option.split)

lemma parse_event_model:
  assumes "parse_event lib d = Inr doc"
  obtains c act own post where
    "obj_get d ''event_class'' = JStr c" "map_of CLASS_MODELS c = Some (FModel (EventEnvelope c act @ own) post)"
    "set (map fst doc) \<subseteq> set (map fst (EventEnvelope c act @ own))" "distinct (map fst doc)" "post doc" "agent_requirements doc"
    "\<And>f. f \<in> set (EventEnvelope c act @ own) \<Longrightarrow>
       field_value lib (if c = ''authentication'' then derive_status d else d) f = Some (obj_get doc (fst f))"
proof -
  from assms obtain c m where c: "obj_get d ''event_class'' = JStr c" "map_of CLASS_MODELS c = Some m"
      and v: "validate_value lib m (JObj (if c = ''authentication'' then derive_status d else d)) = Some (JObj doc)"
  proof -
    from assms obtain c' where k: "known_class (obj_get d ''event_class'') = Inr c'"
      by (auto simp: parse_event_def rbind_Inr_iff)
    from assms obtain m where m: "Option.bind c' (map_of CLASS_MODELS) = Some m"
      by (cases "Option.bind c' (map_of CLASS_MODELS)") (auto simp: parse_event_def k)
    then obtain c where c: "c' = Some c" "map_of CLASS_MODELS c = Some m" by (auto simp: Option.bind_eq_Some_conv)
    have "obj_get d ''event_class'' = JStr c"
      using k unfolding c(1) by (auto simp: known_class_def split: json.splits if_splits)
    moreover have "validate_value lib m (JObj (if c = ''authentication'' then derive_status d else d)) = Some (JObj doc)"
      using assms by (auto simp: parse_event_def k m c split: option.splits json.splits)
    ultimately show ?thesis using that c(2) by blast
  qed
  from models_envelope [OF c(2)] obtain act own post where m: "m = FModel (EventEnvelope c act @ own) post"
      "\<forall>d. post d \<longrightarrow> agent_requirements d" by blast
  have "distinct (map fst (EventEnvelope c act @ own))"
    using models_distinct [OF map_of_SomeD [OF c(2)]] m(1) by auto
  from v [unfolded m(1)] this show ?thesis
  proof (rule validate_model)
    fix out assume "JObj doc = JObj out" "post out" "set (map fst out) \<subseteq> set (map fst (EventEnvelope c act @ own))"
      "distinct (map fst out)" "\<And>f. f \<in> set (EventEnvelope c act @ own) \<Longrightarrow>
       field_value lib (if c = ''authentication'' then derive_status d else d) f = Some (obj_get out (fst f))"
    then show ?thesis using that [OF c(1) c(2) [unfolded m(1)]] m(2) by simp
  qed
qed

lemma validate_model_obj:
  assumes "validate_value lib (FModel fs post) v = Some w"
  obtains d where "v = JObj d"
  using assms by (cases v) auto

lemma valid_source:
  assumes "validate_value lib SourceInfo v = Some w"
  obtains s where "w = JObj s" "device_xor_ingest_key s"
proof -
  from assms obtain d where "v = JObj d" unfolding SourceInfo_def by (rule validate_model_obj)
  with assms have "validate_value lib (FModel (map (\<lambda>k. (k, Some JNull, opt_text))
     [''device_id'', ''agent_version'', ''ingest_key_id'', ''vendor'', ''product'']) device_xor_ingest_key) (JObj d) = Some w"
    by (simp only: SourceInfo_def)
  then show ?thesis by (rule validate_model) (simp, rule that)
qed

lemma valid_capped:
  "validate_value lib (FVia (FOpt FDict) (cap_bytes m)) x = Some y \<Longrightarrow> y = JNull \<or> (\<exists>u. y = JObj u \<and> json_size (fl_repr lib) (JObj u) \<le> m)"
  "validate_value lib (FVia FDict (cap_bytes m)) x = Some y \<Longrightarrow> \<exists>u. y = JObj u \<and> json_size (fl_repr lib) (JObj u) \<le> m"
  by (cases x; simp add: cap_bytes_def split: if_splits; fastforce)+

lemma valid_hostname:
  "validate_value lib (FVia (FStr lo (Some hi)) lower_text) x = Some y \<Longrightarrow> \<exists>s. y = JStr (py_lower s) \<and> lo \<le> length s \<and> length s \<le> hi"
  by (cases x) (auto simp: lower_text_def split: if_splits)

lemma length_py_lower [simp]: "length (py_lower s) = length s"
  by (simp add: py_lower_def)

lemma valid_host:
  assumes "validate_value lib Host v = Some w"
  obtains h n where "w = JObj h" "obj_get h ''hostname'' = JStr n" "1 \<le> length n" "length n \<le> MAX_HOSTNAME_CHARS" "py_lower n = n"
proof -
  from assms obtain d where d: "v = JObj d" unfolding Host_def by (rule validate_model_obj)
  from assms [unfolded d Host_def] show ?thesis
  proof (rule validate_model)
    fix out
    assume out: "w = JObj out" and f: "\<And>f. f \<in> set [(''hostname'', None, FVia (FStr 1 (Some MAX_HOSTNAME_CHARS)) lower_text),
        (''os_family'', None, FEnum OS_FAMILIES), (''os_name'', None, FStr 0 None), (''os_version'', None, FStr 0 None),
        (''ip'', Some JNull, opt_text), (''mac'', Some JNull, FVia opt_text normalize_mac)] \<Longrightarrow>
      field_value lib d f = Some (obj_get out (fst f))"
    have "field_value lib d (''hostname'', None, FVia (FStr 1 (Some MAX_HOSTNAME_CHARS)) lower_text) = Some (obj_get out ''hostname'')"
      using f [of "(''hostname'', None, FVia (FStr 1 (Some MAX_HOSTNAME_CHARS)) lower_text)"] by simp
    then obtain x where "validate_value lib (FVia (FStr 1 (Some MAX_HOSTNAME_CHARS)) lower_text) x = Some (obj_get out ''hostname'')"
      unfolding field_value_def by (cases "map_of d ''hostname''") simp_all
    from valid_hostname [OF this] obtain s where "obj_get out ''hostname'' = JStr (py_lower s)" "1 \<le> length s" "length s \<le> MAX_HOSTNAME_CHARS"
      by blast
    then show ?thesis using out by (intro that [of out "py_lower s"]) simp_all
  qed simp
qed

definition event_typed :: "schema_lib \<Rightarrow> string \<Rightarrow> obj \<Rightarrow> bool" where
  "event_typed lib c doc \<longleftrightarrow>
     obj_get doc ''event_class'' = JStr c \<and> c \<in> set (map fst CLASS_MODELS)
   \<and> set (map fst doc) \<subseteq> set (known_fields_for_class c) \<and> distinct (map fst doc) \<and> agent_requirements doc
   \<and> (\<exists>s. obj_get doc ''source'' = JObj s \<and> device_xor_ingest_key s)
   \<and> (is_null doc ''unmapped'' \<or> (\<exists>u. obj_get doc ''unmapped'' = JObj u \<and> json_size (fl_repr lib) (JObj u) \<le> MAX_UNMAPPED_BYTES))
   \<and> (is_null doc ''host'' \<or> (\<exists>h n. obj_get doc ''host'' = JObj h \<and> obj_get h ''hostname'' = JStr n
        \<and> 1 \<le> length n \<and> length n \<le> MAX_HOSTNAME_CHARS \<and> py_lower n = n))
   \<and> (c = ''generic'' \<longrightarrow> (\<exists>r. obj_get doc ''raw'' = JObj r \<and> json_size (fl_repr lib) (JObj r) \<le> MAX_RAW_BYTES))
   \<and> (c = ''process_activity'' \<longrightarrow> process_rules doc) \<and> (c = ''network_activity'' \<longrightarrow> network_rules doc)
   \<and> (c = ''authentication'' \<longrightarrow> auth_rules doc)"

lemma parse_event_typed:
  assumes "parse_event lib d = Inr doc"
  obtains c where "obj_get d ''event_class'' = JStr c" "event_typed lib c doc"
proof -
  from assms obtain c act own post where m: "obj_get d ''event_class'' = JStr c"
      "map_of CLASS_MODELS c = Some (FModel (EventEnvelope c act @ own) post)"
      "set (map fst doc) \<subseteq> set (map fst (EventEnvelope c act @ own))" "distinct (map fst doc)" "post doc" "agent_requirements doc"
    and f: "\<And>f. f \<in> set (EventEnvelope c act @ own) \<Longrightarrow>
       field_value lib (if c = ''authentication'' then derive_status d else d) f = Some (obj_get doc (fst f))"
    by (rule parse_event_model) blast
  define d' where "d' = (if c = ''authentication'' then derive_status d else d)"
  note field = f [folded d'_def]
  have cls: "obj_get doc ''event_class'' = JStr c"
    using field [of "(''event_class'', Some (JStr c), FEnum [c])"]
    by (auto simp: EventEnvelope_def field_value_def split: option.splits json.splits if_splits)
  have src: "\<exists>s. obj_get doc ''source'' = JObj s \<and> device_xor_ingest_key s"
    using field [of "(''source'', None, SourceInfo)"]
    by (auto simp: EventEnvelope_def field_value_def split: option.splits elim!: valid_source)
  have host: "is_null doc ''host'' \<or> (\<exists>h n. obj_get doc ''host'' = JObj h \<and> obj_get h ''hostname'' = JStr n
        \<and> 1 \<le> length n \<and> length n \<le> MAX_HOSTNAME_CHARS \<and> py_lower n = n)"
    using field [of "(''host'', Some JNull, FOpt Host)"]
    by (auto simp: EventEnvelope_def field_value_def is_null_def split: option.splits if_splits elim!: valid_host)
  have unmapped: "is_null doc ''unmapped'' \<or> (\<exists>u. obj_get doc ''unmapped'' = JObj u \<and> json_size (fl_repr lib) (JObj u) \<le> MAX_UNMAPPED_BYTES)"
    using field [of "(''unmapped'', Some JNull, FVia (FOpt FDict) (cap_bytes MAX_UNMAPPED_BYTES))"]
    by (cases "map_of d' ''unmapped''") (auto simp: EventEnvelope_def field_value_def is_null_def dest!: valid_capped simp del: validate_value.simps)
  have raw: "\<exists>r. obj_get doc ''raw'' = JObj r \<and> json_size (fl_repr lib) (JObj r) \<le> MAX_RAW_BYTES" if "c = ''generic''"
  proof -
    have "(''raw'', None, FVia FDict (cap_bytes MAX_RAW_BYTES)) \<in> set (EventEnvelope c act @ own)"
      using m(2) that by (auto simp: CLASS_MODELS_def GenericEvent_def EventEnvelope_def)
    from field [OF this] show ?thesis
      by (cases "map_of d' ''raw''") (auto simp: field_value_def dest!: valid_capped simp del: validate_value.simps)
  qed
  have rules: "(c = ''process_activity'' \<longrightarrow> process_rules doc) \<and> (c = ''network_activity'' \<longrightarrow> network_rules doc)
     \<and> (c = ''authentication'' \<longrightarrow> auth_rules doc)"
    using m(2,5) by (auto simp: CLASS_MODELS_def ProcessActivityEvent_def NetworkActivityEvent_def AuthenticationEvent_def)
  have known: "set (map fst doc) \<subseteq> set (known_fields_for_class c)" "c \<in> set (map fst CLASS_MODELS)"
    using m(3) map_of_SomeD [OF m(2)] by (simp_all add: known_fields_for_class_def m(2) image_iff) force
  show ?thesis
    by (rule that [OF m(1)]) (use cls known m(4,6) src host unmapped raw rules in \<open>simp add: event_typed_def\<close>)
qed

end
