(* ===== verification/Normalizer.thy ===== *)
theory Normalizer
  imports Event_Schema Alert_Store
begin

section \<open>The normalizer\<close>

text \<open>
  \<^verbatim>\<open>workers/normalizer.py\<close>: a raw batch of client events is validated event by event, malformed events go to the
  dead-letter table, valid ones to the event store, and only what the store confirmed is published to the
  streams of the detector and of the asset inventory. \<open>norm_lib\<close> holds what the worker takes from elsewhere: the
  validation library, SHA-256, the rendering of timestamps and the text of a validation error. The event store is
  a function from a bulk request to one status per item. Random UUIDs come from \<open>fresh\<close>, two per event.
  Metrics are not modelled; usage counters are, those of the current day.
\<close>

record norm_lib =
  nl_schema :: schema_lib
  nl_sha256 :: "string \<Rightarrow> string"
  nl_iso :: "string \<Rightarrow> string"
  nl_aware :: "string \<Rightarrow> bool"
  nl_month :: "string \<Rightarrow> string"
  nl_detail :: "obj \<Rightarrow> string"

definition SOURCE_KEYS :: "string list" where
  "SOURCE_KEYS = [''device_id'', ''agent_version'', ''ingest_key_id'', ''vendor'', ''product'']"

record raw_batch =
  rb_batch_id :: string
  rb_source_type :: string
  rb_ingest_time :: string
  rb_source :: obj
  rb_events :: "json list"

definition validate_batch :: "schema_lib \<Rightarrow> obj \<Rightarrow> raw_batch option" where
  "validate_batch lib payload =
     Option.bind (Option.bind (map_of payload ''batch_id'') (to_uuid lib)) (\<lambda>batch_id.
     Option.bind (map_of payload ''source_type'') (\<lambda>st.
     Option.bind (Option.bind (map_of payload ''ingest_time'') (to_time lib)) (\<lambda>ingest_time.
     case (st, map_of payload ''source'', map_of payload ''events'') of
       (JStr source_type, Some (JObj source), Some (JList events)) \<Rightarrow>
         if source_type \<in> set SOURCE_TYPES
         then Some \<lparr>rb_batch_id = batch_id, rb_source_type = source_type, rb_ingest_time = ingest_time,
                    rb_source = source, rb_events = events\<rparr>
         else None
     | _ \<Rightarrow> None)))"

record norm_event =
  ne_doc :: obj
  ne_index :: string
  ne_doc_id :: string
  ne_host :: "obj option"
  ne_event_time :: string

definition parse_event_time :: "norm_lib \<Rightarrow> json \<Rightarrow> bool" where
  "parse_event_time lib v = (case v of JStr s \<Rightarrow> s \<noteq> [] \<and> nl_aware lib s | _ \<Rightarrow> False)"

definition first_message :: "obj \<Rightarrow> string option" where
  "first_message raw =
     (case filter (\<lambda>k. case obj_get raw k of JStr s \<Rightarrow> s \<noteq> [] | _ \<Rightarrow> False) [''message'', ''msg'', ''log''] of
        [] \<Rightarrow> None
      | k # _ \<Rightarrow> (case obj_get raw k of JStr s \<Rightarrow> Some s | _ \<Rightarrow> None))"

definition best_effort_generic :: "norm_lib \<Rightarrow> obj \<Rightarrow> obj" where
  "best_effort_generic lib raw_event =
     (let fr = fl_repr (nl_schema lib);
          message = (case first_message raw_event of Some m \<Rightarrow> m | None \<Rightarrow> json_dumps fr (JObj raw_event));
          (raw, truncated) = truncate_generic_raw fr MAX_RAW_BYTES raw_event in
      [(''event_class'', JStr ''generic''), (''activity'', JStr ''log''), (''message'', JStr (take MAX_MESSAGE_CHARS message)),
       (''raw'', JObj raw)]
      @ (if truncated then [(''raw_truncated'', JBool True)] else [])
      @ (case obj_get raw_event ''category'' of JStr c \<Rightarrow> if c \<noteq> [] then [(''category'', JStr c)] else [] | _ \<Rightarrow> [])
      @ (case obj_get raw_event ''fields'' of
           JObj f \<Rightarrow> if list_all (\<lambda>kv. scalar_value (snd kv)) f \<and> json_size fr (JObj f) \<le> 16 * 1024
                     then [(''fields'', JObj f)] else []
         | _ \<Rightarrow> [])
      @ (case obj_get raw_event ''host'' of
           JObj h \<Rightarrow> (case validate_value (nl_schema lib) Host (JObj h) of Some h' \<Rightarrow> [(''host'', h')] | None \<Rightarrow> [])
         | _ \<Rightarrow> [])
      @ (case obj_get raw_event ''event_time'' of JStr t \<Rightarrow> [(''event_time'', JStr t)] | _ \<Rightarrow> [])
      @ (case obj_get raw_event ''source_event_id'' of
           JStr s \<Rightarrow> if 0 < length s \<and> length s \<le> MAX_SOURCE_EVENT_ID_CHARS then [(''source_event_id'', JStr s)] else []
         | _ \<Rightarrow> []))"

text \<open>\<^verbatim>\<open>identity.py\<close> and \<^verbatim>\<open>tenancy/es.py\<close>, for a canonical tenant id.\<close>

definition derive_es_document_id :: "norm_lib \<Rightarrow> string \<Rightarrow> string \<Rightarrow> string \<Rightarrow> event_error + string" where
  "derive_es_document_id lib tenant source_scope source_event_id =
     (if source_scope = [] \<or> source_event_id = [] then Inl Raised
      else Inr (nl_sha256 lib (tenant @ '':'' @ source_scope @ '':'' @ source_event_id)))"

definition events_index_name :: "norm_lib \<Rightarrow> string \<Rightarrow> string \<Rightarrow> string" where
  "events_index_name lib tenant event_time = ''events-v1-'' @ tenant @ ''-'' @ nl_month lib event_time"

definition str_of :: "json \<Rightarrow> string" where
  "str_of v = (case v of JStr s \<Rightarrow> s | _ \<Rightarrow> [])"

text \<open>The server-authoritative part of the envelope.\<close>

definition server_fields :: "norm_lib \<Rightarrow> string \<Rightarrow> raw_batch \<Rightarrow> string \<Rightarrow> obj" where
  "server_fields lib tenant batch event_id =
     [(''event_id'', JStr event_id), (''tenant_id'', JStr tenant), (''schema_version'', JStr SCHEMA_VERSION),
      (''ingest_time'', JStr (nl_iso lib (rb_ingest_time batch))), (''batch_id'', JStr (rb_batch_id batch)),
      (''source_type'', JStr (rb_source_type batch)),
      (''source'', JObj (map (\<lambda>k. (k, obj_get (rb_source batch) k)) (filter (\<lambda>k. \<not> is_null (rb_source batch) k) SOURCE_KEYS)))]"

definition dict_update :: "obj \<Rightarrow> obj \<Rightarrow> obj" where
  "dict_update d kvs = foldl (\<lambda>d (k, v). AList.update k v d) d kvs"

definition with_time :: "norm_lib \<Rightarrow> raw_batch \<Rightarrow> obj \<Rightarrow> obj" where
  "with_time lib batch d =
     (if parse_event_time lib (obj_get d ''event_time'') then d
      else dict_update d [(''event_time'', JStr (nl_iso lib (rb_ingest_time batch))), (''time_inferred'', JBool True)])"

definition with_source_id :: "raw_batch \<Rightarrow> string \<Rightarrow> obj \<Rightarrow> obj" where
  "with_source_id batch uuid d =
     (if rb_source_type batch = ''generic'' \<and> falsy (obj_get d ''source_event_id'')
      then dict_update d [(''source_event_id'', JStr uuid)] else d)"

definition normalize_one ::
  "norm_lib \<Rightarrow> string \<Rightarrow> raw_batch \<Rightarrow> string \<times> string \<Rightarrow> obj \<Rightarrow> event_error + norm_event" where
  "normalize_one lib tenant batch uuids raw_event =
     (let stripped = strip_client_assigned_fields raw_event in
      rbind (if rb_source_type batch = ''generic''
             then rbind (known_class (obj_get stripped ''event_class'')) (\<lambda>c.
               if c = None then Inr (best_effort_generic lib raw_event) else move_unknown_to_unmapped stripped)
             else move_unknown_to_unmapped stripped) (\<lambda>normalized.
      let d = with_source_id batch (snd uuids)
                (with_time lib batch (dict_update normalized (server_fields lib tenant batch (fst uuids)))) in
      rbind (parse_event (nl_schema lib) d) (\<lambda>doc.
      let source = sub_obj doc ''source'';
          device = str_of (obj_get source ''device_id'');
          source_scope = (if device \<noteq> [] then device else str_of (obj_get source ''ingest_key_id'')) in
      rbind (derive_es_document_id lib tenant source_scope (str_of (obj_get doc ''source_event_id''))) (\<lambda>doc_id.
      Inr \<lparr>ne_doc = doc, ne_index = events_index_name lib tenant (str_of (obj_get doc ''event_time'')), ne_doc_id = doc_id,
           ne_host = (case obj_get doc ''host'' of JObj h \<Rightarrow> Some h | _ \<Rightarrow> None),
           ne_event_time = str_of (obj_get doc ''event_time'')\<rparr>))))"

subsection \<open>Effects\<close>

record event_letter = dead_letter +
  dl_payload :: string

record 'es norm_state =
  ns_es :: 'es
  ns_letters :: "event_letter list"
  ns_usage :: "string \<times> string \<Rightarrow> nat"
  ns_first_event :: "string list"
  ns_onboarding :: "string list"
  ns_published :: "(string \<times> string \<times> obj) list"

definition DLQ_MAX_PAYLOAD_BYTES :: nat where "DLQ_MAX_PAYLOAD_BYTES = 65536"

definition clamp_payload_bytes :: "(rat \<Rightarrow> string) \<Rightarrow> json \<Rightarrow> string" where
  "clamp_payload_bytes fr payload =
     take DLQ_MAX_PAYLOAD_BYTES (case payload of JStr s \<Rightarrow> s | v \<Rightarrow> json_dumps fr v)"

definition event_letter_row :: "norm_lib \<Rightarrow> string \<Rightarrow> string option \<Rightarrow> string \<Rightarrow> json \<times> string \<times> string \<Rightarrow> event_letter" where
  "event_letter_row lib tenant batch_id source_type letter =
     (case letter of (payload, code, detail) \<Rightarrow>
        dead_letter.extend (dead_letter_row tenant batch_id source_type code (Some detail))
          (event_letter.fields (clamp_payload_bytes (fl_repr (nl_schema lib)) payload)))"

definition bump_usage :: "string \<Rightarrow> string \<Rightarrow> nat \<Rightarrow> 'es norm_state \<Rightarrow> 'es norm_state" where
  "bump_usage tenant metric count s =
     (if count = 0 then s else s\<lparr>ns_usage := (ns_usage s)((tenant, metric) := ns_usage s (tenant, metric) + count)\<rparr>)"

definition dead_letter_events ::
  "norm_lib \<Rightarrow> string \<Rightarrow> string option \<Rightarrow> (json \<times> string \<times> string) list \<Rightarrow> string \<Rightarrow> 'es norm_state \<Rightarrow> 'es norm_state" where
  "dead_letter_events lib tenant batch_id dead source_type s =
     (if dead = [] then s
      else bump_usage tenant ''rejected_events'' (length dead)
        (s\<lparr>ns_letters := ns_letters s @ map (event_letter_row lib tenant batch_id source_type) dead\<rparr>))"

definition mark_first_event :: "string \<Rightarrow> 'es norm_state \<Rightarrow> 'es norm_state" where
  "mark_first_event tenant s =
     (if tenant \<in> set (ns_first_event s) then s
      else s\<lparr>ns_first_event := tenant # ns_first_event s,
             ns_onboarding := (if tenant \<in> set (ns_onboarding s) then ns_onboarding s else tenant # ns_onboarding s)\<rparr>)"

definition asset_observation :: "raw_batch \<Rightarrow> norm_event \<Rightarrow> obj option" where
  "asset_observation batch ev =
     (case ne_host ev of
        None \<Rightarrow> None
      | Some host \<Rightarrow>
          if falsy (obj_get host ''hostname'') then None
          else
            let source = sub_obj (ne_doc ev) ''source'';
                obs = [(''observed_at'', JStr (ne_event_time ev)),
                       (''source'', JStr (if rb_source_type batch = ''agent'' then ''agent'' else ''log_ingest''))]
                  @ map (\<lambda>k. (k, obj_get host k)) [''hostname'', ''os_family'', ''os_name'', ''os_version'', ''ip'', ''mac'']
                  @ (if falsy (obj_get source ''device_id'') then []
                     else [(''device_id'', obj_get source ''device_id''), (''agent_version'', obj_get source ''agent_version'')]) in
            Some (drop_null obs))"

definition publish_event :: "string \<Rightarrow> raw_batch \<Rightarrow> norm_event \<Rightarrow> (string \<times> string \<times> obj) list" where
  "publish_event tenant batch ev =
     (''pipe:normalized'', tenant, ne_doc ev)
     # (case asset_observation batch ev of None \<Rightarrow> [] | Some obs \<Rightarrow> [(''pipe:asset.observations'', tenant, obs)])"

subsection \<open>The handler\<close>

datatype batch_exc = EventRaised | BulkFailed nat | ItemCountMismatch

text \<open>The loop over the events: an exception other than the expected one leaves it. The number of the event
  selects its two random ids.\<close>

fun normalize_events ::
  "norm_lib \<Rightarrow> string \<Rightarrow> raw_batch \<Rightarrow> (nat \<Rightarrow> string) \<Rightarrow> nat \<Rightarrow> json list \<Rightarrow> batch_exc + norm_event list \<times> (json \<times> string \<times> string) list" where
  "normalize_events lib tenant batch fresh i [] = Inr ([], [])"
| "normalize_events lib tenant batch fresh i (raw # raws) =
     (case raw of
        JObj d \<Rightarrow>
          (case normalize_one lib tenant batch (fresh (2 * i), fresh (2 * i + 1)) d of
             Inl Raised \<Rightarrow> Inl EventRaised
           | Inl e \<Rightarrow> rbind (normalize_events lib tenant batch fresh (i + 1) raws) (\<lambda>(evs, dead).
               Inr (evs, (raw, error_code e, nl_detail lib d) # dead))
           | Inr ev \<Rightarrow> rbind (normalize_events lib tenant batch fresh (i + 1) raws) (\<lambda>(evs, dead). Inr (ev # evs, dead)))
      | _ \<Rightarrow> rbind (normalize_events lib tenant batch fresh (i + 1) raws) (\<lambda>(evs, dead).
               Inr (evs, (raw, ''EVENT_NOT_AN_OBJECT'', ''event must be a JSON object'') # dead)))"

definition stored_items :: "norm_event list \<Rightarrow> int list \<Rightarrow> norm_event list" where
  "stored_items evs statuses = map fst (filter (\<lambda>(ev, st). st = 200 \<or> st = 201) (zip evs statuses))"

definition count_status :: "(int \<Rightarrow> bool) \<Rightarrow> int list \<Rightarrow> nat" where
  "count_status p statuses = length (filter p statuses)"

definition store_events ::
  "((string \<times> string \<times> obj) list \<Rightarrow> 'es \<Rightarrow> int list \<times> 'es) \<Rightarrow> string \<Rightarrow> raw_batch \<Rightarrow> norm_event list \<Rightarrow> 'es norm_state
     \<Rightarrow> batch_exc option \<times> 'es norm_state" where
  "store_events bulk tenant batch evs s =
     (if evs = [] then (None, s)
      else
        let (statuses, es) = bulk (map (\<lambda>e. (ne_index e, ne_doc_id e, ne_doc e)) evs) (ns_es s);
            s1 = s\<lparr>ns_es := es\<rparr> in
        if length statuses \<noteq> length evs then (Some ItemCountMismatch, s1)
        else
          let stored = stored_items evs statuses;
              duplicates = count_status (\<lambda>st. st = 409) statuses;
              failures = count_status (\<lambda>st. st \<notin> {200, 201, 409}) statuses;
              s2 = s1\<lparr>ns_published := ns_published s1 @ concat (map (publish_event tenant batch) stored)\<rparr>;
              s3 = bump_usage tenant ''duplicates_dropped'' duplicates (bump_usage tenant ''events_accepted'' (length stored) s2);
              s4 = (if stored = [] then s3 else mark_first_event tenant s3) in
          (if failures = 0 then None else Some (BulkFailed failures), s4))"

definition handle ::
  "norm_lib \<Rightarrow> ((string \<times> string \<times> obj) list \<Rightarrow> 'es \<Rightarrow> int list \<times> 'es) \<Rightarrow> (nat \<Rightarrow> string) \<Rightarrow> string \<Rightarrow> obj \<Rightarrow> 'es norm_state
     \<Rightarrow> batch_exc option \<times> 'es norm_state" where
  "handle lib bulk fresh tenant payload s =
     (case validate_batch (nl_schema lib) payload of
        None \<Rightarrow>
          (None, dead_letter_events lib tenant None [(JObj payload, ''RAW_BATCH_MALFORMED'', nl_detail lib payload)]
             (case obj_get payload ''source_type'' of JStr st \<Rightarrow> if st \<in> set SOURCE_TYPES then st else ''generic'' | _ \<Rightarrow> ''generic'') s)
      | Some batch \<Rightarrow>
          (case normalize_events lib tenant batch fresh 0 (rb_events batch) of
             Inl e \<Rightarrow> (Some e, s)
           | Inr (evs, dead) \<Rightarrow>
               store_events bulk tenant batch evs
                 (dead_letter_events lib tenant (Some (rb_batch_id batch)) dead (rb_source_type batch) s)))"

subsection \<open>Identity comes from the batch\<close>

lemma map_of_dict_update: "map_of (dict_update d kvs) k = (case map_of (rev kvs) k of Some v \<Rightarrow> Some v | None \<Rightarrow> map_of d k)"
proof (induction kvs arbitrary: d)
  case (Cons kv kvs)
  then show ?case by (cases kv) (auto simp: dict_update_def map_add_def split: option.split)
qed (simp add: dict_update_def)

definition SERVER_KEYS :: "string list" where
  "SERVER_KEYS = [''event_id'', ''tenant_id'', ''schema_version'', ''ingest_time'', ''batch_id'', ''source_type'', ''source'']"

lemma map_of_server_fields: "k \<in> set SERVER_KEYS \<Longrightarrow> map_of (server_fields lib t b e) k \<noteq> None"
  by (auto simp: SERVER_KEYS_def server_fields_def)

lemma with_time_other: "k \<noteq> ''event_time'' \<Longrightarrow> k \<noteq> ''time_inferred'' \<Longrightarrow> map_of (with_time lib b d) k = map_of d k"
  by (simp add: with_time_def map_of_dict_update)

lemma with_source_id_other: "k \<noteq> ''source_event_id'' \<Longrightarrow> map_of (with_source_id b u d) k = map_of d k"
  by (simp add: with_source_id_def map_of_dict_update)

lemma map_of_rev_distinct: "distinct (map fst kvs) \<Longrightarrow> map_of (rev kvs) = map_of kvs"
  by (subst map_of_inject_set) (simp_all flip: rev_map)

lemma envelope_lookup:
  assumes "k \<in> set SERVER_KEYS"
  shows "map_of (with_source_id b u (with_time lib b (dict_update d (server_fields lib t b e)))) k = map_of (server_fields lib t b e) k"
proof -
  have "k \<noteq> ''event_time''" "k \<noteq> ''time_inferred''" "k \<noteq> ''source_event_id''"
    using assms by (auto simp: SERVER_KEYS_def)
  moreover have "distinct (map fst (server_fields lib t b e))" by (simp add: server_fields_def)
  moreover obtain v where "map_of (server_fields lib t b e) k = Some v"
    using map_of_server_fields [OF assms, of lib t b e] by blast
  ultimately show ?thesis
    by (simp add: with_source_id_other with_time_other map_of_dict_update map_of_rev_distinct)
qed

lemma normalize_one_Inr:
  assumes "normalize_one lib t b u raw = Inr ev"
  obtains normalized d where
    "d = with_source_id b (snd u) (with_time lib b (dict_update normalized (server_fields lib t b (fst u))))"
    "parse_event (nl_schema lib) d = Inr (ne_doc ev)"
    "derive_es_document_id lib t (let device = str_of (obj_get (sub_obj (ne_doc ev) ''source'') ''device_id'') in
        if device \<noteq> [] then device else str_of (obj_get (sub_obj (ne_doc ev) ''source'') ''ingest_key_id''))
       (str_of (obj_get (ne_doc ev) ''source_event_id'')) = Inr (ne_doc_id ev)"
    "ne_index ev = events_index_name lib t (str_of (obj_get (ne_doc ev) ''event_time''))"
    "ne_event_time ev = str_of (obj_get (ne_doc ev) ''event_time'')"
    "ne_host ev = (case obj_get (ne_doc ev) ''host'' of JObj h \<Rightarrow> Some h | _ \<Rightarrow> None)"
  using assms unfolding normalize_one_def Let_def rbind_Inr_iff
  by (elim exE conjE) (rule that [OF refl], auto simp: Let_def)

lemma envelope_value:
  assumes "parse_event lib d = Inr doc" "\<And>c act. (n, dflt, t) \<in> set (EventEnvelope c act)" "n \<noteq> ''status''"
  shows "field_value lib d (n, dflt, t) = Some (obj_get doc n)"
proof -
  from assms(1) obtain c act own where f: "\<And>f. f \<in> set (EventEnvelope c act @ own) \<Longrightarrow>
       field_value lib (if c = ''authentication'' then derive_status d else d) f = Some (obj_get doc (fst f))"
    by (rule parse_event_model) blast
  have "(n, dflt, t) \<in> set (EventEnvelope c act @ own)" using assms(2) by simp
  from f [OF this] show ?thesis using assms(3) by (simp add: field_value_def obj_get_derive_status split: if_splits)
qed

lemma normalize_one_server_value:
  assumes "normalize_one lib t b u raw = Inr ev" "n \<in> set SERVER_KEYS" "\<And>c act. (n, dflt, ty) \<in> set (EventEnvelope c act)"
  shows "Option.bind (map_of (server_fields lib t b (fst u)) n) (validate_value (nl_schema lib) ty) = Some (obj_get (ne_doc ev) n)"
proof -
  from assms(1) obtain normalized d where d: "d = with_source_id b (snd u) (with_time lib b (dict_update normalized (server_fields lib t b (fst u))))"
      "parse_event (nl_schema lib) d = Inr (ne_doc ev)" by (rule normalize_one_Inr)
  have "map_of d n = map_of (server_fields lib t b (fst u)) n" unfolding d(1) by (rule envelope_lookup [OF assms(2)])
  moreover obtain v where "map_of (server_fields lib t b (fst u)) n = Some v"
    using map_of_server_fields [OF assms(2)] by blast
  moreover have "n \<noteq> ''status''" using assms(2) by (auto simp: SERVER_KEYS_def)
  ultimately show ?thesis
    using envelope_value [OF d(2) assms(3)] by (simp add: field_value_def)
qed

definition source_part :: "raw_batch \<Rightarrow> obj" where
  "source_part b = map (\<lambda>k. (k, obj_get (rb_source b) k)) (filter (\<lambda>k. \<not> is_null (rb_source b) k) SOURCE_KEYS)"

lemma map_of_source_part:
  "map_of (source_part b) k = (if k \<in> set SOURCE_KEYS \<and> \<not> is_null (rb_source b) k then Some (obj_get (rb_source b) k) else None)"
  by (simp add: source_part_def SOURCE_KEYS_def)

lemma opt_text_value: "validate_value lib opt_text v = Some w \<Longrightarrow> w = v"
  by (cases v) (auto simp: opt_text_def)

lemma valid_source_value:
  assumes "validate_value lib SourceInfo (JObj d) = Some w" "k \<in> set SOURCE_KEYS"
  shows "\<exists>s. w = JObj s \<and> obj_get s k = obj_get d k"
proof -
  have "validate_value lib (FModel (map (\<lambda>k. (k, Some JNull, opt_text)) SOURCE_KEYS) device_xor_ingest_key) (JObj d) = Some w"
    using assms(1) by (simp only: SourceInfo_def SOURCE_KEYS_def)
  then show ?thesis
  proof (rule validate_model)
    show "distinct (map fst (map (\<lambda>k. (k, Some JNull, opt_text)) SOURCE_KEYS))" by (simp add: SOURCE_KEYS_def)
    fix out
    assume out: "w = JObj out" and f: "\<And>f. f \<in> set (map (\<lambda>k. (k, Some JNull, opt_text)) SOURCE_KEYS) \<Longrightarrow>
        field_value lib d f = Some (obj_get out (fst f))"
    have "field_value lib d (k, Some JNull, opt_text) = Some (obj_get out k)" using f [of "(k, Some JNull, opt_text)"] assms(2) by simp
    then have "obj_get out k = obj_get d k"
      by (cases "map_of d k") (auto simp: field_value_def obj_get_def dest: opt_text_value)
    then show ?thesis using out by simp
  qed
qed

lemma normalized_identity:
  assumes "normalize_one lib t b u raw = Inr ev"
  shows "\<exists>s. obj_get (ne_doc ev) ''source'' = JObj s \<and> (\<forall>k \<in> set SOURCE_KEYS. obj_get s k = obj_get (rb_source b) k)"
    and "map_option JStr (to_uuid (nl_schema lib) (JStr t)) = Some (obj_get (ne_doc ev) ''tenant_id'')"
    and "map_option JStr (to_uuid (nl_schema lib) (JStr (rb_batch_id b))) = Some (obj_get (ne_doc ev) ''batch_id'')"
    and "map_option JStr (to_uuid4 (nl_schema lib) (JStr (fst u))) = Some (obj_get (ne_doc ev) ''event_id'')"
    and "obj_get (ne_doc ev) ''source_type'' = JStr (rb_source_type b)"
proof -
  note sv = normalize_one_server_value [OF assms]
  show "map_option JStr (to_uuid (nl_schema lib) (JStr t)) = Some (obj_get (ne_doc ev) ''tenant_id'')"
    using sv [of "''tenant_id''" None FUuid] by (simp add: SERVER_KEYS_def EventEnvelope_def server_fields_def)
  show "map_option JStr (to_uuid (nl_schema lib) (JStr (rb_batch_id b))) = Some (obj_get (ne_doc ev) ''batch_id'')"
    using sv [of "''batch_id''" None FUuid] by (simp add: SERVER_KEYS_def EventEnvelope_def server_fields_def)
  show "map_option JStr (to_uuid4 (nl_schema lib) (JStr (fst u))) = Some (obj_get (ne_doc ev) ''event_id'')"
    using sv [of "''event_id''" None FUuid4] by (simp add: SERVER_KEYS_def EventEnvelope_def server_fields_def)
  show "obj_get (ne_doc ev) ''source_type'' = JStr (rb_source_type b)"
    using sv [of "''source_type''" None "FEnum SOURCE_TYPES"]
    by (simp add: SERVER_KEYS_def EventEnvelope_def server_fields_def split: if_splits)
  have "validate_value (nl_schema lib) SourceInfo (JObj (source_part b)) = Some (obj_get (ne_doc ev) ''source'')"
    using sv [of "''source''" None SourceInfo] by (simp add: SERVER_KEYS_def EventEnvelope_def server_fields_def source_part_def)
  note src = valid_source_value [OF this]
  have part: "obj_get (source_part b) k = obj_get (rb_source b) k" if "k \<in> set SOURCE_KEYS" for k
    using that by (simp add: obj_get_def [of "source_part b"] map_of_source_part is_null_def)
  have "''device_id'' \<in> set SOURCE_KEYS" by (simp add: SOURCE_KEYS_def)
  from src [OF this] obtain s where s: "obj_get (ne_doc ev) ''source'' = JObj s" by blast
  have "\<forall>k \<in> set SOURCE_KEYS. obj_get s k = obj_get (rb_source b) k" using src part by (simp add: s)
  with s show "\<exists>s. obj_get (ne_doc ev) ''source'' = JObj s \<and> (\<forall>k \<in> set SOURCE_KEYS. obj_get s k = obj_get (rb_source b) k)" by blast
qed

subsection \<open>Every event is accounted for\<close>

text \<open>The fate of one event, judged alone: \<open>None\<close> when its processing raises something unexpected, the dead letter, or
  the normalized event.\<close>

fun event_outcome ::
  "norm_lib \<Rightarrow> string \<Rightarrow> raw_batch \<Rightarrow> (nat \<Rightarrow> string) \<Rightarrow> nat \<times> json \<Rightarrow> ((json \<times> string \<times> string) + norm_event) option" where
  "event_outcome lib t b fresh (i, raw) =
     (case raw of
        JObj d \<Rightarrow> (case normalize_one lib t b (fresh (2 * i), fresh (2 * i + 1)) d of
             Inl Raised \<Rightarrow> None
           | Inl e \<Rightarrow> Some (Inl (raw, error_code e, nl_detail lib d))
           | Inr ev \<Rightarrow> Some (Inr ev))
      | _ \<Rightarrow> Some (Inl (raw, ''EVENT_NOT_AN_OBJECT'', ''event must be a JSON object'')))"

definition lefts :: "('a + 'b) list \<Rightarrow> 'a list" where
  "lefts xs = concat (map (case_sum (\<lambda>a. [a]) (\<lambda>_. [])) xs)"

definition rights :: "('a + 'b) list \<Rightarrow> 'b list" where
  "rights xs = concat (map (case_sum (\<lambda>_. []) (\<lambda>b. [b])) xs)"

lemma lefts_rights_simps [simp]:
  "lefts [] = []" "rights [] = []" "lefts (Inl a # xs) = a # lefts xs" "lefts (Inr b # xs) = lefts xs"
  "rights (Inl a # xs) = rights xs" "rights (Inr b # xs) = b # rights xs"
  by (simp_all add: lefts_def rights_def)

lemma length_lefts_rights: "length (lefts xs) + length (rights xs) = length xs"
proof (induction xs)
  case (Cons x xs)
  then show ?case by (cases x) simp_all
qed simp

lemma normalize_events_outcomes:
  "normalize_events lib t b fresh i raws =
     (case traverse (event_outcome lib t b fresh) (enumerate i raws) of
        None \<Rightarrow> Inl EventRaised | Some rs \<Rightarrow> Inr (rights rs, lefts rs))"
proof (induction raws arbitrary: i)
  case (Cons raw raws)
  let ?rest = "traverse (event_outcome lib t b fresh) (enumerate (Suc i) raws)"
  have rest: "normalize_events lib t b fresh (i + 1) raws
      = (case ?rest of None \<Rightarrow> Inl EventRaised | Some rs \<Rightarrow> Inr (rights rs, lefts rs))" using Cons.IH by simp
  show ?case
  proof (cases raw)
    case (JObj d)
    show ?thesis
    proof (cases "normalize_one lib t b (fresh (2 * i), fresh (2 * i + 1)) d")
      case (Inl e)
      then show ?thesis
        by (cases e; cases ?rest) (simp_all add: JObj rest del: One_nat_def)
    next
      case (Inr ev)
      then show ?thesis by (cases ?rest) (simp_all add: JObj rest del: One_nat_def)
    qed
  qed (cases ?rest; simp add: rest del: One_nat_def)+
qed simp

lemma count_status_split:
  "length (stored_items evs sts) + count_status (\<lambda>st. st = 409) sts + count_status (\<lambda>st. st \<notin> {200, 201, 409}) sts = length evs"
  if "length sts = length evs"
  using that
proof (induction evs sts rule: list_induct2')
  case (4 ev evs st sts)
  then show ?case by (auto simp: stored_items_def count_status_def)
qed (simp_all add: stored_items_def count_status_def)

lemma usage_bump [simp]:
  "ns_usage (bump_usage t m n s) = (ns_usage s)((t, m) := ns_usage s (t, m) + n)"
  "ns_letters (bump_usage t m n s) = ns_letters s" "ns_published (bump_usage t m n s) = ns_published s" "ns_es (bump_usage t m n s) = ns_es s"
  by (simp_all add: bump_usage_def)

lemma mark_first_simps [simp]:
  "ns_usage (mark_first_event t s) = ns_usage s" "ns_letters (mark_first_event t s) = ns_letters s"
  "ns_published (mark_first_event t s) = ns_published s" "ns_es (mark_first_event t s) = ns_es s"
  by (simp_all add: mark_first_event_def)

lemma dead_letter_simps [simp]:
  "ns_usage (dead_letter_events lib t b dead st s) = (ns_usage s)((t, ''rejected_events'') := ns_usage s (t, ''rejected_events'') + length dead)"
  "ns_letters (dead_letter_events lib t b dead st s) = ns_letters s @ map (event_letter_row lib t b st) dead"
  "ns_published (dead_letter_events lib t b dead st s) = ns_published s" "ns_es (dead_letter_events lib t b dead st s) = ns_es s"
  by (simp_all add: dead_letter_events_def)

text \<open>What a batch leaves behind, given the outcomes of its events and the statuses of the store.\<close>

definition batch_effects ::
  "norm_lib \<Rightarrow> string \<Rightarrow> raw_batch \<Rightarrow> ((json \<times> string \<times> string) + norm_event) list \<Rightarrow> int list \<Rightarrow> 'es norm_state \<Rightarrow> 'es norm_state \<Rightarrow> bool" where
  "batch_effects lib t b outcomes statuses s s' \<longleftrightarrow>
     length outcomes = length (rb_events b) \<and> length statuses = length (rights outcomes)
   \<and> ns_letters s' = ns_letters s @ map (event_letter_row lib t (Some (rb_batch_id b)) (rb_source_type b)) (lefts outcomes)
   \<and> ns_published s' = ns_published s @ concat (map (publish_event t b) (stored_items (rights outcomes) statuses))
   \<and> ns_usage s' (t, ''rejected_events'') = ns_usage s (t, ''rejected_events'') + length (lefts outcomes)
   \<and> ns_usage s' (t, ''events_accepted'') = ns_usage s (t, ''events_accepted'') + length (stored_items (rights outcomes) statuses)
   \<and> ns_usage s' (t, ''duplicates_dropped'') = ns_usage s (t, ''duplicates_dropped'') + count_status (\<lambda>st. st = 409) statuses"

lemma traverse_length: "traverse f xs = Some ys \<Longrightarrow> length ys = length xs"
  by (auto simp: traverse_Some_iff list_all2_lengthD)

lemma store_events_effects:
  assumes "store_events bulk t b evs s = (exc, s')" "exc \<noteq> Some ItemCountMismatch"
  obtains statuses where "length statuses = length evs" "ns_letters s' = ns_letters s"
    "exc = (let n = count_status (\<lambda>st. st \<notin> {200, 201, 409}) statuses in if n = 0 then None else Some (BulkFailed n))"
    "ns_published s' = ns_published s @ concat (map (publish_event t b) (stored_items evs statuses))"
    "ns_usage s' = (ns_usage s)((t, ''events_accepted'') := ns_usage s (t, ''events_accepted'') + length (stored_items evs statuses),
       (t, ''duplicates_dropped'') := ns_usage s (t, ''duplicates_dropped'') + count_status (\<lambda>st. st = 409) statuses)"
proof (cases "evs = []")
  case True
  with assms show ?thesis by (intro that [of "[]"]) (simp_all add: store_events_def stored_items_def count_status_def)
next
  case False
  obtain statuses es where bulk: "bulk (map (\<lambda>e. (ne_index e, ne_doc_id e, ne_doc e)) evs) (ns_es s) = (statuses, es)"
    by (cases "bulk (map (\<lambda>e. (ne_index e, ne_doc_id e, ne_doc e)) evs) (ns_es s)")
  from assms False show ?thesis
    by (intro that [of statuses]) (auto simp: store_events_def bulk Let_def split: if_splits)
qed

subsection \<open>Redelivery\<close>

lemma map_of_filter_key: "map_of (filter (\<lambda>kv. P (fst kv)) d) k = (if P k then map_of d k else None)"
  by (induction d) auto

text \<open>The part of \<open>normalize_one\<close> that depends neither on the batch nor on the random ids.\<close>

definition classified :: "norm_lib \<Rightarrow> string \<Rightarrow> obj \<Rightarrow> event_error + obj" where
  "classified lib source_type raw_event =
     (let stripped = strip_client_assigned_fields raw_event in
      if source_type = ''generic''
      then rbind (known_class (obj_get stripped ''event_class'')) (\<lambda>c.
        if c = None then Inr (best_effort_generic lib raw_event) else move_unknown_to_unmapped stripped)
      else move_unknown_to_unmapped stripped)"

lemma source_event_id_known: "c \<in> set (map fst CLASS_MODELS) \<Longrightarrow> ''source_event_id'' \<in> set (known_fields_for_class c)"
  by (auto simp: CLASS_MODELS_def known_fields_for_class_def ProcessActivityEvent_def NetworkActivityEvent_def
      AuthenticationEvent_def GenericEvent_def EventEnvelope_def)

lemma move_unknown_source_id:
  assumes "move_unknown_to_unmapped p = Inr n" "map_of p ''source_event_id'' = Some v"
  shows "map_of n ''source_event_id'' = Some v"
proof -
  from assms(1) obtain c where "known_class (obj_get p ''event_class'') = Inr (Some c)"
    by (auto simp: move_unknown_to_unmapped_def rbind_Inr_iff split: option.splits)
  then have c: "c \<in> set (map fst CLASS_MODELS)" "known_class (obj_get p ''event_class'') = Inr (Some c)"
    by (auto simp: known_class_def split: json.splits if_splits)
  let ?r = "filter (\<lambda>kv. fst kv \<in> set (known_fields_for_class c)) (filter (\<lambda>kv. fst kv \<noteq> ''unmapped'') p)"
  have "\<exists>tl. n = ?r @ tl"
    using assms(1) by (auto simp: move_unknown_to_unmapped_def c(2) Let_def split: option.splits if_splits)
  moreover have "map_of ?r ''source_event_id'' = Some v"
    using assms(2) source_event_id_known [OF c(1)]
    unfolding map_of_filter_key [of "\<lambda>k. k \<in> set (known_fields_for_class c)"] map_of_filter_key [of "\<lambda>k. k \<noteq> ''unmapped''"]
    by simp
  ultimately show ?thesis by (auto simp: map_add_def)
qed

lemma best_effort_source_id:
  assumes "map_of raw ''source_event_id'' = Some (JStr s)" "s \<noteq> []" "length s \<le> MAX_SOURCE_EVENT_ID_CHARS"
  shows "map_of (best_effort_generic lib raw) ''source_event_id'' = Some (JStr s)"
proof -
  let ?k = "''source_event_id''"
  have one: "map_of (case v of JStr c \<Rightarrow> if P c then [(k', f c)] else [] | _ \<Rightarrow> []) ?k = None" if "k' \<noteq> ?k" for v k' P and f :: "string \<Rightarrow> json"
    using that by (simp split: json.split)
  have txt1: "map_of (case v of JStr c \<Rightarrow> [(k', f c)] | _ \<Rightarrow> []) ?k = None" if "k' \<noteq> ?k" for v k' and f :: "string \<Rightarrow> json"
    using that by (simp split: json.split)
  have obj: "map_of (case v of JObj c \<Rightarrow> if P c then [(k', f c)] else [] | _ \<Rightarrow> []) ?k = None" if "k' \<noteq> ?k" for v k' P and f :: "obj \<Rightarrow> json"
    using that by (simp split: json.split)
  have host: "map_of (case v of JObj c \<Rightarrow> (case g c of Some h \<Rightarrow> [(k', h)] | None \<Rightarrow> []) | _ \<Rightarrow> []) ?k = None" if "k' \<noteq> ?k" for v k'
      and g :: "obj \<Rightarrow> json option"
    using that by (simp split: json.split option.split)
  show ?thesis
    using assms
    by (simp add: best_effort_generic_def Let_def case_prod_beta map_add_def one txt1 obj host obj_get_def [of raw ?k])
qed

lemma classified_source_id:
  assumes "classified lib st raw = Inr n" "map_of raw ''source_event_id'' = Some (JStr s)" "s \<noteq> []" "length s \<le> MAX_SOURCE_EVENT_ID_CHARS"
  shows "map_of n ''source_event_id'' = Some (JStr s)"
proof -
  have strip: "map_of (strip_client_assigned_fields raw) ''source_event_id'' = Some (JStr s)"
    using assms(2) unfolding strip_client_assigned_fields_def map_of_filter_key [of "\<lambda>k. k \<notin> set CLIENT_ASSIGNED_FIELDS"]
    by (simp add: CLIENT_ASSIGNED_FIELDS_def)
  have "n = best_effort_generic lib raw \<or> move_unknown_to_unmapped (strip_client_assigned_fields raw) = Inr n"
    using assms(1) by (auto simp: classified_def Let_def rbind_Inr_iff split: if_splits)
  then show ?thesis
    using best_effort_source_id [OF assms(2-4)] move_unknown_source_id [OF _ strip] by blast
qed

lemma normalize_one_classified:
  assumes "normalize_one lib t b u raw = Inr ev"
  obtains n where "classified lib (rb_source_type b) raw = Inr n"
    "parse_event (nl_schema lib) (with_source_id b (snd u) (with_time lib b (dict_update n (server_fields lib t b (fst u))))) = Inr (ne_doc ev)"
  using assms unfolding normalize_one_def Let_def rbind_Inr_iff classified_def [unfolded Let_def, symmetric]
  by (elim exE conjE) (rule that, auto)

lemma server_fields_same: "k \<noteq> ''event_id'' \<Longrightarrow> map_of (server_fields lib t b e) k = map_of (server_fields lib t b e') k"
  by (simp add: server_fields_def)

lemma envelope_same:
  assumes "k \<noteq> ''event_id''" "map_of n ''source_event_id'' = Some (JStr s)" "s \<noteq> []"
  shows "map_of (with_source_id b u (with_time lib b (dict_update n (server_fields lib t b e)))) k
       = map_of (with_source_id b u' (with_time lib b (dict_update n (server_fields lib t b e')))) k"
proof -
  have dist: "map_of (rev (server_fields lib t b x)) = map_of (server_fields lib t b x)" for x
    by (rule map_of_rev_distinct) (simp add: server_fields_def)
  have base: "map_of (dict_update n (server_fields lib t b e)) j = map_of (dict_update n (server_fields lib t b e')) j" if "j \<noteq> ''event_id''" for j
    using server_fields_same [OF that, of lib t b e e'] by (simp add: map_of_dict_update dist)
  have time: "map_of (with_time lib b (dict_update n (server_fields lib t b e))) j = map_of (with_time lib b (dict_update n (server_fields lib t b e'))) j"
    if "j \<noteq> ''event_id''" for j
    using base [OF that] base [of "''event_time''"] by (simp add: with_time_def obj_get_def map_of_dict_update)
  have "map_of (with_time lib b (dict_update n (server_fields lib t b x))) ''source_event_id'' = Some (JStr s)" for x
    using assms(2) by (simp add: with_time_other map_of_dict_update dist) (simp add: server_fields_def)
  then have "with_source_id b y (with_time lib b (dict_update n (server_fields lib t b x))) = with_time lib b (dict_update n (server_fields lib t b x))" for x y
    using assms(3) by (simp add: with_source_id_def obj_get_def falsy_def)
  with time [OF assms(1)] show ?thesis by simp
qed

lemma retry_identity:
  assumes "normalize_one lib t b u raw = Inr ev" "normalize_one lib t b u' raw = Inr ev'"
    and "map_of raw ''source_event_id'' = Some (JStr s)" "s \<noteq> []" "length s \<le> MAX_SOURCE_EVENT_ID_CHARS"
  shows "ne_doc_id ev = ne_doc_id ev' \<and> ne_index ev = ne_index ev'"
proof -
  from assms(1) obtain n where n: "classified lib (rb_source_type b) raw = Inr n"
    "parse_event (nl_schema lib) (with_source_id b (snd u) (with_time lib b (dict_update n (server_fields lib t b (fst u))))) = Inr (ne_doc ev)"
    by (rule normalize_one_classified)
  from assms(2) obtain n' where "classified lib (rb_source_type b) raw = Inr n'"
    "parse_event (nl_schema lib) (with_source_id b (snd u') (with_time lib b (dict_update n' (server_fields lib t b (fst u'))))) = Inr (ne_doc ev')"
    by (rule normalize_one_classified)
  with n(1) have n': "parse_event (nl_schema lib) (with_source_id b (snd u') (with_time lib b (dict_update n (server_fields lib t b (fst u'))))) = Inr (ne_doc ev')"
    by simp
  have id: "map_of n ''source_event_id'' = Some (JStr s)" by (rule classified_source_id [OF n(1) assms(3-5)])
  have same: "obj_get (ne_doc ev) k = obj_get (ne_doc ev') k"
    if "k \<noteq> ''event_id''" "k \<noteq> ''status''" "\<And>c act. (k, dflt, ty) \<in> set (EventEnvelope c act)" for k dflt ty
    using envelope_value [OF n(2) that(3,2)] envelope_value [OF n' that(3,2)]
    by (simp add: field_value_def envelope_same [OF that(1) id assms(4), of b "snd u" lib t "fst u" "snd u'" "fst u'"])
  have eq: "obj_get (ne_doc ev) ''source'' = obj_get (ne_doc ev') ''source''"
    "obj_get (ne_doc ev) ''event_time'' = obj_get (ne_doc ev') ''event_time''"
    "obj_get (ne_doc ev) ''source_event_id'' = obj_get (ne_doc ev') ''source_event_id''"
    using same [of "''source''" None SourceInfo] same [of "''event_time''" None FTime]
      same [of "''source_event_id''" "Some JNull" "FOpt (FStr 0 (Some MAX_SOURCE_EVENT_ID_CHARS))"]
    by (simp_all add: EventEnvelope_def)
  from assms(1) obtain d1 d2 where 1: "derive_es_document_id lib t (let device = str_of (obj_get (sub_obj (ne_doc ev) ''source'') ''device_id'') in
        if device \<noteq> [] then device else str_of (obj_get (sub_obj (ne_doc ev) ''source'') ''ingest_key_id''))
       (str_of (obj_get (ne_doc ev) ''source_event_id'')) = Inr (ne_doc_id ev)"
    "ne_index ev = events_index_name lib t (str_of (obj_get (ne_doc ev) ''event_time''))" by (rule normalize_one_Inr)
  from assms(2) obtain d3 d4 where 2: "derive_es_document_id lib t (let device = str_of (obj_get (sub_obj (ne_doc ev') ''source'') ''device_id'') in
        if device \<noteq> [] then device else str_of (obj_get (sub_obj (ne_doc ev') ''source'') ''ingest_key_id''))
       (str_of (obj_get (ne_doc ev') ''source_event_id'')) = Inr (ne_doc_id ev')"
    "ne_index ev' = events_index_name lib t (str_of (obj_get (ne_doc ev') ''event_time''))" by (rule normalize_one_Inr)
  have sub: "sub_obj (ne_doc ev) ''source'' = sub_obj (ne_doc ev') ''source''" by (simp add: sub_obj_def eq)
  from 1 2 show ?thesis unfolding sub eq by simp
qed

subsection \<open>Properties\<close>

text \<open>C40: identity is the server's. Whatever a client writes into an event, a normalized event carries the tenant, batch,
  source type and source (device or ingest key) of the authenticated batch and a fresh event id, it conforms to the
  schema of its class, and it is filed in that tenant's index.\<close>

theorem normalizer_server_authoritative:
  assumes "normalize_one lib t b u raw = Inr ev"
  shows "map_option JStr (to_uuid (nl_schema lib) (JStr t)) = Some (obj_get (ne_doc ev) ''tenant_id'')
       \<and> map_option JStr (to_uuid (nl_schema lib) (JStr (rb_batch_id b))) = Some (obj_get (ne_doc ev) ''batch_id'')
       \<and> map_option JStr (to_uuid4 (nl_schema lib) (JStr (fst u))) = Some (obj_get (ne_doc ev) ''event_id'')
       \<and> obj_get (ne_doc ev) ''source_type'' = JStr (rb_source_type b)
       \<and> (\<exists>s. obj_get (ne_doc ev) ''source'' = JObj s \<and> (\<forall>k \<in> set SOURCE_KEYS. obj_get s k = obj_get (rb_source b) k))
       \<and> (\<exists>c. event_typed (nl_schema lib) c (ne_doc ev))
       \<and> (\<exists>month. ne_index ev = ''events-v1-'' @ t @ ''-'' @ month)"
proof -
  from assms obtain normalized d where "parse_event (nl_schema lib) d = Inr (ne_doc ev)"
      "ne_index ev = events_index_name lib t (str_of (obj_get (ne_doc ev) ''event_time''))" by (rule normalize_one_Inr)
  moreover from this(1) obtain c where "event_typed (nl_schema lib) c (ne_doc ev)" by (rule parse_event_typed)
  ultimately show ?thesis
    using normalized_identity [OF assms] unfolding events_index_name_def by blast
qed


text \<open>redelivery is idempotent in the store. When a batch is normalized again, with other random ids, an event
  with a usable source event id gets the same document id in the same index, so the store answers with a conflict.\<close>

theorem normalizer_retry_identity:
  assumes "normalize_one lib t b u raw = Inr ev" "normalize_one lib t b u' raw = Inr ev'"
    and "obj_get raw ''source_event_id'' = JStr s" "s \<noteq> []" "length s \<le> 128"
  shows "ne_doc_id ev = ne_doc_id ev' \<and> ne_index ev = ne_index ev'"
proof -
  have "map_of raw ''source_event_id'' = Some (JStr s)"
    using assms(3) by (simp add: obj_get_def split: option.splits)
  then show ?thesis by (rule retry_identity [OF assms(1,2)]) (use assms(4,5) in \<open>simp_all add: MAX_SOURCE_EVENT_ID_CHARS_def\<close>)
qed

definition demo_schema :: schema_lib where
  "demo_schema = \<lparr>to_int = (\<lambda>v. case v of JInt i \<Rightarrow> Some i | _ \<Rightarrow> None), to_bool = (\<lambda>v. case v of JBool b \<Rightarrow> Some b | _ \<Rightarrow> None),
     to_time = (\<lambda>v. case v of JStr s \<Rightarrow> Some s | _ \<Rightarrow> None), to_uuid = (\<lambda>v. case v of JStr s \<Rightarrow> Some s | _ \<Rightarrow> None),
     to_uuid4 = (\<lambda>v. case v of JStr s \<Rightarrow> Some s | _ \<Rightarrow> None), fl_repr = (\<lambda>_. ''0.5'')\<rparr>"

definition demo_norm :: norm_lib where
  "demo_norm = \<lparr>nl_schema = demo_schema, nl_sha256 = id, nl_iso = id, nl_aware = (\<lambda>_. True), nl_month = (\<lambda>_. ''2026.01''),
     nl_detail = (\<lambda>_. ''detail'')\<rparr>"

definition demo_login :: "string \<Rightarrow> obj" where
  "demo_login source_id = [(''event_class'', JStr ''authentication''), (''activity'', JStr ''logon''), (''status'', JStr ''success''),
     (''logon_type'', JStr ''network''), (''user'', JObj [(''name'', JStr ''ada'')]), (''tenant_id'', JStr ''other''),
     (''source_event_id'', JStr source_id),
     (''host'', JObj [(''hostname'', JStr ''WS-1''), (''os_family'', JStr ''linux''), (''os_name'', JStr ''x''), (''os_version'', JStr ''1'')])]"

definition demo_raw_payload :: "json list \<Rightarrow> obj" where
  "demo_raw_payload events = [(''batch_id'', JStr ''b1''), (''source_type'', JStr ''agent''), (''ingest_time'', JStr ''now''),
     (''source'', JObj [(''device_id'', JStr ''dev1'')]), (''events'', JList events)]"

definition demo_batch :: raw_batch where
  "demo_batch = \<lparr>rb_batch_id = ''b1'', rb_source_type = ''agent'', rb_ingest_time = ''now'', rb_source = [(''device_id'', JStr ''dev1'')],
     rb_events = []\<rparr>"

lemmas demo_norm_defs = demo_norm_def demo_schema_def demo_login_def demo_batch_def

lemmas normalize_one_eval = normalize_one_def Let_def strip_client_assigned_fields_def CLIENT_ASSIGNED_FIELDS_def
  move_unknown_to_unmapped_def known_class_def obj_get_def falsy_def known_fields_for_class_def CLASS_MODELS_def
  AuthenticationEvent_def EventEnvelope_def server_fields_def SOURCE_KEYS_def is_null_def dict_update_def with_time_def
  parse_event_time_def with_source_id_def parse_event_def derive_status_def has_key_def semver_text_def
  drop_final_newline_def SCHEMA_VERSION_def cap_bytes_def SourceInfo_def opt_text_def drop_null_def device_xor_ingest_key_def
  sub_obj_def Host_def lower_text_def User_def no_post_def LOGON_TYPES_def FAILURE_REASONS_def agent_requirements_def auth_rules_def
  str_of_def derive_es_document_id_def events_index_name_def SOURCE_TYPES_def SEVERITY_HINTS_def OS_FAMILIES_def
  MAX_HOSTNAME_CHARS_def MAX_SOURCE_EVENT_ID_CHARS_def

lemma demo_normalized: "\<exists>ev. normalize_one demo_norm ''t1'' demo_batch (e, x) (demo_login ''s1'') = Inr ev"
  by (simp add: normalize_one_eval demo_norm_defs newline_def is_digit_def)

theorem normalizer_server_authoritative_witness:
  "\<exists>ev. normalize_one demo_norm ''t1'' demo_batch (''e1'', ''x'') (demo_login ''s1'') = Inr ev
     \<and> obj_get (ne_doc ev) ''tenant_id'' = JStr ''t1'' \<and> obj_get (demo_login ''s1'') ''tenant_id'' = JStr ''other''"
proof -
  obtain ev where ev: "normalize_one demo_norm ''t1'' demo_batch (''e1'', ''x'') (demo_login ''s1'') = Inr ev"
    using demo_normalized by blast
  have "obj_get (demo_login ''s1'') ''tenant_id'' = JStr ''other''" by (simp add: demo_login_def obj_get_def)
  with ev normalizer_server_authoritative [OF ev] show ?thesis by (auto simp: demo_norm_def demo_schema_def)
qed

theorem normalizer_retry_identity_witness:
  "\<exists>ev ev'. normalize_one demo_norm ''t1'' demo_batch (''e1'', ''x'') (demo_login ''s1'') = Inr ev
     \<and> normalize_one demo_norm ''t1'' demo_batch (''e2'', ''y'') (demo_login ''s1'') = Inr ev' \<and> ne_doc_id ev = ne_doc_id ev'"
proof -
  obtain ev ev' where ev: "normalize_one demo_norm ''t1'' demo_batch (''e1'', ''x'') (demo_login ''s1'') = Inr ev"
      "normalize_one demo_norm ''t1'' demo_batch (''e2'', ''y'') (demo_login ''s1'') = Inr ev'"
    using demo_normalized by blast
  have "obj_get (demo_login ''s1'') ''source_event_id'' = JStr ''s1''" by (simp add: demo_login_def obj_get_def)
  from normalizer_retry_identity [OF ev this] ev show ?thesis by auto
qed

definition demo_norm_state :: "unit norm_state" where
  "demo_norm_state = \<lparr>ns_es = (), ns_letters = [], ns_usage = (\<lambda>_. 0), ns_first_event = [], ns_onboarding = [], ns_published = []\<rparr>"

lemma demo_batch_valid:
  "validate_batch (nl_schema demo_norm) (demo_raw_payload events) = Some (demo_batch\<lparr>rb_events := events\<rparr>)"
  by (simp add: validate_batch_def demo_raw_payload_def demo_norm_def demo_schema_def demo_batch_def SOURCE_TYPES_def)


text \<open>One event can hold up the others of its batch: an agent event with an empty source event id passes validation, but
  the derivation of its document id raises an exception that the loop does not expect, and neither the other event is
  stored nor any dead letter written. The same holds for an event class that is a list, and for unmapped fields
  that are no mapping.\<close>

lemma poison_event_blocks_batch:
  "handle demo_norm bulk fresh ''t1'' (demo_raw_payload [JObj (demo_login ''s1''), JObj (demo_login [])]) s = (Some EventRaised, s)"
  "handle demo_norm bulk fresh ''t1'' (demo_raw_payload [JObj (demo_login ''s1''), JObj [(''event_class'', JList [])]]) s = (Some EventRaised, s)"
  "handle demo_norm bulk fresh ''t1'' (demo_raw_payload [JObj (demo_login ''s1''), JObj ((''unmapped'', JInt 1) # demo_login ''s2'')]) s
     = (Some EventRaised, s)"
proof -
  let ?b = "\<lambda>events. demo_batch\<lparr>rb_events := events\<rparr>"
  have ok: "\<exists>ev. normalize_one demo_norm ''t1'' (?b events) u (demo_login ''s1'') = Inr ev" for events u
    by (simp add: normalize_one_eval demo_norm_defs newline_def is_digit_def)
  have empty_id: "normalize_one demo_norm ''t1'' (?b events) u (demo_login []) = Inl Raised" for events u
    by (simp add: normalize_one_eval demo_norm_defs newline_def is_digit_def)
  have class_list: "normalize_one demo_norm ''t1'' (?b events) u [(''event_class'', JList [])] = Inl Raised" for events u
    by (simp add: normalize_one_eval demo_norm_defs)
  have unmapped: "normalize_one demo_norm ''t1'' (?b events) u ((''unmapped'', JInt 1) # demo_login ''s2'') = Inl Raised" for events u
    by (simp add: normalize_one_eval demo_norm_defs dict_of_def)
  show "handle demo_norm bulk fresh ''t1'' (demo_raw_payload [JObj (demo_login ''s1''), JObj (demo_login [])]) s = (Some EventRaised, s)"
    using ok [of "[JObj (demo_login ''s1''), JObj (demo_login [])]" "(fresh 0, fresh 1)"]
    by (auto simp: handle_def demo_batch_valid empty_id)
  show "handle demo_norm bulk fresh ''t1'' (demo_raw_payload [JObj (demo_login ''s1''), JObj [(''event_class'', JList [])]]) s = (Some EventRaised, s)"
    using ok [of "[JObj (demo_login ''s1''), JObj [(''event_class'', JList [])]]" "(fresh 0, fresh 1)"]
    by (auto simp: handle_def demo_batch_valid class_list)
  show "handle demo_norm bulk fresh ''t1'' (demo_raw_payload [JObj (demo_login ''s1''), JObj ((''unmapped'', JInt 1) # demo_login ''s2'')]) s
     = (Some EventRaised, s)"
    using ok [of "[JObj (demo_login ''s1''), JObj ((''unmapped'', JInt 1) # demo_login ''s2'')]" "(fresh 0, fresh 1)"]
    by (auto simp: handle_def demo_batch_valid unmapped)
qed

end
