(* ===== verification/Quotas.thy ===== *)
theory Quotas
  imports Soc_Prelude
begin

text \<open>
  Quotas and rate limits (\<^verbatim>\<open>services/dataplane/src/dataplane/core/quotas.py\<close>): the sliding ingest window,
  the daily counter of deep investigations and the fixed window of the enrollment limits.

  The Redis server is a map from keys to a value and an expiry. A command may be answered, may run and lose its
  answer, or may be refused; in the last two cases the client sees a \<^verbatim>\<open>RedisError\<close>. Times are whole
  seconds since the epoch: the code only uses \<^verbatim>\<open>floor(now / 6)\<close> and \<^verbatim>\<open>int(now)\<close>. The usage counters
  and their daily keys are part of the same map.
\<close>

subsection \<open>Redis\<close>

type_synonym 'v redis = "string \<Rightarrow> ('v \<times> nat option) option"

datatype reply = Replied | Lost | Refused

definition redis_get :: "nat \<Rightarrow> string \<Rightarrow> 'v redis \<Rightarrow> 'v option" where
  "redis_get now k r =
     (case r k of
        None \<Rightarrow> None
      | Some (v, None) \<Rightarrow> Some v
      | Some (v, Some e) \<Rightarrow> if now < e then Some v else None)"

definition redis_incrby :: "nat \<Rightarrow> string \<Rightarrow> int \<Rightarrow> int redis \<Rightarrow> int \<times> int redis" where
  "redis_incrby now k n r =
     (case redis_get now k r of
        None \<Rightarrow> (n, r(k \<mapsto> (n, None)))
      | Some v \<Rightarrow> (v + n, r(k \<mapsto> (v + n, snd (the (r k))))))"

definition redis_expire :: "nat \<Rightarrow> string \<Rightarrow> nat \<Rightarrow> 'v redis \<Rightarrow> 'v redis" where
  "redis_expire now k ttl r =
     (case redis_get now k r of None \<Rightarrow> r | Some v \<Rightarrow> r(k \<mapsto> (v, Some (now + ttl))))"

definition redis_set_nx :: "nat \<Rightarrow> string \<Rightarrow> 'v \<Rightarrow> nat \<Rightarrow> 'v redis \<Rightarrow> 'v redis" where
  "redis_set_nx now k v ttl r = (case redis_get now k r of None \<Rightarrow> r(k \<mapsto> (v, Some (now + ttl))) | Some _ \<Rightarrow> r)"

definition redis_call :: "reply \<Rightarrow> ('v redis \<Rightarrow> 'a \<times> 'v redis) \<Rightarrow> 'v redis \<Rightarrow> 'a option \<times> 'v redis" where
  "redis_call f op r =
     (case f of Replied \<Rightarrow> (Some (fst (op r)), snd (op r)) | Lost \<Rightarrow> (None, snd (op r)) | Refused \<Rightarrow> (None, r))"

lemma redis_call_simps [simp]:
  "redis_call Replied op r = (Some (fst (op r)), snd (op r))"
  "redis_call Lost op r = (None, snd (op r))"
  "redis_call Refused op r = (None, r)"
  by (simp_all add: redis_call_def)

subsection \<open>The ingest window\<close>

definition BUCKET_SECONDS :: nat where "BUCKET_SECONDS = 6"

definition WINDOW_BUCKETS :: nat where "WINDOW_BUCKETS = 10"

definition BUCKET_TTL :: nat where "BUCKET_TTL = 120"

datatype quota_error = QuotaUnavailable | IngestQuotaExceeded nat | RateLimited

definition bucket_of :: "nat \<Rightarrow> int" where
  "bucket_of now = int (now div BUCKET_SECONDS)"

definition ingest_key :: "string \<Rightarrow> int \<Rightarrow> string" where
  "ingest_key tenant b = ''quota:ingest:'' @ tenant @ CHR '':'' # int_to_dec b"

definition window_keys :: "string \<Rightarrow> nat \<Rightarrow> string list" where
  "window_keys tenant now = map (\<lambda>i. ingest_key tenant (bucket_of now - int i)) [0..<WINDOW_BUCKETS]"

definition current_ingest_rate :: "nat \<Rightarrow> string \<Rightarrow> reply \<Rightarrow> int redis \<Rightarrow> quota_error + int" where
  "current_ingest_rate now tenant f r =
     (case fst (redis_call f (\<lambda>r. (map (\<lambda>k. redis_get now k r) (window_keys tenant now), r)) r) of
        None \<Rightarrow> Inl QuotaUnavailable
      | Some vals \<Rightarrow> Inr (sum_list (map (\<lambda>v. case v of Some n \<Rightarrow> n | None \<Rightarrow> 0) vals)))"

text \<open>The check and the update are separate commands; \<open>replies\<close> gives the fate of each of the three.\<close>

definition ingest_check :: "nat \<Rightarrow> string \<Rightarrow> nat \<Rightarrow> int \<Rightarrow> reply \<Rightarrow> int redis \<Rightarrow> quota_error + unit" where
  "ingest_check now tenant event_count limit_per_min f r =
     rbind (current_ingest_rate now tenant f r) (\<lambda>used.
       guard (\<not> used + int event_count > limit_per_min)
         (IngestQuotaExceeded (max 1 (BUCKET_SECONDS - now mod BUCKET_SECONDS))))"

definition ingest_consume :: "nat \<Rightarrow> string \<Rightarrow> nat \<Rightarrow> (nat \<Rightarrow> reply) \<Rightarrow> int redis \<Rightarrow> (quota_error + unit) \<times> int redis" where
  "ingest_consume now tenant event_count replies r =
     (let bucket_key = ingest_key tenant (bucket_of now);
          (res, r1) = redis_call (replies 1) (redis_incrby now bucket_key (int event_count)) r in
      case res of
        None \<Rightarrow> (Inl QuotaUnavailable, r1)
      | Some _ \<Rightarrow>
          let (res2, r2) = redis_call (replies 2) (\<lambda>r. ((), redis_expire now bucket_key BUCKET_TTL r)) r1 in
          (case res2 of None \<Rightarrow> Inl QuotaUnavailable | Some _ \<Rightarrow> Inr (), r2))"

definition check_and_consume_ingest ::
  "nat \<Rightarrow> string \<Rightarrow> nat \<Rightarrow> int \<Rightarrow> (nat \<Rightarrow> reply) \<Rightarrow> int redis \<Rightarrow> (quota_error + unit) \<times> int redis" where
  "check_and_consume_ingest now tenant event_count limit_per_min replies r =
     (case ingest_check now tenant event_count limit_per_min (replies 0) r of
        Inl e \<Rightarrow> (Inl e, r)
      | Inr _ \<Rightarrow> ingest_consume now tenant event_count replies r)"

subsection \<open>Deep investigations\<close>

definition DI_TTL :: nat where "DI_TTL = 48 * 3600"

definition SECONDS_PER_DAY :: nat where "SECONDS_PER_DAY = 86400"

definition next_utc_midnight :: "nat \<Rightarrow> nat" where
  "next_utc_midnight now = (now div SECONDS_PER_DAY + 1) * SECONDS_PER_DAY"

text \<open>\<open>utc_day\<close> renders the number of a day as \<^verbatim>\<open>YYYYMMDD\<close>; the calendar is an argument.\<close>

definition di_key :: "(nat \<Rightarrow> string) \<Rightarrow> string \<Rightarrow> nat \<Rightarrow> string" where
  "di_key utc_day tenant now = ''quota:di:'' @ tenant @ '':'' @ utc_day (now div SECONDS_PER_DAY)"

text \<open>The Lua script runs as one command.\<close>

definition di_consume_lua :: "nat \<Rightarrow> string \<Rightarrow> int \<Rightarrow> int redis \<Rightarrow> int \<times> int redis" where
  "di_consume_lua now key limit r =
     (let r1 = (case redis_get now key r of None \<Rightarrow> r(key \<mapsto> (limit, Some (now + DI_TTL))) | Some _ \<Rightarrow> r);
          v = (case redis_get now key r of None \<Rightarrow> limit | Some v \<Rightarrow> v) in
      if v \<le> 0 then (- 1, r1) else redis_incrby now key (- 1) r1)"

datatype script_support = Scripting | NoScripting

text \<open>\<^verbatim>\<open>_eval_di\<close>: the script, or seed, decrement and compensation where scripting is not supported.
  \<open>None\<close> is a \<^verbatim>\<open>RedisError\<close>.\<close>

definition eval_di ::
  "script_support \<Rightarrow> (nat \<Rightarrow> reply) \<Rightarrow> nat \<Rightarrow> string \<Rightarrow> int \<Rightarrow> int redis \<Rightarrow> int option \<times> int redis" where
  "eval_di support replies now key limit r =
     (case support of
        Scripting \<Rightarrow> redis_call (replies 0) (di_consume_lua now key limit) r
      | NoScripting \<Rightarrow>
          (case redis_call (replies 1) (\<lambda>r. ((), redis_set_nx now key limit DI_TTL r)) r of
             (None, r1) \<Rightarrow> (None, r1)
           | (Some _, r1) \<Rightarrow>
               (case redis_call (replies 2) (redis_incrby now key (- 1)) r1 of
                  (None, r2) \<Rightarrow> (None, r2)
                | (Some remaining, r2) \<Rightarrow>
                    if remaining < 0
                    then (case redis_call (replies 3) (redis_incrby now key 1) r2 of
                            (None, r3) \<Rightarrow> (None, r3)
                          | (Some _, r3) \<Rightarrow> (Some (- 1), r3))
                    else (Some remaining, r2))))"

record di_result =
  di_allowed :: bool
  di_remaining :: int
  di_limit :: int
  di_resets_at :: nat

definition consume_deep_investigation ::
  "(nat \<Rightarrow> string) \<Rightarrow> script_support \<Rightarrow> (nat \<Rightarrow> reply) \<Rightarrow> string \<Rightarrow> int \<Rightarrow> nat \<Rightarrow> int redis
     \<Rightarrow> (quota_error + di_result) \<times> int redis" where
  "consume_deep_investigation utc_day support replies tenant daily_limit now r =
     (let result = (\<lambda>ok n l. \<lparr>di_allowed = ok, di_remaining = n, di_limit = l, di_resets_at = next_utc_midnight now\<rparr>) in
      if daily_limit = - 1 then (Inr (result True (- 1) (- 1)), r)
      else if daily_limit \<le> 0 then (Inr (result False 0 daily_limit), r)
      else case eval_di support replies now (di_key utc_day tenant now) daily_limit r of
        (None, r') \<Rightarrow> (Inl QuotaUnavailable, r')
      | (Some remaining, r') \<Rightarrow>
          (Inr (if remaining < 0 then result False 0 daily_limit else result True remaining daily_limit), r'))"

definition deep_investigation_remaining ::
  "(nat \<Rightarrow> string) \<Rightarrow> string \<Rightarrow> int \<Rightarrow> nat \<Rightarrow> reply \<Rightarrow> int redis \<Rightarrow> quota_error + int" where
  "deep_investigation_remaining utc_day tenant daily_limit now f r =
     (if daily_limit = - 1 then Inr (- 1)
      else case fst (redis_call f (\<lambda>r. (redis_get now (di_key utc_day tenant now) r, r)) r) of
        None \<Rightarrow> Inl QuotaUnavailable
      | Some None \<Rightarrow> Inr (max daily_limit 0)
      | Some (Some v) \<Rightarrow> Inr (max v 0))"

subsection \<open>Rate limits and usage counters\<close>

definition check_rate_limit :: "nat \<Rightarrow> string \<Rightarrow> int \<Rightarrow> (nat \<Rightarrow> reply) \<Rightarrow> int redis \<Rightarrow> (quota_error + unit) \<times> int redis" where
  "check_rate_limit now key per_minute replies r =
     (let (res, r1) = redis_call (replies 0) (redis_incrby now key 1) r in
      case res of
        None \<Rightarrow> (Inl QuotaUnavailable, r1)
      | Some count \<Rightarrow>
          let (res2, r2) = (if count = 1 then redis_call (replies 1) (\<lambda>r. ((), redis_expire now key 60 r)) r1
                            else (Some (), r1)) in
          (case res2 of
             None \<Rightarrow> Inl QuotaUnavailable
           | Some _ \<Rightarrow> guard (\<not> count > per_minute) RateLimited, r2))"

definition USAGE_TTL :: nat where "USAGE_TTL = 48 * 3600"

definition usage_key :: "(nat \<Rightarrow> string) \<Rightarrow> string \<Rightarrow> nat \<Rightarrow> string \<Rightarrow> string" where
  "usage_key utc_day tenant day metric = ''usage:ingest:'' @ tenant @ '':'' @ utc_day day @ '':'' @ metric"

definition bump_usage :: "(nat \<Rightarrow> string) \<Rightarrow> nat \<Rightarrow> string \<Rightarrow> string \<Rightarrow> nat \<Rightarrow> (nat \<Rightarrow> reply) \<Rightarrow> int redis \<Rightarrow> int redis" where
  "bump_usage utc_day now tenant metric count replies r =
     (let key = usage_key utc_day tenant (now div SECONDS_PER_DAY) metric;
          (res, r1) = redis_call (replies 0) (redis_incrby now key (int count)) r in
      case res of
        None \<Rightarrow> r1
      | Some _ \<Rightarrow> snd (redis_call (replies 1) (\<lambda>r. ((), redis_expire now key USAGE_TTL r)) r1))"

definition usage_24h :: "(nat \<Rightarrow> string) \<Rightarrow> nat \<Rightarrow> string \<Rightarrow> string \<Rightarrow> reply \<Rightarrow> int redis \<Rightarrow> quota_error + int" where
  "usage_24h utc_day now tenant metric f r =
     (let day = now div SECONDS_PER_DAY;
          keys = [usage_key utc_day tenant day metric, usage_key utc_day tenant (day - 1) metric] in
      case fst (redis_call f (\<lambda>r. (map (\<lambda>k. redis_get now k r) keys, r)) r) of
        None \<Rightarrow> Inl QuotaUnavailable
      | Some vals \<Rightarrow> Inr (sum_list (map (\<lambda>v. case v of Some n \<Rightarrow> n | None \<Rightarrow> 0) vals)))"

subsection \<open>Keys\<close>

lemma no_colon_int_to_dec: "CHR '':'' \<notin> set (int_to_dec b)"
proof -
  have d: "CHR '':'' \<notin> set (nat_to_dec n)" for n
    using nat_to_dec_digits [of n] by (auto simp: is_digit_def)
  show ?thesis by (simp add: int_to_dec_def d)
qed

lemma nat_to_dec_inject [simp]: "nat_to_dec m = nat_to_dec n \<longleftrightarrow> m = n"
  by (metis digits_to_nat_to_dec)

lemma nat_to_dec_no_sign: "nat_to_dec n \<noteq> CHR ''-'' # s"
  using nat_to_dec_digits [of n] by (auto simp: is_digit_def)

lemma int_to_dec_inject [simp]: "int_to_dec a = int_to_dec b \<longleftrightarrow> a = b"
  by (auto simp: int_to_dec_def nat_to_dec_no_sign nat_to_dec_no_sign [symmetric])

lemma append_last_sep_inject:
  assumes "(c :: char) \<notin> set d" and "c \<notin> set d'"
  shows "s @ c # d = s' @ c # d' \<longleftrightarrow> s = s' \<and> d = d'"
proof
  assume eq: "s @ c # d = s' @ c # d'"
  have "rev d @ c # rev s = rev d' @ c # rev s'" using arg_cong [OF eq, of rev] by simp
  then have "py_split c (rev d @ c # rev s) = py_split c (rev d' @ c # rev s')" by simp
  then have "d = d'" using assms by (simp add: py_split_append_sep)
  with eq show "s = s' \<and> d = d'" by simp
qed simp

lemma ingest_key_inject [simp]: "ingest_key t a = ingest_key t' b \<longleftrightarrow> t = t' \<and> a = b"
  by (simp add: ingest_key_def append_last_sep_inject no_colon_int_to_dec)

subsection \<open>Equivalence of script and fallback\<close>

lemma redis_get_upd [simp]: "redis_get now k (r(k \<mapsto> (v, e))) = (if \<exists>x. e = Some x \<and> x \<le> now then None else Some v)"
  by (auto simp: redis_get_def split: option.split)

lemma redis_get_upd_other [simp]: "k' \<noteq> k \<Longrightarrow> redis_get now k' (r(k \<mapsto> x)) = redis_get now k' r"
  by (simp add: redis_get_def)

lemma redis_get_SomeE:
  assumes "redis_get now k r = Some v"
  obtains e where "r k = Some (v, e)" and "\<forall>x. e = Some x \<longrightarrow> now < x"
  using assms by (auto simp: redis_get_def split: option.splits if_splits)

lemma redis_get_SomeI: "r k = Some (v, e) \<Longrightarrow> (\<forall>x. e = Some x \<longrightarrow> now < x) \<Longrightarrow> redis_get now k r = Some v"
  by (auto simp: redis_get_def split: option.split)

lemma redis_incrby_live:
  assumes "r k = Some (v, e)" and "\<forall>x. e = Some x \<longrightarrow> now < x"
  shows "redis_incrby now k n r = (v + n, r(k \<mapsto> (v + n, e)))"
  using redis_get_SomeI [of r k v e now] assms by (simp add: redis_incrby_def)

lemma upd_same: "r k = Some x \<Longrightarrow> r(k \<mapsto> y, k \<mapsto> x) = r"
  by auto

text \<open>The DECR-and-compensate fallback of the deep-investigation quota, run on its own, returns what the Lua script
  returns and leaves the same store, for every store, key, limit and time.\<close>

theorem di_fallback_equiv:
  "eval_di NoScripting (\<lambda>_. Replied) now key limit r = eval_di Scripting (\<lambda>_. Replied) now key limit r"
proof (cases "redis_get now key r")
  case None
  have l: "\<forall>x. Some (now + DI_TTL) = Some x \<longrightarrow> now < x" by (simp add: DI_TTL_def)
  show ?thesis using None l
    by (simp add: eval_di_def di_consume_lua_def redis_set_nx_def redis_incrby_live)
next
  case (Some v)
  then obtain e where e: "r key = Some (v, e)" "\<forall>x. e = Some x \<longrightarrow> now < x" by (rule redis_get_SomeE)
  have d: "redis_incrby now key (- 1) r = (v - 1, r(key \<mapsto> (v - 1, e)))"
    using redis_incrby_live [of r key v e now "- 1"] e by simp
  have i: "redis_incrby now key 1 (r(key \<mapsto> (v - 1, e))) = (v, r)"
    using redis_incrby_live [of "r(key \<mapsto> (v - 1, e))" key "v - 1" e now 1] e upd_same [of r key "(v, e)" "(v - 1, e)"] by simp
  show ?thesis using Some
    by (simp add: eval_di_def di_consume_lua_def redis_set_nx_def d i)
qed

subsection \<open>Concurrent deep investigations\<close>

text \<open>Any number of callers run \<^verbatim>\<open>_eval_di\<close> on the key of one day, their commands interleaved, with the
  script or with the fallback, each with the limit its own entitlement lookup gave. A command may be refused or lose
  its answer, time passes, and other keys change. \<open>deadline\<close> is the end of the day after the key's.\<close>

datatype di_pc = DiStart | DiSeeded | DiBelow | DiReturned int | DiRaised

record di_state =
  dq_now :: nat
  dq_store :: "int redis"
  dq_pc :: "nat \<Rightarrow> di_pc"

definition goto_pc :: "di_state \<Rightarrow> nat \<Rightarrow> int redis \<Rightarrow> di_pc \<Rightarrow> di_state" where
  "goto_pc s i r p = s\<lparr>dq_store := r, dq_pc := (dq_pc s)(i := p)\<rparr>"

inductive di_step :: "string \<Rightarrow> nat \<Rightarrow> nat \<Rightarrow> (nat \<Rightarrow> int) \<Rightarrow> di_state \<Rightarrow> di_state \<Rightarrow> bool"
  for key :: string and deadline :: nat and n :: nat and limits :: "nat \<Rightarrow> int" where
  tick: "dq_now s \<le> t \<Longrightarrow> t < deadline \<Longrightarrow> di_step key deadline n limits s (s\<lparr>dq_now := t\<rparr>)"
| other: "r key = dq_store s key \<Longrightarrow> di_step key deadline n limits s (s\<lparr>dq_store := r\<rparr>)"
| refused: "i < n \<Longrightarrow> dq_pc s i \<in> {DiStart, DiSeeded, DiBelow} \<Longrightarrow>
    di_step key deadline n limits s (goto_pc s i (dq_store s) DiRaised)"
| script: "i < n \<Longrightarrow> dq_pc s i = DiStart \<Longrightarrow> di_consume_lua (dq_now s) key (limits i) (dq_store s) = (v, r) \<Longrightarrow>
    p \<in> {DiReturned v, DiRaised} \<Longrightarrow> di_step key deadline n limits s (goto_pc s i r p)"
| seed: "i < n \<Longrightarrow> dq_pc s i = DiStart \<Longrightarrow> r = redis_set_nx (dq_now s) key (limits i) DI_TTL (dq_store s) \<Longrightarrow>
    p \<in> {DiSeeded, DiRaised} \<Longrightarrow> di_step key deadline n limits s (goto_pc s i r p)"
| decr: "i < n \<Longrightarrow> dq_pc s i = DiSeeded \<Longrightarrow> redis_incrby (dq_now s) key (- 1) (dq_store s) = (v, r) \<Longrightarrow>
    p \<in> {if v < 0 then DiBelow else DiReturned v, DiRaised} \<Longrightarrow> di_step key deadline n limits s (goto_pc s i r p)"
| incr: "i < n \<Longrightarrow> dq_pc s i = DiBelow \<Longrightarrow> redis_incrby (dq_now s) key 1 (dq_store s) = (v, r) \<Longrightarrow>
    p \<in> {DiReturned (- 1), DiRaised} \<Longrightarrow> di_step key deadline n limits s (goto_pc s i r p)"

definition below_count :: "nat \<Rightarrow> (nat \<Rightarrow> di_pc) \<Rightarrow> int" where
  "below_count n pc = (\<Sum>i<n. if pc i = DiBelow then 1 else 0)"

lemma below_count_upd:
  assumes "i < n"
  shows "below_count n (pc(i := p)) =
    below_count n pc - (if pc i = DiBelow then 1 else 0) + (if p = DiBelow then 1 else 0)"
proof -
  have "(\<Sum>j\<in>{..<n} - {i}. if (pc(i := p)) j = DiBelow then 1 else 0 :: int) = (\<Sum>j\<in>{..<n} - {i}. if pc j = DiBelow then 1 else 0)"
    by (rule sum.cong) auto
  then show ?thesis using assms
    by (simp add: below_count_def sum.remove [of "{..<n}" i])
qed

lemma below_count_nonneg: "0 \<le> below_count n pc"
  by (simp add: below_count_def sum_nonneg)

lemma below_count_pos:
  assumes "i < n" and "pc i = DiBelow"
  shows "1 \<le> below_count n pc"
  using below_count_upd [OF assms(1), of pc DiStart] below_count_nonneg [of n "pc(i := DiStart)"] assms(2) by simp

text \<open>The value of the counter is at most every remaining value handed out, and compensation never lifts it
  above zero.\<close>

definition counter_ok :: "nat \<Rightarrow> int \<Rightarrow> int \<Rightarrow> (nat \<Rightarrow> di_pc) \<Rightarrow> bool" where
  "counter_ok n limit v pc \<longleftrightarrow> v \<le> limit \<and> (below_count n pc = 0 \<or> v + below_count n pc \<le> 0)
     \<and> (\<forall>i w. pc i = DiReturned w \<longrightarrow> 0 \<le> w \<longrightarrow> v \<le> w \<and> w < limit)
     \<and> (\<forall>i j w. pc i = DiReturned w \<longrightarrow> 0 \<le> w \<longrightarrow> pc j = DiReturned w \<longrightarrow> i = j)"

definition di_inv :: "string \<Rightarrow> nat \<Rightarrow> nat \<Rightarrow> int \<Rightarrow> di_state \<Rightarrow> bool" where
  "di_inv key start n limit s \<longleftrightarrow> start \<le> dq_now s \<and> dq_now s < start + DI_TTL \<and>
     (dq_store s key = None \<and> (\<forall>i. dq_pc s i \<in> {DiStart, DiRaised})
      \<or> (\<exists>v e. dq_store s key = Some (v, Some e) \<and> start + DI_TTL \<le> e \<and> counter_ok n limit v (dq_pc s)))"

definition quiet :: "di_pc \<Rightarrow> bool" where
  "quiet p \<longleftrightarrow> p \<noteq> DiBelow \<and> (\<forall>w. p = DiReturned w \<longrightarrow> w < 0)"

lemma quiet_simps [simp]: "quiet DiStart" "quiet DiSeeded" "quiet DiRaised" "\<not> quiet DiBelow" "quiet (DiReturned w) \<longleftrightarrow> w < 0"
  by (auto simp: quiet_def)

lemma counter_okI:
  assumes "v \<le> limit" and "below_count n pc = 0 \<or> v + below_count n pc \<le> 0"
    and "\<And>i w. pc i = DiReturned w \<Longrightarrow> 0 \<le> w \<Longrightarrow> v \<le> w \<and> w < limit"
    and "\<And>i j w. pc i = DiReturned w \<Longrightarrow> 0 \<le> w \<Longrightarrow> pc j = DiReturned w \<Longrightarrow> i = j"
  shows "counter_ok n limit v pc"
  using assms unfolding counter_ok_def by blast

lemma counter_okD:
  assumes "counter_ok n limit v pc"
  shows "v \<le> limit" and "below_count n pc = 0 \<or> v + below_count n pc \<le> 0"
    and "pc i = DiReturned w \<Longrightarrow> 0 \<le> w \<Longrightarrow> v \<le> w \<and> w < limit"
    and "pc i = DiReturned w \<Longrightarrow> 0 \<le> w \<Longrightarrow> pc j = DiReturned w \<Longrightarrow> i = j"
  using assms unfolding counter_ok_def by blast+

text \<open>A caller that ends without an allowance leaves the answers of the others as they are.\<close>

lemma returned_upd_quiet: "quiet p \<Longrightarrow> (pc(i := p)) j = DiReturned w \<Longrightarrow> 0 \<le> w \<Longrightarrow> pc j = DiReturned w"
  by (cases "j = i") auto

lemma counter_ok_upd:
  assumes ok: "counter_ok n limit v pc" and p: "p = DiBelow \<or> quiet p"
    and v: "v' \<le> limit" "v' \<le> v \<or> v' \<le> 0" and b: "below_count n (pc(i := p)) = 0 \<or> v' + below_count n (pc(i := p)) \<le> 0"
  shows "counter_ok n limit v' (pc(i := p))"
proof (rule counter_okI)
  have r: "pc j = DiReturned w" if "(pc(i := p)) j = DiReturned w" "0 \<le> w" for j w
    using p that by (cases "j = i") auto
  show "v' \<le> w \<and> w < limit" if "(pc(i := p)) j = DiReturned w" "0 \<le> w" for j w
    using counter_okD(3) [OF ok r [OF that] that(2)] v(2) that(2) by linarith
  show "j = k" if "(pc(i := p)) j = DiReturned w" "0 \<le> w" "(pc(i := p)) k = DiReturned w" for j k w
    using counter_okD(4) [OF ok r [OF that(1,2)] that(2) r [OF that(3,2)]] .
qed (use v b in auto)

lemma counter_ok_quiet:
  assumes ok: "counter_ok n limit v pc" and "i < n" and p: "quiet p" and "v' \<le> v"
  shows "counter_ok n limit v' (pc(i := p))"
proof (rule counter_ok_upd [OF ok])
  have "below_count n (pc(i := p)) \<le> below_count n pc"
    using below_count_upd [OF \<open>i < n\<close>, of pc p] p by (auto simp: quiet_def)
  then show "below_count n (pc(i := p)) = 0 \<or> v' + below_count n (pc(i := p)) \<le> 0"
    using counter_okD(2) [OF ok] \<open>v' \<le> v\<close> below_count_nonneg [of n "pc(i := p)"] by linarith
qed (use assms counter_okD(1) [OF ok] in auto)

lemma counter_ok_below:
  assumes ok: "counter_ok n limit v pc" and i: "i < n" "pc i \<noteq> DiBelow" and v: "v \<le> 0"
  shows "counter_ok n limit (v - 1) (pc(i := DiBelow))"
proof (rule counter_ok_upd [OF ok])
  show "below_count n (pc(i := DiBelow)) = 0 \<or> v - 1 + below_count n (pc(i := DiBelow)) \<le> 0"
    using below_count_upd [OF i(1), of pc DiBelow] i(2) counter_okD(2) [OF ok] v by auto
qed (use counter_okD(1) [OF ok] in auto)

lemma counter_ok_restore:
  assumes ok: "counter_ok n limit v pc" and i: "i < n" "pc i = DiBelow" and p: "quiet p" and l: "0 \<le> limit"
  shows "counter_ok n limit (v + 1) (pc(i := p))"
proof (rule counter_ok_upd [OF ok])
  have pos: "1 \<le> below_count n pc" by (rule below_count_pos [of i]) (use i in auto)
  have le: "v + below_count n pc \<le> 0" using counter_okD(2) [OF ok] pos by linarith
  show "v + 1 \<le> limit" "v + 1 \<le> v \<or> v + 1 \<le> 0" using le pos l by linarith+
  show "below_count n (pc(i := p)) = 0 \<or> v + 1 + below_count n (pc(i := p)) \<le> 0"
    using below_count_upd [OF i(1), of pc p] i(2) p le by auto
qed (use p in auto)

lemma counter_ok_take:
  assumes ok: "counter_ok n limit v pc" and i: "i < n" "pc i \<noteq> DiBelow" and v: "0 < v"
  shows "counter_ok n limit (v - 1) (pc(i := DiReturned (v - 1)))"
proof (rule counter_okI)
  let ?pc = "pc(i := DiReturned (v - 1))"
  have "below_count n pc = 0" using counter_okD(2) [OF ok] v below_count_nonneg [of n pc] by linarith
  then show "below_count n ?pc = 0 \<or> v - 1 + below_count n ?pc \<le> 0" using below_count_upd [OF i(1), of pc] i(2) by simp
  have cases: "j = i \<and> w = v - 1 \<or> j \<noteq> i \<and> pc j = DiReturned w \<and> v \<le> w \<and> w < limit"
    if "?pc j = DiReturned w" "0 \<le> w" for j w
    using counter_okD(3) [OF ok _ that(2), of j] that(1) by (cases "j = i") auto
  show "v - 1 \<le> w \<and> w < limit" if "?pc j = DiReturned w" "0 \<le> w" for j w
    using cases [OF that] counter_okD(1) [OF ok] by linarith
  show "j = k" if "?pc j = DiReturned w" "0 \<le> w" "?pc k = DiReturned w" for j k w
    using cases [OF that(1,2)] cases [OF that(3,2)] counter_okD(4) [OF ok, of j w k] that(2) by auto
qed (use counter_okD(1) [OF ok] in auto)

lemma counter_ok_fresh:
  assumes "\<forall>i. pc i \<in> {DiStart, DiRaised}" and "v \<le> limit"
  shows "counter_ok n limit v pc"
proof -
  have "pc i \<noteq> DiReturned w \<and> pc i \<noteq> DiBelow" for i w using spec [OF assms(1), of i] by auto
  then show ?thesis using assms(2) by (simp add: counter_ok_def below_count_def)
qed

lemma di_incrby_live:
  assumes "r key = Some (v, Some e)" and "now < e"
  shows "redis_incrby now key m r = (v + m, r(key \<mapsto> (v + m, Some e)))"
  by (rule redis_incrby_live) (use assms in auto)

lemma di_lua_live:
  assumes "r key = Some (v, Some e)" and "now < e"
  shows "di_consume_lua now key limit r = (if v \<le> 0 then (- 1, r) else (v - 1, r(key \<mapsto> (v - 1, Some e))))"
  using assms redis_get_SomeI [of r key v "Some e" now] di_incrby_live [of r key v e now "- 1"]
  by (simp add: di_consume_lua_def)

text \<open>Seeding first makes the two entry points of a caller the same as on a seeded counter.\<close>

lemma di_lua_seeds: "di_consume_lua now key limit r = di_consume_lua now key limit (redis_set_nx now key limit DI_TTL r)"
  by (cases "redis_get now key r") (simp_all add: di_consume_lua_def redis_set_nx_def DI_TTL_def)

lemma di_seed_inv:
  assumes "di_inv key start n limit s" and "l \<le> limit"
  obtains v e where "redis_set_nx (dq_now s) key l DI_TTL (dq_store s) key = Some (v, Some e)"
    "start + DI_TTL \<le> e" "counter_ok n limit v (dq_pc s)"
proof (cases "dq_store s key")
  case None
  then have g: "redis_get (dq_now s) key (dq_store s) = None" by (simp add: redis_get_def)
  show thesis using assms None counter_ok_fresh [of "dq_pc s" l limit n]
    by (intro that [of l "dq_now s + DI_TTL"]) (auto simp: di_inv_def redis_set_nx_def g)
next
  case (Some x)
  then obtain v e where e: "dq_store s key = Some (v, Some e)" "start + DI_TTL \<le> e" "counter_ok n limit v (dq_pc s)"
    using assms(1) unfolding di_inv_def by auto
  have "redis_get (dq_now s) key (dq_store s) = Some v"
    using e assms(1) by (intro redis_get_SomeI [of _ _ v "Some e"]) (auto simp: di_inv_def)
  then show thesis using e by (intro that [of v e]) (simp_all add: redis_set_nx_def)
qed

lemma di_inv_goto:
  assumes "di_inv key start n limit s" and "r key = Some (v, Some e)" and "start + DI_TTL \<le> e"
    and "counter_ok n limit v ((dq_pc s)(i := p))"
  shows "di_inv key start n limit (goto_pc s i r p)"
  using assms by (simp add: di_inv_def goto_pc_def)

lemma di_script_inv:
  assumes inv: "di_inv key start n limit s" and i: "i < n" "dq_pc s i = DiStart" and l: "cap \<le> limit"
    and lua: "di_consume_lua (dq_now s) key (cap) (dq_store s) = (v, r)" and p: "p \<in> {DiReturned v, DiRaised}"
  shows "di_inv key start n limit (goto_pc s i r p)"
proof -
  let ?r = "redis_set_nx (dq_now s) key (cap) DI_TTL (dq_store s)"
  obtain w e where w: "?r key = Some (w, Some e)" "start + DI_TTL \<le> e" "counter_ok n limit w (dq_pc s)"
    using di_seed_inv [OF inv l] by blast
  have "dq_now s < e" using w(2) inv by (simp add: di_inv_def)
  then have lua': "(v, r) = (if w \<le> 0 then (- 1, ?r) else (w - 1, ?r(key \<mapsto> (w - 1, Some e))))"
    using lua di_lua_seeds [of "dq_now s" key "cap" "dq_store s"] di_lua_live [of ?r key w e "dq_now s" "cap"] w(1) by simp
  show ?thesis
  proof (cases "w \<le> 0")
    case True
    then have "quiet p" "r = ?r" using lua' p by auto
    then show ?thesis using w by (intro di_inv_goto [OF inv, of _ w e] counter_ok_quiet [OF w(3) i(1)]) auto
  next
    case False
    then have r: "r = ?r(key \<mapsto> (w - 1, Some e))" "v = w - 1" using lua' by auto
    have "counter_ok n limit (w - 1) ((dq_pc s)(i := p))"
      using p r counter_ok_take [OF w(3) i(1)] counter_ok_quiet [OF w(3) i(1), of DiRaised "w - 1"] i(2) False by auto
    then show ?thesis using w(2) r by (intro di_inv_goto [OF inv, of _ "w - 1" e]) auto
  qed
qed

lemma di_inv_live:
  assumes "di_inv key start n limit s" and "dq_pc s i \<in> {DiSeeded, DiBelow}"
  obtains v e where "dq_store s key = Some (v, Some e)" "start + DI_TTL \<le> e" "dq_now s < e" "counter_ok n limit v (dq_pc s)"
proof -
  have "\<not> (\<forall>i. dq_pc s i \<in> {DiStart, DiRaised})" using assms(2) by (auto intro!: exI [of _ i])
  then show thesis using assms(1) that unfolding di_inv_def by fastforce
qed

lemma di_decr_inv:
  assumes inv: "di_inv key start n limit s" and i: "i < n" "dq_pc s i = DiSeeded"
    and d: "redis_incrby (dq_now s) key (- 1) (dq_store s) = (v, r)"
    and p: "p \<in> {if v < 0 then DiBelow else DiReturned v, DiRaised}"
  shows "di_inv key start n limit (goto_pc s i r p)"
proof -
  obtain w e where w: "dq_store s key = Some (w, Some e)" "start + DI_TTL \<le> e" "dq_now s < e" "counter_ok n limit w (dq_pc s)"
    using di_inv_live [OF inv] i(2) by blast
  have r: "v = w - 1" "r = (dq_store s)(key \<mapsto> (w - 1, Some e))"
    using d di_incrby_live [of "dq_store s" key w e "dq_now s" "- 1"] w by auto
  have "counter_ok n limit (w - 1) ((dq_pc s)(i := p))"
  proof (cases "p = DiRaised")
    case True
    then show ?thesis using counter_ok_quiet [OF w(4) i(1), of DiRaised "w - 1"] by simp
  next
    case False
    then show ?thesis using p r(1) i(2) counter_ok_below [OF w(4) i(1)] counter_ok_take [OF w(4) i(1)] by (cases "w \<le> 0") auto
  qed
  then show ?thesis using w(2) r by (intro di_inv_goto [OF inv, of _ "w - 1" e]) auto
qed

lemma di_incr_inv:
  assumes inv: "di_inv key start n limit s" and i: "i < n" "dq_pc s i = DiBelow" and l: "0 \<le> limit"
    and d: "redis_incrby (dq_now s) key 1 (dq_store s) = (v, r)" and p: "p \<in> {DiReturned (- 1), DiRaised}"
  shows "di_inv key start n limit (goto_pc s i r p)"
proof -
  obtain w e where w: "dq_store s key = Some (w, Some e)" "start + DI_TTL \<le> e" "dq_now s < e" "counter_ok n limit w (dq_pc s)"
    using di_inv_live [OF inv] i(2) by blast
  have "r = (dq_store s)(key \<mapsto> (w + 1, Some e))" using d di_incrby_live [of "dq_store s" key w e "dq_now s" 1] w by auto
  moreover have "counter_ok n limit (w + 1) ((dq_pc s)(i := p))" using counter_ok_restore [OF w(4) i _ l] p by auto
  ultimately show ?thesis using w(2) by (intro di_inv_goto [OF inv, of _ "w + 1" e]) auto
qed

lemma di_step_inv:
  assumes "di_step key (start + DI_TTL) n limits s s'" and inv: "di_inv key start n limit s"
    and lim: "\<forall>i < n. limits i \<le> limit" and l: "0 \<le> limit"
  shows "di_inv key start n limit s'"
  using assms(1)
proof cases
  case (tick t)
  then show ?thesis using inv by (auto simp: di_inv_def)
next
  case (other r)
  then show ?thesis using inv by (simp add: di_inv_def)
next
  case (refused i)
  then show ?thesis using inv counter_ok_quiet [of n limit _ "dq_pc s" i DiRaised] by (auto simp: di_inv_def goto_pc_def)
next
  case (seed i r p)
  obtain v e where "redis_set_nx (dq_now s) key (limits i) DI_TTL (dq_store s) key = Some (v, Some e)"
    "start + DI_TTL \<le> e" "counter_ok n limit v (dq_pc s)"
    using di_seed_inv [OF inv] lim seed(2) by blast
  then show ?thesis using seed by (auto intro!: di_inv_goto [OF inv] counter_ok_quiet)
next
  case (script i v r p)
  show ?thesis unfolding script(1) by (rule di_script_inv [OF inv script(2,3) _ script(4,5)]) (use lim script(2) in simp)
next
  case (decr i v r p)
  show ?thesis unfolding decr(1) by (rule di_decr_inv [OF inv decr(2-5)])
next
  case (incr i v r p)
  show ?thesis unfolding incr(1) by (rule di_incr_inv [OF inv incr(2,3) l incr(4,5)])
qed

lemma di_run_inv:
  assumes "(di_step key (start + DI_TTL) n limits)\<^sup>*\<^sup>* s s'" and "di_inv key start n limit s"
    and "\<forall>i < n. limits i \<le> limit" and "0 \<le> limit"
  shows "di_inv key start n limit s'"
  using assms by (induction rule: rtranclp_induct) (auto intro: di_step_inv)

definition di_start :: "nat \<Rightarrow> int redis \<Rightarrow> di_state" where
  "di_start now r = \<lparr>dq_now = now, dq_store = r, dq_pc = (\<lambda>_. DiStart)\<rparr>"

definition di_allowed_callers :: "nat \<Rightarrow> di_state \<Rightarrow> nat set" where
  "di_allowed_callers n s = {i. i < n \<and> (\<exists>w \<ge> 0. dq_pc s i = DiReturned w)}"

definition di_remaining_of :: "di_state \<Rightarrow> nat \<Rightarrow> int" where
  "di_remaining_of s i = (case dq_pc s i of DiReturned w \<Rightarrow> w | _ \<Rightarrow> - 1)"

lemma di_inv_allowed:
  assumes "di_inv key start n limit s" and "0 \<le> limit"
  shows "int (card (di_allowed_callers n s)) \<le> limit \<and> inj_on (di_remaining_of s) (di_allowed_callers n s)"
proof (cases "dq_store s key")
  case None
  then have "dq_pc s i \<noteq> DiReturned w" for i w using assms(1) unfolding di_inv_def by (auto dest: spec [of _ i])
  then have "di_allowed_callers n s = {}" by (simp add: di_allowed_callers_def)
  then show ?thesis using assms(2) by simp
next
  case (Some x)
  then obtain v where ok: "counter_ok n limit v (dq_pc s)" using assms(1) unfolding di_inv_def by auto
  have range: "di_remaining_of s ` di_allowed_callers n s \<subseteq> {0..<limit}"
    using counter_okD(3) [OF ok] by (auto simp: di_allowed_callers_def di_remaining_of_def)
  have inj: "inj_on (di_remaining_of s) (di_allowed_callers n s)"
    by (rule inj_onI) (auto simp: di_allowed_callers_def di_remaining_of_def intro: counter_okD(4) [OF ok])
  have "card (di_allowed_callers n s) = card (di_remaining_of s ` di_allowed_callers n s)" by (simp add: card_image inj)
  also have "\<dots> \<le> card {0..<limit}" by (rule card_mono [OF _ range]) simp
  finally show ?thesis using inj assms(2) by simp
qed

text \<open>C29: The deep-investigation quota is never oversubscribed. When any number of callers consume from the key of one day,
  with the script or the fallback, in any interleaving of their Redis commands, with refused commands and lost
  answers, then at most \<open>limit\<close> of them are ever allowed (\<open>limit\<close> bounds the limits they were given), and no two of
  them are told the same remaining count.\<close>

theorem di_no_oversubscription:
  assumes "(di_step key (start + DI_TTL) n limits)\<^sup>*\<^sup>* (di_start now r) s"
    and "start \<le> now" and "now < start + DI_TTL" and "r key = None"
    and "\<forall>i < n. limits i \<le> limit" and "0 \<le> limit"
  shows "int (card (di_allowed_callers n s)) \<le> limit \<and> inj_on (di_remaining_of s) (di_allowed_callers n s)"
proof -
  have "di_inv key start n limit (di_start now r)" using assms by (simp add: di_inv_def di_start_def)
  then show ?thesis using di_inv_allowed [OF di_run_inv [OF assms(1) _ assms(5,6)] assms(6)] by simp
qed

text \<open>Two callers share a limit of one; the second decrement runs before the first caller's answer is used.\<close>

definition demo_pc :: "di_pc \<Rightarrow> di_pc \<Rightarrow> nat \<Rightarrow> di_pc" where
  "demo_pc p q i = (if i = 0 then p else if i = 1 then q else DiStart)"

lemma demo_pc_simps:
  "(demo_pc p q)(0 := p') = demo_pc p' q" "(demo_pc p q)(Suc 0 := q') = demo_pc p q'" "(\<lambda>_. DiStart) = demo_pc DiStart DiStart"
  "demo_pc p q 0 = p" "demo_pc p q (Suc 0) = q"
  by (auto simp: demo_pc_def)

definition di_demo_end :: di_state where
  "di_demo_end = \<lparr>dq_now = 5, dq_store = (Map.empty(''k'' \<mapsto> (0, Some (5 + DI_TTL)))),
     dq_pc = demo_pc (DiReturned 0) (DiReturned (- 1))\<rparr>"

lemma di_demo_run: "(di_step ''k'' (0 + DI_TTL) 2 (\<lambda>_. 1))\<^sup>*\<^sup>* (di_start 5 Map.empty) di_demo_end"
proof -
  let ?st = "\<lambda>v p q. \<lparr>dq_now = 5, dq_store = Map.empty(''k'' \<mapsto> (v, Some (5 + DI_TTL))), dq_pc = demo_pc p q\<rparr>"
  have live: "redis_incrby 5 ''k'' m (Map.empty(''k'' \<mapsto> (v, Some (5 + DI_TTL)))) = (v + m, Map.empty(''k'' \<mapsto> (v + m, Some (5 + DI_TTL))))"
    for m v :: int by (simp add: redis_incrby_def DI_TTL_def)
  have set1: "redis_set_nx 5 ''k'' 1 DI_TTL Map.empty = (Map.empty(''k'' \<mapsto> (1 :: int, Some (5 + DI_TTL))))"
    by (simp add: redis_set_nx_def redis_get_def)
  have set2: "redis_set_nx 5 ''k'' 1 DI_TTL (Map.empty(''k'' \<mapsto> (1 :: int, Some (5 + DI_TTL)))) = Map.empty(''k'' \<mapsto> (1, Some (5 + DI_TTL)))"
    by (simp add: redis_set_nx_def DI_TTL_def)
  note st = di_start_def goto_pc_def demo_pc_simps
  have s1: "di_step ''k'' (0 + DI_TTL) 2 (\<lambda>_. 1) (di_start 5 Map.empty) (?st 1 DiSeeded DiStart)"
    using di_step.seed [of 0 2 "di_start 5 Map.empty" _ "''k''" "\<lambda>_. 1" DiSeeded "0 + DI_TTL"] set1 by (simp add: st)
  have s2: "di_step ''k'' (0 + DI_TTL) 2 (\<lambda>_. 1) (?st 1 DiSeeded DiStart) (?st 1 DiSeeded DiSeeded)"
    using di_step.seed [of 1 2 "?st 1 DiSeeded DiStart" _ "''k''" "\<lambda>_. 1" DiSeeded "0 + DI_TTL"] set2 by (simp add: st)
  have s3: "di_step ''k'' (0 + DI_TTL) 2 (\<lambda>_. 1) (?st 1 DiSeeded DiSeeded) (?st 0 (DiReturned 0) DiSeeded)"
    using di_step.decr [of 0 2 "?st 1 DiSeeded DiSeeded" "''k''" 0 _ "DiReturned 0" "0 + DI_TTL" "\<lambda>_. 1"] live [of "- 1" 1] by (simp add: st)
  have s4: "di_step ''k'' (0 + DI_TTL) 2 (\<lambda>_. 1) (?st 0 (DiReturned 0) DiSeeded) (?st (- 1) (DiReturned 0) DiBelow)"
    using di_step.decr [of 1 2 "?st 0 (DiReturned 0) DiSeeded" "''k''" "- 1" _ DiBelow "0 + DI_TTL" "\<lambda>_. 1"] live [of "- 1" 0] by (simp add: st)
  have s5: "di_step ''k'' (0 + DI_TTL) 2 (\<lambda>_. 1) (?st (- 1) (DiReturned 0) DiBelow) (?st 0 (DiReturned 0) (DiReturned (- 1)))"
    using di_step.incr [of 1 2 "?st (- 1) (DiReturned 0) DiBelow" "''k''" 0 _ "DiReturned (- 1)" "0 + DI_TTL" "\<lambda>_. 1"] live [of 1 "- 1"] by (simp add: st)
  have "(di_step ''k'' (0 + DI_TTL) 2 (\<lambda>_. 1))\<^sup>*\<^sup>* (di_start 5 Map.empty) (?st 0 (DiReturned 0) (DiReturned (- 1)))"
    using s1 s2 s3 s4 s5 by (meson rtranclp.rtrancl_refl rtranclp.rtrancl_into_rtrancl)
  then show ?thesis by (simp add: di_demo_end_def)
qed

theorem di_no_oversubscription_witness:
  "int (card (di_allowed_callers 2 di_demo_end)) \<le> 1 \<and> 0 \<in> di_allowed_callers 2 di_demo_end"
  using di_no_oversubscription [of "''k''" 0 2 "\<lambda>_. 1" 5 Map.empty di_demo_end 1] di_demo_run
  by (simp add: DI_TTL_def di_allowed_callers_def di_demo_end_def demo_pc_simps)

subsection \<open>The ingest window over a sequence of requests\<close>

record ingest_req =
  iq_tenant :: string
  iq_now :: nat
  iq_count :: nat
  iq_limit :: int
  iq_replies :: "nat \<Rightarrow> reply"

text \<open>Requests whose check and update are not interleaved with another's; the log keeps each answer.\<close>

fun ingest_run :: "ingest_req list \<Rightarrow> int redis \<Rightarrow> (ingest_req \<times> (quota_error + unit)) list" where
  "ingest_run [] r = []"
| "ingest_run (q # qs) r =
     (let (out, r') = check_and_consume_ingest (iq_now q) (iq_tenant q) (iq_count q) (iq_limit q) (iq_replies q) r in
      (q, out) # ingest_run qs r')"

definition accepted_of :: "string \<Rightarrow> int \<Rightarrow> ingest_req \<times> (quota_error + unit) \<Rightarrow> int" where
  "accepted_of tenant b entry =
     (if snd entry = Inr () \<and> iq_tenant (fst entry) = tenant \<and> bucket_of (iq_now (fst entry)) = b then int (iq_count (fst entry)) else 0)"

definition accepted_events :: "(ingest_req \<times> (quota_error + unit)) list \<Rightarrow> string \<Rightarrow> int \<Rightarrow> int" where
  "accepted_events hist tenant b = sum_list (map (accepted_of tenant b) hist)"

definition window_events :: "(ingest_req \<times> (quota_error + unit)) list \<Rightarrow> string \<Rightarrow> int \<Rightarrow> int" where
  "window_events hist tenant c = (\<Sum>b \<in> {c - 9..c}. accepted_events hist tenant b)"

lemma accepted_events_simps [simp]:
  "accepted_events [] t b = 0"
  "accepted_events (e # hist) t b = accepted_of t b e + accepted_events hist t b"
  "accepted_events (hist @ hist') t b = accepted_events hist t b + accepted_events hist' t b"
  by (simp_all add: accepted_events_def)

lemma accepted_of_nonneg: "0 \<le> accepted_of t b e"
  by (simp add: accepted_of_def)

lemma accepted_events_nonneg: "0 \<le> accepted_events hist t b"
  by (induction hist) (simp_all add: accepted_of_nonneg)

text \<open>What the store knows of a log: every bucket still holds at least what was accepted in it, and exactly that when no
  command failed; its expiry lies beyond the window of the bucket.\<close>

definition bucket_ok :: "bool \<Rightarrow> int \<Rightarrow> int \<Rightarrow> (int \<times> nat option) option \<Rightarrow> bool" where
  "bucket_ok exact n b entry =
     (case entry of
        None \<Rightarrow> n = 0
      | Some (v, e) \<Rightarrow> n \<le> v \<and> (exact \<longrightarrow> v = n) \<and> (case e of None \<Rightarrow> True | Some x \<Rightarrow> 6 * b + 120 \<le> int x))"

definition log_ok :: "bool \<Rightarrow> (ingest_req \<times> (quota_error + unit)) list \<Rightarrow> int redis \<Rightarrow> bool" where
  "log_ok exact hist r \<longleftrightarrow> (\<forall>t b. bucket_ok exact (accepted_events hist t b) b (r (ingest_key t b)))"

lemma bucket_of_bounds: "6 * bucket_of now \<le> int now" "int now < 6 * bucket_of now + 6"
  by (simp_all add: bucket_of_def BUCKET_SECONDS_def)

lemma bucket_ok_live:
  assumes "bucket_ok exact n b (r k)" and "bucket_of now < b + 20"
  shows "n \<le> (case redis_get now k r of None \<Rightarrow> 0 | Some v \<Rightarrow> v)"
    and "exact \<Longrightarrow> (case redis_get now k r of None \<Rightarrow> 0 | Some v \<Rightarrow> v) = n"
  using assms bucket_of_bounds [of now] by (auto simp: bucket_ok_def redis_get_def split: option.splits)

lemma window_set: "{c - 9..c} = (\<lambda>i. c - int i) ` {..<10}"
proof
  show "{c - 9..c} \<subseteq> (\<lambda>i. c - int i) ` {..<10}"
  proof
    fix b assume "b \<in> {c - 9..c}"
    then show "b \<in> (\<lambda>i. c - int i) ` {..<10}" by (intro image_eqI [of _ _ "nat (c - b)"]) auto
  qed
qed auto

lemma sum_window: "(\<Sum>b \<in> {c - 9..c}. f b) = sum_list (map (\<lambda>i. f (c - int i)) [0..<10])" for f :: "int \<Rightarrow> int"
  unfolding window_set by (simp add: sum.reindex inj_on_def sum_list_distinct_conv_sum_set lessThan_atLeast0)

lemma ingest_rate_bounds:
  assumes ok: "log_ok exact hist r" and rate: "current_ingest_rate now t f r = Inr used"
  shows "window_events hist t (bucket_of now) \<le> used" and "exact \<Longrightarrow> used = window_events hist t (bucket_of now)"
proof -
  let ?v = "\<lambda>i. case redis_get now (ingest_key t (bucket_of now - int i)) r of None \<Rightarrow> 0 | Some v \<Rightarrow> v"
  have used: "used = sum_list (map ?v [0..<10])"
    using rate by (cases f) (simp_all add: current_ingest_rate_def window_keys_def WINDOW_BUCKETS_def comp_def)
  have win: "window_events hist t (bucket_of now) = sum_list (map (\<lambda>i. accepted_events hist t (bucket_of now - int i)) [0..<10])"
    by (simp add: window_events_def sum_window)
  have b: "bucket_ok exact (accepted_events hist t b) b (r (ingest_key t b))" for b using ok by (simp add: log_ok_def)
  have le: "accepted_events hist t (bucket_of now - int i) \<le> ?v i" if "i \<in> set [0..<10]" for i
    using bucket_ok_live(1) [of exact _ "bucket_of now - int i" r "ingest_key t (bucket_of now - int i)" now] b that by auto
  have eq: "?v i = accepted_events hist t (bucket_of now - int i)" if "i \<in> set [0..<10]" exact for i
    using bucket_ok_live(2) [of exact _ "bucket_of now - int i" r "ingest_key t (bucket_of now - int i)" now] b that by auto
  show "window_events hist t (bucket_of now) \<le> used" unfolding used win by (rule sum_list_mono) (rule le)
  show "used = window_events hist t (bucket_of now)" if exact
    unfolding used win by (rule arg_cong [of _ _ sum_list], rule map_cong [OF refl]) (rule eq [OF _ that])
qed

lemma redis_expire_live:
  assumes "r k = Some (v, e)" and "\<forall>x. e = Some x \<longrightarrow> now < x"
  shows "redis_expire now k ttl r = r(k \<mapsto> (v, Some (now + ttl)))"
  using redis_get_SomeI [of r k v e now] assms by (simp add: redis_expire_def)

lemma ingest_incr_cases:
  assumes "bucket_ok exact n (bucket_of now) (r k)"
  obtains v e where "redis_incrby now k m r = (v + m, r(k \<mapsto> (v + m, e)))" "n \<le> v" "exact \<Longrightarrow> v = n"
    "\<forall>x. e = Some x \<longrightarrow> now < x \<and> 6 * bucket_of now + 120 \<le> int x"
proof (cases "r k")
  case None
  then show thesis using assms by (intro that [of 0 None]) (simp_all add: bucket_ok_def redis_incrby_def redis_get_def)
next
  case (Some ve)
  obtain v e where ve: "ve = (v, e)" by (cases ve)
  have e: "\<forall>x. e = Some x \<longrightarrow> now < x \<and> 6 * bucket_of now + 120 \<le> int x"
    using assms Some ve bucket_of_bounds [of now] by (auto simp: bucket_ok_def split: option.splits)
  show thesis
  proof (rule that [of v e])
    show "redis_incrby now k m r = (v + m, r(k \<mapsto> (v + m, e)))" using Some ve e by (intro redis_incrby_live) auto
  qed (use assms Some ve e in \<open>auto simp: bucket_ok_def\<close>)
qed

lemma ingest_consume_bucket:
  assumes ok: "bucket_ok exact n (bucket_of now) (r (ingest_key t (bucket_of now)))"
    and ex: "exact \<Longrightarrow> replies = (\<lambda>_. Replied)" and c: "ingest_consume now t m replies r = (out, r')"
  shows "bucket_ok exact (n + (if out = Inr () then int m else 0)) (bucket_of now) (r' (ingest_key t (bucket_of now)))"
proof -
  let ?k = "ingest_key t (bucket_of now)"
  obtain v e where v: "redis_incrby now ?k (int m) r = (v + int m, r(?k \<mapsto> (v + int m, e)))" "n \<le> v" "exact \<Longrightarrow> v = n"
    "\<forall>x. e = Some x \<longrightarrow> now < x \<and> 6 * bucket_of now + 120 \<le> int x"
    using ingest_incr_cases [of exact n now r ?k "int m"] ok by blast
  have exp: "redis_expire now ?k BUCKET_TTL (r(?k \<mapsto> (v + int m, e))) = r(?k \<mapsto> (v + int m, Some (now + BUCKET_TTL)))"
    using v(4) redis_expire_live [of "r(?k \<mapsto> (v + int m, e))" ?k "v + int m" e now] by simp
  have ok1: "bucket_ok exact (n + int m) (bucket_of now) (Some (v + int m, Some (now + BUCKET_TTL)))"
    using v bucket_of_bounds [of now] by (auto simp: bucket_ok_def BUCKET_TTL_def)
  have ok2: "bucket_ok exact n (bucket_of now) (Some (v + int m, e'))"
    if "\<not> exact" "e' = e \<or> e' = Some (now + BUCKET_TTL)" for e'
    using v that bucket_of_bounds [of now] by (auto simp: bucket_ok_def BUCKET_TTL_def split: option.splits)
  show ?thesis
  proof (cases "exact")
    case True
    then show ?thesis using c ex ok1 by (auto simp: ingest_consume_def v(1) exp)
  next
    case False
    then show ?thesis using c ok1 ok2 ok
      by (cases "replies 1"; cases "replies 2") (auto simp: ingest_consume_def v(1) exp)
  qed
qed

lemma ingest_consume_other:
  assumes "ingest_consume now t m replies r = (out, r')" and "k \<noteq> ingest_key t (bucket_of now)"
  shows "r' k = r k"
  using assms
  by (cases "replies 1"; cases "replies 2")
     (auto simp: ingest_consume_def redis_incrby_def redis_expire_def Let_def split: option.splits)

lemma check_and_consume_log:
  assumes ok: "log_ok exact hist r" and ex: "exact \<Longrightarrow> iq_replies q = (\<lambda>_. Replied)"
    and c: "check_and_consume_ingest (iq_now q) (iq_tenant q) (iq_count q) (iq_limit q) (iq_replies q) r = (out, r')"
  shows "log_ok exact (hist @ [(q, out)]) r'"
proof (cases "ingest_check (iq_now q) (iq_tenant q) (iq_count q) (iq_limit q) (iq_replies q 0) r")
  case (Inl e)
  then show ?thesis using c ok by (auto simp: check_and_consume_ingest_def log_ok_def accepted_of_def)
next
  case (Inr u)
  then have cons: "ingest_consume (iq_now q) (iq_tenant q) (iq_count q) (iq_replies q) r = (out, r')"
    using c by (simp add: check_and_consume_ingest_def)
  show ?thesis unfolding log_ok_def
  proof (intro allI)
    fix t b
    have b: "bucket_ok exact (accepted_events hist t b) b (r (ingest_key t b))" using ok by (simp add: log_ok_def)
    show "bucket_ok exact (accepted_events (hist @ [(q, out)]) t b) b (r' (ingest_key t b))"
    proof (cases "t = iq_tenant q \<and> b = bucket_of (iq_now q)")
      case True
      then have "accepted_of t b (q, out) = (if out = Inr () then int (iq_count q) else 0)" by (simp add: accepted_of_def)
      then show ?thesis
        using ingest_consume_bucket [of exact "accepted_events hist t b" "iq_now q" r t "iq_replies q" "iq_count q" out r'] ex cons b True
        by simp
    next
      case False
      then have "accepted_of t b (q, out) = 0" by (auto simp: accepted_of_def)
      moreover have "r' (ingest_key t b) = r (ingest_key t b)" using False by (intro ingest_consume_other [OF cons]) auto
      ultimately show ?thesis using b by simp
    qed
  qed
qed

definition log_buckets_le :: "(ingest_req \<times> (quota_error + unit)) list \<Rightarrow> nat \<Rightarrow> bool" where
  "log_buckets_le hist now \<longleftrightarrow> (\<forall>e \<in> set hist. iq_now (fst e) \<le> now)"

lemma accepted_later_zero:
  assumes "log_buckets_le hist now" and "bucket_of now < b"
  shows "accepted_events hist t b = 0"
  using assms
proof (induction hist)
  case (Cons e hist)
  have "bucket_of (iq_now (fst e)) \<le> bucket_of now"
    using Cons.prems(1) by (simp add: log_buckets_le_def bucket_of_def div_le_mono)
  then have "accepted_of t b e = 0" using Cons.prems(2) by (simp add: accepted_of_def)
  then show ?case using Cons by (simp add: log_buckets_le_def)
qed simp

text \<open>Beyond the current bucket nothing is accepted yet, so a later window holds no more than the current one.\<close>

lemma window_later:
  assumes "log_buckets_le hist now" and "bucket_of now \<le> c"
  shows "window_events hist t c \<le> window_events hist t (bucket_of now)"
proof -
  have "(\<Sum>b \<in> {c - 9..c}. accepted_events hist t b) = (\<Sum>b \<in> {c - 9..c} \<inter> {..bucket_of now}. accepted_events hist t b)"
    by (rule sum.mono_neutral_right) (auto intro: accepted_later_zero [OF assms(1)])
  also have "\<dots> \<le> (\<Sum>b \<in> {bucket_of now - 9..bucket_of now}. accepted_events hist t b)"
    by (rule sum_mono2) (use assms(2) in \<open>auto simp: accepted_events_nonneg\<close>)
  finally show ?thesis by (simp add: window_events_def)
qed

lemma window_snoc:
  "window_events (hist @ [e]) t c = window_events hist t c + (\<Sum>b \<in> {c - 9..c}. accepted_of t b e)"
  by (simp add: window_events_def sum.distrib)

lemma window_current:
  assumes "iq_tenant q = t" and "iq_now q = now"
  shows "(\<Sum>b \<in> {bucket_of now - 9..bucket_of now}. accepted_of t b (q, Inr ())) = int (iq_count q)"
proof -
  have "accepted_of t b (q, Inr ()) = (if b = bucket_of now then int (iq_count q) else 0)" for b
    using assms by (auto simp: accepted_of_def)
  then show ?thesis by simp
qed

lemma accepted_check:
  assumes "check_and_consume_ingest now t m limit replies r = (Inr (), r')"
  obtains used where "current_ingest_rate now t (replies 0) r = Inr used" "used + int m \<le> limit"
  using assms
  by (auto simp: check_and_consume_ingest_def ingest_check_def soc_simps split: sum.splits)

lemma window_step:
  assumes ok: "log_ok exact hist r" and le: "log_buckets_le hist (iq_now q)" and lim: "iq_limit q \<le> limit"
    and c: "check_and_consume_ingest (iq_now q) (iq_tenant q) (iq_count q) (iq_limit q) (iq_replies q) r = (out, r')"
    and bound: "\<forall>t c. window_events hist t c \<le> limit"
  shows "window_events (hist @ [(q, out)]) t c \<le> limit"
proof (cases "out = Inr () \<and> iq_tenant q = t \<and> bucket_of (iq_now q) \<le> c")
  case True
  let ?b = "bucket_of (iq_now q)" and ?h = "hist @ [(q, Inr ())]"
  obtain used where u: "current_ingest_rate (iq_now q) t (iq_replies q 0) r = Inr used" "used + int (iq_count q) \<le> iq_limit q"
    using accepted_check [of "iq_now q" t "iq_count q" "iq_limit q" "iq_replies q" r r'] c True by auto
  have "log_buckets_le ?h (iq_now q)" using le by (simp add: log_buckets_le_def)
  then have "window_events ?h t c \<le> window_events ?h t ?b" using True by (intro window_later) auto
  also have "\<dots> = window_events hist t ?b + int (iq_count q)" using True by (simp add: window_snoc window_current)
  also have "\<dots> \<le> limit" using ingest_rate_bounds(1) [OF ok u(1)] u(2) lim by linarith
  finally show ?thesis using True by simp
next
  case False
  then have "(\<Sum>b \<in> {c - 9..c}. accepted_of t b (q, out)) = 0" by (intro sum.neutral) (auto simp: accepted_of_def)
  then show ?thesis using bound by (simp add: window_snoc)
qed

lemma ingest_run_window:
  assumes "log_ok exact hist r" and "\<forall>t c. window_events hist t c \<le> limit"
    and "\<forall>q \<in> set qs. log_buckets_le hist (iq_now q)" and "sorted (map iq_now qs)"
    and "\<forall>q \<in> set qs. iq_limit q \<le> limit" and "exact \<Longrightarrow> \<forall>q \<in> set qs. iq_replies q = (\<lambda>_. Replied)"
  shows "window_events (hist @ ingest_run qs r) t c \<le> limit"
  using assms
proof (induction qs arbitrary: hist r)
  case (Cons q qs)
  obtain out r' where c: "check_and_consume_ingest (iq_now q) (iq_tenant q) (iq_count q) (iq_limit q) (iq_replies q) r = (out, r')"
    by fastforce
  let ?h = "hist @ [(q, out)]"
  have "\<forall>q' \<in> set qs. log_buckets_le ?h (iq_now q')" using Cons.prems(3,4) by (auto simp: log_buckets_le_def)
  moreover have "log_ok exact ?h r'" by (rule check_and_consume_log [OF Cons.prems(1) _ c]) (use Cons.prems(6) in simp)
  moreover have "\<forall>t c. window_events ?h t c \<le> limit"
    using window_step [OF Cons.prems(1) _ _ c Cons.prems(2)] Cons.prems(3,5) by simp
  ultimately have "window_events (?h @ ingest_run qs r') t c \<le> limit" using Cons.prems(4-6) by (intro Cons.IH) auto
  then show ?case using c by simp
qed simp

lemma refused_check:
  assumes "check_and_consume_ingest now t m limit replies r = (Inl (IngestQuotaExceeded ra), r')"
  obtains used where "current_ingest_rate now t (replies 0) r = Inr used" "limit < used + int m" "1 \<le> ra" "ra \<le> 6"
proof -
  have "ingest_check now t m limit (replies 0) r = Inl (IngestQuotaExceeded ra)"
    using assms by (cases "replies 1"; cases "replies 2")
      (auto simp: check_and_consume_ingest_def ingest_consume_def Let_def split: sum.splits prod.splits)
  then obtain used where "current_ingest_rate now t (replies 0) r = Inr used" "limit < used + int m"
    "ra = max 1 (BUCKET_SECONDS - now mod BUCKET_SECONDS)"
    by (auto simp: ingest_check_def current_ingest_rate_def soc_simps split: option.splits)
  then show thesis by (intro that) (auto simp: BUCKET_SECONDS_def)
qed

lemma ingest_run_refused:
  assumes "log_ok True hist r" and "\<forall>q \<in> set qs. iq_replies q = (\<lambda>_. Replied)"
    and "ingest_run qs r = pre @ (q, Inl (IngestQuotaExceeded ra)) # post"
  shows "iq_limit q < window_events (hist @ pre) (iq_tenant q) (bucket_of (iq_now q)) + int (iq_count q) \<and> 1 \<le> ra \<and> ra \<le> 6"
  using assms
proof (induction qs arbitrary: hist r pre)
  case (Cons p qs)
  obtain out r' where c: "check_and_consume_ingest (iq_now p) (iq_tenant p) (iq_count p) (iq_limit p) (iq_replies p) r = (out, r')"
    by fastforce
  have ok: "log_ok True (hist @ [(p, out)]) r'" by (rule check_and_consume_log [OF Cons.prems(1) _ c]) (use Cons.prems(2) in simp)
  show ?case
  proof (cases pre)
    case Nil
    then have "q = p" "out = Inl (IngestQuotaExceeded ra)" using Cons.prems(3) c by auto
    then obtain used where "current_ingest_rate (iq_now q) (iq_tenant q) (iq_replies q 0) r = Inr used"
      "iq_limit q < used + int (iq_count q)" "1 \<le> ra" "ra \<le> 6"
      using refused_check c by metis
    then show ?thesis using ingest_rate_bounds(2) [OF Cons.prems(1)] Nil by simp
  next
    case (Cons e pre')
    then have "e = (p, out)" "ingest_run qs r' = pre' @ (q, Inl (IngestQuotaExceeded ra)) # post"
      using Cons.prems(3) c by auto
    then show ?thesis using Cons.IH [OF ok] Cons.prems(2) Cons by simp
  qed
qed simp

text \<open>C30: The ingest quota is a sliding window of sixty seconds. For requests that are checked one after the other, in
  the order of time, the events accepted for one tenant in any ten consecutive buckets of six seconds never exceed
  the largest limit in force, whatever commands fail and although the counters expire; and when no command fails a
  batch is refused only if it would have exceeded its own limit over the ten buckets that end with its own, with a
  retry hint between one and six seconds.\<close>

theorem ingest_window_bounded:
  assumes "sorted (map iq_now qs)" and "\<forall>q \<in> set qs. iq_limit q \<le> limit" and "0 \<le> limit"
    and "\<forall>t b. r (ingest_key t b) = None"
  shows "window_events (ingest_run qs r) t c \<le> limit
    \<and> ((\<forall>q \<in> set qs. iq_replies q = (\<lambda>_. Replied)) \<longrightarrow>
        ingest_run qs r = pre @ (q, Inl (IngestQuotaExceeded retry_after)) # post \<longrightarrow>
        iq_limit q < window_events pre (iq_tenant q) (bucket_of (iq_now q)) + int (iq_count q)
        \<and> 1 \<le> retry_after \<and> retry_after \<le> 6)"
proof (intro conjI impI)
  have ok: "log_ok exact [] r" for exact using assms(4) by (simp add: log_ok_def bucket_ok_def)
  show "window_events (ingest_run qs r) t c \<le> limit"
    using ingest_run_window [OF ok [of False], of limit qs t c] assms by (simp add: window_events_def log_buckets_le_def)
  assume "\<forall>q \<in> set qs. iq_replies q = (\<lambda>_. Replied)" "ingest_run qs r = pre @ (q, Inl (IngestQuotaExceeded retry_after)) # post"
  then have "iq_limit q < window_events ([] @ pre) (iq_tenant q) (bucket_of (iq_now q)) + int (iq_count q) \<and> 1 \<le> retry_after \<and> retry_after \<le> 6"
    by (rule ingest_run_refused [OF ok [of True]])
  then show "iq_limit q < window_events pre (iq_tenant q) (bucket_of (iq_now q)) + int (iq_count q)"
    "1 \<le> retry_after" "retry_after \<le> 6" by simp_all
qed

definition demo_req :: "nat \<Rightarrow> nat \<Rightarrow> ingest_req" where
  "demo_req now m = \<lparr>iq_tenant = ''t'', iq_now = now, iq_count = m, iq_limit = 10, iq_replies = (\<lambda>_. Replied)\<rparr>"

lemma ingest_run_zip: "ingest_run qs r = zip qs (map snd (ingest_run qs r))"
  by (induction qs arbitrary: r) (auto simp: Let_def split: prod.split)

lemma demo_answers:
  "map snd (ingest_run [demo_req 100 8, demo_req 130 5, demo_req 190 5] Map.empty)
   = [Inr (), Inl (IngestQuotaExceeded 2), Inr ()]"
  by code_simp

lemma demo_ingest_run:
  "ingest_run [demo_req 100 8, demo_req 130 5, demo_req 190 5] Map.empty
   = [(demo_req 100 8, Inr ())] @ (demo_req 130 5, Inl (IngestQuotaExceeded 2)) # [(demo_req 190 5, Inr ())]"
  by (subst ingest_run_zip) (simp only: demo_answers zip_Cons_Cons zip_Nil append.simps)

theorem ingest_window_bounded_witness:
  "window_events (ingest_run [demo_req 100 8, demo_req 130 5, demo_req 190 5] Map.empty) ''t'' 21 \<le> 10
   \<and> 10 < window_events [(demo_req 100 8, Inr ())] ''t'' 21 + 5"
proof -
  have "window_events (ingest_run [demo_req 100 8, demo_req 130 5, demo_req 190 5] Map.empty) ''t'' 21 \<le> 10
    \<and> ((\<forall>q \<in> set [demo_req 100 8, demo_req 130 5, demo_req 190 5]. iq_replies q = (\<lambda>_. Replied)) \<longrightarrow>
        ingest_run [demo_req 100 8, demo_req 130 5, demo_req 190 5] Map.empty
          = [(demo_req 100 8, Inr ())] @ (demo_req 130 5, Inl (IngestQuotaExceeded 2)) # [(demo_req 190 5, Inr ())] \<longrightarrow>
        iq_limit (demo_req 130 5) < window_events [(demo_req 100 8, Inr ())] (iq_tenant (demo_req 130 5)) (bucket_of (iq_now (demo_req 130 5)))
          + int (iq_count (demo_req 130 5)) \<and> (1::nat) \<le> 2 \<and> (2::nat) \<le> 6)"
    by (rule ingest_window_bounded) (simp_all add: demo_req_def)
  moreover have "bucket_of 130 = 21" by (simp add: bucket_of_def BUCKET_SECONDS_def)
  ultimately show ?thesis by (simp only: demo_ingest_run) (simp add: demo_req_def)
qed

subsection \<open>Findings\<close>

text \<open>The check and the update are two commands: two batches that are both checked before either is counted pass
  together and exceed the limit.\<close>

lemma ingest_check_races:
  "ingest_check 100 ''t'' 10 10 Replied Map.empty = Inr ()
   \<and> (let r = snd (ingest_consume 100 ''t'' 10 (\<lambda>_. Replied) Map.empty);
          r' = snd (ingest_consume 100 ''t'' 10 (\<lambda>_. Replied) r) in
      current_ingest_rate 100 ''t'' Replied r' = Inr 20)"
  by code_simp

text \<open>When the EXPIRE after the first increment of a rate-limit key fails, the key never expires: once the allowance is
  used up every later request is refused, however much time passes.\<close>

lemma rate_limit_stuck:
  assumes "r k = Some (v, None)" and "per_minute \<le> v" and "1 \<le> v" and "replies 0 = Replied"
  shows "fst (check_rate_limit now k per_minute replies r) = Inl RateLimited
    \<and> snd (check_rate_limit now k per_minute replies r) k = Some (v + 1, None)"
  using assms redis_incrby_live [of r k v None now 1] by (simp add: check_rate_limit_def)

lemma rate_limit_loses_expiry:
  "check_rate_limit 100 ''k'' 1 (\<lambda>i. if i = 0 then Replied else Refused) Map.empty
   = (Inl QuotaUnavailable, Map.empty(''k'' \<mapsto> (1, None)))"
  by (simp add: check_rate_limit_def redis_incrby_def redis_get_def)

end
