(* ===== verification/Credentials.thy ===== *)
theory Credentials
  imports Ids
begin

section \<open>Credentials on the wire\<close>

text \<open>
  \<^item> Enrollment tokens and ingest keys (\<^verbatim>\<open>dataplane/core/tokens.py\<close>): \<open>mint_secret\<close>, \<open>parse_credential\<close> and
    \<open>secret_matches\<close>, with \<^verbatim>\<open>base64.urlsafe_b64encode\<close> and the lenient decoder of the standard library, which skips
    foreign characters. The random bytes and SHA-256 are arguments; a tenant id is the number of its UUID.
  \<^item> Service tokens (\<^verbatim>\<open>soc_entitlements/tokens.py\<close>): \<open>generate_service_token\<close> and \<open>verify_service_token\<close>, with
    Python's \<^verbatim>\<open>int\<close> on decimal text. HMAC-SHA-256 is an argument.
\<close>

subsection \<open>Base64\<close>

definition b64_char :: "nat \<Rightarrow> char" where
  "b64_char n = char_of (if n < 26 then 65 + n else if n < 52 then 71 + n else if n < 62 then n - 4 else if n = 62 then 45 else 95)"

text \<open>The table of the decoder after the translation of \<^verbatim>\<open>-_\<close> to \<^verbatim>\<open>+/\<close>, which stay valid.\<close>

definition b64_val :: "char \<Rightarrow> nat option" where
  "b64_val c = (let n = (of_char c :: nat) in
     if 65 \<le> n \<and> n \<le> 90 then Some (n - 65)
     else if 97 \<le> n \<and> n \<le> 122 then Some (n - 71)
     else if 48 \<le> n \<and> n \<le> 57 then Some (n + 4)
     else if n = 45 \<or> n = 43 then Some 62
     else if n = 95 \<or> n = 47 then Some 63 else None)"

fun b64_encode :: "nat list \<Rightarrow> string" where
  "b64_encode [] = []"
| "b64_encode [a] = [b64_char (a div 4), b64_char (a mod 4 * 16), CHR ''='', CHR ''='']"
| "b64_encode [a, b] = [b64_char (a div 4), b64_char (a mod 4 * 16 + b div 16), b64_char (b mod 16 * 4), CHR ''='']"
| "b64_encode (a # b # c # rest) =
     [b64_char (a div 4), b64_char (a mod 4 * 16 + b div 16), b64_char (b mod 16 * 4 + c div 64), b64_char (c mod 64)]
     @ b64_encode rest"

text \<open>\<^verbatim>\<open>binascii.a2b_base64\<close>, not strict: the position in the quadruple, the bits left over and the number of pads.\<close>

fun a2b_base64 :: "nat \<Rightarrow> nat \<Rightarrow> nat \<Rightarrow> string \<Rightarrow> nat list option" where
  "a2b_base64 quad left pads [] = (if quad = 0 then Some [] else None)"
| "a2b_base64 quad left pads (ch # cs) =
     (if ch = CHR ''=''
      then if quad \<ge> 2 \<and> quad + (pads + 1) \<ge> 4 then Some []
           else a2b_base64 quad left (if quad \<ge> 2 then pads + 1 else pads) cs
      else case b64_val ch of
        None \<Rightarrow> a2b_base64 quad left pads cs
      | Some v \<Rightarrow>
          if quad = 0 then a2b_base64 1 v 0 cs
          else if quad = 1 then map_option ((#) (left * 4 + v div 16)) (a2b_base64 2 (v mod 16) 0 cs)
          else if quad = 2 then map_option ((#) (left * 16 + v div 4)) (a2b_base64 3 (v mod 4) 0 cs)
          else map_option ((#) (left * 64 + v)) (a2b_base64 0 0 0 cs))"

definition urlsafe_b64decode :: "string \<Rightarrow> nat list option" where
  "urlsafe_b64decode s = (if list_all (\<lambda>c. (of_char c :: nat) < 128) s then a2b_base64 0 0 0 s else None)"

definition rstrip_pad :: "string \<Rightarrow> string" where
  "rstrip_pad s = rev (dropWhile (\<lambda>c. c = CHR ''='') (rev s))"

subsection \<open>Enrollment tokens and ingest keys\<close>

definition SECRET_RANDOM_BYTES :: nat where "SECRET_RANDOM_BYTES = 32"

fun nat_to_bytes :: "nat \<Rightarrow> nat \<Rightarrow> nat list" where
  "nat_to_bytes 0 n = []"
| "nat_to_bytes (Suc k) n = nat_to_bytes k (n div 256) @ [n mod 256]"

definition bytes_to_nat :: "nat list \<Rightarrow> nat" where
  "bytes_to_nat bs = foldl (\<lambda>acc b. acc * 256 + b) 0 bs"

record minted_secret =
  wire_token :: string
  secret_hash :: string

record parsed_credential =
  credential_id :: string
  cred_tenant :: nat
  cred_secret :: string

definition mint_secret :: "(string \<Rightarrow> string) \<Rightarrow> nat list \<Rightarrow> string \<Rightarrow> nat \<Rightarrow> minted_secret" where
  "mint_secret sha256 urandom cred_id tenant =
     (let secret = rstrip_pad (b64_encode (nat_to_bytes 16 tenant @ urandom)) in
      \<lparr>wire_token = cred_id @ ''.'' @ secret, secret_hash = sha256 secret\<rparr>)"

definition parse_credential :: "string \<Rightarrow> string \<Rightarrow> parsed_credential option" where
  "parse_credential expected_prefix presented =
     (let cred_id = takeWhile (\<lambda>c. c \<noteq> CHR ''.'') presented;
          rest = dropWhile (\<lambda>c. c \<noteq> CHR ''.'') presented;
          secret = drop 1 rest in
      if presented = [] \<or> length presented > 512 then None
      else if rest = [] \<or> secret = [] \<or> \<not> starts_with cred_id expected_prefix then None
      else case urlsafe_b64decode (secret @ replicate ((4 - length secret mod 4) mod 4) (CHR ''='')) of
        None \<Rightarrow> None
      | Some raw \<Rightarrow>
          if length raw \<noteq> 16 + SECRET_RANDOM_BYTES then None
          else Some \<lparr>credential_id = cred_id, cred_tenant = bytes_to_nat (take 16 raw), cred_secret = secret\<rparr>)"

definition secret_matches :: "(string \<Rightarrow> string) \<Rightarrow> string \<Rightarrow> string \<Rightarrow> bool" where
  "secret_matches sha256 secret stored_hash = (sha256 secret = stored_hash)"

subsection \<open>Service tokens\<close>

definition TOKEN_VERSION :: string where "TOKEN_VERSION = ''v1''"

definition MAX_TOKEN_LIFETIME_SECONDS :: int where "MAX_TOKEN_LIFETIME_SECONDS = 300"

definition CLOCK_SKEW_SECONDS :: int where "CLOCK_SKEW_SECONDS = 30"

definition MIN_KEY_BYTES :: nat where "MIN_KEY_BYTES = 32"

datatype token_error = InvalidServiceToken | ExpiredServiceToken | KeyTooShort | BadServiceName | BadTtl

definition service_name_ok :: "string \<Rightarrow> bool" where
  "service_name_ok s =
     (let t = drop_final_newline s; alnum = (\<lambda>c. is_lower c \<or> is_digit c) in
      t \<noteq> [] \<and> length t \<le> 64 \<and> alnum (hd t) \<and> list_all (\<lambda>c. alnum c \<or> c = CHR ''_'' \<or> c = CHR ''-'') t)"

fun dec_digits :: "nat \<Rightarrow> bool \<Rightarrow> string \<Rightarrow> nat option" where
  "dec_digits acc after_digit [] = (if after_digit then Some acc else None)"
| "dec_digits acc after_digit (c # cs) =
     (if c = CHR ''_'' then (if after_digit then dec_digits acc False cs else None)
      else if is_digit c then dec_digits (acc * 10 + (of_char c - 48)) True cs else None)"

definition MAX_INT_DIGITS :: nat where "MAX_INT_DIGITS = 4300"

text \<open>\<^verbatim>\<open>int(s)\<close>; more than 4300 digits are refused by the interpreter.\<close>

definition int_base10 :: "string \<Rightarrow> int option" where
  "int_base10 s =
     (let t = py_strip s;
          u = (if starts_with t ''+'' \<or> starts_with t ''-'' then drop 1 t else t) in
      if length (filter is_digit u) > MAX_INT_DIGITS then None
      else map_option (\<lambda>n. if starts_with t ''-'' then - int n else int n) (dec_digits 0 False u))"

definition coerce_key :: "string \<Rightarrow> token_error + string" where
  "coerce_key key = (if length key < MIN_KEY_BYTES then Inl KeyTooShort else Inr key)"

definition signing_input :: "string \<Rightarrow> int \<Rightarrow> string" where
  "signing_input service_name expires = TOKEN_VERSION @ ''.'' @ service_name @ ''.'' @ int_to_dec expires"

definition generate_service_token ::
  "(string \<Rightarrow> string \<Rightarrow> string) \<Rightarrow> string \<Rightarrow> string \<Rightarrow> int \<Rightarrow> int \<Rightarrow> token_error + string" where
  "generate_service_token hmac service_name key ttl now =
     (if \<not> service_name_ok service_name then Inl BadServiceName
      else if \<not> (0 < ttl \<and> ttl \<le> MAX_TOKEN_LIFETIME_SECONDS) then Inl BadTtl
      else rbind (coerce_key key) (\<lambda>key_bytes.
        let input = signing_input service_name (now + ttl) in Inr (input @ ''.'' @ hmac key_bytes input)))"

definition verify_service_token ::
  "(string \<Rightarrow> string \<Rightarrow> string) \<Rightarrow> (string \<Rightarrow> string option) \<Rightarrow> int \<Rightarrow> string \<Rightarrow> token_error + string" where
  "verify_service_token hmac keys current token =
     (let parts = py_split (CHR ''.'') token;
          service_name = parts ! 1; expires_raw = parts ! 2; presented_sig = parts ! 3 in
      if length parts \<noteq> 4 \<or> parts ! 0 \<noteq> TOKEN_VERSION then Inl InvalidServiceToken
      else if \<not> service_name_ok service_name then Inl InvalidServiceToken
      else case int_base10 expires_raw of
        None \<Rightarrow> Inl InvalidServiceToken
      | Some expires \<Rightarrow>
          (case keys service_name of
             None \<Rightarrow> Inl InvalidServiceToken
           | Some key_raw \<Rightarrow>
               rbind (coerce_key key_raw) (\<lambda>key_bytes.
               if presented_sig \<noteq> hmac key_bytes (signing_input service_name expires) then Inl InvalidServiceToken
               else if current > expires + CLOCK_SKEW_SECONDS then Inl ExpiredServiceToken
               else if expires > current + MAX_TOKEN_LIFETIME_SECONDS + CLOCK_SKEW_SECONDS then Inl InvalidServiceToken
               else Inr service_name)))"

subsection \<open>Round trip of credentials\<close>

lemma of_b64_char: "n < 64 \<Longrightarrow> (of_char (b64_char n) :: nat) = (if n < 26 then 65 + n else if n < 52 then 71 + n
    else if n < 62 then n - 4 else if n = 62 then 45 else 95)"
  by (simp add: b64_char_def)

lemma b64_val_char [simp]: "n < 64 \<Longrightarrow> b64_val (b64_char n) = Some n"
  by (auto simp: b64_val_def of_b64_char Let_def)

lemma b64_char_range: "n < 64 \<Longrightarrow> (of_char (b64_char n) :: nat) < 128 \<and> b64_char n \<noteq> CHR ''='' \<and> b64_char n \<noteq> CHR ''.''"
proof -
  assume n: "n < 64"
  have pad: "b64_char n = c \<Longrightarrow> (of_char (b64_char n) :: nat) = of_char c" for c by simp
  show ?thesis using of_b64_char [OF n] pad [of "CHR ''=''"] pad [of "CHR ''.''"] n by (auto split: if_splits)
qed

lemma Suc3_mod3 [simp]: "Suc (Suc (Suc n)) mod 3 = n mod 3"
  by presburger

lemma b64_encode_set:
  assumes "length bs mod 3 = 0" and "\<forall>b \<in> set bs. b < 256"
  shows "\<forall>c \<in> set (b64_encode bs). (of_char c :: nat) < 128 \<and> c \<noteq> CHR ''='' \<and> c \<noteq> CHR ''.''"
  using assms
proof (induction bs rule: b64_encode.induct)
  case (4 a b c rest)
  have "a mod 4 * 16 + b div 16 < 64" "b mod 16 * 4 + c div 64 < 64" "a div 4 < 64" "c mod 64 < 64" using "4.prems" by auto
  then show ?case using "4.IH" "4.prems" b64_char_range by simp
qed simp_all

lemma a2b_encode:
  assumes "length bs mod 3 = 0" and "\<forall>b \<in> set bs. b < 256"
  shows "a2b_base64 0 0 p (b64_encode bs) = Some bs"
  using assms
proof (induction bs arbitrary: p rule: b64_encode.induct)
  case (4 a b c rest)
  have lt: "a mod 4 * 16 + b div 16 < 64" "b mod 16 * 4 + c div 64 < 64" "a div 4 < 64" "c mod 64 < 64" using "4.prems" by auto
  have lt2: "b div 16 < 16" "c div 64 < 4" using "4.prems" by auto
  have "a div 4 * 4 + (a mod 4 * 16 + b div 16) div 16 = a" "(a mod 4 * 16 + b div 16) mod 16 * 16 + (b mod 16 * 4 + c div 64) div 4 = b"
    "(b mod 16 * 4 + c div 64) mod 4 * 64 + c mod 64 = c"
    using lt2 by simp_all
  then show ?case using "4.IH" "4.prems" lt b64_char_range by simp
qed simp_all

lemma length_b64_encode: "length bs mod 3 = 0 \<Longrightarrow> length (b64_encode bs) = length bs div 3 * 4"
  by (induction bs rule: b64_encode.induct) auto

lemma rstrip_pad_id: "CHR ''='' \<notin> set s \<Longrightarrow> rstrip_pad s = s"
  by (cases s rule: rev_cases) (auto simp: rstrip_pad_def)

lemma length_nat_to_bytes [simp]: "length (nat_to_bytes k n) = k"
  by (induction k arbitrary: n) simp_all

lemma nat_to_bytes_lt: "b \<in> set (nat_to_bytes k n) \<Longrightarrow> b < 256"
  by (induction k arbitrary: n) auto

lemma bytes_to_nat_to_bytes: "n < 256 ^ k \<Longrightarrow> bytes_to_nat (nat_to_bytes k n) = n"
proof (induction k arbitrary: n)
  case (Suc k)
  then have "n div 256 < 256 ^ k" by (simp add: less_mult_imp_div_less mult.commute)
  then show ?case using Suc.IH [of "n div 256"] by (simp add: bytes_to_nat_def)
qed (simp add: bytes_to_nat_def)

lemma mint_parse:
  assumes "tenant < 2 ^ 128" and "length urandom = SECRET_RANDOM_BYTES" and "\<forall>b \<in> set urandom. b < 256"
    and "CHR ''.'' \<notin> set cred_id" and "length cred_id \<le> 447"
  shows "\<exists>secret. wire_token (mint_secret sha256 urandom cred_id tenant) = cred_id @ ''.'' @ secret
    \<and> secret_matches sha256 secret (secret_hash (mint_secret sha256 urandom cred_id tenant))
    \<and> parse_credential pref (wire_token (mint_secret sha256 urandom cred_id tenant))
        = (if starts_with cred_id pref
           then Some \<lparr>credential_id = cred_id, cred_tenant = tenant, cred_secret = secret\<rparr> else None)"
proof -
  define raw where "raw = nat_to_bytes 16 tenant @ urandom"
  define secret where "secret = b64_encode raw"
  have raw: "length raw = 48" "\<forall>b \<in> set raw. b < 256"
    using assms nat_to_bytes_lt by (auto simp: raw_def SECRET_RANDOM_BYTES_def)
  have sset: "\<forall>c \<in> set secret. (of_char c :: nat) < 128 \<and> c \<noteq> CHR ''='' \<and> c \<noteq> CHR ''.''"
    unfolding secret_def using raw by (intro b64_encode_set) simp_all
  have len: "length secret = 64" using length_b64_encode [of raw] raw by (simp add: secret_def)
  have strip: "rstrip_pad secret = secret" using sset by (intro rstrip_pad_id) auto
  have mint: "mint_secret sha256 urandom cred_id tenant = \<lparr>wire_token = cred_id @ ''.'' @ secret, secret_hash = sha256 secret\<rparr>"
    using strip by (simp add: mint_secret_def secret_def raw_def Let_def)
  have dec: "urlsafe_b64decode secret = Some raw"
    using sset a2b_encode [of raw 0] raw by (simp add: urlsafe_b64decode_def list_all_iff secret_def)
  have tenant: "bytes_to_nat (take 16 raw) = tenant"
    using bytes_to_nat_to_bytes [of tenant 16] assms(1) by (simp add: raw_def)
  have tk: "takeWhile (\<lambda>c. c \<noteq> CHR ''.'') (cred_id @ ''.'' @ secret) = cred_id"
    "dropWhile (\<lambda>c. c \<noteq> CHR ''.'') (cred_id @ ''.'' @ secret) = ''.'' @ secret"
    using assms(4) by (induction cred_id) auto
  have "parse_credential pref (cred_id @ ''.'' @ secret)
      = (if starts_with cred_id pref then Some \<lparr>credential_id = cred_id, cred_tenant = tenant, cred_secret = secret\<rparr> else None)"
    unfolding parse_credential_def tk using len assms(5) dec tenant raw(1) by (auto simp: SECRET_RANDOM_BYTES_def)
  then show ?thesis by (intro exI [of _ secret]) (simp add: mint secret_matches_def)
qed

text \<open>C31: A minted enrollment token or ingest key parses back, under its own prefix, to the id, the tenant and the secret it was
  minted from, and the secret matches the stored hash; under a prefix its id does not have it is refused.\<close>

theorem credential_roundtrip:
  assumes "tenant < 2 ^ 128" and "length urandom = SECRET_RANDOM_BYTES" and "\<forall>b \<in> set urandom. b < 256"
    and "CHR ''.'' \<notin> set cred_id" and "length cred_id \<le> 447"
  shows "\<exists>secret. wire_token (mint_secret sha256 urandom cred_id tenant) = cred_id @ ''.'' @ secret
    \<and> secret_matches sha256 secret (secret_hash (mint_secret sha256 urandom cred_id tenant))
    \<and> parse_credential pref (wire_token (mint_secret sha256 urandom cred_id tenant))
        = (if starts_with cred_id pref
           then Some \<lparr>credential_id = cred_id, cred_tenant = tenant, cred_secret = secret\<rparr> else None)"
  using assms by (rule mint_parse)

theorem credential_roundtrip_witness:
  "\<exists>secret. parse_credential ''ik_'' (wire_token (mint_secret (\<lambda>s. s) (replicate 32 7) ''ik_01'' 5))
     = Some \<lparr>credential_id = ''ik_01'', cred_tenant = 5, cred_secret = secret\<rparr>"
  using credential_roundtrip [of 5 "replicate 32 7" "''ik_01''" "\<lambda>s. s" "''ik_''"]
  by (auto simp: SECRET_RANDOM_BYTES_def starts_with_def)

subsection \<open>Round trip of service tokens\<close>

lemma length_nat_to_dec: "0 < k \<Longrightarrow> n < 10 ^ k \<Longrightarrow> length (nat_to_dec n) \<le> k"
proof (induction k arbitrary: n)
  case (Suc k)
  show ?case
  proof (cases "n < 10")
    case True
    then show ?thesis by (simp add: nat_to_dec.simps [of n])
  next
    case False
    then have "0 < k" using Suc.prems by (cases k) auto
    moreover have "n div 10 < 10 ^ k" using Suc.prems by (simp add: less_mult_imp_div_less mult.commute)
    ultimately show ?thesis using Suc.IH False by (simp add: nat_to_dec.simps [of n])
  qed
qed simp

lemma dec_digits_all:
  assumes "\<forall>c \<in> set s. is_digit c"
  shows "dec_digits acc b s = (if s = [] then if b then Some acc else None else Some (digits_to_nat acc s))"
  using assms
proof (induction s arbitrary: acc b)
  case (Cons c s)
  have "c \<noteq> CHR ''_''" using Cons.prems by (auto simp: is_digit_def)
  then show ?case using Cons by simp
qed simp

lemma is_digit_iff: "is_digit c \<longleftrightarrow> 48 \<le> (of_char c :: nat) \<and> (of_char c :: nat) \<le> 57"
  by (simp add: is_digit_def less_eq_char_def)

lemma digits_not_space: "is_digit c \<Longrightarrow> \<not> is_space c"
  by (auto simp: is_digit_iff is_space_def Let_def)

lemma dropWhile_none: "\<forall>c \<in> set s. \<not> P c \<Longrightarrow> dropWhile P s = s"
  by (cases s) auto

lemma py_strip_digits: "\<forall>c \<in> set s. is_digit c \<Longrightarrow> py_strip s = s"
  by (simp add: py_strip_def dropWhile_none digits_not_space)

lemma int_base10_dec:
  assumes "0 \<le> e" and "e < 10 ^ MAX_INT_DIGITS"
  shows "int_base10 (int_to_dec e) = Some e"
proof -
  let ?s = "nat_to_dec (nat e)"
  have d: "\<forall>c \<in> set ?s. is_digit c" by (rule nat_to_dec_digits)
  have sign: "\<not> starts_with ?s ''+''" "\<not> starts_with ?s ''-''"
    using d by (cases ?s; auto simp: starts_with_def is_digit_def)+
  have "nat e < 10 ^ MAX_INT_DIGITS" using assms by (simp add: nat_less_iff)
  moreover have "0 < MAX_INT_DIGITS" by (simp add: MAX_INT_DIGITS_def)
  ultimately have "length ?s \<le> MAX_INT_DIGITS" by (intro length_nat_to_dec)
  then have "length (filter is_digit ?s) \<le> MAX_INT_DIGITS" using d by (simp add: filter_True)
  then show ?thesis using assms(1) sign d
    by (simp add: int_base10_def int_to_dec_def py_strip_digits dec_digits_all digits_to_nat_to_dec Let_def)
qed

text \<open>A token is accepted exactly when it carries the signature of its own fields under the service's key and the time
  lies in the window of its expiry.\<close>

lemma verify_service_token_parts:
  assumes "py_split (CHR ''.'') token = [version, service, raw, sig]"
  shows "verify_service_token hmac keys current token = Inr name \<longleftrightarrow>
    name = service \<and> version = TOKEN_VERSION \<and> service_name_ok service
    \<and> (\<exists>expires key. int_base10 raw = Some expires \<and> keys service = Some key \<and> MIN_KEY_BYTES \<le> length key
        \<and> sig = hmac key (signing_input service expires)
        \<and> current \<le> expires + CLOCK_SKEW_SECONDS \<and> expires \<le> current + MAX_TOKEN_LIFETIME_SECONDS + CLOCK_SKEW_SECONDS)"
  unfolding verify_service_token_def assms Let_def
  by (cases "int_base10 raw"; cases "keys service") (auto simp: coerce_key_def)

lemma verify_service_token_four:
  assumes "verify_service_token hmac keys current token = Inr name"
  obtains version service raw sig where "py_split (CHR ''.'') token = [version, service, raw, sig]"
proof -
  have "length (py_split (CHR ''.'') token) = 4"
    using assms unfolding verify_service_token_def Let_def by (auto split: if_splits)
  then show thesis using that by (auto simp: numeral_eq_Suc length_Suc_conv)
qed

lemma service_name_no_dot: "service_name_ok s \<Longrightarrow> CHR ''.'' \<notin> set s"
proof -
  assume "service_name_ok s"
  then have "CHR ''.'' \<notin> set (drop_final_newline s)"
    by (auto simp: service_name_ok_def Let_def list_all_iff is_lower_def is_digit_def)
  then show ?thesis by (cases s rule: rev_cases) (auto simp: drop_final_newline_def newline_def split: if_splits)
qed

lemma split_service_token:
  assumes "service_name_ok name" and "CHR ''.'' \<notin> set sig"
  shows "py_split (CHR ''.'') (signing_input name e @ ''.'' @ sig) = [TOKEN_VERSION, name, int_to_dec e, sig]"
proof -
  have v: "CHR ''.'' \<notin> set TOKEN_VERSION" by (simp add: TOKEN_VERSION_def)
  have d: "CHR ''.'' \<notin> set (int_to_dec e)"
    using nat_to_dec_digits [of "nat e"] nat_to_dec_digits [of "nat (- e)"] by (auto simp: int_to_dec_def is_digit_iff)
  show ?thesis using v d service_name_no_dot [OF assms(1)] assms(2)
    by (simp add: signing_input_def py_split_append_sep py_split_no_sep)
qed

text \<open>A generated service token is accepted by the verifier that has the same key, from thirty seconds before a lifetime of
  300 seconds could have begun until thirty seconds after its expiry, as the service it was made for; later it is
  expired. No token is accepted for a service without the HMAC of its name and expiry under that service's key.\<close>

theorem service_token_roundtrip:
  assumes "service_name_ok name" and "0 < ttl" and "ttl \<le> MAX_TOKEN_LIFETIME_SECONDS" and "MIN_KEY_BYTES \<le> length key"
    and "0 \<le> now" and "now + ttl < 10 ^ MAX_INT_DIGITS" and "keys name = Some key" and "\<forall>k m. CHR ''.'' \<notin> set (hmac k m)"
  shows "(\<exists>token. generate_service_token hmac name key ttl now = Inr token
      \<and> verify_service_token hmac keys current token =
          (if current > now + ttl + 30 then Inl ExpiredServiceToken
           else if now + ttl > current + 330 then Inl InvalidServiceToken else Inr name))
    \<and> (verify_service_token hmac keys current forged = Inr service \<longrightarrow>
        (\<exists>raw expires k. keys service = Some k \<and> int_base10 raw = Some expires
           \<and> forged = join_with ''.'' [TOKEN_VERSION, service, raw, hmac k (signing_input service expires)]))"
proof (intro conjI impI)
  let ?sig = "hmac key (signing_input name (now + ttl))"
  have g: "generate_service_token hmac name key ttl now = Inr (signing_input name (now + ttl) @ ''.'' @ ?sig)"
    using assms by (simp add: generate_service_token_def coerce_key_def Let_def)
  have i: "int_base10 (int_to_dec (now + ttl)) = Some (now + ttl)" using assms by (intro int_base10_dec) simp_all
  have "verify_service_token hmac keys current (signing_input name (now + ttl) @ ''.'' @ ?sig) =
          (if current > now + ttl + 30 then Inl ExpiredServiceToken
           else if now + ttl > current + 330 then Inl InvalidServiceToken else Inr name)"
    unfolding verify_service_token_def using split_service_token [OF assms(1), of ?sig "now + ttl"] assms(1,4,7,8) i
    by (simp add: coerce_key_def CLOCK_SKEW_SECONDS_def MAX_TOKEN_LIFETIME_SECONDS_def)
  with g show "\<exists>token. generate_service_token hmac name key ttl now = Inr token
      \<and> verify_service_token hmac keys current token =
          (if current > now + ttl + 30 then Inl ExpiredServiceToken
           else if now + ttl > current + 330 then Inl InvalidServiceToken else Inr name)" by blast
next
  assume "verify_service_token hmac keys current forged = Inr service"
  note ok = this
  obtain v n raw sig where p: "py_split (CHR ''.'') forged = [v, n, raw, sig]" using verify_service_token_four [OF ok] .
  obtain expires k where k: "py_split (CHR ''.'') forged = [TOKEN_VERSION, service, raw, hmac k (signing_input service expires)]"
    "int_base10 raw = Some expires" "keys service = Some k"
    using ok p unfolding verify_service_token_parts [OF p] by auto
  have "forged = join_with ''.'' [TOKEN_VERSION, service, raw, hmac k (signing_input service expires)]"
    using join_py_split [of "CHR ''.''" forged] k(1) by simp
  with k show "\<exists>raw expires k. keys service = Some k \<and> int_base10 raw = Some expires
      \<and> forged = join_with ''.'' [TOKEN_VERSION, service, raw, hmac k (signing_input service expires)]" by blast
qed

theorem service_token_roundtrip_witness:
  "\<exists>token. generate_service_token (\<lambda>_ _. ''sig'') ''dataplane'' (replicate 32 (CHR ''k'')) 300 1000 = Inr token
     \<and> verify_service_token (\<lambda>_ _. ''sig'') (\<lambda>_. Some (replicate 32 (CHR ''k''))) 1330 token = Inr ''dataplane''"
proof -
  have "service_name_ok ''dataplane''" by code_simp
  moreover have "(1300 :: int) < 10 ^ MAX_INT_DIGITS" by (rule less_le_trans [of _ "10 ^ 4"]) (simp, rule power_increasing, simp_all add: MAX_INT_DIGITS_def)
  ultimately show ?thesis
    using service_token_roundtrip [of "''dataplane''" 300 "replicate 32 (CHR ''k'')" 1000 "\<lambda>_. Some (replicate 32 (CHR ''k''))" "\<lambda>_ _. ''sig''" 1330 "[]" "[]"]
    by (simp add: MAX_TOKEN_LIFETIME_SECONDS_def MIN_KEY_BYTES_def)
qed

end
