(* ===== verification/Access.thy ===== *)
theory Access
  imports Quotas Credentials
begin

section \<open>Who may call the data plane\<close>

text \<open>
  \<^item> The gateway middleware (\<^verbatim>\<open>soc_tenancy/gateway.py\<close>): identity headers survive only behind the authenticated gateway.
  \<^item> The allowlist stores (\<^verbatim>\<open>dataplane/core/status_stores.py\<close>) of devices, ingest keys and tenants: PostgreSQL
    is the source of truth and Redis hashes cache its rows for sixty seconds. The database is a value; the step relation
    below lets it change arbitrarily with time. A tenant is named by its canonical text.
  \<^item> Console sessions (\<^verbatim>\<open>dataplane/core/sessions.py\<close>) and the authentication dependencies (\<^verbatim>\<open>dataplane/api/deps.py\<close>).
  Times are whole seconds. Security log lines and the tenant context variable are not modelled.
\<close>

datatype access_error =
    AuthRequired | SessionExpired | IngestKeyInvalid | IngestKeyRevoked | DeviceIdentityInvalid | DeviceRevoked
  | TrialExpired | ForbiddenRole | TenantFrozen string | ServiceUnavailable

subsection \<open>The gateway\<close>

definition GATEWAY_AUTH_HEADER :: string where "GATEWAY_AUTH_HEADER = ''x-gateway-auth''"

definition IDENTITY_HEADERS :: "string list" where "IDENTITY_HEADERS = [''x-device-id'', ''x-device-tenant'']"

definition RESERVED_IDENTITY_HEADER_PREFIXES :: "string list" where
  "RESERVED_IDENTITY_HEADER_PREFIXES = [''x-client-cert-'']"

definition is_reserved_identity_header :: "string \<Rightarrow> bool" where
  "is_reserved_identity_header name =
     (name \<in> set IDENTITY_HEADERS \<or> list_ex (starts_with name) RESERVED_IDENTITY_HEADER_PREFIXES)"

record http_scope =
  hs_path :: string
  hs_headers :: "(string \<times> string) list"
  hs_gateway_authenticated :: bool

text \<open>The last gateway header counts; it is never forwarded. \<open>None\<close> is the 401 answer.\<close>

definition gateway_auth :: "string \<Rightarrow> string list \<Rightarrow> http_scope \<Rightarrow> http_scope option" where
  "gateway_auth secret agent_route_prefixes scope =
     (let is_auth = (\<lambda>(n, v). py_lower n = GATEWAY_AUTH_HEADER);
          presented = map snd (filter is_auth (hs_headers scope));
          forwarded = filter (\<lambda>h. \<not> is_auth h) (hs_headers scope);
          authenticated = (presented \<noteq> [] \<and> last presented = secret) in
      if authenticated then Some (scope\<lparr>hs_headers := forwarded, hs_gateway_authenticated := True\<rparr>)
      else if list_ex (starts_with (hs_path scope)) agent_route_prefixes then None
      else Some (scope\<lparr>hs_headers := filter (\<lambda>(n, v). \<not> is_reserved_identity_header (py_lower n)) forwarded,
                       hs_gateway_authenticated := False\<rparr>))"

text \<open>\<^verbatim>\<open>request.headers.get\<close>: the first header of that name, ignoring case.\<close>

definition header :: "http_scope \<Rightarrow> string \<Rightarrow> string option" where
  "header scope name =
     (case filter (\<lambda>(n, v). py_lower n = py_lower name) (hs_headers scope) of [] \<Rightarrow> None | (n, v) # _ \<Rightarrow> Some v)"

subsection \<open>Allowlist stores\<close>

type_synonym rhash = "string \<Rightarrow> string option"

record device_row =
  dr_status :: string
  dr_cert_serial :: string
  dr_prev_serial :: "string option"
  dr_rotated_at :: "nat option"

record key_row =
  kr_hash :: string
  kr_revoked_at :: "nat option"

record tenant_row =
  tr_status :: string
  tr_abuse_frozen :: bool

record status_db =
  sd_devices :: "string \<times> string \<Rightarrow> device_row option"
  sd_keys :: "string \<times> string \<Rightarrow> key_row option"
  sd_tenants :: "string \<Rightarrow> tenant_row option"

record clock_lib =
  cl_iso :: "nat \<Rightarrow> string"
  cl_from_iso :: "string \<Rightarrow> nat"

text \<open>The fate of the commands of one call: HGETALL, HSET, EXPIRE, DEL and the database transaction.\<close>

record fates =
  f_get :: reply
  f_hset :: reply
  f_expire :: reply
  f_del :: reply
  f_pg :: bool

record status_server =
  ss_now :: nat
  ss_cache :: "rhash redis"
  ss_touched :: "(string \<times> string) list"

definition STATUS_CACHE_TTL :: nat where "STATUS_CACHE_TTL = 60"

definition cache_get :: "fates \<Rightarrow> string \<Rightarrow> status_server \<Rightarrow> rhash option" where
  "cache_get f key s = (case f_get f of Replied \<Rightarrow> redis_get (ss_now s) key (ss_cache s) | _ \<Rightarrow> None)"

definition redis_hset :: "nat \<Rightarrow> string \<Rightarrow> rhash \<Rightarrow> rhash redis \<Rightarrow> rhash redis" where
  "redis_hset now key m r =
     (case redis_get now key r of
        None \<Rightarrow> r(key \<mapsto> (m, None))
      | Some h \<Rightarrow> r(key \<mapsto> (h ++ m, snd (the (r key)))))"

definition cache_set :: "fates \<Rightarrow> string \<Rightarrow> rhash \<Rightarrow> status_server \<Rightarrow> status_server" where
  "cache_set f key m s =
     (case redis_call (f_hset f) (\<lambda>r. ((), redis_hset (ss_now s) key m r)) (ss_cache s) of
        (None, r1) \<Rightarrow> s\<lparr>ss_cache := r1\<rparr>
      | (Some _, r1) \<Rightarrow>
          s\<lparr>ss_cache := snd (redis_call (f_expire f) (\<lambda>r. ((), redis_expire (ss_now s) key STATUS_CACHE_TTL r)) r1)\<rparr>)"

definition cache_delete :: "fates \<Rightarrow> string \<Rightarrow> status_server \<Rightarrow> status_server" where
  "cache_delete f key s = s\<lparr>ss_cache := snd (redis_call (f_del f) (\<lambda>r. ((), r(key := None))) (ss_cache s))\<rparr>"

definition hget :: "rhash \<Rightarrow> string \<Rightarrow> string" where
  "hget h k = (case h k of None \<Rightarrow> [] | Some v \<Rightarrow> v)"

definition nonempty :: "string \<Rightarrow> string option" where
  "nonempty s = (if s = [] then None else Some s)"

subsubsection \<open>Devices\<close>

record device_status =
  dv_status :: string
  dv_cert_serial :: string
  dv_prev_serial :: "string option"
  dv_prev_valid_until :: "nat option"

definition device_key :: "string \<times> string \<Rightarrow> string" where
  "device_key ti = ''device:'' @ fst ti @ CHR '':'' # snd ti"

definition device_of_row :: "device_row \<Rightarrow> device_status" where
  "device_of_row row =
     \<lparr>dv_status = dr_status row, dv_cert_serial = dr_cert_serial row, dv_prev_serial = dr_prev_serial row,
      dv_prev_valid_until =
        (case (dr_prev_serial row, dr_rotated_at row) of
           (Some p, Some t) \<Rightarrow> if p = [] then None else Some (t + 24 * 3600)
         | _ \<Rightarrow> None)\<rparr>"

definition device_hash :: "clock_lib \<Rightarrow> device_status \<Rightarrow> rhash" where
  "device_hash lib d =
     [''status'' \<mapsto> dv_status d, ''cert_serial'' \<mapsto> dv_cert_serial d,
      ''prev_cert_serial'' \<mapsto> (case dv_prev_serial d of None \<Rightarrow> [] | Some p \<Rightarrow> p),
      ''prev_valid_until'' \<mapsto> (case dv_prev_valid_until d of None \<Rightarrow> [] | Some t \<Rightarrow> cl_iso lib t)]"

definition device_of_hash :: "clock_lib \<Rightarrow> rhash \<Rightarrow> device_status" where
  "device_of_hash lib h =
     \<lparr>dv_status = hget h ''status'', dv_cert_serial = hget h ''cert_serial'', dv_prev_serial = nonempty (hget h ''prev_cert_serial''),
      dv_prev_valid_until = map_option (cl_from_iso lib) (nonempty (hget h ''prev_valid_until''))\<rparr>"

definition device_record ::
  "clock_lib \<Rightarrow> status_db \<Rightarrow> fates \<Rightarrow> string \<Rightarrow> string \<Rightarrow> status_server \<Rightarrow> (access_error + device_status option) \<times> status_server" where
  "device_record lib db f tenant device_id s =
     (case cache_get f (device_key (tenant, device_id)) s of
        Some h \<Rightarrow> (Inr (Some (device_of_hash lib h)), s)
      | None \<Rightarrow>
          if \<not> f_pg f then (Inl ServiceUnavailable, s)
          else case sd_devices db (tenant, device_id) of
            None \<Rightarrow> (Inr None, s)
          | Some row \<Rightarrow>
              let record = device_of_row row in
              (Inr (Some record), cache_set f (device_key (tenant, device_id)) (device_hash lib record) s))"

definition serial_ok :: "nat \<Rightarrow> device_status \<Rightarrow> string \<Rightarrow> bool" where
  "serial_ok now d presented =
     (presented = dv_cert_serial d
      \<or> (case (dv_prev_serial d, dv_prev_valid_until d) of
           (Some p, Some u) \<Rightarrow> p \<noteq> [] \<and> presented = p \<and> now \<le> u
         | _ \<Rightarrow> False))"

definition verify_device ::
  "clock_lib \<Rightarrow> status_db \<Rightarrow> fates \<Rightarrow> string \<Rightarrow> string \<Rightarrow> string option \<Rightarrow> status_server \<Rightarrow> (access_error + unit) \<times> status_server" where
  "verify_device lib db f tenant device_id presented_serial s =
     (case device_record lib db f tenant device_id s of
        (Inl e, s') \<Rightarrow> (Inl e, s')
      | (Inr None, s') \<Rightarrow> (Inl DeviceIdentityInvalid, s')
      | (Inr (Some d), s') \<Rightarrow>
          (if dv_status d \<noteq> ''active'' then Inl DeviceRevoked
           else case presented_serial of
             None \<Rightarrow> Inl DeviceIdentityInvalid
           | Some p \<Rightarrow> if p = [] \<or> \<not> serial_ok (ss_now s) d (py_lower p) then Inl DeviceIdentityInvalid else Inr (), s'))"

definition invalidate_device :: "fates \<Rightarrow> string \<Rightarrow> string \<Rightarrow> status_server \<Rightarrow> status_server" where
  "invalidate_device f tenant device_id s = cache_delete f (device_key (tenant, device_id)) s"

subsubsection \<open>Ingest keys\<close>

definition ingestkey_key :: "string \<times> string \<Rightarrow> string" where
  "ingestkey_key ti = ''ingestkey:'' @ fst ti @ CHR '':'' # snd ti"

definition key_status :: "key_row \<Rightarrow> string" where
  "key_status row = (if kr_revoked_at row \<noteq> None then ''revoked'' else ''active'')"

definition key_hash :: "key_row \<Rightarrow> rhash" where
  "key_hash row = [''status'' \<mapsto> key_status row, ''key_hash'' \<mapsto> kr_hash row]"

text \<open>The status and the stored hash of a key; a read of the row also stamps its last use.\<close>

definition ingest_key_record ::
  "status_db \<Rightarrow> fates \<Rightarrow> string \<Rightarrow> string \<Rightarrow> status_server \<Rightarrow> (access_error + (string option \<times> string option)) \<times> status_server" where
  "ingest_key_record db f tenant key_id s =
     (case cache_get f (ingestkey_key (tenant, key_id)) s of
        Some h \<Rightarrow> (Inr (h ''status'', h ''key_hash''), s)
      | None \<Rightarrow>
          if \<not> f_pg f then (Inl ServiceUnavailable, s)
          else case sd_keys db (tenant, key_id) of
            None \<Rightarrow> (Inr (None, None), s)
          | Some row \<Rightarrow>
              (Inr (Some (key_status row), Some (kr_hash row)),
               cache_set f (ingestkey_key (tenant, key_id)) (key_hash row) (s\<lparr>ss_touched := ss_touched s @ [(tenant, key_id)]\<rparr>)))"

definition verify_ingest_key ::
  "(string \<Rightarrow> string) \<Rightarrow> status_db \<Rightarrow> fates \<Rightarrow> string \<Rightarrow> status_server \<Rightarrow> (access_error + (string \<times> string)) \<times> status_server" where
  "verify_ingest_key sha256 db f presented s =
     (case parse_credential ''ik_'' presented of
        None \<Rightarrow> (Inl IngestKeyInvalid, s)
      | Some parsed \<Rightarrow>
          let tenant = uuid_str (cred_tenant parsed) in
          (case ingest_key_record db f tenant (credential_id parsed) s of
             (Inl e, s') \<Rightarrow> (Inl e, s')
           | (Inr (status, None), s') \<Rightarrow> (Inl IngestKeyInvalid, s')
           | (Inr (status, Some h), s') \<Rightarrow>
               (if \<not> secret_matches sha256 (cred_secret parsed) h then Inl IngestKeyInvalid
                else if status \<noteq> Some ''active'' then Inl IngestKeyRevoked
                else Inr (tenant, credential_id parsed), s')))"

definition invalidate_ingest_key :: "fates \<Rightarrow> string \<Rightarrow> string \<Rightarrow> status_server \<Rightarrow> status_server" where
  "invalidate_ingest_key f tenant key_id s = cache_delete f (ingestkey_key (tenant, key_id)) s"

subsubsection \<open>Tenants\<close>

definition tenant_key :: "string \<Rightarrow> string" where
  "tenant_key tenant = ''tenantstatus:'' @ tenant"

definition tenant_hash :: "tenant_row \<Rightarrow> rhash" where
  "tenant_hash row = [''status'' \<mapsto> tr_status row, ''abuse_frozen'' \<mapsto> (if tr_abuse_frozen row then ''1'' else ''0'')]"

definition tenant_of_hash :: "rhash \<Rightarrow> tenant_row" where
  "tenant_of_hash h = \<lparr>tr_status = hget h ''status'', tr_abuse_frozen = (h ''abuse_frozen'' = Some ''1'')\<rparr>"

definition tenant_status :: "status_db \<Rightarrow> fates \<Rightarrow> string \<Rightarrow> status_server \<Rightarrow> (access_error + tenant_row) \<times> status_server" where
  "tenant_status db f tenant s =
     (case cache_get f (tenant_key tenant) s of
        Some h \<Rightarrow> (Inr (tenant_of_hash h), s)
      | None \<Rightarrow>
          if \<not> f_pg f then (Inl ServiceUnavailable, s)
          else case sd_tenants db tenant of
            None \<Rightarrow> (Inl AuthRequired, s)
          | Some row \<Rightarrow> (Inr row, cache_set f (tenant_key tenant) (tenant_hash row) s))"

definition ingest_allowed :: "tenant_row \<Rightarrow> access_error + unit" where
  "ingest_allowed row =
     (if tr_abuse_frozen row then Inl (TenantFrozen ''abuse'')
      else if tr_status row \<in> {''frozen'', ''purged''} then Inl TrialExpired
      else if tr_status row \<noteq> ''active'' then Inl ServiceUnavailable else Inr ())"

definition writes_allowed :: "tenant_row \<Rightarrow> access_error + unit" where
  "writes_allowed row =
     (if tr_abuse_frozen row then Inl (TenantFrozen ''abuse'')
      else if tr_status row = ''frozen'' then Inl (TenantFrozen ''trial'') else Inr ())"

definition require_ingest_allowed :: "status_db \<Rightarrow> fates \<Rightarrow> string \<Rightarrow> status_server \<Rightarrow> (access_error + unit) \<times> status_server" where
  "require_ingest_allowed db f tenant s = (case tenant_status db f tenant s of (res, s') \<Rightarrow> (rbind res ingest_allowed, s'))"

definition require_writes_allowed :: "status_db \<Rightarrow> fates \<Rightarrow> string \<Rightarrow> status_server \<Rightarrow> (access_error + unit) \<times> status_server" where
  "require_writes_allowed db f tenant s = (case tenant_status db f tenant s of (res, s') \<Rightarrow> (rbind res writes_allowed, s'))"

subsection \<open>Sessions and dependencies\<close>

record session_principal =
  sp_user :: nat
  sp_tenant :: nat
  sp_role :: string
  sp_session :: string
  sp_csrf :: string

text \<open>\<open>expiry_of\<close> reads the stored expiry; the store has been asked and \<open>raw\<close> is its answer.\<close>

definition validate_session ::
  "(string \<Rightarrow> nat option) \<Rightarrow> nat \<Rightarrow> string \<Rightarrow> reply \<Rightarrow> rhash option \<Rightarrow> access_error + session_principal" where
  "validate_session expiry_of now session_id f raw =
     (if f \<noteq> Replied then Inl ServiceUnavailable
      else case raw of
        None \<Rightarrow> Inl AuthRequired
      | Some data \<Rightarrow>
          (case Option.bind (nonempty (hget data ''absolute_expires_at'')) expiry_of of
             None \<Rightarrow> Inl SessionExpired
           | Some expires_at \<Rightarrow>
               if now \<ge> expires_at then Inl SessionExpired
               else (case (Option.bind (data ''user_id'') uuid_of, Option.bind (data ''tenant_id'') uuid_of, data ''role'') of
                  (Some u, Some t, Some r) \<Rightarrow>
                    Inr \<lparr>sp_user = u, sp_tenant = t, sp_role = r, sp_session = session_id, sp_csrf = hget data ''csrf_token''\<rparr>
                | _ \<Rightarrow> Inl AuthRequired)))"

definition check_csrf :: "session_principal \<Rightarrow> string option \<Rightarrow> access_error + unit" where
  "check_csrf who presented =
     (case presented of
        None \<Rightarrow> Inl AuthRequired
      | Some p \<Rightarrow> guard (p \<noteq> [] \<and> sp_csrf who \<noteq> [] \<and> p = sp_csrf who) AuthRequired)"

definition MUTATING_METHODS :: "string list" where
  "MUTATING_METHODS = [''POST'', ''PUT'', ''PATCH'', ''DELETE'']"

definition ROLES_ANY :: "string list" where "ROLES_ANY = [''admin'', ''analyst'']"

record console_request =
  cr_sid :: "string option"
  cr_method :: string
  cr_csrf :: "string option"

text \<open>\<open>lookup\<close> is the session store's answer for a session id; the frozen-tenant guard runs on writes only.\<close>

definition session_auth ::
  "(string \<Rightarrow> access_error + session_principal) \<Rightarrow> status_db \<Rightarrow> fates \<Rightarrow> string list \<Rightarrow> console_request \<Rightarrow> status_server
     \<Rightarrow> (access_error + session_principal) \<times> status_server" where
  "session_auth lookup db f roles req s =
     (let allowed = (if roles = [] then ROLES_ANY else roles) in
      case Option.bind (cr_sid req) nonempty of
        None \<Rightarrow> (Inl AuthRequired, s)
      | Some sid \<Rightarrow>
          (case lookup sid of
             Inl e \<Rightarrow> (Inl e, s)
           | Inr who \<Rightarrow>
               if sp_role who \<notin> set allowed then (Inl ForbiddenRole, s)
               else if cr_method req \<in> set MUTATING_METHODS
               then (case check_csrf who (cr_csrf req) of
                       Inl e \<Rightarrow> (Inl e, s)
                     | Inr _ \<Rightarrow>
                         (case require_writes_allowed db f (uuid_str (sp_tenant who)) s of
                            (res, s') \<Rightarrow> (rbind res (\<lambda>_. Inr who), s')))
               else (Inr who, s)))"

definition agent_auth ::
  "clock_lib \<Rightarrow> status_db \<Rightarrow> fates \<Rightarrow> http_scope \<Rightarrow> status_server \<Rightarrow> (access_error + (string \<times> string)) \<times> status_server" where
  "agent_auth lib db f scope s =
     (if \<not> hs_gateway_authenticated scope then (Inl AuthRequired, s)
      else case (Option.bind (header scope (IDENTITY_HEADERS ! 0)) nonempty, Option.bind (header scope (IDENTITY_HEADERS ! 1)) nonempty) of
        (Some device_id, Some device_tenant) \<Rightarrow>
          (case uuid_of device_tenant of
             None \<Rightarrow> (Inl DeviceIdentityInvalid, s)
           | Some n \<Rightarrow>
               (case verify_device lib db f (uuid_str n) device_id (header scope ''X-Client-Cert-Serial'') s of
                  (res, s') \<Rightarrow> (rbind res (\<lambda>_. Inr (uuid_str n, device_id)), s')))
      | _ \<Rightarrow> (Inl DeviceIdentityInvalid, s))"

definition ingest_key_auth ::
  "(string \<Rightarrow> string) \<Rightarrow> status_db \<Rightarrow> fates \<Rightarrow> http_scope \<Rightarrow> status_server \<Rightarrow> (access_error + (string \<times> string)) \<times> status_server" where
  "ingest_key_auth sha256 db f scope s =
     (case Option.bind (header scope ''X-Ingest-Key'') nonempty of
        None \<Rightarrow> (Inl AuthRequired, s)
      | Some presented \<Rightarrow> verify_ingest_key sha256 db f presented s)"

subsection \<open>The cache is at most sixty seconds behind\<close>

text \<open>What an entry of a cache says: it was written from the row the database held then, and it expires sixty seconds later.\<close>

definition entries_fresh ::
  "('id \<Rightarrow> string) \<Rightarrow> ('row \<Rightarrow> rhash) \<Rightarrow> (nat \<Rightarrow> 'id \<Rightarrow> 'row option) \<Rightarrow> 'id set \<Rightarrow> nat \<Rightarrow> rhash redis \<Rightarrow> bool" where
  "entries_fresh key enc row_at ids now r \<longleftrightarrow>
     (\<forall>i \<in> ids. \<forall>h e. r (key i) = Some (h, e) \<longrightarrow>
        (\<exists>t row. e = Some (t + STATUS_CACHE_TTL) \<and> t \<le> now \<and> row_at t i = Some row \<and> h = enc row))"

text \<open>The backfill of a row is complete: HSET is refused, or it is answered and EXPIRE runs.\<close>

definition fates_ok :: "fates \<Rightarrow> bool" where
  "fates_ok f \<longleftrightarrow> f_hset f = Refused \<or> (f_hset f = Replied \<and> f_expire f \<noteq> Refused)"

lemma redis_hset_cases:
  assumes "\<And>h e. r k = Some (h, e) \<Longrightarrow> h ++ m = m"
  obtains e where "redis_hset now k m r = r(k \<mapsto> (m, e))" "\<forall>x. e = Some x \<longrightarrow> now < x"
proof (cases "redis_get now k r")
  case None
  then show thesis by (intro that [of None]) (simp_all add: redis_hset_def)
next
  case (Some h)
  obtain e where e: "r k = Some (h, e)" "\<forall>x. e = Some x \<longrightarrow> now < x" using redis_get_SomeE [of now k r h] Some by blast
  show thesis using Some e assms by (intro that [of e]) (simp_all add: redis_hset_def)
qed

lemma cache_set_cases:
  assumes "fates_ok f" and m: "\<And>h e. ss_cache s k = Some (h, e) \<Longrightarrow> h ++ m = m"
  shows "cache_set f k m s = s \<or> cache_set f k m s = s\<lparr>ss_cache := (ss_cache s)(k \<mapsto> (m, Some (ss_now s + STATUS_CACHE_TTL)))\<rparr>"
proof (cases "f_hset f")
  case Replied
  obtain e where e: "redis_hset (ss_now s) k m (ss_cache s) = (ss_cache s)(k \<mapsto> (m, e))" "\<forall>x. e = Some x \<longrightarrow> ss_now s < x"
    using redis_hset_cases [of "ss_cache s" k m "ss_now s"] m by blast
  have "redis_expire (ss_now s) k STATUS_CACHE_TTL ((ss_cache s)(k \<mapsto> (m, e))) = (ss_cache s)(k \<mapsto> (m, Some (ss_now s + STATUS_CACHE_TTL)))"
    using redis_expire_live [of "(ss_cache s)(k \<mapsto> (m, e))" k m e "ss_now s"] e(2) by simp
  then show ?thesis using assms(1) Replied e(1) by (cases "f_expire f") (auto simp: cache_set_def fates_ok_def)
qed (use assms in \<open>auto simp: cache_set_def fates_ok_def\<close>)

lemma redis_expire_other: "k' \<noteq> k \<Longrightarrow> redis_expire now k ttl r k' = r k'"
  by (simp add: redis_expire_def split: option.split)

lemma cache_set_other: "k' \<noteq> k \<Longrightarrow> ss_cache (cache_set f k m s) k' = ss_cache s k'"
  by (cases "f_hset f"; cases "f_expire f") (auto simp: cache_set_def redis_expire_other redis_hset_def split: option.split)

lemma cache_set_now [simp]: "ss_now (cache_set f k m s) = ss_now s"
  by (simp add: cache_set_def split: prod.split option.split)

locale ttl_cache =
  fixes key :: "'id \<Rightarrow> string" and enc :: "'row \<Rightarrow> rhash" and row_at :: "nat \<Rightarrow> 'id \<Rightarrow> 'row option" and ids :: "'id set"
  assumes key_inject: "i \<in> ids \<Longrightarrow> j \<in> ids \<Longrightarrow> key i = key j \<Longrightarrow> i = j"
    and enc_overwrites: "enc row ++ enc row' = enc row'"
begin

lemma fresh_tick: "entries_fresh key enc row_at ids now r \<Longrightarrow> now \<le> now' \<Longrightarrow> entries_fresh key enc row_at ids now' r"
  unfolding entries_fresh_def by (meson order_trans)

lemma fresh_delete: "entries_fresh key enc row_at ids now r \<Longrightarrow> entries_fresh key enc row_at ids now (r(k := None))"
  by (simp add: entries_fresh_def)

lemma fresh_other:
  assumes "entries_fresh key enc row_at ids (ss_now s) (ss_cache s)" and "\<And>i. i \<in> ids \<Longrightarrow> key i \<noteq> k"
  shows "entries_fresh key enc row_at ids (ss_now s) (ss_cache (cache_set f k m s))"
  using assms by (simp add: entries_fresh_def cache_set_other)

lemma fresh_fill:
  assumes "entries_fresh key enc row_at ids now r" and "i \<in> ids" and "row_at now i = Some row"
  shows "entries_fresh key enc row_at ids now (r(key i \<mapsto> (enc row, Some (now + STATUS_CACHE_TTL))))"
  unfolding entries_fresh_def
proof (intro ballI allI impI)
  fix j h e
  assume j: "j \<in> ids" "(r(key i \<mapsto> (enc row, Some (now + STATUS_CACHE_TTL)))) (key j) = Some (h, e)"
  show "\<exists>t row. e = Some (t + STATUS_CACHE_TTL) \<and> t \<le> now \<and> row_at t j = Some row \<and> h = enc row"
  proof (cases "key j = key i")
    case True
    then have "j = i" using key_inject j(1) assms(2) by blast
    then show ?thesis using j assms(3) by auto
  next
    case False
    then show ?thesis using assms(1) j by (simp add: entries_fresh_def)
  qed
qed

lemma fresh_cache_set:
  assumes "entries_fresh key enc row_at ids (ss_now s) (ss_cache s)" and "i \<in> ids" and "row_at (ss_now s) i = Some row" and "fates_ok f"
  shows "entries_fresh key enc row_at ids (ss_now s) (ss_cache (cache_set f (key i) (enc row) s))"
proof -
  have "h ++ enc row = enc row" if "ss_cache s (key i) = Some (h, e)" for h e
    using assms(1,2) that enc_overwrites unfolding entries_fresh_def by blast
  then show ?thesis using cache_set_cases [OF assms(4), of s "key i" "enc row"] fresh_fill [OF assms(1-3)] assms(1) by auto
qed

text \<open>A cached answer is at most sixty seconds old.\<close>

lemma fresh_hit:
  assumes "entries_fresh key enc row_at ids (ss_now s) (ss_cache s)" and "i \<in> ids" and "cache_get f (key i) s = Some h"
  obtains t row where "t \<le> ss_now s" "ss_now s < t + STATUS_CACHE_TTL" "row_at t i = Some row" "h = enc row"
proof -
  have "redis_get (ss_now s) (key i) (ss_cache s) = Some h" using assms(3) by (simp add: cache_get_def split: reply.splits)
  then obtain e where e: "ss_cache s (key i) = Some (h, e)" "\<forall>x. e = Some x \<longrightarrow> ss_now s < x" by (rule redis_get_SomeE)
  then have "\<exists>t row. e = Some (t + STATUS_CACHE_TTL) \<and> t \<le> ss_now s \<and> row_at t i = Some row \<and> h = enc row"
    using assms(1,2) by (simp add: entries_fresh_def)
  then obtain t row where "e = Some (t + STATUS_CACHE_TTL)" "t \<le> ss_now s" "row_at t i = Some row" "h = enc row" by blast
  then show thesis using that e(2) by simp
qed

end

subsection \<open>Interpretations for the three stores\<close>

definition colon_free :: "(string \<times> string) set" where
  "colon_free = {ti. CHR '':'' \<notin> set (fst ti)}"

lemma sep_inject:
  assumes "(c :: char) \<notin> set a" and "c \<notin> set a'"
  shows "a @ c # b = a' @ c # b' \<longleftrightarrow> a = a' \<and> b = b'"
proof
  assume eq: "a @ c # b = a' @ c # b'"
  have tw: "c \<notin> set x \<Longrightarrow> takeWhile (\<lambda>z. z \<noteq> c) (x @ c # y) = x" for x y by (induction x) auto
  have "a = a'" using arg_cong [OF eq, of "takeWhile (\<lambda>z. z \<noteq> c)"] tw assms by simp
  then show "a = a' \<and> b = b'" using eq by simp
qed simp

interpretation dev: ttl_cache device_key "\<lambda>row. device_hash lib (device_of_row row)" "\<lambda>t. sd_devices (db_at t)" colon_free
  for lib db_at
proof
  fix i j
  assume "i \<in> colon_free" "j \<in> colon_free" "device_key i = device_key j"
  then show "i = j" by (cases i; cases j) (simp add: colon_free_def device_key_def sep_inject)
qed (rule ext, simp add: device_hash_def map_add_def)

interpretation keys: ttl_cache ingestkey_key key_hash "\<lambda>t. sd_keys (db_at t)" colon_free for db_at
proof
  fix i j
  assume "i \<in> colon_free" "j \<in> colon_free" "ingestkey_key i = ingestkey_key j"
  then show "i = j" by (cases i; cases j) (simp add: colon_free_def ingestkey_key_def sep_inject)
qed (rule ext, simp add: key_hash_def map_add_def)

interpretation tenants: ttl_cache tenant_key tenant_hash "\<lambda>t. sd_tenants (db_at t)" UNIV for db_at
  by unfold_locales (simp add: tenant_key_def, rule ext, simp add: tenant_hash_def map_add_def)

lemma cache_keys_differ [simp]:
  "device_key i \<noteq> ingestkey_key j" "ingestkey_key j \<noteq> device_key i" "device_key i \<noteq> tenant_key t" "tenant_key t \<noteq> device_key i"
  "ingestkey_key j \<noteq> tenant_key t" "tenant_key t \<noteq> ingestkey_key j"
  by (simp_all add: device_key_def ingestkey_key_def tenant_key_def)

text \<open>Time passes, the database changes with it, and any number of lookups and invalidations run in between; every backfill is
  complete.\<close>

inductive status_step :: "clock_lib \<Rightarrow> (nat \<Rightarrow> status_db) \<Rightarrow> status_server \<Rightarrow> status_server \<Rightarrow> bool"
  for lib :: clock_lib and db_at :: "nat \<Rightarrow> status_db" where
  tick: "ss_now s \<le> t \<Longrightarrow> status_step lib db_at s (s\<lparr>ss_now := t\<rparr>)"
| device: "fates_ok f \<Longrightarrow> CHR '':'' \<notin> set tenant \<Longrightarrow>
    status_step lib db_at s (snd (device_record lib (db_at (ss_now s)) f tenant d s))"
| key: "fates_ok f \<Longrightarrow> CHR '':'' \<notin> set tenant \<Longrightarrow>
    status_step lib db_at s (snd (ingest_key_record (db_at (ss_now s)) f tenant k s))"
| tenant: "fates_ok f \<Longrightarrow> status_step lib db_at s (snd (tenant_status (db_at (ss_now s)) f tenant s))"
| drop: "status_step lib db_at s (cache_delete f k s)"

definition status_fresh :: "clock_lib \<Rightarrow> (nat \<Rightarrow> status_db) \<Rightarrow> status_server \<Rightarrow> bool" where
  "status_fresh lib db_at s \<longleftrightarrow>
     entries_fresh device_key (\<lambda>row. device_hash lib (device_of_row row)) (\<lambda>t. sd_devices (db_at t)) colon_free (ss_now s) (ss_cache s)
     \<and> entries_fresh ingestkey_key key_hash (\<lambda>t. sd_keys (db_at t)) colon_free (ss_now s) (ss_cache s)
     \<and> entries_fresh tenant_key tenant_hash (\<lambda>t. sd_tenants (db_at t)) UNIV (ss_now s) (ss_cache s)"

lemma status_fresh_device:
  assumes "status_fresh lib db_at s" and "fates_ok f" and "CHR '':'' \<notin> set tenant" and "sd_devices (db_at (ss_now s)) (tenant, d) = Some row"
  shows "status_fresh lib db_at (cache_set f (device_key (tenant, d)) (device_hash lib (device_of_row row)) s)"
  using assms dev.fresh_cache_set [of lib db_at s "(tenant, d)" row f] keys.fresh_other [of db_at s] tenants.fresh_other [of db_at s]
  by (simp add: status_fresh_def colon_free_def)

lemma status_fresh_key:
  assumes "status_fresh lib db_at s" and "fates_ok f" and "CHR '':'' \<notin> set tenant" and "sd_keys (db_at (ss_now s)) (tenant, k) = Some row"
  shows "status_fresh lib db_at (cache_set f (ingestkey_key (tenant, k)) (key_hash row) s)"
  using assms keys.fresh_cache_set [of db_at s "(tenant, k)" row f] dev.fresh_other [of lib db_at s] tenants.fresh_other [of db_at s]
  by (simp add: status_fresh_def colon_free_def)

lemma status_fresh_tenant:
  assumes "status_fresh lib db_at s" and "fates_ok f" and "sd_tenants (db_at (ss_now s)) t = Some row"
  shows "status_fresh lib db_at (cache_set f (tenant_key t) (tenant_hash row) s)"
  using assms tenants.fresh_cache_set [of db_at s t row f] dev.fresh_other [of lib db_at s] keys.fresh_other [of db_at s]
  by (simp add: status_fresh_def)

lemma status_fresh_touch [simp]: "status_fresh lib db_at (s\<lparr>ss_touched := x\<rparr>) = status_fresh lib db_at s"
  by (simp add: status_fresh_def)

lemma status_step_fresh:
  assumes "status_step lib db_at s s'" and fr: "status_fresh lib db_at s"
  shows "status_fresh lib db_at s'"
  using assms(1)
proof cases
  case (tick t)
  then show ?thesis using fr dev.fresh_tick keys.fresh_tick tenants.fresh_tick by (fastforce simp: status_fresh_def)
next
  case (device f tenant d)
  then show ?thesis using fr status_fresh_device [OF fr]
    by (auto simp: device_record_def Let_def split: option.splits)
next
  case (key f tenant k)
  then show ?thesis using fr status_fresh_key [of lib db_at "s\<lparr>ss_touched := _\<rparr>" f tenant k]
    by (auto simp: ingest_key_record_def split: option.splits)
next
  case (tenant f t)
  then show ?thesis using fr status_fresh_tenant [OF fr] by (auto simp: tenant_status_def split: option.splits)
next
  case (drop f k)
  then show ?thesis using fr dev.fresh_delete keys.fresh_delete tenants.fresh_delete
    by (cases "f_del f") (auto simp: status_fresh_def cache_delete_def)
qed

lemma status_run_fresh:
  assumes "(status_step lib db_at)\<^sup>*\<^sup>* s s'" and "ss_cache s = Map.empty"
  shows "status_fresh lib db_at s'"
  using assms(1)
proof (induction rule: rtranclp_induct)
  case base
  then show ?case using assms(2) by (simp add: status_fresh_def entries_fresh_def)
qed (rule status_step_fresh)

subsection \<open>Nobody gets in on old rights\<close>

definition recent :: "nat \<Rightarrow> nat \<Rightarrow> bool" where
  "recent now t \<longleftrightarrow> t \<le> now \<and> now < t + STATUS_CACHE_TTL"

lemma recent_now [simp]: "recent now now"
  by (simp add: recent_def STATUS_CACHE_TTL_def)

definition iso_ok :: "clock_lib \<Rightarrow> bool" where
  "iso_ok lib \<longleftrightarrow> (\<forall>t. cl_iso lib t \<noteq> [] \<and> cl_from_iso lib (cl_iso lib t) = t)"

lemma device_hash_back:
  assumes "iso_ok lib"
  shows "dv_status (device_of_hash lib (device_hash lib d)) = dv_status d"
    and "serial_ok now (device_of_hash lib (device_hash lib d)) p = serial_ok now d p"
  using assms
  by (auto simp: iso_ok_def device_of_hash_def device_hash_def hget_def nonempty_def serial_ok_def split: option.splits)

lemma device_record_recent:
  assumes fr: "status_fresh lib db_at s" and "iso_ok lib" and "CHR '':'' \<notin> set tenant"
    and r: "device_record lib (db_at (ss_now s)) f tenant d s = (Inr (Some dv), s')"
  obtains t row where "recent (ss_now s) t" "sd_devices (db_at t) (tenant, d) = Some row" "dv_status dv = dr_status row"
    "\<And>p. serial_ok (ss_now s) dv p = serial_ok (ss_now s) (device_of_row row) p"
proof (cases "cache_get f (device_key (tenant, d)) s")
  case None
  then show thesis using r that [of "ss_now s"]
    by (auto simp: device_record_def Let_def device_of_row_def split: if_splits option.splits)
next
  case (Some h)
  obtain t row where t: "t \<le> ss_now s" "ss_now s < t + STATUS_CACHE_TTL" "sd_devices (db_at t) (tenant, d) = Some row"
    "h = device_hash lib (device_of_row row)"
    using dev.fresh_hit [of lib db_at s "(tenant, d)" f h] fr Some assms(3) by (auto simp: status_fresh_def colon_free_def)
  have "dv = device_of_hash lib h" using r Some by (simp add: device_record_def)
  then show thesis using t device_hash_back [OF assms(2)] by (intro that [of t row]) (simp_all add: recent_def device_of_row_def)
qed

lemma key_record_recent:
  assumes fr: "status_fresh lib db_at s" and "CHR '':'' \<notin> set tenant"
    and r: "ingest_key_record (db_at (ss_now s)) f tenant k s = (Inr (status, Some h), s')"
  obtains t row where "recent (ss_now s) t" "sd_keys (db_at t) (tenant, k) = Some row" "status = Some (key_status row)" "h = kr_hash row"
proof (cases "cache_get f (ingestkey_key (tenant, k)) s")
  case None
  then show thesis using r that [of "ss_now s"] by (auto simp: ingest_key_record_def split: if_splits option.splits)
next
  case (Some h')
  obtain t row where t: "t \<le> ss_now s" "ss_now s < t + STATUS_CACHE_TTL" "sd_keys (db_at t) (tenant, k) = Some row" "h' = key_hash row"
    using keys.fresh_hit [of db_at s "(tenant, k)" f h'] fr Some assms(2) by (auto simp: status_fresh_def colon_free_def)
  then show thesis using r Some by (intro that [of t row]) (auto simp: ingest_key_record_def recent_def key_hash_def)
qed

lemma tenant_hash_back: "tenant_of_hash (tenant_hash row) = row"
  by (simp add: tenant_of_hash_def tenant_hash_def hget_def)

lemma tenant_status_recent:
  assumes fr: "status_fresh lib db_at s" and r: "tenant_status (db_at (ss_now s)) f tenant s = (Inr row, s')"
  obtains t where "recent (ss_now s) t" "sd_tenants (db_at t) tenant = Some row"
proof (cases "cache_get f (tenant_key tenant) s")
  case None
  then show thesis using r that [of "ss_now s"] by (auto simp: tenant_status_def split: if_splits option.splits)
next
  case (Some h)
  obtain t row' where t: "t \<le> ss_now s" "ss_now s < t + STATUS_CACHE_TTL" "sd_tenants (db_at t) tenant = Some row'" "h = tenant_hash row'"
    using tenants.fresh_hit [of db_at s tenant f h] fr Some by (auto simp: status_fresh_def)
  then show thesis using r Some by (intro that [of t]) (auto simp: tenant_status_def recent_def tenant_hash_back)
qed

lemma uuid_str_no_colon: "CHR '':'' \<notin> set (uuid_str n)"
proof -
  have "CHR '':'' \<notin> set (to_hex 32 n)" using to_hex_set [of "CHR '':''" 32 n] by (auto simp: plain_def hex_val_def)
  then show ?thesis by (auto simp: uuid_str_def Let_def dest: in_set_takeD in_set_dropD)
qed


definition demo_lib :: clock_lib where
  "demo_lib = \<lparr>cl_iso = (\<lambda>t. replicate (Suc t) (CHR ''x'')), cl_from_iso = (\<lambda>s. length s - 1)\<rparr>"

definition demo_device :: "nat \<Rightarrow> device_row" where
  "demo_device t = \<lparr>dr_status = (if t < 10 then ''active'' else ''revoked''), dr_cert_serial = ''ab'', dr_prev_serial = None, dr_rotated_at = None\<rparr>"

definition demo_db :: "nat \<Rightarrow> status_db" where
  "demo_db t = \<lparr>sd_devices = [(''t'', ''d'') \<mapsto> demo_device t], sd_keys = Map.empty, sd_tenants = Map.empty\<rparr>"

definition demo_fates :: fates where
  "demo_fates = \<lparr>f_get = Replied, f_hset = Replied, f_expire = Replied, f_del = Replied, f_pg = True\<rparr>"

definition demo_server :: status_server where
  "demo_server = \<lparr>ss_now = 5, ss_cache = Map.empty, ss_touched = []\<rparr>"

text \<open>The device is read at second 5, revoked at second 10 and let through once more at second 30.\<close>

definition demo_later :: status_server where
  "demo_later = (snd (device_record demo_lib (demo_db 5) demo_fates ''t'' ''d'' demo_server))\<lparr>ss_now := 30\<rparr>"

lemma demo_later_eq:
  "demo_later = \<lparr>ss_now = 30, ss_cache = [device_key (''t'', ''d'') \<mapsto> (device_hash demo_lib (device_of_row (demo_device 5)), Some 65)], ss_touched = []\<rparr>"
  by (simp add: demo_later_def device_record_def demo_server_def demo_fates_def demo_db_def cache_get_def cache_set_def redis_get_def
      redis_hset_def redis_expire_def STATUS_CACHE_TTL_def Let_def)

lemma demo_reach: "(status_step demo_lib demo_db)\<^sup>*\<^sup>* demo_server demo_later"
proof -
  let ?s1 = "snd (device_record demo_lib (demo_db 5) demo_fates ''t'' ''d'' demo_server)"
  have "status_step demo_lib demo_db demo_server ?s1"
    using status_step.device [of demo_fates "''t''" demo_lib demo_db demo_server "''d''"]
    by (simp add: fates_ok_def demo_fates_def demo_server_def)
  moreover have "ss_now ?s1 = 5"
    by (simp add: device_record_def demo_server_def demo_fates_def demo_db_def cache_get_def redis_get_def Let_def)
  then have "status_step demo_lib demo_db ?s1 demo_later"
    unfolding demo_later_def by (intro status_step.tick) simp
  ultimately show ?thesis by (meson rtranclp.rtrancl_refl rtranclp.rtrancl_into_rtrancl)
qed

lemma demo_verified: "fst (verify_device demo_lib (demo_db 30) demo_fates ''t'' ''d'' (Some ''AB'') demo_later) = Inr ()"
proof -
  have "py_lower ''AB'' = ''ab''" by code_simp
  then show ?thesis
    by (simp add: verify_device_def device_record_def demo_later_eq cache_get_def demo_fates_def redis_get_def device_of_hash_def
        device_hash_def device_of_row_def demo_device_def hget_def serial_ok_def)
qed


text \<open>When the EXPIRE of a backfill is refused, the entry has no expiry: a right that was cached this way is honoured at any
  later time, unless the key is deleted.\<close>

lemma backfill_without_expiry:
  assumes "f_hset f = Replied" and "f_expire f = Refused" and "ss_cache s k = None" and "f_get f' = Replied"
  shows "cache_get f' k ((cache_set f k m s)\<lparr>ss_now := later\<rparr>) = Some m"
  using assms by (simp add: cache_set_def redis_hset_def redis_get_def cache_get_def)

subsection \<open>Identity headers come from the gateway\<close>

lemma header_mem: "header scope name = Some v \<Longrightarrow> \<exists>n. (n, v) \<in> set (hs_headers scope) \<and> py_lower n = py_lower name"
  by (auto simp: header_def filter_eq_Cons_iff split: list.splits)

text \<open>Behind the gateway middleware a request is treated as a device only if it carries the gateway's secret. A request
  without it is answered 401 on an agent route, and elsewhere reaches the application without any device or certificate
  header, so that no device is ever authenticated for it; the secret itself is never passed on.\<close>

theorem gateway_guards_identity:
  assumes "gateway_auth secret prefixes scope = Some scope'"
  shows "(\<forall>n v. (n, v) \<in> set (hs_headers scope') \<longrightarrow> py_lower n \<noteq> GATEWAY_AUTH_HEADER)
    \<and> ((\<exists>n. (n, secret) \<in> set (hs_headers scope) \<and> py_lower n = GATEWAY_AUTH_HEADER)
       \<or> (\<not> list_ex (starts_with (hs_path scope)) prefixes
          \<and> (\<forall>n v. (n, v) \<in> set (hs_headers scope') \<longrightarrow> \<not> is_reserved_identity_header (py_lower n))
          \<and> fst (agent_auth lib db f scope' s) = Inl AuthRequired))"
proof -
  let ?auth = "filter (\<lambda>(n, v). py_lower n = GATEWAY_AUTH_HEADER) (hs_headers scope)"
  show ?thesis
  proof (cases "map snd ?auth \<noteq> [] \<and> last (map snd ?auth) = secret")
    case True
    then have "secret \<in> set (map snd ?auth)" by (metis last_in_set)
    then have "\<exists>n. (n, secret) \<in> set (hs_headers scope) \<and> py_lower n = GATEWAY_AUTH_HEADER" by auto
    then show ?thesis using assms True by (auto simp: gateway_auth_def Let_def)
  next
    case False
    then have s': "scope' = scope\<lparr>hs_headers := filter (\<lambda>(n, v). \<not> is_reserved_identity_header (py_lower n))
        (filter (\<lambda>h. \<not> (case h of (n, v) \<Rightarrow> py_lower n = GATEWAY_AUTH_HEADER)) (hs_headers scope)), hs_gateway_authenticated := False\<rparr>"
      "\<not> list_ex (starts_with (hs_path scope)) prefixes"
      using assms by (simp_all add: gateway_auth_def Let_def split: if_splits)
    then show ?thesis by (auto simp: agent_auth_def)
  qed
qed

theorem gateway_guards_identity_witness:
  "\<exists>scope'. gateway_auth ''s3cret'' [''/v1/agent''] \<lparr>hs_path = ''/v1/alerts'', hs_headers = [(''X-Device-Id'', ''d'')], hs_gateway_authenticated = True\<rparr> = Some scope'
     \<and> fst (agent_auth demo_lib (demo_db 0) demo_fates scope' demo_server) = Inl AuthRequired"
proof -
  let ?scope = "\<lparr>hs_path = ''/v1/alerts'', hs_headers = [(''X-Device-Id'', ''d'')], hs_gateway_authenticated = True\<rparr>"
  have l: "py_lower ''X-Device-Id'' \<noteq> GATEWAY_AUTH_HEADER" by code_simp
  obtain scope' where g: "gateway_auth ''s3cret'' [''/v1/agent''] ?scope = Some scope'"
    using l by (simp add: gateway_auth_def Let_def starts_with_def)
  show ?thesis
    using gateway_guards_identity [OF g, of demo_lib "demo_db 0" demo_fates demo_server] g l by auto
qed

end
