(* ===== verification/Entitlements.thy ===== *)
theory Entitlements
  imports Credentials
begin

section \<open>The entitlements client\<close>

text \<open>
  The cached client of \<^verbatim>\<open>packages/entitlements-client/src/soc_entitlements/client.py\<close>: a fresh copy for at most five minutes,
  then a new fetch, and during an outage the last known copy for at most thirty minutes more. The client's clock is a rational
  number of seconds; one call reads it twice, on entry (\<open>g_now\<close>) and after a fetch (\<open>g_done\<close>). The answer of the control
  plane is an argument of the call; \<open>'d\<close> is the validated payload.
\<close>

definition MAX_CACHE_TTL_SECONDS :: rat where "MAX_CACHE_TTL_SECONDS = 300"

definition MAX_LKG_GRACE_SECONDS :: rat where "MAX_LKG_GRACE_SECONDS = 1800"

datatype 'd http_answer = HttpError | Answer int "'d option"

datatype fetch_error = UpstreamDown | Denied | BadPayload

record 'd snapshot =
  sn_data :: 'd
  sn_stale :: bool
  sn_staleness :: rat

datatype ent_error = EntitlementsUnavailable | NeverGracedFieldStale | PayloadInvalid | BadConfig

record client_config =
  cc_ttl :: rat
  cc_grace :: rat

definition new_client :: "rat \<Rightarrow> rat \<Rightarrow> ent_error + client_config" where
  "new_client ttl grace =
     (if ttl > MAX_CACHE_TTL_SECONDS then Inl BadConfig
      else if grace > MAX_LKG_GRACE_SECONDS then Inl BadConfig
      else Inr \<lparr>cc_ttl = ttl, cc_grace = grace\<rparr>)"

type_synonym 'd ent_cache = "nat \<Rightarrow> ('d \<times> rat) option"

definition fetch :: "'d http_answer \<Rightarrow> fetch_error + 'd" where
  "fetch ans =
     (case ans of
        HttpError \<Rightarrow> Inl UpstreamDown
      | Answer status body \<Rightarrow>
          if status \<ge> 500 then Inl UpstreamDown
          else if status \<noteq> 200 then Inl Denied
          else case body of None \<Rightarrow> Inl BadPayload | Some d \<Rightarrow> Inr d)"

record 'd get_call =
  g_tenant :: nat
  g_now :: rat
  g_done :: rat
  g_answer :: "'d http_answer"

definition ent_get :: "client_config \<Rightarrow> 'd get_call \<Rightarrow> 'd ent_cache \<Rightarrow> (ent_error + 'd snapshot) \<times> 'd ent_cache" where
  "ent_get cfg call cache =
     (let entry = cache (g_tenant call) in
      case entry of
        Some (data, fetched_at) \<Rightarrow>
          if g_now call - fetched_at \<le> cc_ttl cfg
          then (Inr \<lparr>sn_data = data, sn_stale = False, sn_staleness = 0\<rparr>, cache)
          else (case fetch (g_answer call) of
            Inl UpstreamDown \<Rightarrow>
              let staleness = g_now call - fetched_at - cc_ttl cfg in
              (if staleness \<le> cc_grace cfg then Inr \<lparr>sn_data = data, sn_stale = True, sn_staleness = staleness\<rparr>
               else Inl EntitlementsUnavailable, cache)
          | Inl Denied \<Rightarrow> (Inl EntitlementsUnavailable, cache)
          | Inl BadPayload \<Rightarrow> (Inl PayloadInvalid, cache)
          | Inr d \<Rightarrow> (Inr \<lparr>sn_data = d, sn_stale = False, sn_staleness = 0\<rparr>, cache(g_tenant call \<mapsto> (d, g_done call))))
      | None \<Rightarrow>
          (case fetch (g_answer call) of
            Inl BadPayload \<Rightarrow> (Inl PayloadInvalid, cache)
          | Inl _ \<Rightarrow> (Inl EntitlementsUnavailable, cache)
          | Inr d \<Rightarrow> (Inr \<lparr>sn_data = d, sn_stale = False, sn_staleness = 0\<rparr>, cache(g_tenant call \<mapsto> (d, g_done call)))))"

definition ent_invalidate :: "nat \<Rightarrow> 'd ent_cache \<Rightarrow> 'd ent_cache" where
  "ent_invalidate tenant cache = cache(tenant := None)"

definition ent_clear :: "'d ent_cache \<Rightarrow> 'd ent_cache" where
  "ent_clear cache = Map.empty"

text \<open>The property \<^verbatim>\<open>abuse_frozen\<close> of a snapshot; \<open>frozen\<close> reads the payload.\<close>

definition snapshot_abuse_frozen :: "('d \<Rightarrow> bool) \<Rightarrow> 'd snapshot \<Rightarrow> ent_error + bool" where
  "snapshot_abuse_frozen frozen s = (if sn_stale s then Inl NeverGracedFieldStale else Inr (frozen (sn_data s)))"

subsection \<open>How old an entitlement can be\<close>

datatype 'd client_op = Get "'d get_call" | Invalidate nat | Clear

fun ent_run :: "client_config \<Rightarrow> 'd client_op list \<Rightarrow> 'd ent_cache \<Rightarrow> ('d get_call \<times> (ent_error + 'd snapshot)) list" where
  "ent_run cfg [] cache = []"
| "ent_run cfg (Get call # ops) cache = (call, fst (ent_get cfg call cache)) # ent_run cfg ops (snd (ent_get cfg call cache))"
| "ent_run cfg (Invalidate t # ops) cache = ent_run cfg ops (ent_invalidate t cache)"
| "ent_run cfg (Clear # ops) cache = ent_run cfg ops (ent_clear cache)"

text \<open>The control plane delivered \<open>d\<close> for the tenant in some call of the list, at the time \<open>time\<close>.\<close>

definition delivered :: "'d get_call list \<Rightarrow> nat \<Rightarrow> 'd \<Rightarrow> rat \<Rightarrow> bool" where
  "delivered calls tenant d time \<longleftrightarrow>
     (\<exists>c \<in> set calls. g_tenant c = tenant \<and> fetch (g_answer c) = Inr d \<and> g_done c = time)"

definition snapshot_ok :: "client_config \<Rightarrow> 'd get_call list \<Rightarrow> 'd get_call \<Rightarrow> 'd snapshot \<Rightarrow> bool" where
  "snapshot_ok cfg calls call s \<longleftrightarrow>
     (\<exists>time. delivered calls (g_tenant call) (sn_data s) time \<and>
        (if sn_stale s
         then fetch (g_answer call) = Inl UpstreamDown \<and> cc_ttl cfg < g_now call - time \<and> g_now call - time \<le> cc_ttl cfg + cc_grace cfg
         else g_now call - time \<le> cc_ttl cfg \<or> fetch (g_answer call) = Inr (sn_data s)))"

definition cache_delivered :: "'d get_call list \<Rightarrow> 'd ent_cache \<Rightarrow> bool" where
  "cache_delivered calls cache \<longleftrightarrow> (\<forall>t d time. cache t = Some (d, time) \<longrightarrow> delivered calls t d time)"

lemma delivered_mono: "delivered calls t d time \<Longrightarrow> set calls \<subseteq> set calls' \<Longrightarrow> delivered calls' t d time"
  by (auto simp: delivered_def)

lemma ent_get_ok:
  assumes inv: "cache_delivered calls cache" and get: "ent_get cfg call cache = (res, cache')"
  shows "cache_delivered (calls @ [call]) cache'" and "res = Inr s \<Longrightarrow> snapshot_ok cfg (calls @ [call]) call s"
proof -
  have old: "delivered (calls @ [call]) t d time" if "cache t = Some (d, time)" for t d time
    using inv that delivered_mono [of calls t d time "calls @ [call]"] by (auto simp: cache_delivered_def)
  have new: "delivered (calls @ [call]) (g_tenant call) d (g_done call)" if "fetch (g_answer call) = Inr d" for d
    using that by (auto simp: delivered_def)
  show "cache_delivered (calls @ [call]) cache'"
    using get old new
    by (auto simp: cache_delivered_def ent_get_def Let_def split: option.splits if_splits sum.splits fetch_error.splits)
  show "snapshot_ok cfg (calls @ [call]) call s" if res: "res = Inr s"
  proof (cases "\<exists>d. fetch (g_answer call) = Inr d \<and> s = \<lparr>sn_data = d, sn_stale = False, sn_staleness = 0\<rparr>")
    case True
    then show ?thesis using new by (auto simp: snapshot_ok_def)
  next
    case False
    then obtain d time where e: "cache (g_tenant call) = Some (d, time)"
      using get res by (auto simp: ent_get_def Let_def split: option.splits if_splits sum.splits fetch_error.splits)
    show ?thesis unfolding snapshot_ok_def
      by (rule exI [of _ time])
        (use get res False e old [OF e] in \<open>auto simp: ent_get_def Let_def split: if_splits sum.splits fetch_error.splits\<close>)
  qed
qed

lemma snapshot_ok_mono: "snapshot_ok cfg calls call s \<Longrightarrow> set calls \<subseteq> set calls' \<Longrightarrow> snapshot_ok cfg calls' call s"
  unfolding snapshot_ok_def using delivered_mono by metis

fun calls_of :: "'d client_op list \<Rightarrow> 'd get_call list" where
  "calls_of [] = []"
| "calls_of (Get c # ops) = c # calls_of ops"
| "calls_of (_ # ops) = calls_of ops"

lemma ent_run_ok:
  assumes "cache_delivered calls cache" and "(call, Inr s) \<in> set (ent_run cfg ops cache)"
  shows "snapshot_ok cfg (calls @ calls_of ops) call s"
  using assms
proof (induction cfg ops cache arbitrary: calls rule: ent_run.induct)
  case (2 cfg c ops cache)
  obtain res cache' where g: "ent_get cfg c cache = (res, cache')" by fastforce
  have inv: "cache_delivered (calls @ [c]) cache'" by (rule ent_get_ok(1) [OF "2.prems"(1) g])
  show ?case
  proof (cases "(call, Inr s) \<in> set (ent_run cfg ops cache')")
    case True
    then show ?thesis using "2.IH" [of "calls @ [c]"] inv g by simp
  next
    case False
    then have "call = c" "res = Inr s" using "2.prems"(2) g by auto
    then have "snapshot_ok cfg (calls @ [c]) call s" using ent_get_ok(2) [OF "2.prems"(1) g] by simp
    then show ?thesis by (rule snapshot_ok_mono) auto
  qed
next
  case (3 cfg t ops cache)
  then have "cache_delivered calls (ent_invalidate t cache)" by (simp add: cache_delivered_def ent_invalidate_def)
  then show ?case using "3.IH" "3.prems"(2) by simp
next
  case (4 cfg ops cache)
  have "cache_delivered calls (ent_clear cache)" by (simp add: cache_delivered_def ent_clear_def)
  then show ?case using "4.IH" "4.prems"(2) by simp
qed simp

text \<open>C33: Entitlements are never older than thirty-five minutes. Every snapshot a client hands out holds data that the control
  plane delivered for that very tenant in one of the client's calls; unless it is marked stale it was delivered at most five
  minutes ago or in this call, and a stale one is only given out when this call found the control plane down, at most
  2100 seconds after the delivery. From a stale snapshot the abuse flag cannot be read.\<close>

theorem entitlements_age_bounded:
  assumes "new_client ttl grace = Inr cfg" and "(call, Inr s) \<in> set (ent_run cfg ops Map.empty)"
  shows "\<exists>time. delivered (calls_of ops) (g_tenant call) (sn_data s) time
    \<and> (if sn_stale s then fetch (g_answer call) = Inl UpstreamDown \<and> g_now call - time \<le> 2100
          \<and> snapshot_abuse_frozen frozen s = Inl NeverGracedFieldStale
       else g_now call - time \<le> 300 \<or> fetch (g_answer call) = Inr (sn_data s))"
proof -
  have cfg: "cc_ttl cfg \<le> 300" "cc_grace cfg \<le> 1800"
    using assms(1) by (auto simp: new_client_def MAX_CACHE_TTL_SECONDS_def MAX_LKG_GRACE_SECONDS_def split: if_splits)
  have "snapshot_ok cfg ([] @ calls_of ops) call s"
    by (rule ent_run_ok [OF _ assms(2)]) (simp add: cache_delivered_def)
  then obtain time where "delivered (calls_of ops) (g_tenant call) (sn_data s) time"
    "if sn_stale s
     then fetch (g_answer call) = Inl UpstreamDown \<and> cc_ttl cfg < g_now call - time \<and> g_now call - time \<le> cc_ttl cfg + cc_grace cfg
     else g_now call - time \<le> cc_ttl cfg \<or> fetch (g_answer call) = Inr (sn_data s)"
    by (auto simp: snapshot_ok_def)
  then show ?thesis using cfg by (intro exI [of _ time]) (auto simp: snapshot_abuse_frozen_def split: if_splits)
qed

definition demo_call :: "rat \<Rightarrow> nat http_answer \<Rightarrow> nat get_call" where
  "demo_call t a = \<lparr>g_tenant = 1, g_now = t, g_done = t, g_answer = a\<rparr>"

theorem entitlements_age_bounded_witness:
  "\<exists>time. delivered [demo_call 0 (Answer 200 (Some 9)), demo_call 1000 HttpError] 1 9 time \<and> 1000 - time \<le> 2100"
proof -
  have c: "new_client 300 1800 = Inr \<lparr>cc_ttl = 300, cc_grace = 1800\<rparr>"
    by (simp add: new_client_def MAX_CACHE_TTL_SECONDS_def MAX_LKG_GRACE_SECONDS_def)
  have "(demo_call 1000 HttpError, Inr \<lparr>sn_data = 9, sn_stale = True, sn_staleness = 700\<rparr>)
    \<in> set (ent_run \<lparr>cc_ttl = 300, cc_grace = 1800\<rparr> [Get (demo_call 0 (Answer 200 (Some 9))), Get (demo_call 1000 HttpError)] Map.empty)"
    by (simp add: demo_call_def ent_get_def fetch_def)
  from entitlements_age_bounded [OF c this, of "\<lambda>_. True"] show ?thesis
    by (auto simp: demo_call_def)
qed

end
