(* ===== verification/Audit_Log.thy ===== *)
theory Audit_Log
  imports Py_Re Py_Json Ids
begin

section \<open>The audit log\<close>

text \<open>
  The audit package (\<^verbatim>\<open>packages/audit/src/soc_audit\<close>): redaction of values whose key names a secret, the size cap of
  a serialized value (\<^verbatim>\<open>redact.py\<close>) and the writer (\<^verbatim>\<open>writer.py\<close>). The row is appended on the caller's transaction, so
  a failure of the writer is the failure of the operation it audits.
\<close>

subsection \<open>Redaction\<close>

definition REDACTED :: string where "REDACTED = ''[REDACTED]''"

definition MAX_AUDIT_VALUE_BYTES :: nat where "MAX_AUDIT_VALUE_BYTES = 16 * 1024"

definition MAX_DEPTH :: nat where "MAX_DEPTH = 20"

definition c_sep :: "char \<Rightarrow> bool" where
  "c_sep c = (c = CHR ''_'' \<or> c = CHR ''-'' \<or> c = CHR ''.'')"

definition SECRET_KEY_RE :: rex where
  "SECRET_KEY_RE =
     r_alts [r_ilit ''token'', r_ilit ''secret'', r_ilit ''password'', r_ilit ''passwd'', r_ilit ''credential'',
       r_ilit ''cert_key'', r_ilit ''private_key'', r_ilit ''api_key'',
       r_seq [RAlt RBegin (RChar c_sep), r_ilit ''key'', r_opt (r_ilit ''s''), RAlt (RChar c_sep) REnd]]"

definition is_secret_key :: "string \<Rightarrow> bool" where
  "is_secret_key key = search SECRET_KEY_RE key"

function redact_secrets :: "nat \<Rightarrow> json \<Rightarrow> json" where
  "redact_secrets depth v =
     (if depth > MAX_DEPTH then JStr REDACTED
      else case v of
        JObj d \<Rightarrow> JObj (map (\<lambda>(k, x). (k, if is_secret_key k then JStr REDACTED else redact_secrets (depth + 1) x)) d)
      | JList vs \<Rightarrow> JList (map (redact_secrets (depth + 1)) vs)
      | x \<Rightarrow> x)"
  by pat_completeness auto
termination by (relation "measure (\<lambda>(depth, _). MAX_DEPTH + 1 - depth)") auto

declare redact_secrets.simps [simp del]

datatype audit_error = AuditValueTooLarge | BadTenant | EmptyAction | BadActor | BadTarget

definition serialize_audit_value :: "(rat \<Rightarrow> string) \<Rightarrow> obj option \<Rightarrow> audit_error + string option" where
  "serialize_audit_value fr v =
     (case v of
        None \<Rightarrow> Inr None
      | Some d \<Rightarrow>
          let serialized = json_dumps fr (redact_secrets 0 (JObj d)) in
          if length serialized > MAX_AUDIT_VALUE_BYTES then Inl AuditValueTooLarge else Inr (Some serialized))"

subsection \<open>The writer\<close>

record audit_entity =
  ae_type :: string
  ae_id :: string

record audit_record =
  au_tenant :: string
  au_actor :: audit_entity
  au_action :: string
  au_target :: audit_entity
  au_before :: "string option"
  au_after :: "string option"
  au_reason :: "string option"

definition actor_ok :: "audit_entity \<Rightarrow> bool" where
  "actor_ok a = (ae_type a \<in> {''user'', ''system'', ''device''} \<and> ae_id a \<noteq> [])"

definition target_ok :: "audit_entity \<Rightarrow> bool" where
  "target_ok t = (ae_type t \<noteq> [] \<and> ae_id t \<noteq> [])"

definition write_audit ::
  "(rat \<Rightarrow> string) \<Rightarrow> string \<Rightarrow> audit_entity \<Rightarrow> string \<Rightarrow> audit_entity \<Rightarrow> obj option \<Rightarrow> obj option \<Rightarrow> string option
     \<Rightarrow> audit_record list \<Rightarrow> audit_error + audit_record list" where
  "write_audit fr tenant_id actor action_type target before after reason rows =
     (case uuid_of tenant_id of
        None \<Rightarrow> Inl BadTenant
      | Some tenant \<Rightarrow>
          if \<not> actor_ok actor then Inl BadActor
          else if \<not> target_ok target then Inl BadTarget
          else if py_strip action_type = [] then Inl EmptyAction
          else rbind (serialize_audit_value fr before) (\<lambda>before_json.
               rbind (serialize_audit_value fr after) (\<lambda>after_json.
               Inr (rows @ [\<lparr>au_tenant = uuid_str tenant, au_actor = actor, au_action = action_type, au_target = target,
                             au_before = before_json, au_after = after_json, au_reason = reason\<rparr>]))))"

subsection \<open>Nothing secret is stored\<close>

text \<open>Every value under a secret-named key is the placeholder, at every depth.\<close>

fun fully_redacted :: "json \<Rightarrow> bool" where
  "fully_redacted (JObj d) = (\<forall>kv \<in> set d. if is_secret_key (fst kv) then snd kv = JStr REDACTED else fully_redacted (snd kv))"
| "fully_redacted (JList vs) = (\<forall>v \<in> set vs. fully_redacted v)"
| "fully_redacted _ = True"

text \<open>The value at a path of keys.\<close>

fun dig :: "string list \<Rightarrow> json \<Rightarrow> json option" where
  "dig [] v = Some v"
| "dig (k # ks) (JObj d) = (case map_of d k of None \<Rightarrow> None | Some v \<Rightarrow> dig ks v)"
| "dig (k # ks) _ = None"

definition is_scalar :: "json \<Rightarrow> bool" where
  "is_scalar v = (case v of JObj _ \<Rightarrow> False | JList _ \<Rightarrow> False | _ \<Rightarrow> True)"

lemma redact_simps:
  "depth > MAX_DEPTH \<Longrightarrow> redact_secrets depth v = JStr REDACTED"
  "depth \<le> MAX_DEPTH \<Longrightarrow> redact_secrets depth (JObj d)
     = JObj (map (\<lambda>(k, x). (k, if is_secret_key k then JStr REDACTED else redact_secrets (depth + 1) x)) d)"
  "depth \<le> MAX_DEPTH \<Longrightarrow> redact_secrets depth (JList vs) = JList (map (redact_secrets (depth + 1)) vs)"
  "depth \<le> MAX_DEPTH \<Longrightarrow> is_scalar v \<Longrightarrow> redact_secrets depth v = v"
  by (simp_all add: redact_secrets.simps [of depth] is_scalar_def split: json.splits)

lemma redact_fully: "fully_redacted (redact_secrets depth v)"
proof (induction depth v rule: redact_secrets.induct)
  case (1 depth v)
  show ?case
  proof (cases "depth \<le> MAX_DEPTH")
    case True
    then show ?thesis using 1 by (cases v) (auto simp: redact_simps is_scalar_def)
  qed (simp add: redact_simps)
qed

lemma redact_redacted: "redact_secrets depth (redact_secrets depth v) = redact_secrets depth v"
proof (induction depth v rule: redact_secrets.induct)
  case (1 depth v)
  show ?case
  proof (cases "depth \<le> MAX_DEPTH")
    case True
    then show ?thesis using 1 by (cases v) (auto simp: redact_simps is_scalar_def)
  qed (simp add: redact_simps)
qed

lemma map_of_map_values: "map_of (map (\<lambda>(k, x). (k, f k x)) d) k = map_option (f k) (map_of d k)"
  by (induction d) auto

lemma redact_keeps:
  assumes "dig ks v = Some x" and "is_scalar x" and "\<forall>k \<in> set ks. \<not> is_secret_key k" and "depth + length ks \<le> MAX_DEPTH"
  shows "dig ks (redact_secrets depth v) = Some x"
  using assms
proof (induction ks v arbitrary: depth rule: dig.induct)
  case (2 k ks d)
  then obtain w where w: "map_of d k = Some w" by (auto split: option.splits)
  then have "dig ks (redact_secrets (depth + 1) w) = Some x" using 2 by simp
  then show ?case using 2 w
    by (simp add: redact_simps map_of_map_values [of "\<lambda>k x. if is_secret_key k then JStr REDACTED else redact_secrets (depth + 1) x"])
qed (auto simp: redact_simps)

definition stored_value_ok :: "(rat \<Rightarrow> string) \<Rightarrow> obj option \<Rightarrow> string option \<Rightarrow> bool" where
  "stored_value_ok fr v stored \<longleftrightarrow>
     (case v of
        None \<Rightarrow> stored = None
      | Some d \<Rightarrow> \<exists>r. stored = Some (json_dumps fr r) \<and> length (json_dumps fr r) \<le> MAX_AUDIT_VALUE_BYTES \<and> fully_redacted r
          \<and> (\<forall>ks x. dig ks (JObj d) = Some x \<longrightarrow> is_scalar x \<longrightarrow> (\<forall>k \<in> set ks. \<not> is_secret_key k) \<longrightarrow> length ks \<le> MAX_DEPTH
               \<longrightarrow> dig ks r = Some x))"

lemma serialize_ok: "serialize_audit_value fr v = Inr stored \<Longrightarrow> stored_value_ok fr v stored"
  by (cases v) (auto simp: serialize_audit_value_def stored_value_ok_def Let_def redact_fully redact_keeps split: if_splits
      intro!: exI [of _ "redact_secrets 0 (JObj _)"])


definition demo_after :: obj where
  "demo_after = [(''source_ip'', JStr ''10.0.0.1''), (''enrollment_token_id'', JStr ''et_1''), (''cert'', JObj [(''api_key'', JStr ''k'')])]"

lemma demo_secret_keys:
  "is_secret_key ''enrollment_token_id'' \<and> is_secret_key ''api_key'' \<and> \<not> is_secret_key ''source_ip'' \<and> \<not> is_secret_key ''cert''"
  by code_simp

lemma demo_serialized: "serialize_audit_value (\<lambda>_. []) (Some demo_after)
   = Inr (Some (json_dumps (\<lambda>_. []) (JObj [(''source_ip'', JStr ''10.0.0.1''), (''enrollment_token_id'', JStr REDACTED), (''cert'', JObj [(''api_key'', JStr REDACTED)])])))"
proof -
  have r: "redact_secrets 0 (JObj demo_after)
    = JObj [(''source_ip'', JStr ''10.0.0.1''), (''enrollment_token_id'', JStr REDACTED), (''cert'', JObj [(''api_key'', JStr REDACTED)])]"
    using demo_secret_keys by (simp add: demo_after_def redact_simps MAX_DEPTH_def is_scalar_def)
  have "length (json_dumps (\<lambda>_. []) (JObj [(''source_ip'', JStr ''10.0.0.1''), (''enrollment_token_id'', JStr REDACTED), (''cert'', JObj [(''api_key'', JStr REDACTED)])])) \<le> 200"
    by code_simp
  then show ?thesis unfolding serialize_audit_value_def option.case Let_def r by (simp add: MAX_AUDIT_VALUE_BYTES_def)
qed


text \<open>The audit record of an enrollment names its token by id under a key that the redaction takes for a secret.\<close>

lemma enrollment_token_id_redacted: "dig [''enrollment_token_id''] (redact_secrets 0 (JObj demo_after)) = Some (JStr REDACTED)"
  using demo_secret_keys by (simp add: demo_after_def redact_simps MAX_DEPTH_def)

end
