(* ===== verification/Ingest_Api.thy ===== *)
theory Ingest_Api
  imports Access Entitlements Audit_Log Normalizer
begin

section \<open>The ingest endpoints\<close>

text \<open>
  \<^verbatim>\<open>dataplane/api/ingest.py\<close>: reading a batch, the checks in their order (tenant status, size, quota), publication for the
  normalizer, and the ingest keys of the console. Time and randomness are arguments. \<open>be_loads\<close> is \<^verbatim>\<open>json.loads\<close> (\<open>None\<close>
  for text that is no JSON), \<open>be_limit\<close> the answer of the entitlements client; the remaining fields of \<open>batch_env\<close> say which Redis
  commands fail. Metrics are not modelled.
\<close>

datatype ingest_error =
    Denied_by access_error | BatchTooLarge | ValidationError | QuotaError quota_error | NoEntitlements ent_error
  | PipelineUnavailable | AuditFailed audit_error | NotFound

record batch_env =
  be_db :: status_db
  be_loads :: "string \<Rightarrow> json option"
  be_limit :: "ent_error + int"
  be_utc_day :: "nat \<Rightarrow> string"
  be_uuid :: nat
  be_time :: string
  be_auth :: fates
  be_fates :: fates
  be_quota :: "nat \<Rightarrow> reply"
  be_publish :: reply
  be_usage :: "nat \<Rightarrow> reply"
  be_usage2 :: "nat \<Rightarrow> reply"
  be_signal :: reply

record batch_request =
  rq_content_length :: "string option"
  rq_chunks :: "string list"

record key_entry = key_row +
  ke_id :: string
  ke_tenant :: string
  ke_name :: string
  ke_created_by :: nat
  ke_created_at :: nat

record ingest_state =
  in_status :: status_server
  in_counters :: "int redis"
  in_published :: "(string \<times> string \<times> obj) list"
  in_signals :: "(string \<times> string) list"
  in_keys :: "key_entry list"
  in_audit :: "audit_record list"

definition ingest_max_bytes :: nat where "ingest_max_bytes = 5 * 1024 * 1024"

definition ingest_max_events :: nat where "ingest_max_events = 1000"

subsection \<open>Reading a batch\<close>

fun read_stream :: "string \<Rightarrow> string list \<Rightarrow> ingest_error + string" where
  "read_stream body [] = Inr body"
| "read_stream body (chunk # chunks) =
     (let body' = body @ chunk in
      if length body' > ingest_max_bytes then Inl BatchTooLarge else read_stream body' chunks)"

definition read_batch :: "batch_env \<Rightarrow> batch_request \<Rightarrow> ingest_error + json list" where
  "read_batch env req =
     rbind (case Option.bind (rq_content_length req) int_base10 of
              Some n \<Rightarrow> guard (\<not> n > int ingest_max_bytes) BatchTooLarge
            | None \<Rightarrow> Inr ()) (\<lambda>_.
     rbind (read_stream [] (rq_chunks req)) (\<lambda>body.
       case be_loads env body of
         Some (JObj d) \<Rightarrow>
           (case obj_get d ''events'' of
              JList events \<Rightarrow> if length events > ingest_max_events then Inl BatchTooLarge else Inr events
            | _ \<Rightarrow> Inl ValidationError)
       | _ \<Rightarrow> Inl ValidationError))"

subsection \<open>The batch path\<close>

definition signal_step :: "reply \<Rightarrow> string \<Rightarrow> string \<Rightarrow> ingest_state \<Rightarrow> ingest_state" where
  "signal_step f tenant step s =
     (if f = Refused \<or> (tenant, step) \<in> set (in_signals s) then s else s\<lparr>in_signals := (tenant, step) # in_signals s\<rparr>)"

definition raw_payload :: "batch_env \<Rightarrow> string \<Rightarrow> (string \<times> string) list \<Rightarrow> json list \<Rightarrow> obj" where
  "raw_payload env source_type source_ctx events =
     [(''batch_id'', JStr (uuid_str (be_uuid env))), (''source_type'', JStr source_type), (''ingest_time'', JStr (be_time env)),
      (''source'', JObj (map (\<lambda>(k, v). (k, JStr v)) source_ctx)), (''events'', JList events)]"

definition wire_batch_id :: "batch_env \<Rightarrow> string" where
  "wire_batch_id env = ''b_'' @ to_hex 32 (be_uuid env)"

definition handle_batch ::
  "batch_env \<Rightarrow> string \<Rightarrow> string \<Rightarrow> (string \<times> string) list \<Rightarrow> batch_request \<Rightarrow> ingest_state
     \<Rightarrow> (ingest_error + (string \<times> nat)) \<times> ingest_state" where
  "handle_batch env tenant source_type source_ctx req s =
     (case require_ingest_allowed (be_db env) (be_fates env) tenant (in_status s) of
        (Inl e, st) \<Rightarrow> (Inl (Denied_by e), s\<lparr>in_status := st\<rparr>)
      | (Inr _, st) \<Rightarrow>
          let s1 = s\<lparr>in_status := st\<rparr>; now = ss_now st in
          (case read_batch env req of
             Inl e \<Rightarrow> (Inl e, s1)
           | Inr events \<Rightarrow>
               if events = [] then (Inr (wire_batch_id env, 0), s1)
               else (case be_limit env of
                 Inl e \<Rightarrow> (Inl (NoEntitlements e), s1)
               | Inr limit \<Rightarrow>
                   (case check_and_consume_ingest now tenant (length events) limit (be_quota env) (in_counters s1) of
                      (Inl (IngestQuotaExceeded ra), r) \<Rightarrow>
                        (Inl (QuotaError (IngestQuotaExceeded ra)),
                         s1\<lparr>in_counters := Quotas.bump_usage (be_utc_day env) now tenant ''rejected_events'' (length events) (be_usage2 env)
                              (Quotas.bump_usage (be_utc_day env) now tenant ''throttled_batches'' 1 (be_usage env) r)\<rparr>)
                    | (Inl e, r) \<Rightarrow> (Inl (QuotaError e), s1\<lparr>in_counters := r\<rparr>)
                    | (Inr _, r) \<Rightarrow>
                        let s2 = s1\<lparr>in_counters := r\<rparr>;
                            published = s2\<lparr>in_published := in_published s2 @ [(''pipe:raw'', tenant, raw_payload env source_type source_ctx events)]\<rparr> in
                        (case be_publish env of
                           Refused \<Rightarrow> (Inl PipelineUnavailable, s2)
                         | Lost \<Rightarrow> (Inl PipelineUnavailable, published)
                         | Replied \<Rightarrow>
                             (Inr (wire_batch_id env, length events),
                              signal_step (be_signal env) tenant ''first_event''
                                (published\<lparr>in_counters := Quotas.bump_usage (be_utc_day env) now tenant ''events_accepted'' (length events) (be_usage env) r\<rparr>)))))))"

definition agent_events ::
  "clock_lib \<Rightarrow> batch_env \<Rightarrow> http_scope \<Rightarrow> batch_request \<Rightarrow> ingest_state \<Rightarrow> (ingest_error + (string \<times> nat)) \<times> ingest_state" where
  "agent_events lib env scope req s =
     (case agent_auth lib (be_db env) (be_auth env) scope (in_status s) of
        (Inl e, st) \<Rightarrow> (Inl (Denied_by e), s\<lparr>in_status := st\<rparr>)
      | (Inr (tenant, device_id), st) \<Rightarrow> handle_batch env tenant ''agent'' [(''device_id'', device_id)] req (s\<lparr>in_status := st\<rparr>))"

definition generic_events ::
  "(string \<Rightarrow> string) \<Rightarrow> batch_env \<Rightarrow> http_scope \<Rightarrow> batch_request \<Rightarrow> ingest_state \<Rightarrow> (ingest_error + (string \<times> nat)) \<times> ingest_state" where
  "generic_events sha256 env scope req s =
     (case ingest_key_auth sha256 (be_db env) (be_auth env) scope (in_status s) of
        (Inl e, st) \<Rightarrow> (Inl (Denied_by e), s\<lparr>in_status := st\<rparr>)
      | (Inr (tenant, key_id), st) \<Rightarrow> handle_batch env tenant ''generic'' [(''ingest_key_id'', key_id)] req (s\<lparr>in_status := st\<rparr>))"

subsection \<open>Ingest keys\<close>

text \<open>The rows a tenant's transaction sees.\<close>

definition find_key :: "key_entry list \<Rightarrow> string \<times> string \<Rightarrow> key_entry option" where
  "find_key rows ti = find (\<lambda>r. ke_tenant r = fst ti \<and> ke_id r = snd ti) rows"

definition keys_db :: "key_entry list \<Rightarrow> string \<times> string \<Rightarrow> key_row option" where
  "keys_db rows ti = map_option key_row.truncate (find_key rows ti)"

definition user_actor :: "session_principal \<Rightarrow> audit_entity" where
  "user_actor who = \<lparr>ae_type = ''user'', ae_id = uuid_str (sp_user who)\<rparr>"

definition create_ingest_key ::
  "(string \<Rightarrow> string) \<Rightarrow> (rat \<Rightarrow> string) \<Rightarrow> string \<Rightarrow> nat list \<Rightarrow> reply \<Rightarrow> session_principal \<Rightarrow> string \<Rightarrow> ingest_state
     \<Rightarrow> (ingest_error + (string \<times> string)) \<times> ingest_state" where
  "create_ingest_key sha256 fr key_id urandom f who name s =
     (let tenant = uuid_str (sp_tenant who);
          minted = mint_secret sha256 urandom key_id (sp_tenant who);
          row = \<lparr>kr_hash = secret_hash minted, kr_revoked_at = None, ke_id = key_id, ke_tenant = tenant, ke_name = name,
                 ke_created_by = sp_user who, ke_created_at = ss_now (in_status s)\<rparr> in
      case write_audit fr tenant (user_actor who) ''ingest_key.create'' \<lparr>ae_type = ''ingest_key'', ae_id = key_id\<rparr>
             None (Some [(''name'', JStr name)]) None (in_audit s) of
        Inl e \<Rightarrow> (Inl (AuditFailed e), s)
      | Inr audit \<Rightarrow>
          (Inr (key_id, wire_token minted),
           signal_step f tenant ''create_ingest_key'' (s\<lparr>in_keys := row # in_keys s, in_audit := audit\<rparr>)))"

text \<open>Newest first, as in the table; only keys that are not revoked.\<close>

definition list_ingest_keys :: "session_principal \<Rightarrow> ingest_state \<Rightarrow> key_entry list" where
  "list_ingest_keys who s =
     rev (sort_key ke_created_at (rev (filter (\<lambda>r. ke_tenant r = uuid_str (sp_tenant who) \<and> kr_revoked_at r = None) (in_keys s))))"

definition revoke_ingest_key ::
  "(rat \<Rightarrow> string) \<Rightarrow> fates \<Rightarrow> session_principal \<Rightarrow> string \<Rightarrow> ingest_state \<Rightarrow> (ingest_error + unit) \<times> ingest_state" where
  "revoke_ingest_key fr f who key_id s =
     (let tenant = uuid_str (sp_tenant who);
          hit = (\<lambda>r. ke_tenant r = tenant \<and> ke_id r = key_id \<and> kr_revoked_at r = None) in
      if \<not> list_ex hit (in_keys s) then (Inl NotFound, s)
      else case write_audit fr tenant (user_actor who) ''ingest_key.revoke'' \<lparr>ae_type = ''ingest_key'', ae_id = key_id\<rparr>
                  None None None (in_audit s) of
        Inl e \<Rightarrow> (Inl (AuditFailed e), s)
      | Inr audit \<Rightarrow>
          (Inr (),
           s\<lparr>in_keys := map (\<lambda>r. if hit r then r\<lparr>kr_revoked_at := Some (ss_now (in_status s))\<rparr> else r) (in_keys s),
             in_audit := audit,
             in_status := invalidate_ingest_key f tenant key_id (in_status s)\<rparr>))"

subsection \<open>Usage\<close>

text \<open>\<^verbatim>\<open>int(limit * 0.8)\<close> is the floor of four fifths for every limit below \<open>2 ^ 50\<close>.\<close>

definition ingest_usage :: "batch_env \<Rightarrow> (nat \<Rightarrow> reply) \<Rightarrow> string \<Rightarrow> ingest_state \<Rightarrow> ingest_error + (int \<times> int \<times> int \<times> int \<times> bool)" where
  "ingest_usage env f tenant s =
     (case be_limit env of
        Inl e \<Rightarrow> Inl (NoEntitlements e)
      | Inr limit \<Rightarrow>
          let now = ss_now (in_status s); q = (\<lambda>r. case r of Inl e \<Rightarrow> Inl (QuotaError e) | Inr v \<Rightarrow> Inr v) in
          rbind (q (current_ingest_rate now tenant (f 0) (in_counters s))) (\<lambda>current.
          rbind (q (usage_24h (be_utc_day env) now tenant ''throttled_batches'' (f 1) (in_counters s))) (\<lambda>throttled.
          rbind (q (usage_24h (be_utc_day env) now tenant ''rejected_events'' (f 2) (in_counters s))) (\<lambda>rejected.
          Inr (current, limit, throttled, rejected, limit > 0 \<and> current \<ge> limit * 8 div 10)))))"

subsection \<open>Accepted means published\<close>

lemma read_stream_length: "read_stream body chunks = Inr body' \<Longrightarrow> length body \<le> ingest_max_bytes \<Longrightarrow> length body' \<le> ingest_max_bytes \<and> body' = body @ concat chunks"
  by (induction body chunks rule: read_stream.induct) (auto simp: Let_def split: if_splits)

lemma read_batch_Inr:
  assumes "read_batch env req = Inr events"
  shows "length (concat (rq_chunks req)) \<le> ingest_max_bytes \<and> length events \<le> ingest_max_events
    \<and> (\<exists>d. be_loads env (concat (rq_chunks req)) = Some (JObj d) \<and> obj_get d ''events'' = JList events)"
proof -
  obtain body where b: "read_stream [] (rq_chunks req) = Inr body"
    "(case be_loads env body of
         Some (JObj d) \<Rightarrow>
           (case obj_get d ''events'' of
              JList events \<Rightarrow> if length events > ingest_max_events then Inl BatchTooLarge else Inr events
            | _ \<Rightarrow> Inl ValidationError)
       | _ \<Rightarrow> Inl ValidationError) = Inr events"
    using assms unfolding read_batch_def by (auto simp: rbind_Inr_iff)
  have body: "length body \<le> ingest_max_bytes \<and> body = [] @ concat (rq_chunks req)" by (rule read_stream_length [OF b(1)]) simp
  then have cc: "concat (rq_chunks req) = body" by simp
  show ?thesis unfolding cc using conjunct1 [OF body] b(2) by (auto split: option.splits json.splits if_splits)
qed

lemma signal_step_published [simp]: "in_published (signal_step f t x s) = in_published s" "in_counters (signal_step f t x s) = in_counters s"
  by (simp_all add: signal_step_def)

text \<open>What the answer of the batch path says about the stream.\<close>

lemma handle_batch_cases:
  obtains (denied) e st' where "require_ingest_allowed (be_db env) (be_fates env) tenant (in_status s) = (Inl e, st')"
      "handle_batch env tenant st ctx req s = (Inl (Denied_by e), s\<lparr>in_status := st'\<rparr>)"
  | (unread) st' e where "require_ingest_allowed (be_db env) (be_fates env) tenant (in_status s) = (Inr (), st')"
      "read_batch env req = Inl e" "handle_batch env tenant st ctx req s = (Inl e, s\<lparr>in_status := st'\<rparr>)"
  | (empty) st' where "require_ingest_allowed (be_db env) (be_fates env) tenant (in_status s) = (Inr (), st')"
      "read_batch env req = Inr []" "handle_batch env tenant st ctx req s = (Inr (wire_batch_id env, 0), s\<lparr>in_status := st'\<rparr>)"
  | (unlimited) st' e where "require_ingest_allowed (be_db env) (be_fates env) tenant (in_status s) = (Inr (), st')"
      "handle_batch env tenant st ctx req s = (Inl (NoEntitlements e), s\<lparr>in_status := st'\<rparr>)"
  | (quota) st' e r where "require_ingest_allowed (be_db env) (be_fates env) tenant (in_status s) = (Inr (), st')"
      "handle_batch env tenant st ctx req s = (Inl (QuotaError e), s\<lparr>in_status := st', in_counters := r\<rparr>)"
  | (consumed) st' events limit r where "require_ingest_allowed (be_db env) (be_fates env) tenant (in_status s) = (Inr (), st')"
      "read_batch env req = Inr events" "events \<noteq> []" "be_limit env = Inr limit"
      "check_and_consume_ingest (ss_now st') tenant (length events) limit (be_quota env) (in_counters s) = (Inr (), r)"
      "handle_batch env tenant st ctx req s =
        (let published = s\<lparr>in_status := st', in_counters := r,
           in_published := in_published s @ [(''pipe:raw'', tenant, raw_payload env st ctx events)]\<rparr> in
         case be_publish env of
           Refused \<Rightarrow> (Inl PipelineUnavailable, s\<lparr>in_status := st', in_counters := r\<rparr>)
         | Lost \<Rightarrow> (Inl PipelineUnavailable, published)
         | Replied \<Rightarrow> (Inr (wire_batch_id env, length events), signal_step (be_signal env) tenant ''first_event''
             (published\<lparr>in_counters := Quotas.bump_usage (be_utc_day env) (ss_now st') tenant ''events_accepted'' (length events) (be_usage env) r\<rparr>)))"
proof -
  obtain res st' where q: "require_ingest_allowed (be_db env) (be_fates env) tenant (in_status s) = (res, st')" by fastforce
  show thesis
  proof (cases res)
    case (Inl e)
    then show thesis using q by (intro denied) (simp_all add: handle_batch_def)
  next
    case (Inr u)
    with q have q: "require_ingest_allowed (be_db env) (be_fates env) tenant (in_status s) = (Inr (), st')" by simp
    show thesis
    proof (cases "read_batch env req")
      case (Inl e)
      then show thesis using q by (intro unread) (simp_all add: handle_batch_def Let_def)
    next
      case (Inr events)
      note rb = this
      show thesis
      proof (cases "events = []")
        case True
        then show thesis using q rb by (intro empty) (simp_all add: handle_batch_def Let_def)
      next
        case False
        note ne = this
        show thesis
        proof (cases "be_limit env")
          case (Inl e)
          then show thesis using q rb ne by (intro unlimited) (simp_all add: handle_batch_def Let_def)
        next
          case (Inr limit)
          obtain out r where c: "check_and_consume_ingest (ss_now st') tenant (length events) limit (be_quota env) (in_counters s) = (out, r)" by fastforce
          show thesis
          proof (cases out)
            case (Inl e)
            then show thesis using q rb ne Inr c by (cases e) (auto intro!: quota [OF q] simp: handle_batch_def Let_def)
          next
            case (Inr u)
            then show thesis using q rb ne \<open>be_limit env = Inr limit\<close> c
              by (intro consumed [OF q rb ne \<open>be_limit env = Inr limit\<close>]; cases "be_publish env") (simp_all add: handle_batch_def Let_def)
          qed
        qed
      qed
    qed
  qed
qed

lemma batch_published:
  assumes "handle_batch env tenant st ctx req s = (Inr (bid, n), s')" and "0 < n"
  shows "\<exists>events. n = length events \<and> in_published s' = in_published s @ [(''pipe:raw'', tenant, raw_payload env st ctx events)]"
proof (cases rule: handle_batch_cases [of env tenant s st ctx req])
  case (consumed st' events limit r)
  then show ?thesis using assms by (cases "be_publish env") (auto simp: Let_def)
qed (use assms in auto)


subsection \<open>From the credential to the stored document\<close>

lemma agent_auth_Inr:
  assumes "agent_auth lib db f scope st = (Inr (tenant, device), st')"
  shows "\<exists>n. tenant = uuid_str n" and "hs_gateway_authenticated scope"
    and "fst (verify_device lib db f tenant device (header scope ''X-Client-Cert-Serial'') st) = Inr ()"
  using assms unfolding agent_auth_def
  by (auto simp: soc_simps split: if_splits option.splits prod.splits)

text \<open>What the code relies on of the validation library: a canonical UUID is kept as it is, and the timestamp the API writes is
  accepted.\<close>

definition schema_accepts :: "schema_lib \<Rightarrow> string \<Rightarrow> bool" where
  "schema_accepts lib time \<longleftrightarrow> (\<forall>n. to_uuid lib (JStr (uuid_str n)) = Some (uuid_str n)) \<and> to_time lib (JStr time) \<noteq> None"

lemma raw_payload_valid:
  assumes "schema_accepts lib (be_time env)" and "st \<in> set SOURCE_TYPES"
  shows "\<exists>b. validate_batch lib (raw_payload env st ctx events) = Some b \<and> rb_events b = events
    \<and> rb_batch_id b = uuid_str (be_uuid env) \<and> rb_source_type b = st \<and> rb_source b = map (\<lambda>(k, v). (k, JStr v)) ctx"
  using assms by (auto simp: validate_batch_def raw_payload_def schema_accepts_def)

text \<open>C36: An agent's events keep the identity of the credential. When the agent endpoint accepts a batch, the request came through
  the gateway with a verified device of a tenant, and the message it published is a valid raw batch with the body's events;
  whatever its events contain, every document the normalizer makes of them belongs to that tenant, names that device
  and no ingest key, and is filed in that tenant's index.\<close>

theorem ingested_identity:
  assumes "agent_events clock env scope req s = (Inr (bid, n), s')" and "0 < n" and "schema_accepts (nl_schema nl) (be_time env)"
  shows "\<exists>tenant device payload b. in_published s' = in_published s @ [(''pipe:raw'', tenant, payload)]
    \<and> hs_gateway_authenticated scope
    \<and> fst (verify_device clock (be_db env) (be_auth env) tenant device (header scope ''X-Client-Cert-Serial'') (in_status s)) = Inr ()
    \<and> validate_batch (nl_schema nl) payload = Some b \<and> length (rb_events b) = n
    \<and> (\<forall>uuids raw ev. normalize_one nl tenant b uuids raw = Inr ev \<longrightarrow>
         obj_get (ne_doc ev) ''tenant_id'' = JStr tenant
         \<and> (\<exists>src. obj_get (ne_doc ev) ''source'' = JObj src \<and> obj_get src ''device_id'' = JStr device \<and> obj_get src ''ingest_key_id'' = JNull)
         \<and> starts_with (ne_index ev) (''events-v1-'' @ tenant))"
proof -
  obtain tenant device st' where a: "agent_auth clock (be_db env) (be_auth env) scope (in_status s) = (Inr (tenant, device), st')"
    and h: "handle_batch env tenant ''agent'' [(''device_id'', device)] req (s\<lparr>in_status := st'\<rparr>) = (Inr (bid, n), s')"
    using assms(1) by (auto simp: agent_events_def split: prod.splits sum.splits)
  obtain events where e: "n = length events"
    "in_published s' = in_published s @ [(''pipe:raw'', tenant, raw_payload env ''agent'' [(''device_id'', device)] events)]"
    using batch_published [OF h assms(2)] by auto
  obtain b where b: "validate_batch (nl_schema nl) (raw_payload env ''agent'' [(''device_id'', device)] events) = Some b" "rb_events b = events"
    "rb_source b = [(''device_id'', JStr device)]"
    using raw_payload_valid [OF assms(3), of "''agent''" "[(''device_id'', device)]" events] by (auto simp: SOURCE_TYPES_def)
  obtain k where k: "tenant = uuid_str k" using agent_auth_Inr(1) [OF a] by blast
  have doc: "obj_get (ne_doc ev) ''tenant_id'' = JStr tenant
      \<and> (\<exists>src. obj_get (ne_doc ev) ''source'' = JObj src \<and> obj_get src ''device_id'' = JStr device \<and> obj_get src ''ingest_key_id'' = JNull)
      \<and> starts_with (ne_index ev) (''events-v1-'' @ tenant)" if ev: "normalize_one nl tenant b uuids raw = Inr ev" for uuids raw ev
  proof -
    have "to_uuid (nl_schema nl) (JStr tenant) = Some tenant" using assms(3) k by (simp add: schema_accepts_def)
    moreover have "obj_get (rb_source b) ''device_id'' = JStr device" "obj_get (rb_source b) ''ingest_key_id'' = JNull"
      by (simp_all add: b(3) obj_get_def)
    moreover obtain month where "ne_index ev = events_index_name nl tenant month" by (rule normalize_one_Inr [OF ev])
    ultimately show ?thesis using normalized_identity(1,2) [OF ev]
      by (auto simp: SOURCE_KEYS_def events_index_name_def starts_with_iff)
  qed
  show ?thesis
    by (rule exI [of _ tenant], rule exI [of _ device], rule exI, rule exI [of _ b])
      (use e b doc agent_auth_Inr(2,3) [OF a] in simp)
qed

definition demo_tenant :: string where "demo_tenant = uuid_str 1"

definition demo_env :: batch_env where
  "demo_env = \<lparr>be_db = \<lparr>sd_devices = [(demo_tenant, ''d'') \<mapsto> demo_device 0], sd_keys = Map.empty,
       sd_tenants = [demo_tenant \<mapsto> \<lparr>tr_status = ''active'', tr_abuse_frozen = False\<rparr>]\<rparr>,
     be_loads = (\<lambda>_. Some (JObj [(''events'', JList [JInt 5])])), be_limit = Inr 10, be_utc_day = nat_to_dec, be_uuid = 7, be_time = ''now'',
     be_auth = demo_fates, be_fates = demo_fates, be_quota = (\<lambda>_. Replied), be_publish = Replied, be_usage = (\<lambda>_. Replied),
     be_usage2 = (\<lambda>_. Replied), be_signal = Replied\<rparr>"

definition demo_scope :: http_scope where
  "demo_scope = \<lparr>hs_path = ''/v1/agent/events'', hs_headers = [(''x-device-id'', ''d''), (''x-device-tenant'', demo_tenant), (''x-client-cert-serial'', ''AB'')],
     hs_gateway_authenticated = True\<rparr>"

definition demo_ingest :: ingest_state where
  "demo_ingest = \<lparr>in_status = demo_server, in_counters = Map.empty, in_published = [], in_signals = [], in_keys = [], in_audit = []\<rparr>"

lemma demo_headers: "header demo_scope (IDENTITY_HEADERS ! 0) = Some ''d''" "header demo_scope (IDENTITY_HEADERS ! 1) = Some demo_tenant"
  "header demo_scope ''X-Client-Cert-Serial'' = Some ''AB''"
proof -
  have "py_lower ''x-device-id'' = ''x-device-id''" "py_lower ''x-device-tenant'' = ''x-device-tenant''"
    "py_lower ''x-client-cert-serial'' = ''x-client-cert-serial''" "py_lower ''X-Client-Cert-Serial'' = ''x-client-cert-serial''"
    by code_simp+
  then show "header demo_scope (IDENTITY_HEADERS ! 0) = Some ''d''" "header demo_scope (IDENTITY_HEADERS ! 1) = Some demo_tenant"
    "header demo_scope ''X-Client-Cert-Serial'' = Some ''AB''"
    by (simp_all add: header_def demo_scope_def IDENTITY_HEADERS_def)
qed

lemma demo_auth: "\<exists>c. agent_auth demo_lib (be_db demo_env) (be_auth demo_env) demo_scope demo_server
    = (Inr (demo_tenant, ''d''), demo_server\<lparr>ss_cache := [device_key (demo_tenant, ''d'') \<mapsto> c]\<rparr>)"
proof -
  have u: "uuid_of demo_tenant = Some 1" "demo_tenant \<noteq> []"
    using uuid_of_str [of 1] by (simp add: demo_tenant_def) (simp add: demo_tenant_def uuid_str_def Let_def)
  have ab: "py_lower ''AB'' = ''ab''" by code_simp
  have v: "\<exists>c. verify_device demo_lib (be_db demo_env) demo_fates demo_tenant ''d'' (Some ''AB'') demo_server
      = (Inr (), demo_server\<lparr>ss_cache := [device_key (demo_tenant, ''d'') \<mapsto> c]\<rparr>)"
    by (simp add: verify_device_def device_record_def demo_env_def demo_fates_def demo_server_def cache_get_def redis_get_def Let_def
        cache_set_def redis_hset_def redis_expire_def demo_device_def device_of_row_def serial_ok_def ab) blast
  then obtain c where v: "verify_device demo_lib (be_db demo_env) demo_fates demo_tenant ''d'' (Some ''AB'') demo_server
      = (Inr (), demo_server\<lparr>ss_cache := [device_key (demo_tenant, ''d'') \<mapsto> c]\<rparr>)" by blast
  have t: "uuid_str (Suc 0) = demo_tenant" "be_auth demo_env = demo_fates" "hs_gateway_authenticated demo_scope"
    by (simp_all add: demo_tenant_def demo_env_def demo_scope_def)
  show ?thesis unfolding agent_auth_def demo_headers
    by (rule exI [of _ c]) (simp add: u v t nonempty_def)
qed

lemma demo_accepted: "\<exists>bid s'. agent_events demo_lib demo_env demo_scope req demo_ingest = (Inr (bid, 1), s')"
  if "rq_content_length req = None" "rq_chunks req = [''x'']"
proof -
  obtain c where c: "agent_auth demo_lib (be_db demo_env) (be_auth demo_env) demo_scope demo_server
    = (Inr (demo_tenant, ''d''), demo_server\<lparr>ss_cache := [device_key (demo_tenant, ''d'') \<mapsto> c]\<rparr>)" using demo_auth by blast
  let ?s = "demo_ingest\<lparr>in_status := demo_server\<lparr>ss_cache := [device_key (demo_tenant, ''d'') \<mapsto> c]\<rparr>\<rparr>"
  have r: "fst (require_ingest_allowed (be_db demo_env) (be_fates demo_env) demo_tenant (in_status ?s)) = Inr ()"
    by (simp add: require_ingest_allowed_def tenant_status_def cache_get_def demo_env_def demo_fates_def demo_server_def redis_get_def ingest_allowed_def)
  have b: "read_batch demo_env req = Inr [JInt 5]"
    using that by (simp add: read_batch_def demo_env_def ingest_max_bytes_def ingest_max_events_def obj_get_def)
  have q: "\<exists>r. check_and_consume_ingest now demo_tenant 1 10 (be_quota demo_env) (in_counters ?s) = (Inr (), r)" for now
    by (simp add: check_and_consume_ingest_def ingest_check_def current_ingest_rate_def demo_env_def demo_ingest_def ingest_consume_def
        redis_get_def redis_incrby_def window_keys_def Let_def comp_def)
  obtain st' where st: "require_ingest_allowed (be_db demo_env) (be_fates demo_env) demo_tenant (in_status ?s) = (Inr (), st')"
    using r by (cases "require_ingest_allowed (be_db demo_env) (be_fates demo_env) demo_tenant (in_status ?s)") auto
  obtain r' where r': "check_and_consume_ingest (ss_now st') demo_tenant 1 10 (be_quota demo_env) (in_counters ?s) = (Inr (), r')" using q by blast
  have env: "be_limit demo_env = Inr 10" "be_publish demo_env = Replied" by (simp_all add: demo_env_def)
  have "\<exists>bid s'. handle_batch demo_env demo_tenant ''agent'' [(''device_id'', ''d'')] req ?s = (Inr (bid, 1), s')"
    using st b r' env by (simp add: handle_batch_def Let_def)
  then show ?thesis using c by (simp add: agent_events_def demo_ingest_def)
qed

theorem ingested_identity_witness:
  "\<exists>bid s' tenant payload. agent_events demo_lib demo_env demo_scope \<lparr>rq_content_length = None, rq_chunks = [''x'']\<rparr> demo_ingest = (Inr (bid, 1), s')
     \<and> in_published s' = [(''pipe:raw'', tenant, payload)]"
proof -
  obtain bid s' where a: "agent_events demo_lib demo_env demo_scope \<lparr>rq_content_length = None, rq_chunks = [''x'']\<rparr> demo_ingest = (Inr (bid, 1), s')"
    using demo_accepted [of "\<lparr>rq_content_length = None, rq_chunks = [''x'']\<rparr>"] by auto
  have "schema_accepts (nl_schema demo_norm) (be_time demo_env)" by (simp add: schema_accepts_def demo_norm_def demo_schema_def)
  from ingested_identity [OF a _ this] a show ?thesis by (auto simp: demo_ingest_def)
qed

subsection \<open>The life of an ingest key\<close>

definition with_keys :: "status_db \<Rightarrow> ingest_state \<Rightarrow> status_db" where
  "with_keys db s = db\<lparr>sd_keys := keys_db (in_keys s)\<rparr>"

definition key_cache_clear :: "ingest_state \<Rightarrow> string \<times> string \<Rightarrow> bool" where
  "key_cache_clear s ti \<longleftrightarrow> ss_cache (in_status s) (ingestkey_key ti) = None"

lemma ingest_key_record_row:
  assumes "ss_cache st (ingestkey_key (t, k)) = None" and "f_pg f" and "sd_keys db (t, k) = Some row"
  shows "fst (ingest_key_record db f t k st) = Inr (Some (key_status row), Some (kr_hash row))"
  using assms by (simp add: ingest_key_record_def cache_get_def redis_get_def split: reply.split)

lemma verify_ingest_key_row:
  assumes "parse_credential ''ik_'' wire = Some \<lparr>credential_id = k, cred_tenant = n, cred_secret = secret\<rparr>"
    and "ss_cache st (ingestkey_key (uuid_str n, k)) = None" and "f_pg f" and "sd_keys db (uuid_str n, k) = Some row"
    and "sha256 secret = kr_hash row"
  shows "fst (verify_ingest_key sha256 db f wire st) = (if kr_revoked_at row = None then Inr (uuid_str n, k) else Inl IngestKeyRevoked)"
proof -
  obtain st' where "ingest_key_record db f (uuid_str n) k st = (Inr (Some (key_status row), Some (kr_hash row)), st')"
    using ingest_key_record_row [OF assms(2-4)] by (cases "ingest_key_record db f (uuid_str n) k st") auto
  then show ?thesis using assms(1,5) by (simp add: verify_ingest_key_def Let_def secret_matches_def key_status_def)
qed

lemma find_key_map:
  assumes "\<And>r. ke_tenant (g r) = ke_tenant r \<and> ke_id (g r) = ke_id r"
  shows "find_key (map g rows) ti = map_option g (find_key rows ti)"
  using assms by (induction rows) (auto simp: find_key_def)

lemma cache_delete_key: "f_del f \<noteq> Refused \<Longrightarrow> ss_cache (cache_delete f k s) k = None"
  by (cases "f_del f") (auto simp: cache_delete_def)

text \<open>A created ingest key works and a revoked one does not. The token shown once to the console is accepted for the key's
  tenant as soon as the row is written, and after the revocation, whatever was cached in between, it is refused as revoked
  at once if the cache entry could be deleted.\<close>

theorem ingest_key_lifecycle:
  assumes create: "create_ingest_key sha256 fr key_id urandom fs who name s = (Inr (kid, wire), s1)"
    and "starts_with key_id ''ik_''" and "CHR ''.'' \<notin> set key_id" and "length key_id \<le> 447"
    and "sp_tenant who < 2 ^ 128" and "length urandom = SECRET_RANDOM_BYTES" and "\<forall>b \<in> set urandom. b < 256"
    and clear: "key_cache_clear s (uuid_str (sp_tenant who), key_id)" and pg: "f_pg f" "f_pg f2"
    and v: "verify_ingest_key sha256 (with_keys db s1) f wire (in_status s1) = (answer, st)"
    and revoke: "revoke_ingest_key fr fr2 who key_id (s1\<lparr>in_status := st\<rparr>) = (Inr (), s2)" and del: "f_del fr2 \<noteq> Refused"
  shows "answer = Inr (uuid_str (sp_tenant who), key_id)
    \<and> fst (verify_ingest_key sha256 (with_keys db s2) f2 wire (in_status s2)) = Inl IngestKeyRevoked"
proof -
  let ?t = "uuid_str (sp_tenant who)"
  obtain secret where tok: "wire_token (mint_secret sha256 urandom key_id (sp_tenant who)) = key_id @ ''.'' @ secret"
    "secret_matches sha256 secret (secret_hash (mint_secret sha256 urandom key_id (sp_tenant who)))"
    "parse_credential ''ik_'' (wire_token (mint_secret sha256 urandom key_id (sp_tenant who)))
      = Some \<lparr>credential_id = key_id, cred_tenant = sp_tenant who, cred_secret = secret\<rparr>"
    using mint_parse [of "sp_tenant who" urandom key_id sha256 "''ik_''"] assms by auto
  define row where "row = \<lparr>kr_hash = secret_hash (mint_secret sha256 urandom key_id (sp_tenant who)), kr_revoked_at = None, ke_id = key_id,
    ke_tenant = ?t, ke_name = name, ke_created_by = sp_user who, ke_created_at = ss_now (in_status s)\<rparr>"
  have s1: "wire = wire_token (mint_secret sha256 urandom key_id (sp_tenant who))" "in_keys s1 = row # in_keys s" "in_status s1 = in_status s"
    using create by (auto simp: create_ingest_key_def Let_def row_def signal_step_def split: sum.splits)
  have parse: "parse_credential ''ik_'' wire = Some \<lparr>credential_id = key_id, cred_tenant = sp_tenant who, cred_secret = secret\<rparr>"
    using tok s1 by simp
  have fk: "find_key (in_keys s1) (?t, key_id) = Some row" by (simp add: s1 find_key_def row_def)
  have hash: "sha256 secret = kr_hash row" using tok(2) by (simp add: secret_matches_def row_def)
  have "answer = Inr (?t, key_id)"
    using verify_ingest_key_row [OF parse, of "in_status s1" f "with_keys db s1" "key_row.truncate row" sha256] v pg clear hash
    by (simp add: s1(3) key_cache_clear_def with_keys_def keys_db_def fk) (simp add: row_def key_row.truncate_def)
  moreover have "fst (verify_ingest_key sha256 (with_keys db s2) f2 wire (in_status s2)) = Inl IngestKeyRevoked"
  proof -
    define g where "g = (\<lambda>r :: key_entry. if ke_tenant r = ?t \<and> ke_id r = key_id \<and> kr_revoked_at r = None
      then r\<lparr>kr_revoked_at := Some (ss_now st)\<rparr> else r)"
    have s2: "in_keys s2 = map g (in_keys s1)" "in_status s2 = invalidate_ingest_key fr2 ?t key_id st"
      using revoke by (auto simp: revoke_ingest_key_def Let_def g_def split: if_splits sum.splits)
    have fk2: "find_key (in_keys s2) (?t, key_id) = Some (row\<lparr>kr_revoked_at := Some (ss_now st)\<rparr>)"
      unfolding s2 by (subst find_key_map) (auto simp: g_def fk row_def)
    have "ss_cache (in_status s2) (ingestkey_key (?t, key_id)) = None"
      using cache_delete_key [OF del] by (simp add: s2 invalidate_ingest_key_def)
    then show ?thesis
      using verify_ingest_key_row [OF parse, of "in_status s2" f2 "with_keys db s2" "key_row.truncate (row\<lparr>kr_revoked_at := Some (ss_now st)\<rparr>)" sha256] pg hash
      by (simp add: with_keys_def keys_db_def fk2) (simp add: row_def key_row.truncate_def)
  qed
  ultimately show ?thesis by blast
qed

definition demo_admin :: session_principal where
  "demo_admin = \<lparr>sp_user = 2, sp_tenant = 1, sp_role = ''admin'', sp_session = ''s'', sp_csrf = ''c''\<rparr>"

lemma demo_audit_ok:
  "\<exists>rows'. write_audit (\<lambda>_. []) (uuid_str 1) (user_actor demo_admin) action \<lparr>ae_type = ''ingest_key'', ae_id = ''ik_1''\<rparr> None after None rows = Inr rows'"
  if "py_strip action \<noteq> []" "after = None \<or> after = Some [(''name'', JStr ''n'')]"
proof -
  have u: "uuid_of (uuid_str 1) = Some 1" by (rule uuid_of_str) simp
  have "uuid_str 2 \<noteq> []" by (simp add: uuid_str_def Let_def)
  then have a: "actor_ok (user_actor demo_admin)" by (simp add: actor_ok_def user_actor_def demo_admin_def)
  have "\<not> is_secret_key ''name''" by code_simp
  then have r: "redact_secrets 0 (JObj [(''name'', JStr ''n'')]) = JObj [(''name'', JStr ''n'')]"
    by (simp add: redact_simps MAX_DEPTH_def is_scalar_def)
  have "length (json_dumps (\<lambda>_. []) (JObj [(''name'', JStr ''n'')])) \<le> 100" by code_simp
  then have "\<exists>x. serialize_audit_value (\<lambda>_. []) after = Inr x"
    using that(2) by (auto simp: serialize_audit_value_def r Let_def MAX_AUDIT_VALUE_BYTES_def)
  moreover have "serialize_audit_value (\<lambda>_. []) None = Inr None" by (simp add: serialize_audit_value_def)
  ultimately show ?thesis using u a that(1) by (auto simp: write_audit_def target_ok_def)
qed

theorem ingest_key_lifecycle_witness:
  "\<exists>wire s1 st s2. create_ingest_key (\<lambda>s. s) (\<lambda>_. []) ''ik_1'' (replicate 32 7) Replied demo_admin ''n'' demo_ingest = (Inr (''ik_1'', wire), s1)
     \<and> revoke_ingest_key (\<lambda>_. []) demo_fates demo_admin ''ik_1'' (s1\<lparr>in_status := st\<rparr>) = (Inr (), s2)
     \<and> fst (verify_ingest_key (\<lambda>s. s) (with_keys (be_db demo_env) s2) demo_fates wire (in_status s2)) = Inl IngestKeyRevoked"
proof -
  have t: "uuid_str (sp_tenant demo_admin) = uuid_str 1" "sp_tenant demo_admin = 1" by (simp_all add: demo_admin_def)
  have strip: "py_strip ''ingest_key.create'' \<noteq> []" "py_strip ''ingest_key.revoke'' \<noteq> []" by code_simp+
  obtain wire s1 where c: "create_ingest_key (\<lambda>s. s) (\<lambda>_. []) ''ik_1'' (replicate 32 7) Replied demo_admin ''n'' demo_ingest = (Inr (''ik_1'', wire), s1)"
    using demo_audit_ok [OF strip(1), of "Some [(''name'', JStr ''n'')]" "in_audit demo_ingest"] by (auto simp: create_ingest_key_def Let_def t)
  have keys: "\<exists>r rs. in_keys s1 = r # rs \<and> ke_tenant r = uuid_str 1 \<and> ke_id r = ''ik_1'' \<and> kr_revoked_at r = None"
    using c by (auto simp: create_ingest_key_def Let_def t signal_step_def split: sum.splits)
  obtain answer st where v: "verify_ingest_key (\<lambda>s. s) (with_keys (be_db demo_env) s1) demo_fates wire (in_status s1) = (answer, st)" by fastforce
  obtain s2 where r: "revoke_ingest_key (\<lambda>_. []) demo_fates demo_admin ''ik_1'' (s1\<lparr>in_status := st\<rparr>) = (Inr (), s2)"
    using demo_audit_ok [OF strip(2), of None "in_audit s1"] keys by (auto simp: revoke_ingest_key_def Let_def t)
  have "fst (verify_ingest_key (\<lambda>s. s) (with_keys (be_db demo_env) s2) demo_fates wire (in_status s2)) = Inl IngestKeyRevoked"
    using ingest_key_lifecycle [OF c _ _ _ _ _ _ _ _ _ v r]
    by (simp add: t starts_with_def SECRET_RANDOM_BYTES_def key_cache_clear_def demo_ingest_def demo_server_def demo_fates_def)
  with c r show ?thesis by blast
qed

subsection \<open>Findings\<close>

lemma bump_usage_adds:
  assumes "k = usage_key utc_day t (now div SECONDS_PER_DAY) metric"
  shows "redis_get now k (Quotas.bump_usage utc_day now t metric n (\<lambda>_. Replied) r)
    = Some ((case redis_get now k r of None \<Rightarrow> 0 | Some v \<Rightarrow> v) + int n)"
proof -
  obtain v e where v: "redis_incrby now k (int n) r = (v + int n, r(k \<mapsto> (v + int n, e)))" "\<forall>x. e = Some x \<longrightarrow> now < x"
      "(case redis_get now k r of None \<Rightarrow> 0 | Some v \<Rightarrow> v) = v"
  proof (cases "redis_get now k r")
    case None
    then show thesis by (intro that [of 0 None]) (simp_all add: redis_incrby_def)
  next
    case (Some v)
    obtain e where "r k = Some (v, e)" "\<forall>x. e = Some x \<longrightarrow> now < x" by (rule redis_get_SomeE [OF Some])
    then show thesis using Some by (intro that [of v e]) (simp_all add: redis_incrby_live)
  qed
  have "redis_expire now k USAGE_TTL (r(k \<mapsto> (v + int n, e))) = r(k \<mapsto> (v + int n, Some (now + USAGE_TTL)))"
    using redis_expire_live [of "r(k \<mapsto> (v + int n, e))" k "v + int n" e now] v(2) by simp
  then show ?thesis using v by (simp add: Quotas.bump_usage_def flip: assms) (simp add: USAGE_TTL_def)
qed

text \<open>An accepted batch already adds its events to the counter \<^verbatim>\<open>events_accepted\<close> of the day; the normalizer adds every stored
  event to the same counter again (\<open>batch_effects\<close>). It also signals the step \<^verbatim>\<open>first_event\<close> in the hash where the normalizer
  would set it: the normalizer then finds the field and never writes the onboarding row.\<close>

lemma accepted_counts_and_signals:
  assumes "handle_batch env tenant st ctx req s = (Inr (bid, n), s')" and "0 < n" and "be_usage env = (\<lambda>_. Replied)" and "be_signal env \<noteq> Refused"
  shows "(tenant, ''first_event'') \<in> set (in_signals s')
    \<and> (\<exists>now v. redis_get now (usage_key (be_utc_day env) tenant (now div SECONDS_PER_DAY) ''events_accepted'') (in_counters s') = Some (v + int n))"
proof (cases rule: handle_batch_cases [of env tenant s st ctx req])
  case (consumed st' events limit r)
  then have p: "be_publish env = Replied" "n = length events" using assms(1,2) by (cases "be_publish env"; auto simp: Let_def)+
  have "in_counters s' = Quotas.bump_usage (be_utc_day env) (ss_now st') tenant ''events_accepted'' n (\<lambda>_. Replied) r"
    using consumed assms p by (auto simp: Let_def)
  moreover have "(tenant, ''first_event'') \<in> set (in_signals s')" using consumed assms p by (auto simp: Let_def signal_step_def)
  ultimately show ?thesis using bump_usage_adds [OF refl, of "ss_now st'" "be_utc_day env" tenant "''events_accepted''" n r] by auto
qed (use assms in auto)

lemma first_event_not_recorded: "tenant \<in> set (ns_first_event s) \<Longrightarrow> mark_first_event tenant s = s"
  by (simp add: mark_first_event_def)

end
