(* ===== verification/Enrollment.thy ===== *)
theory Enrollment
  imports Ingest_Api Assets
begin

section \<open>Device enrollment\<close>

text \<open>
  \<^verbatim>\<open>dataplane/api/enrollment.py\<close>: enrollment tokens, the enrollment of a device with its checks in their order, heartbeats, renewal
  of a certificate and revocation, over the asset tables of \<open>Assets\<close>. What \<^verbatim>\<open>core/ca.py\<close> does with cryptography is an
  argument: \<open>ee_csr\<close> maps a certificate request to the fingerprint of its key, or to \<open>None\<close> for a \<^verbatim>\<open>CsrError\<close>, and the serial of the
  issued certificate is given. Ids are arguments. Each database transaction is one step; the advisory lock of the enrollment makes
  its cap check and its inserts one transaction at a time per tenant. Times are seconds, in the asset tables microseconds.
\<close>

datatype enroll_error =
    EnrollAccess access_error | EnrollQuota quota_error | TokenInvalid | TokenRevoked | TokenExpired | CsrInvalid
  | EnrollNoEntitlements ent_error | EndpointCapReached | DbFailure | EnrollAudit audit_error | TokenNotFound | DeviceNotFound

record token_row =
  tk_id :: string
  tk_tenant :: string
  tk_name :: string
  tk_hash :: string
  tk_expires_at :: nat
  tk_revoked_at :: "nat option"
  tk_count :: nat
  tk_last :: "nat option"
  tk_created_at :: nat

record device_info = Access.device_row +
  di_fingerprint :: string
  di_issued_at :: nat
  di_expires_at :: nat
  di_token :: string
  di_ip :: string
  di_hostname :: string
  di_agent_version :: string
  di_heartbeat_at :: "nat option"
  di_revoked_at :: "nat option"

record enroll_db =
  ed_tokens :: "token_row list"
  ed_devices :: "((string \<times> string) \<times> device_info) list"
  ed_inventory :: asset_db
  ed_audit :: "audit_record list"

record enroll_state =
  en_db :: enroll_db
  en_status :: status_server
  en_counters :: "int redis"
  en_published :: "(string \<times> string \<times> obj) list"
  en_signals :: "(string \<times> string) list"

definition devices_db :: "enroll_db \<Rightarrow> string \<times> string \<Rightarrow> Access.device_row option" where
  "devices_db db ti = map_option Access.device_row.truncate (map_of (ed_devices db) ti)"

definition micros :: "nat \<Rightarrow> int" where
  "micros t = int t * 1000000"

definition billable_window_days :: int where "billable_window_days = 30"

definition cert_lifetime :: nat where "cert_lifetime = 90 * 86400"

subsection \<open>Enrollment tokens\<close>

definition create_enrollment_token ::
  "(string \<Rightarrow> string) \<Rightarrow> (rat \<Rightarrow> string) \<Rightarrow> (nat \<Rightarrow> string) \<Rightarrow> string \<Rightarrow> nat list \<Rightarrow> Access.session_principal \<Rightarrow> string \<Rightarrow> nat option \<Rightarrow> enroll_state
     \<Rightarrow> (enroll_error + (string \<times> string \<times> nat)) \<times> enroll_state" where
  "create_enrollment_token sha256 fr isoformat token_id urandom who name expires_in_hours s =
     (let tenant = uuid_str (sp_tenant who); now = ss_now (en_status s); db = en_db s;
          hours = (case expires_in_hours of Some h \<Rightarrow> if h = 0 then 72 else h | None \<Rightarrow> 72);
          expires_at = now + hours * 3600;
          minted = mint_secret sha256 urandom token_id (sp_tenant who);
          row = \<lparr>tk_id = token_id, tk_tenant = tenant, tk_name = name, tk_hash = secret_hash minted, tk_expires_at = expires_at,
                 tk_revoked_at = None, tk_count = 0, tk_last = None, tk_created_at = now\<rparr> in
      if token_id \<in> tk_id ` set (ed_tokens db) \<or> secret_hash minted \<in> tk_hash ` set (ed_tokens db) then (Inl DbFailure, s)
      else case Audit_Log.write_audit fr tenant (user_actor who) ''enrollment_token.create'' \<lparr>ae_type = ''enrollment_token'', ae_id = token_id\<rparr>
                  None (Some [(''name'', JStr name), (''expires_at'', JStr (isoformat expires_at))]) None (ed_audit db) of
        Inl e \<Rightarrow> (Inl (EnrollAudit e), s)
      | Inr audit \<Rightarrow>
          (Inr (token_id, wire_token minted, expires_at), s\<lparr>en_db := db\<lparr>ed_tokens := row # ed_tokens db, ed_audit := audit\<rparr>\<rparr>))"

definition list_enrollment_tokens :: "Access.session_principal \<Rightarrow> enroll_state \<Rightarrow> token_row list" where
  "list_enrollment_tokens who s =
     rev (sort_key tk_created_at (rev (filter (\<lambda>r. tk_tenant r = uuid_str (sp_tenant who)) (ed_tokens (en_db s)))))"

definition revoke_enrollment_token ::
  "(rat \<Rightarrow> string) \<Rightarrow> Access.session_principal \<Rightarrow> string \<Rightarrow> enroll_state \<Rightarrow> (enroll_error + unit) \<times> enroll_state" where
  "revoke_enrollment_token fr who token_id s =
     (let tenant = uuid_str (sp_tenant who); db = en_db s;
          hit = (\<lambda>r. tk_tenant r = tenant \<and> tk_id r = token_id \<and> tk_revoked_at r = None) in
      if \<not> list_ex hit (ed_tokens db) then (Inl TokenNotFound, s)
      else case Audit_Log.write_audit fr tenant (user_actor who) ''enrollment_token.revoke'' \<lparr>ae_type = ''enrollment_token'', ae_id = token_id\<rparr>
                  None None None (ed_audit db) of
        Inl e \<Rightarrow> (Inl (EnrollAudit e), s)
      | Inr audit \<Rightarrow>
          (Inr (), s\<lparr>en_db := db\<lparr>ed_tokens := map (\<lambda>r. if hit r then r\<lparr>tk_revoked_at := Some (ss_now (en_status s))\<rparr> else r) (ed_tokens db),
                                ed_audit := audit\<rparr>\<rparr>))"

subsection \<open>Enroll\<close>

record host_info =
  ho_hostname :: string
  ho_os_family :: string
  ho_os_name :: string
  ho_os_version :: string
  ho_ip :: "string option"
  ho_mac :: "string option"

record enroll_body =
  eb_token :: string
  eb_csr :: string
  eb_host :: host_info
  eb_agent_version :: string

record enroll_env =
  ee_sha256 :: "string \<Rightarrow> string"
  ee_repr :: "rat \<Rightarrow> string"
  ee_inet_ok :: "string \<Rightarrow> bool"
  ee_csr :: "string \<Rightarrow> string option"
  ee_tenants :: status_db
  ee_cap :: "ent_error + int"
  ee_device :: string
  ee_serial :: string
  ee_asset :: string
  ee_identity :: string
  ee_time :: string
  ee_rate_ip :: "nat \<Rightarrow> reply"
  ee_rate_token :: "nat \<Rightarrow> reply"
  ee_fates :: fates
  ee_publish :: reply
  ee_signal :: reply

definition client_ip :: "string option \<Rightarrow> string option \<Rightarrow> string" where
  "client_ip forwarded client_host =
     (case Option.bind forwarded nonempty of
        Some f \<Rightarrow> py_strip (hd (py_split (CHR '','') f))
      | None \<Rightarrow> (case client_host of Some h \<Rightarrow> h | None \<Rightarrow> ''unknown''))"

definition enroll_rate_limit_per_ip :: int where "enroll_rate_limit_per_ip = 10"

definition enroll_rate_limit_per_token :: int where "enroll_rate_limit_per_token = 30"

text \<open>The row the token names, if the secret is right and the token is still good.\<close>

definition check_token :: "enroll_env \<Rightarrow> nat \<Rightarrow> parsed_credential \<Rightarrow> enroll_db \<Rightarrow> enroll_error + token_row" where
  "check_token env now parsed db =
     (case find (\<lambda>r. tk_tenant r = uuid_str (cred_tenant parsed) \<and> tk_id r = credential_id parsed) (ed_tokens db) of
        None \<Rightarrow> Inl TokenInvalid
      | Some row \<Rightarrow>
          if \<not> secret_matches (ee_sha256 env) (cred_secret parsed) (tk_hash row) then Inl TokenInvalid
          else if tk_revoked_at row \<noteq> None then Inl TokenRevoked
          else if tk_expires_at row \<le> now then Inl TokenExpired
          else Inr row)"

definition new_asset_row :: "enroll_env \<Rightarrow> string \<Rightarrow> host_info \<Rightarrow> nat \<Rightarrow> asset_row" where
  "new_asset_row env tenant host now =
     \<lparr>as_id = ee_asset env, as_tenant = tenant, as_hostname = Some (ho_hostname host), as_os_family = Some (ho_os_family host),
      as_os_name = Some (ho_os_name host), as_os_version = Some (ho_os_version host), as_ip = ho_ip host, as_mac = ho_mac host,
      as_sources = [''agent''], as_agent_status = ''enrolled'', as_billable = False, as_state = Active, as_merged_into = None,
      as_dedup_rule = Some ''device_id_match'', as_created_via = ''agent_enrollment'', as_first_seen = micros now, as_last_seen = micros now\<rparr>"

definition new_identity_row :: "enroll_env \<Rightarrow> string \<Rightarrow> nat \<Rightarrow> identity_row" where
  "new_identity_row env tenant now =
     \<lparr>id_id = ee_identity env, id_tenant = tenant, id_asset = ee_asset env, id_source = ''agent'', id_type = ''device_id'',
      id_value = ee_device env, id_first_seen = micros now, id_last_seen = micros now\<rparr>"

definition new_device :: "enroll_env \<Rightarrow> string \<Rightarrow> string \<Rightarrow> string \<Rightarrow> enroll_body \<Rightarrow> nat \<Rightarrow> device_info" where
  "new_device env fingerprint token_id ip body now =
     \<lparr>dr_status = ''active'', dr_cert_serial = ee_serial env, dr_prev_serial = None, dr_rotated_at = None, di_fingerprint = fingerprint,
      di_issued_at = now, di_expires_at = now + cert_lifetime, di_token = token_id, di_ip = ip, di_hostname = ho_hostname (eb_host body),
      di_agent_version = eb_agent_version body, di_heartbeat_at = None, di_revoked_at = None\<rparr>"

text \<open>The constraints of the inserts: primary keys, one identity per identifier, one device per key, an \<^verbatim>\<open>inet\<close> address.\<close>

definition enroll_conflict :: "enroll_env \<Rightarrow> string \<Rightarrow> string \<Rightarrow> string \<Rightarrow> enroll_db \<Rightarrow> bool" where
  "enroll_conflict env tenant fingerprint ip db =
     (ee_asset env \<in> as_id ` set (ad_assets (ed_inventory db))
      \<or> ee_identity env \<in> id_id ` set (ad_identities (ed_inventory db))
      \<or> (tenant, ''device_id'', ee_device env) \<in> ident_key ` set (ad_identities (ed_inventory db))
      \<or> ee_device env \<in> snd ` fst ` set (ed_devices db)
      \<or> fingerprint \<in> (\<lambda>d. di_fingerprint (snd d)) ` set (ed_devices db)
      \<or> \<not> ee_inet_ok env ip)"

definition enroll_after :: "enroll_env \<Rightarrow> string \<Rightarrow> string \<Rightarrow> enroll_body \<Rightarrow> obj" where
  "enroll_after env token_id ip body =
     [(''enrollment_token_id'', JStr token_id), (''source_ip'', JStr ip), (''claimed_hostname'', JStr (ho_hostname (eb_host body))),
      (''agent_version'', JStr (eb_agent_version body)), (''cert_serial'', JStr (ee_serial env))]"

definition enroll_tx :: "enroll_env \<Rightarrow> int \<Rightarrow> string \<Rightarrow> string \<Rightarrow> string \<Rightarrow> string \<Rightarrow> enroll_body \<Rightarrow> nat \<Rightarrow> enroll_db \<Rightarrow> enroll_error + enroll_db" where
  "enroll_tx env endpoint_cap tenant token_id ip fingerprint body now db =
     (if int (billable_count tenant billable_window_days (micros now) (ed_inventory db)) \<ge> endpoint_cap then Inl EndpointCapReached
      else if enroll_conflict env tenant fingerprint ip db then Inl DbFailure
      else case Audit_Log.write_audit (ee_repr env) tenant \<lparr>ae_type = ''device'', ae_id = ee_device env\<rparr> ''device.enroll''
                  \<lparr>ae_type = ''device'', ae_id = ee_device env\<rparr> None (Some (enroll_after env token_id ip body)) None (ed_audit db) of
        Inl e \<Rightarrow> Inl (EnrollAudit e)
      | Inr audit \<Rightarrow>
          let inv = ed_inventory db in
          Inr (db\<lparr>ed_tokens := map (\<lambda>r. if tk_tenant r = tenant \<and> tk_id r = token_id
                                         then r\<lparr>tk_count := tk_count r + 1, tk_last := Some now\<rparr> else r) (ed_tokens db),
                 ed_devices := ((tenant, ee_device env), new_device env fingerprint token_id ip body now) # ed_devices db,
                 ed_inventory := inv\<lparr>ad_assets := ad_assets inv @ [new_asset_row env tenant (eb_host body) now],
                                     ad_identities := ad_identities inv @ [new_identity_row env tenant now],
                                     ad_devices := ad_devices inv @ [\<lparr>dv_id = ee_device env, dv_tenant = tenant, dv_asset = ee_asset env\<rparr>]\<rparr>,
                 ed_audit := audit\<rparr>))"

definition opt_json :: "string option \<Rightarrow> json" where
  "opt_json x = (case x of None \<Rightarrow> JNull | Some v \<Rightarrow> JStr v)"

definition enroll_observation :: "enroll_env \<Rightarrow> enroll_body \<Rightarrow> obj" where
  "enroll_observation env body =
     (let host = eb_host body in
      [(''observed_at'', JStr (ee_time env)), (''source'', JStr ''agent''), (''hostname'', JStr (ho_hostname host)),
       (''os_family'', JStr (ho_os_family host)), (''os_name'', JStr (ho_os_name host)), (''os_version'', JStr (ho_os_version host)),
       (''ip'', opt_json (ho_ip host)), (''mac'', opt_json (ho_mac host)), (''device_id'', JStr (ee_device env)),
       (''agent_version'', JStr (eb_agent_version body))])"

definition enroll :: "enroll_env \<Rightarrow> string \<Rightarrow> enroll_body \<Rightarrow> enroll_state \<Rightarrow> (enroll_error + (string \<times> string \<times> nat)) \<times> enroll_state" where
  "enroll env ip body s =
     (let now = ss_now (en_status s) in
      case check_rate_limit now (''rl:enroll:ip:'' @ ip) enroll_rate_limit_per_ip (ee_rate_ip env) (en_counters s) of
        (Inl e, r) \<Rightarrow> (Inl (EnrollQuota e), s\<lparr>en_counters := r\<rparr>)
      | (Inr _, r) \<Rightarrow>
          let s1 = s\<lparr>en_counters := r\<rparr> in
          (case parse_credential ''et_'' (eb_token body) of
             None \<Rightarrow> (Inl TokenInvalid, s1)
           | Some parsed \<Rightarrow>
               let tenant = uuid_str (cred_tenant parsed); token_id = credential_id parsed in
               (case check_rate_limit now (''rl:enroll:token:'' @ tenant @ '':'' @ token_id) enroll_rate_limit_per_token (ee_rate_token env) r of
                  (Inl e, r2) \<Rightarrow> (Inl (EnrollQuota e), s1\<lparr>en_counters := r2\<rparr>)
                | (Inr _, r2) \<Rightarrow>
                    let s2 = s1\<lparr>en_counters := r2\<rparr> in
                    (case check_token env now parsed (en_db s) of
                       Inl e \<Rightarrow> (Inl e, s2)
                     | Inr _ \<Rightarrow>
                         (case require_writes_allowed (ee_tenants env) (ee_fates env) tenant (en_status s2) of
                            (Inl e, st) \<Rightarrow> (Inl (EnrollAccess e), s2\<lparr>en_status := st\<rparr>)
                          | (Inr _, st) \<Rightarrow>
                              let s3 = s2\<lparr>en_status := st\<rparr> in
                              (case ee_csr env (eb_csr body) of
                                 None \<Rightarrow> (Inl CsrInvalid, s3)
                               | Some fingerprint \<Rightarrow>
                                   (case ee_cap env of
                                      Inl e \<Rightarrow> (Inl (EnrollNoEntitlements e), s3)
                                    | Inr endpoint_cap \<Rightarrow>
                                        (case enroll_tx env endpoint_cap tenant token_id ip fingerprint body now (en_db s3) of
                                           Inl e \<Rightarrow> (Inl e, s3)
                                         | Inr db \<Rightarrow>
                                             (Inr (ee_device env, ee_serial env, now + cert_lifetime),
                                              s3\<lparr>en_db := db,
                                                 en_published := (if ee_publish env = Refused then en_published s3
                                                   else en_published s3 @ [(''pipe:asset.observations'', tenant, enroll_observation env body)]),
                                                 en_signals := (if ee_signal env = Refused \<or> (tenant, ''install_agent'') \<in> set (en_signals s3) then en_signals s3
                                                   else (tenant, ''install_agent'') # en_signals s3)\<rparr>))))))))) "

subsection \<open>Heartbeat, renewal and revocation\<close>

text \<open>An update of the device row of a tenant, if it is active.\<close>

definition active_device :: "string \<times> string \<Rightarrow> enroll_db \<Rightarrow> device_info option" where
  "active_device ti db = (case map_of (ed_devices db) ti of Some d \<Rightarrow> if dr_status d = ''active'' then Some d else None | None \<Rightarrow> None)"

definition put_device :: "string \<times> string \<Rightarrow> device_info \<Rightarrow> enroll_db \<Rightarrow> enroll_db" where
  "put_device ti d db = db\<lparr>ed_devices := map (\<lambda>(k, d0). (k, if k = ti then d else d0)) (ed_devices db)\<rparr>"

definition device_asset :: "string \<times> string \<Rightarrow> enroll_db \<Rightarrow> string option" where
  "device_asset ti db = map_option dv_asset (find (\<lambda>r. dv_tenant r = fst ti \<and> dv_id r = snd ti) (ad_devices (ed_inventory db)))"

definition update_asset_of :: "string \<Rightarrow> string option \<Rightarrow> (asset_row \<Rightarrow> bool) \<Rightarrow> (asset_row \<Rightarrow> asset_row) \<Rightarrow> enroll_db \<Rightarrow> enroll_db" where
  "update_asset_of tenant a p g db =
     db\<lparr>ed_inventory := (ed_inventory db)\<lparr>ad_assets :=
       map (\<lambda>r. if as_tenant r = tenant \<and> Some (as_id r) = a \<and> p r then g r else r) (ad_assets (ed_inventory db))\<rparr>\<rparr>"

definition heartbeat :: "string \<Rightarrow> string \<Rightarrow> string \<Rightarrow> enroll_state \<Rightarrow> (enroll_error + unit) \<times> enroll_state" where
  "heartbeat tenant device_id agent_version s =
     (let now = ss_now (en_status s); db = en_db s in
      case active_device (tenant, device_id) db of
        None \<Rightarrow> (Inl (EnrollAccess DeviceRevoked), s)
      | Some d \<Rightarrow>
          (Inr (), s\<lparr>en_db := update_asset_of tenant (device_asset (tenant, device_id) db) (\<lambda>r. as_agent_status r \<noteq> ''revoked'')
              (\<lambda>r. r\<lparr>as_agent_status := ''healthy'', as_last_seen := micros now\<rparr>)
              (put_device (tenant, device_id) (d\<lparr>di_heartbeat_at := Some now, di_agent_version := agent_version\<rparr>) db)\<rparr>))"

definition renew_credential ::
  "(rat \<Rightarrow> string) \<Rightarrow> (string \<Rightarrow> string option) \<Rightarrow> string \<Rightarrow> fates \<Rightarrow> string \<Rightarrow> string \<Rightarrow> string \<Rightarrow> enroll_state \<Rightarrow> (enroll_error + nat) \<times> enroll_state" where
  "renew_credential fr csr_fingerprint serial f tenant device_id csr s =
     (let now = ss_now (en_status s); db = en_db s in
      case csr_fingerprint csr of
        None \<Rightarrow> (Inl CsrInvalid, s)
      | Some fingerprint \<Rightarrow>
          (case active_device (tenant, device_id) db of
             None \<Rightarrow> (Inl (EnrollAccess DeviceRevoked), s)
           | Some d \<Rightarrow>
               if fingerprint \<in> (\<lambda>x. di_fingerprint (snd x)) ` set (filter (\<lambda>x. fst x \<noteq> (tenant, device_id)) (ed_devices db))
               then (Inl DbFailure, s)
               else case Audit_Log.write_audit fr tenant \<lparr>ae_type = ''device'', ae_id = device_id\<rparr> ''device.renew_credential''
                           \<lparr>ae_type = ''device'', ae_id = device_id\<rparr> (Some [(''cert_serial'', JStr (dr_cert_serial d))])
                           (Some [(''cert_serial'', JStr serial)]) None (ed_audit db) of
                 Inl e \<Rightarrow> (Inl (EnrollAudit e), s)
               | Inr audit \<Rightarrow>
                   (Inr (now + cert_lifetime),
                    s\<lparr>en_db := (put_device (tenant, device_id)
                          (d\<lparr>dr_prev_serial := Some (dr_cert_serial d), dr_rotated_at := Some now, dr_cert_serial := serial,
                             di_issued_at := now, di_expires_at := now + cert_lifetime, di_fingerprint := fingerprint\<rparr>) db)\<lparr>ed_audit := audit\<rparr>,
                      en_status := invalidate_device f tenant device_id (en_status s)\<rparr>)))"

definition revoke_device ::
  "(rat \<Rightarrow> string) \<Rightarrow> fates \<Rightarrow> Access.session_principal \<Rightarrow> string \<Rightarrow> enroll_state \<Rightarrow> (enroll_error + nat option) \<times> enroll_state" where
  "revoke_device fr f who device_id s =
     (let tenant = uuid_str (sp_tenant who); now = ss_now (en_status s); db = en_db s in
      case active_device (tenant, device_id) db of
        None \<Rightarrow>
          (case map_of (ed_devices db) (tenant, device_id) of
             None \<Rightarrow> (Inl DeviceNotFound, s)
           | Some d \<Rightarrow> (Inr (di_revoked_at d), s))
      | Some d \<Rightarrow>
          (case Audit_Log.write_audit fr tenant (user_actor who) ''device.revoke'' \<lparr>ae_type = ''device'', ae_id = device_id\<rparr>
                  None (Some [(''status'', JStr ''revoked'')]) None (ed_audit db) of
             Inl e \<Rightarrow> (Inl (EnrollAudit e), s)
           | Inr audit \<Rightarrow>
               (Inr None,
                s\<lparr>en_db := (update_asset_of tenant (device_asset (tenant, device_id) db) (\<lambda>_. True)
                      (\<lambda>r. r\<lparr>as_agent_status := ''revoked'', as_billable := False\<rparr>)
                      (put_device (tenant, device_id) (d\<lparr>dr_status := ''revoked'', di_revoked_at := Some now\<rparr>) db))\<lparr>ed_audit := audit\<rparr>,
                  en_status := invalidate_device f tenant device_id (en_status s)\<rparr>)))"

subsection \<open>The endpoint cap\<close>

lemma enroll_Inl: "enroll env ip body s = (Inl e, s') \<Longrightarrow> en_db s' = en_db s"
  unfolding enroll_def Let_def
  by (auto split: prod.splits sum.splits option.splits)

lemma enroll_Inr:
  assumes "enroll env ip body s = (Inr resp, s')"
  obtains parsed row fingerprint cap where "parse_credential ''et_'' (eb_token body) = Some parsed"
    "check_token env (ss_now (en_status s)) parsed (en_db s) = Inr row" "ee_csr env (eb_csr body) = Some fingerprint" "ee_cap env = Inr cap"
    "enroll_tx env cap (uuid_str (cred_tenant parsed)) (credential_id parsed) ip fingerprint body (ss_now (en_status s)) (en_db s) = Inr (en_db s')"
    "resp = (ee_device env, ee_serial env, ss_now (en_status s) + cert_lifetime)"
    "\<exists>f s2 st. require_writes_allowed (ee_tenants env) (ee_fates env) (uuid_str (cred_tenant parsed)) (en_status s) = (Inr (), st) \<and> en_status s' = st"
  using assms unfolding enroll_def Let_def
  by (auto split: prod.splits sum.splits option.splits)

lemma billable_count_snoc:
  assumes "as_tenant row = tenant" and "as_state row = Active" and "as_agent_status row \<noteq> ''revoked''" and "now - days * 86400000000 \<le> as_last_seen row"
  shows "billable_count t days now (db\<lparr>ad_assets := ad_assets db @ [row], ad_identities := x, ad_devices := y\<rparr>)
    = billable_count t days now db + (if t = tenant then 1 else 0)"
  using assms by (simp add: billable_count_def visible_def)

lemma inventory_ok_enroll:
  assumes ok: "inventory_ok adb" and row: "as_id row \<notin> as_id ` set (ad_assets adb)" "as_state row = Active"
    and i: "id_tenant i = as_tenant row" "id_asset i = as_id row" "id_value i \<noteq> []" "id_id i \<notin> id_id ` set (ad_identities adb)"
      "ident_key i \<notin> ident_key ` set (ad_identities adb)"
  shows "inventory_ok (adb\<lparr>ad_assets := ad_assets adb @ [row], ad_identities := ad_identities adb @ [i], ad_devices := d\<rparr>)"
proof -
  have mono: "asset_active (ad_assets adb) t a \<Longrightarrow> asset_active (ad_assets adb @ [row]) t a" for t a by (auto simp: asset_active_def)
  have new: "asset_active (ad_assets adb @ [row]) (id_tenant i) (id_asset i)" using row i by (auto simp: asset_active_def)
  show ?thesis using ok row i mono new by (auto simp: inventory_ok_def idents_ok_def pins_ok_def)
qed

lemma enroll_tx_effects:
  assumes "enroll_tx env cap tenant token_id ip fingerprint body now db = Inr db'" and "inventory_ok (ed_inventory db)" and "ee_device env \<noteq> []"
  shows "int (billable_count tenant billable_window_days (micros now) (ed_inventory db)) < cap"
    and "billable_count t billable_window_days (micros now) (ed_inventory db')
      = billable_count t billable_window_days (micros now) (ed_inventory db) + (if t = tenant then 1 else 0)"
    and "inventory_ok (ed_inventory db')"
    and "identity_lookup tenant ''device_id'' (ee_device env) (ed_inventory db') = Some (ee_asset env)"
    and "ed_devices db' = ((tenant, ee_device env), new_device env fingerprint token_id ip body now) # ed_devices db"
proof -
  let ?inv = "ed_inventory db"
  have ncf: "\<not> enroll_conflict env tenant fingerprint ip db"
    and cap: "int (billable_count tenant billable_window_days (micros now) ?inv) < cap"
    using assms(1) by (auto simp: enroll_tx_def split: if_splits)
  have inv': "ed_inventory db' = ?inv\<lparr>ad_assets := ad_assets ?inv @ [new_asset_row env tenant (eb_host body) now],
      ad_identities := ad_identities ?inv @ [new_identity_row env tenant now],
      ad_devices := ad_devices ?inv @ [\<lparr>dv_id = ee_device env, dv_tenant = tenant, dv_asset = ee_asset env\<rparr>]\<rparr>"
    and "ed_devices db' = ((tenant, ee_device env), new_device env fingerprint token_id ip body now) # ed_devices db"
    using assms(1) by (auto simp: enroll_tx_def Let_def split: if_splits sum.splits)
  show "int (billable_count tenant billable_window_days (micros now) ?inv) < cap" by (rule cap)
  show "ed_devices db' = ((tenant, ee_device env), new_device env fingerprint token_id ip body now) # ed_devices db" by fact
  show "billable_count t billable_window_days (micros now) (ed_inventory db')
      = billable_count t billable_window_days (micros now) ?inv + (if t = tenant then 1 else 0)"
    unfolding inv' by (rule billable_count_snoc) (simp_all add: new_asset_row_def billable_window_days_def)
  show ok': "inventory_ok (ed_inventory db')"
    unfolding inv' using ncf assms(3)
    by (intro inventory_ok_enroll [OF assms(2)]) (auto simp: new_asset_row_def new_identity_row_def enroll_conflict_def ident_key_def)
  show "identity_lookup tenant ''device_id'' (ee_device env) (ed_inventory db') = Some (ee_asset env)"
    using ok' identity_lookup_iff [of "ad_assets (ed_inventory db')" "ed_inventory db'" tenant "''device_id''" "ee_device env" "ee_asset env"]
    by (simp add: inventory_ok_def) (simp add: inv' new_identity_row_def ident_key_def)
qed

text \<open>C37: Enrollment respects the endpoint cap and is all or nothing. If it succeeds, the token was known, unrevoked and unexpired
  with the presented secret, the tenant had fewer billable endpoints than its cap, and it has exactly one more afterwards, so
  never more than the cap; every other tenant keeps its count, the inventory stays consistent, and the new device is bound to
  its own asset. If it fails, whatever the reason, no table has changed.\<close>

theorem enroll_respects_cap:
  assumes "enroll env ip body s = (out, s')" and "inventory_ok (ed_inventory (en_db s))" and "ee_device env \<noteq> []"
  shows "case out of
      Inl e \<Rightarrow> en_db s' = en_db s
    | Inr resp \<Rightarrow> \<exists>parsed row cap. parse_credential ''et_'' (eb_token body) = Some parsed \<and> row \<in> set (ed_tokens (en_db s))
        \<and> tk_tenant row = uuid_str (cred_tenant parsed) \<and> tk_hash row = ee_sha256 env (cred_secret parsed)
        \<and> tk_revoked_at row = None \<and> ss_now (en_status s) < tk_expires_at row \<and> ee_cap env = Inr cap
        \<and> int (billable_count (tk_tenant row) billable_window_days (micros (ss_now (en_status s))) (ed_inventory (en_db s'))) \<le> cap
        \<and> (\<forall>t. billable_count t billable_window_days (micros (ss_now (en_status s))) (ed_inventory (en_db s'))
             = billable_count t billable_window_days (micros (ss_now (en_status s))) (ed_inventory (en_db s)) + (if t = tk_tenant row then 1 else 0))
        \<and> inventory_ok (ed_inventory (en_db s'))
        \<and> identity_lookup (tk_tenant row) ''device_id'' (ee_device env) (ed_inventory (en_db s')) = Some (ee_asset env)"
proof (cases out)
  case (Inl e)
  then show ?thesis using enroll_Inl assms(1) by simp
next
  case (Inr resp)
  obtain parsed row fingerprint cap where p: "parse_credential ''et_'' (eb_token body) = Some parsed"
    "check_token env (ss_now (en_status s)) parsed (en_db s) = Inr row" "ee_cap env = Inr cap"
    "enroll_tx env cap (uuid_str (cred_tenant parsed)) (credential_id parsed) ip fingerprint body (ss_now (en_status s)) (en_db s) = Inr (en_db s')"
    using enroll_Inr assms(1) unfolding Inr by metis
  have row: "row \<in> set (ed_tokens (en_db s))" "tk_tenant row = uuid_str (cred_tenant parsed)" "tk_hash row = ee_sha256 env (cred_secret parsed)"
    "tk_revoked_at row = None" "ss_now (en_status s) < tk_expires_at row"
    using p(2) by (auto simp: check_token_def secret_matches_def find_Some_iff split: option.splits if_splits)
  note eff = enroll_tx_effects [OF p(4) assms(2,3)]
  have "int (billable_count (tk_tenant row) billable_window_days (micros (ss_now (en_status s))) (ed_inventory (en_db s'))) \<le> cap"
    using eff(1) eff(2) [of "tk_tenant row"] row(2) by simp
  then show ?thesis unfolding Inr sum.case
    by (intro exI [of _ parsed] exI [of _ row] exI [of _ cap]) (use p row eff in simp)
qed

subsection \<open>The life of a device credential\<close>

definition with_devices :: "status_db \<Rightarrow> enroll_state \<Rightarrow> status_db" where
  "with_devices db s = db\<lparr>sd_devices := devices_db (en_db s)\<rparr>"

lemma device_record_row:
  assumes "ss_cache st (device_key (t, d)) = None" and "f_pg f" and "sd_devices db (t, d) = Some row"
  shows "fst (device_record lib db f t d st) = Inr (Some (device_of_row row))"
  using assms by (simp add: device_record_def cache_get_def redis_get_def Let_def split: reply.split)

lemma verify_device_row:
  assumes "ss_cache st (device_key (t, d)) = None" and "f_pg f" and "sd_devices db (t, d) = Some row"
  shows "fst (verify_device lib db f t d presented st) =
    (if dr_status row \<noteq> ''active'' then Inl DeviceRevoked
     else case presented of
       None \<Rightarrow> Inl DeviceIdentityInvalid
     | Some p \<Rightarrow> if p = [] \<or> \<not> serial_ok (ss_now st) (device_of_row row) (py_lower p) then Inl DeviceIdentityInvalid else Inr ())"
proof -
  obtain st' where "device_record lib db f t d st = (Inr (Some (device_of_row row)), st')"
    using device_record_row [OF assms, of lib] by (cases "device_record lib db f t d st") auto
  moreover have "dv_status (device_of_row row) = dr_status row" by (simp add: device_of_row_def)
  ultimately show ?thesis by (simp add: verify_device_def)
qed

lemma map_of_put: "map_of (ed_devices (put_device ti d db)) k = (if k = ti then map_option (\<lambda>_. d) (map_of (ed_devices db) k) else map_of (ed_devices db) k)"
proof -
  have "map_of (map (\<lambda>(k, d0). (k, if k = ti then d else d0)) xs) k = (if k = ti then map_option (\<lambda>_. d) (map_of xs k) else map_of xs k)" for xs
    by (induction xs) auto
  then show ?thesis by (simp add: put_device_def)
qed

lemma update_asset_of_devices [simp]: "ed_devices (update_asset_of t a p g db) = ed_devices db"
  by (simp add: update_asset_of_def)

lemma active_deviceD: "active_device ti db = Some d \<Longrightarrow> map_of (ed_devices db) ti = Some d \<and> dr_status d = ''active''"
  by (auto simp: active_device_def split: option.splits if_splits)


definition demo_info :: device_info where
  "demo_info = \<lparr>dr_status = ''active'', dr_cert_serial = ''ab'', dr_prev_serial = None, dr_rotated_at = None, di_fingerprint = ''fp'', di_issued_at = 0,
     di_expires_at = 100, di_token = ''et_1'', di_ip = ''10.0.0.1'', di_hostname = ''pc'', di_agent_version = ''1'', di_heartbeat_at = None, di_revoked_at = None\<rparr>"

definition demo_enrolled :: enroll_state where
  "demo_enrolled = \<lparr>en_db = \<lparr>ed_tokens = [], ed_devices = [((uuid_str 1, ''d''), demo_info)], ed_inventory = empty_inventory, ed_audit = []\<rparr>,
     en_status = demo_server, en_counters = Map.empty, en_published = [], en_signals = []\<rparr>"

lemma small_audit:
  assumes "k \<in> {''cert_serial'', ''status''}" and "v \<in> {''ab'', ''cd'', ''revoked''}"
  shows "\<exists>x. serialize_audit_value (\<lambda>_. []) (Some [(k, JStr v)]) = Inr x"
proof -
  have "\<not> is_secret_key ''cert_serial''" "\<not> is_secret_key ''status''" by code_simp+
  then have r: "redact_secrets 0 (JObj [(k, JStr v)]) = JObj [(k, JStr v)]"
    using assms by (auto simp: redact_simps MAX_DEPTH_def is_scalar_def)
  have "length (json_dumps (\<lambda>_. []) (JObj [(k, JStr v)])) \<le> 100"
    if "k = ''cert_serial'' \<or> k = ''status''" "v = ''ab'' \<or> v = ''cd'' \<or> v = ''revoked''" for k v
    using that by (elim disjE) (hypsubst, code_simp)+
  from this [of k v] show ?thesis using assms by (simp add: serialize_audit_value_def r Let_def MAX_AUDIT_VALUE_BYTES_def)
qed

lemma demo_write_audit:
  assumes "py_strip action \<noteq> []" and "actor_ok actor" and "target_ok target"
    and "\<exists>x. serialize_audit_value (\<lambda>_. []) before = Inr x" and "\<exists>x. serialize_audit_value (\<lambda>_. []) after = Inr x"
  shows "\<exists>rows'. Audit_Log.write_audit (\<lambda>_. []) (uuid_str 1) actor action target before after None rows = Inr rows'"
  using assms uuid_of_str [of 1] by (auto simp: Audit_Log.write_audit_def)


definition demo_secret :: minted_secret where
  "demo_secret = mint_secret (\<lambda>x. x) (replicate 32 7) ''et_1'' 1"

definition demo_enroll_env :: enroll_env where
  "demo_enroll_env = \<lparr>ee_sha256 = (\<lambda>x. x), ee_repr = (\<lambda>_. []), ee_inet_ok = (\<lambda>_. True), ee_csr = (\<lambda>_. Some ''fp''),
     ee_tenants = \<lparr>sd_devices = Map.empty, sd_keys = Map.empty, sd_tenants = [uuid_str 1 \<mapsto> \<lparr>tr_status = ''active'', tr_abuse_frozen = False\<rparr>]\<rparr>,
     ee_cap = Inr 1, ee_device = ''dev_1'', ee_serial = ''ab'', ee_asset = ''a1'', ee_identity = ''i1'', ee_time = ''t'',
     ee_rate_ip = (\<lambda>_. Replied), ee_rate_token = (\<lambda>_. Replied), ee_fates = demo_fates, ee_publish = Replied, ee_signal = Replied\<rparr>"

definition demo_body :: enroll_body where
  "demo_body = \<lparr>eb_token = wire_token demo_secret, eb_csr = ''csr'',
     eb_host = \<lparr>ho_hostname = ''pc'', ho_os_family = ''linux'', ho_os_name = ''Debian'', ho_os_version = ''12'', ho_ip = None, ho_mac = None\<rparr>,
     eb_agent_version = ''1''\<rparr>"

definition demo_new :: enroll_state where
  "demo_new = \<lparr>en_db = \<lparr>ed_tokens = [\<lparr>tk_id = ''et_1'', tk_tenant = uuid_str 1, tk_name = ''n'', tk_hash = secret_hash demo_secret, tk_expires_at = 100,
        tk_revoked_at = None, tk_count = 0, tk_last = None, tk_created_at = 0\<rparr>], ed_devices = [], ed_inventory = empty_inventory, ed_audit = []\<rparr>,
     en_status = demo_server, en_counters = Map.empty, en_published = [], en_signals = []\<rparr>"

lemma fresh_not_limited:
  assumes "r key = None" and "0 < per_minute" and "replies 0 = Replied" and "replies 1 = Replied"
  shows "fst (check_rate_limit now key per_minute replies r) = Inr ()"
  using assms by (simp add: check_rate_limit_def redis_call_def redis_incrby_def redis_get_def Let_def guard_def split: prod.splits)

lemma demo_writes: "\<exists>st. require_writes_allowed (ee_tenants demo_enroll_env) demo_fates (uuid_str 1) demo_server = (Inr (), st)"
  by (simp add: require_writes_allowed_def tenant_status_def demo_fates_def demo_server_def demo_enroll_env_def cache_get_def redis_get_def
      rbind_def writes_allowed_def)

lemma demo_after: "\<exists>x. serialize_audit_value (\<lambda>_. []) (Some (enroll_after demo_enroll_env ''et_1'' ''10.0.0.1'' demo_body)) = Inr x"
proof -
  have "\<not> isl (serialize_audit_value (\<lambda>_. []) (Some [(''enrollment_token_id'', JStr ''et_1''), (''source_ip'', JStr ''10.0.0.1''),
      (''claimed_hostname'', JStr ''pc''), (''agent_version'', JStr ''1''), (''cert_serial'', JStr ''ab'')]))" by code_simp
  then show ?thesis by (auto simp: enroll_after_def demo_body_def demo_enroll_env_def isl_def split: sum.splits)
      (metis Inl_Inr_False sum.exhaust)
qed

theorem enroll_respects_cap_witness:
  "\<exists>s'. enroll demo_enroll_env ''10.0.0.1'' demo_body demo_new = (Inr (''dev_1'', ''ab'', 5 + 90 * 86400), s')
     \<and> billable_count (uuid_str 1) billable_window_days 5000000 (ed_inventory (en_db s')) = 1"
proof -
  obtain secret where sec: "secret_matches (\<lambda>x. x) secret (secret_hash demo_secret)"
    "parse_credential ''et_'' (wire_token demo_secret) = Some \<lparr>credential_id = ''et_1'', cred_tenant = 1, cred_secret = secret\<rparr>"
    using mint_parse [of 1 "replicate 32 7" "''et_1''" "\<lambda>x. x" "''et_''"]
    by (auto simp: demo_secret_def SECRET_RANDOM_BYTES_def starts_with_def)
  have tok: "eb_token demo_body = wire_token demo_secret" "ee_csr demo_enroll_env (eb_csr demo_body) = Some ''fp''" "ee_cap demo_enroll_env = Inr 1"
    "ee_rate_ip demo_enroll_env = (\<lambda>_. Replied)" "ee_rate_token demo_enroll_env = (\<lambda>_. Replied)" "ee_fates demo_enroll_env = demo_fates"
    "en_status demo_new = demo_server" "ss_now demo_server = 5" "en_counters demo_new = Map.empty" "ee_device demo_enroll_env = ''dev_1''"
    "ee_serial demo_enroll_env = ''ab''"
    by (simp_all add: demo_body_def demo_enroll_env_def demo_new_def demo_server_def)
  have chk: "\<exists>row. check_token demo_enroll_env 5 \<lparr>credential_id = ''et_1'', cred_tenant = 1, cred_secret = secret\<rparr> (en_db demo_new) = Inr row"
    using sec(1) by (simp add: check_token_def demo_new_def demo_enroll_env_def)
  have strip: "py_strip ''device.enroll'' \<noteq> []" by code_simp
  have none: "\<exists>x. serialize_audit_value (\<lambda>_. []) None = Inr x" by (simp add: serialize_audit_value_def)
  have "\<exists>rows. Audit_Log.write_audit (\<lambda>_. []) (uuid_str 1) \<lparr>ae_type = ''device'', ae_id = ''dev_1''\<rparr> ''device.enroll'' \<lparr>ae_type = ''device'', ae_id = ''dev_1''\<rparr>
      None (Some (enroll_after demo_enroll_env ''et_1'' ''10.0.0.1'' demo_body)) None [] = Inr rows"
    by (rule demo_write_audit [OF strip _ _ none demo_after]) (simp_all add: actor_ok_def target_ok_def)
  then have tx: "\<exists>db. enroll_tx demo_enroll_env 1 (uuid_str 1) ''et_1'' ''10.0.0.1'' ''fp'' demo_body 5 (en_db demo_new) = Inr db"
    by (auto simp: enroll_tx_def demo_new_def demo_enroll_env_def enroll_conflict_def empty_inventory_def billable_count_def visible_def Let_def)
  obtain r where r: "check_rate_limit 5 (''rl:enroll:ip:'' @ ''10.0.0.1'') enroll_rate_limit_per_ip (\<lambda>_. Replied) Map.empty = (Inr (), r)"
    "r (''rl:enroll:token:'' @ uuid_str 1 @ '':'' @ ''et_1'') = None"
    by (simp add: check_rate_limit_def redis_call_def redis_incrby_def redis_get_def redis_expire_def Let_def guard_def enroll_rate_limit_per_ip_def split: prod.splits)
  obtain r2 where r2: "check_rate_limit 5 (''rl:enroll:token:'' @ uuid_str 1 @ '':'' @ ''et_1'') enroll_rate_limit_per_token (\<lambda>_. Replied) r = (Inr (), r2)"
    using r(2) fresh_not_limited [of r "''rl:enroll:token:'' @ uuid_str 1 @ '':'' @ ''et_1''" enroll_rate_limit_per_token "\<lambda>_. Replied" 5]
    by (cases "check_rate_limit 5 (''rl:enroll:token:'' @ uuid_str 1 @ '':'' @ ''et_1'') enroll_rate_limit_per_token (\<lambda>_. Replied) r") (auto simp: enroll_rate_limit_per_token_def)
  obtain s' where run: "enroll demo_enroll_env ''10.0.0.1'' demo_body demo_new = (Inr (''dev_1'', ''ab'', 5 + 90 * 86400), s')"
    using chk tx demo_writes sec(2) r(1) r2 by (auto simp: enroll_def tok Let_def cert_lifetime_def)
  have "inventory_ok (ed_inventory (en_db demo_new))" by (simp add: demo_new_def inventory_ok_empty)
  from enroll_respects_cap [OF run this] show ?thesis using run tok(7,8,10)
    by (auto simp: demo_new_def empty_inventory_def billable_count_def visible_def micros_def)
qed

subsection \<open>Two gaps of enrollment\<close>

text \<open>The gateway appends the address it sees to the header the client sent, and \<^verbatim>\<open>_client_ip\<close> reads the first entry: the client
  chooses it, so it chooses the counter of the per-address limit too, and a name not used in the last minute is never limited.\<close>

lemma forwarded_for_evades_limit:
  assumes "CHR '','' \<notin> set forged" and "forged \<noteq> []" and "en_counters s (''rl:enroll:ip:'' @ py_strip forged) = None"
    and "ee_rate_ip env 0 = Replied" "ee_rate_ip env 1 = Replied" and "parse_credential ''et_'' (eb_token body) = None"
  shows "fst (enroll env (client_ip (Some (forged @ '', '' @ seen)) host) body s) = Inl TokenInvalid"
proof -
  have hd: "hd (py_split (CHR '','') (forged @ '', '' @ seen)) = forged"
    using assms(1) py_split_append_sep [of "CHR '',''" forged "CHR '' '' # seen"] by simp
  have ip: "client_ip (Some (forged @ '', '' @ seen)) host = py_strip forged"
    by (simp add: client_ip_def nonempty_def hd del: append.simps)
  have "fst (check_rate_limit (ss_now (en_status s)) (''rl:enroll:ip:'' @ py_strip forged) enroll_rate_limit_per_ip (ee_rate_ip env) (en_counters s)) = Inr ()"
    using assms(3-5) by (intro fresh_not_limited) (simp_all add: enroll_rate_limit_per_ip_def)
  then obtain r where "check_rate_limit (ss_now (en_status s)) (''rl:enroll:ip:'' @ py_strip forged) enroll_rate_limit_per_ip (ee_rate_ip env) (en_counters s) = (Inr (), r)"
    by (metis prod.collapse)
  then show ?thesis unfolding ip enroll_def Let_def using assms(6) by simp
qed

lemma enroll_tx_devices:
  "enroll_tx env cap tenant token_id ip fingerprint body now db = Inr db'
     \<Longrightarrow> ed_devices db' = ((tenant, ee_device env), new_device env fingerprint token_id ip body now) # ed_devices db"
  by (auto simp: enroll_tx_def Let_def split: if_splits sum.splits)

text \<open>A key enrolls once. A client that did not receive the response and sends its request again is answered by a failed unique
  constraint, which nothing handles.\<close>

lemma enroll_retry_fails:
  assumes "enroll env ip body s = (Inr resp, s1)" and "en_db s2 = en_db s1" and "ee_csr env2 (eb_csr body2) = ee_csr env (eb_csr body)"
  shows "\<exists>e. fst (enroll env2 ip2 body2 s2) = Inl e"
proof (cases "enroll env2 ip2 body2 s2")
  case (Pair out s3)
  obtain fp tok cap tenant now where f: "ee_csr env (eb_csr body) = Some fp" "enroll_tx env cap tenant tok ip fp body now (en_db s) = Inr (en_db s1)"
    by (rule enroll_Inr [OF assms(1)])
  then have "fp \<in> (\<lambda>d. di_fingerprint (snd d)) ` set (ed_devices (en_db s1))"
    using enroll_tx_devices by (fastforce simp: new_device_def)
  then have cf: "enroll_conflict env2 t2 fp ip2 (en_db s2)" for t2 using assms(2) by (simp add: enroll_conflict_def)
  show ?thesis
  proof (cases out)
    case (Inr r)
    obtain fp2 tok2 cap2 tenant2 now2 where "ee_csr env2 (eb_csr body2) = Some fp2"
      "enroll_tx env2 cap2 tenant2 tok2 ip2 fp2 body2 now2 (en_db s2) = Inr (en_db s3)"
      using Pair Inr by (auto elim: enroll_Inr)
    then show ?thesis using cf assms(3) f(1) by (simp add: enroll_tx_def split: if_splits)
  qed (simp add: Pair)
qed

end
