(* ===== verification/Control_Store.thy ===== *)
theory Control_Store
  imports Access Audit_Log Ids
begin

section \<open>The world of the control plane\<close>

text \<open>
  What the control plane (\<^verbatim>\<open>services/controlplane\<close>) reads and writes: the tables of
  \<^verbatim>\<open>db/migrations/0003_control_tables.sql\<close> as lists of records in one database record, the Redis server as a map from keys to
  typed values with an expiry, the mail that was sent and the status codes with which the data plane will answer. A handler is a function from such a world to a result and a world. Every
  command takes its fate from \<open>cw_fates\<close>: it is answered, runs and loses its answer, or is refused; in the last two cases
  the handler sees an exception. When the list is used up every command is answered. A Redis command on a key that holds
  another type raises; one database step is one statement, or one transaction that leaves the tables as they were if it raises.
  Ids are UUIDs as numbers, times whole seconds; random values and hash functions are arguments.
\<close>

datatype cp_error =
    AUTH_REQUIRED | SESSION_EXPIRED | FORBIDDEN_ROLE | TENANT_FROZEN string | RATE_LIMITED nat | VALIDATION_ERROR string
  | PASSWORD_POLICY_VIOLATION | PASSWORD_BREACHED | VERIFICATION_EXPIRED | VERIFICATION_ALREADY_USED
  | DOMAIN_ALREADY_REGISTERED | SIGNUP_CHALLENGE_REQUIRED string string | NOT_FOUND | INTERNAL_ERROR

datatype rval = RInt int | RDoc obj | RHash rhash | RSet "string list"

record account_row =
  ac_id :: nat
  ac_org :: string
  ac_email :: string
  ac_domain :: string
  ac_hash :: string
  ac_state :: string

record verification_row =
  ve_purpose :: string
  ve_account :: "nat option"
  ve_user :: "nat option"
  ve_hash :: string
  ve_expires :: nat
  ve_used :: "nat option"

record cp_tenant =
  ct_id :: nat
  ct_account :: nat
  ct_name :: string
  ct_status :: string
  ct_abuse :: bool
  ct_abuse_reason :: "string option"
  ct_plan :: string
  ct_trial_expires :: "nat option"
  ct_provisioned_at :: "nat option"
  ct_frozen_at :: "nat option"
  ct_purged_at :: "nat option"

record user_row =
  us_id :: nat
  us_tenant :: nat
  us_email :: string
  us_role :: string
  us_state :: string
  us_hash :: "string option"
  us_failures :: nat
  us_locked :: "nat option"
  us_created :: nat
  us_deleted :: "nat option"

record session_row =
  se_hash :: string
  se_user :: nat
  se_tenant :: nat
  se_absolute :: nat
  se_ip :: "string option"
  se_agent :: "string option"
  se_created :: nat
  se_revoked :: "nat option"
  se_reason :: "string option"

record saga_row =
  sg_id :: nat
  sg_account :: nat
  sg_tenant :: "nat option"
  sg_state :: string
  sg_step :: "string option"
  sg_error :: "string option"

record step_row =
  st_saga :: nat
  st_step :: string
  st_status :: string
  st_attempts :: nat

record cp_db =
  db_accounts :: "account_row list"
  db_verifications :: "verification_row list"
  db_tenants :: "cp_tenant list"
  db_users :: "user_row list"
  db_sessions :: "session_row list"
  db_sagas :: "saga_row list"
  db_steps :: "step_row list"
  db_plan_config :: "((string \<times> string) \<times> json) list"
  db_overrides :: "((nat \<times> string) \<times> json \<times> nat option) list"
  db_platform_config :: "(string \<times> json) list"
  db_abuse_log :: "(string \<times> string \<times> string option \<times> string \<times> string) list"
  db_audit :: "audit_record list"

record cp_world =
  cw_now :: nat
  cw_redis :: "rval redis"
  cw_db :: cp_db
  cw_mail :: "(string \<times> string) list"
  cw_http :: "nat list"
  cw_fates :: "reply list"

type_synonym 'a cp = "cp_world \<Rightarrow> (cp_error + 'a) \<times> cp_world"

subsection \<open>Sequences of commands\<close>

definition ret :: "'a \<Rightarrow> 'a cp" where
  "ret x w = (Inr x, w)"

definition raise :: "cp_error \<Rightarrow> 'a cp" where
  "raise e w = (Inl e, w)"

definition andthen :: "'a cp \<Rightarrow> ('a \<Rightarrow> 'b cp) \<Rightarrow> 'b cp" where
  "andthen m f w = (case m w of (Inl e, w') \<Rightarrow> (Inl e, w') | (Inr x, w') \<Rightarrow> f x w')"

definition clock :: "nat cp" where
  "clock w = (Inr (cw_now w), w)"

text \<open>\<^verbatim>\<open>try: ... except Exception\<close> around a best-effort effect.\<close>

definition best_effort :: "unit cp \<Rightarrow> unit cp" where
  "best_effort m w = (Inr (), snd (m w))"

definition take_fate :: "cp_world \<Rightarrow> reply \<times> cp_world" where
  "take_fate w = (case cw_fates w of [] \<Rightarrow> (Replied, w) | f # fs \<Rightarrow> (f, w\<lparr>cw_fates := fs\<rparr>))"

definition on_redis :: "(nat \<Rightarrow> rval redis \<Rightarrow> (cp_error + 'a) \<times> rval redis) \<Rightarrow> 'a cp" where
  "on_redis op w =
     (case take_fate w of (f, w1) \<Rightarrow>
        (case op (cw_now w1) (cw_redis w1) of (res, r) \<Rightarrow>
           (case f of
              Replied \<Rightarrow> (res, w1\<lparr>cw_redis := r\<rparr>)
            | Lost \<Rightarrow> (Inl INTERNAL_ERROR, w1\<lparr>cw_redis := r\<rparr>)
            | Refused \<Rightarrow> (Inl INTERNAL_ERROR, w1))))"

definition on_db :: "(nat \<Rightarrow> cp_db \<Rightarrow> cp_error + 'a \<times> cp_db) \<Rightarrow> 'a cp" where
  "on_db op w =
     (case take_fate w of (f, w1) \<Rightarrow>
        if f = Refused then (Inl INTERNAL_ERROR, w1)
        else (case op (cw_now w1) (cw_db w1) of
                Inl e \<Rightarrow> (Inl (if f = Lost then INTERNAL_ERROR else e), w1)
              | Inr (x, db) \<Rightarrow> (if f = Lost then Inl INTERNAL_ERROR else Inr x, w1\<lparr>cw_db := db\<rparr>)))"

definition reads :: "(cp_db \<Rightarrow> 'a) \<Rightarrow> 'a cp" where
  "reads q = on_db (\<lambda>_ db. Inr (q db, db))"

definition writes :: "(nat \<Rightarrow> cp_db \<Rightarrow> cp_db) \<Rightarrow> unit cp" where
  "writes q = on_db (\<lambda>now db. Inr ((), q now db))"

subsection \<open>Redis commands on typed values\<close>

definition hgetall :: "string \<Rightarrow> rhash option cp" where
  "hgetall k = on_redis (\<lambda>now r.
     (case redis_get now k r of None \<Rightarrow> Inr None | Some (RHash h) \<Rightarrow> Inr (Some h) | Some _ \<Rightarrow> Inl INTERNAL_ERROR, r))"

definition hset :: "string \<Rightarrow> (string \<times> string) list \<Rightarrow> unit cp" where
  "hset k m = on_redis (\<lambda>now r.
     (case redis_get now k r of
        None \<Rightarrow> (Inr (), r(k \<mapsto> (RHash (map_of m), None)))
      | Some (RHash h) \<Rightarrow> (Inr (), r(k \<mapsto> (RHash (h ++ map_of m), snd (the (r k)))))
      | Some _ \<Rightarrow> (Inl INTERNAL_ERROR, r)))"

definition expire :: "string \<Rightarrow> nat \<Rightarrow> unit cp" where
  "expire k ttl = on_redis (\<lambda>now r. (Inr (), redis_expire now k ttl r))"

definition delete :: "string \<Rightarrow> unit cp" where
  "delete k = on_redis (\<lambda>now r. (Inr (), r(k := None)))"

definition sadd :: "string \<Rightarrow> string \<Rightarrow> unit cp" where
  "sadd k x = on_redis (\<lambda>now r.
     (case redis_get now k r of
        None \<Rightarrow> (Inr (), r(k \<mapsto> (RSet [x], None)))
      | Some (RSet xs) \<Rightarrow> (Inr (), r(k \<mapsto> (RSet (List.insert x xs), snd (the (r k)))))
      | Some _ \<Rightarrow> (Inl INTERNAL_ERROR, r)))"

definition srem :: "string \<Rightarrow> string \<Rightarrow> unit cp" where
  "srem k x = on_redis (\<lambda>now r.
     (case redis_get now k r of
        None \<Rightarrow> (Inr (), r)
      | Some (RSet xs) \<Rightarrow>
          (Inr (), r(k := (if removeAll x xs = [] then None else Some (RSet (removeAll x xs), snd (the (r k))))))
      | Some _ \<Rightarrow> (Inl INTERNAL_ERROR, r)))"

definition smembers :: "string \<Rightarrow> string list cp" where
  "smembers k = on_redis (\<lambda>now r.
     (case redis_get now k r of None \<Rightarrow> Inr [] | Some (RSet xs) \<Rightarrow> Inr xs | Some _ \<Rightarrow> Inl INTERNAL_ERROR, r))"

definition get_int :: "string \<Rightarrow> int cp" where
  "get_int k = on_redis (\<lambda>now r.
     (case redis_get now k r of None \<Rightarrow> Inr 0 | Some (RInt n) \<Rightarrow> Inr n | Some _ \<Rightarrow> Inl INTERNAL_ERROR, r))"

definition incr :: "string \<Rightarrow> int cp" where
  "incr k = on_redis (\<lambda>now r.
     (case redis_get now k r of
        None \<Rightarrow> (Inr 1, r(k \<mapsto> (RInt 1, None)))
      | Some (RInt n) \<Rightarrow> (Inr (n + 1), r(k \<mapsto> (RInt (n + 1), snd (the (r k)))))
      | Some _ \<Rightarrow> (Inl INTERNAL_ERROR, r)))"

text \<open>The remaining seconds of a key, zero if it has no expiry or does not exist (the server answers -1 and -2 then).\<close>

definition time_to_live :: "string \<Rightarrow> nat cp" where
  "time_to_live k = on_redis (\<lambda>now r.
     (Inr (case r k of Some (_, Some e) \<Rightarrow> e - now | _ \<Rightarrow> 0), r))"

definition get_doc :: "string \<Rightarrow> obj option cp" where
  "get_doc k = on_redis (\<lambda>now r.
     (case redis_get now k r of None \<Rightarrow> Inr None | Some (RDoc d) \<Rightarrow> Inr (Some d) | Some _ \<Rightarrow> Inl INTERNAL_ERROR, r))"

definition set_doc :: "string \<Rightarrow> obj \<Rightarrow> nat \<Rightarrow> unit cp" where
  "set_doc k d ttl = on_redis (\<lambda>now r. (Inr (), r(k \<mapsto> (RDoc d, Some (now + ttl)))))"

subsection \<open>Keys\<close>

definition sess :: "string \<Rightarrow> string" where
  "sess session_id = ''sess:'' @ session_id"

definition sess_user :: "nat \<Rightarrow> string" where
  "sess_user user_id = ''sess:user:'' @ uuid_str user_id"

definition throttle_login_acct :: "nat \<Rightarrow> string" where
  "throttle_login_acct user_id = ''throttle:login:acct:'' @ uuid_str user_id"

definition throttle_login_ip :: "string \<Rightarrow> string" where
  "throttle_login_ip ip = ''throttle:login:ip:'' @ ip"

definition abuse_signup_ip :: "string \<Rightarrow> string" where
  "abuse_signup_ip ip = ''abuse:signup:ip:'' @ ip"

definition tenantstatus :: "nat \<Rightarrow> string" where
  "tenantstatus tenant_id = ''tenantstatus:'' @ uuid_str tenant_id"

definition ent :: "nat \<Rightarrow> string" where
  "ent tenant_id = ''ent:'' @ uuid_str tenant_id"

subsection \<open>Audit\<close>

text \<open>\<^verbatim>\<open>audit_standalone\<close> is one transaction; a value error of the writer is an unhandled exception.\<close>

definition audit_rows ::
  "nat \<Rightarrow> audit_entity \<Rightarrow> string \<Rightarrow> audit_entity \<Rightarrow> obj option \<Rightarrow> obj option \<Rightarrow> string option \<Rightarrow> cp_db \<Rightarrow> cp_error + unit \<times> cp_db" where
  "audit_rows tenant actor action target before after reason db =
     (case Audit_Log.write_audit (\<lambda>_. []) (uuid_str tenant) actor action target before after reason (db_audit db) of
        Inl _ \<Rightarrow> Inl INTERNAL_ERROR
      | Inr rows \<Rightarrow> Inr ((), db\<lparr>db_audit := rows\<rparr>))"

definition audit_standalone ::
  "nat \<Rightarrow> audit_entity \<Rightarrow> string \<Rightarrow> audit_entity \<Rightarrow> obj option \<Rightarrow> obj option \<Rightarrow> string option \<Rightarrow> unit cp" where
  "audit_standalone tenant actor action target before after reason =
     on_db (\<lambda>_ db. audit_rows tenant actor action target before after reason db)"

definition user_entity :: "nat \<Rightarrow> audit_entity" where
  "user_entity user = \<lparr>ae_type = ''user'', ae_id = public_id USER_PREFIX user\<rparr>"

subsection \<open>Reasoning about sequences of commands\<close>

text \<open>A triple with a postcondition for a normal end and one for an exception. The rules below compute with them: one rule per
  combinator and command, so that an invariant of a handler is shown command by command.\<close>

named_theorems cp_rules

definition valid :: "(cp_world \<Rightarrow> bool) \<Rightarrow> 'a cp \<Rightarrow> ('a \<Rightarrow> cp_world \<Rightarrow> bool) \<Rightarrow> (cp_world \<Rightarrow> bool) \<Rightarrow> bool" where
  "valid P m Q E \<longleftrightarrow> (\<forall>w. P w \<longrightarrow> (\<forall>e w'. m w = (Inl e, w') \<longrightarrow> E w') \<and> (\<forall>x w'. m w = (Inr x, w') \<longrightarrow> Q x w'))"

lemma validI:
  assumes "\<And>w e w'. P w \<Longrightarrow> m w = (Inl e, w') \<Longrightarrow> E w'" and "\<And>w x w'. P w \<Longrightarrow> m w = (Inr x, w') \<Longrightarrow> Q x w'"
  shows "valid P m Q E"
  using assms unfolding valid_def by blast

lemma validD_Inr: "valid P m Q E \<Longrightarrow> P w \<Longrightarrow> m w = (Inr x, w') \<Longrightarrow> Q x w'"
  unfolding valid_def by blast

lemma validD_Inl: "valid P m Q E \<Longrightarrow> P w \<Longrightarrow> m w = (Inl e, w') \<Longrightarrow> E w'"
  unfolding valid_def by blast

lemma valid_snd:
  assumes "valid P m (\<lambda>_. E) E" and "P w"
  shows "E (snd (m w))"
proof (cases "m w")
  case (Pair res w')
  then show ?thesis using assms unfolding valid_def by (cases res) auto
qed

lemma valid_weaken:
  assumes "valid P' m Q' E'" and "\<And>w. P w \<Longrightarrow> P' w" and "\<And>x w. Q' x w \<Longrightarrow> Q x w" and "\<And>w. E' w \<Longrightarrow> E w"
  shows "valid P m Q E"
  using assms unfolding valid_def by blast

lemma valid_ret [cp_rules]: "(\<And>w. P w \<Longrightarrow> Q x w) \<Longrightarrow> valid P (ret x) Q E"
  by (simp add: valid_def ret_def)

lemma valid_raise [cp_rules]: "(\<And>w. P w \<Longrightarrow> E w) \<Longrightarrow> valid P (raise e) Q E"
  by (simp add: valid_def raise_def)

lemma valid_andthen: "valid P m R E \<Longrightarrow> (\<And>x. valid (R x) (f x) Q E) \<Longrightarrow> valid P (andthen m f) Q E"
  unfolding valid_def andthen_def by (fastforce split: prod.splits sum.splits)

lemma valid_clock: "valid P clock (\<lambda>now w. P w \<and> now = cw_now w) E"
  by (simp add: valid_def clock_def)

lemma valid_best_effort: "valid P m (\<lambda>_. Q ()) (Q ()) \<Longrightarrow> valid P (best_effort m) Q E"
  using valid_snd [of P m "Q ()"] by (auto simp: valid_def [of P "best_effort m"] best_effort_def)

text \<open>A command whose effect keeps an assertion, whatever its fate; fates do not matter to the assertion.\<close>

definition fateless :: "(cp_world \<Rightarrow> bool) \<Rightarrow> bool" where
  "fateless P \<longleftrightarrow> (\<forall>w fs. P (w\<lparr>cw_fates := fs\<rparr>) = P w)"

lemma fatelessD: "fateless P \<Longrightarrow> P w \<Longrightarrow> P (snd (take_fate w))"
  unfolding fateless_def take_fate_def by (simp split: list.split)

lemma take_fate_fields [simp]:
  "cw_now (snd (take_fate w)) = cw_now w" "cw_redis (snd (take_fate w)) = cw_redis w" "cw_db (snd (take_fate w)) = cw_db w"
  "cw_mail (snd (take_fate w)) = cw_mail w" "cw_http (snd (take_fate w)) = cw_http w"
  by (simp_all add: take_fate_def split: list.split)

lemma take_fate_same:
  "take_fate w = (f, w1) \<Longrightarrow> cw_now w1 = cw_now w \<and> cw_redis w1 = cw_redis w \<and> cw_db w1 = cw_db w \<and> cw_mail w1 = cw_mail w \<and> cw_http w1 = cw_http w"
  using take_fate_fields [of w] by simp

lemma valid_on_redis:
  assumes "fateless P"
    and "\<And>w. P w \<Longrightarrow> E w"
    and "\<And>w x r. P w \<Longrightarrow> op (cw_now w) (cw_redis w) = (Inr x, r) \<Longrightarrow> Q x (w\<lparr>cw_redis := r\<rparr>) \<and> E (w\<lparr>cw_redis := r\<rparr>)"
    and "\<And>w e r. P w \<Longrightarrow> op (cw_now w) (cw_redis w) = (Inl e, r) \<Longrightarrow> E (w\<lparr>cw_redis := r\<rparr>)"
  shows "valid P (on_redis op) Q E"
proof (rule validI)
  fix w e w'
  assume w: "P w" and run: "on_redis op w = (Inl e, w')"
  obtain f w1 where f: "take_fate w = (f, w1)" by fastforce
  obtain res r where o: "op (cw_now w1) (cw_redis w1) = (res, r)" by fastforce
  have w1: "P w1" using fatelessD [OF assms(1) w] f by simp
  have "w' = w1 \<or> w' = w1\<lparr>cw_redis := r\<rparr>" using run f o by (auto simp: on_redis_def split: reply.splits)
  then show "E w'" using assms(2-4) [OF w1] o by (cases res) auto
next
  fix w x w'
  assume w: "P w" and run: "on_redis op w = (Inr x, w')"
  obtain f w1 where f: "take_fate w = (f, w1)" by fastforce
  obtain res r where o: "op (cw_now w1) (cw_redis w1) = (res, r)" by fastforce
  have w1: "P w1" using fatelessD [OF assms(1) w] f by simp
  have "res = Inr x" "w' = w1\<lparr>cw_redis := r\<rparr>" using run f o by (auto simp: on_redis_def split: reply.splits)
  then show "Q x w'" using assms(3) [OF w1] o by simp
qed

lemma valid_on_db:
  assumes "fateless P" and "\<And>w. P w \<Longrightarrow> E w"
    and "\<And>w x db. P w \<Longrightarrow> op (cw_now w) (cw_db w) = Inr (x, db) \<Longrightarrow> Q x (w\<lparr>cw_db := db\<rparr>) \<and> E (w\<lparr>cw_db := db\<rparr>)"
  shows "valid P (on_db op) Q E"
proof (rule validI)
  fix w e w'
  assume w: "P w" and run: "on_db op w = (Inl e, w')"
  obtain f w1 where f: "take_fate w = (f, w1)" by fastforce
  have w1: "P w1" using fatelessD [OF assms(1) w] f by simp
  show "E w'" using run f assms(2,3) [OF w1]
    by (auto simp: on_db_def split: if_splits sum.splits prod.splits)
next
  fix w x w'
  assume w: "P w" and run: "on_db op w = (Inr x, w')"
  obtain f w1 where f: "take_fate w = (f, w1)" by fastforce
  have w1: "P w1" using fatelessD [OF assms(1) w] f by simp
  show "Q x w'" using run f assms(3) [OF w1] by (auto simp: on_db_def split: if_splits sum.splits prod.splits)
qed

lemma valid_reads:
  assumes "fateless P" and "\<And>w. P w \<Longrightarrow> E w" and "\<And>w. P w \<Longrightarrow> Q (q (cw_db w)) w"
  shows "valid P (reads q) Q E"
  unfolding reads_def by (rule valid_on_db) (use assms in auto)

lemma valid_writes:
  assumes "fateless P" and "\<And>w. P w \<Longrightarrow> E w" and "\<And>w. P w \<Longrightarrow> Q () (w\<lparr>cw_db := q (cw_now w) (cw_db w)\<rparr>) \<and> E (w\<lparr>cw_db := q (cw_now w) (cw_db w)\<rparr>)"
  shows "valid P (writes q) Q E"
  unfolding writes_def by (rule valid_on_db) (use assms in auto)

text \<open>Assertions on the Redis data at a fixed time, with a rule per command. The database does not matter to them.\<close>

definition rw :: "nat \<Rightarrow> (rval redis \<Rightarrow> bool) \<Rightarrow> cp_world \<Rightarrow> bool" where
  "rw now A w \<longleftrightarrow> cw_now w = now \<and> A (cw_redis w)"

lemma fateless_rw: "fateless (rw now A)"
  by (simp add: fateless_def rw_def)

lemma rw_redis:
  assumes "\<And>r. A r \<Longrightarrow> C r" and "\<And>r x r'. A r \<Longrightarrow> op now r = (Inr x, r') \<Longrightarrow> B x r' \<and> C r'"
    and "\<And>r e r'. A r \<Longrightarrow> op now r = (Inl e, r') \<Longrightarrow> C r'"
  shows "valid (rw now A) (on_redis op) (\<lambda>x. rw now (B x)) (rw now C)"
  by (rule valid_on_redis) (use assms fateless_rw in \<open>auto simp: rw_def\<close>)

lemma rw_db: "(\<And>r. A r \<Longrightarrow> C r) \<Longrightarrow> valid (rw now A) (on_db op) (\<lambda>_. rw now A) (rw now C)"
  by (rule valid_on_db) (use fateless_rw in \<open>auto simp: rw_def\<close>)

lemma rw_writes: "(\<And>r. A r \<Longrightarrow> C r) \<Longrightarrow> valid (rw now A) (writes q) (\<lambda>_. rw now A) (rw now C)"
  unfolding writes_def by (rule rw_db)

lemma rw_reads: "(\<And>r. A r \<Longrightarrow> C r) \<Longrightarrow> valid (rw now A) (reads q) (\<lambda>_. rw now A) (rw now C)"
  unfolding reads_def by (rule rw_db)

lemma rw_clock: "valid (rw now A) clock (\<lambda>t w. t = now \<and> rw now A w) E"
  by (simp add: valid_def clock_def rw_def)

lemma valid_clock_at: "valid (rw now A) (f now) Q E \<Longrightarrow> valid (rw now A) (andthen clock f) Q E"
  by (auto simp: valid_def andthen_def clock_def rw_def)

lemma rw_hgetall:
  "(\<And>r. A r \<Longrightarrow> C r) \<Longrightarrow> valid (rw now A) (hgetall k)
     (\<lambda>h. rw now (\<lambda>r. A r \<and> redis_get now k r = map_option RHash h)) (rw now C)"
  unfolding hgetall_def by (rule rw_redis) (auto split: option.splits rval.splits)

lemma rw_smembers:
  "(\<And>r. A r \<Longrightarrow> C r) \<Longrightarrow> valid (rw now A) (smembers k)
     (\<lambda>xs. rw now (\<lambda>r. A r \<and> (redis_get now k r = Some (RSet xs) \<or> redis_get now k r = None \<and> xs = []))) (rw now C)"
  unfolding smembers_def by (rule rw_redis) (auto split: option.splits rval.splits)

lemma rw_delete:
  assumes "\<And>r. A r \<Longrightarrow> C r" and "\<And>r. A r \<Longrightarrow> B (r(k := None)) \<and> C (r(k := None))"
  shows "valid (rw now A) (delete k) (\<lambda>_. rw now B) (rw now C)"
  unfolding delete_def by (rule rw_redis) (use assms in auto)

lemma rw_expire:
  assumes "\<And>r. A r \<Longrightarrow> C r" and "\<And>r. A r \<Longrightarrow> redis_get now k r = None \<Longrightarrow> B r"
    and "\<And>r v e. A r \<Longrightarrow> redis_get now k r = Some v \<Longrightarrow> r k = Some (v, e) \<Longrightarrow> B (r(k \<mapsto> (v, Some (now + ttl)))) \<and> C (r(k \<mapsto> (v, Some (now + ttl))))"
  shows "valid (rw now A) (expire k ttl) (\<lambda>_. rw now B) (rw now C)"
  unfolding expire_def
proof (rule rw_redis)
  fix r x r' assume a: "A r" "(Inr (), redis_expire now k ttl r) = (Inr x, r')"
  show "B r' \<and> C r'"
  proof (cases "redis_get now k r")
    case None
    then show ?thesis using a assms(1,2) by (simp add: redis_expire_def)
  next
    case (Some v)
    then obtain e where "r k = Some (v, e)" by (auto elim: redis_get_SomeE)
    then show ?thesis using a Some assms(3) [OF a(1) Some] by (auto simp: redis_expire_def)
  qed
qed (use assms(1) in auto)

lemma rw_hset:
  assumes "\<And>r. A r \<Longrightarrow> C r \<and> redis_get now k r = None" and "\<And>r. A r \<Longrightarrow> B (r(k \<mapsto> (RHash (map_of m), None))) \<and> C (r(k \<mapsto> (RHash (map_of m), None)))"
  shows "valid (rw now A) (hset k m) (\<lambda>_. rw now B) (rw now C)"
  unfolding hset_def by (rule rw_redis) (use assms in \<open>auto split: option.splits\<close>)

lemma rw_sadd:
  assumes "\<And>r. A r \<Longrightarrow> C r" and "\<And>r. A r \<Longrightarrow> redis_get now k r = None \<Longrightarrow> B (r(k \<mapsto> (RSet [x], None))) \<and> C (r(k \<mapsto> (RSet [x], None)))"
    and "\<And>r xs e. A r \<Longrightarrow> redis_get now k r = Some (RSet xs) \<Longrightarrow> r k = Some (RSet xs, e) \<Longrightarrow>
      B (r(k \<mapsto> (RSet (List.insert x xs), e))) \<and> C (r(k \<mapsto> (RSet (List.insert x xs), e)))"
  shows "valid (rw now A) (sadd k x) (\<lambda>_. rw now B) (rw now C)"
  unfolding sadd_def
proof (rule rw_redis)
  fix r y r'
  assume a: "A r" and o: "(case redis_get now k r of None \<Rightarrow> (Inr (), r(k \<mapsto> (RSet [x], None)))
      | Some (RSet xs) \<Rightarrow> (Inr (), r(k \<mapsto> (RSet (List.insert x xs), snd (the (r k))))) | Some _ \<Rightarrow> (Inl INTERNAL_ERROR, r)) = (Inr y, r')"
  show "B r' \<and> C r'"
  proof (cases "redis_get now k r")
    case None
    then show ?thesis using o assms(2) [OF a] by simp
  next
    case (Some v)
    then obtain e where e: "r k = Some (v, e)" by (auto elim: redis_get_SomeE)
    obtain xs where v: "v = RSet xs" using Some o by (cases v) auto
    show ?thesis using Some o e assms(3) [OF a, of xs e] unfolding v by (auto split: if_splits)
  qed
qed (use assms(1) in \<open>auto split: option.splits rval.splits\<close>)

lemma rw_srem:
  assumes "\<And>r. A r \<Longrightarrow> C r" and "\<And>r. A r \<Longrightarrow> redis_get now k r = None \<Longrightarrow> B r"
    and "\<And>r xs e. A r \<Longrightarrow> redis_get now k r = Some (RSet xs) \<Longrightarrow> r k = Some (RSet xs, e) \<Longrightarrow>
      B (r(k := (if removeAll x xs = [] then None else Some (RSet (removeAll x xs), e))))
      \<and> C (r(k := (if removeAll x xs = [] then None else Some (RSet (removeAll x xs), e))))"
  shows "valid (rw now A) (srem k x) (\<lambda>_. rw now B) (rw now C)"
  unfolding srem_def
proof (rule rw_redis)
  fix r y r'
  assume a: "A r" and o: "(case redis_get now k r of None \<Rightarrow> (Inr (), r)
      | Some (RSet xs) \<Rightarrow> (Inr (), r(k := (if removeAll x xs = [] then None else Some (RSet (removeAll x xs), snd (the (r k))))))
      | Some _ \<Rightarrow> (Inl INTERNAL_ERROR, r)) = (Inr y, r')"
  show "B r' \<and> C r'"
  proof (cases "redis_get now k r")
    case None
    then show ?thesis using o a assms(1,2) by simp
  next
    case (Some v)
    then obtain e where e: "r k = Some (v, e)" by (auto elim: redis_get_SomeE)
    obtain xs where v: "v = RSet xs" using Some o by (cases v) auto
    show ?thesis using Some o e assms(3) [OF a, of xs e] unfolding v by (auto split: if_splits)
  qed
qed (use assms(1) in \<open>auto split: option.splits rval.splits\<close>)

text \<open>An undisturbed run: every command is answered.\<close>

lemma run_simps:
  "cw_fates w = [] \<Longrightarrow> take_fate w = (Replied, w)"
  by (simp add: take_fate_def)

lemma andthen_Inr: "m w = (Inr x, w') \<Longrightarrow> andthen m f w = f x w'"
  by (simp add: andthen_def)

lemma andthen_Inl: "m w = (Inl e, w') \<Longrightarrow> andthen m f w = (Inl e, w')"
  by (simp add: andthen_def)

subsection \<open>Invariants of the tables\<close>

text \<open>A command keeps an assertion on the tables, whatever its fate and result. One rule per combinator, so that an invariant of
  the tables is shown for a handler by its statements alone.\<close>

named_theorems keeps_rules

definition keeps :: "(cp_db \<Rightarrow> bool) \<Rightarrow> 'a cp \<Rightarrow> bool" where
  "keeps A m \<longleftrightarrow> (\<forall>w. A (cw_db w) \<longrightarrow> A (cw_db (snd (m w))))"

lemma keepsD: "keeps A m \<Longrightarrow> A (cw_db w) \<Longrightarrow> A (cw_db (snd (m w)))"
  by (simp add: keeps_def)

lemma keepsD_run: "keeps A m \<Longrightarrow> m w = (res, w') \<Longrightarrow> A (cw_db w) \<Longrightarrow> A (cw_db w')"
  using keepsD [of A m w] by simp

lemma keeps_ret [keeps_rules]: "keeps A (ret x)"
  by (simp add: keeps_def ret_def)

lemma keeps_raise [keeps_rules]: "keeps A (raise e)"
  by (simp add: keeps_def raise_def)

lemma keeps_clock [keeps_rules]: "keeps A clock"
  by (simp add: keeps_def clock_def)

lemma keeps_andthen [keeps_rules]: "keeps A m \<Longrightarrow> (\<And>x. keeps A (f x)) \<Longrightarrow> keeps A (andthen m f)"
  unfolding keeps_def andthen_def by (fastforce split: prod.splits sum.splits)

lemma keeps_best_effort [keeps_rules]: "keeps A m \<Longrightarrow> keeps A (best_effort m)"
  by (simp add: keeps_def best_effort_def)

lemma keeps_on_redis: "keeps A (on_redis op)"
proof (unfold keeps_def, intro allI impI)
  fix w :: cp_world assume "A (cw_db w)"
  then show "A (cw_db (snd (on_redis op w)))"
    by (auto simp: on_redis_def dest: take_fate_same split: prod.splits reply.splits)
qed

lemma keeps_on_db:
  assumes "\<And>now db x db'. A db \<Longrightarrow> op now db = Inr (x, db') \<Longrightarrow> A db'"
  shows "keeps A (on_db op)"
proof (unfold keeps_def, intro allI impI)
  fix w :: cp_world assume a: "A (cw_db w)"
  obtain f w1 where f: "take_fate w = (f, w1)" by fastforce
  then have "A (cw_db w1)" using a take_fate_same [OF f] by simp
  then show "A (cw_db (snd (on_db op w)))"
    using f assms by (auto simp: on_db_def split: prod.splits sum.splits)
qed

lemma keeps_reads [keeps_rules]: "keeps A (reads q)"
  unfolding reads_def by (rule keeps_on_db) simp

lemma keeps_writes [keeps_rules]: "(\<And>now db. A db \<Longrightarrow> A (q now db)) \<Longrightarrow> keeps A (writes q)"
  unfolding writes_def by (rule keeps_on_db) auto

lemma keeps_commands [keeps_rules]:
  "keeps A (hgetall k)" "keeps A (hset k m)" "keeps A (expire k n)" "keeps A (delete k)" "keeps A (sadd k x)" "keeps A (srem k x)"
  "keeps A (smembers k)" "keeps A (get_int k)" "keeps A (incr k)" "keeps A (time_to_live k)" "keeps A (get_doc k)" "keeps A (set_doc k d n)"
  by (simp_all add: hgetall_def hset_def expire_def delete_def sadd_def srem_def smembers_def get_int_def incr_def time_to_live_def get_doc_def set_doc_def
    keeps_on_redis)

lemma keeps_if [keeps_rules]: "(b \<Longrightarrow> keeps A m) \<Longrightarrow> (\<not> b \<Longrightarrow> keeps A n) \<Longrightarrow> keeps A (if b then m else n)"
  by simp

lemma keeps_option [keeps_rules]: "keeps A m \<Longrightarrow> (\<And>x. keeps A (f x)) \<Longrightarrow> keeps A (case z of None \<Rightarrow> m | Some x \<Rightarrow> f x)"
  by (cases z) auto

lemma keeps_pair [keeps_rules]: "(\<And>x y. keeps A (f x y)) \<Longrightarrow> keeps A (case z of (x, y) \<Rightarrow> f x y)"
  by (cases z) auto

lemma keeps_sum [keeps_rules]: "(\<And>x. keeps A (f x)) \<Longrightarrow> (\<And>y. keeps A (g y)) \<Longrightarrow> keeps A (case z of Inl x \<Rightarrow> f x | Inr y \<Rightarrow> g y)"
  by (cases z) auto

lemma keeps_let [keeps_rules]: "keeps A (f v) \<Longrightarrow> keeps A (let x = v in f x)"
  by simp

lemma keeps_audit [keeps_rules]:
  assumes "\<And>db rows. A db \<Longrightarrow> A (db\<lparr>db_audit := rows\<rparr>)"
  shows "keeps A (audit_standalone tenant actor action target before after reason)"
  unfolding audit_standalone_def by (rule keeps_on_db) (use assms in \<open>auto simp: audit_rows_def split: sum.splits\<close>)

end
