(* ===== verification/Sessions.thy ===== *)
theory Sessions
  imports Control_Store
begin

section \<open>Console sessions\<close>

text \<open>
  \<^verbatim>\<open>controlplane/sessions.py\<close>: a session lives in the Redis hash \<^verbatim>\<open>sess:{sid}\<close> with a day of idle time and seven days in all; the set
  \<^verbatim>\<open>sess:user:{uid}\<close> indexes the sessions of a user, so that all of them can be revoked at once; PostgreSQL keeps metadata.
  \<^verbatim>\<open>controlplane/tenantstatus.py\<close> is the cache of tenant states and \<^verbatim>\<open>controlplane/authz.py\<close> the guard of every console route.
  Ids of sessions and their tokens are arguments; \<open>clock_lib\<close> prints and reads times.
\<close>

record session_data =
  sx_id :: string
  sx_user :: nat
  sx_tenant :: nat
  sx_role :: string
  sx_csrf :: string
  sx_created :: nat
  sx_absolute :: nat

definition session_idle_seconds :: nat where "session_idle_seconds = 24 * 3600"

definition session_absolute_seconds :: nat where "session_absolute_seconds = 7 * 24 * 3600"

subsection \<open>Statements\<close>

definition INSERT_SESSION :: "session_row \<Rightarrow> cp_db \<Rightarrow> cp_error + unit \<times> cp_db" where
  "INSERT_SESSION row db =
     (if se_hash row \<in> se_hash ` set (db_sessions db) \<or> se_user row \<notin> us_id ` set (db_users db) then Inl INTERNAL_ERROR
      else Inr ((), db\<lparr>db_sessions := row # db_sessions db\<rparr>))"

definition revoke_rows :: "(session_row \<Rightarrow> bool) \<Rightarrow> string \<Rightarrow> nat \<Rightarrow> cp_db \<Rightarrow> cp_db" where
  "revoke_rows hit reason now db =
     db\<lparr>db_sessions := map (\<lambda>r. if hit r \<and> se_revoked r = None then r\<lparr>se_revoked := Some now, se_reason := Some reason\<rparr> else r) (db_sessions db)\<rparr>"

definition REVOKE_SESSION :: "string \<Rightarrow> string \<Rightarrow> nat \<Rightarrow> cp_db \<Rightarrow> cp_db" where
  "REVOKE_SESSION h = revoke_rows (\<lambda>r. se_hash r = h)"

definition REVOKE_USER_SESSIONS :: "nat \<Rightarrow> string \<Rightarrow> nat \<Rightarrow> cp_db \<Rightarrow> cp_db" where
  "REVOKE_USER_SESSIONS user = revoke_rows (\<lambda>r. se_user r = user)"

definition REVOKE_USER_SESSIONS_EXCEPT :: "nat \<Rightarrow> string \<Rightarrow> string \<Rightarrow> nat \<Rightarrow> cp_db \<Rightarrow> cp_db" where
  "REVOKE_USER_SESSIONS_EXCEPT user h = revoke_rows (\<lambda>r. se_user r = user \<and> se_hash r \<noteq> h)"

subsection \<open>The store\<close>

definition session_hash :: "clock_lib \<Rightarrow> session_data \<Rightarrow> (string \<times> string) list" where
  "session_hash lib d =
     [(''user_id'', uuid_str (sx_user d)), (''tenant_id'', uuid_str (sx_tenant d)), (''role'', sx_role d), (''csrf_token'', sx_csrf d),
      (''created_at'', cl_iso lib (sx_created d)), (''absolute_expires_at'', cl_iso lib (sx_absolute d))]"

definition new_session :: "string \<Rightarrow> string \<Rightarrow> nat \<Rightarrow> nat \<Rightarrow> string \<Rightarrow> nat \<Rightarrow> session_data" where
  "new_session session_id csrf_token user_id tenant_id role now =
     \<lparr>sx_id = session_id, sx_user = user_id, sx_tenant = tenant_id, sx_role = role, sx_csrf = csrf_token, sx_created = now,
      sx_absolute = now + session_absolute_seconds\<rparr>"

definition session_create ::
  "clock_lib \<Rightarrow> (string \<Rightarrow> string) \<Rightarrow> string \<Rightarrow> string \<Rightarrow> nat \<Rightarrow> nat \<Rightarrow> string \<Rightarrow> string option \<Rightarrow> string option \<Rightarrow> session_data cp" where
  "session_create lib sha256 session_id csrf_token user_id tenant_id role ip user_agent =
     andthen clock (\<lambda>now.
     let d = new_session session_id csrf_token user_id tenant_id role now in
     andthen (hset (sess session_id) (session_hash lib d)) (\<lambda>_.
     andthen (expire (sess session_id) session_idle_seconds) (\<lambda>_.
     andthen (sadd (sess_user user_id) session_id) (\<lambda>_.
     andthen (expire (sess_user user_id) session_absolute_seconds) (\<lambda>_.
     andthen (on_db (\<lambda>_. INSERT_SESSION \<lparr>se_hash = sha256 session_id, se_user = user_id, se_tenant = tenant_id, se_absolute = sx_absolute d,
         se_ip = ip, se_agent = Option.bind (map_option (take 512) user_agent) nonempty, se_created = now, se_revoked = None, se_reason = None\<rparr>)) (\<lambda>_.
     ret d))))))"

definition session_revoke :: "(string \<Rightarrow> string) \<Rightarrow> string \<Rightarrow> string \<Rightarrow> unit cp" where
  "session_revoke sha256 session_id reason =
     andthen (hgetall (sess session_id)) (\<lambda>data.
     andthen (delete (sess session_id)) (\<lambda>_.
     andthen (case Option.bind (Option.bind data (\<lambda>h. h ''user_id'')) nonempty of
                None \<Rightarrow> ret ()
              | Some u \<Rightarrow> (case uuid_of u of None \<Rightarrow> raise INTERNAL_ERROR | Some n \<Rightarrow> srem (sess_user n) session_id)) (\<lambda>_.
     writes (REVOKE_SESSION (sha256 session_id) reason))))"

definition session_get :: "clock_lib \<Rightarrow> (string \<Rightarrow> string) \<Rightarrow> string \<Rightarrow> session_data option cp" where
  "session_get lib sha256 session_id =
     andthen (hgetall (sess session_id)) (\<lambda>data.
     case data of
       None \<Rightarrow> ret None
     | Some h \<Rightarrow>
         (case h ''absolute_expires_at'' of
            None \<Rightarrow> raise INTERNAL_ERROR
          | Some a \<Rightarrow>
              andthen clock (\<lambda>now.
              if now \<ge> cl_from_iso lib a then andthen (session_revoke sha256 session_id ''expired'') (\<lambda>_. raise SESSION_EXPIRED)
              else andthen (expire (sess session_id) session_idle_seconds) (\<lambda>_.
                case (Option.bind (h ''user_id'') uuid_of, Option.bind (h ''tenant_id'') uuid_of, h ''role'', h ''csrf_token'', h ''created_at'') of
                  (Some u, Some t, Some r, Some c, Some at_time) \<Rightarrow>
                    ret (Some \<lparr>sx_id = session_id, sx_user = u, sx_tenant = t, sx_role = r, sx_csrf = c,
                               sx_created = cl_from_iso lib at_time, sx_absolute = cl_from_iso lib a\<rparr>)
                | _ \<Rightarrow> raise INTERNAL_ERROR))))"

fun revoke_each :: "nat \<Rightarrow> string option \<Rightarrow> string list \<Rightarrow> nat \<Rightarrow> nat cp" where
  "revoke_each user except [] revoked = ret revoked"
| "revoke_each user except (sid # sids) revoked =
     (if Some sid = except then revoke_each user except sids revoked
      else andthen (delete (sess sid)) (\<lambda>_.
           andthen (srem (sess_user user) sid) (\<lambda>_.
           revoke_each user except sids (revoked + 1))))"

definition revoke_all_for_user :: "(string \<Rightarrow> string) \<Rightarrow> nat \<Rightarrow> string \<Rightarrow> string option \<Rightarrow> nat cp" where
  "revoke_all_for_user sha256 user_id reason except_session_id =
     andthen (smembers (sess_user user_id)) (\<lambda>session_ids.
     andthen (revoke_each user_id except_session_id session_ids 0) (\<lambda>revoked.
     andthen (writes (case except_session_id of
                None \<Rightarrow> REVOKE_USER_SESSIONS user_id reason
              | Some e \<Rightarrow> REVOKE_USER_SESSIONS_EXCEPT user_id (sha256 e) reason)) (\<lambda>_.
     ret revoked)))"

subsection \<open>Tenant states\<close>

definition TENANT_STATUS_TTL_SECONDS :: nat where "TENANT_STATUS_TTL_SECONDS = 60"

definition SELECT_TENANT_BY_ID :: "nat \<Rightarrow> cp_db \<Rightarrow> cp_tenant option" where
  "SELECT_TENANT_BY_ID t db = find (\<lambda>r. ct_id r = t) (db_tenants db)"

definition tenant_status_get :: "nat \<Rightarrow> tenant_row option cp" where
  "tenant_status_get tenant_id =
     andthen (hgetall (tenantstatus tenant_id)) (\<lambda>cached.
     case cached of
       Some h \<Rightarrow>
         (case (h ''status'', h ''abuse_frozen'') of
            (Some s, Some a) \<Rightarrow> ret (Some \<lparr>tr_status = s, tr_abuse_frozen = (a = ''1'')\<rparr>)
          | _ \<Rightarrow> raise INTERNAL_ERROR)
     | None \<Rightarrow>
         andthen (reads (SELECT_TENANT_BY_ID tenant_id)) (\<lambda>row.
         case row of
           None \<Rightarrow> ret None
         | Some t \<Rightarrow>
             andthen (hset (tenantstatus tenant_id) [(''status'', ct_status t), (''abuse_frozen'', if ct_abuse t then ''1'' else ''0'')]) (\<lambda>_.
             andthen (expire (tenantstatus tenant_id) TENANT_STATUS_TTL_SECONDS) (\<lambda>_.
             ret (Some \<lparr>tr_status = ct_status t, tr_abuse_frozen = ct_abuse t\<rparr>)))))"

definition tenant_status_invalidate :: "nat \<Rightarrow> unit cp" where
  "tenant_status_invalidate tenant_id = delete (tenantstatus tenant_id)"

subsection \<open>The guard of a console route\<close>

definition BLOCKED_TENANT_STATUSES :: "string list" where
  "BLOCKED_TENANT_STATUSES = [''purged'', ''provisioning_failed'', ''provisioning'']"

record cp_request =
  rq_sid :: "string option"
  rq_method :: string
  rq_csrf :: "string option"
  rq_path :: string

record cp_principal =
  pr_session :: session_data
  pr_status :: tenant_row

text \<open>\<^verbatim>\<open>request.method.upper() in MUTATING_METHODS\<close>.\<close>

definition is_mutating :: "string \<Rightarrow> bool" where
  "is_mutating m = (py_lower m \<in> py_lower ` set MUTATING_METHODS)"

definition audit_denial :: "cp_request \<Rightarrow> session_data \<Rightarrow> string \<Rightarrow> unit cp" where
  "audit_denial req s reason_code =
     best_effort (audit_standalone (sx_tenant s) \<lparr>ae_type = ''user'', ae_id = ''usr_'' @ uuid_str (sx_user s)\<rparr> ''authz.denied''
       \<lparr>ae_type = ''route'', ae_id = rq_method req @ '' '' @ rq_path req\<rparr> None None (Some reason_code))"

definition denied :: "cp_request \<Rightarrow> session_data \<Rightarrow> string \<Rightarrow> cp_error \<Rightarrow> 'a cp" where
  "denied req s reason_code e = andthen (audit_denial req s reason_code) (\<lambda>_. raise e)"

definition require_roles ::
  "clock_lib \<Rightarrow> (string \<Rightarrow> string) \<Rightarrow> string list \<Rightarrow> bool \<Rightarrow> cp_request \<Rightarrow> cp_principal cp" where
  "require_roles lib sha256 roles allow_frozen_write req =
     (case Option.bind (rq_sid req) nonempty of
        None \<Rightarrow> raise AUTH_REQUIRED
      | Some session_id \<Rightarrow>
          andthen (session_get lib sha256 session_id) (\<lambda>found.
          case found of
            None \<Rightarrow> raise AUTH_REQUIRED
          | Some s \<Rightarrow>
              andthen (tenant_status_get (sx_tenant s)) (\<lambda>status.
              if (case status of None \<Rightarrow> True | Some st \<Rightarrow> tr_status st \<in> set BLOCKED_TENANT_STATUSES)
              then andthen (session_revoke sha256 (sx_id s) ''tenant_unavailable'') (\<lambda>_. raise AUTH_REQUIRED)
              else
                let st = the status; mutating = is_mutating (rq_method req) in
                if mutating \<and> (case Option.bind (rq_csrf req) nonempty of None \<Rightarrow> True | Some p \<Rightarrow> p \<noteq> sx_csrf s)
                then denied req s ''csrf_failed'' AUTH_REQUIRED
                else if sx_role s \<notin> set roles then denied req s ''role_forbidden'' FORBIDDEN_ROLE
                else if mutating \<and> \<not> allow_frozen_write \<and> tr_abuse_frozen st
                then denied req s ''tenant_frozen_abuse'' (TENANT_FROZEN ''abuse'')
                else if mutating \<and> \<not> allow_frozen_write \<and> tr_status st = ''frozen''
                then denied req s ''tenant_frozen_trial'' (TENANT_FROZEN ''trial'')
                else ret \<lparr>pr_session = s, pr_status = st\<rparr>)))"

subsection \<open>What a session id stands for\<close>

text \<open>Ghost state beside the world: the data each id was minted for, the ids handed out to a browser, the ids revoked by a completed
  call, and the last time an id was used.\<close>

record ghost =
  g_minted :: "string \<Rightarrow> session_data option"
  g_handed :: "string set"
  g_revoked :: "string set"
  g_used :: "string \<Rightarrow> nat"

definition token_ok :: "string \<Rightarrow> bool" where
  "token_ok sid \<longleftrightarrow> sid \<noteq> [] \<and> CHR '':'' \<notin> set sid"

definition is_uuid :: "nat \<Rightarrow> bool" where
  "is_uuid n \<longleftrightarrow> n < 2 ^ 128"

lemma uuid_back: "is_uuid n \<Longrightarrow> uuid_of (uuid_str n) = Some n"
  unfolding is_uuid_def by (rule uuid_of_str)

definition minted_ok :: "nat \<Rightarrow> ghost \<Rightarrow> bool" where
  "minted_ok now g \<longleftrightarrow>
     (\<forall>sid d. g_minted g sid = Some d \<longrightarrow> token_ok sid \<and> sx_id d = sid \<and> is_uuid (sx_user d) \<and> is_uuid (sx_tenant d)
        \<and> sx_created d \<le> now \<and> sx_absolute d = sx_created d + session_absolute_seconds)
     \<and> g_handed g \<subseteq> dom (g_minted g) \<and> g_revoked g \<subseteq> dom (g_minted g) \<and> (\<forall>sid. g_used g sid \<le> now)"

text \<open>A key of the session family holds the hash of a minted session or is the index of a user.\<close>

definition sess_keys_ok :: "clock_lib \<Rightarrow> ghost \<Rightarrow> rval redis \<Rightarrow> bool" where
  "sess_keys_ok lib g r \<longleftrightarrow>
     (\<forall>sid v e. r (sess sid) = Some (v, e) \<longrightarrow>
        (\<exists>d. g_minted g sid = Some d \<and> v = RHash (map_of (session_hash lib d)))
        \<or> (\<exists>u xs. sess sid = sess_user u \<and> v = RSet xs \<and> (\<forall>x \<in> set xs. token_ok x)))"

text \<open>A session that may still be used is in the index of its user, and the index lives long enough.\<close>

definition indexed :: "ghost \<Rightarrow> nat \<Rightarrow> rval redis \<Rightarrow> bool" where
  "indexed g now r \<longleftrightarrow>
     (\<forall>sid \<in> g_handed g. \<forall>d. g_minted g sid = Some d \<longrightarrow> r (sess sid) \<noteq> None \<longrightarrow> now < sx_absolute d \<longrightarrow>
        (\<exists>xs e. r (sess_user (sx_user d)) = Some (RSet xs, e) \<and> sid \<in> set xs \<and> (\<forall>t. e = Some t \<longrightarrow> sx_absolute d \<le> t)))"

definition idle_ok :: "ghost \<Rightarrow> rval redis \<Rightarrow> bool" where
  "idle_ok g r \<longleftrightarrow>
     (\<forall>sid \<in> g_handed g. \<forall>v e. r (sess sid) = Some (v, e) \<longrightarrow> (\<exists>t. e = Some t \<and> t \<le> g_used g sid + session_idle_seconds))"

definition revoked_ok :: "ghost \<Rightarrow> nat \<Rightarrow> rval redis \<Rightarrow> bool" where
  "revoked_ok g now r \<longleftrightarrow>
     (\<forall>sid \<in> g_revoked g. \<forall>d. g_minted g sid = Some d \<longrightarrow> r (sess sid) = None \<or> sx_absolute d \<le> now)"

definition sess_inv :: "clock_lib \<Rightarrow> ghost \<Rightarrow> nat \<Rightarrow> rval redis \<Rightarrow> bool" where
  "sess_inv lib g now r \<longleftrightarrow> minted_ok now g \<and> sess_keys_ok lib g r \<and> indexed g now r \<and> idle_ok g r \<and> revoked_ok g now r"

lemma sess_inject [simp]: "sess a = sess b \<longleftrightarrow> a = b"
  by (simp add: sess_def)

lemma sess_user_sess: "sess_user u = sess (''user:'' @ uuid_str u)"
  by (simp add: sess_def sess_user_def)

lemma token_not_user [simp]: "token_ok sid \<Longrightarrow> sess sid \<noteq> sess_user u" "token_ok sid \<Longrightarrow> sess_user u \<noteq> sess sid"
  by (auto simp: token_ok_def sess_user_sess)

lemma minted_facts:
  assumes "minted_ok now g" and "g_minted g sid = Some d"
  shows "token_ok sid" "sx_id d = sid" "is_uuid (sx_user d)" "is_uuid (sx_tenant d)" "sx_created d \<le> now"
    "sx_absolute d = sx_created d + session_absolute_seconds"
  using assms by (simp_all add: minted_ok_def)

lemma sess_inv_minted: "sess_inv lib g now r \<Longrightarrow> minted_ok now g"
  by (simp add: sess_inv_def)

lemma not_token_user: "\<not> token_ok (''user:'' @ uuid_str u)"
  by (simp add: token_ok_def)

lemma minted_key:
  assumes "sess_inv lib g now r" and "r (sess sid) = Some (v, e)" and "token_ok sid"
  obtains d where "g_minted g sid = Some d" "v = RHash (map_of (session_hash lib d))"
proof -
  have "(\<exists>d. g_minted g sid = Some d \<and> v = RHash (map_of (session_hash lib d))) \<or> (\<exists>u. sess sid = sess_user u)"
    using assms(1,2) unfolding sess_inv_def sess_keys_ok_def by meson
  then show ?thesis using token_not_user(1) [OF assms(3)] that by auto
qed

lemma index_key:
  assumes "sess_inv lib g now r" and "r (sess_user u) = Some (v, e)"
  obtains xs where "v = RSet xs" "\<forall>x \<in> set xs. token_ok x"
proof -
  have "(\<exists>d. g_minted g (''user:'' @ uuid_str u) = Some d) \<or> (\<exists>xs. v = RSet xs \<and> (\<forall>x \<in> set xs. token_ok x))"
    using assms unfolding sess_inv_def sess_keys_ok_def sess_user_sess by meson
  then show ?thesis using minted_facts(1) [OF sess_inv_minted [OF assms(1)]] not_token_user that by blast
qed

subsection \<open>What the commands do to the invariant\<close>

text \<open>Deleting a session is always safe.\<close>

lemma sess_inv_delete: "sess_inv lib g now r \<Longrightarrow> token_ok sid \<Longrightarrow> sess_inv lib g now (r(sess sid := None))"
  unfolding sess_inv_def sess_keys_ok_def indexed_def idle_ok_def revoked_ok_def
  by simp

text \<open>Changing the index of a user is safe if it keeps every session that may still be used.\<close>

definition index_keeps :: "ghost \<Rightarrow> nat \<Rightarrow> rval redis \<Rightarrow> string \<Rightarrow> (rval \<times> nat option) option \<Rightarrow> bool" where
  "index_keeps g now r k entry \<longleftrightarrow>
     (\<forall>sid d. sid \<in> g_handed g \<longrightarrow> g_minted g sid = Some d \<longrightarrow> sess_user (sx_user d) = k \<longrightarrow> r (sess sid) \<noteq> None \<longrightarrow> now < sx_absolute d \<longrightarrow>
        (\<exists>xs e. entry = Some (RSet xs, e) \<and> sid \<in> set xs \<and> (\<forall>t. e = Some t \<longrightarrow> sx_absolute d \<le> t)))"

lemma index_keepsD:
  assumes "index_keeps g now r k entry" and "sid \<in> g_handed g" "g_minted g sid = Some d" "sess_user (sx_user d) = k" "r (sess sid) \<noteq> None" "now < sx_absolute d"
  obtains xs e where "entry = Some (RSet xs, e)" "sid \<in> set xs" "\<forall>t. e = Some t \<longrightarrow> sx_absolute d \<le> t"
  using assms unfolding index_keeps_def by metis

lemma index_keeps_self: "sess_inv lib g now r \<Longrightarrow> index_keeps g now r k (r k)"
  unfolding sess_inv_def indexed_def index_keeps_def by blast

lemma sess_inv_index:
  assumes inv: "sess_inv lib g now r" and entry: "\<And>v e. entry = Some (v, e) \<Longrightarrow> \<exists>xs. v = RSet xs \<and> (\<forall>x \<in> set xs. token_ok x)"
    and keeps: "index_keeps g now r (sess_user u) entry"
  shows "sess_inv lib g now (r(sess_user u := entry))"
proof -
  let ?r = "r(sess_user u := entry)"
  have m: "minted_ok now g" by (rule sess_inv_minted [OF inv])
  have same: "?r (sess s) = r (sess s)" if "g_minted g s = Some d" for s d using minted_facts(1) [OF m that] by simp
  have "sess_keys_ok lib g ?r"
    unfolding sess_keys_ok_def
  proof (intro allI impI)
    fix sid v e assume r: "?r (sess sid) = Some (v, e)"
    show "(\<exists>d. g_minted g sid = Some d \<and> v = RHash (map_of (session_hash lib d)))
        \<or> (\<exists>u xs. sess sid = sess_user u \<and> v = RSet xs \<and> (\<forall>x \<in> set xs. token_ok x))"
    proof (cases "sess sid = sess_user u")
      case True
      then show ?thesis using r entry by auto
    next
      case False
      then have "r (sess sid) = Some (v, e)" using r by simp
      then show ?thesis using inv unfolding sess_inv_def sess_keys_ok_def by meson
    qed
  qed
  moreover have "indexed g now ?r"
    unfolding indexed_def
  proof (intro ballI allI impI)
    fix s d assume s: "s \<in> g_handed g" "g_minted g s = Some d" "?r (sess s) \<noteq> None" "now < sx_absolute d"
    show "\<exists>ys e. ?r (sess_user (sx_user d)) = Some (RSet ys, e) \<and> s \<in> set ys \<and> (\<forall>t. e = Some t \<longrightarrow> sx_absolute d \<le> t)"
    proof (cases "sess_user (sx_user d) = sess_user u")
      case True
      then show ?thesis using keeps s same [OF s(2)] unfolding index_keeps_def by simp
    next
      case False
      then show ?thesis using inv s same [OF s(2)] unfolding sess_inv_def indexed_def by simp
    qed
  qed
  moreover have "idle_ok g ?r"
    unfolding idle_ok_def
  proof (intro ballI allI impI)
    fix s v e assume s: "s \<in> g_handed g" "?r (sess s) = Some (v, e)"
    then obtain d where "g_minted g s = Some d" using m unfolding minted_ok_def by blast
    then have "r (sess s) = Some (v, e)" using same s(2) by simp
    then show "\<exists>t. e = Some t \<and> t \<le> g_used g s + session_idle_seconds"
      using inv s(1) unfolding sess_inv_def idle_ok_def by blast
  qed
  moreover have "revoked_ok g now ?r"
    using inv same unfolding sess_inv_def revoked_ok_def by simp
  ultimately show ?thesis using m by (simp add: sess_inv_def)
qed

lemma sess_inv_srem:
  assumes inv: "sess_inv lib g now r" and gone: "r (sess sid) = None" and idx: "r (sess_user u) = Some (RSet xs, e)"
  shows "sess_inv lib g now (r(sess_user u := (if removeAll sid xs = [] then None else Some (RSet (removeAll sid xs), e))))"
proof (rule sess_inv_index [OF inv])
  obtain ys where "RSet xs = RSet ys" "\<forall>x \<in> set ys. token_ok x" using index_key [OF inv idx] .
  then show "\<exists>ys. v = RSet ys \<and> (\<forall>x \<in> set ys. token_ok x)"
    if "(if removeAll sid xs = [] then None else Some (RSet (removeAll sid xs), e)) = Some (v, e')" for v e'
    using that by (auto split: if_splits)
  show "index_keeps g now r (sess_user u) (if removeAll sid xs = [] then None else Some (RSet (removeAll sid xs), e))"
    unfolding index_keeps_def
  proof (intro allI impI)
    fix s d assume s: "s \<in> g_handed g" "g_minted g s = Some d" "sess_user (sx_user d) = sess_user u" "r (sess s) \<noteq> None" "now < sx_absolute d"
    then obtain ys e' where "r (sess_user u) = Some (RSet ys, e')" "s \<in> set ys" "\<forall>t. e' = Some t \<longrightarrow> sx_absolute d \<le> t"
      by (rule index_keepsD [OF index_keeps_self [OF inv]])
    then have i: "s \<in> set xs" "\<forall>t. e = Some t \<longrightarrow> sx_absolute d \<le> t" using idx by auto
    have "s \<noteq> sid" using s(4) gone by auto
    then have mem: "s \<in> set (removeAll sid xs)" using i(1) by simp
    then have "removeAll sid xs \<noteq> []" by (metis empty_iff list.set(1))
    then show "\<exists>ys e'. (if removeAll sid xs = [] then None else Some (RSet (removeAll sid xs), e)) = Some (RSet ys, e')
        \<and> s \<in> set ys \<and> (\<forall>t. e' = Some t \<longrightarrow> sx_absolute d \<le> t)" using mem i(2) by auto
  qed
qed

lemma sess_inv_sadd:
  assumes inv: "sess_inv lib g now r" and tok: "token_ok sid"
  shows "redis_get now (sess_user u) r = None \<Longrightarrow> sess_inv lib g now (r(sess_user u \<mapsto> (RSet [sid], None)))"
    and "r (sess_user u) = Some (RSet xs, e) \<Longrightarrow> sess_inv lib g now (r(sess_user u \<mapsto> (RSet (List.insert sid xs), e)))"
proof -
  assume none: "redis_get now (sess_user u) r = None"
  have "index_keeps g now r (sess_user u) entry" for entry
    unfolding index_keeps_def
  proof (intro allI impI)
    fix s d assume s: "s \<in> g_handed g" "g_minted g s = Some d" "sess_user (sx_user d) = sess_user u" "r (sess s) \<noteq> None" "now < sx_absolute d"
    then obtain xs e where "r (sess_user u) = Some (RSet xs, e)" "\<forall>t. e = Some t \<longrightarrow> sx_absolute d \<le> t"
      by (rule index_keepsD [OF index_keeps_self [OF inv]])
    then have "redis_get now (sess_user u) r = Some (RSet xs)" using s(5) by (cases e) (auto simp: redis_get_def)
    then show "\<exists>xs e. entry = Some (RSet xs, e) \<and> s \<in> set xs \<and> (\<forall>t. e = Some t \<longrightarrow> sx_absolute d \<le> t)" using none by simp
  qed
  then show "sess_inv lib g now (r(sess_user u \<mapsto> (RSet [sid], None)))" by (intro sess_inv_index [OF inv]) (use tok in auto)
next
  assume idx: "r (sess_user u) = Some (RSet xs, e)"
  obtain ys where "RSet xs = RSet ys" "\<forall>x \<in> set ys. token_ok x" using index_key [OF inv idx] .
  then have xs: "\<forall>x \<in> set xs. token_ok x" by simp
  show "sess_inv lib g now (r(sess_user u \<mapsto> (RSet (List.insert sid xs), e)))"
  proof (rule sess_inv_index [OF inv])
    show "\<exists>zs. v = RSet zs \<and> (\<forall>x \<in> set zs. token_ok x)" if "Some (RSet (List.insert sid xs), e) = Some (v, e')" for v e'
      using that xs tok by auto
    show "index_keeps g now r (sess_user u) (Some (RSet (List.insert sid xs), e))"
      using index_keeps_self [OF inv, of "sess_user u"] idx unfolding index_keeps_def by simp
  qed
qed

lemma sess_inv_expire_index:
  assumes inv: "sess_inv lib g now r" and idx: "r (sess_user u) = Some (v, e)"
  shows "sess_inv lib g now (r(sess_user u \<mapsto> (v, Some (now + session_absolute_seconds))))"
proof (rule sess_inv_index [OF inv])
  obtain xs where xs: "v = RSet xs" "\<forall>x \<in> set xs. token_ok x" using index_key [OF inv idx] .
  then show "\<exists>zs. v' = RSet zs \<and> (\<forall>x \<in> set zs. token_ok x)" if "Some (v, Some (now + session_absolute_seconds)) = Some (v', e')" for v' e'
    using that by auto
  show "index_keeps g now r (sess_user u) (Some (v, Some (now + session_absolute_seconds)))"
    unfolding index_keeps_def
  proof (intro allI impI)
    fix s d assume s: "s \<in> g_handed g" "g_minted g s = Some d" "sess_user (sx_user d) = sess_user u" "r (sess s) \<noteq> None" "now < sx_absolute d"
    then obtain ys e' where "r (sess_user u) = Some (RSet ys, e')" "s \<in> set ys" by (rule index_keepsD [OF index_keeps_self [OF inv]])
    then have "s \<in> set xs" using idx xs by auto
    moreover have "sx_absolute d \<le> now + session_absolute_seconds" using minted_facts(5,6) [OF sess_inv_minted [OF inv] s(2)] by simp
    ultimately show "\<exists>ys e. Some (v, Some (now + session_absolute_seconds)) = Some (RSet ys, e) \<and> s \<in> set ys \<and> (\<forall>t. e = Some t \<longrightarrow> sx_absolute d \<le> t)"
      using xs by auto
  qed
qed

text \<open>A new session under an id that is not in use, and the use of a session.\<close>

definition mint :: "session_data \<Rightarrow> ghost \<Rightarrow> ghost" where
  "mint d g = g\<lparr>g_minted := (g_minted g)(sx_id d \<mapsto> d)\<rparr>"

lemma sess_inv_ghost_mint:
  assumes inv: "sess_inv lib g now r" and "g_minted g (sx_id d) = None" and "token_ok (sx_id d)" and "is_uuid (sx_user d)" "is_uuid (sx_tenant d)"
    and "sx_created d = now" "sx_absolute d = now + session_absolute_seconds"
  shows "sess_inv lib (mint d g) now r \<and> r (sess (sx_id d)) = None"
proof -
  have nh: "sx_id d \<notin> g_handed g" "sx_id d \<notin> g_revoked g"
    using sess_inv_minted [OF inv] assms(2) unfolding minted_ok_def by auto
  have none: "r (sess (sx_id d)) = None"
  proof (cases "r (sess (sx_id d))")
    case (Some p)
    then obtain d' where "g_minted g (sx_id d) = Some d'" using minted_key [OF inv, of "sx_id d" "fst p" "snd p"] assms(3) by auto
    then show ?thesis using assms(2) by simp
  qed
  have "minted_ok now (mint d g)" using sess_inv_minted [OF inv] assms unfolding minted_ok_def mint_def by auto
  moreover have "sess_keys_ok lib (mint d g) r"
    using inv none unfolding sess_inv_def sess_keys_ok_def mint_def by auto
  moreover have "indexed (mint d g) now r" "idle_ok (mint d g) r" "revoked_ok (mint d g) now r"
    using inv nh none unfolding sess_inv_def indexed_def idle_ok_def revoked_ok_def mint_def by auto
  ultimately show ?thesis using none by (simp add: sess_inv_def)
qed

lemma sess_inv_hset:
  assumes inv: "sess_inv lib g now r" and "g_minted g sid = Some d" and "sid \<notin> g_handed g" "sid \<notin> g_revoked g"
  shows "sess_inv lib g now (r(sess sid \<mapsto> (RHash (map_of (session_hash lib d)), e)))"
proof -
  have tok: "token_ok sid" using minted_facts(1) [OF sess_inv_minted [OF inv] assms(2)] .
  show ?thesis using inv assms(2-) tok
    unfolding sess_inv_def sess_keys_ok_def indexed_def idle_ok_def revoked_ok_def by auto
qed

lemma sess_inv_touch:
  assumes inv: "sess_inv lib g now r" and "token_ok sid" and "r (sess sid) = Some (v, e)" and "sid \<in> g_handed g \<longrightarrow> g_used g sid = now"
  shows "sess_inv lib g now (r(sess sid \<mapsto> (v, Some (now + session_idle_seconds))))"
proof -
  obtain d where "g_minted g sid = Some d" "v = RHash (map_of (session_hash lib d))" using minted_key [OF inv assms(3,2)] .
  then show ?thesis using assms
    unfolding sess_inv_def sess_keys_ok_def indexed_def idle_ok_def revoked_ok_def by auto
qed

subsection \<open>What the operations do to the invariant\<close>

definition hand :: "string \<Rightarrow> nat \<Rightarrow> ghost \<Rightarrow> ghost" where
  "hand sid now g = g\<lparr>g_handed := insert sid (g_handed g), g_used := (g_used g)(sid := now)\<rparr>"

definition use :: "string \<Rightarrow> nat \<Rightarrow> ghost \<Rightarrow> ghost" where
  "use sid now g = g\<lparr>g_used := (g_used g)(sid := now)\<rparr>"

definition revoke_ids :: "string set \<Rightarrow> ghost \<Rightarrow> ghost" where
  "revoke_ids S g = g\<lparr>g_revoked := g_revoked g \<union> S\<rparr>"

lemma sess_inv_use:
  assumes "sess_inv lib g now r"
  shows "sess_inv lib (use sid now g) now r"
proof -
  have u: "g_used g s \<le> now" for s using sess_inv_minted [OF assms] by (simp add: minted_ok_def)
  have "idle_ok (use sid now g) r"
    unfolding idle_ok_def
  proof (intro ballI allI impI)
    fix s v e assume s: "s \<in> g_handed (use sid now g)" "r (sess s) = Some (v, e)"
    have "idle_ok g r" "s \<in> g_handed g" using assms s(1) by (simp_all add: sess_inv_def use_def)
    then obtain t where "e = Some t" "t \<le> g_used g s + session_idle_seconds" using s(2) unfolding idle_ok_def by blast
    then show "\<exists>t. e = Some t \<and> t \<le> g_used (use sid now g) s + session_idle_seconds" using u [of s] by (auto simp: use_def)
  qed
  moreover have "minted_ok now (use sid now g)"
    using sess_inv_minted [OF assms] unfolding minted_ok_def by (simp add: use_def)
  moreover have "sess_keys_ok lib (use sid now g) r = sess_keys_ok lib g r" by (simp add: sess_keys_ok_def use_def)
  moreover have "indexed (use sid now g) now r = indexed g now r" by (simp add: indexed_def use_def)
  moreover have "revoked_ok (use sid now g) now r = revoked_ok g now r" by (simp add: revoked_ok_def use_def)
  ultimately show ?thesis using assms by (simp add: sess_inv_def)
qed

lemma sess_inv_revoke_ids:
  assumes "sess_inv lib g now r" and "\<And>sid. sid \<in> S \<Longrightarrow> \<exists>d. g_minted g sid = Some d \<and> (r (sess sid) = None \<or> sx_absolute d \<le> now)"
  shows "sess_inv lib (revoke_ids S g) now r"
proof -
  have "\<forall>sid \<in> S. \<forall>d. g_minted g sid = Some d \<longrightarrow> r (sess sid) = None \<or> sx_absolute d \<le> now" "S \<subseteq> dom (g_minted g)"
    using assms(2) by fastforce+
  then show ?thesis using assms(1)
    unfolding sess_inv_def minted_ok_def sess_keys_ok_def indexed_def idle_ok_def revoked_ok_def revoke_ids_def by auto
qed

lemma sess_inv_hand:
  assumes "sess_inv lib g now r" and "g_minted g sid = Some d" and "r (sess sid) = Some (v, Some (now + session_idle_seconds))"
    and "r (sess_user (sx_user d)) = Some (RSet xs, Some t)" "sid \<in> set xs" "sx_absolute d \<le> t"
  shows "sess_inv lib (hand sid now g) now r"
proof -
  have "sess_inv lib (use sid now g) now r" by (rule sess_inv_use [OF assms(1)])
  then show ?thesis using assms(2-)
    unfolding sess_inv_def minted_ok_def sess_keys_ok_def indexed_def idle_ok_def revoked_ok_def use_def hand_def by auto
qed

lemma valid_create:
  assumes d: "d = new_session sid csrf u t role now" and g: "g_minted g sid = Some d" "sid \<notin> g_handed g" "sid \<notin> g_revoked g"
  shows "valid (rw now (\<lambda>r. sess_inv lib g now r \<and> r (sess sid) = None)) (session_create lib sha256 sid csrf u t role ip agent)
    (\<lambda>d' w. d' = d \<and> rw now (sess_inv lib (hand sid now g) now) w) (rw now (sess_inv lib g now))"
proof -
  have data: "sx_user d = u" "sx_absolute d = now + session_absolute_seconds" by (simp_all add: d new_session_def)
  let ?h = "RHash (map_of (session_hash lib d))"
  let ?A1 = "\<lambda>r. sess_inv lib g now r \<and> r (sess sid) = Some (?h, None)"
  let ?A2 = "\<lambda>r. sess_inv lib g now r \<and> r (sess sid) = Some (?h, Some (now + session_idle_seconds))"
  let ?A3 = "\<lambda>r. ?A2 r \<and> (\<exists>xs. redis_get now (sess_user u) r = Some (RSet xs) \<and> sid \<in> set xs)"
  let ?A4 = "\<lambda>r. ?A2 r \<and> (\<exists>xs. r (sess_user u) = Some (RSet xs, Some (now + session_absolute_seconds)) \<and> sid \<in> set xs)"
  have tok: "token_ok sid" if "sess_inv lib g now r" for r using minted_facts(1) [OF sess_inv_minted [OF that] g(1)] .
  have 1: "valid (rw now (\<lambda>r. sess_inv lib g now r \<and> r (sess sid) = None)) (hset (sess sid) (session_hash lib d))
      (\<lambda>_. rw now ?A1) (rw now (sess_inv lib g now))"
    by (rule rw_hset) (simp_all add: redis_get_def sess_inv_hset g)
  have 2: "valid (rw now ?A1) (expire (sess sid) session_idle_seconds) (\<lambda>_. rw now ?A2) (rw now (sess_inv lib g now))"
    by (rule rw_expire) (auto simp: redis_get_def sess_inv_hset g)
  have 3: "valid (rw now ?A2) (sadd (sess_user u) sid) (\<lambda>_. rw now ?A3) (rw now (sess_inv lib g now))"
  proof (rule rw_sadd)
    fix r xs e assume a: "?A2 r" and x: "redis_get now (sess_user u) r = Some (RSet xs)" "r (sess_user u) = Some (RSet xs, e)"
    then have "sess_inv lib g now (r(sess_user u \<mapsto> (RSet (List.insert sid xs), e)))" using sess_inv_sadd(2) tok by blast
    then show "?A3 (r(sess_user u \<mapsto> (RSet (List.insert sid xs), e))) \<and> sess_inv lib g now (r(sess_user u \<mapsto> (RSet (List.insert sid xs), e)))"
      using a x tok by (auto simp: redis_get_def split: option.splits if_splits)
  qed (use sess_inv_sadd(1) tok in \<open>auto simp: redis_get_def\<close>)
  have 4: "valid (rw now ?A3) (expire (sess_user u) session_absolute_seconds) (\<lambda>_. rw now ?A4) (rw now (sess_inv lib g now))"
    by (rule rw_expire) (use sess_inv_expire_index tok in auto)
  have 5: "valid (rw now ?A4) (on_db op) (\<lambda>_. rw now ?A4) (rw now (sess_inv lib g now))" for op :: "nat \<Rightarrow> cp_db \<Rightarrow> cp_error + unit \<times> cp_db"
    by (rule rw_db) simp
  have 6: "valid (rw now ?A4) (ret d) (\<lambda>d' w. d' = d \<and> rw now (sess_inv lib (hand sid now g) now) w) (rw now (sess_inv lib g now))"
    by (rule valid_ret) (auto simp: rw_def data intro!: sess_inv_hand [OF _ g(1)])
  show ?thesis
    unfolding session_create_def Let_def d [symmetric]
    by (rule valid_clock_at) (unfold d [symmetric], intro valid_andthen [OF 1] valid_andthen [OF 2] valid_andthen [OF 3] valid_andthen [OF 4] valid_andthen [OF 5] 6)
qed

text \<open>Revocation of one session.\<close>

lemma valid_revoke:
  assumes g: "g_minted g sid = Some d"
  shows "valid (rw now (sess_inv lib g now)) (session_revoke sha256 sid reason)
    (\<lambda>_. rw now (sess_inv lib (revoke_ids {sid} g) now)) (rw now (sess_inv lib g now))"
proof -
  let ?A = "\<lambda>r. sess_inv lib g now r \<and> r (sess sid) = None"
  have tok: "token_ok sid" if "sess_inv lib g now r" for r using minted_facts(1) [OF sess_inv_minted [OF that] g] .
  have 1: "valid (rw now (sess_inv lib g now)) (hgetall (sess sid)) (\<lambda>_. rw now (sess_inv lib g now)) (rw now (sess_inv lib g now))"
    by (rule valid_weaken [OF rw_hgetall [of "sess_inv lib g now" "sess_inv lib g now"]]) (auto simp: rw_def)
  have 2: "valid (rw now (sess_inv lib g now)) (delete (sess sid)) (\<lambda>_. rw now ?A) (rw now (sess_inv lib g now))"
    by (rule rw_delete) (use sess_inv_delete tok in auto)
  have 3: "valid (rw now ?A) (srem (sess_user n) sid) (\<lambda>_. rw now ?A) (rw now (sess_inv lib g now))" for n
    by (rule rw_srem) (use sess_inv_srem tok in auto)
  have 4: "valid (rw now ?A) (case x of None \<Rightarrow> ret () | Some u \<Rightarrow> (case uuid_of u of None \<Rightarrow> raise INTERNAL_ERROR | Some n \<Rightarrow> srem (sess_user n) sid))
      (\<lambda>_. rw now ?A) (rw now (sess_inv lib g now))" for x
    using 3 by (auto split: option.split simp: rw_def intro!: valid_ret valid_raise)
  have 5: "valid (rw now ?A) (writes q) (\<lambda>_. rw now (sess_inv lib (revoke_ids {sid} g) now)) (rw now (sess_inv lib g now))" for q
    by (rule valid_weaken [OF rw_writes [of ?A "sess_inv lib g now"]]) (auto simp: rw_def g intro!: sess_inv_revoke_ids)
  show ?thesis unfolding session_revoke_def
    by (intro valid_andthen [OF 1] valid_andthen [OF 2] valid_andthen [OF 4] 5)
qed

text \<open>Revocation of all sessions of a user, with or without an exception.\<close>

lemma valid_revoke_each:
  assumes "\<forall>x \<in> set sids. token_ok x"
  shows "valid (rw now (\<lambda>r. sess_inv lib g now r \<and> (\<forall>x \<in> D. r (sess x) = None))) (revoke_each u except sids n)
    (\<lambda>_. rw now (\<lambda>r. sess_inv lib g now r \<and> (\<forall>x \<in> D \<union> {x \<in> set sids. Some x \<noteq> except}. r (sess x) = None))) (rw now (sess_inv lib g now))"
  using assms
proof (induction sids arbitrary: D n)
  case Nil
  show ?case by (auto simp: rw_def intro!: valid_ret)
next
  case (Cons sid sids)
  let ?A = "\<lambda>D r. sess_inv lib g now r \<and> (\<forall>x \<in> D. r (sess x) = None)"
  have tok: "token_ok sid" using Cons.prems by simp
  show ?case
  proof (cases "Some sid = except")
    case True
    then have "{x \<in> set (sid # sids). Some x \<noteq> except} = {x \<in> set sids. Some x \<noteq> except}" by auto
    then show ?thesis using Cons True by simp
  next
    case False
    then have s: "D \<union> {x \<in> set (sid # sids). Some x \<noteq> except} = insert sid D \<union> {x \<in> set sids. Some x \<noteq> except}" by auto
    have 1: "valid (rw now (?A D)) (delete (sess sid)) (\<lambda>_. rw now (?A (insert sid D))) (rw now (sess_inv lib g now))"
      by (rule rw_delete) (use sess_inv_delete tok in auto)
    have 2: "valid (rw now (?A (insert sid D))) (srem (sess_user u) sid) (\<lambda>_. rw now (?A (insert sid D))) (rw now (sess_inv lib g now))"
    proof (rule rw_srem)
      fix r xs e assume a: "?A (insert sid D) r" and x: "redis_get now (sess_user u) r = Some (RSet xs)" "r (sess_user u) = Some (RSet xs, e)"
      let ?r = "r(sess_user u := (if removeAll sid xs = [] then None else Some (RSet (removeAll sid xs), e)))"
      have "sess_inv lib g now ?r" using a x(2) by (intro sess_inv_srem) auto
      moreover have "\<forall>x \<in> insert sid D. ?r (sess x) = None"
      proof
        fix x assume "x \<in> insert sid D"
        then have "r (sess x) = None" by (rule bspec [OF conjunct2 [OF a]])
        then show "?r (sess x) = None" using x(2) by (cases "sess x = sess_user u") simp_all
      qed
      ultimately show "?A (insert sid D) ?r \<and> sess_inv lib g now ?r" by (intro conjI)
    qed auto
    have 3: "valid (rw now (?A (insert sid D))) (revoke_each u except sids (n + 1))
        (\<lambda>_. rw now (?A (insert sid D \<union> {x \<in> set sids. Some x \<noteq> except}))) (rw now (sess_inv lib g now))"
      by (rule Cons.IH) (use Cons.prems in simp)
    show ?thesis unfolding s revoke_each.simps if_not_P [OF False]
      by (intro valid_andthen [OF 1] valid_andthen [OF 2] 3)
  qed
qed

definition sessions_of :: "ghost \<Rightarrow> nat \<Rightarrow> string set" where
  "sessions_of g u = {sid \<in> g_handed g. \<exists>d. g_minted g sid = Some d \<and> sx_user d = u}"

lemma valid_revoke_all:
  "valid (rw now (sess_inv lib g now)) (revoke_all_for_user sha256 u reason except)
    (\<lambda>_. rw now (sess_inv lib (revoke_ids {sid \<in> sessions_of g u. Some sid \<noteq> except} g) now)) (rw now (sess_inv lib g now))"
proof -
  let ?I = "sess_inv lib g now"
  define dead where "dead r = {sid. r (sess sid) = None}" for r :: "rval redis"
  define left where "left r xs \<longleftrightarrow> (\<forall>sid \<in> sessions_of g u. sid \<in> set xs \<or> r (sess sid) = None \<or> (\<exists>d. g_minted g sid = Some d \<and> sx_absolute d \<le> now))"
    for r :: "rval redis" and xs
  have covered: "left r xs \<and> (\<forall>x \<in> set xs. token_ok x)"
    if inv: "?I r" and m: "redis_get now (sess_user u) r = Some (RSet xs) \<or> redis_get now (sess_user u) r = None \<and> xs = []" for r xs
  proof
    show "\<forall>x \<in> set xs. token_ok x"
    proof (cases "redis_get now (sess_user u) r")
      case None
      then show ?thesis using m by simp
    next
      case (Some v)
      then obtain e where "r (sess_user u) = Some (v, e)" by (rule redis_get_SomeE)
      then obtain ys where "v = RSet ys" "\<forall>x \<in> set ys. token_ok x" by (rule index_key [OF inv])
      then show ?thesis using m Some by simp
    qed
    show "left r xs"
      unfolding left_def
    proof
      fix sid assume "sid \<in> sessions_of g u"
      then obtain d where d: "sid \<in> g_handed g" "g_minted g sid = Some d" "sx_user d = u" by (auto simp: sessions_of_def)
      show "sid \<in> set xs \<or> r (sess sid) = None \<or> (\<exists>d. g_minted g sid = Some d \<and> sx_absolute d \<le> now)"
      proof (cases "r (sess sid) = None \<or> sx_absolute d \<le> now")
        case False
        then obtain ys e where i: "r (sess_user u) = Some (RSet ys, e)" "sid \<in> set ys" "\<forall>t. e = Some t \<longrightarrow> sx_absolute d \<le> t"
          using index_keepsD [OF index_keeps_self [OF inv] d(1,2)] d(3) by (metis not_le)
        then have "redis_get now (sess_user u) r = Some (RSet ys)" using False by (cases e) (auto simp: redis_get_def)
        then show ?thesis using m i(2) by auto
      qed (use d in auto)
    qed
  qed
  have 2: "valid (rw now (\<lambda>r. ?I r \<and> left r xs \<and> (\<forall>x \<in> set xs. token_ok x))) (revoke_each u except xs 0)
      (\<lambda>_. rw now (\<lambda>r. ?I r \<and> left r (if except = None then [] else [the except]))) (rw now ?I)" for xs
  proof (rule validI)
    fix w e w' assume a: "rw now (\<lambda>r. ?I r \<and> left r xs \<and> (\<forall>x \<in> set xs. token_ok x)) w" and run: "revoke_each u except xs 0 w = (Inl e, w')"
    show "rw now ?I w'" by (rule validD_Inl [OF valid_revoke_each [of xs now lib g "{}"] _ run]) (use a in \<open>simp_all add: rw_def\<close>)
  next
    fix w x w' assume a: "rw now (\<lambda>r. ?I r \<and> left r xs \<and> (\<forall>x \<in> set xs. token_ok x)) w" and run: "revoke_each u except xs 0 w = (Inr x, w')"
    have pre: "rw now (\<lambda>r. ?I r \<and> (\<forall>x \<in> dead (cw_redis w). r (sess x) = None)) w" using a by (simp add: rw_def dead_def)
    have "rw now (\<lambda>r. ?I r \<and> (\<forall>x \<in> dead (cw_redis w) \<union> {x \<in> set xs. Some x \<noteq> except}. r (sess x) = None)) w'"
      by (rule validD_Inr [OF valid_revoke_each pre run]) (use a in \<open>simp add: rw_def\<close>)
    then have p: "cw_now w' = now" "?I (cw_redis w')" "\<And>x. cw_redis w (sess x) = None \<or> x \<in> set xs \<and> Some x \<noteq> except \<Longrightarrow> cw_redis w' (sess x) = None"
      by (simp_all add: rw_def dead_def)
    have "left (cw_redis w') (if except = None then [] else [the except])"
      unfolding left_def
    proof
      fix sid assume "sid \<in> sessions_of g u"
      then have "sid \<in> set xs \<or> cw_redis w (sess sid) = None \<or> (\<exists>d. g_minted g sid = Some d \<and> sx_absolute d \<le> now)"
        using a by (simp add: rw_def left_def)
      then show "sid \<in> set (if except = None then [] else [the except]) \<or> cw_redis w' (sess sid) = None \<or> (\<exists>d. g_minted g sid = Some d \<and> sx_absolute d \<le> now)"
        using p(3) [of sid] by (cases "Some sid = except") (simp_all, auto)
    qed
    then show "rw now (\<lambda>r. ?I r \<and> left r (if except = None then [] else [the except])) w'" using p by (simp add: rw_def)
  qed
  have 1: "valid (rw now ?I) (smembers (sess_user u)) (\<lambda>xs. rw now (\<lambda>r. ?I r \<and> left r xs \<and> (\<forall>x \<in> set xs. token_ok x))) (rw now ?I)"
    by (rule valid_weaken [OF rw_smembers [of ?I ?I]]) (use covered in \<open>auto simp: rw_def\<close>)
  have 3: "valid (rw now (\<lambda>r. ?I r \<and> left r (if except = None then [] else [the except]))) (writes q)
      (\<lambda>_. rw now (\<lambda>r. ?I r \<and> left r (if except = None then [] else [the except]))) (rw now ?I)" for q
    by (rule rw_writes) simp
  have 4: "valid (rw now (\<lambda>r. ?I r \<and> left r (if except = None then [] else [the except]))) (ret n)
      (\<lambda>_. rw now (sess_inv lib (revoke_ids {sid \<in> sessions_of g u. Some sid \<noteq> except} g) now)) (rw now ?I)" for n :: nat
  proof (rule valid_ret)
    fix w assume a: "rw now (\<lambda>r. ?I r \<and> left r (if except = None then [] else [the except])) w"
    have "sess_inv lib (revoke_ids {sid \<in> sessions_of g u. Some sid \<noteq> except} g) now (cw_redis w)"
      by (rule sess_inv_revoke_ids) (use a in \<open>auto simp: rw_def left_def sessions_of_def split: if_splits\<close>)
    then show "rw now (sess_inv lib (revoke_ids {sid \<in> sessions_of g u. Some sid \<noteq> except} g) now) w" using a by (simp add: rw_def)
  qed
  show ?thesis unfolding revoke_all_for_user_def
    by (intro valid_andthen [OF 1] valid_andthen [OF 2] valid_andthen [OF 3] 4)
qed

lemma valid_False: "(\<And>w. \<not> P w) \<Longrightarrow> valid P m Q E"
  by (simp add: valid_def)

text \<open>The use of a session, by an id a browser presents.\<close>

definition vouches :: "ghost \<Rightarrow> nat \<Rightarrow> string \<Rightarrow> session_data \<Rightarrow> bool" where
  "vouches g now sid d \<longleftrightarrow> g_minted g sid = Some d \<and> now < sx_created d + 7 * 86400 \<and> sid \<notin> g_revoked g
     \<and> (sid \<in> g_handed g \<longrightarrow> now < g_used g sid + 86400)"

lemma session_hash_lookup:
  "map_of (session_hash lib d) ''user_id'' = Some (uuid_str (sx_user d))" "map_of (session_hash lib d) ''tenant_id'' = Some (uuid_str (sx_tenant d))"
  "map_of (session_hash lib d) ''role'' = Some (sx_role d)" "map_of (session_hash lib d) ''csrf_token'' = Some (sx_csrf d)"
  "map_of (session_hash lib d) ''created_at'' = Some (cl_iso lib (sx_created d))"
  "map_of (session_hash lib d) ''absolute_expires_at'' = Some (cl_iso lib (sx_absolute d))"
  by (simp_all add: session_hash_def)

lemma live_session:
  assumes inv: "sess_inv lib g now r" and get: "redis_get now (sess sid) r = Some (RHash h)"
  obtains d where "g_minted g sid = Some d" "h = map_of (session_hash lib d)" "token_ok sid"
    "now < sx_absolute d \<longrightarrow> vouches g now sid d"
proof -
  obtain e where e: "r (sess sid) = Some (RHash h, e)" and live: "\<forall>t. e = Some t \<longrightarrow> now < t" using redis_get_SomeE [OF get] by metis
  have "(\<exists>d. g_minted g sid = Some d \<and> RHash h = RHash (map_of (session_hash lib d))) \<or> (\<exists>xs. RHash h = RSet xs)"
    using inv e unfolding sess_inv_def sess_keys_ok_def by meson
  then obtain d where d: "g_minted g sid = Some d" "h = map_of (session_hash lib d)" by auto
  have m: "minted_ok now g" by (rule sess_inv_minted [OF inv])
  have "vouches g now sid d" if l: "now < sx_absolute d"
  proof -
    have "revoked_ok g now r" using inv by (simp add: sess_inv_def)
    then have "sid \<notin> g_revoked g" using d(1) e l unfolding revoked_ok_def by fastforce
    moreover have "now < g_used g sid + 86400" if handed: "sid \<in> g_handed g"
    proof -
      have "idle_ok g r" using inv by (simp add: sess_inv_def)
      then obtain t where "e = Some t" "t \<le> g_used g sid + session_idle_seconds" using handed e unfolding idle_ok_def by blast
      then show ?thesis using live by (auto simp: session_idle_seconds_def)
    qed
    ultimately show ?thesis using d l minted_facts(6) [OF m d(1)] by (simp add: vouches_def session_absolute_seconds_def)
  qed
  then show ?thesis using that [of d] d minted_facts(1) [OF m d(1)] by blast
qed

lemma session_read_back:
  assumes "minted_ok now g" and "g_minted g sid = Some d" and "iso_ok lib"
  shows "\<lparr>sx_id = sid, sx_user = sx_user d, sx_tenant = sx_tenant d, sx_role = sx_role d, sx_csrf = sx_csrf d,
       sx_created = cl_from_iso lib (cl_iso lib (sx_created d)), sx_absolute = cl_from_iso lib (cl_iso lib (sx_absolute d))\<rparr> = d"
  using minted_facts(2) [OF assms(1,2)] assms(3) by (simp add: iso_ok_def)

lemma valid_get:
  assumes iso: "iso_ok lib"
  shows "valid (rw now (sess_inv lib g now)) (session_get lib sha256 sid)
      (\<lambda>res w. rw now (sess_inv lib (use sid now g) now) w \<and> (\<forall>d. res = Some d \<longrightarrow> vouches g now sid d \<and> now < sx_absolute d)) (rw now (sess_inv lib (use sid now g) now))"
proof -
  let ?g = "use sid now g" and ?P = "\<lambda>d. vouches g now sid d \<and> now < sx_absolute d"
  let ?I = "sess_inv lib ?g now"
  let ?A = "\<lambda>data r. sess_inv lib g now r \<and> redis_get now (sess sid) r = map_option RHash data"
  have 1: "valid (rw now (sess_inv lib g now)) (hgetall (sess sid)) (\<lambda>data. rw now (?A data)) (rw now ?I)"
    by (rule rw_hgetall) (rule sess_inv_use)
  have none: "valid (rw now (?A None)) (ret None) (\<lambda>res w. rw now ?I w \<and> (\<forall>d. res = Some d \<longrightarrow> ?P d)) (rw now ?I)"
    by (rule valid_ret) (simp add: rw_def sess_inv_use)
  let ?rest = "\<lambda>h. case h ''absolute_expires_at'' of None \<Rightarrow> raise INTERNAL_ERROR
          | Some a \<Rightarrow>
              andthen clock (\<lambda>now.
              if now \<ge> cl_from_iso lib a then andthen (session_revoke sha256 sid ''expired'') (\<lambda>_. raise SESSION_EXPIRED)
              else andthen (expire (sess sid) session_idle_seconds) (\<lambda>_.
                case (Option.bind (h ''user_id'') uuid_of, Option.bind (h ''tenant_id'') uuid_of, h ''role'', h ''csrf_token'', h ''created_at'') of
                  (Some u, Some t, Some r, Some c, Some at_time) \<Rightarrow>
                    ret (Some \<lparr>sx_id = sid, sx_user = u, sx_tenant = t, sx_role = r, sx_csrf = c,
                               sx_created = cl_from_iso lib at_time, sx_absolute = cl_from_iso lib a\<rparr>)
                | _ \<Rightarrow> raise INTERNAL_ERROR))"
  have some: "valid (rw now (?A (Some h))) (?rest h) (\<lambda>res w. rw now ?I w \<and> (\<forall>d. res = Some d \<longrightarrow> ?P d)) (rw now ?I)" for h
  proof (cases "\<exists>r. ?A (Some h) r")
    case False
    then show ?thesis by (intro valid_False) (simp add: rw_def)
  next
    case True
    then obtain r where r: "sess_inv lib g now r" "redis_get now (sess sid) r = Some (RHash h)" by auto
    obtain d where d: "g_minted g sid = Some d" "h = map_of (session_hash lib d)" "token_ok sid" "now < sx_absolute d \<longrightarrow> vouches g now sid d"
      by (rule live_session [OF r])
    have m: "minted_ok now g" by (rule sess_inv_minted [OF r(1)])
    have gd: "g_minted ?g sid = Some d" "g_used ?g sid = now" using d by (simp_all add: use_def)
    have a: "cl_from_iso lib (cl_iso lib (sx_absolute d)) = sx_absolute d" using iso by (simp add: iso_ok_def)
    note lk = session_hash_lookup [of lib d]
    have pre: "rw now (?A (Some h)) w \<Longrightarrow> rw now ?I w" for w by (simp add: rw_def sess_inv_use)
    show ?thesis
    proof (cases "sx_absolute d \<le> now")
      case True
      have "valid (rw now ?I) (andthen (session_revoke sha256 sid ''expired'') (\<lambda>_. raise SESSION_EXPIRED)) (\<lambda>res w. rw now ?I w \<and> (\<forall>d. res = Some d \<longrightarrow> ?P d)) (rw now ?I)"
      proof (rule valid_andthen)
        show "valid (rw now ?I) (session_revoke sha256 sid ''expired'') (\<lambda>_. rw now ?I) (rw now ?I)"
          by (rule valid_weaken [OF valid_revoke [OF gd(1)]]) (auto simp: rw_def sess_inv_def minted_ok_def sess_keys_ok_def indexed_def idle_ok_def revoked_ok_def revoke_ids_def)
      qed (rule valid_raise, simp)
      then have "valid (rw now (?A (Some h))) (andthen (session_revoke sha256 sid ''expired'') (\<lambda>_. raise SESSION_EXPIRED)) (\<lambda>res w. rw now ?I w \<and> (\<forall>d. res = Some d \<longrightarrow> ?P d)) (rw now ?I)"
        by (rule valid_weaken) (use pre in simp_all)
      then show ?thesis unfolding d(2) lk option.case
        by (intro valid_clock_at) (use a True in simp)
    next
      case False
      have e: "valid (rw now (?A (Some h))) (expire (sess sid) session_idle_seconds) (\<lambda>_. rw now ?I) (rw now ?I)"
        by (rule rw_expire) (use sess_inv_touch [of lib ?g now] sess_inv_use d(3) gd(2) in auto)
      have u: "Option.bind (Some (uuid_str (sx_user d))) uuid_of = Some (sx_user d)" "Option.bind (Some (uuid_str (sx_tenant d))) uuid_of = Some (sx_tenant d)"
        using minted_facts(3,4) [OF m d(1)] by (simp_all add: uuid_back)
      have "valid (rw now ?I) (ret (Some d)) (\<lambda>res w. rw now ?I w \<and> (\<forall>d. res = Some d \<longrightarrow> ?P d)) (rw now ?I)"
        by (rule valid_ret) (use d(4) False in auto)
      then have "valid (rw now (?A (Some h))) (andthen (expire (sess sid) session_idle_seconds) (\<lambda>_. ret (Some d))) (\<lambda>res w. rw now ?I w \<and> (\<forall>d. res = Some d \<longrightarrow> ?P d)) (rw now ?I)"
        by (rule valid_andthen [OF e])
      then show ?thesis unfolding d(2) lk option.case
        by (intro valid_clock_at) (use a False session_read_back [OF m d(1) iso] in \<open>simp add: u [simplified]\<close>)
    qed
  qed
  show ?thesis unfolding session_get_def
    by (rule valid_andthen [OF 1]) (use none some in \<open>auto split: option.split\<close>)
qed

subsection \<open>Runs of the session store\<close>

text \<open>Time passes, and everything outside the session keys changes arbitrarily; sessions are created under fresh random ids, used under any id a
  browser may present, and revoked. Every command may fail. Only a call that returns hands an id out or counts as a revocation.\<close>

inductive session_step :: "clock_lib \<Rightarrow> (string \<Rightarrow> string) \<Rightarrow> cp_world \<times> ghost \<Rightarrow> cp_world \<times> ghost \<Rightarrow> bool"
  for lib :: clock_lib and sha256 :: "string \<Rightarrow> string" where
  tick: "cw_now w \<le> t \<Longrightarrow> session_step lib sha256 (w, g) (w\<lparr>cw_now := t\<rparr>, g)"
| other: "(\<And>x. cw_redis w' (sess x) = cw_redis w (sess x)) \<Longrightarrow> cw_now w' = cw_now w \<Longrightarrow> session_step lib sha256 (w, g) (w', g)"
| create: "g_minted g sid = None \<Longrightarrow> token_ok sid \<Longrightarrow> is_uuid u \<Longrightarrow> is_uuid t \<Longrightarrow> d = new_session sid csrf u t role (cw_now w) \<Longrightarrow>
    session_create lib sha256 sid csrf u t role ip agent w = (res, w') \<Longrightarrow>
    session_step lib sha256 (w, g) (w', case res of Inl _ \<Rightarrow> mint d g | Inr _ \<Rightarrow> hand sid (cw_now w) (mint d g))"
| present: "session_get lib sha256 sid w = (res, w') \<Longrightarrow> session_step lib sha256 (w, g) (w', use sid (cw_now w) g)"
| revoke: "sid \<in> dom (g_minted g) \<Longrightarrow> session_revoke sha256 sid reason w = (res, w') \<Longrightarrow>
    session_step lib sha256 (w, g) (w', case res of Inl _ \<Rightarrow> g | Inr _ \<Rightarrow> revoke_ids {sid} g)"
| revoke_all: "revoke_all_for_user sha256 u reason except w = (res, w') \<Longrightarrow>
    session_step lib sha256 (w, g) (w', case res of Inl _ \<Rightarrow> g | Inr _ \<Rightarrow> revoke_ids {sid \<in> sessions_of g u. Some sid \<noteq> except} g)"

definition no_ghost :: ghost where
  "no_ghost = \<lparr>g_minted = Map.empty, g_handed = {}, g_revoked = {}, g_used = (\<lambda>_. 0)\<rparr>"

definition in_order :: "clock_lib \<Rightarrow> cp_world \<times> ghost \<Rightarrow> bool" where
  "in_order lib s \<longleftrightarrow> sess_inv lib (snd s) (cw_now (fst s)) (cw_redis (fst s))"

lemma sess_inv_later: "sess_inv lib g now r \<Longrightarrow> now \<le> t \<Longrightarrow> sess_inv lib g t r"
  unfolding sess_inv_def minted_ok_def indexed_def revoked_ok_def by (auto intro: le_trans)

lemma sess_inv_same:
  assumes "sess_inv lib g now r" and "\<And>x. r' (sess x) = r (sess x)"
  shows "sess_inv lib g now r'"
proof -
  have "r' (sess_user u) = r (sess_user u)" for u unfolding sess_user_sess by (rule assms(2))
  then show ?thesis using assms unfolding sess_inv_def sess_keys_ok_def indexed_def idle_ok_def revoked_ok_def by simp
qed

lemma run_outcome:
  assumes "valid (rw now A) m Q (rw now B)" and "m w = (res, w')" and "cw_now w = now" "A (cw_redis w)"
    and "\<And>x. res = Inr x \<Longrightarrow> Q x w' \<Longrightarrow> cw_now w' = now \<and> C (cw_redis w')" and "\<And>e. res = Inl e \<Longrightarrow> B (cw_redis w') \<Longrightarrow> C (cw_redis w')"
  shows "cw_now w' = now \<and> C (cw_redis w')"
proof -
  have a: "rw now A w" using assms(3,4) by (simp add: rw_def)
  show ?thesis
  proof (cases res)
    case (Inl e)
    have "rw now B w'" by (rule validD_Inl [OF assms(1) a assms(2) [unfolded Inl]])
    then show ?thesis using assms(6) [OF Inl] by (simp add: rw_def)
  next
    case (Inr x)
    have "Q x w'" by (rule validD_Inr [OF assms(1) a assms(2) [unfolded Inr]])
    then show ?thesis by (rule assms(5) [OF Inr])
  qed
qed

lemma session_step_in_order:
  assumes "session_step lib sha256 s s'" and iso: "iso_ok lib" and ok: "in_order lib s"
  shows "in_order lib s'"
  using assms(1) ok
proof cases
  case (tick w t g)
  then show ?thesis using ok by (auto simp: in_order_def intro: sess_inv_later)
next
  case (other w' w g)
  then show ?thesis using ok sess_inv_same [of lib g "cw_now w" "cw_redis w" "cw_redis w'"] by (simp add: in_order_def)
next
  case (create g sid u t d csrf role w ip agent res w')
  have data: "sx_id d = sid" "sx_user d = u" "sx_tenant d = t" "sx_created d = cw_now w" "sx_absolute d = cw_now w + session_absolute_seconds"
    using create(7) by (simp_all add: new_session_def)
  have inv: "sess_inv lib g (cw_now w) (cw_redis w)" using ok create(1) by (simp add: in_order_def)
  have m: "sess_inv lib (mint d g) (cw_now w) (cw_redis w) \<and> cw_redis w (sess sid) = None"
    using sess_inv_ghost_mint [OF inv, of d] create(3-6) data by simp
  have g: "g_minted (mint d g) sid = Some d" "sid \<notin> g_handed (mint d g)" "sid \<notin> g_revoked (mint d g)"
    using create(3) sess_inv_minted [OF inv] data(1) by (auto simp: mint_def minted_ok_def)
  have "cw_now w' = cw_now w \<and> sess_inv lib (case res of Inl _ \<Rightarrow> mint d g | Inr _ \<Rightarrow> hand sid (cw_now w) (mint d g)) (cw_now w) (cw_redis w')"
    by (rule run_outcome [OF valid_create [OF create(7) g] create(8)]) (use m in \<open>auto simp: rw_def\<close>)
  then show ?thesis using create(2) by (simp add: in_order_def)
next
  case (present sid w res w' g)
  have "cw_now w' = cw_now w \<and> sess_inv lib (use sid (cw_now w) g) (cw_now w) (cw_redis w')"
    by (rule run_outcome [OF valid_get [OF iso] present(3)]) (use ok present(1) in \<open>auto simp: rw_def in_order_def\<close>)
  then show ?thesis using present(2) by (simp add: in_order_def)
next
  case (revoke sid g reason w res w')
  then obtain d where d: "g_minted g sid = Some d" by auto
  have "cw_now w' = cw_now w \<and> sess_inv lib (case res of Inl _ \<Rightarrow> g | Inr _ \<Rightarrow> revoke_ids {sid} g) (cw_now w) (cw_redis w')"
    by (rule run_outcome [OF valid_revoke [OF d] revoke(4)]) (use ok revoke(1) in \<open>auto simp: rw_def in_order_def\<close>)
  then show ?thesis using revoke(2) by (simp add: in_order_def)
next
  case (revoke_all u reason except w res w' g)
  have "cw_now w' = cw_now w \<and> sess_inv lib (case res of Inl _ \<Rightarrow> g | Inr _ \<Rightarrow> revoke_ids {sid \<in> sessions_of g u. Some sid \<noteq> except} g) (cw_now w) (cw_redis w')"
    by (rule run_outcome [OF valid_revoke_all revoke_all(3)]) (use ok revoke_all(1) in \<open>auto simp: rw_def in_order_def\<close>)
  then show ?thesis using revoke_all(2) by (simp add: in_order_def)
qed

lemma session_run_in_order:
  assumes "(session_step lib sha256)\<^sup>*\<^sup>* s s'" and "iso_ok lib" and "in_order lib s"
  shows "in_order lib s'"
  using assms by (induction rule: rtranclp_induct) (blast intro: session_step_in_order)+

lemma in_order_start: "(\<And>x. cw_redis w (sess x) = None) \<Longrightarrow> in_order lib (w, no_ghost)"
  unfolding in_order_def sess_inv_def minted_ok_def sess_keys_ok_def indexed_def idle_ok_def revoked_ok_def
  by (simp add: no_ghost_def sess_user_sess)

lemma andthen_InrE:
  assumes "andthen m f w = (Inr y, w'')"
  obtains x w' where "m w = (Inr x, w')" "f x w' = (Inr y, w'')"
  using assms by (auto simp: andthen_def split: prod.splits sum.splits)

lemma denied_raises: "denied req s reason e w = (Inr x, w') \<Longrightarrow> False"
  by (auto simp: denied_def audit_denial_def best_effort_def andthen_def raise_def)

lemma nonempty_Some: "Option.bind x nonempty = Some v \<Longrightarrow> x = Some v \<and> v \<noteq> []"
  by (cases x) (auto simp: nonempty_def split: if_splits)

lemma require_roles_Inr:
  assumes "require_roles lib sha256 roles allow_frozen req w = (Inr p, w')"
  obtains sid w1 w2 where "rq_sid req = Some sid" "session_get lib sha256 sid w = (Inr (Some (pr_session p)), w1)"
    "tenant_status_get (sx_tenant (pr_session p)) w1 = (Inr (Some (pr_status p)), w2)"
    "tr_status (pr_status p) \<notin> set BLOCKED_TENANT_STATUSES" "sx_role (pr_session p) \<in> set roles"
    "is_mutating (rq_method req) \<Longrightarrow> rq_csrf req = Some (sx_csrf (pr_session p))"
    "is_mutating (rq_method req) \<Longrightarrow> \<not> allow_frozen \<Longrightarrow> \<not> tr_abuse_frozen (pr_status p) \<and> tr_status (pr_status p) \<noteq> ''frozen''"
proof -
  obtain sid where sid: "Option.bind (rq_sid req) nonempty = Some sid"
    using assms by (cases "Option.bind (rq_sid req) nonempty") (auto simp: require_roles_def raise_def)
  note run = assms [unfolded require_roles_def sid option.case]
  obtain found w1 where f: "session_get lib sha256 sid w = (Inr found, w1)" by (rule andthen_InrE [OF run])
  then obtain s where s: "found = Some s" using run by (cases found) (auto simp: andthen_def raise_def)
  note run1 = run [unfolded andthen_Inr [of "session_get lib sha256 sid", OF f] s option.case]
  obtain status w2 where st: "tenant_status_get (sx_tenant s) w1 = (Inr status, w2)" by (rule andthen_InrE [OF run1])
  note run2 = run1 [unfolded andthen_Inr [of "tenant_status_get (sx_tenant s)", OF st]]
  obtain stt where status: "status = Some stt" "tr_status stt \<notin> set BLOCKED_TENANT_STATUSES"
    using run2 by (auto simp: andthen_def raise_def split: option.splits if_splits prod.splits sum.splits)
  note run3 = run2 [unfolded status(1) option.case if_not_P [OF status(2)] option.sel Let_def]
  have p: "p = \<lparr>pr_session = s, pr_status = stt\<rparr>" "sx_role s \<in> set roles"
    "is_mutating (rq_method req) \<Longrightarrow> rq_csrf req = Some (sx_csrf s)"
    "is_mutating (rq_method req) \<Longrightarrow> \<not> allow_frozen \<Longrightarrow> \<not> tr_abuse_frozen stt \<and> tr_status stt \<noteq> ''frozen''"
    using run3 by (auto simp: ret_def dest!: denied_raises nonempty_Some split: if_splits option.splits)
  show ?thesis using that [of sid w1 w2] nonempty_Some [OF sid] f s st status p by simp
qed


lemmas run_defs = andthen_def clock_def ret_def raise_def on_redis_def on_db_def reads_def writes_def take_fate_def hset_def hgetall_def expire_def delete_def
  sadd_def srem_def smembers_def redis_get_def redis_expire_def Let_def

definition demo_user :: user_row where
  "demo_user = \<lparr>us_id = 2, us_tenant = 4, us_email = ''a@b.c'', us_role = ''admin'', us_state = ''active'', us_hash = Some ''h'', us_failures = 0,
     us_locked = None, us_created = 0, us_deleted = None\<rparr>"

definition demo_cp_tenant :: cp_tenant where
  "demo_cp_tenant = \<lparr>ct_id = 4, ct_account = 3, ct_name = ''n'', ct_status = ''active'', ct_abuse = False, ct_abuse_reason = None, ct_plan = ''trial'',
     ct_trial_expires = None, ct_provisioned_at = None, ct_frozen_at = None, ct_purged_at = None\<rparr>"

definition demo_cp_db :: cp_db where
  "demo_cp_db = \<lparr>db_accounts = [], db_verifications = [], db_tenants = [demo_cp_tenant], db_users = [demo_user], db_sessions = [], db_sagas = [], db_steps = [],
     db_plan_config = [], db_overrides = [], db_platform_config = [], db_abuse_log = [], db_audit = []\<rparr>"

definition demo_world :: cp_world where
  "demo_world = \<lparr>cw_now = 5, cw_redis = Map.empty, cw_db = demo_cp_db, cw_mail = [], cw_http = [], cw_fates = []\<rparr>"

definition demo_session :: session_data where
  "demo_session = new_session ''s'' ''c'' 2 4 ''admin'' 5"

definition demo_in :: cp_world where
  "demo_in = snd (session_create demo_lib id ''s'' ''c'' 2 4 ''admin'' None None demo_world)"

lemma demo_tokens: "token_ok ''s''" "sess ''s'' \<noteq> sess_user 2" "sess_user 2 \<noteq> sess ''s''" "tenantstatus 4 \<noteq> sess x" "tenantstatus 4 \<noteq> sess_user 2"
proof -
  show t: "token_ok ''s''" by (simp add: token_ok_def)
  show "sess ''s'' \<noteq> sess_user 2" "sess_user 2 \<noteq> sess ''s''" using token_not_user [OF t] by blast+
  show "tenantstatus 4 \<noteq> sess x" "tenantstatus 4 \<noteq> sess_user 2" by (simp_all add: tenantstatus_def sess_def sess_user_def)
qed

lemma demo_created:
  "session_create demo_lib id ''s'' ''c'' 2 4 ''admin'' None None demo_world = (Inr demo_session, demo_in)"
  "cw_now demo_in = 5" "cw_fates demo_in = []" "db_tenants (cw_db demo_in) = [demo_cp_tenant]"
  "cw_redis demo_in = [sess ''s'' \<mapsto> (RHash (map_of (session_hash demo_lib demo_session)), Some (5 + session_idle_seconds)),
     sess_user 2 \<mapsto> (RSet [''s''], Some (5 + session_absolute_seconds))]"
  using demo_tokens
  by (simp_all add: demo_in_def session_create_def run_defs demo_world_def demo_session_def INSERT_SESSION_def demo_cp_db_def demo_user_def fun_upd_twist)

definition demo_request :: cp_request where
  "demo_request = \<lparr>rq_sid = Some ''s'', rq_method = ''POST'', rq_csrf = Some ''c'', rq_path = ''/v1/users''\<rparr>"

lemma demo_lib_iso: "iso_ok demo_lib"
  by (simp add: iso_ok_def demo_lib_def)

lemma demo_guard: "\<exists>w'. require_roles demo_lib id [''admin''] False demo_request demo_in
    = (Inr \<lparr>pr_session = demo_session, pr_status = \<lparr>tr_status = ''active'', tr_abuse_frozen = False\<rparr>\<rparr>, w')"
proof -
  have u: "uuid_of (uuid_str 2) = Some 2" "uuid_of (uuid_str 4) = Some 4" by (simp_all add: uuid_of_str)
  have l: "map_of (session_hash demo_lib demo_session) ''absolute_expires_at'' = Some (cl_iso demo_lib (5 + session_absolute_seconds))"
    "map_of (session_hash demo_lib demo_session) ''user_id'' = Some (uuid_str 2)" "map_of (session_hash demo_lib demo_session) ''tenant_id'' = Some (uuid_str 4)"
    "map_of (session_hash demo_lib demo_session) ''role'' = Some ''admin''" "map_of (session_hash demo_lib demo_session) ''csrf_token'' = Some ''c''"
    "map_of (session_hash demo_lib demo_session) ''created_at'' = Some (cl_iso demo_lib 5)"
    by (simp_all add: session_hash_lookup demo_session_def new_session_def)
  have a: "cl_from_iso demo_lib (cl_iso demo_lib n) = n" for n using demo_lib_iso by (simp add: iso_ok_def)
  have g: "\<exists>w1. session_get demo_lib id ''s'' demo_in = (Inr (Some demo_session), w1) \<and> cw_fates w1 = [] \<and> cw_now w1 = 5 \<and> cw_db w1 = cw_db demo_in
      \<and> cw_redis w1 (tenantstatus 4) = None"
    using demo_tokens demo_created(2-)
    by (simp add: session_get_def run_defs u a l session_idle_seconds_def session_absolute_seconds_def)
      (simp add: demo_session_def new_session_def session_absolute_seconds_def)
  then obtain w1 where w1: "session_get demo_lib id ''s'' demo_in = (Inr (Some demo_session), w1)" "cw_fates w1 = []" "cw_now w1 = 5"
    "cw_db w1 = cw_db demo_in" "cw_redis w1 (tenantstatus 4) = None" by blast
  have s: "\<exists>w2. tenant_status_get 4 w1 = (Inr (Some \<lparr>tr_status = ''active'', tr_abuse_frozen = False\<rparr>), w2)"
    using w1(2-) demo_created(4) by (simp add: tenant_status_get_def run_defs SELECT_TENANT_BY_ID_def demo_cp_tenant_def)
  then obtain w2 where w2: "tenant_status_get 4 w1 = (Inr (Some \<lparr>tr_status = ''active'', tr_abuse_frozen = False\<rparr>), w2)" by blast
  have d: "sx_tenant demo_session = 4" "sx_csrf demo_session = ''c''" "sx_role demo_session = ''admin''" by (simp_all add: demo_session_def new_session_def)
  show ?thesis using w1(1) w2
    by (simp add: require_roles_def demo_request_def nonempty_def andthen_def d BLOCKED_TENANT_STATUSES_def ret_def Let_def)
qed

lemma demo_reached: "(session_step demo_lib id)\<^sup>*\<^sup>* (demo_world, no_ghost) (demo_in, hand ''s'' 5 (mint demo_session no_ghost))"
proof -
  have u: "is_uuid 2" "is_uuid 4" by (simp_all add: is_uuid_def)
  have s: "session_step demo_lib id (demo_world, no_ghost)
      (demo_in, case (Inr demo_session :: cp_error + session_data) of Inl _ \<Rightarrow> mint demo_session no_ghost | Inr _ \<Rightarrow> hand ''s'' (cw_now demo_world) (mint demo_session no_ghost))"
    by (rule session_step.create [OF _ demo_tokens(1) u _ demo_created(1)]) (simp_all add: no_ghost_def demo_session_def demo_world_def)
  then show ?thesis by (simp add: demo_world_def r_into_rtranclp)
qed


end
