(* ===== verification/Console_Auth.thy ===== *)
theory Console_Auth
  imports Sessions
begin

section \<open>Login, passwords and users of the console\<close>

text \<open>
  \<^verbatim>\<open>controlplane/routes/auth.py\<close>, \<^verbatim>\<open>controlplane/routes/users.py\<close> and the password rules of \<^verbatim>\<open>security/passwords.py\<close>. The guards of the
  routes are \<open>require_roles\<close> of \<open>Sessions\<close>; the handlers take the principal it returned. Argon2 and SHA-256 are functions of \<open>cp_lib\<close>, the
  list of breached passwords is data. Cookies and response bodies are not modelled, nor is the time a handler takes.
\<close>

record cp_lib =
  pl_clock :: clock_lib
  pl_sha256 :: "string \<Rightarrow> string"
  pl_verify :: "string \<Rightarrow> string \<Rightarrow> bool"
  pl_hash :: "string \<Rightarrow> string"
  pl_breached :: "string list"

definition MIN_PASSWORD_LENGTH :: nat where "MIN_PASSWORD_LENGTH = 12"

definition MAX_PASSWORD_LENGTH :: nat where "MAX_PASSWORD_LENGTH = 512"

definition validate_password_policy :: "string \<Rightarrow> unit cp" where
  "validate_password_policy password =
     (if length password < MIN_PASSWORD_LENGTH \<or> length password > MAX_PASSWORD_LENGTH then raise PASSWORD_POLICY_VIOLATION else ret ())"

definition is_breached :: "cp_lib \<Rightarrow> string \<Rightarrow> bool" where
  "is_breached lib password = (py_lower password \<in> set (pl_breached lib))"

text \<open>The two checks a new password has to pass, in this order.\<close>

definition check_new_password :: "cp_lib \<Rightarrow> string \<Rightarrow> unit cp" where
  "check_new_password lib password =
     andthen (validate_password_policy password) (\<lambda>_. if is_breached lib password then raise PASSWORD_BREACHED else ret ())"

definition verify_password :: "cp_lib \<Rightarrow> string option \<Rightarrow> string \<Rightarrow> bool" where
  "verify_password lib stored password =
     (case Option.bind stored nonempty of None \<Rightarrow> False | Some h \<Rightarrow> pl_verify lib h password)"

subsection \<open>Statements\<close>

definition tenant_of_user :: "cp_db \<Rightarrow> user_row \<Rightarrow> cp_tenant option" where
  "tenant_of_user db u = find (\<lambda>t. ct_id t = us_tenant u) (db_tenants db)"

definition SELECT_USER_FOR_LOGIN :: "string \<Rightarrow> cp_db \<Rightarrow> (user_row \<times> cp_tenant) option" where
  "SELECT_USER_FOR_LOGIN email db =
     (case sort_key us_created (filter (\<lambda>u. py_lower (us_email u) = py_lower email \<and> us_deleted u = None \<and> tenant_of_user db u \<noteq> None) (db_users db)) of
        [] \<Rightarrow> None
      | u # _ \<Rightarrow> Some (u, the (tenant_of_user db u)))"

definition update_users :: "(user_row \<Rightarrow> bool) \<Rightarrow> (user_row \<Rightarrow> user_row) \<Rightarrow> cp_db \<Rightarrow> cp_db" where
  "update_users hit f db = db\<lparr>db_users := map (\<lambda>u. if hit u then f u else u) (db_users db)\<rparr>"

definition RECORD_LOGIN_FAILURE :: "nat \<Rightarrow> nat option \<Rightarrow> cp_db \<Rightarrow> cp_db" where
  "RECORD_LOGIN_FAILURE user lock =
     update_users (\<lambda>u. us_id u = user) (\<lambda>u. u\<lparr>us_failures := us_failures u + 1, us_locked := lock\<rparr>)"

definition RESET_LOGIN_FAILURES :: "nat \<Rightarrow> cp_db \<Rightarrow> cp_db" where
  "RESET_LOGIN_FAILURES user = update_users (\<lambda>u. us_id u = user) (\<lambda>u. u\<lparr>us_failures := 0, us_locked := None\<rparr>)"

definition SELECT_USER_WITH_TENANT :: "nat \<Rightarrow> cp_db \<Rightarrow> (user_row \<times> cp_tenant) option" where
  "SELECT_USER_WITH_TENANT user db =
     (case find (\<lambda>u. us_id u = user \<and> us_deleted u = None) (db_users db) of
        None \<Rightarrow> None
      | Some u \<Rightarrow> map_option (\<lambda>t. (u, t)) (tenant_of_user db u))"

definition SELECT_USER_AUTH_BY_ID :: "nat \<Rightarrow> cp_db \<Rightarrow> user_row option" where
  "SELECT_USER_AUTH_BY_ID user db = find (\<lambda>u. us_id u = user \<and> us_deleted u = None) (db_users db)"

definition UPDATE_USER_PASSWORD :: "nat \<Rightarrow> string \<Rightarrow> cp_db \<Rightarrow> cp_db" where
  "UPDATE_USER_PASSWORD user h = update_users (\<lambda>u. us_id u = user) (\<lambda>u. u\<lparr>us_hash := Some h\<rparr>)"

definition in_tenant :: "nat \<Rightarrow> nat \<Rightarrow> user_row \<Rightarrow> bool" where
  "in_tenant user tenant u = (us_id u = user \<and> us_tenant u = tenant \<and> us_deleted u = None)"

definition SELECT_USER_IN_TENANT :: "nat \<Rightarrow> nat \<Rightarrow> cp_db \<Rightarrow> user_row option" where
  "SELECT_USER_IN_TENANT user tenant db = find (in_tenant user tenant) (db_users db)"

definition same_email :: "nat \<Rightarrow> string \<Rightarrow> user_row \<Rightarrow> bool" where
  "same_email tenant email u = (us_tenant u = tenant \<and> py_lower (us_email u) = py_lower email \<and> us_deleted u = None)"

definition SELECT_USER_BY_TENANT_EMAIL :: "nat \<Rightarrow> string \<Rightarrow> cp_db \<Rightarrow> user_row option" where
  "SELECT_USER_BY_TENANT_EMAIL tenant email db = find (same_email tenant email) (db_users db)"

definition LIST_USERS :: "nat \<Rightarrow> cp_db \<Rightarrow> user_row list" where
  "LIST_USERS tenant db = sort_key us_created (filter (\<lambda>u. us_tenant u = tenant \<and> us_deleted u = None) (db_users db))"

text \<open>The unique index on tenant and lower-case email, and the primary key.\<close>

definition INSERT_INVITED_USER :: "nat \<Rightarrow> nat \<Rightarrow> string \<Rightarrow> string \<Rightarrow> nat \<Rightarrow> cp_db \<Rightarrow> cp_error + user_row \<times> cp_db" where
  "INSERT_INVITED_USER fresh tenant email role now db =
     (if fresh \<in> us_id ` set (db_users db) \<or> list_ex (same_email tenant email) (db_users db) \<or> tenant \<notin> ct_id ` set (db_tenants db) then Inl INTERNAL_ERROR
      else let u = \<lparr>us_id = fresh, us_tenant = tenant, us_email = email, us_role = role, us_state = ''invited'', us_hash = None, us_failures = 0,
                    us_locked = None, us_created = now, us_deleted = None\<rparr> in
           Inr (u, db\<lparr>db_users := db_users db @ [u]\<rparr>))"

definition UPDATE_USER_ROLE :: "nat \<Rightarrow> nat \<Rightarrow> string \<Rightarrow> cp_db \<Rightarrow> bool \<times> cp_db" where
  "UPDATE_USER_ROLE user tenant role db =
     (list_ex (in_tenant user tenant) (db_users db), update_users (in_tenant user tenant) (\<lambda>u. u\<lparr>us_role := role\<rparr>) db)"

definition SOFT_DELETE_USER :: "nat \<Rightarrow> nat \<Rightarrow> nat \<Rightarrow> cp_db \<Rightarrow> bool \<times> cp_db" where
  "SOFT_DELETE_USER user tenant now db =
     (list_ex (in_tenant user tenant) (db_users db), update_users (in_tenant user tenant) (\<lambda>u. u\<lparr>us_deleted := Some now\<rparr>) db)"

definition invited :: "nat \<Rightarrow> user_row \<Rightarrow> bool" where
  "invited user u = (us_id u = user \<and> us_deleted u = None \<and> us_state u = ''invited'')"

definition ACTIVATE_INVITED_USER :: "nat \<Rightarrow> string \<Rightarrow> cp_db \<Rightarrow> user_row option \<times> cp_db" where
  "ACTIVATE_INVITED_USER user h db =
     (find (invited user) (db_users db), update_users (invited user) (\<lambda>u. u\<lparr>us_state := ''active'', us_hash := Some h\<rparr>) db)"

definition INSERT_VERIFICATION :: "string \<Rightarrow> nat option \<Rightarrow> nat option \<Rightarrow> string \<Rightarrow> nat \<Rightarrow> cp_db \<Rightarrow> cp_error + unit \<times> cp_db" where
  "INSERT_VERIFICATION purpose account user h expires db =
     (if h \<in> ve_hash ` set (db_verifications db) then Inl INTERNAL_ERROR
      else Inr ((), db\<lparr>db_verifications := db_verifications db @
             [\<lparr>ve_purpose = purpose, ve_account = account, ve_user = user, ve_hash = h, ve_expires = expires, ve_used = None\<rparr>]\<rparr>))"

definition consumable :: "string \<Rightarrow> nat \<Rightarrow> verification_row \<Rightarrow> bool" where
  "consumable h now v = (ve_hash v = h \<and> ve_used v = None \<and> ve_expires v > now)"

definition CONSUME_VERIFICATION :: "string \<Rightarrow> nat \<Rightarrow> cp_db \<Rightarrow> verification_row option \<times> cp_db" where
  "CONSUME_VERIFICATION h now db =
     (find (consumable h now) (db_verifications db),
      db\<lparr>db_verifications := map (\<lambda>v. if consumable h now v then v\<lparr>ve_used := Some now\<rparr> else v) (db_verifications db)\<rparr>)"

definition SELECT_VERIFICATION_BY_HASH :: "string \<Rightarrow> cp_db \<Rightarrow> verification_row option" where
  "SELECT_VERIFICATION_BY_HASH h db = find (\<lambda>v. ve_hash v = h) (db_verifications db)"

text \<open>A statement that returns what it changed.\<close>

definition changes :: "(nat \<Rightarrow> cp_db \<Rightarrow> 'a \<times> cp_db) \<Rightarrow> 'a cp" where
  "changes q = on_db (\<lambda>now db. Inr (q now db))"

subsection \<open>Login\<close>

definition login_lockout_threshold :: int where "login_lockout_threshold = 10"

definition login_ip_threshold :: int where "login_ip_threshold = 20"

definition login_throttle_window_seconds :: nat where "login_throttle_window_seconds = 900"

definition throttle_count :: "string \<Rightarrow> int cp" where
  "throttle_count key = get_int key"

definition throttle_bump :: "string \<Rightarrow> int cp" where
  "throttle_bump key =
     andthen (incr key) (\<lambda>count.
     andthen (if count = 1 then expire key login_throttle_window_seconds else ret ()) (\<lambda>_. ret count))"

definition retry_after :: "string \<Rightarrow> nat cp" where
  "retry_after key = andthen (time_to_live key) (\<lambda>ttl. ret (if ttl > 0 then ttl else login_throttle_window_seconds))"

definition limited :: "string \<Rightarrow> 'a cp" where
  "limited key = andthen (retry_after key) (\<lambda>s. raise (RATE_LIMITED s))"

definition bump_ip :: "string option \<Rightarrow> unit cp" where
  "bump_ip ip = (case Option.bind ip nonempty of None \<Rightarrow> ret () | Some a \<Rightarrow> andthen (throttle_bump (throttle_login_ip a)) (\<lambda>_. ret ()))"

definition LOGINABLE_TENANT_STATUSES :: "string list" where
  "LOGINABLE_TENANT_STATUSES = [''active'', ''frozen'']"

definition login_failed :: "string option \<Rightarrow> user_row \<Rightarrow> bool \<Rightarrow> nat \<Rightarrow> 'a cp" where
  "login_failed ip user password_ok now =
     andthen (bump_ip ip) (\<lambda>_.
     andthen (if password_ok then ret ()
              else andthen (throttle_bump (throttle_login_acct (us_id user))) (\<lambda>failures.
                   writes (\<lambda>_. RECORD_LOGIN_FAILURE (us_id user)
                     (if failures \<ge> login_lockout_threshold then Some (now + login_throttle_window_seconds) else None)))) (\<lambda>_.
     andthen (best_effort (audit_standalone (us_tenant user) (user_entity (us_id user)) ''auth.login_failed'' (user_entity (us_id user)) None None
                (Some (if password_ok then ''not_loginable'' else ''bad_password'')))) (\<lambda>_.
     raise AUTH_REQUIRED)))"

definition login ::
  "cp_lib \<Rightarrow> string \<Rightarrow> string \<Rightarrow> string option \<Rightarrow> string option \<Rightarrow> string \<Rightarrow> string \<Rightarrow> session_data cp" where
  "login lib sid csrf ip user_agent email password =
     andthen (case Option.bind ip nonempty of
                None \<Rightarrow> ret ()
              | Some a \<Rightarrow> andthen (throttle_count (throttle_login_ip a)) (\<lambda>n.
                  if n \<ge> login_ip_threshold then limited (throttle_login_ip a) else ret ())) (\<lambda>_.
     andthen (reads (SELECT_USER_FOR_LOGIN (py_strip email))) (\<lambda>found.
     case found of
       None \<Rightarrow> andthen (bump_ip ip) (\<lambda>_. raise AUTH_REQUIRED)
     | Some (user, tenant) \<Rightarrow>
         andthen clock (\<lambda>now.
         andthen (throttle_count (throttle_login_acct (us_id user))) (\<lambda>failures.
         if failures \<ge> login_lockout_threshold \<or> (case us_locked user of None \<Rightarrow> False | Some t \<Rightarrow> t > now)
         then limited (throttle_login_acct (us_id user))
         else
           let password_ok = verify_password lib (us_hash user) password;
               tenant_ok = (ct_status tenant \<in> set LOGINABLE_TENANT_STATUSES);
               user_ok = (us_state user = ''active'') in
           if \<not> (password_ok \<and> tenant_ok \<and> user_ok) then login_failed ip user password_ok now
           else andthen (delete (throttle_login_acct (us_id user))) (\<lambda>_.
                andthen (writes (\<lambda>_. RESET_LOGIN_FAILURES (us_id user))) (\<lambda>_.
                session_create (pl_clock lib) (pl_sha256 lib) sid csrf (us_id user) (us_tenant user) (us_role user) ip user_agent))))))"

subsection \<open>Logout, passwords and invitations\<close>

definition logout :: "cp_lib \<Rightarrow> cp_principal \<Rightarrow> unit cp" where
  "logout lib who =
     andthen (session_revoke (pl_sha256 lib) (sx_id (pr_session who)) ''logout'') (\<lambda>_.
     audit_standalone (sx_tenant (pr_session who)) (user_entity (sx_user (pr_session who))) ''auth.logout'' (user_entity (sx_user (pr_session who)))
       None None None)"

definition me :: "cp_principal \<Rightarrow> (user_row \<times> cp_tenant) cp" where
  "me who =
     andthen (reads (SELECT_USER_WITH_TENANT (sx_user (pr_session who)))) (\<lambda>row.
     case row of None \<Rightarrow> raise SESSION_EXPIRED | Some r \<Rightarrow> ret r)"

definition change_password :: "cp_lib \<Rightarrow> cp_principal \<Rightarrow> string \<Rightarrow> string \<Rightarrow> unit cp" where
  "change_password lib who current_password new_password =
     (let user = sx_user (pr_session who) in
     andthen (reads (SELECT_USER_AUTH_BY_ID user)) (\<lambda>row.
     case Option.bind (Option.bind row us_hash) nonempty of
       None \<Rightarrow> raise SESSION_EXPIRED
     | Some h \<Rightarrow>
         if \<not> pl_verify lib h current_password then raise (VALIDATION_ERROR ''current_password'')
         else
           andthen (check_new_password lib new_password) (\<lambda>_.
           andthen (writes (\<lambda>_. UPDATE_USER_PASSWORD user (pl_hash lib new_password))) (\<lambda>_.
           andthen (revoke_all_for_user (pl_sha256 lib) user ''password_change'' (Some (sx_id (pr_session who)))) (\<lambda>_.
           audit_standalone (sx_tenant (pr_session who)) (user_entity user) ''user.password_changed'' (user_entity user) None None (Some ''self_service''))))))"

definition accept_invite :: "cp_lib \<Rightarrow> string \<Rightarrow> string \<Rightarrow> unit cp" where
  "accept_invite lib token password =
     (let token_hash = pl_sha256 lib token in
     andthen clock (\<lambda>now.
     andthen (reads (SELECT_VERIFICATION_BY_HASH token_hash)) (\<lambda>row.
     case row of
       None \<Rightarrow> raise VERIFICATION_EXPIRED
     | Some v \<Rightarrow>
         (case ve_user v of
            None \<Rightarrow> raise VERIFICATION_EXPIRED
          | Some user \<Rightarrow>
              if ve_purpose v \<noteq> ''user_invite'' then raise VERIFICATION_EXPIRED
              else if ve_used v \<noteq> None then raise VERIFICATION_ALREADY_USED
              else if ve_expires v \<le> now then raise VERIFICATION_EXPIRED
              else
                andthen (check_new_password lib password) (\<lambda>_.
                andthen (changes (CONSUME_VERIFICATION token_hash)) (\<lambda>consumed.
                if consumed = None then raise VERIFICATION_ALREADY_USED
                else
                  andthen (changes (\<lambda>_. ACTIVATE_INVITED_USER user (pl_hash lib password))) (\<lambda>activated.
                  case activated of
                    None \<Rightarrow> raise VERIFICATION_EXPIRED
                  | Some u \<Rightarrow>
                      audit_standalone (us_tenant u) (user_entity (us_id u)) ''user.invite_accepted'' (user_entity (us_id u))
                        (Some [(''state'', JStr ''invited'')]) (Some [(''state'', JStr ''active''), (''role'', JStr (us_role u))]) None)))))))"

subsection \<open>Users\<close>

definition verification_ttl_seconds :: nat where "verification_ttl_seconds = 24 * 3600"

definition fetch_target :: "nat \<Rightarrow> nat \<Rightarrow> user_row cp" where
  "fetch_target user tenant =
     andthen (reads (SELECT_USER_IN_TENANT user tenant)) (\<lambda>row. case row of None \<Rightarrow> raise NOT_FOUND | Some u \<Rightarrow> ret u)"

definition list_users :: "cp_principal \<Rightarrow> user_row list cp" where
  "list_users who = reads (LIST_USERS (sx_tenant (pr_session who)))"

definition send_mail :: "string \<Rightarrow> string \<Rightarrow> unit cp" where
  "send_mail address token w =
     (case take_fate w of (f, w1) \<Rightarrow>
        (if f = Replied then Inr () else Inl INTERNAL_ERROR, if f = Refused then w1 else w1\<lparr>cw_mail := cw_mail w1 @ [(address, token)]\<rparr>))"

definition actor_of :: "cp_principal \<Rightarrow> audit_entity" where
  "actor_of who = user_entity (sx_user (pr_session who))"

definition create_user :: "cp_lib \<Rightarrow> nat \<Rightarrow> string \<Rightarrow> cp_principal \<Rightarrow> string \<Rightarrow> string \<Rightarrow> user_row cp" where
  "create_user lib fresh token who raw_email role =
     (let email = py_strip raw_email; tenant = sx_tenant (pr_session who) in
     andthen (reads (SELECT_USER_BY_TENANT_EMAIL tenant email)) (\<lambda>existing.
     if existing \<noteq> None then raise (VALIDATION_ERROR ''email'')
     else
       andthen (on_db (INSERT_INVITED_USER fresh tenant email role)) (\<lambda>row.
       andthen (on_db (\<lambda>now. INSERT_VERIFICATION ''user_invite'' None (Some (us_id row)) (pl_sha256 lib token) (now + verification_ttl_seconds))) (\<lambda>_.
       andthen (send_mail email token) (\<lambda>_.
       andthen (audit_standalone tenant (actor_of who) ''user.created'' (user_entity (us_id row)) None
                  (Some [(''email'', JStr email), (''role'', JStr role), (''state'', JStr ''invited'')]) None) (\<lambda>_.
       ret row))))))"

definition patch_user :: "cp_lib \<Rightarrow> cp_principal \<Rightarrow> string \<Rightarrow> string option \<Rightarrow> user_row cp" where
  "patch_user lib who user_id role =
     (let tenant = sx_tenant (pr_session who) in
     case parse_public_id USER_PREFIX user_id of
       None \<Rightarrow> raise NOT_FOUND
     | Some target \<Rightarrow>
         andthen (fetch_target target tenant) (\<lambda>row.
         case role of
           None \<Rightarrow> ret row
         | Some r \<Rightarrow>
             if r = us_role row then ret row
             else if target = sx_user (pr_session who) then raise (VALIDATION_ERROR ''role'')
             else
               andthen (changes (\<lambda>_. UPDATE_USER_ROLE target tenant r)) (\<lambda>updated.
               if \<not> updated then raise NOT_FOUND
               else
                 andthen (revoke_all_for_user (pl_sha256 lib) target ''role_change'' None) (\<lambda>_.
                 andthen (audit_standalone tenant (actor_of who) ''user.role_changed'' (user_entity target)
                            (Some [(''role'', JStr (us_role row))]) (Some [(''role'', JStr r)]) None) (\<lambda>_.
                 fetch_target target tenant)))))"

definition delete_user :: "cp_lib \<Rightarrow> cp_principal \<Rightarrow> string \<Rightarrow> unit cp" where
  "delete_user lib who user_id =
     (let tenant = sx_tenant (pr_session who) in
     case parse_public_id USER_PREFIX user_id of
       None \<Rightarrow> raise NOT_FOUND
     | Some target \<Rightarrow>
         if target = sx_user (pr_session who) then raise (VALIDATION_ERROR ''user_id'')
         else
           andthen (fetch_target target tenant) (\<lambda>row.
           andthen (changes (SOFT_DELETE_USER target tenant)) (\<lambda>deleted.
           if \<not> deleted then raise NOT_FOUND
           else
             andthen (revoke_all_for_user (pl_sha256 lib) target ''user_deleted'' None) (\<lambda>_.
             audit_standalone tenant (actor_of who) ''user.deleted'' (user_entity target)
               (Some [(''email'', JStr (us_email row)), (''role'', JStr (us_role row)), (''state'', JStr (us_state row))])
               (Some [(''state'', JStr ''deleted'')]) None))))"

subsection \<open>Changes of credentials end sessions\<close>

lemma on_db_frame: "on_db op w = (res, w') \<Longrightarrow> cw_now w' = cw_now w \<and> cw_redis w' = cw_redis w"
  by (auto simp: on_db_def dest!: take_fate_same split: prod.splits if_splits sum.splits)

lemma reads_Inr: "reads q w = (Inr x, w') \<Longrightarrow> x = q (cw_db w) \<and> cw_db w' = cw_db w \<and> cw_now w' = cw_now w \<and> cw_redis w' = cw_redis w"
  by (auto simp: reads_def on_db_def dest!: take_fate_same split: prod.splits if_splits)

lemma changes_Inr:
  "changes q w = (Inr x, w') \<Longrightarrow> q (cw_now w) (cw_db w) = (x, cw_db w') \<and> cw_now w' = cw_now w \<and> cw_redis w' = cw_redis w"
  by (auto simp: changes_def on_db_def dest!: take_fate_same split: prod.splits if_splits)

lemma writes_Inr: "writes q w = (Inr x, w') \<Longrightarrow> cw_db w' = q (cw_now w) (cw_db w) \<and> cw_now w' = cw_now w \<and> cw_redis w' = cw_redis w"
  by (auto simp: writes_def on_db_def dest!: take_fate_same split: prod.splits if_splits)

lemma audit_frame: "audit_standalone t a k tg b c r w = (res, w') \<Longrightarrow> cw_now w' = cw_now w \<and> cw_redis w' = cw_redis w"
  unfolding audit_standalone_def by (rule on_db_frame)

lemma fetch_target_Inr:
  "fetch_target u t w = (Inr row, w') \<Longrightarrow> SELECT_USER_IN_TENANT u t (cw_db w) = Some row \<and> cw_now w' = cw_now w \<and> cw_redis w' = cw_redis w \<and> cw_db w' = cw_db w"
  by (auto simp: fetch_target_def ret_def raise_def elim!: andthen_InrE dest!: reads_Inr split: option.splits)

definition same_redis :: "cp_world \<Rightarrow> cp_world \<Rightarrow> bool" where
  "same_redis w w' \<longleftrightarrow> cw_now w' = cw_now w \<and> cw_redis w' = cw_redis w"

lemma patch_user_Inr:
  assumes "patch_user lib who uid (Some r) w = (Inr row, w')" and "parse_public_id USER_PREFIX uid = Some u"
    and "SELECT_USER_IN_TENANT u (sx_tenant (pr_session who)) (cw_db w) = Some row0" "us_role row0 \<noteq> r"
  obtains w1 n w2 where "same_redis w w1" "revoke_all_for_user (pl_sha256 lib) u ''role_change'' None w1 = (Inr n, w2)" "same_redis w2 w'"
proof -
  note run = assms(1) [unfolded patch_user_def Let_def assms(2) option.case]
  obtain row1 wa where a: "fetch_target u (sx_tenant (pr_session who)) w = (Inr row1, wa)" by (rule andthen_InrE [OF run])
  have row1: "row1 = row0" "same_redis w wa" using fetch_target_Inr [OF a] assms(3) by (auto simp: same_redis_def)
  note run1 = run [unfolded andthen_Inr [of "fetch_target u (sx_tenant (pr_session who))", OF a] option.case]
  have ne: "r \<noteq> us_role row1" "u \<noteq> sx_user (pr_session who)" using run1 row1 assms(4) by (auto simp: raise_def split: if_splits)
  note run2 = run1 [unfolded if_not_P [OF ne(1)] if_not_P [OF ne(2)]]
  obtain upd wb where b: "changes (\<lambda>_. UPDATE_USER_ROLE u (sx_tenant (pr_session who)) r) wa = (Inr upd, wb)"
    and run3: "(if \<not> upd then raise NOT_FOUND else andthen (revoke_all_for_user (pl_sha256 lib) u ''role_change'' None) (\<lambda>_.
       andthen (audit_standalone (sx_tenant (pr_session who)) (actor_of who) ''user.role_changed'' (user_entity u)
                  (Some [(''role'', JStr (us_role row1))]) (Some [(''role'', JStr r)]) None) (\<lambda>_.
       fetch_target u (sx_tenant (pr_session who))))) wb = (Inr row, w')" by (rule andthen_InrE [OF run2])
  have upd using run3 by (auto simp: raise_def split: if_splits)
  with run3 obtain n w2 where c: "revoke_all_for_user (pl_sha256 lib) u ''role_change'' None wb = (Inr n, w2)"
    and rest: "andthen (audit_standalone (sx_tenant (pr_session who)) (actor_of who) ''user.role_changed'' (user_entity u)
                  (Some [(''role'', JStr (us_role row1))]) (Some [(''role'', JStr r)]) None) (\<lambda>_.
       fetch_target u (sx_tenant (pr_session who))) w2 = (Inr row, w')" by (auto elim: andthen_InrE)
  have "same_redis w2 w'" using rest by (auto simp: same_redis_def elim!: andthen_InrE dest!: fetch_target_Inr audit_frame)
  moreover have "same_redis w wb" using changes_Inr [OF b] row1(2) by (simp add: same_redis_def)
  ultimately show ?thesis using that c by blast
qed

lemma delete_user_Inr:
  assumes "delete_user lib who uid w = (Inr x, w')" and "parse_public_id USER_PREFIX uid = Some u"
  obtains w1 n w2 where "same_redis w w1" "revoke_all_for_user (pl_sha256 lib) u ''user_deleted'' None w1 = (Inr n, w2)" "same_redis w2 w'"
proof -
  have ne: "u \<noteq> sx_user (pr_session who)" using assms by (auto simp: delete_user_def raise_def split: if_splits)
  note run = assms(1) [unfolded delete_user_def Let_def assms(2) option.case if_not_P [OF ne]]
  obtain row wa where a: "fetch_target u (sx_tenant (pr_session who)) w = (Inr row, wa)" by (rule andthen_InrE [OF run])
  note run1 = run [unfolded andthen_Inr [of "fetch_target u (sx_tenant (pr_session who))", OF a]]
  obtain del wb where b: "changes (SOFT_DELETE_USER u (sx_tenant (pr_session who))) wa = (Inr del, wb)" by (rule andthen_InrE [OF run1])
  note run2 = run1 [unfolded andthen_Inr [of "changes (SOFT_DELETE_USER u (sx_tenant (pr_session who)))", OF b]]
  have d: "\<not> \<not> del" using run2 by (auto simp: raise_def split: if_splits)
  note run3 = run2 [unfolded if_not_P [OF d]]
  obtain n w2 where c: "revoke_all_for_user (pl_sha256 lib) u ''user_deleted'' None wb = (Inr n, w2)" by (rule andthen_InrE [OF run3])
  have "same_redis w2 w'"
    using audit_frame [OF run3 [unfolded andthen_Inr [of "revoke_all_for_user (pl_sha256 lib) u ''user_deleted'' None", OF c]]] by (simp add: same_redis_def)
  moreover have "same_redis w wb" using changes_Inr [OF b] fetch_target_Inr [OF a] by (simp add: same_redis_def)
  ultimately show ?thesis using that c by blast
qed

lemma validate_frame: "check_new_password lib p w = (Inr x, w') \<Longrightarrow> w' = w"
  by (auto simp: check_new_password_def validate_password_policy_def andthen_def ret_def raise_def split: if_splits prod.splits sum.splits)

lemma change_password_Inr:
  assumes "change_password lib who old new w = (Inr x, w')"
  obtains w1 n w2 where "same_redis w w1"
    "revoke_all_for_user (pl_sha256 lib) (sx_user (pr_session who)) ''password_change'' (Some (sx_id (pr_session who))) w1 = (Inr n, w2)" "same_redis w2 w'"
proof -
  let ?u = "sx_user (pr_session who)"
  note run = assms [unfolded change_password_def Let_def]
  obtain row wa where a: "reads (SELECT_USER_AUTH_BY_ID ?u) w = (Inr row, wa)" by (rule andthen_InrE [OF run])
  note run1 = run [unfolded andthen_Inr [of "reads (SELECT_USER_AUTH_BY_ID ?u)", OF a]]
  obtain h where h: "Option.bind (Option.bind row us_hash) nonempty = Some h" "\<not> \<not> pl_verify lib h old"
    using run1 by (auto simp: raise_def split: option.splits if_splits)
  note run2 = run1 [unfolded h(1) option.case if_not_P [OF h(2)]]
  obtain y wb where b: "check_new_password lib new wa = (Inr y, wb)" by (rule andthen_InrE [OF run2])
  note run3 = run2 [unfolded andthen_Inr [of "check_new_password lib new", OF b]]
  obtain z wc where c: "writes (\<lambda>_. UPDATE_USER_PASSWORD ?u (pl_hash lib new)) wb = (Inr z, wc)" by (rule andthen_InrE [OF run3])
  note run4 = run3 [unfolded andthen_Inr [of "writes (\<lambda>_. UPDATE_USER_PASSWORD ?u (pl_hash lib new))", OF c]]
  obtain n w2 where d: "revoke_all_for_user (pl_sha256 lib) ?u ''password_change'' (Some (sx_id (pr_session who))) wc = (Inr n, w2)"
    by (rule andthen_InrE [OF run4])
  have "same_redis w2 w'"
    using audit_frame [OF run4 [unfolded andthen_Inr [of "revoke_all_for_user (pl_sha256 lib) ?u ''password_change'' (Some (sx_id (pr_session who)))", OF d]]]
    by (simp add: same_redis_def)
  moreover have "same_redis w wc" using reads_Inr [OF a] validate_frame [OF b] writes_Inr [OF c] by (simp add: same_redis_def)
  ultimately show ?thesis using that d by blast
qed

lemma session_step_revoked: "session_step lib sha256 s s' \<Longrightarrow> g_revoked (snd s) \<subseteq> g_revoked (snd s')"
  by (induction rule: session_step.induct) (auto simp: mint_def hand_def use_def revoke_ids_def split: sum.splits)

lemma session_run_revoked: "(session_step lib sha256)\<^sup>*\<^sup>* s s' \<Longrightarrow> g_revoked (snd s) \<subseteq> g_revoked (snd s')"
  by (induction rule: rtranclp_induct) (auto dest: session_step_revoked)

definition never_again :: "clock_lib \<Rightarrow> (string \<Rightarrow> string) \<Rightarrow> string \<Rightarrow> cp_world \<times> ghost \<Rightarrow> bool" where
  "never_again lib sha256 sid s \<longleftrightarrow>
     (\<forall>w g d. (session_step lib sha256)\<^sup>*\<^sup>* s (w, g) \<longrightarrow> fst (session_get lib sha256 sid w) \<noteq> Inr (Some d))"

lemma revoked_never_again:
  assumes iso: "iso_ok lib" and ok: "in_order lib s" and sid: "sid \<in> g_revoked (snd s)"
  shows "never_again lib sha256 sid s"
  unfolding never_again_def
proof (intro allI impI notI)
  fix w g d assume run: "(session_step lib sha256)\<^sup>*\<^sup>* s (w, g)" and get: "fst (session_get lib sha256 sid w) = Inr (Some d)"
  have "rw (cw_now w) (sess_inv lib g (cw_now w)) w" using session_run_in_order [OF run iso ok] by (simp add: in_order_def rw_def)
  moreover obtain w' where "session_get lib sha256 sid w = (Inr (Some d), w')" using get by (cases "session_get lib sha256 sid w") simp
  ultimately have "vouches g (cw_now w) sid d" using validD_Inr [OF valid_get [OF iso]] by blast
  then show False using session_run_revoked [OF run] sid by (auto simp: vouches_def)
qed

lemma revocation_ends:
  assumes iso: "iso_ok lib" and ok: "in_order lib (w, g)" and w1: "same_redis w w1"
    and r: "revoke_all_for_user sha256 u reason except w1 = (Inr n, w2)" and w': "same_redis w2 w'"
    and sid: "sid \<in> sessions_of g u" "Some sid \<noteq> except"
  shows "never_again lib sha256 sid (w', revoke_ids {sid \<in> sessions_of g u. Some sid \<noteq> except} g)"
proof (rule revoked_never_again [OF iso])
  have "rw (cw_now w) (sess_inv lib g (cw_now w)) w1" using ok w1 by (simp add: in_order_def rw_def same_redis_def)
  from validD_Inr [OF valid_revoke_all this r]
  show "in_order lib (w', revoke_ids {sid \<in> sessions_of g u. Some sid \<noteq> except} g)" using w' by (auto simp: in_order_def rw_def same_redis_def)
  show "sid \<in> g_revoked (snd (w', revoke_ids {sid \<in> sessions_of g u. Some sid \<noteq> except} g))" using sid by (simp add: revoke_ids_def)
qed

text \<open>C13: Changes of credentials end the sessions that rest on the old ones. When the change of a user's role, the deletion of a user or a
  change of password returns successfully, no session that was handed out to that user is ever accepted again, whatever happens
  later and whichever commands fail; only the session that changed the password itself lives on.\<close>

theorem credential_changes_end_sessions:
  assumes "(session_step (pl_clock lib) (pl_sha256 lib))\<^sup>*\<^sup>* (w0, no_ghost) (w, g)" and "\<And>x. cw_redis w0 (sess x) = None" and "iso_ok (pl_clock lib)"
  shows "(patch_user lib who uid (Some r) w = (Inr row, w') \<longrightarrow> parse_public_id USER_PREFIX uid = Some u \<longrightarrow>
      SELECT_USER_IN_TENANT u (sx_tenant (pr_session who)) (cw_db w) = Some row0 \<longrightarrow> us_role row0 \<noteq> r \<longrightarrow>
      (\<forall>sid \<in> sessions_of g u. never_again (pl_clock lib) (pl_sha256 lib) sid (w', revoke_ids (sessions_of g u) g)))
    \<and> (delete_user lib who uid w = (Inr (), w') \<longrightarrow> parse_public_id USER_PREFIX uid = Some u \<longrightarrow>
      (\<forall>sid \<in> sessions_of g u. never_again (pl_clock lib) (pl_sha256 lib) sid (w', revoke_ids (sessions_of g u) g)))
    \<and> (change_password lib who old new w = (Inr (), w') \<longrightarrow>
      (\<forall>sid \<in> sessions_of g (sx_user (pr_session who)) - {sx_id (pr_session who)}.
         never_again (pl_clock lib) (pl_sha256 lib) sid (w', revoke_ids (sessions_of g (sx_user (pr_session who)) - {sx_id (pr_session who)}) g)))"
proof -
  have ok: "in_order (pl_clock lib) (w, g)" by (rule session_run_in_order [OF assms(1,3) in_order_start [OF assms(2)]])
  have all: "{sid \<in> sessions_of g v. Some sid \<noteq> None} = sessions_of g v" for v by simp
  have but: "{sid \<in> sessions_of g v. sid \<noteq> x} = sessions_of g v - {x}" for v x by auto
  show ?thesis
  proof (intro conjI impI ballI)
    fix sid assume run: "patch_user lib who uid (Some r) w = (Inr row, w')" "parse_public_id USER_PREFIX uid = Some u"
        "SELECT_USER_IN_TENANT u (sx_tenant (pr_session who)) (cw_db w) = Some row0" "us_role row0 \<noteq> r"
      and sid: "sid \<in> sessions_of g u"
    obtain w1 n w2 where "same_redis w w1" "revoke_all_for_user (pl_sha256 lib) u ''role_change'' None w1 = (Inr n, w2)" "same_redis w2 w'"
      by (rule patch_user_Inr [OF run])
    from revocation_ends [OF assms(3) ok this sid]
    show "never_again (pl_clock lib) (pl_sha256 lib) sid (w', revoke_ids (sessions_of g u) g)" by (simp add: all)
  next
    fix sid assume run: "delete_user lib who uid w = (Inr (), w')" "parse_public_id USER_PREFIX uid = Some u" and sid: "sid \<in> sessions_of g u"
    obtain w1 n w2 where "same_redis w w1" "revoke_all_for_user (pl_sha256 lib) u ''user_deleted'' None w1 = (Inr n, w2)" "same_redis w2 w'"
      by (rule delete_user_Inr [OF run])
    from revocation_ends [OF assms(3) ok this sid]
    show "never_again (pl_clock lib) (pl_sha256 lib) sid (w', revoke_ids (sessions_of g u) g)" by (simp add: all)
  next
    let ?u = "sx_user (pr_session who)" and ?s = "sx_id (pr_session who)"
    fix sid assume run: "change_password lib who old new w = (Inr (), w')" and sid: "sid \<in> sessions_of g ?u - {?s}"
    obtain w1 n w2 where "same_redis w w1" "revoke_all_for_user (pl_sha256 lib) ?u ''password_change'' (Some ?s) w1 = (Inr n, w2)" "same_redis w2 w'"
      by (rule change_password_Inr [OF run])
    from revocation_ends [OF assms(3) ok this, of sid] sid
    show "never_again (pl_clock lib) (pl_sha256 lib) sid (w', revoke_ids (sessions_of g ?u - {?s}) g)" by (simp add: but)
  qed
qed

definition demo_cp_lib :: cp_lib where
  "demo_cp_lib = \<lparr>pl_clock = demo_lib, pl_sha256 = id, pl_verify = (\<lambda>h p. h = p), pl_hash = id, pl_breached = []\<rparr>"

definition demo_self :: cp_principal where
  "demo_self = \<lparr>pr_session = new_session ''b'' ''c'' 2 4 ''admin'' 5, pr_status = \<lparr>tr_status = ''active'', tr_abuse_frozen = False\<rparr>\<rparr>"

lemma plain_audit:
  assumes "is_uuid t" and "py_strip action \<noteq> []" and "actor_ok actor" and "target_ok target"
  shows "\<exists>rows'. Audit_Log.write_audit (\<lambda>_. []) (uuid_str t) actor action target None None reason rows = Inr rows'"
  using assms by (simp add: Audit_Log.write_audit_def uuid_back serialize_audit_value_def)

lemma user_entity_ok: "actor_ok (user_entity u)" "target_ok (user_entity u)"
  by (simp_all add: user_entity_def actor_ok_def target_ok_def public_id_def USER_PREFIX_def)

lemma demo_password_changed: "\<exists>w'. change_password demo_cp_lib demo_self ''h'' ''correct horse'' demo_in = (Inr (), w')"
proof -
  have strip: "py_strip ''user.password_changed'' \<noteq> []" by code_simp
  have audit: "\<exists>rows'. Audit_Log.write_audit (\<lambda>_. []) (uuid_str 4) (user_entity 2) ''user.password_changed'' (user_entity 2) None None (Some ''self_service'') rows = Inr rows'" for rows
    by (rule plain_audit [OF _ strip user_entity_ok]) (simp add: is_uuid_def)
  have users: "db_users (cw_db demo_in) = [demo_user]"
    using demo_tokens by (simp add: demo_in_def session_create_def run_defs demo_world_def INSERT_SESSION_def demo_cp_db_def demo_user_def)
  have who: "sx_user (pr_session demo_self) = 2" "sx_id (pr_session demo_self) = ''b''" "sx_tenant (pr_session demo_self) = 4"
    by (simp_all add: demo_self_def new_session_def)
  have a: "reads (SELECT_USER_AUTH_BY_ID 2) demo_in = (Inr (Some demo_user), demo_in)"
    by (simp add: run_defs demo_created users SELECT_USER_AUTH_BY_ID_def demo_user_def)
  have b: "check_new_password demo_cp_lib ''correct horse'' demo_in = (Inr (), demo_in)"
    by (simp add: check_new_password_def validate_password_policy_def MIN_PASSWORD_LENGTH_def MAX_PASSWORD_LENGTH_def is_breached_def demo_cp_lib_def andthen_def ret_def)
  have c: "\<exists>wc. writes (\<lambda>_. UPDATE_USER_PASSWORD 2 ''correct horse'') demo_in = (Inr (), wc) \<and> cw_fates wc = [] \<and> same_redis demo_in wc"
    by (simp add: run_defs demo_created same_redis_def)
  then obtain wc where c: "writes (\<lambda>_. UPDATE_USER_PASSWORD 2 ''correct horse'') demo_in = (Inr (), wc)" "cw_fates wc = []" "same_redis demo_in wc" by blast
  have "\<exists>w2. revoke_all_for_user id 2 ''password_change'' (Some ''b'') wc = (Inr 1, w2) \<and> cw_fates w2 = []"
    using c(2,3) demo_tokens demo_created(2,5)
    by (simp add: revoke_all_for_user_def run_defs same_redis_def session_absolute_seconds_def)
  then obtain w2 where d: "revoke_all_for_user id 2 ''password_change'' (Some ''b'') wc = (Inr 1, w2)" "cw_fates w2 = []" by blast
  have "\<exists>w'. audit_standalone 4 (user_entity 2) ''user.password_changed'' (user_entity 2) None None (Some ''self_service'') w2 = (Inr (), w')"
    using audit [of "db_audit (cw_db w2)"] d(2) by (auto simp: audit_standalone_def run_defs audit_rows_def)
  then show ?thesis using a b c(1) d(1)
    by (auto simp: change_password_def who andthen_def demo_user_def nonempty_def demo_cp_lib_def)
qed

theorem credential_changes_end_sessions_witness:
  "\<exists>g w'. (session_step demo_lib id)\<^sup>*\<^sup>* (demo_world, no_ghost) (demo_in, g) \<and> ''s'' \<in> sessions_of g 2
     \<and> change_password demo_cp_lib demo_self ''h'' ''correct horse'' demo_in = (Inr (), w') \<and> (\<exists>g'. never_again demo_lib id ''s'' (w', g'))"
proof -
  let ?g = "hand ''s'' 5 (mint demo_session no_ghost)"
  obtain w' where run: "change_password demo_cp_lib demo_self ''h'' ''correct horse'' demo_in = (Inr (), w')" using demo_password_changed by blast
  have l: "pl_clock demo_cp_lib = demo_lib" "pl_sha256 demo_cp_lib = id" by (simp_all add: demo_cp_lib_def)
  have s: "''s'' \<in> sessions_of ?g 2" by (simp add: sessions_of_def hand_def mint_def demo_session_def new_session_def)
  have "cw_redis demo_world (sess x) = None" for x by (simp add: demo_world_def)
  then have "''s'' \<in> sessions_of ?g (sx_user (pr_session demo_self)) - {sx_id (pr_session demo_self)} \<longrightarrow>
      never_again demo_lib id ''s'' (w', revoke_ids (sessions_of ?g (sx_user (pr_session demo_self)) - {sx_id (pr_session demo_self)}) ?g)"
    using credential_changes_end_sessions [of demo_cp_lib demo_world demo_in ?g] run demo_reached demo_lib_iso unfolding l by blast
  then show ?thesis using s run demo_reached by (auto simp: demo_self_def new_session_def)
qed

subsection \<open>A retry does not catch up\<close>

lemma find_updated:
  assumes "find P xs = Some x" and "P (f x)"
  shows "find P (map (\<lambda>y. if P y then f y else y) xs) = Some (f x)"
  using assms by (induction xs) (auto split: if_splits)

text \<open>The role is written before the sessions are revoked. If the revocation fails the caller sees an error, but a retry finds the new role in
  place and returns without revoking anything: the old sessions keep the old role.\<close>

lemma role_change_retry_keeps_sessions:
  assumes "cw_fates w = [Replied, Replied, Refused]" and p: "parse_public_id USER_PREFIX uid = Some u" "u \<noteq> sx_user (pr_session who)"
    and row: "SELECT_USER_IN_TENANT u (sx_tenant (pr_session who)) (cw_db w) = Some row" "us_role row \<noteq> r"
  shows "\<exists>w1 w2. patch_user lib who uid (Some r) w = (Inl INTERNAL_ERROR, w1) \<and> patch_user lib who uid (Some r) w1 = (Inr (row\<lparr>us_role := r\<rparr>), w2)
    \<and> same_redis w w2"
proof -
  let ?t = "sx_tenant (pr_session who)"
  have found: "find (in_tenant u ?t) (db_users (cw_db w)) = Some row" using row(1) by (simp add: SELECT_USER_IN_TENANT_def)
  then have ex: "list_ex (in_tenant u ?t) (db_users (cw_db w))" by (auto simp: find_Some_iff list_ex_iff)
  have it: "in_tenant u ?t row" using found by (auto simp: find_Some_iff)
  then have "find (in_tenant u ?t) (map (\<lambda>y. if in_tenant u ?t y then y\<lparr>us_role := r\<rparr> else y) (db_users (cw_db w))) = Some (row\<lparr>us_role := r\<rparr>)"
    by (intro find_updated [OF found]) (simp add: in_tenant_def)
  then show ?thesis using assms ex
    by (simp add: patch_user_def fetch_target_def run_defs changes_def revoke_all_for_user_def SELECT_USER_IN_TENANT_def UPDATE_USER_ROLE_def update_users_def same_redis_def)
qed

lemma find_gone: "(\<And>y. \<not> P (f y)) \<Longrightarrow> find P (map (\<lambda>y. if P y then f y else y) xs) = None"
  by (induction xs) auto

text \<open>The deletion of a user has the same gap: the retry does not find the user any more.\<close>

lemma deletion_retry_keeps_sessions:
  assumes "cw_fates w = [Replied, Replied, Refused]" and p: "parse_public_id USER_PREFIX uid = Some u" "u \<noteq> sx_user (pr_session who)"
    and row: "SELECT_USER_IN_TENANT u (sx_tenant (pr_session who)) (cw_db w) = Some row"
  shows "\<exists>w1 w2. delete_user lib who uid w = (Inl INTERNAL_ERROR, w1) \<and> delete_user lib who uid w1 = (Inl NOT_FOUND, w2) \<and> same_redis w w2"
proof -
  let ?t = "sx_tenant (pr_session who)"
  have ex: "list_ex (in_tenant u ?t) (db_users (cw_db w))" using row by (auto simp: SELECT_USER_IN_TENANT_def find_Some_iff list_ex_iff)
  have gone: "find (in_tenant u ?t) (map (\<lambda>y. if in_tenant u ?t y then y\<lparr>us_deleted := Some (cw_now w)\<rparr> else y) (db_users (cw_db w))) = None"
    by (rule find_gone) (simp add: in_tenant_def)
  define wa where "wa = w\<lparr>cw_fates := [Replied, Refused]\<rparr>"
  have a: "fetch_target u ?t w = (Inr row, wa)" using assms(1) row by (simp add: fetch_target_def run_defs wa_def)
  define wb where "wb = w\<lparr>cw_fates := [Refused], cw_db := snd (SOFT_DELETE_USER u ?t (cw_now w) (cw_db w))\<rparr>"
  have b: "changes (SOFT_DELETE_USER u ?t) wa = (Inr True, wb)" using ex by (simp add: changes_def run_defs wa_def wb_def SOFT_DELETE_USER_def)
  define wc where "wc = wb\<lparr>cw_fates := []\<rparr>"
  have c: "revoke_all_for_user (pl_sha256 lib) u ''user_deleted'' None wb = (Inl INTERNAL_ERROR, wc)"
    by (simp add: revoke_all_for_user_def run_defs wb_def wc_def)
  have "delete_user lib who uid w = (Inl INTERNAL_ERROR, wc)"
    using p by (simp add: delete_user_def Let_def andthen_Inr [of "fetch_target u ?t", OF a] andthen_Inr [of "changes (SOFT_DELETE_USER u ?t)", OF b] andthen_def [of "revoke_all_for_user (pl_sha256 lib) u ''user_deleted'' None"] c)
  moreover have "fetch_target u ?t wc = (Inl NOT_FOUND, wc)"
    using gone by (simp add: fetch_target_def run_defs wc_def wb_def SELECT_USER_IN_TENANT_def SOFT_DELETE_USER_def update_users_def)
  then have "delete_user lib who uid wc = (Inl NOT_FOUND, wc)"
    using p by (simp add: delete_user_def Let_def andthen_def [of "fetch_target u ?t"])
  moreover have "same_redis w wc" by (simp add: same_redis_def wc_def wb_def)
  ultimately show ?thesis by blast
qed

subsection \<open>Who may log in\<close>

lemma get_int_Inr:
  "get_int k w = (Inr n, w') \<Longrightarrow> redis_get (cw_now w) k (cw_redis w) = Some (RInt n) \<or> redis_get (cw_now w) k (cw_redis w) = None \<and> n = 0"
  "get_int k w = (Inr n, w') \<Longrightarrow> same_redis w w' \<and> cw_db w' = cw_db w"
  by (auto simp: get_int_def on_redis_def same_redis_def dest!: take_fate_same split: prod.splits reply.splits option.splits rval.splits)

definition counted :: "string \<Rightarrow> cp_world \<Rightarrow> int" where
  "counted k w = (case redis_get (cw_now w) k (cw_redis w) of Some (RInt n) \<Rightarrow> n | _ \<Rightarrow> 0)"

lemma get_int_counted: "get_int k w = (Inr n, w') \<Longrightarrow> n = counted k w"
  by (auto dest: get_int_Inr simp: counted_def)

lemma limited_raises: "limited k w = (Inr x, w') \<Longrightarrow> False"
  by (auto simp: limited_def retry_after_def raise_def elim!: andthen_InrE)

lemma login_failed_raises: "login_failed ip user ok now w = (Inr x, w') \<Longrightarrow> False"
  by (auto simp: login_failed_def raise_def elim!: andthen_InrE)

lemma session_create_Inr:
  assumes "session_create lib sha256 sid csrf u t role ip agent w = (Inr d, w')"
  shows "d = new_session sid csrf u t role (cw_now w)"
  using assms by (auto simp: session_create_def clock_def ret_def Let_def elim!: andthen_InrE)

definition account_open :: "user_row \<Rightarrow> cp_world \<Rightarrow> bool" where
  "account_open u w \<longleftrightarrow> counted (throttle_login_acct (us_id u)) w < 10 \<and> (\<forall>t. us_locked u = Some t \<longrightarrow> t \<le> cw_now w)"

lemma login_Inr:
  assumes "login lib sid csrf ip agent email password w = (Inr d, w')"
  obtains u t where "SELECT_USER_FOR_LOGIN (py_strip email) (cw_db w) = Some (u, t)" "account_open u w"
    "verify_password lib (us_hash u) password" "ct_status t \<in> set LOGINABLE_TENANT_STATUSES" "us_state u = ''active''"
    "d = new_session sid csrf (us_id u) (us_tenant u) (us_role u) (cw_now w)"
    "\<forall>a. ip = Some a \<longrightarrow> a \<noteq> [] \<longrightarrow> counted (throttle_login_ip a) w < 20"
proof -
  note run = assms [unfolded login_def]
  obtain x wa where a: "(case Option.bind ip nonempty of None \<Rightarrow> ret ()
              | Some a \<Rightarrow> andthen (throttle_count (throttle_login_ip a)) (\<lambda>n.
                  if n \<ge> login_ip_threshold then limited (throttle_login_ip a) else ret ())) w = (Inr x, wa)" 
    and run1: "andthen (reads (SELECT_USER_FOR_LOGIN (py_strip email))) (\<lambda>found.
     case found of
       None \<Rightarrow> andthen (bump_ip ip) (\<lambda>_. raise AUTH_REQUIRED)
     | Some (user, tenant) \<Rightarrow>
         andthen clock (\<lambda>now.
         andthen (throttle_count (throttle_login_acct (us_id user))) (\<lambda>failures.
         if failures \<ge> login_lockout_threshold \<or> (case us_locked user of None \<Rightarrow> False | Some t \<Rightarrow> t > now)
         then limited (throttle_login_acct (us_id user))
         else
           let password_ok = verify_password lib (us_hash user) password;
               tenant_ok = (ct_status tenant \<in> set LOGINABLE_TENANT_STATUSES);
               user_ok = (us_state user = ''active'') in
           if \<not> (password_ok \<and> tenant_ok \<and> user_ok) then login_failed ip user password_ok now
           else andthen (delete (throttle_login_acct (us_id user))) (\<lambda>_.
                andthen (writes (\<lambda>_. RESET_LOGIN_FAILURES (us_id user))) (\<lambda>_.
                session_create (pl_clock lib) (pl_sha256 lib) sid csrf (us_id user) (us_tenant user) (us_role user) ip agent))))) wa = (Inr d, w')"
    by (rule andthen_InrE [OF run])
  have wa: "same_redis w wa \<and> cw_db wa = cw_db w \<and> (\<forall>b. ip = Some b \<longrightarrow> b \<noteq> [] \<longrightarrow> counted (throttle_login_ip b) w < 20)"
  proof (cases "Option.bind ip nonempty")
    case None
    then show ?thesis using a by (cases ip) (auto simp: ret_def same_redis_def nonempty_def split: if_splits)
  next
    case (Some b)
    then obtain n where "get_int (throttle_login_ip b) w = (Inr n, wa)" "\<not> n \<ge> login_ip_threshold"
      using a by (auto simp: throttle_count_def ret_def elim!: andthen_InrE dest: limited_raises split: if_splits)
    then show ?thesis using get_int_counted get_int_Inr(2) nonempty_Some [OF Some] by (auto simp: login_ip_threshold_def)
  qed
  obtain found wb where b: "reads (SELECT_USER_FOR_LOGIN (py_strip email)) wa = (Inr found, wb)" by (rule andthen_InrE [OF run1])
  have wb: "found = SELECT_USER_FOR_LOGIN (py_strip email) (cw_db w)" "same_redis w wb" using reads_Inr [OF b] wa by (auto simp: same_redis_def)
  note run2 = run1 [unfolded andthen_Inr [of "reads (SELECT_USER_FOR_LOGIN (py_strip email))", OF b]]
  obtain u t where f: "found = Some (u, t)" using run2 by (cases found) (auto simp: raise_def elim!: andthen_InrE)
  note run3 = run2 [unfolded f option.case prod.case]
  have k: "clock wb = (Inr (cw_now w), wb)" using wb(2) by (simp add: clock_def same_redis_def)
  note run4 = run3 [unfolded andthen_Inr [of clock, OF k]]
  obtain n wc where c: "throttle_count (throttle_login_acct (us_id u)) wb = (Inr n, wc)" by (rule andthen_InrE [OF run4])
  note run5 = run4 [unfolded andthen_Inr [of "throttle_count (throttle_login_acct (us_id u))", OF c]]
  have n: "n = counted (throttle_login_acct (us_id u)) w" "same_redis w wc"
    using get_int_counted [OF c [unfolded throttle_count_def]] get_int_Inr(2) [OF c [unfolded throttle_count_def]] wb(2) by (auto simp: same_redis_def counted_def)
  have guard1: "\<not> (n \<ge> login_lockout_threshold \<or> (case us_locked u of None \<Rightarrow> False | Some t \<Rightarrow> t > cw_now w))"
    using run5 by (auto dest: limited_raises split: if_splits)
  note run6 = run5 [unfolded if_not_P [OF guard1] Let_def]
  have guard2: "\<not> \<not> (verify_password lib (us_hash u) password \<and> ct_status t \<in> set LOGINABLE_TENANT_STATUSES \<and> us_state u = ''active'')"
    using run6 by (auto dest: login_failed_raises split: if_splits)
  note run7 = run6 [unfolded if_not_P [OF guard2]]
  obtain y wd where e: "delete (throttle_login_acct (us_id u)) wc = (Inr y, wd)" by (rule andthen_InrE [OF run7])
  have wd: "cw_now wd = cw_now w" using e n(2) by (auto simp: delete_def on_redis_def same_redis_def dest!: take_fate_same split: prod.splits reply.splits)
  note run8 = run7 [unfolded andthen_Inr [of "delete (throttle_login_acct (us_id u))", OF e]]
  obtain z we where h: "writes (\<lambda>_. RESET_LOGIN_FAILURES (us_id u)) wd = (Inr z, we)"
    and last: "session_create (pl_clock lib) (pl_sha256 lib) sid csrf (us_id u) (us_tenant u) (us_role u) ip agent we = (Inr d, w')"
    by (rule andthen_InrE [OF run8])
  have "account_open u w" using guard1 n by (auto simp: account_open_def login_lockout_threshold_def split: option.splits)
  moreover have "d = new_session sid csrf (us_id u) (us_tenant u) (us_role u) (cw_now w)" using session_create_Inr [OF last] writes_Inr [OF h] wd by simp
  moreover have "SELECT_USER_FOR_LOGIN (py_strip email) (cw_db w) = Some (u, t)" using wb(1) f by simp
  moreover have "verify_password lib (us_hash u) password" "ct_status t \<in> set LOGINABLE_TENANT_STATUSES" "us_state u = ''active''" using guard2 by simp_all
  moreover have "\<forall>a. ip = Some a \<longrightarrow> a \<noteq> [] \<longrightarrow> counted (throttle_login_ip a) w < 20" using wa by simp
  ultimately show thesis by (rule_tac that [of u t])
qed

lemma SELECT_USER_FOR_LOGIN_Some:
  assumes "SELECT_USER_FOR_LOGIN email db = Some (u, t)"
  shows "u \<in> set (db_users db) \<and> py_lower (us_email u) = py_lower email \<and> us_deleted u = None \<and> t \<in> set (db_tenants db) \<and> ct_id t = us_tenant u"
proof -
  let ?hit = "\<lambda>u. py_lower (us_email u) = py_lower email \<and> us_deleted u = None \<and> tenant_of_user db u \<noteq> None"
  obtain rest where r: "sort_key us_created (filter ?hit (db_users db)) = u # rest" "t = the (tenant_of_user db u)"
    using assms unfolding SELECT_USER_FOR_LOGIN_def by (cases "sort_key us_created (filter ?hit (db_users db))") simp_all
  have "u \<in> set (sort_key us_created (filter ?hit (db_users db)))" unfolding r(1) by simp
  then have u: "u \<in> set (db_users db)" "?hit u" by simp_all
  then have "tenant_of_user db u = Some t" using r(2) by auto
  then have "t \<in> set (db_tenants db) \<and> ct_id t = us_tenant u" by (auto simp: tenant_of_user_def find_Some_iff)
  then show ?thesis using u by simp
qed

text \<open>C14: Whom the console lets in. Whatever the state of the stores and whichever commands fail, a login that returns a session found the account
  of that email, with fewer than ten counted failures and no lock that is still running, from an address with fewer than twenty; the
  password matched the stored hash, the user is active and the tenant may log in. The session carries that user's id, tenant and role.\<close>

theorem login_sound:
  assumes "login lib sid csrf ip agent email password w = (Inr d, w')"
  shows "\<exists>u t. u \<in> set (db_users (cw_db w)) \<and> py_lower (us_email u) = py_lower (py_strip email) \<and> us_deleted u = None \<and> us_state u = ''active''
    \<and> t \<in> set (db_tenants (cw_db w)) \<and> ct_id t = us_tenant u \<and> ct_status t \<in> {''active'', ''frozen''}
    \<and> account_open u w \<and> (\<forall>a. ip = Some a \<longrightarrow> a \<noteq> [] \<longrightarrow> counted (throttle_login_ip a) w < 20)
    \<and> (\<exists>h. us_hash u = Some h \<and> h \<noteq> [] \<and> pl_verify lib h password)
    \<and> d = new_session sid csrf (us_id u) (us_tenant u) (us_role u) (cw_now w)"
proof -
  obtain u t where l: "SELECT_USER_FOR_LOGIN (py_strip email) (cw_db w) = Some (u, t)" "account_open u w"
    "verify_password lib (us_hash u) password" "ct_status t \<in> set LOGINABLE_TENANT_STATUSES" "us_state u = ''active''"
    "d = new_session sid csrf (us_id u) (us_tenant u) (us_role u) (cw_now w)"
    "\<forall>a. ip = Some a \<longrightarrow> a \<noteq> [] \<longrightarrow> counted (throttle_login_ip a) w < 20"
    by (rule login_Inr [OF assms])
  have "\<exists>h. us_hash u = Some h \<and> h \<noteq> [] \<and> pl_verify lib h password"
    using l(3) by (auto simp: verify_password_def nonempty_def split: option.splits bind_splits if_splits)
  moreover have "ct_status t \<in> {''active'', ''frozen''}" using l(4) by (simp add: LOGINABLE_TENANT_STATUSES_def)
  ultimately show ?thesis using SELECT_USER_FOR_LOGIN_Some [OF l(1)] l(2,5,6,7) by (intro exI [of _ u] exI [of _ t]) simp
qed

theorem login_sound_witness:
  "\<exists>d w'. login demo_cp_lib ''s'' ''c'' None None ''a@b.c'' ''h'' demo_world = (Inr d, w') \<and> sx_user d = 2 \<and> sx_tenant d = 4"
proof -
  have k: "throttle_login_acct 2 \<noteq> sess ''s''" "throttle_login_acct 2 \<noteq> sess_user 2"
    by (simp_all add: throttle_login_acct_def sess_def sess_user_def)
  have e: "py_strip ''a@b.c'' = ''a@b.c''" by code_simp
  have "\<exists>d w'. login demo_cp_lib ''s'' ''c'' None None ''a@b.c'' ''h'' demo_world = (Inr d, w')"
    using demo_tokens k
    by (simp add: login_def e run_defs demo_world_def demo_cp_db_def SELECT_USER_FOR_LOGIN_def tenant_of_user_def demo_user_def demo_cp_tenant_def
      throttle_count_def get_int_def redis_get_def login_lockout_threshold_def verify_password_def nonempty_def demo_cp_lib_def LOGINABLE_TENANT_STATUSES_def
      RESET_LOGIN_FAILURES_def update_users_def session_create_def INSERT_SESSION_def Let_def)
  then obtain d w' where run: "login demo_cp_lib ''s'' ''c'' None None ''a@b.c'' ''h'' demo_world = (Inr d, w')" by blast
  then show ?thesis using login_sound [OF run] by (auto simp: demo_world_def demo_cp_db_def demo_user_def new_session_def)
qed

subsection \<open>What the login does not do\<close>

text \<open>An email may belong to users of several tenants. The login looks at the oldest row only, so a younger one never gets a session, whatever
  the state of the older row and whichever password is given.\<close>

lemma login_oldest_only:
  assumes users: "u \<in> set (db_users (cw_db w))" "v \<in> set (db_users (cw_db w))" "us_created u < us_created v"
    and u: "py_lower (us_email u) = py_lower (py_strip email)" "us_deleted u = None" "tenant_of_user (cw_db w) u \<noteq> None"
    and ids: "inj_on us_id (set (db_users (cw_db w)))" and run: "login lib sid csrf ip agent email password w = (Inr d, w')"
  shows "sx_user d \<noteq> us_id v"
proof -
  let ?hit = "\<lambda>u. py_lower (us_email u) = py_lower (py_strip email) \<and> us_deleted u = None \<and> tenant_of_user (cw_db w) u \<noteq> None"
  let ?rows = "sort_key us_created (filter ?hit (db_users (cw_db w)))"
  obtain x t where l: "SELECT_USER_FOR_LOGIN (py_strip email) (cw_db w) = Some (x, t)" "d = new_session sid csrf (us_id x) (us_tenant x) (us_role x) (cw_now w)"
    by (rule login_Inr [OF run])
  obtain rest where r: "?rows = x # rest"
    using l(1) unfolding SELECT_USER_FOR_LOGIN_def by (cases ?rows) simp_all
  have "u \<in> set ?rows" using users(1) u by simp
  moreover have "sorted (map us_created ?rows)" by simp
  ultimately have "us_created x \<le> us_created u" unfolding r by auto
  then have "x \<noteq> v" using users(3) by auto
  moreover have "x \<in> set (db_users (cw_db w))" using SELECT_USER_FOR_LOGIN_Some [OF l(1)] by simp
  ultimately have "us_id x \<noteq> us_id v" using ids users(2) by (auto dest: inj_onD)
  then show ?thesis using l(2) by (simp add: new_session_def)
qed

text \<open>The counter of failures gets its expiry only from the bump that created it. If that command is lost, every later bump keeps the
  counter without one, and from the tenth failure on the account is closed at all later times.\<close>

lemma lost_expiry_stays:
  "cw_fates w = [Replied, Refused] \<Longrightarrow> cw_redis w k = None \<Longrightarrow> \<exists>w'. throttle_bump k w = (Inl INTERNAL_ERROR, w') \<and> cw_redis w' k = Some (RInt 1, None)"
  "cw_fates w = [] \<Longrightarrow> n > 0 \<Longrightarrow> cw_redis w k = Some (RInt n, None) \<Longrightarrow> \<exists>w'. throttle_bump k w = (Inr (n + 1), w') \<and> cw_redis w' k = Some (RInt (n + 1), None)"
  by (simp_all add: throttle_bump_def run_defs incr_def redis_get_def)

lemma lost_expiry_locks_forever:
  assumes "cw_redis w (throttle_login_acct (us_id u)) = Some (RInt n, None)" and "n \<ge> 10" and "SELECT_USER_FOR_LOGIN (py_strip email) (cw_db w) = Some (u, t)"
  shows "fst (login lib sid csrf ip agent email password (w\<lparr>cw_now := later\<rparr>)) \<noteq> Inr d"
proof
  assume a: "fst (login lib sid csrf ip agent email password (w\<lparr>cw_now := later\<rparr>)) = Inr d"
  obtain w' where run: "login lib sid csrf ip agent email password (w\<lparr>cw_now := later\<rparr>) = (Inr d, w')"
    using a by (cases "login lib sid csrf ip agent email password (w\<lparr>cw_now := later\<rparr>)") simp
  obtain x s where l: "SELECT_USER_FOR_LOGIN (py_strip email) (cw_db (w\<lparr>cw_now := later\<rparr>)) = Some (x, s)" "account_open x (w\<lparr>cw_now := later\<rparr>)"
    by (rule login_Inr [OF run])
  then show False using assms by (simp add: account_open_def counted_def redis_get_def)
qed

end
