(* ===== verification/Provisioning.thy ===== *)
theory Provisioning
  imports Console_Auth Credentials
begin

section \<open>Signup and provisioning\<close>

text \<open>
  \<^verbatim>\<open>controlplane/routes/signup.py\<close>, the saga of \<^verbatim>\<open>saga.py\<close>, the entitlements of \<^verbatim>\<open>entitlements.py\<close> and the statements of
  \<^verbatim>\<open>queries.py\<close> they use. Argon2, SHA-256 and HMAC, the random ids of the database, the text of an exception and the validation
  of the entitlements payload are functions of \<open>prov_lib\<close>. Times are whole seconds from the first day of the calendar. Statements that are not in
  a transaction are steps of their own, each with its own fate. The run of a saga that \<open>verify\<close> starts in the background is a
  step of its own, \<open>saga_run\<close>. The error texts and completion times of saga steps are not kept.
\<close>

record prov_lib =
  pv_cp :: cp_lib
  pv_fresh :: "cp_db \<Rightarrow> nat"
  pv_valid :: "obj \<Rightarrow> bool"
  pv_disposable :: "string list"
  pv_stub :: string
  pv_hmac :: "string \<Rightarrow> string \<Rightarrow> string"
  pv_service_key :: string
  pv_service_name :: string
  pv_show :: "cp_error \<Rightarrow> string"

text \<open>\<^verbatim>\<open>int(json.loads(value))\<close> of a configuration value.\<close>

definition py_int :: "json \<Rightarrow> int option" where
  "py_int v =
     (case v of
        JInt n \<Rightarrow> Some n
      | JBool b \<Rightarrow> Some (if b then 1 else 0)
      | JFloat (Fin q) \<Rightarrow> Some (if q \<ge> 0 then \<lfloor>q\<rfloor> else \<lceil>q\<rceil>)
      | JStr s \<Rightarrow> int_base10 s
      | _ \<Rightarrow> None)"

definition config_int :: "json \<Rightarrow> int cp" where
  "config_int v = (case py_int v of None \<Rightarrow> raise INTERNAL_ERROR | Some n \<Rightarrow> ret n)"

definition MAX_DATETIME :: int where "MAX_DATETIME = 315537897599"

text \<open>\<^verbatim>\<open>now + timedelta(days=n)\<close>, which raises outside the calendar.\<close>

definition plus_days :: "nat \<Rightarrow> int \<Rightarrow> nat cp" where
  "plus_days now n =
     (let t = int now + 86400 * n in if t < 0 \<or> t > MAX_DATETIME then raise INTERNAL_ERROR else ret (nat t))"

fun replace_with :: "string \<Rightarrow> string \<Rightarrow> string \<Rightarrow> string" where
  "replace_with p q [] = []"
| "replace_with p q (c # cs) =
     (if p \<noteq> [] \<and> starts_with (c # cs) p then q @ replace_with p q (drop (length p - 1) cs) else c # replace_with p q cs)"

definition rfc3339 :: "clock_lib \<Rightarrow> nat \<Rightarrow> string" where
  "rfc3339 lib t = replace_with ''+00:00'' ''Z'' (cl_iso lib t)"

definition caught :: "'a cp \<Rightarrow> cp_error \<Rightarrow> 'a cp" where
  "caught m e w = (case m w of (Inl _, w') \<Rightarrow> (Inl e, w') | (Inr x, w') \<Rightarrow> (Inr x, w'))"

definition sleep :: "nat \<Rightarrow> unit cp" where
  "sleep n w = (Inr (), w\<lparr>cw_now := cw_now w + n\<rparr>)"

subsection \<open>Statements\<close>

definition INSERT_ACCOUNT :: "nat \<Rightarrow> string \<Rightarrow> string \<Rightarrow> string \<Rightarrow> string \<Rightarrow> cp_db \<Rightarrow> cp_error + nat \<times> cp_db" where
  "INSERT_ACCOUNT fresh org email domain h db =
     (if length org < 2 \<or> length org > 120 \<or> fresh \<in> ac_id ` set (db_accounts db)
         \<or> list_ex (\<lambda>a. py_lower (ac_email a) = py_lower email \<or> py_lower (ac_domain a) = py_lower domain) (db_accounts db)
      then Inl INTERNAL_ERROR
      else Inr (fresh, db\<lparr>db_accounts := db_accounts db @
             [\<lparr>ac_id = fresh, ac_org = org, ac_email = email, ac_domain = domain, ac_hash = h, ac_state = ''pending_verification''\<rparr>]\<rparr>))"

definition SELECT_ACCOUNT_BY_DOMAIN :: "string \<Rightarrow> cp_db \<Rightarrow> account_row option" where
  "SELECT_ACCOUNT_BY_DOMAIN domain db = find (\<lambda>a. py_lower (ac_domain a) = py_lower domain) (db_accounts db)"

definition SELECT_ACCOUNT_BY_EMAIL :: "string \<Rightarrow> cp_db \<Rightarrow> account_row option" where
  "SELECT_ACCOUNT_BY_EMAIL email db = find (\<lambda>a. py_lower (ac_email a) = py_lower email) (db_accounts db)"

definition SELECT_ACCOUNT_BY_ID :: "nat \<Rightarrow> cp_db \<Rightarrow> account_row option" where
  "SELECT_ACCOUNT_BY_ID account db = find (\<lambda>a. ac_id a = account) (db_accounts db)"

definition MARK_ACCOUNT_VERIFIED :: "nat \<Rightarrow> cp_db \<Rightarrow> cp_db" where
  "MARK_ACCOUNT_VERIFIED account db =
     db\<lparr>db_accounts := map (\<lambda>a. if ac_id a = account then a\<lparr>ac_state := ''verified''\<rparr> else a) (db_accounts db)\<rparr>"

definition INSERT_TENANT :: "nat \<Rightarrow> nat \<Rightarrow> string \<Rightarrow> cp_db \<Rightarrow> cp_error + nat \<times> cp_db" where
  "INSERT_TENANT fresh account name db =
     (if fresh \<in> ct_id ` set (db_tenants db) \<or> account \<in> ct_account ` set (db_tenants db) \<or> account \<notin> ac_id ` set (db_accounts db) then Inl INTERNAL_ERROR
      else Inr (fresh, db\<lparr>db_tenants := db_tenants db @
             [\<lparr>ct_id = fresh, ct_account = account, ct_name = name, ct_status = ''provisioning'', ct_abuse = False, ct_abuse_reason = None,
               ct_plan = ''trial'', ct_trial_expires = None, ct_provisioned_at = None, ct_frozen_at = None, ct_purged_at = None\<rparr>]\<rparr>))"

definition SELECT_TENANT_BY_ACCOUNT :: "nat \<Rightarrow> cp_db \<Rightarrow> cp_tenant option" where
  "SELECT_TENANT_BY_ACCOUNT account db = find (\<lambda>t. ct_account t = account) (db_tenants db)"

definition update_tenant :: "nat \<Rightarrow> (cp_tenant \<Rightarrow> cp_tenant) \<Rightarrow> cp_db \<Rightarrow> cp_db" where
  "update_tenant t f db = db\<lparr>db_tenants := map (\<lambda>r. if ct_id r = t then f r else r) (db_tenants db)\<rparr>"

definition SET_TENANT_ACTIVE :: "nat \<Rightarrow> nat \<Rightarrow> nat \<Rightarrow> cp_db \<Rightarrow> cp_db" where
  "SET_TENANT_ACTIVE t expires now =
     update_tenant t (\<lambda>r. r\<lparr>ct_status := ''active'', ct_trial_expires := Some expires, ct_provisioned_at := Some now\<rparr>)"

definition SET_TENANT_PROVISIONING_FAILED :: "nat \<Rightarrow> cp_db \<Rightarrow> cp_db" where
  "SET_TENANT_PROVISIONING_FAILED t = update_tenant t (\<lambda>r. r\<lparr>ct_status := ''provisioning_failed''\<rparr>)"

definition INSERT_ADMIN_USER :: "nat \<Rightarrow> nat \<Rightarrow> string \<Rightarrow> string \<Rightarrow> nat \<Rightarrow> cp_db \<Rightarrow> cp_error + unit \<times> cp_db" where
  "INSERT_ADMIN_USER fresh tenant email h now db =
     (if list_ex (same_email tenant email) (db_users db) then Inr ((), db)
      else if fresh \<in> us_id ` set (db_users db) \<or> tenant \<notin> ct_id ` set (db_tenants db) then Inl INTERNAL_ERROR
      else Inr ((), db\<lparr>db_users := db_users db @
             [\<lparr>us_id = fresh, us_tenant = tenant, us_email = email, us_role = ''admin'', us_state = ''active'', us_hash = Some h, us_failures = 0,
               us_locked = None, us_created = now, us_deleted = None\<rparr>]\<rparr>))"

definition INSERT_SAGA :: "nat \<Rightarrow> nat \<Rightarrow> cp_db \<Rightarrow> cp_error + unit \<times> cp_db" where
  "INSERT_SAGA fresh account db =
     (if account \<in> sg_account ` set (db_sagas db) then Inr ((), db)
      else if fresh \<in> sg_id ` set (db_sagas db) \<or> account \<notin> ac_id ` set (db_accounts db) then Inl INTERNAL_ERROR
      else Inr ((), db\<lparr>db_sagas := db_sagas db @
             [\<lparr>sg_id = fresh, sg_account = account, sg_tenant = None, sg_state = ''running'', sg_step = None, sg_error = None\<rparr>]\<rparr>))"

definition SELECT_SAGA_BY_ACCOUNT :: "nat \<Rightarrow> cp_db \<Rightarrow> saga_row option" where
  "SELECT_SAGA_BY_ACCOUNT account db = find (\<lambda>s. sg_account s = account) (db_sagas db)"

definition SELECT_SAGA :: "nat \<Rightarrow> cp_db \<Rightarrow> saga_row option" where
  "SELECT_SAGA saga db = find (\<lambda>s. sg_id s = saga) (db_sagas db)"

definition SELECT_RUNNING_SAGAS :: "cp_db \<Rightarrow> nat list" where
  "SELECT_RUNNING_SAGAS db = map sg_id (filter (\<lambda>s. sg_state s = ''running'') (db_sagas db))"

definition update_saga :: "nat \<Rightarrow> (saga_row \<Rightarrow> saga_row) \<Rightarrow> cp_db \<Rightarrow> cp_db" where
  "update_saga saga f db = db\<lparr>db_sagas := map (\<lambda>s. if sg_id s = saga then f s else s) (db_sagas db)\<rparr>"

definition UPDATE_SAGA_TENANT :: "nat \<Rightarrow> nat \<Rightarrow> cp_db \<Rightarrow> cp_error + unit \<times> cp_db" where
  "UPDATE_SAGA_TENANT saga t db =
     (if t \<notin> ct_id ` set (db_tenants db) then Inl INTERNAL_ERROR else Inr ((), update_saga saga (\<lambda>s. s\<lparr>sg_tenant := Some t\<rparr>) db))"

definition UPDATE_SAGA_PROGRESS :: "nat \<Rightarrow> string \<Rightarrow> cp_db \<Rightarrow> cp_db" where
  "UPDATE_SAGA_PROGRESS saga step = update_saga saga (\<lambda>s. s\<lparr>sg_step := Some step\<rparr>)"

definition COMPLETE_SAGA :: "nat \<Rightarrow> string \<Rightarrow> string option \<Rightarrow> cp_db \<Rightarrow> cp_db" where
  "COMPLETE_SAGA saga st err = update_saga saga (\<lambda>s. s\<lparr>sg_state := st, sg_error := err\<rparr>)"

definition is_step :: "nat \<Rightarrow> string \<Rightarrow> step_row \<Rightarrow> bool" where
  "is_step saga step r = (st_saga r = saga \<and> st_step r = step)"

definition INSERT_SAGA_STEP :: "nat \<Rightarrow> string \<Rightarrow> cp_db \<Rightarrow> cp_error + unit \<times> cp_db" where
  "INSERT_SAGA_STEP saga step db =
     (if list_ex (is_step saga step) (db_steps db) then Inr ((), db)
      else if saga \<notin> sg_id ` set (db_sagas db) then Inl INTERNAL_ERROR
      else Inr ((), db\<lparr>db_steps := db_steps db @ [\<lparr>st_saga = saga, st_step = step, st_status = ''pending'', st_attempts = 0\<rparr>]\<rparr>))"

definition SELECT_SAGA_STEPS :: "nat \<Rightarrow> cp_db \<Rightarrow> step_row list" where
  "SELECT_SAGA_STEPS saga db = filter (\<lambda>r. st_saga r = saga) (db_steps db)"

definition MARK_SAGA_STEP :: "nat \<Rightarrow> string \<Rightarrow> string \<Rightarrow> nat \<Rightarrow> cp_db \<Rightarrow> cp_db" where
  "MARK_SAGA_STEP saga step status attempts db =
     db\<lparr>db_steps := map (\<lambda>r. if is_step saga step r then r\<lparr>st_status := status, st_attempts := attempts\<rparr> else r) (db_steps db)\<rparr>"

definition SELECT_PLAN_CONFIG :: "string \<Rightarrow> cp_db \<Rightarrow> (string \<times> json) list" where
  "SELECT_PLAN_CONFIG plan db = map (\<lambda>((_, k), v). (k, v)) (filter (\<lambda>((p, _), _). p = plan) (db_plan_config db))"

definition SELECT_PLATFORM_CONFIG_VALUE :: "string \<Rightarrow> cp_db \<Rightarrow> json option" where
  "SELECT_PLATFORM_CONFIG_VALUE key db = map_of (db_platform_config db) key"

definition SELECT_ENTITLEMENT_OVERRIDES :: "nat \<Rightarrow> nat \<Rightarrow> cp_db \<Rightarrow> (string \<times> json) list" where
  "SELECT_ENTITLEMENT_OVERRIDES tenant now db =
     map (\<lambda>((_, k), v, _). (k, v))
       (filter (\<lambda>((t, _), _, expires). t = tenant \<and> (case expires of None \<Rightarrow> True | Some e \<Rightarrow> e > now)) (db_overrides db))"

definition INSERT_SIGNUP_ABUSE_LOG :: "string \<Rightarrow> string \<Rightarrow> string option \<Rightarrow> string \<Rightarrow> string \<Rightarrow> cp_db \<Rightarrow> cp_db" where
  "INSERT_SIGNUP_ABUSE_LOG email domain ip outcome reason db =
     db\<lparr>db_abuse_log := db_abuse_log db @ [(email, domain, ip, outcome, reason)]\<rparr>"

subsection \<open>Entitlements\<close>

definition ENT_CACHE_TTL_SECONDS :: nat where "ENT_CACHE_TTL_SECONDS = 300"

definition NON_ENTITLEMENT_KEYS :: "string list" where "NON_ENTITLEMENT_KEYS = [''trial_duration_days'']"

definition entitlement_values :: "(string \<times> json) list \<Rightarrow> (string \<times> json) list \<Rightarrow> obj" where
  "entitlement_values plan_rows override_rows =
     List.fold (\<lambda>(k, v) d. AList.update k v d) (filter (\<lambda>(k, _). k \<notin> set NON_ENTITLEMENT_KEYS) plan_rows @ override_rows) []"

definition entitlements_payload :: "clock_lib \<Rightarrow> cp_tenant \<Rightarrow> obj \<Rightarrow> nat \<Rightarrow> obj" where
  "entitlements_payload lib t values now =
     [(''plan'', JStr (ct_plan t)), (''tenant_status'', JStr (ct_status t)), (''abuse_frozen'', JBool (ct_abuse t)),
      (''entitlements'', JObj values), (''as_of'', JStr (rfc3339 lib now))]
     @ (case ct_trial_expires t of None \<Rightarrow> [] | Some e \<Rightarrow> [(''trial_expires_at'', JStr (rfc3339 lib e))])"

definition compose :: "prov_lib \<Rightarrow> nat \<Rightarrow> obj option cp" where
  "compose lib tenant_id =
     andthen clock (\<lambda>now.
     andthen (reads (SELECT_TENANT_BY_ID tenant_id)) (\<lambda>tenant.
     case tenant of
       None \<Rightarrow> ret None
     | Some t \<Rightarrow>
         andthen (reads (SELECT_PLAN_CONFIG (ct_plan t))) (\<lambda>plan_rows.
         andthen (reads (SELECT_ENTITLEMENT_OVERRIDES tenant_id now)) (\<lambda>override_rows.
         let payload = entitlements_payload (pl_clock (pv_cp lib)) t (entitlement_values plan_rows override_rows) now in
         if pv_valid lib payload then ret (Some payload) else raise INTERNAL_ERROR))))"

definition entitlements_get :: "prov_lib \<Rightarrow> nat \<Rightarrow> obj option cp" where
  "entitlements_get lib tenant_id =
     andthen (get_doc (ent tenant_id)) (\<lambda>cached.
     case cached of
       Some d \<Rightarrow> ret (Some d)
     | None \<Rightarrow>
         andthen (compose lib tenant_id) (\<lambda>payload.
         case payload of
           None \<Rightarrow> ret None
         | Some p \<Rightarrow> andthen (set_doc (ent tenant_id) p ENT_CACHE_TTL_SECONDS) (\<lambda>_. ret payload)))"

definition warm :: "prov_lib \<Rightarrow> nat \<Rightarrow> obj cp" where
  "warm lib tenant_id =
     andthen (compose lib tenant_id) (\<lambda>payload.
     case payload of
       None \<Rightarrow> raise INTERNAL_ERROR
     | Some p \<Rightarrow> andthen (set_doc (ent tenant_id) p ENT_CACHE_TTL_SECONDS) (\<lambda>_. ret p))"

definition entitlements_invalidate :: "nat \<Rightarrow> unit cp" where
  "entitlements_invalidate tenant_id = andthen (delete (ent tenant_id)) (\<lambda>_. delete (tenantstatus tenant_id))"

subsection \<open>The saga\<close>

definition STEP_ORDER :: "string list" where
  "STEP_ORDER = [''tenant_row'', ''rls_context'', ''es_index'', ''entitlements'', ''admin_user'', ''trial_expiry'']"

definition DEFAULT_TRIAL_DURATION_DAYS :: int where "DEFAULT_TRIAL_DURATION_DAYS = 14"

definition saga_step_max_attempts :: nat where "saga_step_max_attempts = 3"

definition saga_retry_delay_seconds :: nat where "saga_retry_delay_seconds = 2"

definition SAGA_ACTOR :: audit_entity where
  "SAGA_ACTOR = \<lparr>ae_type = ''system'', ae_id = ''controlplane-provisioning-saga''\<rparr>"

definition tenant_entity :: "nat \<Rightarrow> audit_entity" where
  "tenant_entity t = \<lparr>ae_type = ''tenant'', ae_id = uuid_str t\<rparr>"

fun insert_steps :: "nat \<Rightarrow> string list \<Rightarrow> unit cp" where
  "insert_steps saga [] = ret ()"
| "insert_steps saga (step # rest) = andthen (on_db (\<lambda>_. INSERT_SAGA_STEP saga step)) (\<lambda>_. insert_steps saga rest)"

definition ensure_started :: "prov_lib \<Rightarrow> nat \<Rightarrow> string \<Rightarrow> (nat \<times> nat) cp" where
  "ensure_started lib account org_name =
     andthen (on_db (\<lambda>_ db. INSERT_SAGA (pv_fresh lib db) account db)) (\<lambda>_.
     andthen (reads (SELECT_SAGA_BY_ACCOUNT account)) (\<lambda>saga.
     case saga of
       None \<Rightarrow> raise INTERNAL_ERROR
     | Some s \<Rightarrow>
         andthen (insert_steps (sg_id s) STEP_ORDER) (\<lambda>_.
         case sg_tenant s of
           Some t \<Rightarrow> ret (sg_id s, t)
         | None \<Rightarrow>
             andthen (on_db (\<lambda>_ db. INSERT_TENANT (pv_fresh lib db) account org_name db)) (\<lambda>t.
             andthen (on_db (\<lambda>_. UPDATE_SAGA_TENANT (sg_id s) t)) (\<lambda>_.
             andthen (writes (\<lambda>_. MARK_SAGA_STEP (sg_id s) ''tenant_row'' ''done'' 1)) (\<lambda>_.
             ret (sg_id s, t)))))))"

text \<open>The probe reads back what the same transaction set.\<close>

definition step_rls_context :: "nat \<Rightarrow> unit cp" where
  "step_rls_context t =
     andthen (reads (\<lambda>_. uuid_str t)) (\<lambda>probe. if probe \<noteq> uuid_str t then raise INTERNAL_ERROR else ret ())"

text \<open>The call of the data plane: its answer is the next status code, 200 when none is left.\<close>

definition put_provision :: "nat cp" where
  "put_provision w =
     (case take_fate w of (f, w1) \<Rightarrow>
        if f \<noteq> Replied then (Inl INTERNAL_ERROR, w1)
        else case cw_http w1 of [] \<Rightarrow> (Inr 200, w1) | s # rest \<Rightarrow> (Inr s, w1\<lparr>cw_http := rest\<rparr>))"

definition step_es_index :: "prov_lib \<Rightarrow> unit cp" where
  "step_es_index lib =
     (if pv_service_key lib = [] then raise INTERNAL_ERROR
      else andthen clock (\<lambda>now.
        case generate_service_token (pv_hmac lib) (pv_service_name lib) (pv_service_key lib) MAX_TOKEN_LIFETIME_SECONDS (int now) of
          Inl _ \<Rightarrow> raise INTERNAL_ERROR
        | Inr token \<Rightarrow>
            andthen put_provision (\<lambda>status.
            if status \<notin> {200, 201, 204} then raise INTERNAL_ERROR else ret ())))"

definition step_admin_user :: "prov_lib \<Rightarrow> nat \<Rightarrow> nat \<Rightarrow> unit cp" where
  "step_admin_user lib account t =
     andthen (reads (SELECT_ACCOUNT_BY_ID account)) (\<lambda>row.
     case row of
       None \<Rightarrow> raise INTERNAL_ERROR
     | Some a \<Rightarrow> on_db (\<lambda>now db. INSERT_ADMIN_USER (pv_fresh lib db) t (ac_email a) (ac_hash a) now db))"

definition trial_duration_days :: "int cp" where
  "trial_duration_days =
     andthen (reads (SELECT_PLAN_CONFIG ''trial'')) (\<lambda>rows.
     case map_of rows ''trial_duration_days'' of None \<Rightarrow> ret DEFAULT_TRIAL_DURATION_DAYS | Some v \<Rightarrow> config_int v)"

definition audit_write_provisioned :: "clock_lib \<Rightarrow> nat \<Rightarrow> nat \<Rightarrow> cp_db \<Rightarrow> cp_error + unit \<times> cp_db" where
  "audit_write_provisioned lib t expires =
     audit_rows t SAGA_ACTOR ''tenant.provisioned'' (tenant_entity t) None
       (Some [(''status'', JStr ''active''), (''trial_expires_at'', JStr (cl_iso lib expires))]) None"

definition step_trial_expiry :: "prov_lib \<Rightarrow> nat \<Rightarrow> unit cp" where
  "step_trial_expiry lib t =
     andthen clock (\<lambda>now.
     andthen trial_duration_days (\<lambda>duration_days.
     andthen (plus_days now duration_days) (\<lambda>expires.
     andthen (on_db (\<lambda>_ db. audit_write_provisioned (pl_clock (pv_cp lib)) t expires (SET_TENANT_ACTIVE t expires now db))) (\<lambda>_.
     entitlements_invalidate t))))"

definition execute_step :: "prov_lib \<Rightarrow> string \<Rightarrow> nat \<Rightarrow> nat option \<Rightarrow> unit cp" where
  "execute_step lib step account tenant =
     (case tenant of
        None \<Rightarrow> raise INTERNAL_ERROR
      | Some t \<Rightarrow>
          if step = ''tenant_row'' then ret ()
          else if step = ''rls_context'' then step_rls_context t
          else if step = ''es_index'' then step_es_index lib
          else if step = ''entitlements'' then andthen (warm lib t) (\<lambda>_. ret ())
          else if step = ''admin_user'' then step_admin_user lib account t
          else if step = ''trial_expiry'' then step_trial_expiry lib t
          else raise INTERNAL_ERROR)"

text \<open>The loop of attempts. Its result is whether the step was done, the number of attempts and the last error.\<close>

function attempt_step :: "prov_lib \<Rightarrow> string \<Rightarrow> nat \<Rightarrow> nat option \<Rightarrow> nat \<Rightarrow> string \<Rightarrow> (bool \<times> nat \<times> string) cp" where
  "attempt_step lib step account tenant attempts last_error w =
     (if attempts < saga_step_max_attempts then
        (case execute_step lib step account tenant w of
           (Inr _, w1) \<Rightarrow> (Inr (True, attempts + 1, last_error), w1)
         | (Inl e, w1) \<Rightarrow>
             attempt_step lib step account tenant (attempts + 1) (pv_show lib e)
               (if attempts + 1 < saga_step_max_attempts then snd (sleep saga_retry_delay_seconds w1) else w1))
      else (Inr (False, attempts, last_error), w))"
  by pat_completeness auto
termination by (relation "measure (\<lambda>(_, _, _, _, attempts, _, _). saga_step_max_attempts - attempts)") auto

definition fail_terminally :: "nat \<Rightarrow> nat option \<Rightarrow> string \<Rightarrow> string \<Rightarrow> unit cp" where
  "fail_terminally saga tenant step err =
     andthen (writes (\<lambda>_. COMPLETE_SAGA saga ''failed'' (Some (take 2000 (step @ '': '' @ err))))) (\<lambda>_.
     case tenant of
       None \<Rightarrow> ret ()
     | Some t \<Rightarrow>
         andthen (writes (\<lambda>_. SET_TENANT_PROVISIONING_FAILED t)) (\<lambda>_.
         andthen (tenant_status_invalidate t) (\<lambda>_.
         best_effort (audit_standalone t SAGA_ACTOR ''tenant.provisioning_failed'' (tenant_entity t) None
           (Some [(''status'', JStr ''provisioning_failed''), (''failed_step'', JStr step)]) (Some ''saga_terminal_failure'')))))"

fun run_steps :: "prov_lib \<Rightarrow> nat \<Rightarrow> nat \<Rightarrow> nat option \<Rightarrow> step_row list \<Rightarrow> string list \<Rightarrow> string cp" where
  "run_steps lib saga account tenant rows [] =
     andthen (writes (\<lambda>_. COMPLETE_SAGA saga ''succeeded'' None)) (\<lambda>_. ret ''succeeded'')"
| "run_steps lib saga account tenant rows (step # rest) =
     (let state = find (\<lambda>r. st_step r = step) rows;
          status = (case state of None \<Rightarrow> ''pending'' | Some r \<Rightarrow> st_status r);
          attempts = (case state of None \<Rightarrow> 0 | Some r \<Rightarrow> st_attempts r) in
      if status = ''done'' then run_steps lib saga account tenant rows rest
      else
        andthen (attempt_step lib step account tenant attempts []) (\<lambda>(done, attempts, last_error).
        andthen (writes (\<lambda>_. MARK_SAGA_STEP saga step (if done then ''done'' else ''failed'') attempts)) (\<lambda>_.
        andthen (writes (\<lambda>_. UPDATE_SAGA_PROGRESS saga step)) (\<lambda>_.
        if \<not> done then andthen (fail_terminally saga tenant step last_error) (\<lambda>_. ret ''failed'')
        else run_steps lib saga account tenant rows rest))))"

definition saga_run :: "prov_lib \<Rightarrow> nat \<Rightarrow> string cp" where
  "saga_run lib saga_id =
     andthen (reads (SELECT_SAGA saga_id)) (\<lambda>saga.
     case saga of
       None \<Rightarrow> raise INTERNAL_ERROR
     | Some s \<Rightarrow>
         if sg_state s \<noteq> ''running'' then ret (sg_state s)
         else
           andthen (reads (SELECT_SAGA_STEPS saga_id)) (\<lambda>rows.
           run_steps lib saga_id (sg_account s) (sg_tenant s) rows STEP_ORDER))"

definition resume_running :: "nat list cp" where
  "resume_running = reads SELECT_RUNNING_SAGAS"

subsection \<open>Signup\<close>

definition SIGNUP_ABUSE_WINDOW_SECONDS :: nat where "SIGNUP_ABUSE_WINDOW_SECONDS = 3600"

definition signup_ip_threshold_default :: int where "signup_ip_threshold_default = 5"

text \<open>\<^verbatim>\<open>value.count("@")\<close> and \<^verbatim>\<open>value.partition("@")\<close> of a validated address.\<close>

definition validate_email :: "string \<Rightarrow> string option" where
  "validate_email raw =
     (let v = py_strip raw; local = takeWhile (\<lambda>c. c \<noteq> CHR ''@'') v; domain = drop (length local + 1) v in
      if length v > 320 \<or> count_list v (CHR ''@'') \<noteq> 1 then None
      else if local = [] \<or> CHR ''.'' \<notin> set domain \<or> starts_with domain ''.'' \<or> ends_with domain ''.'' then None
      else Some v)"

record signup_request =
  sr_org_name :: string
  sr_email :: string
  sr_password :: string
  sr_challenge :: "string option"

definition signup_request_ok :: "signup_request \<Rightarrow> bool" where
  "signup_request_ok b =
     (2 \<le> length (sr_org_name b) \<and> length (sr_org_name b) \<le> 120 \<and> validate_email (sr_email b) = Some (sr_email b) \<and> length (sr_password b) \<le> 4096)"

definition email_domain :: "string \<Rightarrow> string" where
  "email_domain email = py_lower (rev (takeWhile (\<lambda>c. c \<noteq> CHR ''@'') (rev email)))"

definition bump_signup_counter :: "string option \<Rightarrow> int cp" where
  "bump_signup_counter ip =
     (case Option.bind ip nonempty of
        None \<Rightarrow> ret 0
      | Some a \<Rightarrow>
          andthen (incr (abuse_signup_ip a)) (\<lambda>count.
          andthen (if count = 1 then expire (abuse_signup_ip a) SIGNUP_ABUSE_WINDOW_SECONDS else ret ()) (\<lambda>_. ret count)))"

definition signup_ip_threshold :: "int cp" where
  "signup_ip_threshold =
     andthen (reads (SELECT_PLATFORM_CONFIG_VALUE ''signup_per_ip_hourly_threshold'')) (\<lambda>row.
     case row of None \<Rightarrow> ret signup_ip_threshold_default | Some v \<Rightarrow> config_int v)"

definition log_abuse :: "string \<Rightarrow> string option \<Rightarrow> string \<Rightarrow> string \<Rightarrow> unit cp" where
  "log_abuse email ip outcome reason = writes (\<lambda>_. INSERT_SIGNUP_ABUSE_LOG email (email_domain email) ip outcome reason)"

definition send_verification_email :: "prov_lib \<Rightarrow> string \<Rightarrow> nat \<Rightarrow> string \<Rightarrow> unit cp" where
  "send_verification_email lib token account email =
     andthen (on_db (\<lambda>now. INSERT_VERIFICATION ''signup_verification'' (Some account) None (pl_sha256 (pv_cp lib) token) (now + verification_ttl_seconds))) (\<lambda>_.
     send_mail email token)"

text \<open>The verifier that the settings select: without a stub token every response is rejected. The comparison raises on a response that is
  not ASCII.\<close>

definition challenge_verify :: "prov_lib \<Rightarrow> string \<Rightarrow> bool cp" where
  "challenge_verify lib response =
     (if pv_stub lib = [] then ret False
      else if list_ex (\<lambda>c. (of_char c :: nat) \<ge> 128) (response @ pv_stub lib) then raise INTERNAL_ERROR
      else ret (response = pv_stub lib))"

definition challenge :: "prov_lib \<Rightarrow> string \<Rightarrow> string option \<Rightarrow> string option \<Rightarrow> string list \<Rightarrow> unit cp" where
  "challenge lib email ip response reasons =
     (if reasons = [] then ret ()
      else let reason = join_with '','' reasons in
        (case Option.bind response nonempty of
           Some r \<Rightarrow>
             andthen (challenge_verify lib r) (\<lambda>passed.
             if \<not> passed
             then andthen (log_abuse email ip ''blocked'' ''challenge_failed'') (\<lambda>_. raise (SIGNUP_CHALLENGE_REQUIRED ''failed'' reason))
             else log_abuse email ip ''allowed'' ''challenge_passed'')
         | None \<Rightarrow>
             andthen (log_abuse email ip ''challenged'' reason) (\<lambda>_. raise (SIGNUP_CHALLENGE_REQUIRED ''required'' reason))))"

definition signup :: "prov_lib \<Rightarrow> string \<Rightarrow> string option \<Rightarrow> signup_request \<Rightarrow> nat cp" where
  "signup lib token ip body =
     (let email = py_strip (sr_email body); domain = email_domain email in
     andthen (bump_signup_counter ip) (\<lambda>count.
     andthen signup_ip_threshold (\<lambda>threshold.
     andthen (challenge lib email ip (sr_challenge body)
                ((if Option.bind ip nonempty \<noteq> None \<and> count > threshold then [''ip_velocity''] else [])
                 @ (if domain \<in> set (pv_disposable lib) then [''disposable_domain''] else []))) (\<lambda>_.
     andthen (check_new_password (pv_cp lib) (sr_password body)) (\<lambda>_.
     andthen (reads (SELECT_ACCOUNT_BY_DOMAIN domain)) (\<lambda>existing.
     if existing \<noteq> None then raise DOMAIN_ALREADY_REGISTERED
     else
       andthen (caught (on_db (\<lambda>_ db. INSERT_ACCOUNT (pv_fresh lib db) (py_strip (sr_org_name body)) email domain
                                 (pl_hash (pv_cp lib) (sr_password body)) db)) DOMAIN_ALREADY_REGISTERED) (\<lambda>account.
       andthen (send_verification_email lib token account email) (\<lambda>_. ret account))))))))"

text \<open>What \<open>verify\<close> returns names the saga that it starts in the background.\<close>

definition verify :: "prov_lib \<Rightarrow> string \<Rightarrow> (nat \<times> nat) cp" where
  "verify lib token =
     (let token_hash = pl_sha256 (pv_cp lib) token in
     andthen (changes (CONSUME_VERIFICATION token_hash)) (\<lambda>consumed.
     case consumed of
       None \<Rightarrow>
         andthen (reads (SELECT_VERIFICATION_BY_HASH token_hash)) (\<lambda>existing.
         case existing of
           None \<Rightarrow> raise VERIFICATION_EXPIRED
         | Some v \<Rightarrow> if ve_used v \<noteq> None then raise VERIFICATION_ALREADY_USED else raise VERIFICATION_EXPIRED)
     | Some v \<Rightarrow>
         (case ve_account v of
            None \<Rightarrow> raise VERIFICATION_EXPIRED
          | Some account \<Rightarrow>
              if ve_purpose v \<noteq> ''signup_verification'' then raise VERIFICATION_EXPIRED
              else
                andthen (writes (\<lambda>_. MARK_ACCOUNT_VERIFIED account)) (\<lambda>_.
                andthen (reads (SELECT_ACCOUNT_BY_ID account)) (\<lambda>row.
                case row of
                  None \<Rightarrow> raise INTERNAL_ERROR
                | Some a \<Rightarrow>
                    andthen (ensure_started lib account (ac_org a)) (\<lambda>(saga, tenant).
                    andthen (audit_standalone tenant \<lparr>ae_type = ''user'', ae_id = public_id ACCOUNT_PREFIX account\<rparr> ''signup.verified'' (tenant_entity tenant) None
                       (Some [(''account_state'', JStr ''verified''), (''provisioning'', JStr ''in_progress'')]) None) (\<lambda>_.
                    ret (saga, tenant))))))))"

definition resend_verification :: "prov_lib \<Rightarrow> string \<Rightarrow> string option \<Rightarrow> string \<Rightarrow> unit cp" where
  "resend_verification lib token ip email =
     andthen (bump_signup_counter ip) (\<lambda>count.
     andthen signup_ip_threshold (\<lambda>threshold.
     if Option.bind ip nonempty \<noteq> None \<and> count > threshold then log_abuse email ip ''held'' ''resend_ip_velocity''
     else
       andthen (reads (SELECT_ACCOUNT_BY_EMAIL (py_strip email))) (\<lambda>account.
       case account of
         None \<Rightarrow> ret ()
       | Some a \<Rightarrow> if ac_state a = ''pending_verification'' then send_verification_email lib token (ac_id a) (ac_email a) else ret ())))"

definition provisioning_status :: "string \<Rightarrow> string cp" where
  "provisioning_status account_id =
     (case parse_public_id ACCOUNT_PREFIX account_id of
        None \<Rightarrow> raise NOT_FOUND
      | Some account \<Rightarrow>
          andthen (reads (SELECT_ACCOUNT_BY_ID account)) (\<lambda>row.
          case row of
            None \<Rightarrow> raise NOT_FOUND
          | Some a \<Rightarrow>
              if ac_state a = ''pending_verification'' then ret ''pending_verification''
              else
                andthen (reads (SELECT_TENANT_BY_ACCOUNT account)) (\<lambda>tenant.
                case tenant of
                  None \<Rightarrow> ret ''provisioning''
                | Some t \<Rightarrow>
                    if ct_status t = ''provisioning'' then ret ''provisioning''
                    else if ct_status t = ''provisioning_failed'' then ret ''provisioning_failed''
                    else if ct_status t = ''purged'' then raise NOT_FOUND
                    else ret ''ready'')))"

subsection \<open>The outcome of a saga\<close>

text \<open>Assertions on the tables, with a rule per combinator; what happens to Redis does not matter to them.\<close>

definition dw :: "(cp_db \<Rightarrow> bool) \<Rightarrow> cp_world \<Rightarrow> bool" where
  "dw A w \<longleftrightarrow> A (cw_db w)"

lemma fateless_dw: "fateless (dw A)"
  by (simp add: fateless_def dw_def)

lemma dw_keeps: "keeps A m \<Longrightarrow> (\<And>db. A db \<Longrightarrow> C db) \<Longrightarrow> valid (dw A) m (\<lambda>_. dw A) (dw C)"
  by (rule validI) (auto simp: dw_def dest!: keepsD_run)

lemma dw_db:
  assumes "\<And>db. A db \<Longrightarrow> C db" and "\<And>now db x db'. A db \<Longrightarrow> op now db = Inr (x, db') \<Longrightarrow> B x db' \<and> C db'"
  shows "valid (dw A) (on_db op) (\<lambda>x. dw (B x)) (dw C)"
  by (rule valid_on_db) (use assms fateless_dw in \<open>auto simp: dw_def\<close>)

lemma dw_writes:
  assumes "\<And>db. A db \<Longrightarrow> C db" and "\<And>now db. A db \<Longrightarrow> B (q now db) \<and> C (q now db)"
  shows "valid (dw A) (writes q) (\<lambda>_. dw B) (dw C)"
  unfolding writes_def by (rule dw_db) (use assms in auto)

lemma dw_reads:
  assumes "\<And>db. A db \<Longrightarrow> C db"
  shows "valid (dw A) (reads q) (\<lambda>x. dw (\<lambda>db. A db \<and> x = q db)) (dw C)"
  unfolding reads_def by (rule dw_db) (use assms in auto)

text \<open>What a finished step leaves in the tables, for the account and the tenant of the saga.\<close>

definition step_effect :: "nat \<Rightarrow> nat \<Rightarrow> string \<Rightarrow> cp_db \<Rightarrow> bool" where
  "step_effect acct t step db =
     (if step = ''admin_user'' then list_ex (\<lambda>u. us_tenant u = t) (db_users db)
      else if step = ''trial_expiry'' then (\<exists>r. SELECT_TENANT_BY_ID t db = Some r \<and> ct_status r = ''active'' \<and> ct_trial_expires r \<noteq> None)
      else True)"

definition admin_row :: "account_row \<Rightarrow> user_row \<Rightarrow> bool" where
  "admin_row a u \<longleftrightarrow> us_email u = ac_email a \<and> us_role u = ''admin'' \<and> us_state u = ''active'' \<and> us_hash u = Some (ac_hash a) \<and> us_deleted u = None"

definition saga_base :: "account_row \<Rightarrow> nat \<Rightarrow> cp_db \<Rightarrow> bool" where
  "saga_base a t db \<longleftrightarrow> SELECT_ACCOUNT_BY_ID (ac_id a) db = Some a \<and> (\<forall>u \<in> set (db_users db). us_tenant u = t \<longrightarrow> admin_row a u) \<and> t \<in> ct_id ` set (db_tenants db)"

definition saga_at :: "nat \<Rightarrow> nat \<Rightarrow> nat \<Rightarrow> string \<Rightarrow> cp_db \<Rightarrow> bool" where
  "saga_at s acct t st db \<longleftrightarrow> (\<exists>r. SELECT_SAGA s db = Some r \<and> sg_account r = acct \<and> sg_tenant r = Some t \<and> sg_state r = st)"

definition effects :: "nat \<Rightarrow> nat \<Rightarrow> nat \<Rightarrow> cp_db \<Rightarrow> bool" where
  "effects s acct t db \<longleftrightarrow> (\<forall>r \<in> set (db_steps db). st_saga r = s \<longrightarrow> st_status r = ''done'' \<longrightarrow> step_effect acct t (st_step r) db)"

definition running :: "nat \<Rightarrow> account_row \<Rightarrow> nat \<Rightarrow> string set \<Rightarrow> cp_db \<Rightarrow> bool" where
  "running s a t X db \<longleftrightarrow> saga_at s (ac_id a) t ''running'' db \<and> saga_base a t db \<and> effects s (ac_id a) t db \<and> (\<forall>step \<in> X. step_effect (ac_id a) t step db)"

definition provisioned :: "nat \<Rightarrow> account_row \<Rightarrow> nat \<Rightarrow> cp_db \<Rightarrow> bool" where
  "provisioned s a t db \<longleftrightarrow> saga_at s (ac_id a) t ''succeeded'' db \<and> saga_base a t db \<and> step_effect (ac_id a) t ''admin_user'' db \<and> step_effect (ac_id a) t ''trial_expiry'' db"

definition saga_inv :: "nat \<Rightarrow> account_row \<Rightarrow> nat \<Rightarrow> cp_db \<Rightarrow> bool" where
  "saga_inv s a t db \<longleftrightarrow> running s a t {} db \<or> provisioned s a t db \<or> saga_at s (ac_id a) t ''failed'' db"

lemma running_inv: "running s a t X db \<Longrightarrow> saga_inv s a t db"
  by (auto simp: saga_inv_def running_def)

lemma find_map_same:
  assumes "\<And>x. P (f x) = P x"
  shows "find P (map f xs) = map_option f (find P xs)"
  using assms by (induction xs) auto

text \<open>The statements of the steps keep what holds while the saga runs.\<close>

lemma running_admin:
  assumes r: "running s a t X db" and i: "INSERT_ADMIN_USER fresh t (ac_email a) (ac_hash a) now db = Inr (x, db')"
  shows "running s a t (insert ''admin_user'' X) db'"
proof -
  have "db' = db \<and> list_ex (same_email t (ac_email a)) (db_users db) \<or> (\<exists>u. db' = db\<lparr>db_users := db_users db @ [u]\<rparr> \<and> us_tenant u = t \<and> admin_row a u)"
    using i by (auto simp: INSERT_ADMIN_USER_def admin_row_def split: if_splits)
  then show ?thesis
  proof
    assume "db' = db \<and> list_ex (same_email t (ac_email a)) (db_users db)"
    then show ?thesis using r by (auto simp: running_def step_effect_def same_email_def list_ex_iff)
  next
    assume "\<exists>u. db' = db\<lparr>db_users := db_users db @ [u]\<rparr> \<and> us_tenant u = t \<and> admin_row a u"
    then obtain u where u: "db' = db\<lparr>db_users := db_users db @ [u]\<rparr>" "us_tenant u = t" "admin_row a u" by blast
    have e: "step_effect (ac_id a) t step db'" if "step_effect (ac_id a) t step db \<or> step = ''admin_user''" for step
      using that u by (auto simp: step_effect_def SELECT_TENANT_BY_ID_def)
    have "saga_base a t db'" using r u by (auto simp: running_def saga_base_def SELECT_ACCOUNT_BY_ID_def)
    moreover have "saga_at s (ac_id a) t ''running'' db'" using r u by (simp add: running_def saga_at_def SELECT_SAGA_def)
    moreover have "effects s (ac_id a) t db'" using r e u(1) by (auto simp: running_def effects_def)
    ultimately show ?thesis using r e by (auto simp: running_def)
  qed
qed

lemma tenant_ids: "(\<And>r. ct_id (f r) = ct_id r) \<Longrightarrow> ct_id ` set (db_tenants (update_tenant t f db)) = ct_id ` set (db_tenants db)"
proof -
  assume "\<And>r. ct_id (f r) = ct_id r"
  then have "map ct_id (db_tenants (update_tenant t f db)) = map ct_id (db_tenants db)" by (simp add: update_tenant_def)
  from arg_cong [OF this, of set] show ?thesis by simp
qed

lemma running_active:
  assumes r: "running s a t X db"
  shows "running s a t (insert ''trial_expiry'' X) (SET_TENANT_ACTIVE t expires now db)"
proof -
  let ?db = "SET_TENANT_ACTIVE t expires now db"
  let ?f = "\<lambda>r. if ct_id r = t then r\<lparr>ct_status := ''active'', ct_trial_expires := Some expires, ct_provisioned_at := Some now\<rparr> else r"
  have sel: "SELECT_TENANT_BY_ID t ?db = map_option ?f (SELECT_TENANT_BY_ID t db)"
    unfolding SELECT_TENANT_BY_ID_def SET_TENANT_ACTIVE_def update_tenant_def by simp (rule find_map_same, simp)
  have "SELECT_TENANT_BY_ID t db \<noteq> None" using r by (auto simp: running_def saga_base_def SELECT_TENANT_BY_ID_def find_None_iff)
  then obtain row where row: "SELECT_TENANT_BY_ID t db = Some row" "ct_id row = t" by (auto simp: SELECT_TENANT_BY_ID_def find_Some_iff)
  have e: "step_effect (ac_id a) t step ?db" if "step_effect (ac_id a) t step db \<or> step = ''trial_expiry''" for step
    using that sel row by (auto simp: step_effect_def SET_TENANT_ACTIVE_def update_tenant_def)
  have "ct_id ` set (db_tenants ?db) = ct_id ` set (db_tenants db)" by (simp add: SET_TENANT_ACTIVE_def tenant_ids)
  then have "saga_base a t ?db" using r by (simp add: running_def saga_base_def SELECT_ACCOUNT_BY_ID_def SET_TENANT_ACTIVE_def update_tenant_def)
  moreover have "saga_at s (ac_id a) t ''running'' ?db" using r by (simp add: running_def saga_at_def SELECT_SAGA_def SET_TENANT_ACTIVE_def update_tenant_def)
  moreover have "effects s (ac_id a) t ?db" using r e by (auto simp: running_def effects_def SET_TENANT_ACTIVE_def update_tenant_def)
  ultimately show ?thesis using r e by (auto simp: running_def)
qed

lemma audit_frames:
  "saga_base a t (db\<lparr>db_audit := rows\<rparr>) = saga_base a t db" "step_effect acct t step (db\<lparr>db_audit := rows\<rparr>) = step_effect acct t step db"
  "effects s acct t (db\<lparr>db_audit := rows\<rparr>) = effects s acct t db" "saga_at s acct t st (db\<lparr>db_audit := rows\<rparr>) = saga_at s acct t st db"
  by (simp_all add: saga_base_def SELECT_ACCOUNT_BY_ID_def step_effect_def SELECT_TENANT_BY_ID_def effects_def saga_at_def SELECT_SAGA_def)

lemma running_audit: "running s a t X db \<Longrightarrow> running s a t X (db\<lparr>db_audit := rows\<rparr>)"
  by (simp add: running_def audit_frames)

lemma mark_frames:
  "saga_base a t (MARK_SAGA_STEP s step st n db) = saga_base a t db" "step_effect acct t x (MARK_SAGA_STEP s step st n db) = step_effect acct t x db"
  "saga_at s' acct t st' (MARK_SAGA_STEP s step st n db) = saga_at s' acct t st' db"
  by (simp_all add: saga_base_def SELECT_ACCOUNT_BY_ID_def step_effect_def SELECT_TENANT_BY_ID_def saga_at_def SELECT_SAGA_def MARK_SAGA_STEP_def)

lemma effects_mark:
  assumes "effects s acct t db" and "st = ''done'' \<Longrightarrow> step_effect acct t step db"
  shows "effects s acct t (MARK_SAGA_STEP s step st n db)"
proof (unfold effects_def mark_frames, intro ballI impI)
  fix r assume "r \<in> set (db_steps (MARK_SAGA_STEP s step st n db))" and fin: "st_saga r = s" "st_status r = ''done''"
  then obtain q where q: "q \<in> set (db_steps db)" "r = (if is_step s step q then q\<lparr>st_status := st, st_attempts := n\<rparr> else q)" by (auto simp: MARK_SAGA_STEP_def)
  show "step_effect acct t (st_step r) db"
  proof (cases "is_step s step q")
    case True
    then have "st = ''done''" "st_step r = step" using q(2) fin(2) by (simp_all add: is_step_def)
    then show ?thesis using assms(2) by simp
  next
    case False
    then have "r = q" using q(2) by simp
    then show ?thesis using assms(1) q(1) fin unfolding effects_def by simp
  qed
qed

lemma running_mark:
  assumes r: "running s a t X db" and "d \<Longrightarrow> step \<in> X"
  shows "running s a t X (MARK_SAGA_STEP s step (if d then ''done'' else ''failed'') n db)"
  using r assms(2) by (cases d) (auto simp: running_def mark_frames intro!: effects_mark)

lemma saga_at_update:
  assumes "saga_at s acct t st db" and "\<And>r. sg_id (f r) = sg_id r \<and> sg_account (f r) = sg_account r \<and> sg_tenant (f r) = sg_tenant r"
    and "\<And>r. sg_state r = st \<Longrightarrow> sg_state (f r) = st'"
  shows "saga_at s acct t st' (update_saga s f db)"
proof -
  obtain r where r: "SELECT_SAGA s db = Some r" "sg_account r = acct" "sg_tenant r = Some t" "sg_state r = st" using assms(1) by (auto simp: saga_at_def)
  have "SELECT_SAGA s (update_saga s f db) = map_option (\<lambda>r. if sg_id r = s then f r else r) (SELECT_SAGA s db)"
    unfolding SELECT_SAGA_def update_saga_def by simp (rule find_map_same, simp add: assms(2))
  moreover have "sg_id r = s" using r(1) by (auto simp: SELECT_SAGA_def find_Some_iff)
  ultimately show ?thesis using r assms(2,3) by (auto simp: saga_at_def)
qed

lemma saga_frame:
  "saga_base a t (update_saga s f db) = saga_base a t db" "step_effect acct t step (update_saga s f db) = step_effect acct t step db"
  "effects s' acct t (update_saga s f db) = effects s' acct t db"
  by (simp_all add: saga_base_def SELECT_ACCOUNT_BY_ID_def step_effect_def SELECT_TENANT_BY_ID_def effects_def update_saga_def)

text \<open>Each step, when it returns, has its effect; when it raises, nothing is lost.\<close>

lemma keeps_running_invalidate: "keeps A (entitlements_invalidate t)"
  unfolding entitlements_invalidate_def by (intro keeps_rules)

lemma keeps_warm: "keeps A (warm lib t)"
  unfolding warm_def compose_def by (intro keeps_rules)

lemma keeps_put: "keeps A put_provision"
  by (auto simp: keeps_def put_provision_def dest: take_fate_same split: prod.splits list.splits)

lemma keeps_es_index: "keeps A (step_es_index lib)"
  unfolding step_es_index_def by (intro keeps_rules keeps_put)

lemma keeps_config: "keeps A (config_int v)" "keeps A trial_duration_days" "keeps A (plus_days now n)"
  unfolding config_int_def trial_duration_days_def plus_days_def Let_def by (intro keeps_rules)+

lemma valid_admin: "valid (dw (running s a t X)) (step_admin_user lib (ac_id a) t) (\<lambda>_. dw (running s a t (insert ''admin_user'' X))) (dw (running s a t X))"
  unfolding step_admin_user_def
proof (rule valid_andthen [OF dw_reads], simp)
  fix row
  show "valid (dw (\<lambda>db. running s a t X db \<and> row = SELECT_ACCOUNT_BY_ID (ac_id a) db))
      (case row of None \<Rightarrow> raise INTERNAL_ERROR | Some b \<Rightarrow> on_db (\<lambda>now db. INSERT_ADMIN_USER (pv_fresh lib db) t (ac_email b) (ac_hash b) now db))
      (\<lambda>_. dw (running s a t (insert ''admin_user'' X))) (dw (running s a t X))"
  proof (cases row)
    case None
    then show ?thesis by (auto intro!: valid_raise simp: dw_def)
  next
    case (Some b)
    have "valid (dw (\<lambda>db. running s a t X db \<and> b = a)) (on_db (\<lambda>now db. INSERT_ADMIN_USER (pv_fresh lib db) t (ac_email b) (ac_hash b) now db))
      (\<lambda>_. dw (running s a t (insert ''admin_user'' X))) (dw (running s a t X))"
    proof (rule dw_db)
      fix now db x db' assume "running s a t X db \<and> b = a" "INSERT_ADMIN_USER (pv_fresh lib db) t (ac_email b) (ac_hash b) now db = Inr (x, db')"
      then have "running s a t (insert ''admin_user'' X) db'" using running_admin by blast
      then show "running s a t (insert ''admin_user'' X) db' \<and> running s a t X db'" by (simp add: running_def)
    qed simp
    then show ?thesis using Some by (auto elim!: valid_weaken simp: dw_def running_def saga_base_def)
  qed
qed

lemma valid_trial: "valid (dw (running s a t X)) (step_trial_expiry lib t) (\<lambda>_. dw (running s a t (insert ''trial_expiry'' X))) (dw (running s a t X))"
proof -
  have upd: "valid (dw (running s a t X)) (on_db (\<lambda>_ db. audit_write_provisioned (pl_clock (pv_cp lib)) t expires (SET_TENANT_ACTIVE t expires now db)))
      (\<lambda>_. dw (running s a t (insert ''trial_expiry'' X))) (dw (running s a t X))" for now expires
  proof (rule dw_db)
    fix now' db x db' assume r: "running s a t X db" and w: "audit_write_provisioned (pl_clock (pv_cp lib)) t expires (SET_TENANT_ACTIVE t expires now db) = Inr (x, db')"
    obtain rows where "db' = (SET_TENANT_ACTIVE t expires now db)\<lparr>db_audit := rows\<rparr>"
      using w by (auto simp: audit_write_provisioned_def audit_rows_def split: sum.splits)
    then have "running s a t (insert ''trial_expiry'' X) db'" using running_audit [OF running_active [OF r]] by simp
    then show "running s a t (insert ''trial_expiry'' X) db' \<and> running s a t X db'" by (simp add: running_def)
  qed simp
  have last: "valid (dw (running s a t (insert ''trial_expiry'' X))) (entitlements_invalidate t) (\<lambda>_. dw (running s a t (insert ''trial_expiry'' X))) (dw (running s a t X))"
    by (rule dw_keeps [OF keeps_running_invalidate]) (simp add: running_def)
  have c: "valid (dw (running s a t X)) clock (\<lambda>_. dw (running s a t X)) (dw (running s a t X))" by (rule dw_keeps [OF keeps_clock])
  have d: "valid (dw (running s a t X)) trial_duration_days (\<lambda>_. dw (running s a t X)) (dw (running s a t X))" by (rule dw_keeps [OF keeps_config(2)])
  have p: "valid (dw (running s a t X)) (plus_days now n) (\<lambda>_. dw (running s a t X)) (dw (running s a t X))" for now n by (rule dw_keeps [OF keeps_config(3)])
  show ?thesis unfolding step_trial_expiry_def
    by (rule valid_andthen [OF c] valid_andthen [OF d] valid_andthen [OF p] valid_andthen [OF upd] last)+
qed

lemma running_insert: "step \<noteq> ''admin_user'' \<Longrightarrow> step \<noteq> ''trial_expiry'' \<Longrightarrow> running s a t (insert step X) = running s a t X"
  by (simp add: running_def step_effect_def fun_eq_iff)

lemma valid_execute:
  "valid (dw (running s a t X)) (execute_step lib step (ac_id a) (Some t)) (\<lambda>_. dw (running s a t (insert step X))) (dw (running s a t X))"
proof (cases "step = ''admin_user'' \<or> step = ''trial_expiry''")
  case True
  then show ?thesis using valid_admin [of s a t X lib] valid_trial [of s a t X lib] unfolding execute_step_def by auto
next
  case False
  have m: "keeps A (andthen (warm lib t) (\<lambda>_. ret ()))" "keeps A (step_rls_context t)" for A
    unfolding step_rls_context_def by (intro keeps_rules keeps_warm)+
  have "keeps (running s a t X) (execute_step lib step (ac_id a) (Some t))"
    using False unfolding execute_step_def by (simp add: m keeps_es_index keeps_ret keeps_raise)
  from dw_keeps [OF this, of "running s a t X"] show ?thesis using False by (simp add: running_insert)
qed

declare attempt_step.simps [simp del]

lemma attempt_running:
  assumes "running s a t X (cw_db w)"
  shows "\<exists>d n' e w'. attempt_step lib step (ac_id a) (Some t) n err w = (Inr (d, n', e), w') \<and> running s a t (if d then insert step X else X) (cw_db w')"
  using assms
proof (induction lib step "ac_id a" "Some t" n err w rule: attempt_step.induct)
  case (1 lib step n err w)
  show ?case
  proof (cases "n < saga_step_max_attempts")
    case False
    then show ?thesis using 1(2) by (auto simp: attempt_step.simps)
  next
    case True
    obtain res w1 where x: "execute_step lib step (ac_id a) (Some t) w = (res, w1)" by fastforce
    show ?thesis
    proof (cases res)
      case (Inr u)
      have "running s a t (insert step X) (cw_db w1)"
        using validD_Inr [OF valid_execute, of s a t X w lib step u w1] 1(2) x Inr by (simp add: dw_def)
      then show ?thesis using True x Inr by (auto simp: attempt_step.simps [of lib step "ac_id a" "Some t" n])
    next
      case (Inl e)
      let ?w2 = "if n + 1 < saga_step_max_attempts then snd (sleep saga_retry_delay_seconds w1) else w1"
      have "running s a t X (cw_db w1)"
        using validD_Inl [OF valid_execute, of s a t X w lib step e w1] 1(2) x Inl by (simp add: dw_def)
      then have "running s a t X (cw_db ?w2)" by (simp add: sleep_def)
      then show ?thesis using 1(1) [OF True x [symmetric] Inl] True x Inl by (simp add: attempt_step.simps [of lib step "ac_id a" "Some t" n])
    qed
  qed
qed

lemma valid_attempt:
  "valid (dw (running s a t X)) (attempt_step lib step (ac_id a) (Some t) n err)
     (\<lambda>(d, _). dw (running s a t (if d then insert step X else X))) (dw (\<lambda>_. False))"
proof (rule validI)
  fix w x w' assume "dw (running s a t X) w" and run: "attempt_step lib step (ac_id a) (Some t) n err w = (Inr x, w')"
  then show "(case x of (d, _) \<Rightarrow> dw (running s a t (if d then insert step X else X))) w'"
    using attempt_running [of s a t X w lib step n err] by (auto simp: dw_def)
next
  fix w e w' assume "dw (running s a t X) w" and run: "attempt_step lib step (ac_id a) (Some t) n err w = (Inl e, w')"
  then show "dw (\<lambda>_. False) w'" using attempt_running [of s a t X w lib step n err] by (auto simp: dw_def)
qed

definition gave_up :: "nat \<Rightarrow> account_row \<Rightarrow> nat \<Rightarrow> cp_db \<Rightarrow> bool" where
  "gave_up s a t db \<longleftrightarrow> saga_at s (ac_id a) t ''failed'' db \<and> (\<exists>r. SELECT_TENANT_BY_ID t db = Some r \<and> ct_status r = ''provisioning_failed'')"

lemma saga_at_frames:
  "saga_at s acct t st (update_tenant x f db) = saga_at s acct t st db"
  by (simp add: saga_at_def SELECT_SAGA_def update_tenant_def)

lemma valid_fail:
  "valid (dw (running s a t X)) (fail_terminally s (Some t) step err) (\<lambda>_. dw (gave_up s a t)) (dw (saga_inv s a t))"
proof -
  let ?F = "\<lambda>db. saga_at s (ac_id a) t ''failed'' db \<and> t \<in> ct_id ` set (db_tenants db)"
  have inv: "?F db \<Longrightarrow> saga_inv s a t db" "gave_up s a t db \<Longrightarrow> saga_inv s a t db" for db by (auto simp: saga_inv_def gave_up_def)
  have c: "valid (dw (running s a t X)) (writes (\<lambda>_. COMPLETE_SAGA s ''failed'' e)) (\<lambda>_. dw ?F) (dw (saga_inv s a t))" for e
  proof (rule dw_writes)
    fix now db assume r: "running s a t X db"
    have "saga_at s (ac_id a) t ''failed'' (COMPLETE_SAGA s ''failed'' e db)"
      using r unfolding COMPLETE_SAGA_def running_def by (intro saga_at_update [of _ _ _ "''running''"]) simp_all
    then have "?F (COMPLETE_SAGA s ''failed'' e db)" using r by (simp add: running_def saga_base_def COMPLETE_SAGA_def update_saga_def)
    then show "?F (COMPLETE_SAGA s ''failed'' e db) \<and> saga_inv s a t (COMPLETE_SAGA s ''failed'' e db)" using inv(1) by simp
  qed (rule running_inv)
  have d: "valid (dw ?F) (writes (\<lambda>_. SET_TENANT_PROVISIONING_FAILED t)) (\<lambda>_. dw (gave_up s a t)) (dw (saga_inv s a t))"
  proof (rule dw_writes)
    fix now db assume r: "?F db"
    have "SELECT_TENANT_BY_ID t (SET_TENANT_PROVISIONING_FAILED t db) = map_option (\<lambda>r. if ct_id r = t then r\<lparr>ct_status := ''provisioning_failed''\<rparr> else r) (SELECT_TENANT_BY_ID t db)"
      unfolding SELECT_TENANT_BY_ID_def SET_TENANT_PROVISIONING_FAILED_def update_tenant_def by simp (rule find_map_same, simp)
    moreover have "\<exists>r. SELECT_TENANT_BY_ID t db = Some r \<and> ct_id r = t"
      using r by (cases "SELECT_TENANT_BY_ID t db") (auto simp: SELECT_TENANT_BY_ID_def find_None_iff find_Some_iff)
    ultimately have "gave_up s a t (SET_TENANT_PROVISIONING_FAILED t db)" using r by (auto simp: gave_up_def SET_TENANT_PROVISIONING_FAILED_def saga_at_frames)
    then show "gave_up s a t (SET_TENANT_PROVISIONING_FAILED t db) \<and> saga_inv s a t (SET_TENANT_PROVISIONING_FAILED t db)" using inv(2) by simp
  qed (rule inv(1))
  have e: "valid (dw (gave_up s a t)) (tenant_status_invalidate t) (\<lambda>_. dw (gave_up s a t)) (dw (saga_inv s a t))"
    unfolding tenant_status_invalidate_def by (rule dw_keeps [OF keeps_commands(4) inv(2)])
  have "keeps (gave_up s a t) (best_effort (audit_standalone t SAGA_ACTOR action target b f reason))" for action target b f reason
    by (intro keeps_rules) (simp add: gave_up_def audit_frames, simp add: SELECT_TENANT_BY_ID_def)
  note f = dw_keeps [OF this inv(2)]
  show ?thesis unfolding fail_terminally_def option.case
    by (rule valid_andthen [OF c] valid_andthen [OF d] valid_andthen [OF e] f)+
qed

lemma running_progress: "running s a t X db \<Longrightarrow> running s a t X (UPDATE_SAGA_PROGRESS s step db)"
  unfolding UPDATE_SAGA_PROGRESS_def running_def saga_frame by (auto intro: saga_at_update)

definition outcome :: "nat \<Rightarrow> account_row \<Rightarrow> nat \<Rightarrow> string \<Rightarrow> cp_db \<Rightarrow> bool" where
  "outcome s a t out db \<longleftrightarrow> out = ''succeeded'' \<and> provisioned s a t db \<or> out = ''failed'' \<and> gave_up s a t db"

lemma outcome_inv: "outcome s a t out db \<Longrightarrow> saga_inv s a t db"
  by (auto simp: outcome_def saga_inv_def gave_up_def)

lemma valid_complete:
  assumes "''admin_user'' \<in> X" and "''trial_expiry'' \<in> X"
  shows "valid (dw (running s a t X)) (andthen (writes (\<lambda>_. COMPLETE_SAGA s ''succeeded'' None)) (\<lambda>_. ret ''succeeded''))
    (\<lambda>out. dw (outcome s a t out)) (dw (saga_inv s a t))"
proof -
  have "valid (dw (running s a t X)) (writes (\<lambda>_. COMPLETE_SAGA s ''succeeded'' None)) (\<lambda>_. dw (provisioned s a t)) (dw (saga_inv s a t))"
  proof (rule dw_writes)
    fix now db assume r: "running s a t X db"
    have "saga_at s (ac_id a) t ''succeeded'' (COMPLETE_SAGA s ''succeeded'' None db)"
      using r unfolding COMPLETE_SAGA_def running_def by (intro saga_at_update [of _ _ _ "''running''"]) simp_all
    then have "provisioned s a t (COMPLETE_SAGA s ''succeeded'' None db)"
      using r assms by (simp add: running_def provisioned_def COMPLETE_SAGA_def saga_frame)
    then show "provisioned s a t (COMPLETE_SAGA s ''succeeded'' None db) \<and> saga_inv s a t (COMPLETE_SAGA s ''succeeded'' None db)" by (simp add: saga_inv_def)
  qed (rule running_inv)
  then show ?thesis by (rule valid_andthen) (auto intro!: valid_ret simp: dw_def outcome_def)
qed

lemma valid_run:
  assumes "\<forall>step \<in> set steps. \<forall>r. find (\<lambda>r. st_step r = step) rows = Some r \<longrightarrow> st_status r = ''done'' \<longrightarrow> step \<in> X"
    and "{''admin_user'', ''trial_expiry''} \<subseteq> X \<union> set steps"
  shows "valid (dw (running s a t X)) (run_steps lib s (ac_id a) (Some t) rows steps) (\<lambda>out. dw (outcome s a t out)) (dw (saga_inv s a t))"
  using assms
proof (induction steps arbitrary: X)
  case Nil
  then show ?case using valid_complete [of X s a t] by simp
next
  case (Cons step rest)
  let ?find = "find (\<lambda>r. st_step r = step) rows"
  let ?status = "case ?find of None \<Rightarrow> ''pending'' | Some r \<Rightarrow> st_status r"
  show ?case
  proof (cases "?status = ''done''")
    case True
    then have "step \<in> X" using Cons.prems(1) by (cases ?find) auto
    then have "valid (dw (running s a t X)) (run_steps lib s (ac_id a) (Some t) rows rest) (\<lambda>out. dw (outcome s a t out)) (dw (saga_inv s a t))"
      using Cons.IH [of X] Cons.prems by auto
    then show ?thesis using True by (simp add: Let_def)
  next
    case False
    have next_step: "valid (dw (running s a t (insert step X))) (run_steps lib s (ac_id a) (Some t) rows rest) (\<lambda>out. dw (outcome s a t out)) (dw (saga_inv s a t))"
      using Cons.IH [of "insert step X"] Cons.prems by auto
    have stop: "valid (dw (running s a t X)) (andthen (fail_terminally s (Some t) step e) (\<lambda>_. ret ''failed'')) (\<lambda>out. dw (outcome s a t out)) (dw (saga_inv s a t))" for e
      by (rule valid_andthen [OF valid_fail]) (auto intro!: valid_ret simp: dw_def outcome_def)
    let ?Y = "\<lambda>d. if d then insert step X else X"
    have mark: "valid (dw (running s a t (?Y d))) (writes (\<lambda>_. MARK_SAGA_STEP s step (if d then ''done'' else ''failed'') n)) (\<lambda>_. dw (running s a t (?Y d))) (dw (saga_inv s a t))" for d n
    proof (rule dw_writes)
      fix now db assume "running s a t (?Y d) db"
      then have "running s a t (?Y d) (MARK_SAGA_STEP s step (if d then ''done'' else ''failed'') n db)" by (rule running_mark) simp
      then show "running s a t (?Y d) (MARK_SAGA_STEP s step (if d then ''done'' else ''failed'') n db)
        \<and> saga_inv s a t (MARK_SAGA_STEP s step (if d then ''done'' else ''failed'') n db)" by (metis running_inv)
    qed (rule running_inv)
    have progress: "valid (dw (running s a t (?Y d))) (writes (\<lambda>_. UPDATE_SAGA_PROGRESS s step)) (\<lambda>_. dw (running s a t (?Y d))) (dw (saga_inv s a t))" for d
      by (rule dw_writes) (auto intro: running_inv running_progress)
    have "valid (dw (running s a t X)) (attempt_step lib step (ac_id a) (Some t) n []) (\<lambda>(d, _). dw (running s a t (?Y d))) (dw (saga_inv s a t))" for n
      by (rule valid_weaken [OF valid_attempt]) (auto simp: dw_def)
    then show ?thesis using False unfolding run_steps.simps Let_def
      by (simp only: if_False) (rule valid_andthen, assumption, clarsimp split del: if_split,
        rule valid_andthen [OF mark], rule valid_andthen [OF progress], use next_step stop in \<open>auto\<close>)
  qed
qed

lemma saga_state: "saga_at s acct t st db \<Longrightarrow> SELECT_SAGA s db = Some r \<Longrightarrow> sg_account r = acct \<and> sg_tenant r = Some t \<and> sg_state r = st"
  by (auto simp: saga_at_def)

lemma valid_saga_run:
  "valid (dw (running s a t {})) (saga_run lib s) (\<lambda>out. dw (outcome s a t out)) (dw (saga_inv s a t))"
proof -
  have run: "valid (dw (\<lambda>db. running s a t {} db \<and> rows = SELECT_SAGA_STEPS s db)) (run_steps lib s (ac_id a) (Some t) rows STEP_ORDER)
      (\<lambda>out. dw (outcome s a t out)) (dw (saga_inv s a t))" for rows
  proof -
    define X where "X = {step. \<exists>r \<in> set rows. st_step r = step \<and> st_status r = ''done''}"
    have x: "\<forall>step \<in> set STEP_ORDER. \<forall>r. find (\<lambda>r. st_step r = step) rows = Some r \<longrightarrow> st_status r = ''done'' \<longrightarrow> step \<in> X"
      by (auto simp: X_def find_Some_iff)
    have "running s a t X db" if "running s a t {} db \<and> rows = SELECT_SAGA_STEPS s db" for db
      using that by (auto simp: running_def effects_def X_def SELECT_SAGA_STEPS_def)
    then show ?thesis using valid_run [OF x, of s a t lib] by (auto elim!: valid_weaken simp: dw_def STEP_ORDER_def)
  qed
  show ?thesis unfolding saga_run_def
  proof (rule valid_andthen [OF dw_reads], erule running_inv)
    fix row
    show "valid (dw (\<lambda>db. running s a t {} db \<and> row = SELECT_SAGA s db))
      (case row of None \<Rightarrow> raise INTERNAL_ERROR | Some r \<Rightarrow> if sg_state r \<noteq> ''running'' then ret (sg_state r)
        else andthen (reads (SELECT_SAGA_STEPS s)) (\<lambda>rows. run_steps lib s (sg_account r) (sg_tenant r) rows STEP_ORDER))
      (\<lambda>out. dw (outcome s a t out)) (dw (saga_inv s a t))"
    proof (cases "\<exists>r. row = Some r \<and> sg_account r = ac_id a \<and> sg_tenant r = Some t \<and> sg_state r = ''running''")
      case False
      then have "\<not> (running s a t {} db \<and> row = SELECT_SAGA s db)" for db by (auto simp: running_def saga_at_def)
      then have "\<not> dw (\<lambda>db. running s a t {} db \<and> row = SELECT_SAGA s db) w" for w by (simp add: dw_def)
      then show ?thesis unfolding valid_def by blast
    next
      case True
      then obtain r where r: "row = Some r" "sg_account r = ac_id a" "sg_tenant r = Some t" "sg_state r = ''running''" by blast
      have "valid (dw (running s a t {})) (andthen (reads (SELECT_SAGA_STEPS s)) (\<lambda>rows. run_steps lib s (ac_id a) (Some t) rows STEP_ORDER))
        (\<lambda>out. dw (outcome s a t out)) (dw (saga_inv s a t))"
        by (rule valid_andthen [OF dw_reads run]) (rule running_inv)
      then show ?thesis using r by (auto elim: valid_weaken simp: dw_def)
    qed
  qed
qed

lemma saga_run_ended:
  assumes "saga_at s acct t st (cw_db w)" and "st \<noteq> ''running''" and "saga_run lib s w = (res, w')"
  shows "cw_db w' = cw_db w \<and> (\<forall>out. res = Inr out \<longrightarrow> out = st)"
proof -
  obtain r where r: "SELECT_SAGA s (cw_db w) = Some r" "sg_state r = st" using assms(1) by (auto simp: saga_at_def)
  have k: "keeps (\<lambda>db. db = cw_db w) (reads (SELECT_SAGA s))" by (rule keeps_reads)
  obtain x w1 where x: "reads (SELECT_SAGA s) w = (x, w1)" by fastforce
  have w1: "cw_db w1 = cw_db w" using keepsD_run [OF k x] by simp
  show ?thesis
  proof (cases x)
    case (Inl e)
    then show ?thesis using assms(3) x w1 by (auto simp: saga_run_def andthen_def)
  next
    case (Inr row)
    then have "row = Some r" using reads_Inr [of "SELECT_SAGA s" w row w1] x r by simp
    then show ?thesis using assms(2,3) x w1 r Inr by (auto simp: saga_run_def andthen_def ret_def)
  qed
qed

lemma saga_run_inv:
  assumes "saga_inv s a t (cw_db w)" and "saga_run lib s w = (res, w')"
  shows "saga_inv s a t (cw_db w')"
proof (cases "running s a t {} (cw_db w)")
  case True
  then show ?thesis using assms(2) validD_Inl [OF valid_saga_run, of s a t w lib] validD_Inr [OF valid_saga_run, of s a t w lib] outcome_inv
    by (cases res) (auto simp: dw_def)
next
  case False
  then consider "saga_at s (ac_id a) t ''succeeded'' (cw_db w)" | "saga_at s (ac_id a) t ''failed'' (cw_db w)"
    using assms(1) unfolding saga_inv_def provisioned_def by blast
  then have "cw_db w' = cw_db w" by cases (use saga_run_ended [OF _ _ assms(2)] in simp_all)
  then show ?thesis using assms(1) by simp
qed

lemma find_in: "find P xs = Some x \<Longrightarrow> x \<in> set xs \<and> P x"
  by (auto simp: find_Some_iff)

lemma find_hit: "x \<in> set xs \<Longrightarrow> P x \<Longrightarrow> \<exists>y. find P xs = Some y \<and> y \<in> set xs \<and> P y"
  by (cases "find P xs") (auto simp: find_None_iff dest: find_in)

text \<open>How a saga starts: what \<open>verify\<close> leaves when it started a new saga, in tables whose users and saga steps refer to existing rows.\<close>

definition refs_ok :: "cp_db \<Rightarrow> bool" where
  "refs_ok db \<longleftrightarrow> (\<forall>u \<in> set (db_users db). us_tenant u \<in> ct_id ` set (db_tenants db)) \<and> (\<forall>r \<in> set (db_steps db). st_saga r \<in> sg_id ` set (db_sagas db))"

definition new_saga :: "nat set \<Rightarrow> nat \<Rightarrow> cp_db \<Rightarrow> bool" where
  "new_saga old acct db \<longleftrightarrow>
     (\<forall>r \<in> set (db_sagas db). sg_id r \<notin> old \<longrightarrow> sg_account r = acct \<and> sg_state r = ''running'')
     \<and> (\<forall>r \<in> set (db_steps db). st_saga r \<notin> old \<longrightarrow> st_status r \<noteq> ''done'')"

definition starting :: "nat set \<Rightarrow> account_row \<Rightarrow> cp_db \<Rightarrow> bool" where
  "starting old a db \<longleftrightarrow> refs_ok db \<and> SELECT_ACCOUNT_BY_ID (ac_id a) db = Some a \<and> new_saga old (ac_id a) db
     \<and> (\<forall>r \<in> set (db_sagas db). sg_id r \<notin> old \<longrightarrow> sg_tenant r = None)"

lemma starting_saga:
  assumes "refs_ok db" and "SELECT_ACCOUNT_BY_ID (ac_id a) db = Some a" and "sg_id ` set (db_sagas db) = old" and "INSERT_SAGA fresh (ac_id a) db = Inr (x, db')"
  shows "starting old a db'"
  using assms by (auto simp: starting_def refs_ok_def new_saga_def INSERT_SAGA_def SELECT_ACCOUNT_BY_ID_def split: if_splits)

lemma starting_step: "starting old a db \<Longrightarrow> INSERT_SAGA_STEP s step db = Inr (x, db') \<Longrightarrow> starting old a db'"
  by (auto simp: starting_def refs_ok_def new_saga_def INSERT_SAGA_STEP_def SELECT_ACCOUNT_BY_ID_def split: if_splits)

lemma keeps_insert_steps: "keeps (starting old a) (insert_steps s steps)"
  by (induction steps) (auto intro!: keeps_rules keeps_on_db dest: starting_step)

definition started :: "nat set \<Rightarrow> account_row \<Rightarrow> nat \<Rightarrow> cp_db \<Rightarrow> bool" where
  "started old a t db \<longleftrightarrow> SELECT_ACCOUNT_BY_ID (ac_id a) db = Some a \<and> new_saga old (ac_id a) db
     \<and> t \<in> ct_id ` set (db_tenants db) \<and> (\<forall>u \<in> set (db_users db). us_tenant u \<noteq> t)"

lemma started_tenant: "starting old a db \<Longrightarrow> INSERT_TENANT fresh (ac_id a) org db = Inr (t, db') \<Longrightarrow> started old a t db'"
proof -
  assume s: "starting old a db" and i: "INSERT_TENANT fresh (ac_id a) org db = Inr (t, db')"
  have t: "t \<notin> ct_id ` set (db_tenants db)" "t \<in> ct_id ` set (db_tenants db')"
    and f: "db_users db' = db_users db" "db_accounts db' = db_accounts db" "db_sagas db' = db_sagas db" "db_steps db' = db_steps db"
    using i by (auto simp: INSERT_TENANT_def split: if_splits)
  have "\<forall>u \<in> set (db_users db). us_tenant u \<noteq> t" using s t(1) unfolding starting_def refs_ok_def by metis
  then show ?thesis using s t(2) f by (simp add: starting_def started_def new_saga_def SELECT_ACCOUNT_BY_ID_def)
qed

lemma started_saga:
  assumes "started old a t db" and "s \<in> sg_id ` set (db_sagas db)" and "s \<notin> old"
    and "UPDATE_SAGA_TENANT s t db = Inr (x, db')"
  shows "running s a t {} db'"
proof -
  have d: "db' = update_saga s (\<lambda>r. r\<lparr>sg_tenant := Some t\<rparr>) db" using assms(4) by (simp add: UPDATE_SAGA_TENANT_def split: if_splits)
  obtain r where r: "SELECT_SAGA s db = Some r" "r \<in> set (db_sagas db)" "sg_id r = s"
    using assms(2) find_hit [of _ "db_sagas db" "\<lambda>r. sg_id r = s"] by (auto simp: SELECT_SAGA_def)
  have "SELECT_SAGA s db' = map_option (\<lambda>r. if sg_id r = s then r\<lparr>sg_tenant := Some t\<rparr> else r) (SELECT_SAGA s db)"
    unfolding SELECT_SAGA_def update_saga_def d by simp (rule find_map_same, simp)
  then have "saga_at s (ac_id a) t ''running'' db'" using r assms(1,3) by (auto simp: saga_at_def started_def new_saga_def)
  moreover have "saga_base a t db'" using assms(1) by (auto simp: started_def saga_base_def SELECT_ACCOUNT_BY_ID_def d update_saga_def)
  moreover have "effects s (ac_id a) t db'" using assms(1,3) by (auto simp: started_def new_saga_def effects_def d update_saga_def)
  ultimately show ?thesis by (simp add: running_def)
qed

lemma valid_started:
  "valid (dw (\<lambda>db. refs_ok db \<and> SELECT_ACCOUNT_BY_ID (ac_id a) db = Some a \<and> sg_id ` set (db_sagas db) = old)) (ensure_started lib (ac_id a) org)
     (\<lambda>(s, t). dw (\<lambda>db. s \<notin> old \<longrightarrow> running s a t {} db)) (\<lambda>_. True)"
proof -
  have i: "valid (dw (\<lambda>db. refs_ok db \<and> SELECT_ACCOUNT_BY_ID (ac_id a) db = Some a \<and> sg_id ` set (db_sagas db) = old))
      (on_db (\<lambda>_ db. INSERT_SAGA (pv_fresh lib db) (ac_id a) db)) (\<lambda>_. dw (starting old a)) (dw (\<lambda>_. True))"
    by (rule dw_db) (auto intro: starting_saga)
  have tenant: "valid (dw (\<lambda>db. starting old a db \<and> s \<in> sg_id ` set (db_sagas db)))
      (on_db (\<lambda>_ db. INSERT_TENANT (pv_fresh lib db) (ac_id a) org db)) (\<lambda>t. dw (\<lambda>db. started old a t db \<and> s \<in> sg_id ` set (db_sagas db))) (dw (\<lambda>_. True))" for s
  proof (rule dw_db)
    fix now db t db' assume "starting old a db \<and> s \<in> sg_id ` set (db_sagas db)" and i: "INSERT_TENANT (pv_fresh lib db) (ac_id a) org db = Inr (t, db')"
    moreover have "db_sagas db' = db_sagas db" using i by (auto simp: INSERT_TENANT_def split: if_splits)
    ultimately show "(started old a t db' \<and> s \<in> sg_id ` set (db_sagas db')) \<and> True" using started_tenant by auto
  qed simp
  have saga: "valid (dw (\<lambda>db. started old a t db \<and> s \<in> sg_id ` set (db_sagas db))) (on_db (\<lambda>_. UPDATE_SAGA_TENANT s t))
      (\<lambda>_. dw (\<lambda>db. s \<notin> old \<longrightarrow> running s a t {} db)) (dw (\<lambda>_. True))" for s t
    by (rule dw_db) (auto intro: started_saga)
  have mark: "valid (dw (\<lambda>db. s \<notin> old \<longrightarrow> running s a t {} db)) (writes (\<lambda>_. MARK_SAGA_STEP s ''tenant_row'' ''done'' 1))
      (\<lambda>_. dw (\<lambda>db. s \<notin> old \<longrightarrow> running s a t {} db)) (dw (\<lambda>_. True))" for s t
    by (rule dw_writes) (auto simp: running_def mark_frames intro!: effects_mark, simp add: step_effect_def)
  have last: "valid (dw (\<lambda>db. starting old a db \<and> s \<in> sg_id ` set (db_sagas db))) (andthen (on_db (\<lambda>_ db. INSERT_TENANT (pv_fresh lib db) (ac_id a) org db)) (\<lambda>t.
             andthen (on_db (\<lambda>_. UPDATE_SAGA_TENANT s t)) (\<lambda>_.
             andthen (writes (\<lambda>_. MARK_SAGA_STEP s ''tenant_row'' ''done'' 1)) (\<lambda>_. ret (s, t)))))
       (\<lambda>(s, t). dw (\<lambda>db. s \<notin> old \<longrightarrow> running s a t {} db)) (dw (\<lambda>_. True))" for s
    by (rule valid_andthen [OF tenant], rule valid_andthen [OF saga], rule valid_andthen [OF mark]) (simp add: valid_ret)
  have steps: "keeps (\<lambda>db. starting old a db \<and> r \<in> set (db_sagas db)) (insert_steps s steps)" for r s steps
    by (induction steps) (auto intro!: keeps_rules keeps_on_db simp: INSERT_SAGA_STEP_def dest: starting_step split: if_splits)
  show ?thesis
    unfolding ensure_started_def
  proof (rule valid_weaken [OF valid_andthen [OF i valid_andthen [OF dw_reads]]])
    fix saga :: "saga_row option"
    let ?k = "case saga of None \<Rightarrow> raise INTERNAL_ERROR | Some s \<Rightarrow> andthen (insert_steps (sg_id s) STEP_ORDER) (\<lambda>_. case sg_tenant s of Some t \<Rightarrow> ret (sg_id s, t)
      | None \<Rightarrow> andthen (on_db (\<lambda>_ db. INSERT_TENANT (pv_fresh lib db) (ac_id a) org db)) (\<lambda>t. andthen (on_db (\<lambda>_. UPDATE_SAGA_TENANT (sg_id s) t)) (\<lambda>_.
             andthen (writes (\<lambda>_. MARK_SAGA_STEP (sg_id s) ''tenant_row'' ''done'' 1)) (\<lambda>_. ret (sg_id s, t)))))"
    show "valid (dw (\<lambda>db. starting old a db \<and> saga = SELECT_SAGA_BY_ACCOUNT (ac_id a) db)) ?k (\<lambda>(s, t). dw (\<lambda>db. s \<notin> old \<longrightarrow> running s a t {} db)) (dw (\<lambda>_. True))"
    proof (cases saga)
      case None
      then show ?thesis by (auto intro!: valid_raise simp: dw_def)
    next
      case (Some r)
      have pre: "starting old a db \<and> r \<in> set (db_sagas db)" if "starting old a db \<and> saga = SELECT_SAGA_BY_ACCOUNT (ac_id a) db" for db
        using that Some find_in [of _ "db_sagas db" r] by (auto simp: SELECT_SAGA_BY_ACCOUNT_def)
      have tail: "valid (dw (\<lambda>db. starting old a db \<and> r \<in> set (db_sagas db))) (case sg_tenant r of Some t \<Rightarrow> ret (sg_id r, t)
          | None \<Rightarrow> andthen (on_db (\<lambda>_ db. INSERT_TENANT (pv_fresh lib db) (ac_id a) org db)) (\<lambda>t. andthen (on_db (\<lambda>_. UPDATE_SAGA_TENANT (sg_id r) t)) (\<lambda>_.
             andthen (writes (\<lambda>_. MARK_SAGA_STEP (sg_id r) ''tenant_row'' ''done'' 1)) (\<lambda>_. ret (sg_id r, t)))))
          (\<lambda>(s, t). dw (\<lambda>db. s \<notin> old \<longrightarrow> running s a t {} db)) (dw (\<lambda>_. True))"
      proof (cases "sg_tenant r")
        case (Some t)
        then show ?thesis by (auto intro!: valid_ret simp: dw_def starting_def)
      next
        case None
        then show ?thesis using last [of "sg_id r"] by (auto elim!: valid_weaken simp: dw_def)
      qed
      have "valid (dw (\<lambda>db. starting old a db \<and> r \<in> set (db_sagas db))) ?k (\<lambda>(s, t). dw (\<lambda>db. s \<notin> old \<longrightarrow> running s a t {} db)) (dw (\<lambda>_. True))"
        unfolding Some option.case by (rule valid_andthen [OF dw_keeps [OF steps] tail]) simp
      then show ?thesis by (rule valid_weaken) (use pre in \<open>auto simp: dw_def\<close>)
    qed
  qed (auto simp: dw_def)
qed

lemma dw_True: "(\<lambda>_. True) = dw (\<lambda>_. True)"
  by (simp add: dw_def fun_eq_iff)

definition link_of :: "prov_lib \<Rightarrow> cp_db \<Rightarrow> string \<Rightarrow> nat \<Rightarrow> bool" where
  "link_of lib db token acct \<longleftrightarrow>
     (\<exists>v \<in> set (db_verifications db). ve_hash v = pl_sha256 (pv_cp lib) token \<and> ve_purpose v = ''signup_verification'' \<and> ve_account v = Some acct)"

lemma valid_verify:
  assumes ok: "refs_ok db0"
  shows "valid (dw (\<lambda>db. db = db0)) (verify lib token)
     (\<lambda>(s, t). dw (\<lambda>db. s \<notin> sg_id ` set (db_sagas db0) \<longrightarrow> (\<exists>a. link_of lib db0 token (ac_id a) \<and> running s a t {} db))) (\<lambda>_. True)"
proof -
  let ?h = "pl_sha256 (pv_cp lib) token" and ?old = "sg_id ` set (db_sagas db0)"
  let ?R = "\<lambda>db. refs_ok db \<and> sg_id ` set (db_sagas db) = ?old"
  let ?Q = "\<lambda>(s, t). dw (\<lambda>db. s \<notin> ?old \<longrightarrow> (\<exists>a. link_of lib db0 token (ac_id a) \<and> running s a t {} db))"
  have consume: "valid (dw (\<lambda>db. db = db0)) (changes (CONSUME_VERIFICATION ?h))
      (\<lambda>v. dw (\<lambda>db. ?R db \<and> (\<forall>x. v = Some x \<longrightarrow> x \<in> set (db_verifications db0) \<and> ve_hash x = ?h))) (\<lambda>_. True)"
    unfolding changes_def dw_True
    by (rule dw_db) (use ok in \<open>auto simp: CONSUME_VERIFICATION_def refs_ok_def consumable_def dest!: find_in\<close>)
  have rest: "valid (dw ?R) (andthen (writes (\<lambda>_. MARK_ACCOUNT_VERIFIED acct)) (\<lambda>_. andthen (reads (SELECT_ACCOUNT_BY_ID acct)) (\<lambda>row.
                case row of None \<Rightarrow> raise INTERNAL_ERROR
                | Some a \<Rightarrow> andthen (ensure_started lib acct (ac_org a)) (\<lambda>(saga, tenant).
                    andthen (audit_standalone tenant (actor tenant) ''signup.verified'' (tenant_entity tenant) None (after tenant) None) (\<lambda>_. ret (saga, tenant)))))) ?Q (\<lambda>_. True)"
    if link: "link_of lib db0 token acct" for acct actor after
  proof -
    have w: "valid (dw ?R) (writes (\<lambda>_. MARK_ACCOUNT_VERIFIED acct)) (\<lambda>_. dw ?R) (\<lambda>_. True)"
      unfolding dw_True by (rule dw_writes) (auto simp: MARK_ACCOUNT_VERIFIED_def refs_ok_def)
    have r: "valid (dw ?R) (reads (SELECT_ACCOUNT_BY_ID acct)) (\<lambda>x. dw (\<lambda>db. ?R db \<and> x = SELECT_ACCOUNT_BY_ID acct db)) (\<lambda>_. True)"
      unfolding dw_True by (rule dw_reads) simp
    have start: "valid (dw (\<lambda>db. ?R db \<and> Some a = SELECT_ACCOUNT_BY_ID acct db)) (ensure_started lib acct (ac_org a)) ?Q (\<lambda>_. True)" for a
    proof (cases "ac_id a = acct")
      case True
      then show ?thesis using valid_started [of a ?old lib "ac_org a"] link by (auto elim!: valid_weaken simp: dw_def)
    next
      case False
      then have "Some a \<noteq> SELECT_ACCOUNT_BY_ID acct db" for db
        using find_in [of "\<lambda>r. ac_id r = acct" "db_accounts db" a] unfolding SELECT_ACCOUNT_BY_ID_def by metis
      then have "\<not> dw (\<lambda>db. ?R db \<and> Some a = SELECT_ACCOUNT_BY_ID acct db) w" for w by (simp add: dw_def)
      then show ?thesis unfolding valid_def by blast
    qed
    have audit: "valid (?Q (s, t)) (andthen (audit_standalone t (actor t) ''signup.verified'' (tenant_entity t) None (after t) None) (\<lambda>_. ret (s, t))) ?Q (\<lambda>_. True)" for s t
      unfolding prod.case dw_True
      by (rule valid_andthen [OF dw_keeps [OF keeps_audit]]) (auto intro!: valid_ret running_audit)
    show ?thesis
    proof (rule valid_andthen [OF w], rule valid_andthen [OF r])
      fix row
      show "valid (dw (\<lambda>db. ?R db \<and> row = SELECT_ACCOUNT_BY_ID acct db)) (case row of None \<Rightarrow> raise INTERNAL_ERROR
          | Some a \<Rightarrow> andthen (ensure_started lib acct (ac_org a)) (\<lambda>(saga, tenant).
              andthen (audit_standalone tenant (actor tenant) ''signup.verified'' (tenant_entity tenant) None (after tenant) None) (\<lambda>_. ret (saga, tenant)))) ?Q (\<lambda>_. True)"
      proof (cases row)
        case None
        then show ?thesis by (simp add: valid_raise)
      next
        case (Some a)
        show ?thesis unfolding Some option.case by (rule valid_andthen [OF start], simp only: split_paired_all prod.case, rule audit [unfolded prod.case])
      qed
    qed
  qed
  show ?thesis unfolding verify_def Let_def
  proof (rule valid_andthen [OF consume])
    fix v
    show "valid (dw (\<lambda>db. ?R db \<and> (\<forall>x. v = Some x \<longrightarrow> x \<in> set (db_verifications db0) \<and> ve_hash x = ?h))) (case v of None \<Rightarrow>
         andthen (reads (SELECT_VERIFICATION_BY_HASH ?h)) (\<lambda>existing.
         case existing of None \<Rightarrow> raise VERIFICATION_EXPIRED
         | Some v \<Rightarrow> if ve_used v \<noteq> None then raise VERIFICATION_ALREADY_USED else raise VERIFICATION_EXPIRED)
     | Some v \<Rightarrow> (case ve_account v of None \<Rightarrow> raise VERIFICATION_EXPIRED
          | Some account \<Rightarrow> if ve_purpose v \<noteq> ''signup_verification'' then raise VERIFICATION_EXPIRED
              else andthen (writes (\<lambda>_. MARK_ACCOUNT_VERIFIED account)) (\<lambda>_. andthen (reads (SELECT_ACCOUNT_BY_ID account)) (\<lambda>row.
                case row of None \<Rightarrow> raise INTERNAL_ERROR
                | Some a \<Rightarrow> andthen (ensure_started lib account (ac_org a)) (\<lambda>(saga, tenant).
                    andthen (audit_standalone tenant \<lparr>ae_type = ''user'', ae_id = public_id ACCOUNT_PREFIX account\<rparr> ''signup.verified'' (tenant_entity tenant) None
                       (Some [(''account_state'', JStr ''verified''), (''provisioning'', JStr ''in_progress'')]) None) (\<lambda>_. ret (saga, tenant))))))) ?Q (\<lambda>_. True)"
    proof (cases "\<exists>x acct. v = Some x \<and> ve_account x = Some acct \<and> ve_purpose x = ''signup_verification'' \<and> x \<in> set (db_verifications db0) \<and> ve_hash x = ?h")
      case True
      then obtain x acct where x: "v = Some x" "ve_account x = Some acct" "ve_purpose x = ''signup_verification''" "x \<in> set (db_verifications db0)" "ve_hash x = ?h" by blast
      then have "link_of lib db0 token acct" by (auto simp: link_of_def)
      from rest [OF this] show ?thesis using x by (auto elim!: valid_weaken simp: dw_def)
    next
      case False
      then show ?thesis
        by (cases v) (auto simp: valid_def andthen_def raise_def dw_def split: prod.splits sum.splits option.splits if_splits)
    qed
  qed
qed

text \<open>A run of the saga on the tables of a world; everything else may have changed since.\<close>

definition rerun :: "prov_lib \<Rightarrow> nat \<Rightarrow> cp_world \<Rightarrow> cp_world \<Rightarrow> bool" where
  "rerun lib s w w' \<longleftrightarrow> (\<exists>v. cw_db v = cw_db w \<and> w' = snd (saga_run lib s v))"

lemma reruns_inv: "(rerun lib s)\<^sup>*\<^sup>* w w' \<Longrightarrow> saga_inv s a t (cw_db w) \<Longrightarrow> saga_inv s a t (cw_db w')"
proof (induction rule: rtranclp_induct)
  case (step y z)
  obtain v where v: "cw_db v = cw_db y" "z = snd (saga_run lib s v)" using step.hyps(2) by (auto simp: rerun_def)
  show ?case using saga_run_inv [of s a t v lib "fst (saga_run lib s v)" z] step.IH [OF step.prems] v by simp
qed

lemma saga_run_outcome:
  assumes inv: "saga_inv s a t (cw_db w)" and run: "saga_run lib s w = (Inr out, w')"
  shows "out = ''succeeded'' \<and> provisioned s a t (cw_db w') \<or> out = ''failed'' \<and> saga_at s (ac_id a) t ''failed'' (cw_db w')
    \<and> (saga_at s (ac_id a) t ''running'' (cw_db w) \<longrightarrow> gave_up s a t (cw_db w'))"
proof -
  consider (run) "running s a t {} (cw_db w)" | (ok) "provisioned s a t (cw_db w)" | (bad) "saga_at s (ac_id a) t ''failed'' (cw_db w)"
    using inv by (auto simp: saga_inv_def)
  then show ?thesis
  proof cases
    case run
    then have "outcome s a t out (cw_db w')" using validD_Inr [OF valid_saga_run _ assms(2), of a t] by (simp add: dw_def)
    then show ?thesis by (auto simp: outcome_def gave_up_def)
  next
    case ok
    then have "saga_at s (ac_id a) t ''succeeded'' (cw_db w)" by (simp add: provisioned_def)
    from saga_run_ended [OF this _ assms(2)] have "cw_db w' = cw_db w" "out = ''succeeded''" by simp_all
    then show ?thesis using ok by simp
  next
    case bad
    from saga_run_ended [OF bad _ assms(2)] have "cw_db w' = cw_db w" "out = ''failed''" by simp_all
    moreover have "\<not> saga_at s (ac_id a) t ''running'' (cw_db w)" using bad by (auto simp: saga_at_def)
    ultimately show ?thesis using bad by simp
  qed
qed


definition demo_prov :: prov_lib where
  "demo_prov = \<lparr>pv_cp = demo_cp_lib\<lparr>pl_clock := \<lparr>cl_iso = (\<lambda>_. ''t''), cl_from_iso = (\<lambda>_. 0)\<rparr>\<rparr>, pv_fresh = (\<lambda>_. 7), pv_valid = (\<lambda>_. True), pv_disposable = [], pv_stub = [], pv_hmac = (\<lambda>_ _. ''m''),
     pv_service_key = replicate 32 CHR ''k'', pv_service_name = ''cp'', pv_show = (\<lambda>_. ''e'')\<rparr>"

definition demo_account :: account_row where
  "demo_account = \<lparr>ac_id = 3, ac_org = ''org'', ac_email = ''a@b.c'', ac_domain = ''b.c'', ac_hash = ''h'', ac_state = ''pending_verification''\<rparr>"

definition demo_link :: verification_row where
  "demo_link = \<lparr>ve_purpose = ''signup_verification'', ve_account = Some 3, ve_user = None, ve_hash = ''tok'', ve_expires = 100, ve_used = None\<rparr>"

definition demo_signed_up :: cp_world where
  "demo_signed_up = \<lparr>cw_now = 5, cw_redis = Map.empty,
     cw_db = \<lparr>db_accounts = [demo_account], db_verifications = [demo_link], db_tenants = [], db_users = [], db_sessions = [], db_sagas = [], db_steps = [],
       db_plan_config = [], db_overrides = [], db_platform_config = [], db_abuse_log = [], db_audit = []\<rparr>, cw_mail = [], cw_http = [], cw_fates = []\<rparr>"

definition demo_verified :: cp_world where
  "demo_verified = snd (verify demo_prov ''tok'' demo_signed_up)"

lemma audit_fits:
  assumes "is_uuid t" and "py_strip action \<noteq> []" and "actor_ok actor" and "target_ok target"
    and "\<exists>x. serialize_audit_value (\<lambda>_. []) before = Inr x" and "\<exists>x. serialize_audit_value (\<lambda>_. []) after = Inr x"
  shows "\<exists>rows'. Audit_Log.write_audit (\<lambda>_. []) (uuid_str t) actor action target before after reason rows = Inr rows'"
  using assms by (auto simp: Audit_Log.write_audit_def uuid_back)

lemma demo_audits:
  "\<exists>x. serialize_audit_value (\<lambda>_. []) (Some [(''account_state'', JStr ''verified''), (''provisioning'', JStr ''in_progress'')]) = Inr x"
  "\<exists>x. serialize_audit_value (\<lambda>_. []) (Some [(''status'', JStr ''active''), (''trial_expires_at'', JStr ''t'')]) = Inr x"
  "py_strip ''signup.verified'' \<noteq> []" "py_strip ''tenant.provisioned'' \<noteq> []"
proof -
  have "is_ok (serialize_audit_value (\<lambda>_. []) (Some [(''account_state'', JStr ''verified''), (''provisioning'', JStr ''in_progress'')]))" by code_simp
  then show "\<exists>x. serialize_audit_value (\<lambda>_. []) (Some [(''account_state'', JStr ''verified''), (''provisioning'', JStr ''in_progress'')]) = Inr x"
    by (auto simp: is_ok_def split: sum.splits)
  have "is_ok (serialize_audit_value (\<lambda>_. []) (Some [(''status'', JStr ''active''), (''trial_expires_at'', JStr ''t'')]))" by code_simp
  then show "\<exists>x. serialize_audit_value (\<lambda>_. []) (Some [(''status'', JStr ''active''), (''trial_expires_at'', JStr ''t'')]) = Inr x"
    by (auto simp: is_ok_def split: sum.splits)
  show "py_strip ''signup.verified'' \<noteq> []" "py_strip ''tenant.provisioned'' \<noteq> []" by code_simp+
qed

lemma demo_tenant: "is_uuid 7" "target_ok (tenant_entity 7)" "\<exists>x. serialize_audit_value (\<lambda>_. []) None = Inr x"
  by (simp_all add: is_uuid_def target_ok_def tenant_entity_def uuid_str_def Let_def serialize_audit_value_def)

lemma demo_verify:
  "\<exists>w. verify demo_prov ''tok'' demo_signed_up = (Inr (7, 7), w) \<and> cw_fates w = [] \<and> cw_http w = [] \<and> cw_now w = 5 \<and> cw_redis w = Map.empty
     \<and> SELECT_SAGA 7 (cw_db w) = Some \<lparr>sg_id = 7, sg_account = 3, sg_tenant = Some 7, sg_state = ''running'', sg_step = None, sg_error = None\<rparr>
     \<and> SELECT_SAGA_STEPS 7 (cw_db w) = map (\<lambda>step. \<lparr>st_saga = 7, st_step = step, st_status = if step = ''tenant_row'' then ''done'' else ''pending'',
          st_attempts = if step = ''tenant_row'' then 1 else 0\<rparr>) STEP_ORDER
     \<and> db_accounts (cw_db w) = [demo_account\<lparr>ac_state := ''verified''\<rparr>] \<and> db_users (cw_db w) = [] \<and> db_plan_config (cw_db w) = []
     \<and> ct_id ` set (db_tenants (cw_db w)) = {7}"
proof -
  have a: "actor_ok \<lparr>ae_type = ''user'', ae_id = public_id ACCOUNT_PREFIX 3\<rparr>" by (simp add: actor_ok_def public_id_def ACCOUNT_PREFIX_def)
  obtain rows where rows: "Audit_Log.write_audit (\<lambda>_. []) (uuid_str 7) \<lparr>ae_type = ''user'', ae_id = public_id ACCOUNT_PREFIX 3\<rparr> ''signup.verified'' (tenant_entity 7) None
      (Some [(''account_state'', JStr ''verified''), (''provisioning'', JStr ''in_progress'')]) None [] = Inr rows"
    using audit_fits [OF demo_tenant(1) demo_audits(3) a demo_tenant(2,3) demo_audits(1)] by blast
  show ?thesis
    by (simp add: verify_def run_defs changes_def CONSUME_VERIFICATION_def consumable_def demo_signed_up_def demo_link_def demo_prov_def demo_cp_lib_def
        MARK_ACCOUNT_VERIFIED_def SELECT_ACCOUNT_BY_ID_def demo_account_def ensure_started_def INSERT_SAGA_def SELECT_SAGA_BY_ACCOUNT_def
        STEP_ORDER_def INSERT_SAGA_STEP_def is_step_def INSERT_TENANT_def UPDATE_SAGA_TENANT_def update_saga_def MARK_SAGA_STEP_def
        audit_standalone_def audit_rows_def rows SELECT_SAGA_def SELECT_SAGA_STEPS_def)
qed

lemma run_step_ok:
  assumes "find (\<lambda>r. st_step r = step) rows = Some \<lparr>st_saga = s, st_step = step, st_status = ''pending'', st_attempts = 0\<rparr>"
    and "execute_step lib step acct tn w = (Inr u, w1)" and "cw_fates w1 = []"
  shows "run_steps lib s acct tn rows (step # rest) w
    = run_steps lib s acct tn rows rest (w1\<lparr>cw_db := UPDATE_SAGA_PROGRESS s step (MARK_SAGA_STEP s step ''done'' 1 (cw_db w1))\<rparr>)"
proof -
  have "attempt_step lib step acct tn 0 [] w = (Inr (True, 1, []), w1)"
    using assms(2) by (simp add: attempt_step.simps saga_step_max_attempts_def)
  then show ?thesis using assms(1,3) by (simp add: run_defs)
qed

lemma progress_fields:
  "db_users (UPDATE_SAGA_PROGRESS s step db) = db_users db" "db_tenants (UPDATE_SAGA_PROGRESS s step db) = db_tenants db"
  "db_accounts (UPDATE_SAGA_PROGRESS s step db) = db_accounts db" "db_plan_config (UPDATE_SAGA_PROGRESS s step db) = db_plan_config db"
  "db_users (MARK_SAGA_STEP s step st n db) = db_users db" "db_tenants (MARK_SAGA_STEP s step st n db) = db_tenants db"
  "db_accounts (MARK_SAGA_STEP s step st n db) = db_accounts db" "db_plan_config (MARK_SAGA_STEP s step st n db) = db_plan_config db"
  by (simp_all add: UPDATE_SAGA_PROGRESS_def update_saga_def MARK_SAGA_STEP_def)

lemma demo_saga:
  assumes v: "verify demo_prov ''tok'' demo_signed_up = (Inr (7, 7), w)"
  shows "\<exists>w'. saga_run demo_prov 7 w = (Inr ''succeeded'', w')"
proof -
  have w: "cw_fates w = []" "cw_http w = []" "cw_now w = 5" "cw_redis w = Map.empty"
    "SELECT_SAGA 7 (cw_db w) = Some \<lparr>sg_id = 7, sg_account = 3, sg_tenant = Some 7, sg_state = ''running'', sg_step = None, sg_error = None\<rparr>"
    "SELECT_SAGA_STEPS 7 (cw_db w) = map (\<lambda>step. \<lparr>st_saga = 7, st_step = step, st_status = if step = ''tenant_row'' then ''done'' else ''pending'',
          st_attempts = if step = ''tenant_row'' then 1 else 0\<rparr>) STEP_ORDER"
    "db_accounts (cw_db w) = [demo_account\<lparr>ac_state := ''verified''\<rparr>]" "db_users (cw_db w) = []" "db_plan_config (cw_db w) = []"
    "ct_id ` set (db_tenants (cw_db w)) = {7}"
    using demo_verify v by auto
  let ?rows = "SELECT_SAGA_STEPS 7 (cw_db w)"
  have rows: "find (\<lambda>r. st_step r = step) ?rows = Some \<lparr>st_saga = 7, st_step = step, st_status = ''pending'', st_attempts = 0\<rparr>"
    if "step \<in> {''rls_context'', ''es_index'', ''entitlements'', ''admin_user'', ''trial_expiry''}" for step
    using that unfolding w(6) by (auto simp: STEP_ORDER_def)
  have first: "saga_run demo_prov 7 w = run_steps demo_prov 7 3 (Some 7) ?rows [''rls_context'', ''es_index'', ''entitlements'', ''admin_user'', ''trial_expiry''] w"
  proof -
    have "find (\<lambda>r. st_step r = ''tenant_row'') ?rows = Some \<lparr>st_saga = 7, st_step = ''tenant_row'', st_status = ''done'', st_attempts = 1\<rparr>"
      unfolding w(6) by (simp add: STEP_ORDER_def)
    then show ?thesis using w(1,5) by (simp add: saga_run_def STEP_ORDER_def andthen_def reads_def on_db_def take_fate_def)
  qed
  let ?done = "\<lambda>step x. x\<lparr>cw_db := UPDATE_SAGA_PROGRESS 7 step (MARK_SAGA_STEP 7 step ''done'' 1 (cw_db x))\<rparr>"
  have a: "execute_step demo_prov ''rls_context'' 3 (Some 7) w = (Inr (), w)" using w(1) by (simp add: execute_step_def step_rls_context_def run_defs)
  define x1 where "x1 = ?done ''rls_context'' w"
  have b: "execute_step demo_prov ''es_index'' 3 (Some 7) x1 = (Inr (), x1)"
  proof -
    have n: "service_name_ok ''cp''" by code_simp
    show ?thesis using w(1,2) n
      by (simp add: x1_def execute_step_def step_es_index_def run_defs put_provision_def demo_prov_def generate_service_token_def coerce_key_def rbind_def Let_def
        MIN_KEY_BYTES_def MAX_TOKEN_LIFETIME_SECONDS_def)
  qed
  define x2 where "x2 = ?done ''es_index'' x1"
  have t: "\<exists>r. find (\<lambda>r. ct_id r = 7) (db_tenants (cw_db w)) = Some r"
    using w(10) find_hit [of _ "db_tenants (cw_db w)" "\<lambda>r. ct_id r = 7"] by (metis (mono_tags, lifting) imageE insertI1)
  have "\<exists>x. execute_step demo_prov ''entitlements'' 3 (Some 7) x2 = (Inr (), x) \<and> cw_fates x = [] \<and> cw_db x = cw_db x2 \<and> cw_now x = 5"
    using w(1,3) t
    by (auto simp: x2_def x1_def execute_step_def warm_def compose_def run_defs SELECT_TENANT_BY_ID_def progress_fields demo_prov_def set_doc_def)
  then obtain y where y: "execute_step demo_prov ''entitlements'' 3 (Some 7) x2 = (Inr (), y)" "cw_fates y = []" "cw_db y = cw_db x2" "cw_now y = 5" by blast
  define x3 where "x3 = ?done ''entitlements'' y"
  have "\<exists>x. execute_step demo_prov ''admin_user'' 3 (Some 7) x3 = (Inr (), x) \<and> cw_fates x = [] \<and> db_plan_config (cw_db x) = [] \<and> cw_now x = 5"
    using w(7-10) y
    by (auto simp: x3_def x2_def x1_def execute_step_def step_admin_user_def run_defs SELECT_ACCOUNT_BY_ID_def progress_fields demo_account_def INSERT_ADMIN_USER_def)
  then obtain z where z: "execute_step demo_prov ''admin_user'' 3 (Some 7) x3 = (Inr (), z)" "cw_fates z = []" "db_plan_config (cw_db z) = []" "cw_now z = 5" by blast
  define x4 where "x4 = ?done ''admin_user'' z"
  have "\<exists>x. execute_step demo_prov ''trial_expiry'' 3 (Some 7) x4 = (Inr (), x) \<and> cw_fates x = []"
  proof -
    have act: "actor_ok SAGA_ACTOR" by (simp add: actor_ok_def SAGA_ACTOR_def)
    have "\<exists>rows'. Audit_Log.write_audit (\<lambda>_. []) (uuid_str 7) SAGA_ACTOR ''tenant.provisioned'' (tenant_entity 7) None
        (Some [(''status'', JStr ''active''), (''trial_expires_at'', JStr ''t'')]) None rows = Inr rows'" for rows
      by (rule audit_fits [OF demo_tenant(1) demo_audits(4) act demo_tenant(2,3) demo_audits(2)])
    then obtain r where "Audit_Log.write_audit (\<lambda>_. []) (uuid_str 7) SAGA_ACTOR ''tenant.provisioned'' (tenant_entity 7) None
        (Some [(''status'', JStr ''active''), (''trial_expires_at'', JStr ''t'')]) None (db_audit (SET_TENANT_ACTIVE 7 1209605 5 (cw_db x4))) = Inr r" by blast
    then show ?thesis using z
      by (simp add: x4_def execute_step_def step_trial_expiry_def run_defs trial_duration_days_def SELECT_PLAN_CONFIG_def progress_fields DEFAULT_TRIAL_DURATION_DAYS_def
        plus_days_def MAX_DATETIME_def audit_write_provisioned_def audit_rows_def demo_prov_def entitlements_invalidate_def)
  qed
  then obtain q where q: "execute_step demo_prov ''trial_expiry'' 3 (Some 7) x4 = (Inr (), q)" "cw_fates q = []" by blast
  have f: "cw_fates x1 = []" by (simp add: x1_def w(1))
  have "saga_run demo_prov 7 w = run_steps demo_prov 7 3 (Some 7) ?rows [] (?done ''trial_expiry'' q)"
    unfolding first
    by (simp only: run_step_ok [OF rows a w(1)] run_step_ok [OF rows b f] run_step_ok [OF rows y(1,2)] run_step_ok [OF rows z(1,2)] run_step_ok [OF rows q]
      x1_def [symmetric] x2_def [symmetric] x3_def [symmetric] x4_def [symmetric] insert_iff simp_thms)
  then show ?thesis using q(2) by (simp add: run_defs)
qed


subsection \<open>Where provisioning gets stuck\<close>

text \<open>The link is consumed before the saga exists, in a statement of its own. If a later command of the same request fails, the account is verified,
  the link is used up, a new link is not sent to a verified account, and no saga exists that a restart could resume.\<close>

lemma verify_dead_end:
  assumes "cw_fates w = [Replied, Replied, Refused]" and v: "db_verifications (cw_db w) = [v]" "consumable (pl_sha256 (pv_cp lib) token) (cw_now w) v"
    "ve_account v = Some (ac_id a)" "ve_purpose v = ''signup_verification''" and acc: "db_accounts (cw_db w) = [a]"
  shows "\<exists>w1. verify lib token w = (Inl INTERNAL_ERROR, w1) \<and> db_sagas (cw_db w1) = db_sagas (cw_db w)
     \<and> fst (verify lib token w1) = Inl VERIFICATION_ALREADY_USED
     \<and> cw_mail (snd (resend_verification lib token2 None (ac_email a) w1)) = cw_mail w1"
  using assms
  by (simp add: verify_def run_defs changes_def CONSUME_VERIFICATION_def consumable_def MARK_ACCOUNT_VERIFIED_def SELECT_VERIFICATION_BY_HASH_def
      resend_verification_def bump_signup_counter_def signup_ip_threshold_def SELECT_PLATFORM_CONFIG_VALUE_def SELECT_ACCOUNT_BY_EMAIL_def config_int_def
      split: option.split)

text \<open>The tenant row is inserted before the saga refers to it. If the second statement fails, every further start for that account raises.\<close>

lemma start_retry_fails:
  assumes "cw_fates w = []" and "SELECT_SAGA_BY_ACCOUNT acct (cw_db w) = Some s" "sg_tenant s = None" "acct \<in> ct_account ` set (db_tenants (cw_db w))"
    and "\<forall>step \<in> set STEP_ORDER. list_ex (is_step (sg_id s) step) (db_steps (cw_db w))"
  shows "fst (ensure_started lib acct org w) = Inl INTERNAL_ERROR"
proof -
  have "acct \<in> sg_account ` set (db_sagas (cw_db w))" using find_in [OF assms(2) [unfolded SELECT_SAGA_BY_ACCOUNT_def]] by auto
  moreover have "insert_steps (sg_id s) steps w = (Inr (), w)" if "set steps \<subseteq> set STEP_ORDER" for steps
    using that assms(1,5) by (induction steps) (auto simp: run_defs INSERT_SAGA_STEP_def)
  ultimately show ?thesis using assms(1-4)
    by (simp add: ensure_started_def andthen_def reads_def on_db_def take_fate_def INSERT_SAGA_def INSERT_TENANT_def)
qed

text \<open>The failure of a saga is written in two statements. If the second fails, the saga is failed and is not resumed, and the tenant keeps its status.\<close>

lemma failure_not_surfaced:
  assumes "cw_fates w = [Replied, Refused]" and "saga_at s acct t ''running'' (cw_db w)"
  shows "\<exists>w1. fail_terminally s (Some t) step err w = (Inl INTERNAL_ERROR, w1) \<and> db_tenants (cw_db w1) = db_tenants (cw_db w)
    \<and> cw_db (snd (saga_run lib s w1)) = cw_db w1"
proof -
  let ?db = "COMPLETE_SAGA s ''failed'' (Some (take 2000 (step @ '': '' @ err))) (cw_db w)"
  have "saga_at s acct t ''failed'' ?db" using assms(2) unfolding COMPLETE_SAGA_def by (rule saga_at_update) simp_all
  then have at: "saga_at s acct t ''failed'' (cw_db (w\<lparr>cw_fates := [], cw_db := ?db\<rparr>))" by simp
  have "cw_db (snd (saga_run lib s (w\<lparr>cw_fates := [], cw_db := ?db\<rparr>))) = ?db"
    using saga_run_ended [OF at _ prod.collapse [symmetric]] by simp
  moreover have "fail_terminally s (Some t) step err w = (Inl INTERNAL_ERROR, w\<lparr>cw_fates := [], cw_db := ?db\<rparr>)"
    using assms(1) by (simp add: fail_terminally_def run_defs)
  ultimately show ?thesis by (simp add: COMPLETE_SAGA_def update_saga_def)
qed

lemma writes_calm: "cw_fates w = [] \<Longrightarrow> andthen (writes q) f w = f () (w\<lparr>cw_db := q (cw_now w) (cw_db w)\<rparr>)"
  by (simp add: andthen_def writes_def on_db_def take_fate_def)

text \<open>The statements of a failure do not look at the state they replace: of two runs of the same saga, the one that fails undoes the success of
  the other.\<close>

lemma failure_overrides_success:
  assumes "cw_fates w = []" and "saga_at s acct t ''succeeded'' (cw_db w)" and "r \<in> set (db_tenants (cw_db w))" "ct_id r = t" "ct_status r = ''active''"
  shows "saga_at s acct t ''failed'' (cw_db (snd (fail_terminally s (Some t) step err w)))
    \<and> r\<lparr>ct_status := ''provisioning_failed''\<rparr> \<in> set (db_tenants (cw_db (snd (fail_terminally s (Some t) step err w))))"
proof -
  let ?db = "SET_TENANT_PROVISIONING_FAILED t (COMPLETE_SAGA s ''failed'' (Some (take 2000 (step @ '': '' @ err))) (cw_db w))"
  let ?A = "\<lambda>db. saga_at s acct t ''failed'' db \<and> r\<lparr>ct_status := ''provisioning_failed''\<rparr> \<in> set (db_tenants db)"
  let ?rest = "andthen (tenant_status_invalidate t) (\<lambda>_.
         best_effort (audit_standalone t SAGA_ACTOR ''tenant.provisioning_failed'' (tenant_entity t) None
           (Some [(''status'', JStr ''provisioning_failed''), (''failed_step'', JStr step)]) (Some ''saga_terminal_failure'')))"
  have k: "keeps ?A ?rest" unfolding tenant_status_invalidate_def by (intro keeps_rules) (simp add: audit_frames)
  have "saga_at s acct t ''failed'' ?db"
    unfolding SET_TENANT_PROVISIONING_FAILED_def saga_at_frames COMPLETE_SAGA_def by (rule saga_at_update [OF assms(2)]) simp_all
  moreover have "r\<lparr>ct_status := ''provisioning_failed''\<rparr> \<in> set (db_tenants ?db)"
    using assms(3,4) by (force simp: SET_TENANT_PROVISIONING_FAILED_def update_tenant_def COMPLETE_SAGA_def update_saga_def)
  ultimately have "?A (cw_db (w\<lparr>cw_db := ?db\<rparr>))" by simp
  from keepsD [OF k this] show ?thesis
    using assms(1) by (simp add: fail_terminally_def writes_calm)
qed

text \<open>Every failure of the insert is reported as a registered domain: an organisation name that is blank passes the length check of the request,
  is stripped, and fails the check of the table.\<close>

lemma blank_name_reported_as_taken:
  assumes "cw_fates w = []" and "py_strip (sr_org_name body) = []" and "SELECT_ACCOUNT_BY_DOMAIN (email_domain (py_strip (sr_email body))) (cw_db w) = None"
    and "email_domain (py_strip (sr_email body)) \<notin> set (pv_disposable lib)" and "fst (check_new_password (pv_cp lib) (sr_password body) w) = Inr ()"
    and "SELECT_PLATFORM_CONFIG_VALUE ''signup_per_ip_hourly_threshold'' (cw_db w) = None"
  shows "fst (signup lib token None body w) = Inl DOMAIN_ALREADY_REGISTERED"
proof -
  have "check_new_password (pv_cp lib) (sr_password body) w = (Inr (), w)"
    using assms(5) validate_frame [of "pv_cp lib" "sr_password body" w "()"] by (cases "check_new_password (pv_cp lib) (sr_password body) w") auto
  then show ?thesis using assms
    by (simp add: signup_def Let_def andthen_def bump_signup_counter_def ret_def signup_ip_threshold_def reads_def on_db_def take_fate_def challenge_def
      raise_def caught_def INSERT_ACCOUNT_def)
qed

end
