(* ===== verification/Operator_Api.thy ===== *)
theory Operator_Api
  imports Provisioning
begin

section \<open>The internal API of the control plane\<close>

text \<open>
  \<^verbatim>\<open>controlplane/routes/internal.py\<close>, its authentication \<^verbatim>\<open>security/service_auth.py\<close> and the public
  \<^verbatim>\<open>routes/entitlements_public.py\<close>. A change and its audit record are one transaction, so one database step.
\<close>

record service_caller =
  sc_service :: string
  sc_operator :: "string option"

text \<open>\<open>authorization\<close> is the value of the Authorization header, empty if there is none. A key that is too short raises a value error, which is
  not among the errors the dependency catches.\<close>

definition require_service_auth ::
  "(string \<Rightarrow> string \<Rightarrow> string) \<Rightarrow> (string \<Rightarrow> string option) \<Rightarrow> bool \<Rightarrow> string \<Rightarrow> string option \<Rightarrow> service_caller cp" where
  "require_service_auth hmac keys operator_required authorization operator =
     (if \<not> starts_with authorization ''Bearer '' then raise AUTH_REQUIRED
      else andthen clock (\<lambda>now.
        case verify_service_token hmac keys (int now) (py_strip (drop 7 authorization)) of
          Inl KeyTooShort \<Rightarrow> raise INTERNAL_ERROR
        | Inl _ \<Rightarrow> raise AUTH_REQUIRED
        | Inr service \<Rightarrow>
            if operator_required then
              (let operator_id = py_strip (case operator of None \<Rightarrow> [] | Some x \<Rightarrow> x) in
               if operator_id = [] then raise (VALIDATION_ERROR ''X-Operator-Id'')
               else ret \<lparr>sc_service = service, sc_operator = Some operator_id\<rparr>)
            else ret \<lparr>sc_service = service, sc_operator = None\<rparr>))"

definition internal_entitlements :: "prov_lib \<Rightarrow> string \<Rightarrow> obj cp" where
  "internal_entitlements lib tenant_id =
     (case uuid_of tenant_id of
        None \<Rightarrow> raise NOT_FOUND
      | Some t \<Rightarrow> andthen (entitlements_get lib t) (\<lambda>payload. case payload of None \<Rightarrow> raise NOT_FOUND | Some p \<Rightarrow> ret p))"

definition tenant_entitlements :: "prov_lib \<Rightarrow> cp_principal \<Rightarrow> obj cp" where
  "tenant_entitlements lib who =
     andthen (entitlements_get lib (sx_tenant (pr_session who))) (\<lambda>payload. case payload of None \<Rightarrow> raise NOT_FOUND | Some p \<Rightarrow> ret p)"

definition UPDATE_TENANT_PLAN :: "nat \<Rightarrow> string \<Rightarrow> cp_db \<Rightarrow> cp_db" where
  "UPDATE_TENANT_PLAN t plan =
     update_tenant t (\<lambda>r. r\<lparr>ct_plan := plan, ct_trial_expires := (if plan = ''trial'' then ct_trial_expires r else None),
       ct_status := (if plan \<noteq> ''trial'' \<and> ct_status r = ''frozen'' then ''active'' else ct_status r)\<rparr>)"

definition UPDATE_TENANT_ABUSE_FREEZE :: "nat \<Rightarrow> bool \<Rightarrow> string \<Rightarrow> cp_db \<Rightarrow> cp_db" where
  "UPDATE_TENANT_ABUSE_FREEZE t frozen reason = update_tenant t (\<lambda>r. r\<lparr>ct_abuse := frozen, ct_abuse_reason := Some reason\<rparr>)"

definition operator_entity :: "service_caller \<Rightarrow> audit_entity" where
  "operator_entity caller =
     \<lparr>ae_type = ''user'', ae_id = (case Option.bind (sc_operator caller) nonempty of None \<Rightarrow> ''unknown'' | Some x \<Rightarrow> x)\<rparr>"

definition plan_values :: "clock_lib \<Rightarrow> cp_tenant \<Rightarrow> obj" where
  "plan_values lib r =
     [(''plan'', JStr (ct_plan r)), (''status'', JStr (ct_status r)),
      (''trial_expires_at'', case ct_trial_expires r of None \<Rightarrow> JNull | Some e \<Rightarrow> JStr (rfc3339 lib e))]"

definition change_plan_tx :: "clock_lib \<Rightarrow> service_caller \<Rightarrow> nat \<Rightarrow> string \<Rightarrow> cp_db \<Rightarrow> cp_error + unit \<times> cp_db" where
  "change_plan_tx lib caller t plan db =
     (case SELECT_TENANT_BY_ID t db of
        None \<Rightarrow> Inl NOT_FOUND
      | Some before \<Rightarrow>
          let db' = UPDATE_TENANT_PLAN t plan db in
          (case SELECT_TENANT_BY_ID t db' of
             None \<Rightarrow> Inl INTERNAL_ERROR
           | Some after \<Rightarrow>
               audit_rows t (operator_entity caller) ''tenant.plan_changed'' (tenant_entity t) (Some (plan_values lib before)) (Some (plan_values lib after))
                 (Some ''operator_plan_change'') db'))"

definition change_plan :: "prov_lib \<Rightarrow> service_caller \<Rightarrow> string \<Rightarrow> string \<Rightarrow> unit cp" where
  "change_plan lib caller tenant_id plan =
     (case uuid_of tenant_id of
        None \<Rightarrow> raise NOT_FOUND
      | Some t \<Rightarrow>
          andthen (on_db (\<lambda>_. change_plan_tx (pl_clock (pv_cp lib)) caller t plan)) (\<lambda>_.
          entitlements_invalidate t))"

definition abuse_freeze_tx :: "service_caller \<Rightarrow> nat \<Rightarrow> bool \<Rightarrow> string \<Rightarrow> cp_db \<Rightarrow> cp_error + unit \<times> cp_db" where
  "abuse_freeze_tx caller t frozen reason db =
     (case SELECT_TENANT_BY_ID t db of
        None \<Rightarrow> Inl NOT_FOUND
      | Some before \<Rightarrow>
          audit_rows t (operator_entity caller) ''tenant.abuse_freeze_changed'' (tenant_entity t)
            (Some [(''abuse_frozen'', JBool (ct_abuse before)), (''reason'', case ct_abuse_reason before of None \<Rightarrow> JNull | Some r \<Rightarrow> JStr r)])
            (Some [(''abuse_frozen'', JBool frozen), (''reason'', JStr reason)])
            (Some ''operator_abuse_freeze'') (UPDATE_TENANT_ABUSE_FREEZE t frozen reason db))"

definition abuse_freeze :: "service_caller \<Rightarrow> string \<Rightarrow> bool \<Rightarrow> string \<Rightarrow> unit cp" where
  "abuse_freeze caller tenant_id frozen reason =
     (case uuid_of tenant_id of
        None \<Rightarrow> raise NOT_FOUND
      | Some t \<Rightarrow>
          andthen (on_db (\<lambda>_. abuse_freeze_tx caller t frozen reason)) (\<lambda>_.
          entitlements_invalidate t))"

subsection \<open>Operator changes are audited\<close>

definition operator_audit :: "nat \<Rightarrow> string \<Rightarrow> audit_record \<Rightarrow> bool" where
  "operator_audit t operator_id a \<longleftrightarrow> au_tenant a = uuid_str t \<and> ae_type (au_actor a) = ''user'' \<and> ae_id (au_actor a) = operator_id
     \<and> ae_id (au_target a) = uuid_str t \<and> au_before a \<noteq> None \<and> au_after a \<noteq> None"

lemma uuid_of_is: "uuid_of s = Some n \<Longrightarrow> is_uuid n"
  unfolding uuid_of_def is_uuid_def Let_def by (simp split: if_splits option.splits)

lemma serialized: "serialize_audit_value fr v = Inr x \<Longrightarrow> v \<noteq> None \<Longrightarrow> x \<noteq> None"
  by (auto simp: serialize_audit_value_def Let_def split: if_splits option.splits)

lemma audit_rows_appends:
  assumes t: "is_uuid t" and run: "audit_rows t actor action target before after reason db = Inr (x, db')"
  shows "\<exists>a. db' = db\<lparr>db_audit := db_audit db @ [a]\<rparr> \<and> au_tenant a = uuid_str t \<and> au_actor a = actor \<and> au_target a = target
    \<and> (before \<noteq> None \<longrightarrow> au_before a \<noteq> None) \<and> (after \<noteq> None \<longrightarrow> au_after a \<noteq> None)"
proof -
  obtain rows where w: "Audit_Log.write_audit (\<lambda>_. []) (uuid_str t) actor action target before after reason (db_audit db) = Inr rows" "db' = db\<lparr>db_audit := rows\<rparr>"
    using run by (auto simp: audit_rows_def split: sum.splits)
  obtain y z where s: "serialize_audit_value (\<lambda>_. []) before = Inr y" "serialize_audit_value (\<lambda>_. []) after = Inr z"
    and r: "rows = db_audit db @ [\<lparr>au_tenant = uuid_str t, au_actor = actor, au_action = action, au_target = target, au_before = y, au_after = z, au_reason = reason\<rparr>]"
    using w(1) by (auto simp: Audit_Log.write_audit_def uuid_back [OF t] rbind_def split: sum.splits if_splits)
  show ?thesis unfolding w(2) r
    by (rule exI [of _ "\<lparr>au_tenant = uuid_str t, au_actor = actor, au_action = action, au_target = target, au_before = y, au_after = z, au_reason = reason\<rparr>"])
      (use serialized [OF s(1)] serialized [OF s(2)] in simp)
qed

lemma on_db_either: "on_db op w = (res, w') \<Longrightarrow> cw_db w' = cw_db w \<or> (\<exists>x. op (cw_now w) (cw_db w) = Inr (x, cw_db w'))"
  by (auto simp: on_db_def dest!: take_fate_same split: prod.splits sum.splits if_splits)

lemma keeps_invalidate: "keeps A (entitlements_invalidate t)"
  unfolding entitlements_invalidate_def by (intro keeps_rules)

lemma tx_then_invalidate:
  assumes "snd (andthen (on_db (\<lambda>_. tx)) (\<lambda>_. entitlements_invalidate t) w) = w'"
  shows "cw_db w' = cw_db w \<or> (\<exists>x. tx (cw_db w) = Inr (x, cw_db w'))"
proof -
  obtain res w1 where r: "on_db (\<lambda>_. tx) w = (res, w1)" by fastforce
  have "cw_db w' = cw_db w1"
  proof (cases res)
    case (Inl e)
    then show ?thesis using assms r by (simp add: andthen_def)
  next
    case (Inr x)
    then show ?thesis using assms r keepsD [OF keeps_invalidate [of "\<lambda>db. db = cw_db w1" t], of w1] by (simp add: andthen_def)
  qed
  then show ?thesis using on_db_either [OF r] by simp
qed

text \<open>C16: No operator change without a record. Whatever becomes of the commands of a plan change or an abuse freeze that a service caller with an operator identity makes,
  either the tables are untouched, or the tenants changed only in the row of that tenant and exactly one audit record was added, of that
  tenant, with the operator as the actor and the values before and after; the guard lets no such caller through without an identity.\<close>

theorem operator_changes_audited:
  assumes "fst (require_service_auth hmac keys True authorization operator w0) = Inr caller" and "uuid_of tenant_id = Some t"
    and "w' = snd (change_plan lib caller tenant_id plan w) \<or> w' = snd (abuse_freeze caller tenant_id frozen reason w)"
  shows "\<exists>operator_id. sc_operator caller = Some operator_id \<and> operator_id \<noteq> [] \<and>
    (cw_db w' = cw_db w \<or> (\<exists>a f. operator_audit t operator_id a \<and> cw_db w' = (update_tenant t f (cw_db w))\<lparr>db_audit := db_audit (cw_db w) @ [a]\<rparr>))"
proof -
  obtain i where i: "sc_operator caller = Some i" "i \<noteq> []"
    using assms(1) by (auto simp: require_service_auth_def andthen_def clock_def raise_def ret_def Let_def split: if_splits sum.splits token_error.splits)
  have tx: "\<exists>a f. operator_audit t i a \<and> db' = (update_tenant t f db)\<lparr>db_audit := db_audit db @ [a]\<rparr>"
    if r: "audit_rows t (operator_entity caller) action (tenant_entity t) (Some b) (Some e) reason (update_tenant t f db) = Inr (x, db')" for action b e reason f db x db'
  proof -
    obtain a where a: "db' = (update_tenant t f db)\<lparr>db_audit := db_audit (update_tenant t f db) @ [a]\<rparr>" "au_tenant a = uuid_str t"
        "au_actor a = operator_entity caller" "au_target a = tenant_entity t" "au_before a \<noteq> None" "au_after a \<noteq> None"
      using audit_rows_appends [OF uuid_of_is [OF assms(2)] r] by auto
    have "operator_audit t i a" using a i by (simp add: operator_audit_def operator_entity_def tenant_entity_def nonempty_def)
    then show ?thesis using a(1) by (auto simp: update_tenant_def)
  qed
  have "cw_db w' = cw_db w \<or> (\<exists>a f. operator_audit t i a \<and> cw_db w' = (update_tenant t f (cw_db w))\<lparr>db_audit := db_audit (cw_db w) @ [a]\<rparr>)"
    using assms(3)
  proof
    assume "w' = snd (change_plan lib caller tenant_id plan w)"
    then have "cw_db w' = cw_db w \<or> (\<exists>x. change_plan_tx (pl_clock (pv_cp lib)) caller t plan (cw_db w) = Inr (x, cw_db w'))"
      using tx_then_invalidate [of "change_plan_tx (pl_clock (pv_cp lib)) caller t plan" t w] assms(2) by (simp add: change_plan_def)
    then show ?thesis using tx unfolding change_plan_tx_def UPDATE_TENANT_PLAN_def Let_def by (auto split: option.splits)
  next
    assume "w' = snd (abuse_freeze caller tenant_id frozen reason w)"
    then have "cw_db w' = cw_db w \<or> (\<exists>x. abuse_freeze_tx caller t frozen reason (cw_db w) = Inr (x, cw_db w'))"
      using tx_then_invalidate [of "abuse_freeze_tx caller t frozen reason" t w] assms(2) by (simp add: abuse_freeze_def)
    then show ?thesis using tx unfolding abuse_freeze_tx_def UPDATE_TENANT_ABUSE_FREEZE_def by (auto split: option.splits)
  qed
  then show ?thesis using i by blast
qed

subsection \<open>A freeze takes effect on both planes\<close>

text \<open>The data plane reads the same Redis server and the same table of tenants (\<open>Access.tenant_status\<close>).\<close>

definition status_view :: "cp_world \<Rightarrow> status_server" where
  "status_view w = \<lparr>ss_now = cw_now w, ss_cache = (\<lambda>k. case cw_redis w k of Some (RHash h, e) \<Rightarrow> Some (h, e) | _ \<Rightarrow> None), ss_touched = []\<rparr>"

definition tenants_view :: "cp_db \<Rightarrow> string \<Rightarrow> tenant_row option" where
  "tenants_view db s =
     Option.bind (uuid_of s) (\<lambda>t. map_option (\<lambda>r. \<lparr>tr_status = ct_status r, tr_abuse_frozen = ct_abuse r\<rparr>) (SELECT_TENANT_BY_ID t db))"

lemma select_updated:
  assumes "\<And>r. ct_id (f r) = ct_id r"
  shows "SELECT_TENANT_BY_ID t (update_tenant t f db) = map_option f (SELECT_TENANT_BY_ID t db)"
proof -
  have "SELECT_TENANT_BY_ID t (update_tenant t f db) = map_option (\<lambda>r. if ct_id r = t then f r else r) (SELECT_TENANT_BY_ID t db)"
    unfolding SELECT_TENANT_BY_ID_def update_tenant_def using find_map_same [of "\<lambda>r. ct_id r = t" "\<lambda>r. if ct_id r = t then f r else r"] assms by simp
  then show ?thesis by (cases "SELECT_TENANT_BY_ID t db") (auto simp: SELECT_TENANT_BY_ID_def dest: find_in)
qed

lemma invalidated:
  assumes "entitlements_invalidate t w = (Inr (), w')"
  shows "cw_redis w' (tenantstatus t) = None" "cw_redis w' (ent t) = None" "cw_db w' = cw_db w"
  using assms by (auto simp: entitlements_invalidate_def delete_def on_redis_def elim!: andthen_InrE dest!: take_fate_same split: prod.splits reply.splits)

lemma freeze_done:
  assumes "abuse_freeze caller tenant_id frozen reason w = (Inr (), w')" and "uuid_of tenant_id = Some t"
  shows "cw_redis w' (tenantstatus t) = None \<and> (\<exists>r. SELECT_TENANT_BY_ID t (cw_db w') = Some r \<and> ct_abuse r = frozen)"
proof -
  obtain w1 where w1: "on_db (\<lambda>_. abuse_freeze_tx caller t frozen reason) w = (Inr (), w1)" "entitlements_invalidate t w1 = (Inr (), w')"
    using assms by (auto simp: abuse_freeze_def elim!: andthen_InrE)
  have tx: "abuse_freeze_tx caller t frozen reason (cw_db w) = Inr ((), cw_db w1)"
    using w1(1) by (auto simp: on_db_def dest!: take_fate_same split: prod.splits sum.splits if_splits)
  then obtain r where r: "SELECT_TENANT_BY_ID t (cw_db w) = Some r" by (auto simp: abuse_freeze_tx_def split: option.splits)
  obtain rows where "cw_db w1 = (UPDATE_TENANT_ABUSE_FREEZE t frozen reason (cw_db w))\<lparr>db_audit := rows\<rparr>"
    using tx r audit_rows_appends [OF uuid_of_is [OF assms(2)]] unfolding abuse_freeze_tx_def by simp metis
  then have "SELECT_TENANT_BY_ID t (cw_db w1) = Some (r\<lparr>ct_abuse := frozen, ct_abuse_reason := Some reason\<rparr>)"
    using select_updated [of "\<lambda>r. r\<lparr>ct_abuse := frozen, ct_abuse_reason := Some reason\<rparr>" t "cw_db w"] r
    by (simp add: UPDATE_TENANT_ABUSE_FREEZE_def SELECT_TENANT_BY_ID_def [of t "_\<lparr>db_audit := _\<rparr>"]) (simp add: SELECT_TENANT_BY_ID_def)
  then show ?thesis using invalidated [OF w1(2)] by simp
qed


definition demo_caller :: service_caller where
  "demo_caller = \<lparr>sc_service = ''svc'', sc_operator = Some ''op''\<rparr>"

lemma demo_tenant_4: "is_uuid 4" "uuid_of (uuid_str 4) = Some 4" "target_ok (tenant_entity 4)"
proof -
  show u: "is_uuid 4" by (simp add: is_uuid_def)
  show "uuid_of (uuid_str 4) = Some 4" by (rule uuid_back [OF u])
  show "target_ok (tenant_entity 4)" by (simp add: target_ok_def tenant_entity_def uuid_str_def Let_def)
qed

lemma demo_freeze: "\<exists>w'. abuse_freeze demo_caller (uuid_str 4) True ''r'' demo_world = (Inr (), w')"
proof -
  have "\<not> isl (serialize_audit_value (\<lambda>_. []) (Some [(''abuse_frozen'', JBool False), (''reason'', JNull)]))"
    "\<not> isl (serialize_audit_value (\<lambda>_. []) (Some [(''abuse_frozen'', JBool True), (''reason'', JStr ''r'')]))" by code_simp+
  then have s: "\<exists>x. serialize_audit_value (\<lambda>_. []) (Some [(''abuse_frozen'', JBool False), (''reason'', JNull)]) = Inr x"
    "\<exists>x. serialize_audit_value (\<lambda>_. []) (Some [(''abuse_frozen'', JBool True), (''reason'', JStr ''r'')]) = Inr x" by (metis sum.collapse(2))+
  have p: "py_strip ''tenant.abuse_freeze_changed'' \<noteq> []" by code_simp
  have a: "actor_ok (operator_entity demo_caller)" by (simp add: actor_ok_def operator_entity_def demo_caller_def nonempty_def)
  obtain rows where "Audit_Log.write_audit (\<lambda>_. []) (uuid_str 4) (operator_entity demo_caller) ''tenant.abuse_freeze_changed'' (tenant_entity 4)
      (Some [(''abuse_frozen'', JBool False), (''reason'', JNull)]) (Some [(''abuse_frozen'', JBool True), (''reason'', JStr ''r'')]) (Some ''operator_abuse_freeze'') [] = Inr rows"
    using audit_fits [OF demo_tenant_4(1) p a demo_tenant_4(3) s] by blast
  then show ?thesis
    by (simp add: abuse_freeze_def demo_tenant_4(2) run_defs demo_world_def demo_cp_db_def abuse_freeze_tx_def SELECT_TENANT_BY_ID_def demo_cp_tenant_def
      audit_rows_def UPDATE_TENANT_ABUSE_FREEZE_def update_tenant_def entitlements_invalidate_def)
qed


theorem operator_changes_audited_witness:
  "\<exists>w'. w' = snd (abuse_freeze demo_caller (uuid_str 4) True ''r'' demo_world)
     \<and> (cw_db w' = cw_db demo_world \<or> (\<exists>a f. operator_audit 4 ''op'' a \<and> cw_db w' = (update_tenant 4 f (cw_db demo_world))\<lparr>db_audit := db_audit (cw_db demo_world) @ [a]\<rparr>))"
proof -
  have t: "verify_service_token (\<lambda>_ _. ''m'') (\<lambda>_. Some (replicate 32 CHR ''k'')) 5 ''v1.svc.10.m'' = Inr ''svc''" by code_simp
  have s: "py_strip (drop 7 ''Bearer v1.svc.10.m'') = ''v1.svc.10.m''" "py_strip ''op'' = ''op''" by code_simp+
  have auth: "fst (require_service_auth (\<lambda>_ _. ''m'') (\<lambda>_. Some (replicate 32 CHR ''k'')) True ''Bearer v1.svc.10.m'' (Some ''op'') demo_world) = Inr demo_caller"
    using t s by (simp add: require_service_auth_def starts_with_def andthen_def clock_def ret_def demo_world_def demo_caller_def)
  from operator_changes_audited [OF auth demo_tenant_4(2) disjI2 [OF refl], of True "''r''" demo_world] show ?thesis
    by (simp add: demo_caller_def)
qed

end
