(* ===== verification/Jobs.thy ===== *)
theory Jobs
  imports Operator_Api
begin

section \<open>Background jobs\<close>

text \<open>
  \<^verbatim>\<open>dataplane/jobs/tasks.py\<close>. The jobs work on the tenants and the audit log of the control
  plane's database, on the tables of the tenants' data, on the search indices and on Redis. A table of tenant data is the list of the
  tenants its rows belong to; only the tables that a job reads by column have rows of their own. A transaction is one step. Times are
  whole seconds from the first day of the calendar, as Python counts days. The answers of \<^verbatim>\<open>SCAN\<close> are an argument, one list of keys
  per call.
\<close>

record job_asset =
  ja_tenant :: nat
  ja_id :: nat
  ja_billable :: bool
  ja_last_seen :: nat
  ja_agent_status :: "string option"

record job_device =
  jd_tenant :: nat
  jd_asset :: "nat option"
  jd_status :: string
  jd_heartbeat :: "nat option"

record job_world =
  jb_cp :: cp_world
  jb_tables :: "string \<Rightarrow> nat list option"
  jb_assets :: "job_asset list"
  jb_devices :: "job_device list"
  jb_dead_letters :: "(nat \<times> nat) list"
  jb_indices :: "string list"
  jb_registry :: "(string \<times> string \<times> string) list"
  jb_config :: "(string \<times> json) list"

type_synonym 'a job = "job_world \<Rightarrow> (cp_error + 'a) \<times> job_world"

definition jret :: "'a \<Rightarrow> 'a job" where
  "jret x w = (Inr x, w)"

definition jraise :: "'a job" where
  "jraise w = (Inl INTERNAL_ERROR, w)"

definition jthen :: "'a job \<Rightarrow> ('a \<Rightarrow> 'b job) \<Rightarrow> 'b job" where
  "jthen m f w = (case m w of (Inl e, w') \<Rightarrow> (Inl e, w') | (Inr x, w') \<Rightarrow> f x w')"

definition on_cp :: "'a cp \<Rightarrow> 'a job" where
  "on_cp m w = (case m (jb_cp w) of (res, c) \<Rightarrow> (res, w\<lparr>jb_cp := c\<rparr>))"

text \<open>One transaction, or one call of the search engine.\<close>

definition jstep :: "(job_world \<Rightarrow> cp_error + 'a \<times> job_world) \<Rightarrow> 'a job" where
  "jstep op w =
     (case take_fate (jb_cp w) of (f, c) \<Rightarrow>
        let w1 = w\<lparr>jb_cp := c\<rparr> in
        if f = Refused then (Inl INTERNAL_ERROR, w1)
        else (case op w1 of
                Inl e \<Rightarrow> (Inl e, w1)
              | Inr (x, w2) \<Rightarrow> (if f = Lost then Inl INTERNAL_ERROR else Inr x, w2)))"

fun jeach :: "('a \<Rightarrow> unit job) \<Rightarrow> 'a list \<Rightarrow> unit job" where
  "jeach f [] = jret ()"
| "jeach f (x # xs) = jthen (f x) (\<lambda>_. jeach f xs)"

definition job_now :: "job_world \<Rightarrow> nat" where
  "job_now w = cw_now (jb_cp w)"

definition job_tenants :: "job_world \<Rightarrow> cp_tenant list" where
  "job_tenants w = db_tenants (cw_db (jb_cp w))"

definition with_db :: "(cp_db \<Rightarrow> cp_db) \<Rightarrow> job_world \<Rightarrow> job_world" where
  "with_db f w = w\<lparr>jb_cp := (jb_cp w)\<lparr>cw_db := f (cw_db (jb_cp w))\<rparr>\<rparr>"

definition JOB_ACTOR :: audit_entity where
  "JOB_ACTOR = \<lparr>ae_type = ''system'', ae_id = ''jobs-scheduler''\<rparr>"

definition job_audit :: "nat \<Rightarrow> string \<Rightarrow> audit_entity \<Rightarrow> obj option \<Rightarrow> obj option \<Rightarrow> string \<Rightarrow> job_world \<Rightarrow> cp_error + unit \<times> job_world" where
  "job_audit t action target before after reason w =
     (case audit_rows t JOB_ACTOR action target before after (Some reason) (cw_db (jb_cp w)) of
        Inl e \<Rightarrow> Inl e
      | Inr (_, db) \<Rightarrow> Inr ((), with_db (\<lambda>_. db) w))"

text \<open>\<^verbatim>\<open>int(...)\<close> of a configured value; an infinite float raises an error that is not caught.\<close>

definition int_config :: "string \<Rightarrow> int \<Rightarrow> int job" where
  "int_config key fallback w =
     (case map_of (jb_config w) key of
        None \<Rightarrow> (Inr fallback, w)
      | Some v \<Rightarrow>
          if v = JFloat PosInf \<or> v = JFloat NegInf then (Inl INTERNAL_ERROR, w)
          else (Inr (case py_int v of None \<Rightarrow> fallback | Some n \<Rightarrow> n), w))"

text \<open>\<^verbatim>\<open>t < now - make_interval(days => n)\<close>.\<close>

definition older_than_days :: "nat \<Rightarrow> int \<Rightarrow> nat \<Rightarrow> bool" where
  "older_than_days now n t \<longleftrightarrow> int t < int now - 86400 * n"

definition tenant_rows :: "cp_tenant list job" where
  "tenant_rows = on_cp (reads (\<lambda>db. filter (\<lambda>r. ct_status r \<in> {''active'', ''frozen''}) (db_tenants db)))"

subsection \<open>Retention\<close>

definition EVENTS_INDEX_PREFIX :: string where "EVENTS_INDEX_PREFIX = ''events-v1-''"

definition is_leap :: "int \<Rightarrow> bool" where
  "is_leap y \<longleftrightarrow> y mod 4 = 0 \<and> (y mod 100 \<noteq> 0 \<or> y mod 400 = 0)"

definition days_before_year :: "int \<Rightarrow> int" where
  "days_before_year y = (let z = y - 1 in z * 365 + z div 4 - z div 100 + z div 400)"

definition days_before_month :: "int \<Rightarrow> int \<Rightarrow> int" where
  "days_before_month y m =
     [0, 31, 59, 90, 120, 151, 181, 212, 243, 273, 304, 334] ! nat (m - 1) + (if m > 2 \<and> is_leap y then 1 else 0)"

datatype 'a parsed = Parsed 'a | Unparseable | Overflow

text \<open>\<^verbatim>\<open>datetime(y, m, 1)\<close> in seconds; arguments outside a C int raise an overflow error instead of a value error.\<close>

definition first_of_month :: "int \<Rightarrow> int \<Rightarrow> int parsed" where
  "first_of_month y m =
     (if y > 2147483647 \<or> y < -2147483648 \<or> m > 2147483647 \<or> m < -2147483648 then Overflow
      else if y < 1 \<or> y > 9999 \<or> m < 1 \<or> m > 12 then Unparseable
      else Parsed (86400 * (days_before_year y + days_before_month y m)))"

definition month_end_utc :: "string \<Rightarrow> int parsed" where
  "month_end_utc suffix =
     (case py_split (CHR ''.'') suffix of
        [year, month] \<Rightarrow>
          (case (int_base10 year, int_base10 month) of
             (Some y, Some m) \<Rightarrow> if m = 12 then first_of_month (y + 1) 1 else first_of_month y (m + 1)
           | _ \<Rightarrow> Unparseable)
      | _ \<Rightarrow> Unparseable)"

fun select_expired_indices :: "string list \<Rightarrow> string \<Rightarrow> int \<Rightarrow> int \<Rightarrow> string list option" where
  "select_expired_indices [] tenant retention_days now = Some []"
| "select_expired_indices (name # names) tenant retention_days now =
     (let prefix = EVENTS_INDEX_PREFIX @ tenant @ ''-''; rest = select_expired_indices names tenant retention_days now in
      if \<not> starts_with name prefix then rest
      else case month_end_utc (drop (length prefix) name) of
        Overflow \<Rightarrow> None
      | Unparseable \<Rightarrow> rest
      | Parsed month_end \<Rightarrow>
          if now - month_end > 86400 * retention_days then map_option (\<lambda>xs. name # xs) rest else rest)"

definition default_retention_days :: int where "default_retention_days = 14"

definition as_int :: "json \<Rightarrow> int job" where
  "as_int v = (case py_int v of None \<Rightarrow> jraise | Some n \<Rightarrow> jret n)"

definition RETENTION_OVERRIDE :: "nat \<Rightarrow> nat \<Rightarrow> cp_db \<Rightarrow> json option" where
  "RETENTION_OVERRIDE t now db = map_of (SELECT_ENTITLEMENT_OVERRIDES t now db) ''retention_days''"

definition PLAN_RETENTION :: "string \<Rightarrow> cp_db \<Rightarrow> json option" where
  "PLAN_RETENTION plan db = map_of (SELECT_PLAN_CONFIG plan db) ''retention_days''"

definition retention_days_for :: "nat \<Rightarrow> string \<Rightarrow> int job" where
  "retention_days_for t plan =
     jthen (on_cp (andthen clock (\<lambda>now. reads (RETENTION_OVERRIDE t now)))) (\<lambda>override.
     case override of
       Some v \<Rightarrow> as_int v
     | None \<Rightarrow>
         jthen (on_cp (reads (PLAN_RETENTION plan))) (\<lambda>plan_value.
         case plan_value of Some v \<Rightarrow> as_int v | None \<Rightarrow> jret default_retention_days))"

definition delete_expired :: "nat \<Rightarrow> int \<Rightarrow> string \<Rightarrow> unit job" where
  "delete_expired t retention_days name =
     jthen (jstep (\<lambda>w. Inr ((), w\<lparr>jb_indices := removeAll name (jb_indices w)\<rparr>))) (\<lambda>_.
     jstep (job_audit t ''retention.es_index_deleted'' \<lparr>ae_type = ''es_index'', ae_id = name\<rparr> None (Some [(''retention_days'', JInt retention_days)]) ''retention_expired''))"

definition retention_tenant :: "int \<Rightarrow> cp_tenant \<Rightarrow> unit job" where
  "retention_tenant now tenant =
     (let t = ct_id tenant in
     jthen (retention_days_for t (ct_plan tenant)) (\<lambda>retention_days w.
       (case jstep (\<lambda>w. Inr (filter (\<lambda>n. starts_with n (EVENTS_INDEX_PREFIX @ uuid_str t @ ''-'')) (jb_indices w), w)) w of
          (Inl _, w1) \<Rightarrow> (Inr (), w1)
        | (Inr existing, w1) \<Rightarrow>
            (case select_expired_indices existing (uuid_str t) retention_days now of
               None \<Rightarrow> (Inl INTERNAL_ERROR, w1)
             | Some expired \<Rightarrow> jeach (delete_expired t retention_days) expired w1))))"

definition job_retention_purge :: "unit job" where
  "job_retention_purge w = jthen tenant_rows (jeach (retention_tenant (int (job_now w)))) w"

subsection \<open>Trials\<close>

definition expired_trial :: "nat \<Rightarrow> cp_tenant \<Rightarrow> bool" where
  "expired_trial now r \<longleftrightarrow> ct_status r = ''active'' \<and> ct_plan r = ''trial'' \<and> (case ct_trial_expires r of None \<Rightarrow> False | Some e \<Rightarrow> e < now)"

definition FREEZE_EXPIRED_TRIALS :: "nat \<Rightarrow> cp_db \<Rightarrow> nat list \<times> cp_db" where
  "FREEZE_EXPIRED_TRIALS now db =
     (map ct_id (filter (expired_trial now) (db_tenants db)),
      db\<lparr>db_tenants := map (\<lambda>r. if expired_trial now r then r\<lparr>ct_status := ''frozen'', ct_frozen_at := Some now\<rparr> else r) (db_tenants db)\<rparr>)"

definition announce_freeze :: "nat \<Rightarrow> unit job" where
  "announce_freeze t =
     jthen (on_cp (delete (tenantstatus t))) (\<lambda>_.
     jstep (job_audit t ''tenant.trial_frozen'' (tenant_entity t) (Some [(''status'', JStr ''active'')]) (Some [(''status'', JStr ''frozen'')]) ''trial_expired''))"

definition job_trial_freeze :: "unit job" where
  "job_trial_freeze = jthen (on_cp (changes FREEZE_EXPIRED_TRIALS)) (jeach announce_freeze)"

definition PURGE_DUE_TENANTS :: "int \<Rightarrow> nat \<Rightarrow> cp_db \<Rightarrow> nat list" where
  "PURGE_DUE_TENANTS days now db =
     map ct_id (filter (\<lambda>r. ct_status r = ''frozen'' \<and> (case ct_frozen_at r of None \<Rightarrow> False | Some f \<Rightarrow> older_than_days now days f)) (db_tenants db))"

definition MARK_TENANT_PURGED :: "nat \<Rightarrow> nat \<Rightarrow> cp_db \<Rightarrow> cp_db" where
  "MARK_TENANT_PURGED t now =
     update_tenant t (\<lambda>r. if ct_status r = ''frozen'' then r\<lparr>ct_status := ''purged'', ct_purged_at := Some now\<rparr> else r)"

definition PURGE_TABLE_ORDER :: "string list" where
  "PURGE_TABLE_ORDER =
     [''deep_investigation_runs'', ''alert_events'', ''alert_history'', ''alerts'', ''correlation_groups'', ''devices'', ''asset_merge_audit'',
      ''asset_identity_pins'', ''asset_identities'', ''enrollment_tokens'', ''ingest_keys'', ''assets'', ''rule_toggles'', ''dead_letter_events'',
      ''onboarding_steps'', ''usage_counters'']"

fun position :: "string \<Rightarrow> string list \<Rightarrow> int option" where
  "position x [] = None"
| "position x (y # ys) = (if x = y then Some 0 else map_option (\<lambda>n. n + 1) (position x ys))"

definition purge_rank :: "string \<Rightarrow> int" where
  "purge_rank t = (case position t PURGE_TABLE_ORDER of None \<Rightarrow> -1 | Some n \<Rightarrow> n)"

definition ordered_purge_tables :: "(string \<times> string \<times> string) list \<Rightarrow> string list" where
  "ordered_purge_tables registry_rows =
     sort_key purge_rank (map (\<lambda>(_, t, _). t) (filter (\<lambda>(s, _, a). s = ''tenantdata'' \<and> a = ''delete'') registry_rows))"

text \<open>The final dollar of the pattern also matches before a final newline.\<close>

definition table_name_ok :: "string \<Rightarrow> bool" where
  "table_name_ok s =
     (case drop_final_newline s of
        [] \<Rightarrow> False
      | c # cs \<Rightarrow> (is_lower c \<or> c = CHR ''_'') \<and> list_all (\<lambda>x. is_lower x \<or> is_digit x \<or> x = CHR ''_'') cs)"

fun delete_rows :: "nat \<Rightarrow> string list \<Rightarrow> job_world \<Rightarrow> cp_error + unit \<times> job_world" where
  "delete_rows t [] w = Inr ((), w)"
| "delete_rows t (table # tables) w =
     (if \<not> table_name_ok table then Inl INTERNAL_ERROR
      else case jb_tables w table of
        None \<Rightarrow> Inl INTERNAL_ERROR
      | Some rows \<Rightarrow> delete_rows t tables (w\<lparr>jb_tables := (jb_tables w)(table \<mapsto> removeAll t rows)\<rparr>))"

definition purge_tenant_pg :: "nat \<Rightarrow> string list \<Rightarrow> unit job" where
  "purge_tenant_pg t tables =
     jstep (\<lambda>w. case delete_rows t tables w of
        Inl e \<Rightarrow> Inl e
      | Inr (_, w') \<Rightarrow> job_audit t ''tenant.purged'' (tenant_entity t) None (Some [(''tables_purged'', JInt (int (length tables)))]) ''trial_purge_30d'' w')"

text \<open>The keys of one tenant: exact keys and, where the pattern ends in an asterisk, prefixes.\<close>

datatype purge_pattern = Prefix string | Key string

definition PURGE_REDIS_PATTERNS :: "string \<Rightarrow> purge_pattern list" where
  "PURGE_REDIS_PATTERNS t =
     [Prefix (''device:'' @ t @ '':''), Prefix (''ingestkey:'' @ t @ '':''), Key (''tenantstatus:'' @ t), Key (''ent:'' @ t),
      Prefix (''quota:ingest:'' @ t @ '':''), Prefix (''quota:di:'' @ t @ '':''), Prefix (''budget:triage:'' @ t @ '':''),
      Prefix (''usage:ingest:'' @ t @ '':''), Key (''onboarding:'' @ t), Prefix (''rl:enroll:token:'' @ t @ '':'')]"

definition delete_all :: "string list \<Rightarrow> unit cp" where
  "delete_all ks = on_redis (\<lambda>now r. (Inr (), \<lambda>k. if k \<in> set ks then None else r k))"

text \<open>One turn of the loop is a \<^verbatim>\<open>SCAN\<close> and, if it returned keys, a deletion; the pages are what the calls return until the cursor is zero.\<close>

fun scan_delete :: "string list list \<Rightarrow> unit cp" where
  "scan_delete [] = ret ()"
| "scan_delete (page # rest) =
     andthen (on_redis (\<lambda>_ r. (Inr (), r))) (\<lambda>_.
     andthen (if page = [] then ret () else delete_all page) (\<lambda>_.
     scan_delete rest))"

definition purge_pattern_keys :: "(rval redis \<Rightarrow> string \<Rightarrow> string list list) \<Rightarrow> purge_pattern \<Rightarrow> unit cp" where
  "purge_pattern_keys pages p w =
     (case p of Key k \<Rightarrow> delete k w | Prefix x \<Rightarrow> scan_delete (pages (cw_redis w) x) w)"

definition purge_tenant_redis :: "(rval redis \<Rightarrow> string \<Rightarrow> string list list) \<Rightarrow> nat \<Rightarrow> unit job" where
  "purge_tenant_redis pages t = jeach (\<lambda>p. on_cp (purge_pattern_keys pages p)) (PURGE_REDIS_PATTERNS (uuid_str t))"

definition trial_purge_after_days :: int where "trial_purge_after_days = 30"

definition purge_tenant :: "(rval redis \<Rightarrow> string \<Rightarrow> string list list) \<Rightarrow> string list \<Rightarrow> nat \<Rightarrow> unit job" where
  "purge_tenant pages tables t =
     jthen (purge_tenant_pg t tables) (\<lambda>_.
     jthen (jstep (\<lambda>w. Inr ((), w\<lparr>jb_indices := filter (\<lambda>n. \<not> starts_with n (EVENTS_INDEX_PREFIX @ uuid_str t @ ''-'')) (jb_indices w)\<rparr>))) (\<lambda>_.
     jthen (purge_tenant_redis pages t) (\<lambda>_.
     jthen (on_cp (writes (MARK_TENANT_PURGED t))) (\<lambda>_.
     on_cp (delete (tenantstatus t))))))"

definition job_trial_purge :: "(rval redis \<Rightarrow> string \<Rightarrow> string list list) \<Rightarrow> unit job" where
  "job_trial_purge pages =
     jthen (int_config ''trial_purge_after_days'' trial_purge_after_days) (\<lambda>days.
     jthen (on_cp (on_db (\<lambda>now db. Inr (PURGE_DUE_TENANTS days now db, db)))) (\<lambda>due.
     jthen (jstep (\<lambda>w. Inr (jb_registry w, w))) (\<lambda>registry.
     jeach (purge_tenant pages (ordered_purge_tables registry)) due)))"

subsection \<open>Sweeps\<close>

definition billable_window_days :: int where "billable_window_days = 30"
definition heartbeat_interval_seconds :: int where "heartbeat_interval_seconds = 60"
definition agent_offline_after_missed_heartbeats :: int where "agent_offline_after_missed_heartbeats = 3"
definition dlq_retention_days :: int where "dlq_retention_days = 7"

definition BILLABLE_WINDOW :: "nat \<Rightarrow> int \<Rightarrow> nat \<Rightarrow> job_asset list \<Rightarrow> job_asset list" where
  "BILLABLE_WINDOW t days now =
     map (\<lambda>a. if ja_tenant a = t \<and> ja_billable a \<and> older_than_days now days (ja_last_seen a) then a\<lparr>ja_billable := False\<rparr> else a)"

definition silent_device :: "nat \<Rightarrow> int \<Rightarrow> job_asset \<Rightarrow> job_device \<Rightarrow> bool" where
  "silent_device now secs a d \<longleftrightarrow> jd_tenant d = ja_tenant a \<and> jd_asset d = Some (ja_id a) \<and> jd_status d = ''active''
     \<and> (case jd_heartbeat d of None \<Rightarrow> False | Some h \<Rightarrow> int h < int now - secs)"

definition AGENT_OFFLINE :: "nat \<Rightarrow> int \<Rightarrow> nat \<Rightarrow> job_device list \<Rightarrow> job_asset list \<Rightarrow> job_asset list" where
  "AGENT_OFFLINE t secs now devices =
     map (\<lambda>a. if ja_tenant a = t \<and> ja_agent_status a \<in> {Some ''enrolled'', Some ''healthy''} \<and> list_ex (silent_device now secs a) devices
              then a\<lparr>ja_agent_status := Some ''offline''\<rparr> else a)"

definition DLQ_CLEANUP :: "nat \<Rightarrow> int \<Rightarrow> nat \<Rightarrow> (nat \<times> nat) list \<Rightarrow> (nat \<times> nat) list" where
  "DLQ_CLEANUP t days now = filter (\<lambda>(x, received). \<not> (x = t \<and> older_than_days now days received))"

definition job_billable_window :: "unit job" where
  "job_billable_window =
     jthen (int_config ''billable_window_days'' billable_window_days) (\<lambda>days.
     jthen tenant_rows (jeach (\<lambda>r. jstep (\<lambda>w. Inr ((), w\<lparr>jb_assets := BILLABLE_WINDOW (ct_id r) days (job_now w) (jb_assets w)\<rparr>)))))"

definition job_agent_offline :: "unit job" where
  "job_agent_offline =
     jthen (int_config ''heartbeat_interval_seconds'' heartbeat_interval_seconds) (\<lambda>interval.
     jthen (int_config ''agent_offline_after_missed_heartbeats'' agent_offline_after_missed_heartbeats) (\<lambda>missed.
     jthen tenant_rows (jeach (\<lambda>r. jstep (\<lambda>w. Inr ((), w\<lparr>jb_assets := AGENT_OFFLINE (ct_id r) (interval * missed) (job_now w) (jb_devices w) (jb_assets w)\<rparr>))))))"

definition job_dlq_cleanup :: "unit job" where
  "job_dlq_cleanup =
     jthen (int_config ''dlq_retention_days'' dlq_retention_days) (\<lambda>days.
     jthen tenant_rows (jeach (\<lambda>r. jstep (\<lambda>w. Inr ((), w\<lparr>jb_dead_letters := DLQ_CLEANUP (ct_id r) days (job_now w) (jb_dead_letters w)\<rparr>)))))"

subsection \<open>Reasoning about jobs\<close>

text \<open>An assertion that a job keeps whatever happens to its commands.\<close>

named_theorems jkeeps_rules

definition jkeeps :: "(job_world \<Rightarrow> bool) \<Rightarrow> 'a job \<Rightarrow> bool" where
  "jkeeps A m \<longleftrightarrow> (\<forall>w. A w \<longrightarrow> A (snd (m w)))"

lemma jkeepsD: "jkeeps A m \<Longrightarrow> A w \<Longrightarrow> A (snd (m w))"
  by (simp add: jkeeps_def)

lemma jkeepsD_run: "jkeeps A m \<Longrightarrow> m w = (res, w') \<Longrightarrow> A w \<Longrightarrow> A w'"
  using jkeepsD [of A m w] by simp

lemma jkeeps_ret [jkeeps_rules]: "jkeeps A (jret x)"
  by (simp add: jkeeps_def jret_def)

lemma jkeeps_raise [jkeeps_rules]: "jkeeps A jraise"
  by (simp add: jkeeps_def jraise_def)

lemma jkeeps_then [jkeeps_rules]: "jkeeps A m \<Longrightarrow> (\<And>x. jkeeps A (f x)) \<Longrightarrow> jkeeps A (jthen m f)"
  unfolding jkeeps_def jthen_def by (fastforce split: prod.splits sum.splits)

lemma jkeeps_each: "(\<And>x. x \<in> set xs \<Longrightarrow> jkeeps A (f x)) \<Longrightarrow> jkeeps A (jeach f xs)"
  by (induction xs) (auto intro: jkeeps_rules)

lemma on_cp_snd: "snd (on_cp m w) = w\<lparr>jb_cp := snd (m (jb_cp w))\<rparr>"
  by (simp add: on_cp_def case_prod_beta)

lemma jkeeps_cp: "(\<And>w. A w \<Longrightarrow> A (w\<lparr>jb_cp := snd (m (jb_cp w))\<rparr>)) \<Longrightarrow> jkeeps A (on_cp m)"
  unfolding jkeeps_def on_cp_snd by blast

lemma jthen_InrE:
  assumes "jthen m f w = (Inr x, w')"
  obtains y w1 where "m w = (Inr y, w1)" "f y w1 = (Inr x, w')"
  using assms by (auto simp: jthen_def split: prod.splits sum.splits)

lemma jthen_Inr: "m w = (Inr x, w') \<Longrightarrow> jthen m f w = f x w'"
  by (simp add: jthen_def)

text \<open>Assertions that do not depend on the fates.\<close>

definition jfateless :: "(job_world \<Rightarrow> bool) \<Rightarrow> bool" where
  "jfateless A \<longleftrightarrow> (\<forall>w fs. A (w\<lparr>jb_cp := (jb_cp w)\<lparr>cw_fates := fs\<rparr>\<rparr>) = A w)"

lemma take_fate_fates: "\<exists>fs. snd (take_fate w) = w\<lparr>cw_fates := fs\<rparr>"
  by (cases "cw_fates w") (auto simp: take_fate_def intro: exI [of _ "[]"])

lemma jkeeps_step:
  assumes "jfateless A" and "\<And>w x w'. A w \<Longrightarrow> op w = Inr (x, w') \<Longrightarrow> A w'"
  shows "jkeeps A (jstep op)"
proof (unfold jkeeps_def, intro allI impI)
  fix w assume w: "A w"
  obtain f c where f: "take_fate (jb_cp w) = (f, c)" by fastforce
  then obtain fs where "c = (jb_cp w)\<lparr>cw_fates := fs\<rparr>" using take_fate_fates [of "jb_cp w"] by auto
  then have "A (w\<lparr>jb_cp := c\<rparr>)" using w assms(1) by (simp add: jfateless_def)
  then show "A (snd (jstep op w))" using f assms(2) by (auto simp: jstep_def Let_def split: sum.splits prod.splits)
qed

lemma jstep_Inr:
  assumes "jstep op w = (Inr x, w')"
  shows "\<exists>fs. op (w\<lparr>jb_cp := (jb_cp w)\<lparr>cw_fates := fs\<rparr>\<rparr>) = Inr (x, w')"
proof -
  obtain f c where f: "take_fate (jb_cp w) = (f, c)" by fastforce
  then obtain fs where "c = (jb_cp w)\<lparr>cw_fates := fs\<rparr>" using take_fate_fates [of "jb_cp w"] by auto
  then show ?thesis using assms f by (auto simp: jstep_def Let_def split: sum.splits prod.splits if_splits)
qed

subsection \<open>Retention deletes nothing that has to be kept\<close>

definition retention_of :: "nat \<Rightarrow> cp_db \<Rightarrow> cp_tenant \<Rightarrow> int option" where
  "retention_of now db r =
     (case RETENTION_OVERRIDE (ct_id r) now db of
        Some v \<Rightarrow> py_int v
      | None \<Rightarrow> (case PLAN_RETENTION (ct_plan r) db of Some v \<Rightarrow> py_int v | None \<Rightarrow> Some default_retention_days))"

text \<open>The index is one of the tenant's, of a month that ended longer ago than the tenant's retention.\<close>

definition may_go :: "nat \<Rightarrow> cp_db \<Rightarrow> cp_tenant \<Rightarrow> string \<Rightarrow> bool" where
  "may_go now db r name \<longleftrightarrow> (\<exists>suffix month_end days. name = EVENTS_INDEX_PREFIX @ uuid_str (ct_id r) @ ''-'' @ suffix
     \<and> month_end_utc suffix = Parsed month_end \<and> retention_of now db r = Some days \<and> int now - month_end > 86400 * days)"

lemma selected:
  "select_expired_indices names t days now = Some xs \<Longrightarrow> name \<in> set xs \<Longrightarrow>
     \<exists>suffix month_end. name = EVENTS_INDEX_PREFIX @ t @ ''-'' @ suffix \<and> month_end_utc suffix = Parsed month_end \<and> now - month_end > 86400 * days"
proof (induction names t days now arbitrary: xs rule: select_expired_indices.induct)
  case (2 n names t days now)
  let ?p = "EVENTS_INDEX_PREFIX @ t @ ''-''"
  show ?case
  proof (cases "starts_with n ?p")
    case False
    then show ?thesis using 2 by (simp add: Let_def)
  next
    case True
    then have n: "n = ?p @ drop (length ?p) n" unfolding starts_with_def by (metis append_take_drop_id)
    show ?thesis
    proof (cases "month_end_utc (drop (length ?p) n)")
      case (Parsed me)
      show ?thesis
      proof (cases "now - me > 86400 * days")
        case late: True
        then obtain ys where ys: "select_expired_indices names t days now = Some ys" "xs = n # ys" using 2(2) True Parsed by (auto simp: Let_def)
        then show ?thesis using 2(1) [OF refl ys(1)] 2(3) n Parsed late by (metis append.assoc set_ConsD)
      next
        case False
        then show ?thesis using 2 True Parsed by (simp add: Let_def)
      qed
    qed (use 2 True in \<open>simp_all add: Let_def\<close>)
  qed
qed simp

lemma as_int_Inr: "as_int v w = (Inr d, w') \<Longrightarrow> py_int v = Some d \<and> w' = w"
  by (auto simp: as_int_def jraise_def jret_def split: option.splits)

lemma on_cp_reads:
  assumes "on_cp (reads q) w = (Inr x, w')"
  shows "x = q (cw_db (jb_cp w)) \<and> (\<exists>fs. w' = w\<lparr>jb_cp := (jb_cp w)\<lparr>cw_fates := fs\<rparr>\<rparr>)"
proof -
  obtain f c where f: "take_fate (jb_cp w) = (f, c)" by fastforce
  then obtain fs where "c = (jb_cp w)\<lparr>cw_fates := fs\<rparr>" using take_fate_fates [of "jb_cp w"] by auto
  then show ?thesis using assms f by (auto simp: on_cp_def reads_def on_db_def split: if_splits)
qed

lemma retention_days_Inr:
  assumes "retention_days_for (ct_id r) (ct_plan r) w = (Inr d, w')"
  shows "retention_of (job_now w) (cw_db (jb_cp w)) r = Some d"
proof -
  have c: "on_cp (andthen clock (\<lambda>now. reads (q now))) w = on_cp (reads (q (job_now w))) w" for q :: "nat \<Rightarrow> cp_db \<Rightarrow> json option"
    by (simp add: on_cp_def andthen_def clock_def job_now_def)
  obtain o1 w1 where o: "on_cp (andthen clock (\<lambda>now. reads (RETENTION_OVERRIDE (ct_id r) now))) w = (Inr o1, w1)"
    and rest: "(case o1 of Some v \<Rightarrow> as_int v | None \<Rightarrow> jthen (on_cp (reads (PLAN_RETENTION (ct_plan r)))) (\<lambda>plan_value.
         case plan_value of Some v \<Rightarrow> as_int v | None \<Rightarrow> jret default_retention_days)) w1 = (Inr d, w')"
    by (rule jthen_InrE [OF assms [unfolded retention_days_for_def]])
  obtain fs where o1: "o1 = RETENTION_OVERRIDE (ct_id r) (job_now w) (cw_db (jb_cp w))" "w1 = w\<lparr>jb_cp := (jb_cp w)\<lparr>cw_fates := fs\<rparr>\<rparr>"
    using on_cp_reads [OF o [unfolded c]] by blast
  show ?thesis
  proof (cases o1)
    case (Some v)
    then show ?thesis using rest o1 by (auto simp: retention_of_def dest: as_int_Inr)
  next
    case None
    then obtain p w2 where p: "on_cp (reads (PLAN_RETENTION (ct_plan r))) w1 = (Inr p, w2)"
      "(case p of Some v \<Rightarrow> as_int v | None \<Rightarrow> jret default_retention_days) w2 = (Inr d, w')"
      using rest by (auto elim!: jthen_InrE)
    have "p = PLAN_RETENTION (ct_plan r) (cw_db (jb_cp w))" using on_cp_reads [OF p(1)] o1(2) by simp
    then show ?thesis using p(2) None o1(1) by (auto simp: retention_of_def jret_def split: option.splits dest: as_int_Inr)
  qed
qed

definition licensed :: "job_world \<Rightarrow> string \<Rightarrow> bool" where
  "licensed w0 name \<longleftrightarrow> (\<exists>r \<in> set (job_tenants w0). ct_status r \<in> {''active'', ''frozen''} \<and> may_go (job_now w0) (cw_db (jb_cp w0)) r name)"

definition retention_inv :: "job_world \<Rightarrow> job_world \<Rightarrow> bool" where
  "retention_inv w0 w \<longleftrightarrow> job_now w = job_now w0 \<and> db_plan_config (cw_db (jb_cp w)) = db_plan_config (cw_db (jb_cp w0))
     \<and> db_overrides (cw_db (jb_cp w)) = db_overrides (cw_db (jb_cp w0))
     \<and> (\<forall>name \<in> set (jb_indices w0). name \<in> set (jb_indices w) \<or> licensed w0 name)"

lemma retention_inv_fates: "jfateless (retention_inv w0)"
  by (simp add: jfateless_def retention_inv_def job_now_def)

lemma retention_audit: "jkeeps (retention_inv w0) (jstep (job_audit t action target before after reason))"
  by (rule jkeeps_step [OF retention_inv_fates])
    (auto simp: job_audit_def audit_rows_def with_db_def retention_inv_def job_now_def split: sum.splits)

lemma retention_delete:
  assumes "licensed w0 name"
  shows "jkeeps (retention_inv w0) (delete_expired t days name)"
  unfolding delete_expired_def
proof (intro jkeeps_then retention_audit jkeeps_step [OF retention_inv_fates])
  fix w x w' assume "retention_inv w0 w" and "Inr ((), w\<lparr>jb_indices := removeAll name (jb_indices w)\<rparr>) = Inr (x, w')"
  then show "retention_inv w0 w'" using assms by (auto simp: retention_inv_def job_now_def)
qed

lemma retention_of_same: "retention_inv w0 w \<Longrightarrow> retention_of (job_now w) (cw_db (jb_cp w)) r = retention_of (job_now w0) (cw_db (jb_cp w0)) r"
proof -
  assume a: "retention_inv w0 w"
  have "RETENTION_OVERRIDE (ct_id r) (job_now w) (cw_db (jb_cp w)) = RETENTION_OVERRIDE (ct_id r) (job_now w0) (cw_db (jb_cp w0))"
    using a by (simp add: retention_inv_def RETENTION_OVERRIDE_def SELECT_ENTITLEMENT_OVERRIDES_def)
  moreover have "PLAN_RETENTION (ct_plan r) (cw_db (jb_cp w)) = PLAN_RETENTION (ct_plan r) (cw_db (jb_cp w0))"
    using a by (simp add: retention_inv_def PLAN_RETENTION_def SELECT_PLAN_CONFIG_def)
  ultimately show ?thesis unfolding retention_of_def by (simp split: option.split)
qed

lemma retention_reads: "jkeeps (retention_inv w0) (on_cp (reads q))"
proof (rule jkeeps_cp)
  fix w assume a: "retention_inv w0 w"
  obtain f c where f: "take_fate (jb_cp w) = (f, c)" by fastforce
  have "snd (reads q (jb_cp w)) = c" by (simp add: reads_def on_db_def f)
  then show "retention_inv w0 (w\<lparr>jb_cp := snd (reads q (jb_cp w))\<rparr>)" using a take_fate_same [OF f] by (simp add: retention_inv_def job_now_def)
qed

lemma retention_days_keeps: "jkeeps (retention_inv w0) (retention_days_for t plan)"
proof -
  have c: "on_cp (andthen clock (\<lambda>now. reads (q now))) w = on_cp (reads (q (job_now w))) w" for q :: "nat \<Rightarrow> cp_db \<Rightarrow> json option" and w
    by (simp add: on_cp_def andthen_def clock_def job_now_def)
  have "jkeeps (retention_inv w0) (on_cp (andthen clock (\<lambda>now. reads (q now))))" for q :: "nat \<Rightarrow> cp_db \<Rightarrow> json option"
    unfolding jkeeps_def c using retention_reads unfolding jkeeps_def by blast
  then show ?thesis unfolding retention_days_for_def
    by (intro jkeeps_then) (auto simp: as_int_def split: option.splits intro!: jkeeps_rules retention_reads)
qed

lemma retention_tenant_keeps:
  assumes r: "r \<in> set (job_tenants w0)" "ct_status r \<in> {''active'', ''frozen''}"
  shows "jkeeps (retention_inv w0) (retention_tenant (int (job_now w0)) r)"
proof (unfold jkeeps_def, intro allI impI)
  fix w assume w: "retention_inv w0 w"
  let ?list = "jstep (\<lambda>w. Inr (filter (\<lambda>n. starts_with n (EVENTS_INDEX_PREFIX @ uuid_str (ct_id r) @ ''-'')) (jb_indices w), w))"
  obtain d w1 where d: "retention_days_for (ct_id r) (ct_plan r) w = (d, w1)" by fastforce
  have w1: "retention_inv w0 w1" by (rule jkeepsD_run [OF retention_days_keeps d w])
  show "retention_inv w0 (snd (retention_tenant (int (job_now w0)) r w))"
  proof (cases d)
    case (Inl e)
    then show ?thesis using d w1 by (simp add: retention_tenant_def Let_def jthen_def)
  next
    case (Inr days)
    have days: "retention_of (job_now w0) (cw_db (jb_cp w0)) r = Some days"
      using retention_days_Inr [OF d [unfolded Inr]] retention_of_same [OF w] by simp
    obtain l w2 where l: "?list w1 = (l, w2)" by fastforce
    have w2: "retention_inv w0 w2"
      by (rule jkeepsD_run [OF jkeeps_step [OF retention_inv_fates] l w1]) auto
    show ?thesis
    proof (cases l)
      case (Inl e)
      then show ?thesis using d Inr l w2 by (simp add: retention_tenant_def Let_def jthen_def)
    next
      case existing: (Inr names)
      show ?thesis
      proof (cases "select_expired_indices names (uuid_str (ct_id r)) days (int (job_now w0))")
        case None
        then show ?thesis using d Inr l existing w2 by (simp add: retention_tenant_def Let_def jthen_def)
      next
        case (Some xs)
        have "licensed w0 name" if "name \<in> set xs" for name
          using selected [OF Some that] days r unfolding licensed_def may_go_def by blast
        then have "jkeeps (retention_inv w0) (jeach (delete_expired (ct_id r) days) xs)" by (intro jkeeps_each retention_delete)
        from jkeepsD [OF this w2] show ?thesis using d Inr l existing Some by (simp add: retention_tenant_def Let_def jthen_def)
      qed
    qed
  qed
qed


definition demo_index :: string where
  "demo_index = EVENTS_INDEX_PREFIX @ uuid_str 4 @ ''-'' @ ''0001.01''"

definition demo_job :: job_world where
  "demo_job = \<lparr>jb_cp = demo_world\<lparr>cw_now := 8640000\<rparr>, jb_tables = Map.empty, jb_assets = [], jb_devices = [], jb_dead_letters = [], jb_indices = [demo_index],
     jb_registry = [], jb_config = []\<rparr>"

lemma demo_month: "month_end_utc ''0001.01'' = Parsed 2678400"
  by code_simp

lemma demo_selected: "select_expired_indices [demo_index] (uuid_str 4) 14 8640000 = Some [demo_index]"
proof -
  have "starts_with demo_index (EVENTS_INDEX_PREFIX @ uuid_str 4 @ ''-'')" by (simp add: demo_index_def starts_with_def)
  moreover have "drop (length (EVENTS_INDEX_PREFIX @ uuid_str 4 @ ''-'')) demo_index = ''0001.01''" unfolding demo_index_def by simp
  ultimately show ?thesis using demo_month by (simp add: Let_def)
qed

lemma demo_index_goes: "demo_index \<notin> set (jb_indices (snd (job_retention_purge demo_job)))"
proof -
  have p: "starts_with demo_index (EVENTS_INDEX_PREFIX @ uuid_str 4 @ ''-'')" by (simp add: demo_index_def starts_with_def)
  have rows: "tenant_rows demo_job = (Inr [demo_cp_tenant], demo_job)"
    by (simp add: tenant_rows_def on_cp_def run_defs demo_job_def demo_world_def demo_cp_db_def demo_cp_tenant_def)
  have days: "retention_days_for 4 ''trial'' demo_job = (Inr 14, demo_job)"
    by (simp add: retention_days_for_def jthen_def on_cp_def run_defs demo_job_def demo_world_def demo_cp_db_def RETENTION_OVERRIDE_def SELECT_ENTITLEMENT_OVERRIDES_def
      PLAN_RETENTION_def SELECT_PLAN_CONFIG_def jret_def default_retention_days_def)
  have list: "jstep (\<lambda>w. Inr (filter (\<lambda>n. starts_with n (EVENTS_INDEX_PREFIX @ uuid_str 4 @ ''-'')) (jb_indices w), w)) demo_job = (Inr [demo_index], demo_job)"
    using p by (simp add: jstep_def demo_job_def demo_world_def take_fate_def Let_def)
  have del: "jstep (\<lambda>w. Inr ((), w\<lparr>jb_indices := removeAll demo_index (jb_indices w)\<rparr>)) demo_job = (Inr (), demo_job\<lparr>jb_indices := []\<rparr>)"
    by (simp add: jstep_def demo_job_def demo_world_def take_fate_def Let_def)
  have "jkeeps (\<lambda>w. jb_indices w = []) (jstep (job_audit t action target b f reason))" for t action target b f reason
    by (rule jkeeps_step) (auto simp: jfateless_def job_audit_def audit_rows_def with_db_def split: sum.splits)
  note audit = jkeepsD_run [OF this]
  have "jb_indices (snd (jeach (delete_expired 4 14) [demo_index] demo_job)) = []"
  proof -
    let ?audit = "jstep (job_audit 4 ''retention.es_index_deleted'' \<lparr>ae_type = ''es_index'', ae_id = demo_index\<rparr> None (Some [(''retention_days'', JInt 14)]) ''retention_expired'')"
    obtain res w2 where a: "?audit (demo_job\<lparr>jb_indices := []\<rparr>) = (res, w2)" by fastforce
    have "jb_indices w2 = []" by (rule audit [OF a]) simp
    then show ?thesis using a by (cases res) (simp_all add: delete_expired_def jthen_def del jret_def)
  qed
  moreover have "ct_id demo_cp_tenant = 4" "ct_plan demo_cp_tenant = ''trial''" "job_now demo_job = 8640000"
    by (simp_all add: demo_cp_tenant_def job_now_def demo_job_def)
  ultimately show ?thesis
    using rows days list demo_selected
    by (auto simp: job_retention_purge_def jthen_def retention_tenant_def Let_def jret_def split: prod.splits sum.splits)
qed


subsection \<open>A purge removes one tenant and nothing else\<close>

definition own_key :: "nat \<Rightarrow> string \<Rightarrow> bool" where
  "own_key t k \<longleftrightarrow> list_ex (\<lambda>p. case p of Key x \<Rightarrow> k = x | Prefix x \<Rightarrow> starts_with k x) (PURGE_REDIS_PATTERNS (uuid_str t))"

definition own_index :: "nat \<Rightarrow> string \<Rightarrow> bool" where
  "own_index t n \<longleftrightarrow> starts_with n (EVENTS_INDEX_PREFIX @ uuid_str t @ ''-'')"

text \<open>What \<^verbatim>\<open>SCAN\<close> promises: its pages hold only existing keys with that prefix and, over a finite set of keys, all of them.\<close>

definition scan_complete :: "string list \<Rightarrow> (rval redis \<Rightarrow> string \<Rightarrow> string list list) \<Rightarrow> bool" where
  "scan_complete keys pages \<longleftrightarrow> (\<forall>r p. pages r p \<noteq> [] \<and> (\<forall>k \<in> set (concat (pages r p)). r k \<noteq> None \<and> starts_with k p)
     \<and> (dom r \<subseteq> set keys \<longrightarrow> (\<forall>k. r k \<noteq> None \<and> starts_with k p \<longrightarrow> k \<in> set (concat (pages r p)))))"

definition on_keys :: "(rval redis \<Rightarrow> rval redis) \<Rightarrow> job_world \<Rightarrow> job_world" where
  "on_keys f w = w\<lparr>jb_cp := (jb_cp w)\<lparr>cw_redis := f (cw_redis (jb_cp w))\<rparr>\<rparr>"

text \<open>What is shown of a purge is shown for each of the five things it does.\<close>

definition purge_stable :: "string list \<Rightarrow> nat \<Rightarrow> (job_world \<Rightarrow> bool) \<Rightarrow> bool" where
  "purge_stable tables t B \<longleftrightarrow> jfateless B
     \<and> (\<forall>w w'. B w \<longrightarrow> delete_rows t tables w = Inr ((), w') \<longrightarrow> B w')
     \<and> (\<forall>w rows. B w \<longrightarrow> B (with_db (\<lambda>db. db\<lparr>db_audit := rows\<rparr>) w))
     \<and> (\<forall>w. B w \<longrightarrow> B (w\<lparr>jb_indices := filter (\<lambda>n. \<not> own_index t n) (jb_indices w)\<rparr>))
     \<and> (\<forall>w ks. B w \<longrightarrow> (\<forall>k \<in> ks. own_key t k) \<longrightarrow> B (on_keys (\<lambda>r k. if k \<in> ks then None else r k) w))
     \<and> (\<forall>w now. B w \<longrightarrow> B (with_db (MARK_TENANT_PURGED t now) w))"

lemma stableD:
  assumes "purge_stable tables t B"
  shows "jfateless B" "B w \<Longrightarrow> delete_rows t tables w = Inr ((), w') \<Longrightarrow> B w'" "B w \<Longrightarrow> B (with_db (\<lambda>db. db\<lparr>db_audit := rows\<rparr>) w)"
    "B w \<Longrightarrow> B (w\<lparr>jb_indices := filter (\<lambda>n. \<not> own_index t n) (jb_indices w)\<rparr>)"
    "B w \<Longrightarrow> (\<And>k. k \<in> ks \<Longrightarrow> own_key t k) \<Longrightarrow> B (on_keys (\<lambda>r k. if k \<in> ks then None else r k) w)" "B w \<Longrightarrow> B (with_db (MARK_TENANT_PURGED t now) w)"
  using assms by (simp_all add: purge_stable_def)

lemma on_redis_either: "\<exists>fs. snd (on_redis op w) = w\<lparr>cw_fates := fs\<rparr> \<or> snd (on_redis op w) = w\<lparr>cw_fates := fs, cw_redis := snd (op (cw_now w) (cw_redis w))\<rparr>"
proof -
  obtain f c where f: "take_fate w = (f, c)" by fastforce
  then obtain fs where "c = w\<lparr>cw_fates := fs\<rparr>" using take_fate_fates [of w] by auto
  then show ?thesis using f by (cases f) (auto simp: on_redis_def split: prod.split)
qed

lemma stable_redis:
  assumes B: "purge_stable tables t B" and op: "\<And>now r. \<exists>ks. (\<forall>k \<in> ks. own_key t k) \<and> snd (op now r) = (\<lambda>k. if k \<in> ks then None else r k)" and w: "B w"
  shows "B (w\<lparr>jb_cp := snd (on_redis op (jb_cp w))\<rparr>)"
proof -
  have fl: "B (w\<lparr>jb_cp := (jb_cp w)\<lparr>cw_fates := fs\<rparr>\<rparr>)" for fs using stableD(1) [OF B] w by (simp add: jfateless_def)
  obtain ks where ks: "\<forall>k \<in> ks. own_key t k" "snd (op (cw_now (jb_cp w)) (cw_redis (jb_cp w))) = (\<lambda>k. if k \<in> ks then None else cw_redis (jb_cp w) k)"
    using op by blast
  have "B (on_keys (\<lambda>r k. if k \<in> ks then None else r k) (w\<lparr>jb_cp := (jb_cp w)\<lparr>cw_fates := fs\<rparr>\<rparr>))" for fs
    by (rule stableD(5) [OF B fl]) (use ks(1) in blast)
  then have "B (w\<lparr>jb_cp := (jb_cp w)\<lparr>cw_fates := fs, cw_redis := (\<lambda>k. if k \<in> ks then None else cw_redis (jb_cp w) k)\<rparr>\<rparr>)" for fs
    by (simp add: on_keys_def cong: if_cong)
  then show ?thesis using on_redis_either [of op "jb_cp w"] fl ks(2) by auto
qed

lemma stable_delete_all: "purge_stable tables t B \<Longrightarrow> \<forall>k \<in> set ks. own_key t k \<Longrightarrow> B w \<Longrightarrow> B (w\<lparr>jb_cp := snd (delete_all ks (jb_cp w))\<rparr>)"
  unfolding delete_all_def by (rule stable_redis) (auto intro!: exI [of _ "set ks"])

lemma stable_delete: "purge_stable tables t B \<Longrightarrow> own_key t k \<Longrightarrow> B w \<Longrightarrow> B (w\<lparr>jb_cp := snd (delete k (jb_cp w))\<rparr>)"
  unfolding delete_def by (rule stable_redis) (auto intro!: exI [of _ "{k}"])

lemma stable_scan_delete:
  "purge_stable tables t B \<Longrightarrow> \<forall>k \<in> set (concat ps). own_key t k \<Longrightarrow> B w \<Longrightarrow> B (w\<lparr>jb_cp := snd (scan_delete ps (jb_cp w))\<rparr>)"
proof (induction ps arbitrary: w)
  case (Cons page ps)
  obtain r c where r: "on_redis (\<lambda>_ r. (Inr (), r)) (jb_cp w) = (r, c)" by fastforce
  have 1: "B (w\<lparr>jb_cp := c\<rparr>)" using stable_redis [OF Cons.prems(1) _ Cons.prems(3), of "\<lambda>_ r. (Inr (), r)"] r by (force intro: exI [of _ "{}"])
  obtain s d where s: "(if page = [] then ret () else delete_all page) c = (s, d)" by fastforce
  have 2: "B (w\<lparr>jb_cp := d\<rparr>)"
    using stable_delete_all [OF Cons.prems(1) _ 1, of page] Cons.prems(2) 1 s by (auto simp: ret_def split: if_splits)
  show ?case
    using Cons.IH [OF Cons.prems(1) _ 2] Cons.prems(2) 1 2 r s by (cases r; cases s) (auto simp: andthen_def)
qed (simp add: ret_def)

lemma stable_pattern:
  assumes B: "purge_stable tables t B" and sc: "scan_complete keys pages" and p: "p \<in> set (PURGE_REDIS_PATTERNS (uuid_str t))" and w: "B w"
  shows "B (w\<lparr>jb_cp := snd (purge_pattern_keys pages p (jb_cp w))\<rparr>)"
proof (cases p)
  case (Key k)
  then have "own_key t k" using p unfolding own_key_def list_ex_iff by (intro bexI [of _ p]) simp_all
  then show ?thesis using stable_delete [OF B _ w] Key by (simp add: purge_pattern_keys_def)
next
  case (Prefix x)
  have "\<forall>k \<in> set (concat (pages (cw_redis (jb_cp w)) x)). own_key t k"
    using sc p Prefix unfolding scan_complete_def own_key_def list_ex_iff by (fastforce intro!: bexI [of _ p])
  then show ?thesis using stable_scan_delete [OF B _ w] Prefix by (simp add: purge_pattern_keys_def)
qed

lemma purge_keeps:
  assumes B: "purge_stable tables t B" and sc: "scan_complete keys pages"
  shows "jkeeps B (purge_tenant pages tables t)"
proof -
  note fl = stableD(1) [OF B]
  have pg: "jkeeps B (purge_tenant_pg t tables)"
    unfolding purge_tenant_pg_def
  proof (rule jkeeps_step [OF fl])
    fix w x w'
    assume w: "B w" and run: "(case delete_rows t tables w of Inl e \<Rightarrow> Inl e
        | Inr (_, w') \<Rightarrow> job_audit t ''tenant.purged'' (tenant_entity t) None (Some [(''tables_purged'', JInt (int (length tables)))]) ''trial_purge_30d'' w') = Inr (x, w')"
    obtain w1 where w1: "delete_rows t tables w = Inr ((), w1)" using run by (auto split: sum.splits)
    have "B w1" by (rule stableD(2) [OF B w w1])
    moreover obtain rows where "w' = with_db (\<lambda>db. db\<lparr>db_audit := rows\<rparr>) w1"
      using run w1 by (auto simp: job_audit_def audit_rows_def with_db_def split: sum.splits)
    ultimately show "B w'" using stableD(3) [OF B] by simp
  qed
  have es: "jkeeps B (jstep (\<lambda>w. Inr ((), w\<lparr>jb_indices := filter (\<lambda>n. \<not> starts_with n (EVENTS_INDEX_PREFIX @ uuid_str t @ ''-'')) (jb_indices w)\<rparr>)))"
    by (rule jkeeps_step [OF fl]) (use stableD(4) [OF B] in \<open>auto simp: own_index_def\<close>)
  have redis: "jkeeps B (purge_tenant_redis pages t)"
    unfolding purge_tenant_redis_def by (intro jkeeps_each jkeeps_cp stable_pattern [OF B sc])
  have mark: "jkeeps B (on_cp (writes (MARK_TENANT_PURGED t)))"
  proof (rule jkeeps_cp)
    fix w assume w: "B w"
    obtain f c where f: "take_fate (jb_cp w) = (f, c)" by fastforce
    then obtain fs where c: "c = (jb_cp w)\<lparr>cw_fates := fs\<rparr>" using take_fate_fates [of "jb_cp w"] by auto
    then have 1: "B (w\<lparr>jb_cp := c\<rparr>)" using w fl by (simp add: jfateless_def)
    then have "B (with_db (MARK_TENANT_PURGED t (cw_now c)) (w\<lparr>jb_cp := c\<rparr>))" by (rule stableD(6) [OF B])
    then show "B (w\<lparr>jb_cp := snd (writes (MARK_TENANT_PURGED t) (jb_cp w))\<rparr>)" using 1 f by (auto simp: writes_def on_db_def with_db_def)
  qed
  have del: "jkeeps B (on_cp (delete (tenantstatus t)))"
    by (intro jkeeps_cp stable_delete [OF B]) (auto simp: own_key_def PURGE_REDIS_PATTERNS_def tenantstatus_def)
  show ?thesis unfolding purge_tenant_def by (intro jkeeps_then pg es redis mark del)
qed

lemma length_to_hex: "length (to_hex k n) = k"
  by (induction k arbitrary: n) auto

lemma length_uuid_str: "length (uuid_str n) = 36"
  by (simp add: uuid_str_def Let_def length_to_hex)

lemma uuid_str_eq: "is_uuid m \<Longrightarrow> is_uuid n \<Longrightarrow> uuid_str m = uuid_str n \<Longrightarrow> m = n"
  by (metis uuid_back option.inject)

lemma uuid_prefix: "is_uuid m \<Longrightarrow> is_uuid n \<Longrightarrow> uuid_str m @ r = uuid_str n @ s \<Longrightarrow> m = n"
  using uuid_str_eq [of m n] by (simp add: length_uuid_str)

definition key_kinds :: "string list" where
  "key_kinds = [''device:'', ''ingestkey:'', ''tenantstatus:'', ''ent:'', ''quota:ingest:'', ''quota:di:'', ''budget:triage:'', ''usage:ingest:'', ''onboarding:'',
     ''rl:enroll:token:'']"

lemma own_key_kind:
  assumes "own_key t k"
  shows "\<exists>kind \<in> set key_kinds. \<exists>r. k = kind @ uuid_str t @ r"
  using assms unfolding own_key_def list_ex_iff PURGE_REDIS_PATTERNS_def key_kinds_def
  by (auto simp: starts_with_iff)

lemma zip_differs: "list_ex (\<lambda>(c, d). c \<noteq> d) (zip a b) \<Longrightarrow> a @ x \<noteq> b @ y"
proof (induction a arbitrary: b)
  case (Cons c a)
  then show ?case by (cases b) auto
qed simp

lemma kinds_apart:
  assumes "a \<in> set key_kinds" and "b \<in> set key_kinds" and "a @ x = b @ y"
  shows "a = b"
proof -
  have "list_all (\<lambda>a. list_all (\<lambda>b. a = b \<or> list_ex (\<lambda>(c, d). c \<noteq> d) (zip a b)) key_kinds) key_kinds" by code_simp
  then have "a = b \<or> list_ex (\<lambda>(c, d). c \<noteq> d) (zip a b)" using assms(1,2) unfolding list_all_iff by blast
  then show ?thesis using zip_differs [of a b x y] assms(3) by blast
qed

lemma own_apart:
  assumes "is_uuid t" and "is_uuid x" and "x \<noteq> t"
  shows "own_key x k \<Longrightarrow> \<not> own_key t k" and "own_index x n \<Longrightarrow> \<not> own_index t n"
proof -
  show "\<not> own_key t k" if "own_key x k"
  proof
    assume "own_key t k"
    then obtain a r where a: "a \<in> set key_kinds" "k = a @ uuid_str t @ r" using own_key_kind by blast
    obtain b s where b: "b \<in> set key_kinds" "k = b @ uuid_str x @ s" using own_key_kind [OF \<open>own_key x k\<close>] by blast
    then have "a = b" using kinds_apart [OF a(1) b(1)] a(2) by simp
    then show False using a(2) b(2) uuid_prefix [OF assms(1,2), of r s] assms(3) by simp
  qed
  show "\<not> own_index t n" if "own_index x n"
  proof
    assume "own_index t n"
    then obtain r where r: "n = EVENTS_INDEX_PREFIX @ uuid_str t @ ''-'' @ r" by (auto simp: own_index_def starts_with_iff)
    obtain s where s: "n = EVENTS_INDEX_PREFIX @ uuid_str x @ ''-'' @ s" using \<open>own_index x n\<close> by (auto simp: own_index_def starts_with_iff)
    show False using r s uuid_prefix [OF assms(1,2), of "''-'' @ r" "''-'' @ s"] assms(3) by simp
  qed
qed

text \<open>Untouched by the purge of a set of tenants: tables that are retained, and rows, indices, keys and tenants of others.\<close>

definition spared :: "string list \<Rightarrow> nat set \<Rightarrow> job_world \<Rightarrow> job_world \<Rightarrow> bool" where
  "spared tables D w0 w \<longleftrightarrow>
     (\<forall>table rows0. jb_tables w0 table = Some rows0 \<longrightarrow>
        (\<exists>rows. jb_tables w table = Some rows \<and> (\<forall>x. x \<notin> D \<longrightarrow> count_list rows x = count_list rows0 x) \<and> (table \<notin> set tables \<longrightarrow> rows = rows0)))
     \<and> (\<forall>n \<in> set (jb_indices w0). (\<forall>t \<in> D. \<not> own_index t n) \<longrightarrow> n \<in> set (jb_indices w))
     \<and> (\<forall>k. (\<forall>t \<in> D. \<not> own_key t k) \<longrightarrow> cw_redis (jb_cp w) k = cw_redis (jb_cp w0) k)
     \<and> (\<forall>x. x \<notin> D \<longrightarrow> filter (\<lambda>r. ct_id r = x) (job_tenants w) = filter (\<lambda>r. ct_id r = x) (job_tenants w0))"

definition gone :: "string list \<Rightarrow> nat \<Rightarrow> job_world \<Rightarrow> bool" where
  "gone tables t w \<longleftrightarrow>
     (\<forall>table \<in> set tables. \<forall>rows. jb_tables w table = Some rows \<longrightarrow> t \<notin> set rows)
     \<and> (\<forall>n \<in> set (jb_indices w). \<not> own_index t n)
     \<and> (\<forall>k. own_key t k \<longrightarrow> cw_redis (jb_cp w) k = None)
     \<and> (\<forall>r \<in> set (job_tenants w). ct_id r = t \<longrightarrow> ct_status r \<noteq> ''frozen'')"

lemma delete_rows_tables:
  "delete_rows t tables w = Inr (x, w') \<Longrightarrow>
     w' = w\<lparr>jb_tables := (\<lambda>table. if table \<in> set tables then map_option (removeAll t) (jb_tables w table) else jb_tables w table)\<rparr>"
proof (induction tables arbitrary: w)
  case (Cons y ys)
  then obtain rows where r: "jb_tables w y = Some rows" "delete_rows t ys (w\<lparr>jb_tables := (jb_tables w)(y \<mapsto> removeAll t rows)\<rparr>) = Inr (x, w')"
    by (auto split: if_splits option.splits)
  show ?case using Cons.IH [OF r(2)] r(1) by (auto simp: fun_eq_iff)
qed simp

lemma count_removeAll: "x \<noteq> t \<Longrightarrow> count_list (removeAll t rows) x = count_list rows x"
  by (induction rows) auto

lemma mark_others: "x \<noteq> t \<Longrightarrow> filter (\<lambda>r. ct_id r = x) (db_tenants (MARK_TENANT_PURGED t now db)) = filter (\<lambda>r. ct_id r = x) (db_tenants db)"
proof -
  assume x: "x \<noteq> t"
  have "filter (\<lambda>r. ct_id r = x) (map (\<lambda>r. if ct_id r = t then if ct_status r = ''frozen'' then r\<lparr>ct_status := ''purged'', ct_purged_at := Some now\<rparr> else r else r) rs)
      = filter (\<lambda>r. ct_id r = x) rs" for rs using x by (induction rs) auto
  then show ?thesis by (simp add: MARK_TENANT_PURGED_def update_tenant_def)
qed

lemma spared_stable:
  assumes t: "t \<in> D"
  shows "purge_stable tables t (spared tables D w0)"
  unfolding purge_stable_def
proof (intro conjI allI impI)
  show "jfateless (spared tables D w0)" by (simp add: jfateless_def spared_def job_tenants_def)
next
  fix w w' assume w: "spared tables D w0 w" and d: "delete_rows t tables w = Inr ((), w')"
  have "\<exists>rows. jb_tables w' table = Some rows \<and> (\<forall>x. x \<notin> D \<longrightarrow> count_list rows x = count_list rows0 x) \<and> (table \<notin> set tables \<longrightarrow> rows = rows0)"
    if t0: "jb_tables w0 table = Some rows0" for table rows0
  proof -
    obtain rows where r: "jb_tables w table = Some rows" "\<forall>x. x \<notin> D \<longrightarrow> count_list rows x = count_list rows0 x" "table \<notin> set tables \<longrightarrow> rows = rows0"
      using w t0 unfolding spared_def by blast
    moreover have "count_list (removeAll t rows) x = count_list rows x" if "x \<notin> D" for x using that t by (intro count_removeAll) auto
    ultimately show ?thesis using delete_rows_tables [OF d] by (cases "table \<in> set tables") auto
  qed
  moreover have "jb_indices w' = jb_indices w" "jb_cp w' = jb_cp w" using delete_rows_tables [OF d] by simp_all
  ultimately show "spared tables D w0 w'" using w by (simp add: spared_def job_tenants_def)
next
  fix w rows assume "spared tables D w0 w"
  then show "spared tables D w0 (with_db (\<lambda>db. db\<lparr>db_audit := rows\<rparr>) w)" by (simp add: spared_def with_db_def job_tenants_def)
next
  fix w assume "spared tables D w0 w"
  then show "spared tables D w0 (w\<lparr>jb_indices := filter (\<lambda>n. \<not> own_index t n) (jb_indices w)\<rparr>)" using t by (simp add: spared_def job_tenants_def)
next
  fix w ks assume w: "spared tables D w0 w" and k: "\<forall>k \<in> ks. own_key t k"
  have "(if k \<in> ks then None else cw_redis (jb_cp w) k) = cw_redis (jb_cp w0) k" if "\<forall>t \<in> D. \<not> own_key t k" for k
    using w that t k unfolding spared_def by auto
  then show "spared tables D w0 (on_keys (\<lambda>r k. if k \<in> ks then None else r k) w)" using w by (simp add: spared_def on_keys_def job_tenants_def)
next
  fix w now assume "spared tables D w0 w"
  then show "spared tables D w0 (with_db (MARK_TENANT_PURGED t now) w)"
    using t mark_others [of _ t] by (simp add: spared_def with_db_def job_tenants_def) (metis mark_others)
qed

lemma gone_stable: "purge_stable tables t' (gone tables t)"
  unfolding purge_stable_def
proof (intro conjI allI impI)
  show "jfateless (gone tables t)" by (simp add: jfateless_def gone_def job_tenants_def)
next
  fix w w' assume w: "gone tables t w" and d: "delete_rows t' tables w = Inr ((), w')"
  show "gone tables t w'" using w delete_rows_tables [OF d] by (auto simp: gone_def job_tenants_def)
next
  fix w rows assume "gone tables t w"
  then show "gone tables t (with_db (\<lambda>db. db\<lparr>db_audit := rows\<rparr>) w)" by (simp add: gone_def with_db_def job_tenants_def)
next
  fix w assume "gone tables t w"
  then show "gone tables t (w\<lparr>jb_indices := filter (\<lambda>n. \<not> own_index t' n) (jb_indices w)\<rparr>)" by (simp add: gone_def job_tenants_def)
next
  fix w ks assume "gone tables t w"
  then show "gone tables t (on_keys (\<lambda>r k. if k \<in> ks then None else r k) w)" by (simp add: gone_def on_keys_def job_tenants_def)
next
  fix w now assume "gone tables t w"
  then show "gone tables t (with_db (MARK_TENANT_PURGED t' now) w)"
    by (auto simp: gone_def with_db_def job_tenants_def MARK_TENANT_PURGED_def update_tenant_def split: if_splits)
qed

lemma on_redis_Inr: "on_redis op w = (Inr x, w') \<Longrightarrow> op (cw_now w) (cw_redis w) = (Inr x, cw_redis w') \<and> cw_db w' = cw_db w"
  by (auto simp: on_redis_def dest!: take_fate_same split: prod.splits reply.splits)

lemma delete_Inr: "delete x w = (Inr (), w') \<Longrightarrow> cw_redis w' = (cw_redis w)(x := None) \<and> cw_db w' = cw_db w"
  unfolding delete_def by (drule on_redis_Inr) auto

lemma scan_delete_Inr:
  "scan_delete ps w = (Inr (), w') \<Longrightarrow> cw_redis w' = (\<lambda>k. if k \<in> set (concat ps) then None else cw_redis w k) \<and> cw_db w' = cw_db w"
proof (induction ps arbitrary: w)
  case (Cons page ps)
  obtain u :: unit and w1 where 1: "on_redis (\<lambda>_ r. (Inr (), r)) w = (Inr u, w1)"
    "andthen (if page = [] then ret () else delete_all page) (\<lambda>_. scan_delete ps) w1 = (Inr (), w')"
    by (rule andthen_InrE [OF Cons.prems [unfolded scan_delete.simps]])
  obtain v w2 where 2: "(if page = [] then ret () else delete_all page) w1 = (Inr v, w2)" "scan_delete ps w2 = (Inr (), w')"
    by (rule andthen_InrE [OF 1(2)])
  have "cw_redis w1 = cw_redis w" "cw_db w1 = cw_db w" using on_redis_Inr [OF 1(1)] by simp_all
  moreover have "cw_redis w2 = (\<lambda>k. if k \<in> set page then None else cw_redis w1 k) \<and> cw_db w2 = cw_db w1"
    using 2(1) by (cases page) (auto simp: ret_def delete_all_def dest!: on_redis_Inr)
  ultimately show ?case using Cons.IH [OF 2(2)] by (auto simp: fun_eq_iff)
qed (simp add: ret_def)

lemma pattern_Inr:
  assumes sc: "scan_complete keys pages" and dom: "dom (cw_redis w) \<subseteq> set keys" and run: "purge_pattern_keys pages p w = (Inr (), w')"
  shows "cw_db w' = cw_db w" "cw_redis w k = None \<Longrightarrow> cw_redis w' k = None" "(case p of Key x \<Rightarrow> k = x | Prefix x \<Rightarrow> starts_with k x) \<Longrightarrow> cw_redis w' k = None"
proof -
  have "cw_db w' = cw_db w \<and> (cw_redis w k = None \<longrightarrow> cw_redis w' k = None) \<and> ((case p of Key x \<Rightarrow> k = x | Prefix x \<Rightarrow> starts_with k x) \<longrightarrow> cw_redis w' k = None)"
  proof (cases p)
    case (Key x)
    then have "delete x w = (Inr (), w')" using run by (simp add: purge_pattern_keys_def)
    then show ?thesis using Key by (auto dest!: delete_Inr)
  next
    case (Prefix x)
    then have "scan_delete (pages (cw_redis w) x) w = (Inr (), w')" using run by (simp add: purge_pattern_keys_def)
    from scan_delete_Inr [OF this] have r: "cw_redis w' k = (if k \<in> set (concat (pages (cw_redis w) x)) then None else cw_redis w k)" "cw_db w' = cw_db w" by simp_all
    have "k \<in> set (concat (pages (cw_redis w) x))" if "cw_redis w k \<noteq> None" "starts_with k x" using sc dom that unfolding scan_complete_def by blast
    then show ?thesis using r Prefix by (metis purge_pattern.simps(5))
  qed
  then show "cw_db w' = cw_db w" "cw_redis w k = None \<Longrightarrow> cw_redis w' k = None" "(case p of Key x \<Rightarrow> k = x | Prefix x \<Rightarrow> starts_with k x) \<Longrightarrow> cw_redis w' k = None"
    by blast+
qed

lemma on_cp_Inr: "on_cp m w = (Inr x, w') \<Longrightarrow> m (jb_cp w) = (Inr x, jb_cp w') \<and> w' = w\<lparr>jb_cp := jb_cp w'\<rparr>"
  by (auto simp: on_cp_def split: prod.splits)

lemma patterns_Inr:
  assumes sc: "scan_complete keys pages" and dom: "dom (cw_redis (jb_cp w)) \<subseteq> set keys"
    and run: "jeach (\<lambda>p. on_cp (purge_pattern_keys pages p)) ps w = (Inr (), w')"
  shows "w' = w\<lparr>jb_cp := jb_cp w'\<rparr> \<and> cw_db (jb_cp w') = cw_db (jb_cp w) \<and> (\<forall>k. cw_redis (jb_cp w) k = None
      \<or> list_ex (\<lambda>p. case p of Key x \<Rightarrow> k = x | Prefix x \<Rightarrow> starts_with k x) ps \<longrightarrow> cw_redis (jb_cp w') k = None)"
  using dom run
proof (induction ps arbitrary: w)
  case (Cons p ps)
  obtain w1 where 1: "on_cp (purge_pattern_keys pages p) w = (Inr (), w1)" "jeach (\<lambda>p. on_cp (purge_pattern_keys pages p)) ps w1 = (Inr (), w')"
    using Cons.prems(2) by (auto elim!: jthen_InrE)
  note c = on_cp_Inr [OF 1(1)]
  note p = pattern_Inr [OF sc Cons.prems(1) conjunct1 [OF c]]
  have "x \<in> dom (cw_redis (jb_cp w))" if "x \<in> dom (cw_redis (jb_cp w1))" for x using that p(2) [of x] by (cases "cw_redis (jb_cp w) x") auto
  then have d1: "dom (cw_redis (jb_cp w1)) \<subseteq> set keys" using Cons.prems(1) by blast
  have w': "w' = w1\<lparr>jb_cp := jb_cp w'\<rparr>" "cw_db (jb_cp w') = cw_db (jb_cp w1)" using Cons.IH [OF d1 1(2)] by simp_all
  have all: "w' = w\<lparr>jb_cp := jb_cp w'\<rparr>" by (subst w'(1), subst conjunct2 [OF c]) simp
  have keys: "cw_redis (jb_cp w') k = None"
    if "cw_redis (jb_cp w) k = None \<or> list_ex (\<lambda>p. case p of Key x \<Rightarrow> k = x | Prefix x \<Rightarrow> starts_with k x) (p # ps)" for k
    using that Cons.IH [OF d1 1(2)] p(2,3) [of k] by auto
  show ?case by (intro conjI allI impI) (rule all, use w'(2) p(1) in simp, rule keys)
qed (simp add: jret_def)

lemma mark_status:
  assumes "r \<in> set (db_tenants (MARK_TENANT_PURGED t now db))" and "ct_id r = t"
  shows "ct_status r \<noteq> ''frozen''"
proof -
  let ?f = "\<lambda>q. if ct_id q = t then if ct_status q = ''frozen'' then q\<lparr>ct_status := ''purged'', ct_purged_at := Some now\<rparr> else q else q"
  have "db_tenants (MARK_TENANT_PURGED t now db) = map ?f (db_tenants db)" by (simp add: MARK_TENANT_PURGED_def update_tenant_def)
  then have "r \<in> ?f ` set (db_tenants db)" using assms(1) by (simp only: set_map)
  then obtain q where q: "r = ?f q" by (rule imageE)
  show ?thesis
  proof (cases "ct_id q = t \<and> ct_status q = ''frozen''")
    case True
    then have "ct_status r = ''purged''" using q by simp
    then show ?thesis by simp
  next
    case False
    then have "r = q" using q by (metis (full_types))
    then show ?thesis using False assms(2) by blast
  qed
qed

lemma purge_tenant_gone:
  assumes sc: "scan_complete keys pages" and dom: "dom (cw_redis (jb_cp w)) \<subseteq> set keys" and run: "purge_tenant pages tables t w = (Inr (), w')"
  shows "gone tables t w'"
proof -
  obtain w1 w2 w3 w4 where 1: "purge_tenant_pg t tables w = (Inr (), w1)"
    and 2: "jstep (\<lambda>w. Inr ((), w\<lparr>jb_indices := filter (\<lambda>n. \<not> starts_with n (EVENTS_INDEX_PREFIX @ uuid_str t @ ''-'')) (jb_indices w)\<rparr>)) w1 = (Inr (), w2)"
    and 3: "purge_tenant_redis pages t w2 = (Inr (), w3)"
    and 4: "on_cp (writes (MARK_TENANT_PURGED t)) w3 = (Inr (), w4)" "on_cp (delete (tenantstatus t)) w4 = (Inr (), w')"
    using run unfolding purge_tenant_def by (auto elim!: jthen_InrE)
  obtain fs where pg: "(case delete_rows t tables (w\<lparr>jb_cp := (jb_cp w)\<lparr>cw_fates := fs\<rparr>\<rparr>) of Inl e \<Rightarrow> Inl e
      | Inr (_, w') \<Rightarrow> job_audit t ''tenant.purged'' (tenant_entity t) None (Some [(''tables_purged'', JInt (int (length tables)))]) ''trial_purge_30d'' w') = Inr ((), w1)"
    using jstep_Inr [OF 1 [unfolded purge_tenant_pg_def]] by blast
  obtain v where v: "delete_rows t tables (w\<lparr>jb_cp := (jb_cp w)\<lparr>cw_fates := fs\<rparr>\<rparr>) = Inr ((), v)"
    using pg by (cases "delete_rows t tables (w\<lparr>jb_cp := (jb_cp w)\<lparr>cw_fates := fs\<rparr>\<rparr>)") auto
  have w1: "jb_tables w1 = jb_tables v" using pg unfolding v by (auto simp: job_audit_def with_db_def split: sum.splits)
  have "cw_redis (jb_cp w1) = cw_redis (jb_cp v)" using pg unfolding v by (auto simp: job_audit_def with_db_def split: sum.splits)
  moreover have "cw_redis (jb_cp v) = cw_redis (jb_cp w)" unfolding delete_rows_tables [OF v] by simp
  moreover have "cw_redis (jb_cp w2) = cw_redis (jb_cp w1)" using jstep_Inr [OF 2] by auto
  ultimately have dom2: "dom (cw_redis (jb_cp w2)) \<subseteq> set keys" using dom by simp
  have tables: "jb_tables w1 table = Some rows \<Longrightarrow> table \<in> set tables \<Longrightarrow> t \<notin> set rows" for table rows
    unfolding w1 delete_rows_tables [OF v] by auto
  have w2: "jb_tables w2 = jb_tables w1" "\<forall>n \<in> set (jb_indices w2). \<not> own_index t n" using jstep_Inr [OF 2] by (auto simp: own_index_def)
  have w3: "w3 = w2\<lparr>jb_cp := jb_cp w3\<rparr>" "own_key t k \<Longrightarrow> cw_redis (jb_cp w3) k = None" for k
    using patterns_Inr [OF sc dom2 3 [unfolded purge_tenant_redis_def]] by (auto simp: own_key_def)
  note c4 = on_cp_Inr [OF 4(1)] and c5 = on_cp_Inr [OF 4(2)]
  have mark: "cw_redis (jb_cp w4) = cw_redis (jb_cp w3)" "cw_db (jb_cp w4) = MARK_TENANT_PURGED t (cw_now (jb_cp w3)) (cw_db (jb_cp w3))"
    using writes_Inr [OF conjunct1 [OF c4]] by simp_all
  have del: "cw_redis (jb_cp w') = (cw_redis (jb_cp w4))(tenantstatus t := None)" "cw_db (jb_cp w') = cw_db (jb_cp w4)"
    using delete_Inr [OF conjunct1 [OF c5]] by simp_all
  have "jb_tables w' = jb_tables w4" "jb_indices w' = jb_indices w4" by (subst conjunct2 [OF c5], simp)+
  moreover have "jb_tables w4 = jb_tables w3" "jb_indices w4 = jb_indices w3" by (subst conjunct2 [OF c4], simp)+
  moreover have "jb_tables w3 = jb_tables w2" "jb_indices w3 = jb_indices w2" by (subst w3(1), simp)+
  ultimately have same: "jb_tables w' = jb_tables w2" "jb_indices w' = jb_indices w2" by (metis, metis)
  have "ct_status r \<noteq> ''frozen''" if "r \<in> set (job_tenants w')" "ct_id r = t" for r
    using that mark_status unfolding job_tenants_def del(2) mark(2) by blast
  then show ?thesis unfolding gone_def same w2(1) using tables w2(2) w3(2) by (simp add: del(1) mark(1))
qed

lemma keys_stable: "purge_stable tables t (\<lambda>w. dom (cw_redis (jb_cp w)) \<subseteq> set keys)"
  unfolding purge_stable_def jfateless_def
  by (auto simp: on_keys_def with_db_def dest!: delete_rows_tables split: if_splits)

lemma jeach_gone:
  assumes sc: "scan_complete keys pages" and dom: "dom (cw_redis (jb_cp w)) \<subseteq> set keys" and run: "jeach (purge_tenant pages tables) ts w = (Inr (), w')" and t: "t \<in> set ts \<or> gone tables t w"
  shows "gone tables t w'"
  using dom run t
proof (induction ts arbitrary: w)
  case (Cons x xs)
  obtain w1 where w1: "purge_tenant pages tables x w = (Inr (), w1)" "jeach (purge_tenant pages tables) xs w1 = (Inr (), w')"
    using Cons.prems(2) by (auto elim!: jthen_InrE)
  have d1: "dom (cw_redis (jb_cp w1)) \<subseteq> set keys" by (rule jkeepsD_run [OF purge_keeps [OF keys_stable sc] w1(1) Cons.prems(1)])
  have "gone tables t w1" if "t = x \<or> gone tables t w"
    using that purge_tenant_gone [OF sc Cons.prems(1) w1(1)] jkeepsD_run [OF purge_keeps [OF gone_stable sc] w1(1)] by blast
  then show ?case using Cons.IH [OF d1 w1(2)] Cons.prems(3) by auto
qed (simp add: jret_def)

lemma purge_tables:
  "set (ordered_purge_tables rows) = {table. (''tenantdata'', table, ''delete'') \<in> set rows}" "sorted (map purge_rank (ordered_purge_tables rows))"
  by (force simp: ordered_purge_tables_def)+


definition demo_keys :: "string list" where
  "demo_keys = [ent 4, ''device:'' @ uuid_str 4 @ '':d'', ''device:'' @ uuid_str 5 @ '':d'']"

definition demo_pages :: "rval redis \<Rightarrow> string \<Rightarrow> string list list" where
  "demo_pages r p = [filter (\<lambda>k. r k \<noteq> None \<and> starts_with k p) demo_keys]"

definition demo_expired :: job_world where
  "demo_expired = demo_job\<lparr>jb_cp := demo_world\<lparr>cw_now := 2592001, cw_redis := (\<lambda>k. if k \<in> set demo_keys then Some (RInt 1, None) else None),
       cw_db := demo_cp_db\<lparr>db_tenants := [demo_cp_tenant\<lparr>ct_status := ''frozen'', ct_frozen_at := Some 0\<rparr>]\<rparr>\<rparr>,
     jb_tables := [''alerts'' \<mapsto> [4, 5], ''audit_log'' \<mapsto> [4]],
     jb_registry := [(''tenantdata'', ''alerts'', ''delete''), (''tenantdata'', ''audit_log'', ''retain'')]\<rparr>"

lemma demo_scan: "scan_complete demo_keys demo_pages"
  unfolding scan_complete_def demo_pages_def by auto

lemma demo_due: "PURGE_DUE_TENANTS 30 (job_now demo_expired) (cw_db (jb_cp demo_expired)) = [4]"
  by (simp add: PURGE_DUE_TENANTS_def demo_expired_def demo_cp_tenant_def older_than_days_def job_now_def)

lemma demo_tables: "ordered_purge_tables (jb_registry demo_expired) = [''alerts'']"
  by (simp add: ordered_purge_tables_def demo_expired_def)

text \<open>With no command lost, the purge of the tenant returns.\<close>

definition calm :: "job_world \<Rightarrow> bool" where
  "calm w \<longleftrightarrow> cw_fates (jb_cp w) = []"

lemma calm_redis: "cw_fates w = [] \<Longrightarrow> (\<And>now r. fst (op now r) = Inr ()) \<Longrightarrow> \<exists>w'. on_redis op w = (Inr (), w') \<and> cw_fates w' = []"
  by (simp add: on_redis_def take_fate_def case_prod_beta)

lemma calm_delete: "cw_fates w = [] \<Longrightarrow> \<exists>w'. delete k w = (Inr (), w') \<and> cw_fates w' = []"
  unfolding delete_def by (rule calm_redis) simp_all

lemma calm_scan: "cw_fates w = [] \<Longrightarrow> \<exists>w'. scan_delete ps w = (Inr (), w') \<and> cw_fates w' = []"
proof (induction ps arbitrary: w)
  case (Cons page ps)
  obtain w1 where 1: "on_redis (\<lambda>_ r. (Inr (), r)) w = (Inr (), w1)" "cw_fates w1 = []"
    using calm_redis [OF Cons.prems, of "\<lambda>_ r. (Inr (), r)"] by auto
  have "\<exists>w2. delete_all page w1 = (Inr (), w2) \<and> cw_fates w2 = []" unfolding delete_all_def by (rule calm_redis [OF 1(2)]) simp
  then obtain w2 where 2: "(if page = [] then ret () else delete_all page) w1 = (Inr (), w2)" "cw_fates w2 = []"
    using 1(2) by (cases page) (auto simp: ret_def)
  then show ?case using 1(1) Cons.IH [OF 2(2)] by (simp add: andthen_def)
qed (simp add: ret_def)

lemma calm_cp:
  assumes "calm w" and "\<exists>c. m (jb_cp w) = (Inr (), c) \<and> cw_fates c = []"
  shows "\<exists>w'. on_cp m w = (Inr (), w') \<and> calm w'"
  using assms by (auto simp: calm_def on_cp_def)

lemma calm_each: "(\<And>x w. calm w \<Longrightarrow> \<exists>w'. f x w = (Inr (), w') \<and> calm w') \<Longrightarrow> calm w \<Longrightarrow> \<exists>w'. jeach f xs w = (Inr (), w') \<and> calm w'"
proof (induction xs arbitrary: w)
  case (Cons x xs)
  obtain w1 where "f x w = (Inr (), w1)" "calm w1" using Cons.prems by blast
  then show ?case using Cons.IH [OF Cons.prems(1), of w1] by (auto simp: jthen_def)
qed (simp add: jret_def)

lemma calm_pattern: "calm w \<Longrightarrow> \<exists>w'. on_cp (purge_pattern_keys pages p) w = (Inr (), w') \<and> calm w'"
  by (rule calm_cp) (auto simp: calm_def purge_pattern_keys_def calm_delete calm_scan split: purge_pattern.split)

lemma purge_returns:
  assumes w: "calm w" and pg: "purge_tenant_pg t tables w = (Inr (), w1)" "calm w1"
  shows "fst (purge_tenant pages tables t w) = Inr ()"
proof -
  let ?w2 = "w1\<lparr>jb_indices := filter (\<lambda>n. \<not> starts_with n (EVENTS_INDEX_PREFIX @ uuid_str t @ ''-'')) (jb_indices w1)\<rparr>"
  have fates: "cw_fates (jb_cp w1) = []" using pg(2) by (simp add: calm_def)
  have 2: "jstep (\<lambda>w. Inr ((), w\<lparr>jb_indices := filter (\<lambda>n. \<not> starts_with n (EVENTS_INDEX_PREFIX @ uuid_str t @ ''-'')) (jb_indices w)\<rparr>)) w1 = (Inr (), ?w2)"
    by (simp add: jstep_def take_fate_def fates Let_def)
  have "calm ?w2" using pg(2) by (simp add: calm_def)
  then obtain w3 where 3: "purge_tenant_redis pages t ?w2 = (Inr (), w3)" "calm w3"
    unfolding purge_tenant_redis_def using calm_each [of "\<lambda>p. on_cp (purge_pattern_keys pages p)", OF calm_pattern] by blast
  obtain w4 where 4: "on_cp (writes (MARK_TENANT_PURGED t)) w3 = (Inr (), w4)" "calm w4"
    using calm_cp [OF 3(2), of "writes (MARK_TENANT_PURGED t)"] 3(2) by (auto simp: writes_def on_db_def take_fate_def calm_def)
  obtain w5 where "on_cp (delete (tenantstatus t)) w4 = (Inr (), w5)"
    using calm_cp [OF 4(2), of "delete (tenantstatus t)"] calm_delete [of "jb_cp w4"] 4(2) unfolding calm_def by blast
  then show ?thesis using pg(1) 2 3 4 by (simp add: purge_tenant_def jthen_def)
qed

lemma demo_purge_pg: "\<exists>w1. purge_tenant_pg 4 [''alerts''] demo_expired = (Inr (), w1) \<and> calm w1"
proof -
  have "\<not> isl (serialize_audit_value (\<lambda>_. []) (Some [(''tables_purged'', JInt 1)]))" "\<not> isl (serialize_audit_value (\<lambda>_. []) None)" by code_simp+
  then have s: "\<exists>x. serialize_audit_value (\<lambda>_. []) None = Inr x" "\<exists>x. serialize_audit_value (\<lambda>_. []) (Some [(''tables_purged'', JInt 1)]) = Inr x"
    by (metis sum.collapse(2))+
  have p: "py_strip ''tenant.purged'' \<noteq> []" "table_name_ok ''alerts''" by code_simp+
  have a: "actor_ok JOB_ACTOR" by (simp add: actor_ok_def JOB_ACTOR_def nonempty_def)
  obtain rows where "Audit_Log.write_audit (\<lambda>_. []) (uuid_str 4) JOB_ACTOR ''tenant.purged'' (tenant_entity 4) None
      (Some [(''tables_purged'', JInt 1)]) (Some ''trial_purge_30d'') [] = Inr rows"
    using audit_fits [OF demo_tenant_4(1) p(1) a demo_tenant_4(3) s] by blast
  then show ?thesis
    by (simp add: purge_tenant_pg_def jstep_def demo_expired_def demo_job_def demo_world_def demo_cp_db_def take_fate_def Let_def p job_audit_def audit_rows_def
      calm_def with_db_def)
qed

lemma demo_purged: "fst (job_trial_purge demo_pages demo_expired) = Inr ()"
proof -
  have cfg: "int_config ''trial_purge_after_days'' trial_purge_after_days demo_expired = (Inr 30, demo_expired)"
    by (simp add: int_config_def demo_expired_def demo_job_def trial_purge_after_days_def)
  have due: "on_cp (on_db (\<lambda>now db. Inr (PURGE_DUE_TENANTS 30 now db, db))) demo_expired = (Inr [4], demo_expired)"
    using demo_due by (simp add: on_cp_def on_db_def take_fate_def demo_expired_def demo_world_def demo_job_def job_now_def)
  have reg: "jstep (\<lambda>w. Inr (jb_registry w, w)) demo_expired = (Inr (jb_registry demo_expired), demo_expired)"
    by (simp add: jstep_def take_fate_def demo_expired_def demo_world_def demo_job_def)
  have "calm demo_expired" by (simp add: calm_def demo_expired_def demo_world_def)
  then have "fst (purge_tenant demo_pages [''alerts''] 4 demo_expired) = Inr ()" using demo_purge_pg purge_returns by blast
  then have "fst (jeach (purge_tenant demo_pages [''alerts'']) [4] demo_expired) = Inr ()"
    by (auto simp: jthen_def jret_def split: prod.splits sum.splits)
  then show ?thesis by (simp add: job_trial_purge_def jthen_def cfg due reg demo_tables)
qed


text \<open>The tenants are frozen before anyone is told. A job that is cut short after the update leaves the cached status and the audit log as they
  were, and the next run finds no tenant to announce.\<close>

lemma freeze_announced_once:
  "t \<in> set (fst (FREEZE_EXPIRED_TRIALS now db)) \<Longrightarrow> distinct (map ct_id (db_tenants db)) \<Longrightarrow> t \<notin> set (fst (FREEZE_EXPIRED_TRIALS now' (snd (FREEZE_EXPIRED_TRIALS now db))))"
proof
  assume t: "t \<in> set (fst (FREEZE_EXPIRED_TRIALS now db))" and d: "distinct (map ct_id (db_tenants db))"
    and again: "t \<in> set (fst (FREEZE_EXPIRED_TRIALS now' (snd (FREEZE_EXPIRED_TRIALS now db))))"
  obtain q where q: "q \<in> set (db_tenants db)" "ct_id q = t" "expired_trial now q" using t by (auto simp: FREEZE_EXPIRED_TRIALS_def)
  obtain r where r: "r \<in> set (db_tenants db)" "ct_id r = t" "expired_trial now' r" "\<not> expired_trial now r"
    using again by (auto simp: FREEZE_EXPIRED_TRIALS_def expired_trial_def split: if_splits)
  have "q = r" using d q(1,2) r(1,2) by (simp add: distinct_map inj_on_def)
  then show False using q(3) r(4) by blast
qed

text \<open>The tenants that are due are chosen once, before the first is purged, and a purge does not look at the tenant again. A tenant that was
  taken off the trial plan in the meantime, which makes it active, loses all of its data and stays active.\<close>

lemma unfrozen_stable:
  assumes "\<forall>r \<in> set ts. ct_id r = t \<longrightarrow> ct_status r \<noteq> ''frozen''"
  shows "purge_stable tables t (\<lambda>w. job_tenants w = ts)"
proof -
  have "map (\<lambda>r. if ct_id r = t then if ct_status r = ''frozen'' then r\<lparr>ct_status := ''purged'', ct_purged_at := Some now\<rparr> else r else r) ts = ts" for now
    using assms by (intro map_idI) auto
  then show ?thesis
    unfolding purge_stable_def jfateless_def
    by (auto simp: job_tenants_def on_keys_def with_db_def MARK_TENANT_PURGED_def update_tenant_def dest!: delete_rows_tables)
qed

lemma upgraded_tenant_purged:
  assumes sc: "scan_complete keys pages" and dom: "dom (cw_redis (jb_cp w)) \<subseteq> set keys"
    and active: "\<forall>r \<in> set (job_tenants w). ct_id r = t \<longrightarrow> ct_status r = ''active''" and run: "purge_tenant pages tables t w = (Inr (), w')"
  shows "gone tables t w' \<and> job_tenants w' = job_tenants w"
proof -
  have "\<forall>r \<in> set (job_tenants w). ct_id r = t \<longrightarrow> ct_status r \<noteq> ''frozen''" using active by auto
  from jkeepsD_run [OF purge_keeps [OF unfrozen_stable [OF this] sc] run refl] purge_tenant_gone [OF sc dom run] show ?thesis by blast
qed

end
