(* ===== verification/Rules_Api.thy ===== *)
theory Rules_Api
  imports Detector Alert_Api Access Audit_Log
begin

section \<open>The rules API\<close>

text \<open>
  \<^verbatim>\<open>api/rules.py\<close>: the tenant's view of the active pack, and its toggles. The tables are those of \<open>Rule_Pack\<close> and \<open>Detector\<close>; of a
  toggle only the flag is kept, of a cursor the rule id it carries. Requests come with the principal that \<open>Access.session_auth\<close> returns.
\<close>

record rules_state =
  ra_pub :: publish_db
  ra_store :: rule_store
  ra_audit :: "audit_record list"

datatype rules_error = InvalidLimit | NoActivePack | RuleNotFound | AuditFailed

abbreviation tenant_of :: "Access.session_principal \<Rightarrow> string" where
  "tenant_of who \<equiv> uuid_str (sp_tenant who)"

record rule_item =
  ri_id :: string
  ri_version :: string
  ri_title :: string
  ri_severity :: string
  ri_mitre :: "string list"
  ri_event_classes :: "string list"
  ri_enabled :: bool
  ri_description :: string

record rule_page =
  rp_items :: "rule_item list"
  rp_next :: "string option"
  rp_total :: nat

text \<open>\<open>_RULES_SQL\<close>: rules of the version after the cursor, in order.\<close>

definition RULES :: "string \<Rightarrow> string \<Rightarrow> nat \<Rightarrow> publish_db \<Rightarrow> rule_row list" where
  "RULES version after n db = take n (filter (\<lambda>r. rr_rule_id r > after) (fetch_rules version db))"

definition RULE_COUNT :: "string \<Rightarrow> publish_db \<Rightarrow> nat" where
  "RULE_COUNT version db = length (filter (\<lambda>r. rr_pack_version r = version) (pb_rules db))"

definition RULE_EXISTS :: "string \<Rightarrow> string \<Rightarrow> publish_db \<Rightarrow> bool" where
  "RULE_EXISTS version rule_id db = list_ex (\<lambda>r. rr_pack_version r = version \<and> rr_rule_id r = rule_id) (pb_rules db)"

definition TOGGLES :: "string \<Rightarrow> string list \<Rightarrow> rule_store \<Rightarrow> (string \<times> bool) list" where
  "TOGGLES tenant ids store = filter (\<lambda>(rid, _). rid \<in> set ids) (rs_toggles store tenant)"

definition UPSERT_TOGGLE :: "string \<Rightarrow> string \<Rightarrow> bool \<Rightarrow> rule_store \<Rightarrow> rule_store" where
  "UPSERT_TOGGLE tenant rule_id enabled store =
     store\<lparr>rs_toggles := (rs_toggles store)(tenant := AList.update rule_id enabled (rs_toggles store tenant))\<rparr>"

definition rule_item_of :: "(string \<times> bool) list \<Rightarrow> string list \<Rightarrow> rule_row \<Rightarrow> rule_item" where
  "rule_item_of toggles disabled r =
     (let base = (case map_of toggles (rr_rule_id r) of None \<Rightarrow> rr_enabled_default r | Some b \<Rightarrow> b) in
      \<lparr>ri_id = rr_rule_id r, ri_version = rr_rule_version r, ri_title = rr_title r, ri_severity = rr_severity r, ri_mitre = rr_mitre r,
       ri_event_classes = rr_event_classes r, ri_enabled = (base \<and> rr_rule_id r \<notin> set disabled), ri_description = rr_description r\<rparr>)"

definition list_rules :: "Access.session_principal \<Rightarrow> int option \<Rightarrow> string option \<Rightarrow> rules_state \<Rightarrow> rules_error + rule_page" where
  "list_rules who limit cursor st =
     (case clamp_limit limit of
        Inl _ \<Rightarrow> Inl InvalidLimit
      | Inr page_limit \<Rightarrow>
          let after = (case cursor of None \<Rightarrow> [] | Some rid \<Rightarrow> rid); n = nat page_limit in
          (case active_pack_version (ra_pub st) of
             None \<Rightarrow> Inr \<lparr>rp_items = [], rp_next = None, rp_total = 0\<rparr>
           | Some pack_version \<Rightarrow>
               let rows = RULES pack_version after (n + 1) (ra_pub st);
                   page_rows = take n rows;
                   toggles = TOGGLES (tenant_of who) (map rr_rule_id page_rows) (ra_store st) in
               Inr \<lparr>rp_items = map (rule_item_of toggles (rs_disabled (ra_store st))) page_rows,
                    rp_next = (if length rows > n then Some (rr_rule_id (last page_rows)) else None),
                    rp_total = RULE_COUNT pack_version (ra_pub st)\<rparr>))"

record toggle_answer =
  ta_id :: string
  ta_enabled :: bool
  ta_toggle :: bool

definition toggle_rule :: "(rat \<Rightarrow> string) \<Rightarrow> Access.session_principal \<Rightarrow> string \<Rightarrow> bool \<Rightarrow> rules_state \<Rightarrow> rules_error + toggle_answer \<times> rules_state" where
  "toggle_rule fr who rule_id enabled st =
     (case active_pack_version (ra_pub st) of
        None \<Rightarrow> Inl NoActivePack
      | Some pack_version \<Rightarrow>
          if \<not> RULE_EXISTS pack_version rule_id (ra_pub st) then Inl RuleNotFound
          else
            let store = UPSERT_TOGGLE (tenant_of who) rule_id enabled (ra_store st) in
            (case Audit_Log.write_audit fr (tenant_of who) \<lparr>ae_type = ''user'', ae_id = uuid_str (sp_user who)\<rparr> ''rule.toggle''
                    \<lparr>ae_type = ''rule'', ae_id = rule_id\<rparr> None (Some [(''enabled'', JBool enabled)]) None (ra_audit st) of
               Inl _ \<Rightarrow> Inl AuditFailed
             | Inr rows \<Rightarrow>
                 Inr (\<lparr>ta_id = rule_id, ta_enabled = (enabled \<and> rule_id \<notin> set (rs_disabled store)), ta_toggle = enabled\<rparr>,
                      st\<lparr>ra_store := store, ra_audit := rows\<rparr>)))"

text \<open>What the console shows of a rule.\<close>

definition shown :: "Access.session_principal \<Rightarrow> rules_state \<Rightarrow> rule_row \<Rightarrow> bool" where
  "shown who st r =
     ((case map_of (rs_toggles (ra_store st) (tenant_of who)) (rr_rule_id r) of None \<Rightarrow> rr_enabled_default r | Some b \<Rightarrow> b)
        \<and> rr_rule_id r \<notin> set (rs_disabled (ra_store st)))"

lemma map_of_TOGGLES: "rid \<in> set ids \<Longrightarrow> map_of (TOGGLES tenant ids store) rid = map_of (rs_toggles store tenant) rid"
proof -
  assume "rid \<in> set ids"
  then have "map_of (filter (\<lambda>(r, _). r \<in> set ids) xs) rid = map_of xs rid" for xs :: "(string \<times> bool) list" by (induction xs) auto
  then show ?thesis by (simp add: TOGGLES_def)
qed

lemma listed_item:
  assumes "list_rules who limit cursor st = Inr p" and "i \<in> set (rp_items p)"
  obtains v r where "active_pack_version (ra_pub st) = Some v" "r \<in> set (fetch_rules v (ra_pub st))" "ri_id i = rr_rule_id r" "ri_enabled i = shown who st r"
proof -
  obtain n v where v: "active_pack_version (ra_pub st) = Some v"
    and p: "rp_items p = map (rule_item_of (TOGGLES (tenant_of who) (map rr_rule_id (take n (RULES v (case cursor of None \<Rightarrow> [] | Some rid \<Rightarrow> rid) (n + 1) (ra_pub st)))) (ra_store st))
        (rs_disabled (ra_store st))) (take n (RULES v (case cursor of None \<Rightarrow> [] | Some rid \<Rightarrow> rid) (n + 1) (ra_pub st)))"
    using assms by (auto simp: list_rules_def Let_def split: sum.splits option.splits)
  then obtain r where r: "r \<in> set (take n (RULES v (case cursor of None \<Rightarrow> [] | Some rid \<Rightarrow> rid) (n + 1) (ra_pub st)))"
    and i: "i = rule_item_of (TOGGLES (tenant_of who) (map rr_rule_id (take n (RULES v (case cursor of None \<Rightarrow> [] | Some rid \<Rightarrow> rid) (n + 1) (ra_pub st)))) (ra_store st))
        (rs_disabled (ra_store st)) r" using assms(2) by auto
  have "r \<in> set (fetch_rules v (ra_pub st))" using r unfolding RULES_def by (auto dest!: in_set_takeD)
  moreover have "ri_id i = rr_rule_id r" by (simp add: i rule_item_of_def)
  moreover have "ri_enabled i = shown who st r" using r by (simp add: i rule_item_of_def shown_def map_of_TOGGLES)
  ultimately show thesis using that v by blast
qed

lemma toggle_rule_Inr:
  assumes "toggle_rule fr who rid b st = Inr (ans, st')"
  shows "ra_store st' = UPSERT_TOGGLE (tenant_of who) rid b (ra_store st)" "ra_pub st' = ra_pub st"
    "ta_enabled ans \<longleftrightarrow> b \<and> rid \<notin> set (rs_disabled (ra_store st))" "\<exists>v. active_pack_version (ra_pub st) = Some v \<and> RULE_EXISTS v rid (ra_pub st)"
    "\<exists>a. ra_audit st' = ra_audit st @ [a] \<and> au_actor a = \<lparr>ae_type = ''user'', ae_id = uuid_str (sp_user who)\<rparr> \<and> au_target a = \<lparr>ae_type = ''rule'', ae_id = rid\<rparr>"
  using assms
  by (auto simp: toggle_rule_def Let_def UPSERT_TOGGLE_def Audit_Log.write_audit_def rbind_def split: option.splits if_splits sum.splits)

text \<open>C21: A toggle means the same to the console and to the detector. When it returns, it has changed this rule for this tenant only and
  left one audit record of the user; the enabled flag it answers with is what every later listing shows for the rule while
  nothing else changes, and 30 seconds later it is what the detector does with that rule on that tenant's events, except that the
  detector may hold back a rule that it has just disabled itself.\<close>

theorem toggle_takes_effect:
  assumes run: "toggle_rule fr who rid b st = Inr (ans, st')"
  shows "(\<forall>t r. (t, r) \<noteq> (tenant_of who, rid) \<longrightarrow> map_of (rs_toggles (ra_store st') t) r = map_of (rs_toggles (ra_store st) t) r)
    \<and> ra_pub st' = ra_pub st \<and> rs_disabled (ra_store st') = rs_disabled (ra_store st)
    \<and> (\<exists>a. ra_audit st' = ra_audit st @ [a] \<and> au_actor a = \<lparr>ae_type = ''user'', ae_id = uuid_str (sp_user who)\<rparr> \<and> au_target a = \<lparr>ae_type = ''rule'', ae_id = rid\<rparr>)
    \<and> (\<forall>who' limit cursor p i. sp_tenant who' = sp_tenant who \<longrightarrow> list_rules who' limit cursor st' = Inr p \<longrightarrow> i \<in> set (rp_items p) \<longrightarrow> ri_id i = rid
         \<longrightarrow> ri_enabled i = ta_enabled ans)
    \<and> (\<forall>src now cache rule. cache_ok src now cache \<longrightarrow> cr_rule_id (lr_compiled rule) = rid
         \<longrightarrow> (\<forall>t. now - 30 < t \<and> t \<le> now \<longrightarrow> (rid \<in> set (rs_disabled (src t)) \<longleftrightarrow> rid \<in> set (rs_disabled (ra_store st')))
               \<and> map_of (rs_toggles (src t) (tenant_of who)) rid = map_of (rs_toggles (ra_store st') (tenant_of who)) rid)
         \<longrightarrow> (fst (is_enabled OVERLAY_TTL_SECONDS now (src now) rule (tenant_of who) cache) \<longrightarrow> ta_enabled ans)
           \<and> (rid \<notin> set (fst (runtime_disabled OVERLAY_TTL_SECONDS now (src now) cache))
                \<longrightarrow> fst (is_enabled OVERLAY_TTL_SECONDS now (src now) rule (tenant_of who) cache) = ta_enabled ans))"
proof -
  note st' = toggle_rule_Inr [OF run]
  have toggle: "map_of (rs_toggles (ra_store st') (tenant_of who)) rid = Some b"
    and others: "(t, r) \<noteq> (tenant_of who, rid) \<longrightarrow> map_of (rs_toggles (ra_store st') t) r = map_of (rs_toggles (ra_store st) t) r"
    and disabled: "rs_disabled (ra_store st') = rs_disabled (ra_store st)" for t r
    by (auto simp: st'(1) UPSERT_TOGGLE_def update_conv')
  have listing: "ri_enabled i = ta_enabled ans"
    if who': "sp_tenant who' = sp_tenant who" and l: "list_rules who' limit cursor st' = Inr p" and i: "i \<in> set (rp_items p)" "ri_id i = rid" for who' limit cursor p i
  proof (rule listed_item [OF l i(1)])
    fix v r assume "ri_id i = rr_rule_id r" and e: "ri_enabled i = shown who' st' r"
    then have "rr_rule_id r = rid" using i(2) by simp
    then show ?thesis using e who' toggle by (simp add: shown_def disabled st'(3))
  qed
  have detector: "(fst (is_enabled OVERLAY_TTL_SECONDS now (src now) rule (tenant_of who) cache) \<longrightarrow> ta_enabled ans)
      \<and> (rid \<notin> set (fst (runtime_disabled OVERLAY_TTL_SECONDS now (src now) cache))
           \<longrightarrow> fst (is_enabled OVERLAY_TTL_SECONDS now (src now) rule (tenant_of who) cache) = ta_enabled ans)"
    if c: "cache_ok src now cache" and rule: "cr_rule_id (lr_compiled rule) = rid"
      and same: "\<And>t. now - 30 < t \<Longrightarrow> t \<le> now \<Longrightarrow> (rid \<in> set (rs_disabled (src t)) \<longleftrightarrow> rid \<in> set (rs_disabled (ra_store st')))
               \<and> map_of (rs_toggles (src t) (tenant_of who)) rid = map_of (rs_toggles (ra_store st') (tenant_of who)) rid" for src now cache rule
  proof -
    let ?on = "fst (is_enabled OVERLAY_TTL_SECONDS now (src now) rule (tenant_of who) cache)"
    obtain t1 t2 where t: "now - 30 < t1" "t1 \<le> now" "now - 30 < t2" "t2 \<le> now"
      and 1: "rid \<in> set (rs_disabled (src t1)) \<longrightarrow> \<not> ?on" and 2: "?on \<longrightarrow> toggle_value (src t2) rule (tenant_of who)"
      and 3: "rid \<notin> set (fst (runtime_disabled OVERLAY_TTL_SECONDS now (src now) cache)) \<longrightarrow> ?on = toggle_value (src t2) rule (tenant_of who)"
      using is_enabled_fresh [OF c, of rule "tenant_of who"] rule by auto
    have "toggle_value (src t2) rule (tenant_of who) = b" using same [OF t(3,4)] toggle by (simp add: toggle_value_def rule)
    then show ?thesis using 1 2 3 same [OF t(1,2)] st'(3) disabled by auto
  qed
  show ?thesis using others st'(2) disabled st'(5) listing detector by blast
qed

definition demo_who :: Access.session_principal where
  "demo_who = \<lparr>sp_user = 2, sp_tenant = 4, sp_role = ''admin'', sp_session = ''s'', sp_csrf = ''c''\<rparr>"

definition demo_rules :: rules_state where
  "demo_rules = \<lparr>ra_pub = \<lparr>pb_packs = [\<lparr>pk_version = ''1.0.0'', pk_manifest_hash = ''h'', pk_active = True, pk_rule_count = 1, pk_published_by = ''ci'', pk_published_at = 1\<rparr>],
       pb_rules = [\<lparr>rr_pack_version = ''1.0.0'', rr_rule_id = cr_rule_id (lr_compiled demo_loaded), rr_rule_version = ''1'', rr_title = ''t'', rr_severity = ''high'',
         rr_mitre = [], rr_event_classes = [], rr_description = [], rr_min_schema_version = ''1'', rr_definition = JNull, rr_enabled_default = True\<rparr>], pb_audit = []\<rparr>,
     ra_store = demo_store, ra_audit = []\<rparr>"

lemma demo_rule_id: "cr_rule_id (lr_compiled demo_loaded) \<noteq> []"
  by code_simp

lemma demo_toggle: "\<exists>ans st'. toggle_rule (\<lambda>_. []) demo_who (cr_rule_id (lr_compiled demo_loaded)) False demo_rules = Inr (ans, st')"
proof -
  have "\<not> isl (serialize_audit_value (\<lambda>_. []) (Some [(''enabled'', JBool False)]))" "\<not> isl (serialize_audit_value (\<lambda>_. []) None)" by code_simp+
  then obtain x y where "serialize_audit_value (\<lambda>_. []) (Some [(''enabled'', JBool False)]) = Inr x" "serialize_audit_value (\<lambda>_. []) None = Inr y"
    by (metis sum.collapse(2))
  moreover have "uuid_of (uuid_str 4) = Some 4" by (rule uuid_of_str) simp
  moreover have "py_strip ''rule.toggle'' \<noteq> []" by code_simp
  moreover have "uuid_str 2 \<noteq> []" by (simp add: uuid_str_def Let_def)
  ultimately show ?thesis using demo_rule_id
    by (simp add: toggle_rule_def demo_rules_def active_pack_version_def RULE_EXISTS_def Let_def Audit_Log.write_audit_def actor_ok_def target_ok_def demo_who_def rbind_def)
qed

theorem toggle_takes_effect_witness:
  "\<exists>ans st'. toggle_rule (\<lambda>_. []) demo_who (cr_rule_id (lr_compiled demo_loaded)) False demo_rules = Inr (ans, st')
     \<and> cache_ok (\<lambda>_. ra_store st') 5 new_cache
     \<and> fst (is_enabled OVERLAY_TTL_SECONDS 5 (ra_store st') demo_loaded (uuid_str 4) new_cache) = ta_enabled ans"
proof -
  obtain ans st' where run: "toggle_rule (\<lambda>_. []) demo_who (cr_rule_id (lr_compiled demo_loaded)) False demo_rules = Inr (ans, st')"
    using demo_toggle by blast
  have c: "cache_ok (\<lambda>_. ra_store st') 5 new_cache" by (rule cache_ok_new) simp
  have "rs_disabled (ra_store st') = []" using toggle_takes_effect [OF run] by (simp add: demo_rules_def demo_store_def)
  then have d: "cr_rule_id (lr_compiled demo_loaded) \<notin> set (fst (runtime_disabled OVERLAY_TTL_SECONDS 5 (ra_store st') new_cache))"
    by (simp add: runtime_disabled_def new_cache_def)
  have "sp_tenant demo_who = 4" by (simp add: demo_who_def)
  with toggle_takes_effect [OF run] c d have "fst (is_enabled OVERLAY_TTL_SECONDS 5 (ra_store st') demo_loaded (uuid_str 4) new_cache) = ta_enabled ans"
    by (metis (no_types, lifting))
  then show ?thesis using run c by blast
qed

subsection \<open>The listing is complete\<close>

text \<open>Following the cursors; the fuel bounds the number of pages.\<close>

fun rule_pages :: "nat \<Rightarrow> Access.session_principal \<Rightarrow> int option \<Rightarrow> string option \<Rightarrow> rules_state \<Rightarrow> rule_item list option" where
  "rule_pages 0 who limit cursor st = None"
| "rule_pages (Suc k) who limit cursor st =
     (case list_rules who limit cursor st of
        Inl _ \<Rightarrow> None
      | Inr p \<Rightarrow> (case rp_next p of None \<Rightarrow> Some (rp_items p) | Some rid \<Rightarrow> map_option (\<lambda>rest. rp_items p @ rest) (rule_pages k who limit (Some rid) st)))"

lemma next_rows:
  assumes "sorted_wrt (\<lambda>x y. rr_rule_id x < rr_rule_id y) xs" and "0 < n" and "n < length (filter (\<lambda>r. rr_rule_id r > a) xs)"
  shows "filter (\<lambda>r. rr_rule_id r > rr_rule_id (last (take n (filter (\<lambda>r. rr_rule_id r > a) xs)))) xs = drop n (filter (\<lambda>r. rr_rule_id r > a) xs)"
proof -
  let ?ys = "filter (\<lambda>r. rr_rule_id r > a) xs" and ?z = "last (take n (filter (\<lambda>r. rr_rule_id r > a) xs))"
  have ys: "sorted_wrt (\<lambda>x y. rr_rule_id x < rr_rule_id y) ?ys" using assms(1) by (rule sorted_wrt_filter)
  have ne: "take n ?ys \<noteq> []" using assms(2,3) by auto
  then have z: "?z \<in> set (take n ?ys)" by (rule last_in_set)
  then have "a < rr_rule_id ?z" by (auto dest: in_set_takeD)
  then have "filter (\<lambda>r. rr_rule_id r > rr_rule_id ?z) xs = filter (\<lambda>r. rr_rule_id r > rr_rule_id ?z) ?ys"
    by (auto simp: intro!: filter_cong)
  also have "\<dots> = filter (\<lambda>r. rr_rule_id r > rr_rule_id ?z) (take n ?ys) @ filter (\<lambda>r. rr_rule_id r > rr_rule_id ?z) (drop n ?ys)"
    by (metis append_take_drop_id filter_append)
  also have "filter (\<lambda>r. rr_rule_id r > rr_rule_id ?z) (take n ?ys) = []"
  proof -
    have "sorted_wrt (\<lambda>x y. rr_rule_id x < rr_rule_id y) (butlast (take n ?ys) @ [?z])" using sorted_wrt_take [OF ys] ne by simp
    then have "\<forall>r \<in> set (butlast (take n ?ys)). rr_rule_id r < rr_rule_id ?z" by (simp add: sorted_wrt_append)
    moreover have "set (take n ?ys) = insert ?z (set (butlast (take n ?ys)))" using ne by (metis append_butlast_last_id list.simps(15) rotate1.simps(2) set_rotate1)
    ultimately show ?thesis by (auto simp: filter_empty_conv)
  qed
  also have "filter (\<lambda>r. rr_rule_id r > rr_rule_id ?z) (drop n ?ys) = drop n ?ys"
  proof -
    have "sorted_wrt (\<lambda>x y. rr_rule_id x < rr_rule_id y) (take n ?ys @ drop n ?ys)" using ys by simp
    then have "\<forall>r \<in> set (drop n ?ys). rr_rule_id ?z < rr_rule_id r" using z unfolding sorted_wrt_append by blast
    then show ?thesis by (simp add: filter_id_conv)
  qed
  finally show ?thesis by simp
qed

lemma rules_sorted:
  assumes "pub_ok lib db"
  shows "sorted_wrt (\<lambda>x y. rr_rule_id x < rr_rule_id y) (fetch_rules v db)"
proof -
  have "distinct (map (\<lambda>r. (rr_pack_version r, rr_rule_id r)) (filter (\<lambda>r. rr_pack_version r = v) (pb_rules db)))"
    using assms by (simp add: pub_ok_def distinct_map inj_on_def)
  then have "distinct (map rr_rule_id (filter (\<lambda>r. rr_pack_version r = v) (pb_rules db)))"
    by (auto simp: distinct_map inj_on_def)
  then have "distinct (map rr_rule_id (fetch_rules v db))" by (simp add: fetch_rules_def distinct_map)
  moreover have "sorted (map rr_rule_id (fetch_rules v db))" by (simp add: fetch_rules_def)
  ultimately have "sorted_wrt (<) (map rr_rule_id (fetch_rules v db))" by (simp add: strict_sorted_iff)
  then show ?thesis by (simp add: sorted_wrt_map)
qed

text \<open>The pages after a cursor are the rules after it, shown as the tenant sees them, once each and in order.\<close>

lemma rule_pages_from:
  assumes ok: "pub_ok lib (ra_pub st)" and v: "active_pack_version (ra_pub st) = Some v" and limit: "clamp_limit limit = Inr n"
    and fuel: "length (filter (\<lambda>r. rr_rule_id r > (case cursor of None \<Rightarrow> [] | Some rid \<Rightarrow> rid)) (fetch_rules v (ra_pub st))) < fuel"
  shows "\<exists>items. rule_pages fuel who limit cursor st = Some items
     \<and> map (\<lambda>i. (ri_id i, ri_enabled i)) items = map (\<lambda>r. (rr_rule_id r, shown who st r))
         (filter (\<lambda>r. rr_rule_id r > (case cursor of None \<Rightarrow> [] | Some rid \<Rightarrow> rid)) (fetch_rules v (ra_pub st)))"
  using fuel
proof (induction fuel arbitrary: cursor)
  case (Suc k)
  let ?a = "case cursor of None \<Rightarrow> [] | Some rid \<Rightarrow> rid"
  let ?rows = "filter (\<lambda>r. rr_rule_id r > ?a) (fetch_rules v (ra_pub st))" and ?n = "nat n"
  let ?item = "rule_item_of (TOGGLES (tenant_of who) (map rr_rule_id (take ?n ?rows)) (ra_store st)) (rs_disabled (ra_store st))"
  have n: "0 < ?n" using limit by (auto simp: clamp_limit_def DEFAULT_LIMIT_def split: option.splits if_splits)
  have p: "list_rules who limit cursor st = Inr \<lparr>rp_items = map ?item (take ?n ?rows),
      rp_next = (if length ?rows > ?n then Some (rr_rule_id (last (take ?n ?rows))) else None), rp_total = RULE_COUNT v (ra_pub st)\<rparr>"
    by (simp add: list_rules_def limit v RULES_def Let_def min_def)
  have items: "map (\<lambda>i. (ri_id i, ri_enabled i)) (map ?item (take ?n ?rows)) = map (\<lambda>r. (rr_rule_id r, shown who st r)) (take ?n ?rows)"
    by (auto simp: rule_item_of_def shown_def map_of_TOGGLES)
  show ?case
  proof (cases "length ?rows > ?n")
    case False
    then show ?thesis using p items by simp
  next
    case True
    let ?z = "rr_rule_id (last (take ?n ?rows))"
    have rest: "filter (\<lambda>r. rr_rule_id r > ?z) (fetch_rules v (ra_pub st)) = drop ?n ?rows" by (rule next_rows [OF rules_sorted [OF ok] n True])
    then have "length (filter (\<lambda>r. rr_rule_id r > (case Some ?z of None \<Rightarrow> [] | Some rid \<Rightarrow> rid)) (fetch_rules v (ra_pub st))) < k"
      using Suc.prems n True by simp
    from Suc.IH [OF this] obtain more where more: "rule_pages k who limit (Some ?z) st = Some more"
      "map (\<lambda>i. (ri_id i, ri_enabled i)) more = map (\<lambda>r. (rr_rule_id r, shown who st r)) (drop ?n ?rows)" using rest by auto
    have "rule_pages (Suc k) who limit cursor st = Some (map ?item (take ?n ?rows) @ more)" using p True more(1) by simp
    moreover have "map (\<lambda>i. (ri_id i, ri_enabled i)) (map ?item (take ?n ?rows) @ more) = map (\<lambda>r. (rr_rule_id r, shown who st r)) ?rows"
      unfolding map_append items more(2) by (metis append_take_drop_id map_append)
    ultimately show ?thesis by blast
  qed
qed simp

end
