(* ===== verification/Spec2Isabelle.thy ===== *)
theory Spec2Isabelle
  imports Alert_Api Assets Stream_Consumer Ids Pipeline Normalizer Enrollment Jobs Rules_Api
begin

text \<open>
  A verification of the Python services of a multi-tenant security operations platform.

  \<^bold>\<open>The program.\<close> Endpoint agents and log shippers send batches of events to the data plane
  (\<^verbatim>\<open>src/services/dataplane\<close>). The ingest API authenticates the sender, checks size, quota and tenant status, and
  publishes the batch to a Redis stream. Workers form a pipeline over such streams: the normalizer turns raw events into
  typed documents with server-assigned identity and stores them, the detector evaluates compiled detection rules, the alerter
  opens, merges and closes alerts, the triager asks a language model for a verdict and checks it, and the asset worker keeps the
  inventory of endpoints. The console API reads and changes alerts, assets, keys, tokens and devices. The control plane
  (\<^verbatim>\<open>src/services/controlplane\<close>) signs up and provisions tenants, logs users in, guards the console routes with sessions, and lets
  operators change plans and freeze tenants; background jobs end trials and delete what is past its retention. The packages under
  \<^verbatim>\<open>src/packages\<close> hold what the services share: streams, schemas, tenancy, entitlements, audit.

  \<^bold>\<open>The theories.\<close> Each opens with the files it models; names follow the source.
  \<^item> \<open>Soc_Prelude\<close>: JSON values, Python's string operations, results, UUIDs and the lemmas all theories share.
    \<open>Py_Re\<close> is a backtracking matcher for the fixed regular expressions of the sources; \<open>Py_Json\<close> is JSON printing.
  \<^item> \<open>Rule_Compiler\<close> (\<^verbatim>\<open>rulepub/compiler.py\<close>): validation, compilation and evaluation of rules. A compiled rule means what its
    document says, reads only the fields it names and stays within its size limits.
  \<^item> \<open>Rule_Pack\<close> (\<^verbatim>\<open>rulepub/packio.py\<close>, \<^verbatim>\<open>publish.py\<close>, \<^verbatim>\<open>workers/detector_pack.py\<close>) and \<open>Detector\<close>
    (\<^verbatim>\<open>workers/detector.py\<close>, \<^verbatim>\<open>detector_engine.py\<close>): published packs load again, enablement is fresh within its TTL, a rule is disabled
    automatically only on errors of several tenants. \<open>Rules_Api\<close> (\<^verbatim>\<open>api/rules.py\<close>): what the console shows of a rule is what the detector does.
  \<^item> \<open>Scoring\<close> (\<^verbatim>\<open>scoring.py\<close>): the priority formula, its bounds and the clamp on the model's severity.
  \<^item> \<open>Alert_Store\<close>, \<open>Alerter\<close> (\<^verbatim>\<open>workers/alerter.py\<close>) and \<open>Alert_Api\<close> (\<^verbatim>\<open>api/alerts.py\<close>, \<^verbatim>\<open>core/pagination.py\<close>): the alert tables with
    their constraints; the dedup window, progress, idempotence under redelivery and isolation of tenants; transitions refine an abstract
    life cycle; pagination returns every row once and ends.
  \<^item> \<open>Stream_Consumer\<close> (\<^verbatim>\<open>packages/pipeline\<close>): producer, envelope and the consumer group protocol against an arbitrary server:
    acknowledgements follow effects, deliveries are bounded.
  \<^item> \<open>Pipeline\<close>: detector, stream and alerter composed: every detection that is delivered becomes an alert.
  \<^item> \<open>Assets\<close> (\<^verbatim>\<open>workers/asset_dedup.py\<close>, \<^verbatim>\<open>api/assets.py\<close>): the inventory invariant, no two agents on one asset, manual corrections
    prevail.
  \<^item> \<open>Triage_Output\<close>, \<open>Triage\<close> (\<^verbatim>\<open>triage/\<close>, \<^verbatim>\<open>workers/triager.py\<close>): only checked output is stored, calls and cost are bounded, the alert store
    stays consistent.
  \<^item> \<open>Event_Schema\<close>, \<open>Normalizer\<close> (\<^verbatim>\<open>packages/schemas\<close>, \<^verbatim>\<open>workers/normalizer.py\<close>): typing of events, the server's authority over their
    identity, and an account of every event of a batch.
  \<^item> \<open>Quotas\<close> (\<^verbatim>\<open>core/quotas.py\<close>): the ingest window, and the deep-investigation counter under every interleaving of its Redis commands.
  \<^item> \<open>Credentials\<close> (\<^verbatim>\<open>core/tokens.py\<close>, entitlement service tokens), \<open>Audit_Log\<close> (\<^verbatim>\<open>packages/audit\<close>), \<open>Access\<close>
    (\<^verbatim>\<open>core/status_stores.py\<close>, \<^verbatim>\<open>core/sessions.py\<close>, \<^verbatim>\<open>api/deps.py\<close>, \<^verbatim>\<open>tenancy/gateway.py\<close>), \<open>Entitlements\<close>
    (\<^verbatim>\<open>entitlements-client\<close>): round trips, redaction, and how long caches may lag behind a change of rights.
  \<^item> \<open>Ingest_Api\<close> (\<^verbatim>\<open>api/ingest.py\<close>) and \<open>Enrollment\<close> (\<^verbatim>\<open>api/enrollment.py\<close>): accepted means published, identity from the request to the
    stored document, the endpoint cap, the life of keys and device credentials.
  \<^item> \<open>Ids\<close>: ULIDs and public ids.
  \<^item> \<open>Control_Store\<close> (\<^verbatim>\<open>redis_keys.py\<close>, \<^verbatim>\<open>auditing.py\<close>) is the state of the control plane and a small logic of what its operations keep
    whatever becomes of their commands. On it rest \<open>Sessions\<close> (\<^verbatim>\<open>sessions.py\<close>, \<^verbatim>\<open>tenantstatus.py\<close>, \<^verbatim>\<open>authz.py\<close>): the
    guard of the console routes accepts only sessions that are due; \<open>Console_Auth\<close> (\<^verbatim>\<open>routes/auth.py\<close>, \<^verbatim>\<open>routes/users.py\<close>,
    \<^verbatim>\<open>security/passwords.py\<close>): whom a login lets in, and that changes of credentials end the sessions that rest on them; \<open>Provisioning\<close>
    (\<^verbatim>\<open>routes/signup.py\<close>, \<^verbatim>\<open>saga.py\<close>, \<^verbatim>\<open>entitlements.py\<close>): the outcome of the saga over any number of interrupted runs; \<open>Operator_Api\<close>
    (\<^verbatim>\<open>routes/internal.py\<close>, \<^verbatim>\<open>security/service_auth.py\<close>): operator changes are audited, and a freeze takes effect on both planes.
  \<^item> \<open>Jobs\<close> (\<^verbatim>\<open>jobs/tasks.py\<close>): retention deletes nothing that has to be kept, and a purge removes exactly the tenants that are due.

  \<^bold>\<open>How state is modelled.\<close> Each database table is a list of records or a map in a state record, each transaction one function from
  state to state and result; constraints of the migrations that the code can violate are branches of it. Redis is a map with
  expiry times, and each command takes the fate of its reply (\<open>Replied\<close>, \<open>Lost\<close> after it ran, \<open>Refused\<close>) as an argument. Exceptions
  and error responses are constructors of an error type. Where several callers interleave, the operations are steps
  of an inductive relation. Time, random ids and the answers of other systems are arguments.

  \<^bold>\<open>Parameters.\<close> Code outside \<^verbatim>\<open>src/\<close> is an argument with its documented behaviour as a named hypothesis: the regular-expression engine
  for rule patterns, \<^verbatim>\<open>repr\<close> of floats, hash functions, the parsers of pydantic for times, numbers and UUIDs, the Redis server of the
  consumer, Elasticsearch's bulk endpoint, the answers of \<^verbatim>\<open>SCAN\<close>,
  password hashing, the language model, X.509 operations.

  \<^bold>\<open>Bounds and fuel.\<close> Loops are structural or have a termination proof. The regular-expression matcher recurses on the expression and
  the rest of the input; pagination is shown to end after as many pages as there are rows; consumer and triage loops are bounded by the
  configured limits, and the theorems state these bounds.

  \<^bold>\<open>Not modelled.\<close> The scheduler of the background jobs, the remaining console routes of the data plane (investigation,
  audit, internal), cookies; certificate handling; telemetry; process start-up and configuration; prompt templates and the model client; the
  migration runner; response rendering. The Rust agent and the TypeScript console are separate programs.
\<close>

end
